(* ===== verification/Prelude.thy ===== *)
theory Prelude
  imports Main "HOL-Library.Word" "HOL-Library.AList" "HOL-Library.Multiset"
begin

text \<open>
  Shared vocabulary of the development: the Rust integer types at their width, the two
  standard-library maps the daemon uses, and the interface of a system that moves by
  steps.

  \<^item> A \<^verbatim>\<open>HashMap\<close> is an association list with distinct keys; the order of the list is
    the iteration order, which Rust leaves unspecified, so every theorem quantifies over
    all of them. Insertion and removal are \<^const>\<open>AList.update\<close> and
    \<^const>\<open>AList.delete\<close>.
  \<^item> A \<^verbatim>\<open>BTreeMap\<close> is an association list with strictly increasing keys, with the
    insertion \<open>bt_insert\<close> below.
  Both are interpretations of the locale \<open>keyed_store\<close>, which states what a client of
  either map relies on.
\<close>

section \<open>Integers and maps\<close>

type_synonym u8 = "8 word"
type_synonym u16 = "16 word"
type_synonym u32 = "32 word"
type_synonym u64 = "64 word"
type_synonym usize = "64 word"
type_synonym i64 = int

type_synonym ('k, 'v) hmap = "('k \<times> 'v) list"
type_synonym ('k, 'v) btmap = "('k \<times> 'v) list"

named_theorems handler_simps \<open>the definitions of the command handlers, for unfolding\<close>

named_theorems frame_simps \<open>which fields an operation leaves alone\<close>

abbreviation keys :: "('k \<times> 'v) list \<Rightarrow> 'k list" where
  "keys m \<equiv> map fst m"

definition hm_wf :: "('k, 'v) hmap \<Rightarrow> bool" where
  "hm_wf m \<longleftrightarrow> distinct (keys m)"

definition bt_wf :: "('k::linorder, 'v) btmap \<Rightarrow> bool" where
  "bt_wf m \<longleftrightarrow> sorted_wrt (<) (keys m)"

text \<open>\<^verbatim>\<open>BTreeMap::insert\<close>: a present key keeps its place and takes the new value.\<close>

fun bt_insert :: "'k::linorder \<Rightarrow> 'v \<Rightarrow> ('k, 'v) btmap \<Rightarrow> ('k, 'v) btmap" where
  "bt_insert k v [] = [(k, v)]"
| "bt_insert k v ((k', v') # m) =
     (if k < k' then (k, v) # (k', v') # m
      else if k = k' then (k, v) # m
      else (k', v') # bt_insert k v m)"

text \<open>\<^verbatim>\<open>get_mut\<close> followed by an assignment: the value of a present key is changed.\<close>

definition map_at :: "'k \<Rightarrow> ('v \<Rightarrow> 'v) \<Rightarrow> ('k \<times> 'v) list \<Rightarrow> ('k \<times> 'v) list" where
  "map_at k f m = map (\<lambda>(k', v). (k', if k' = k then f v else v)) m"

text \<open>A key of a map with strictly increasing keys is below all later ones.\<close>

lemma bt_wf_Cons:
  "bt_wf ((k, v) # m) \<longleftrightarrow> (\<forall>k' \<in> set (keys m). k < k') \<and> bt_wf m"
  by (simp add: bt_wf_def)

lemma bt_wf_Nil [simp]: "bt_wf []"
  by (simp add: bt_wf_def)

lemma hm_wf_Nil [simp]: "hm_wf []"
  by (simp add: hm_wf_def)

lemma bt_wf_hm_wf: "bt_wf m \<Longrightarrow> hm_wf m"
  by (simp add: bt_wf_def hm_wf_def strict_sorted_iff)

lemma keys_bt_insert [simp]: "set (keys (bt_insert k v m)) = insert k (set (keys m))"
  by (induction k v m rule: bt_insert.induct) auto

lemma bt_wf_insert: "bt_wf m \<Longrightarrow> bt_wf (bt_insert k v m)"
proof (induction k v m rule: bt_insert.induct)
  case (1 k v)
  show ?case by (simp add: bt_wf_Cons)
next
  case (2 k v k' v' m)
  then show ?case by (auto simp: bt_wf_Cons simp del: set_map)
qed

lemma map_of_bt_insert [simp]:
  "map_of (bt_insert k v m) = (map_of m)(k \<mapsto> v)"
  by (induction k v m rule: bt_insert.induct) (auto simp: fun_eq_iff)

lemma bt_wf_filter: "bt_wf m \<Longrightarrow> bt_wf (filter P m)"
  by (induction m) (auto simp: bt_wf_Cons)

lemma bt_wf_delete: "bt_wf m \<Longrightarrow> bt_wf (AList.delete k m)"
  by (simp add: AList.delete_eq bt_wf_filter)

lemma hm_wf_update: "hm_wf m \<Longrightarrow> hm_wf (AList.update k v m)"
  by (simp add: hm_wf_def distinct_update)

lemma hm_wf_delete: "hm_wf m \<Longrightarrow> hm_wf (AList.delete k m)"
  by (simp add: hm_wf_def distinct_delete)

lemma keys_map_at [simp]: "keys (map_at k f m) = keys m"
  by (induction m) (auto simp: map_at_def)

lemma map_of_map_at [simp]:
  "map_of (map_at k f m) k' = (if k' = k then map_option f (map_of m k) else map_of m k')"
  by (induction m) (auto simp: map_at_def)

lemma bt_wf_map_at [simp]: "bt_wf (map_at k f m) \<longleftrightarrow> bt_wf m"
  by (simp add: bt_wf_def)

lemma map_at_absent: "k \<notin> set (keys m) \<Longrightarrow> map_at k f m = m"
  by (induction m) (auto simp: map_at_def)

lemma length_map_at [simp]: "length (map_at k f m) = length m"
  by (simp add: map_at_def)

text \<open>Two maps with the same keys in the same order and the same lookups are equal.\<close>

lemma alist_eqI:
  assumes "keys m = keys m'" and "distinct (keys m)" and "map_of m = map_of m'"
  shows "m = m'"
proof (rule nth_equalityI)
  show len: "length m = length m'" using assms(1) by (metis length_map)
  fix i assume i: "i < length m"
  have a: "fst (m ! i) = fst (m' ! i)" using assms(1) i len by (metis nth_map)
  have "map_of m (fst (m ! i)) = Some (snd (m ! i))"
    using assms(2) i by simp
  moreover have "map_of m' (fst (m' ! i)) = Some (snd (m' ! i))"
    using assms(1,2) i len by simp
  ultimately have "snd (m ! i) = snd (m' ! i)" using a assms(3) by simp
  with a show "m ! i = m' ! i" by (simp add: prod_eq_iff)
qed

lemma bt_wf_eqI:
  "keys m = keys m' \<Longrightarrow> bt_wf m \<Longrightarrow> (\<And>k. map_of m k = map_of m' k) \<Longrightarrow> m = m'"
  by (rule alist_eqI) (auto simp: bt_wf_def strict_sorted_iff)

lemma bt_insert_last:
  "(\<And>k'. k' \<in> set (keys m) \<Longrightarrow> k' < k) \<Longrightarrow> bt_insert k v m = m @ [(k, v)]"
proof (induction m)
  case Nil
  show ?case by simp
next
  case (Cons kv m)
  from Cons.prems [of "fst kv"] have "fst kv < k" by simp
  moreover have "bt_insert k v m = m @ [(k, v)]" using Cons.prems by (intro Cons.IH) auto
  ultimately show ?case by (cases kv) auto
qed

text \<open>The successor of a machine integer that is not the largest.\<close>

lemma unat_succ:
  fixes w :: "'a::len word"
  assumes "w \<noteq> - 1"
  shows "unat (w + 1) = Suc (unat w)"
proof -
  have "w + 1 \<noteq> 0" using assms by (metis add_eq_0_iff2)
  then show ?thesis using unatSuc [of w] by (simp add: add.commute)
qed

lemma word_less_not_max: "x < y \<Longrightarrow> x \<noteq> - 1"
  for x y :: "'a::len word"
  using word_n1_ge [of y] by auto

section \<open>The interface of a keyed map\<close>

text \<open>
  What the daemon's code relies on of \<^verbatim>\<open>HashMap\<close> and \<^verbatim>\<open>BTreeMap\<close>: a lookup sees the
  last insertion of its key and no other, a removal hides one key only, and the
  representation stays well formed.
\<close>

locale keyed_store =
  fixes get :: "'m \<Rightarrow> 'k \<Rightarrow> 'v option"
    and put :: "'k \<Rightarrow> 'v \<Rightarrow> 'm \<Rightarrow> 'm"
    and del :: "'k \<Rightarrow> 'm \<Rightarrow> 'm"
    and wf :: "'m \<Rightarrow> bool"
  assumes get_put: "wf m \<Longrightarrow> get (put k v m) k' = (if k' = k then Some v else get m k')"
    and get_del: "wf m \<Longrightarrow> get (del k m) k' = (if k' = k then None else get m k')"
    and wf_put: "wf m \<Longrightarrow> wf (put k v m)"
    and wf_del: "wf m \<Longrightarrow> wf (del k m)"
begin

definition put_all :: "('k \<times> 'v) list \<Rightarrow> 'm \<Rightarrow> 'm" where
  "put_all kvs m = fold (\<lambda>(k, v). put k v) kvs m"

lemma put_all_Nil [simp]: "put_all [] m = m"
  by (simp add: put_all_def)

lemma put_all_Cons [simp]: "put_all ((k, v) # kvs) m = put_all kvs (put k v m)"
  by (simp add: put_all_def)

lemma wf_put_all: "wf m \<Longrightarrow> wf (put_all kvs m)"
  by (induction kvs arbitrary: m) (auto simp: wf_put)

text \<open>Loading a table row by row: a row's value is found under its key.\<close>

lemma get_put_all:
  "wf m \<Longrightarrow> distinct (map fst kvs) \<Longrightarrow>
   get (put_all kvs m) k = (case map_of kvs k of Some v \<Rightarrow> Some v | None \<Rightarrow> get m k)"
proof (induction kvs arbitrary: m)
  case Nil
  then show ?case by simp
next
  case (Cons kv kvs)
  obtain a b where kv: "kv = (a, b)" by (cases kv)
  from Cons.prems(2) kv have "map_of kvs a = None" by (simp add: map_of_eq_None_iff)
  with Cons kv show ?case by (auto simp: wf_put get_put split: option.splits)
qed

lemma put_del_get: "wf m \<Longrightarrow> get (del k (put k v m)) k' = get (del k m) k'"
  by (simp add: get_put get_del wf_put)

end

interpretation hm: keyed_store map_of AList.update AList.delete hm_wf
  by unfold_locales
    (simp_all add: update_conv' delete_conv' restrict_map_def hm_wf_update hm_wf_delete)

interpretation bt: keyed_store map_of bt_insert AList.delete bt_wf
  by unfold_locales
    (simp_all add: delete_conv' restrict_map_def bt_wf_insert bt_wf_delete)

section \<open>Systems that move by steps\<close>

text \<open>
  A system is a set of initial states and a step relation. An invariant is a predicate
  that holds initially and is kept by every step; it then holds in every state a run can
  reach. The command loops and the interleaved queue accounting are interpretations.
\<close>

inductive reachable :: "('s \<Rightarrow> bool) \<Rightarrow> ('s \<Rightarrow> 's \<Rightarrow> bool) \<Rightarrow> 's \<Rightarrow> bool"
  for init :: "'s \<Rightarrow> bool" and step :: "'s \<Rightarrow> 's \<Rightarrow> bool" where
  reachable_init: "init s \<Longrightarrow> reachable init step s"
| reachable_step: "reachable init step s \<Longrightarrow> step s t \<Longrightarrow> reachable init step t"

locale stepping_system =
  fixes init :: "'s \<Rightarrow> bool" and step :: "'s \<Rightarrow> 's \<Rightarrow> bool" and inv :: "'s \<Rightarrow> bool"
  assumes inv_init: "init s \<Longrightarrow> inv s"
    and inv_step: "inv s \<Longrightarrow> step s t \<Longrightarrow> inv t"
begin

lemma inv_reachable: "reachable init step s \<Longrightarrow> inv s"
  by (induction rule: reachable.induct) (auto intro: inv_init inv_step)

lemma inv_steps: "step\<^sup>*\<^sup>* s t \<Longrightarrow> inv s \<Longrightarrow> inv t"
  by (induction rule: rtranclp_induct) (auto intro: inv_step)

end

end
