(* ===== verification/Proto.thy ===== *)
theory Proto
  imports Prelude
begin

text \<open>
  The wire protocol crate \<^verbatim>\<open>choreo-proto\<close>: the data of a conversation turn, the events of
  a session and the messages of the daemon (\<^verbatim>\<open>types.rs\<close>), and the byte estimates of the
  lag accounting (\<^verbatim>\<open>size.rs\<close>).

  A Rust \<^verbatim>\<open>String\<close> is the list of its UTF-8 bytes (so \<^verbatim>\<open>len()\<close> is \<^const>\<open>length\<close>), a
  \<^verbatim>\<open>Vec<u8>\<close> a list of bytes. Estimated sizes are natural numbers; they are reduced to the
  width of \<^verbatim>\<open>usize\<close> where they meet an atomic counter.
\<close>

section \<open>Data\<close>

record reasoning_capability =
  available_effort_levels :: "string list"

record context_config =
  context_file_names :: "string list"
  context_file_max_bytes :: usize
  disable_claude_code_prompt :: bool

definition context_config_default :: context_config where
  "context_config_default =
     \<lparr>context_file_names = [''AGENTS.md'', ''CLAUDE.md''],
      context_file_max_bytes = 32 * 1024,
      disable_claude_code_prompt = False\<rparr>"

record token_usage =
  input_tokens :: u32
  output_tokens :: u32
  total_tokens :: u32

definition token_usage_default :: token_usage where
  "token_usage_default = \<lparr>input_tokens = 0, output_tokens = 0, total_tokens = 0\<rparr>"

definition merge_max :: "token_usage \<Rightarrow> token_usage \<Rightarrow> token_usage" where
  "merge_max self other =
     \<lparr>input_tokens = max (input_tokens self) (input_tokens other),
      output_tokens = max (output_tokens self) (output_tokens other),
      total_tokens = max (total_tokens self) (total_tokens other)\<rparr>"

record image_metadata =
  im_mime_type :: string
  im_width :: u32
  im_height :: u32
  im_byte_len :: u64
  im_alt :: "string option"

record displayed_image_record =
  di_metadata :: image_metadata
  di_data :: "u8 list"
  di_tool_call_id :: "string option"

record assistant_tool_call_record =
  tc_call_id :: string
  tc_name :: string
  tc_arguments_json :: string

record image_reference =
  ir_path :: string
  ir_mime_type :: string
  ir_width :: u32
  ir_height :: u32
  ir_data :: "u8 list"

record tool_result_record =
  tr_call_id :: string
  tr_name :: string
  tr_content :: string
  tr_is_error :: bool
  tr_invocation_description :: string
  tr_image :: "image_reference option"

datatype chat_reasoning_field = ReasoningContent | Reasoning | ReasoningText

datatype reasoning_artifact =
    ChatReasoning chat_reasoning_field "u8 list"
  | AnthropicThinking "u8 list"
  | GoogleSignatures "u8 list"
  | ResponsesItems "u8 list"

record reasoning_producer =
  rp_provider_slug :: string
  rp_model :: string

record turn =
  created_at :: i64
  undone :: bool
  turn_error :: "string option"
  user_text :: "string option"
  assistant_text :: "string option"
  assistant_reasoning :: "string option"
  tool_calls :: "assistant_tool_call_record list"
  turn_token_usage :: "token_usage option"
  tool_results :: "tool_result_record list"
  displayed_images :: "displayed_image_record list"
  turn_reasoning_artifact :: "reasoning_artifact option"
  turn_reasoning_producer :: "reasoning_producer option"

datatype session_status =
    Sleeping
  | Inactive
  | Inference
  | ToolCall string
  | Retrying (attempt: u32) (max_attempts: u32) (delay_ms: u64)

fun is_active :: "session_status \<Rightarrow> bool" where
  "is_active Inference = True"
| "is_active (ToolCall _) = True"
| "is_active (Retrying _ _ _) = True"
| "is_active _ = False"

record session_summary =
  sum_session_id :: u64
  sum_title :: "string option"
  sum_selected_model :: "string option"
  sum_reasoning_effort :: "string option"
  sum_parent_session_id :: "u64 option"
  sum_working_dir :: "string option"
  sum_created_at :: i64
  sum_last_modified :: i64
  sum_turn_count :: u32
  sum_status :: session_status
  sum_active_tool_groups :: "string list"
  sum_account_name :: "string option"
  sum_token_usage :: "token_usage option"
  sum_context_window :: "u32 option"
  sum_last_prompt_tokens :: "u32 option"

record account_info =
  ai_name :: string
  ai_provider :: string
  ai_has_credential :: bool

record catalog_provider =
  cp_slug :: string
  cp_display_name :: string

datatype output_stream = Answer | ReasoningStream

datatype refresh_status = UpToDate | Updated | Forced

datatype session_event =
    SessionCreated "string option" "u64 option" "string option" "string option"
      "string option" "string option"
  | SessionAttached
  | SessionStateEvent "string option" "string option" "u64 option" "string option"
      "(u32, turn) btmap" "string list" "token_usage option" "u32 option" "u32 option"
      session_status "string option" "reasoning_capability option"
  | TurnAppended u32 turn
  | SessionStatusChanged session_status i64
  | SessionFailed string string
  | Started u32 u32 u32
  | ToolCallStarted u32 string string string string
  | ToolCallFinished u32 string string
  | ToolResultChunk u32 string "u8 list"
  | ToolCallFailed u32 string string string
  | TokenUsageUpdate token_usage "u32 option"
  | LiveOutputTokenCount u32 u32
  | OutputChunk u32 output_stream "u8 list"
  | Done u32 "token_usage option" "u32 option"
  | Failed u32 string
  | Cancelled u32
  | ModelSelected string "reasoning_capability option"
  | ModelSelectionFailed string string
  | SessionDeleted
  | SessionDeleteFailed string
  | TurnsUndone "u32 list"
  | TurnsRedone "(u32, turn) btmap"
  | SessionAccountSet string
  | ContextWindowResolved u32
  | SessionWorkingDirSet "string option"
  | SessionTitleSet string
  | ReasoningEffortSet string
  | ReasoningEffortSetFailed string string

datatype daemon_message =
    Session "u64 option" session_event
  | Sessions "session_summary list"
  | Pong
  | Models "string list" "string option"
  | ModelsFailed string
  | Unlocked
  | Locked
  | LockedError string
  | Bound
  | KeystoreUnbound string
  | CredentialAdded string
  | CredentialAddFailed string string
  | CredentialRemoved string
  | CredentialRemoveFailed string string
  | AclAddResult bool string
  | AclUpdated u64
  | Credential string "string option"
  | AccountAdded string
  | AccountAddFailed string string
  | AccountRemoved string
  | AccountRemoveFailed string string
  | Accounts "account_info list"
  | AccountListFailed string
  | ModelsRefreshed usize usize refresh_status
  | ModelsRefreshFailed string
  | CatalogUpdated "catalog_provider list"
  | ShuttingDown
  | Evicted

section \<open>Effort levels\<close>

text \<open>\<^verbatim>\<open>iter().position(|e| e == current)\<close>: the first index whose element is equal.\<close>

fun position :: "'a \<Rightarrow> 'a list \<Rightarrow> nat option" where
  "position x [] = None"
| "position x (y # ys) = (if y = x then Some 0 else map_option Suc (position x ys))"

definition cycle_from :: "reasoning_capability \<Rightarrow> string \<Rightarrow> string option" where
  "cycle_from cap current =
     (let ls = available_effort_levels cap in
      if ls = [] then None
      else
        let pos = (case position current ls of Some p \<Rightarrow> p | None \<Rightarrow> 0);
            next_pos = (pos + 1) mod length ls
        in Some (ls ! next_pos))"

section \<open>Byte estimates\<close>

definition option_str_len :: "string option \<Rightarrow> nat" where
  "option_str_len s = (case s of None \<Rightarrow> 0 | Some s \<Rightarrow> length s)"

definition named_field_overhead :: "nat \<Rightarrow> nat" where
  "named_field_overhead n = 40 + n * 24"

definition artifact_payload :: "reasoning_artifact \<Rightarrow> nat" where
  "artifact_payload a =
     (case a of ChatReasoning _ b \<Rightarrow> length b | AnthropicThinking b \<Rightarrow> length b
      | GoogleSignatures b \<Rightarrow> length b | ResponsesItems b \<Rightarrow> length b)"

definition approx_size :: "turn \<Rightarrow> nat" where
  "approx_size t =
     named_field_overhead 13
     + option_str_len (turn_error t)
     + option_str_len (user_text t)
     + option_str_len (assistant_text t)
     + option_str_len (assistant_reasoning t)
     + (\<Sum>c\<leftarrow>tool_calls t.
          64 + length (tc_call_id c) + length (tc_name c) + length (tc_arguments_json c))
     + (\<Sum>r\<leftarrow>tool_results t.
          96 + length (tr_call_id r) + length (tr_name r) + length (tr_content r)
             + length (tr_invocation_description r))
     + (\<Sum>i\<leftarrow>displayed_images t.
          160 + length (di_data i) + length (im_mime_type (di_metadata i))
              + option_str_len (im_alt (di_metadata i)))
     + (case turn_reasoning_artifact t of None \<Rightarrow> 0 | Some a \<Rightarrow> 96 + artifact_payload a)
     + (case turn_reasoning_producer t of None \<Rightarrow> 0
        | Some p \<Rightarrow> 64 + length (rp_provider_slug p) + length (rp_model p))"

fun session_status_size :: "session_status \<Rightarrow> nat" where
  "session_status_size (ToolCall name) = 8 + length name"
| "session_status_size (Retrying _ _ _) = 16"
| "session_status_size Sleeping = 4"
| "session_status_size Inactive = 4"
| "session_status_size Inference = 4"

definition sum_len :: "'a list list \<Rightarrow> nat" where
  "sum_len xss = (\<Sum>xs\<leftarrow>xss. length xs)"

definition reasoning_capability_size :: "reasoning_capability \<Rightarrow> nat" where
  "reasoning_capability_size cap =
     64 + length (available_effort_levels cap) + sum_len (available_effort_levels cap)"

definition turns_size :: "(u32, turn) btmap \<Rightarrow> nat" where
  "turns_size ts = (\<Sum>(i, t)\<leftarrow>ts. 8 + unat i + approx_size t)"

definition OVERHEAD :: nat where
  "OVERHEAD = 96"

fun session_event_size :: "session_event \<Rightarrow> nat" where
  "session_event_size (SessionCreated title _ working_dir account_name selected_model effort) =
     named_field_overhead 6 + option_str_len title + option_str_len working_dir
     + option_str_len account_name + option_str_len selected_model + option_str_len effort"
| "session_event_size SessionAttached = OVERHEAD"
| "session_event_size SessionDeleted = OVERHEAD"
| "session_event_size
     (SessionStateEvent title model _ working_dir turns groups _ _ _ status effort cap) =
     named_field_overhead 12 + option_str_len title + option_str_len model
     + option_str_len working_dir + option_str_len effort + sum_len groups
     + turns_size turns + session_status_size status
     + (case cap of None \<Rightarrow> 0 | Some c \<Rightarrow> reasoning_capability_size c)"
| "session_event_size (TurnAppended _ t) = named_field_overhead 2 + approx_size t"
| "session_event_size (SessionStatusChanged status _) =
     named_field_overhead 2 + session_status_size status"
| "session_event_size (SessionFailed operation err) =
     named_field_overhead 2 + length operation + length err"
| "session_event_size (Started _ _ _) = named_field_overhead 3"
| "session_event_size (ToolCallStarted _ call_id tool_name args descr) =
     named_field_overhead 5 + length call_id + length tool_name + length args + length descr"
| "session_event_size (ToolCallFinished _ call_id tool_name) =
     named_field_overhead 3 + length call_id + length tool_name"
| "session_event_size (ToolResultChunk _ call_id data) =
     named_field_overhead 3 + length call_id + length data"
| "session_event_size (ToolCallFailed _ call_id tool_name err) =
     named_field_overhead 4 + length call_id + length tool_name + length err"
| "session_event_size (TokenUsageUpdate _ _) = named_field_overhead 2"
| "session_event_size (LiveOutputTokenCount _ _) = named_field_overhead 2"
| "session_event_size (OutputChunk _ _ data) = named_field_overhead 3 + 4 + length data"
| "session_event_size (Done _ _ _) = named_field_overhead 3"
| "session_event_size (Failed _ err) = named_field_overhead 2 + length err"
| "session_event_size (Cancelled _) = named_field_overhead 1"
| "session_event_size (ModelSelected model cap) =
     named_field_overhead 2 + length model
     + (case cap of None \<Rightarrow> 0 | Some c \<Rightarrow> reasoning_capability_size c)"
| "session_event_size (ModelSelectionFailed model err) =
     named_field_overhead 2 + length model + length err"
| "session_event_size (SessionDeleteFailed err) = named_field_overhead 1 + length err"
| "session_event_size (TurnsUndone turn_ids) = named_field_overhead 1 + length turn_ids * 4"
| "session_event_size (TurnsRedone turns) = named_field_overhead 1 + turns_size turns"
| "session_event_size (SessionAccountSet account) = named_field_overhead 1 + length account"
| "session_event_size (ContextWindowResolved _) = named_field_overhead 1"
| "session_event_size (SessionWorkingDirSet path) =
     named_field_overhead 1 + option_str_len path"
| "session_event_size (SessionTitleSet title) = named_field_overhead 1 + length title"
| "session_event_size (ReasoningEffortSet effort) = named_field_overhead 1 + length effort"
| "session_event_size (ReasoningEffortSetFailed effort err) =
     named_field_overhead 2 + length effort + length err"

definition summary_size :: "session_summary \<Rightarrow> nat" where
  "summary_size s =
     named_field_overhead 15 + option_str_len (sum_title s)
     + option_str_len (sum_selected_model s) + option_str_len (sum_reasoning_effort s)
     + option_str_len (sum_working_dir s) + option_str_len (sum_account_name s)
     + sum_len (sum_active_tool_groups s) + session_status_size (sum_status s)"

fun approx_wire_size :: "daemon_message \<Rightarrow> nat" where
  "approx_wire_size (Session _ event) = named_field_overhead 2 + session_event_size event"
| "approx_wire_size (Sessions sessions) =
     named_field_overhead 1 + (\<Sum>s\<leftarrow>sessions. summary_size s)"
| "approx_wire_size Pong = OVERHEAD"
| "approx_wire_size (Models models selected) =
     named_field_overhead 2 + sum_len models + option_str_len selected"
| "approx_wire_size (ModelsFailed err) = named_field_overhead 1 + length err"
| "approx_wire_size Unlocked = OVERHEAD"
| "approx_wire_size Locked = OVERHEAD"
| "approx_wire_size Bound = OVERHEAD"
| "approx_wire_size ShuttingDown = OVERHEAD"
| "approx_wire_size Evicted = OVERHEAD"
| "approx_wire_size (LockedError err) = named_field_overhead 1 + length err"
| "approx_wire_size (KeystoreUnbound err) = named_field_overhead 1 + length err"
| "approx_wire_size (CredentialAdded service) = named_field_overhead 1 + length service"
| "approx_wire_size (CredentialAddFailed service err) =
     named_field_overhead 2 + length service + length err"
| "approx_wire_size (CredentialRemoved service) = named_field_overhead 1 + length service"
| "approx_wire_size (CredentialRemoveFailed service err) =
     named_field_overhead 2 + length service + length err"
| "approx_wire_size (AclAddResult _ message) = named_field_overhead 2 + length message"
| "approx_wire_size (AclUpdated _) = named_field_overhead 1"
| "approx_wire_size (Credential service key) =
     named_field_overhead 2 + length service + option_str_len key"
| "approx_wire_size (AccountAdded name) = named_field_overhead 1 + length name"
| "approx_wire_size (AccountAddFailed name err) =
     named_field_overhead 2 + length name + length err"
| "approx_wire_size (AccountRemoved name) = named_field_overhead 1 + length name"
| "approx_wire_size (AccountRemoveFailed name err) =
     named_field_overhead 2 + length name + length err"
| "approx_wire_size (Accounts accounts) =
     named_field_overhead 1
     + (\<Sum>a\<leftarrow>accounts. 48 + length (ai_name a) + length (ai_provider a))"
| "approx_wire_size (AccountListFailed err) = named_field_overhead 1 + length err"
| "approx_wire_size (ModelsRefreshed _ _ _) = named_field_overhead 3"
| "approx_wire_size (ModelsRefreshFailed err) = named_field_overhead 1 + length err"
| "approx_wire_size (CatalogUpdated providers) =
     named_field_overhead 1
     + (\<Sum>p\<leftarrow>providers. 32 + length (cp_slug p) + length (cp_display_name p))"

section \<open>Properties\<close>

lemma position_nth: "distinct xs \<Longrightarrow> i < length xs \<Longrightarrow> position (xs ! i) xs = Some i"
proof (induction xs arbitrary: i)
  case (Cons x xs)
  then show ?case by (cases i) (auto simp: nth_mem)
qed simp

lemma cycle_step:
  assumes "distinct (available_effort_levels cap)" and "i < length (available_effort_levels cap)"
  shows "cycle_from cap (available_effort_levels cap ! i) =
    Some (available_effort_levels cap ! ((i + 1) mod length (available_effort_levels cap)))"
  using assms by (auto simp: cycle_from_def Let_def position_nth)

text \<open>
  Cycling through the effort levels of a model: starting from the level at index \<open>i\<close>
  of a list without duplicates, \<open>n\<close> presses select the level at index \<open>(i + n)\<close> modulo the
  number of levels, so every level is visited and the cycle closes.
\<close>

lemma effort_cycle:
  assumes "distinct (available_effort_levels cap)" and "i < length (available_effort_levels cap)"
  shows "((\<lambda>e. Option.bind e (cycle_from cap)) ^^ n) (Some (available_effort_levels cap ! i)) =
    Some (available_effort_levels cap ! ((i + n) mod length (available_effort_levels cap)))"
proof (induction n)
  case 0
  show ?case using assms(2) by simp
next
  case (Suc n)
  let ?l = "length (available_effort_levels cap)"
  have "(i + n) mod ?l < ?l" by (rule mod_less_divisor) (use assms(2) in linarith)
  from cycle_step [OF assms(1) this] Suc show ?case by (simp add: mod_Suc_eq)
qed

lemma effort_cycle_witness:
  "((\<lambda>e. Option.bind e (cycle_from \<lparr>available_effort_levels = [''low'', ''medium'', ''high'']\<rparr>)) ^^ 4)
     (Some ''medium'') = Some ''high''"
  using effort_cycle [of "\<lparr>available_effort_levels = [''low'', ''medium'', ''high'']\<rparr>" 1 4] by simp

text \<open>The usage records form a semilattice under \<open>merge_max\<close>.\<close>

lemma merge_max_laws:
  "merge_max a a = a" "merge_max a b = merge_max b a"
  "merge_max (merge_max a b) c = merge_max a (merge_max b c)"
  by (simp_all add: merge_max_def max.commute max.assoc max.left_commute)

definition usage_le :: "token_usage \<Rightarrow> token_usage \<Rightarrow> bool" where
  "usage_le a b \<longleftrightarrow> input_tokens a \<le> input_tokens b \<and> output_tokens a \<le> output_tokens b
     \<and> total_tokens a \<le> total_tokens b"

lemma usage_le_merge: "usage_le a (merge_max a b)" "usage_le b (merge_max a b)"
  by (simp_all add: usage_le_def merge_max_def)

lemma usage_le_trans: "usage_le a b \<Longrightarrow> usage_le b c \<Longrightarrow> usage_le a c"
  by (auto simp: usage_le_def)

text \<open>
  Usage reports commute: folding any two rearrangements of the same reports into the
  accumulated usage gives the same total, which is at least the start value and every
  report. Late or duplicated reports cannot lower the displayed usage.
\<close>

lemma usage_reports_commute:
  assumes "mset us = mset vs"
  shows "fold (\<lambda>u a. merge_max a u) us a = fold (\<lambda>u a. merge_max a u) vs a
    \<and> usage_le a (fold (\<lambda>u a. merge_max a u) us a)
    \<and> (\<forall>u \<in> set us. usage_le u (fold (\<lambda>u a. merge_max a u) us a))"
proof (intro conjI)
  show "fold (\<lambda>u a. merge_max a u) us a = fold (\<lambda>u a. merge_max a u) vs a"
    by (rule fold_permuted_eq [where P = "\<lambda>_. True"])
       (use assms in \<open>simp_all add: fun_eq_iff merge_max_laws(2,3) merge_max_def max.left_commute max.commute\<close>)
  have up: "usage_le a (fold (\<lambda>u a. merge_max a u) us a)" for us a
  proof (induction us arbitrary: a)
    case Nil
    show ?case by (simp add: usage_le_def)
  next
    case (Cons u us)
    show ?case using usage_le_trans [OF usage_le_merge(1) Cons.IH] by simp
  qed
  show "usage_le a (fold (\<lambda>u a. merge_max a u) us a)" by (rule up)
  show "\<forall>u \<in> set us. usage_le u (fold (\<lambda>u a. merge_max a u) us a)"
  proof (induction us arbitrary: a)
    case (Cons u us)
    have "usage_le u (fold (\<lambda>u a. merge_max a u) us (merge_max a u))"
      by (rule usage_le_trans [OF usage_le_merge(2) up])
    with Cons.IH show ?case by auto
  qed simp
qed

lemma usage_reports_commute_witness:
  "fold (\<lambda>u a. merge_max a u)
     [\<lparr>input_tokens = 5, output_tokens = 1, total_tokens = 6\<rparr>, \<lparr>input_tokens = 2, output_tokens = 7, total_tokens = 9\<rparr>]
     token_usage_default = \<lparr>input_tokens = 5, output_tokens = 7, total_tokens = 9\<rparr>"
  using usage_reports_commute [of
      "[\<lparr>input_tokens = 5, output_tokens = 1, total_tokens = 6\<rparr>, \<lparr>input_tokens = 2, output_tokens = 7, total_tokens = 9\<rparr>]"
      "[\<lparr>input_tokens = 2, output_tokens = 7, total_tokens = 9\<rparr>, \<lparr>input_tokens = 5, output_tokens = 1, total_tokens = 6\<rparr>]"
      token_usage_default]
  by (simp add: merge_max_def token_usage_default_def)

end
