(* ===== verification/Broadcast.thy ===== *)
theory Broadcast
  imports Proto
begin

text \<open>
  The shared broadcast policy, \<^verbatim>\<open>choreo-daemon/src/broadcast.rs\<close>.

  A \<^verbatim>\<open>SubscriberSink\<close> is a handle: the channel sender and the byte counter behind it are
  shared by every map the sink is registered in. The sinks therefore live in a store
  \<open>net\<close>, a sink is the number of its cell, and two maps that hold the same number share
  one queue and one counter. The daemon-wide counter is part of the store. Counters have
  the width of \<^verbatim>\<open>usize\<close> and wrap, as \<^verbatim>\<open>fetch_add\<close> and \<^verbatim>\<open>fetch_sub\<close> do.

  The abstract contract of every operation that enqueues is \<open>delivers\<close>: which messages
  reached which queue, and that both counters moved by exactly their bytes. Fan-outs are
  shown to refine it, and exactly-once delivery, losslessness and balanced accounting are
  consequences.
\<close>

section \<open>The model\<close>

type_synonym sink = nat

record chan =
  queue :: "daemon_message list"
  bytes_in_flight :: usize
  receiver_alive :: bool

record net =
  chans :: "sink \<Rightarrow> chan"
  global_lag :: usize

record lag_limits =
  per_client_cap :: usize
  global_budget :: usize

definition lag_limits_default :: lag_limits where
  "lag_limits_default =
     \<lparr>per_client_cap = 64 * 1024 * 1024, global_budget = 512 * 1024 * 1024\<rparr>"

datatype enqueue_outcome = Delivered | Disconnected | ClientOverLag | GlobalOverBudget

definition chan_new :: chan where
  "chan_new = \<lparr>queue = [], bytes_in_flight = 0, receiver_alive = True\<rparr>"

definition msg_bytes :: "daemon_message \<Rightarrow> usize" where
  "msg_bytes msg = of_nat (approx_wire_size msg)"

definition upd_chan :: "sink \<Rightarrow> (chan \<Rightarrow> chan) \<Rightarrow> net \<Rightarrow> net" where
  "upd_chan k f n = n\<lparr>chans := (chans n)(k := f (chans n k))\<rparr>"

definition send_accounted :: "sink \<Rightarrow> daemon_message \<Rightarrow> net \<Rightarrow> net \<times> (usize \<times> usize) option" where
  "send_accounted k msg n =
     (let size = msg_bytes msg;
          new_total = global_lag n + size;
          n1 = n\<lparr>global_lag := new_total\<rparr>;
          new_client = bytes_in_flight (chans n1 k) + size;
          n2 = upd_chan k (\<lambda>c. c\<lparr>bytes_in_flight := new_client\<rparr>) n1
      in if receiver_alive (chans n2 k)
         then (upd_chan k (\<lambda>c. c\<lparr>queue := queue c @ [msg]\<rparr>) n2, Some (new_client, new_total))
         else (let n3 = upd_chan k (\<lambda>c. c\<lparr>bytes_in_flight := bytes_in_flight c - size\<rparr>) n2
               in (n3\<lparr>global_lag := global_lag n3 - size\<rparr>, None)))"

definition enqueue ::
  "sink \<Rightarrow> daemon_message \<Rightarrow> lag_limits \<Rightarrow> net \<Rightarrow> net \<times> enqueue_outcome" where
  "enqueue k msg limits n =
     (case send_accounted k msg n of
        (n', None) \<Rightarrow> (n', Disconnected)
      | (n', Some (new_client, new_total)) \<Rightarrow>
          (n', if new_client > per_client_cap limits then ClientOverLag
               else if new_total > global_budget limits then GlobalOverBudget
               else Delivered))"

definition send_unchecked :: "sink \<Rightarrow> daemon_message \<Rightarrow> net \<Rightarrow> net \<times> bool" where
  "send_unchecked k msg n = (case send_accounted k msg n of (n', r) \<Rightarrow> (n', r \<noteq> None))"

fun fan_out_evicting ::
  "(u64, sink) hmap \<Rightarrow> daemon_message \<Rightarrow> lag_limits \<Rightarrow> (u64 \<Rightarrow> bool) \<Rightarrow> net \<Rightarrow>
   (u64, sink) hmap \<times> u64 list \<times> bool \<times> net" where
  "fan_out_evicting [] msg limits skip n = ([], [], False, n)"
| "fan_out_evicting ((c, k) # subs) msg limits skip n =
     (if skip c
      then (case fan_out_evicting subs msg limits skip n of
              (subs', ev, lg, n') \<Rightarrow> ((c, k) # subs', ev, lg, n'))
      else (case enqueue k msg limits n of
              (n1, out) \<Rightarrow>
                (case fan_out_evicting subs msg limits skip n1 of
                   (subs', ev, lg, n') \<Rightarrow>
                     (case out of
                        Delivered \<Rightarrow> ((c, k) # subs', ev, lg, n')
                      | Disconnected \<Rightarrow> (subs', ev, lg, n')
                      | ClientOverLag \<Rightarrow> ((c, k) # subs', c # ev, lg, n')
                      | GlobalOverBudget \<Rightarrow> ((c, k) # subs', ev, True, n')))))"

section \<open>The delivery contract\<close>

definition queue_bytes :: "daemon_message list \<Rightarrow> usize" where
  "queue_bytes ms = (\<Sum>m\<leftarrow>ms. msg_bytes m)"

lemma queue_bytes_simps [simp]:
  "queue_bytes [] = 0"
  "queue_bytes (m # ms) = msg_bytes m + queue_bytes ms"
  "queue_bytes (ms @ ms') = queue_bytes ms + queue_bytes ms'"
  by (simp_all add: queue_bytes_def)

definition chan_deliver :: "daemon_message list \<Rightarrow> chan \<Rightarrow> chan" where
  "chan_deliver ms c =
     (if receiver_alive c
      then c\<lparr>queue := queue c @ ms, bytes_in_flight := bytes_in_flight c + queue_bytes ms\<rparr>
      else c)"

lemma chan_deliver_simps [simp]:
  "receiver_alive (chan_deliver ms c) = receiver_alive c"
  "chan_deliver [] c = c"
  "chan_deliver ms' (chan_deliver ms c) = chan_deliver (ms @ ms') c"
  by (simp_all add: chan_deliver_def add.assoc)

text \<open>
  \<open>delivers n n' d\<close>: the only difference between the stores is that the queue of each live
  sink \<open>k\<close> got the messages \<open>d k\<close> at its end, in that order, and both counters grew by
  exactly the bytes of what was accepted.
\<close>

definition accepted :: "net \<Rightarrow> (sink \<Rightarrow> daemon_message list) \<Rightarrow> sink \<Rightarrow> usize" where
  "accepted n d k = (if receiver_alive (chans n k) then queue_bytes (d k) else 0)"

definition delivers :: "net \<Rightarrow> net \<Rightarrow> (sink \<Rightarrow> daemon_message list) \<Rightarrow> bool" where
  "delivers n n' d \<longleftrightarrow>
     finite {k. d k \<noteq> []}
     \<and> chans n' = (\<lambda>k. chan_deliver (d k) (chans n k))
     \<and> global_lag n' = global_lag n + (\<Sum>k | d k \<noteq> []. accepted n d k)"

lemma delivers_refl: "delivers n n (\<lambda>_. [])"
  by (simp add: delivers_def)

lemma delivers_alive: "delivers n n' d \<Longrightarrow> receiver_alive (chans n' k) = receiver_alive (chans n k)"
  by (simp add: delivers_def)

lemma delivers_queue:
  "delivers n n' d \<Longrightarrow> receiver_alive (chans n k) \<Longrightarrow>
   queue (chans n' k) = queue (chans n k) @ d k"
  by (simp add: delivers_def chan_deliver_def)

lemma delivers_dead:
  "delivers n n' d \<Longrightarrow> \<not> receiver_alive (chans n k) \<Longrightarrow> chans n' k = chans n k"
  by (simp add: delivers_def chan_deliver_def)

lemma accepted_sum:
  assumes "finite K" and "{k. d k \<noteq> []} \<subseteq> K"
  shows "(\<Sum>k | d k \<noteq> []. accepted n d k) = (\<Sum>k\<in>K. accepted n d k)"
  using assms by (intro sum.mono_neutral_left) (auto simp: accepted_def)

lemma delivers_trans:
  assumes "delivers n n' d" and "delivers n' n'' e"
  shows "delivers n n'' (\<lambda>k. d k @ e k)"
proof -
  let ?K = "{k. d k \<noteq> []} \<union> {k. e k \<noteq> []}"
  have fin: "finite ?K" using assms by (simp add: delivers_def)
  have ac: "accepted n (\<lambda>k. d k @ e k) k = accepted n d k + accepted n' e k" for k
    using delivers_alive [OF assms(1), of k] by (simp add: accepted_def)
  have "global_lag n'' =
      global_lag n + (\<Sum>k\<in>?K. accepted n d k) + (\<Sum>k\<in>?K. accepted n' e k)"
    using assms fin accepted_sum [of ?K d n] accepted_sum [of ?K e n']
    by (simp add: delivers_def)
  also have "\<dots> = global_lag n + (\<Sum>k\<in>?K. accepted n (\<lambda>k. d k @ e k) k)"
    by (simp add: ac sum.distrib add.assoc)
  also have "(\<Sum>k\<in>?K. accepted n (\<lambda>k. d k @ e k) k)
      = (\<Sum>k | d k @ e k \<noteq> []. accepted n (\<lambda>k. d k @ e k) k)"
    by (rule accepted_sum [OF fin, symmetric]) auto
  finally have "global_lag n'' =
      global_lag n + (\<Sum>k | d k @ e k \<noteq> []. accepted n (\<lambda>k. d k @ e k) k)" .
  moreover have "finite {k. d k @ e k \<noteq> []}"
    using fin by (rule finite_subset [rotated]) auto
  ultimately show ?thesis
    using assms by (simp add: delivers_def)
qed

definition one :: "sink \<Rightarrow> daemon_message \<Rightarrow> sink \<Rightarrow> daemon_message list" where
  "one k m k' = (if k' = k then [m] else [])"

lemma send_accounted_delivers:
  "delivers n (fst (send_accounted k m n)) (one k m)"
proof -
  have "{k'. one k m k' \<noteq> []} = {k}" by (auto simp: one_def)
  then show ?thesis
    by (auto simp: delivers_def send_accounted_def Let_def upd_chan_def chan_deliver_def one_def
        accepted_def fun_eq_iff)
qed

lemma send_accounted_result:
  "snd (send_accounted k m n) =
     (if receiver_alive (chans n k)
      then Some (bytes_in_flight (chans n k) + msg_bytes m, global_lag n + msg_bytes m)
      else None)"
  by (simp add: send_accounted_def Let_def upd_chan_def)

lemma enqueue_net [simp]: "fst (enqueue k m limits n) = fst (send_accounted k m n)"
  by (auto simp: enqueue_def split: prod.splits option.splits)

lemma send_unchecked_net [simp]: "fst (send_unchecked k m n) = fst (send_accounted k m n)"
  by (auto simp: send_unchecked_def split: prod.splits)

lemma send_unchecked_result [simp]:
  "snd (send_unchecked k m n) = receiver_alive (chans n k)"
  using send_accounted_result [of k m n]
  by (auto simp: send_unchecked_def split: prod.splits if_splits)

lemma enqueue_outcome:
  "snd (enqueue k m limits n) =
     (if \<not> receiver_alive (chans n k) then Disconnected
      else if bytes_in_flight (chans n k) + msg_bytes m > per_client_cap limits then ClientOverLag
      else if global_lag n + msg_bytes m > global_budget limits then GlobalOverBudget
      else Delivered)"
  using send_accounted_result [of k m n]
  by (auto simp: enqueue_def split: prod.splits option.splits if_splits)

section \<open>The interface of a sink\<close>

text \<open>
  What the session threads, the daemon and the connection threads rely on of a sink's
  send operation: it delivers the one message to the one queue. Replaying a list of
  messages to one client then delivers them in order.
\<close>

locale sink_protocol =
  fixes send :: "sink \<Rightarrow> daemon_message \<Rightarrow> net \<Rightarrow> net"
  assumes send_delivers: "delivers n (send k m n) (one k m)"
begin

definition send_seq :: "sink \<Rightarrow> daemon_message list \<Rightarrow> net \<Rightarrow> net" where
  "send_seq k ms n = fold (send k) ms n"

lemma send_seq_delivers: "delivers n (send_seq k ms n) (\<lambda>k'. if k' = k then ms else [])"
proof (induction ms arbitrary: n)
  case Nil
  show ?case by (simp add: send_seq_def delivers_refl)
next
  case (Cons m ms)
  have "delivers n (send_seq k ms (send k m n)) (\<lambda>k'. one k m k' @ (if k' = k then ms else []))"
    by (rule delivers_trans [OF send_delivers Cons.IH])
  moreover have "(\<lambda>k'. one k m k' @ (if k' = k then ms else [])) = (\<lambda>k'. if k' = k then m # ms else [])"
    by (auto simp: one_def)
  ultimately show ?case by (simp add: send_seq_def)
qed

lemma send_other: "k' \<noteq> k \<Longrightarrow> chans (send k m n) k' = chans n k'"
  using send_delivers [of n k m] by (simp add: delivers_def one_def)

lemma send_keeps_alive: "receiver_alive (chans (send k m n) k') = receiver_alive (chans n k')"
  using send_delivers by (rule delivers_alive)

end

interpretation enq: sink_protocol "\<lambda>k m n. fst (enqueue k m limits n)" for limits
  by unfold_locales (simp add: send_accounted_delivers)

interpretation raw: sink_protocol "\<lambda>k m n. fst (send_unchecked k m n)"
  by unfold_locales (simp add: send_accounted_delivers)

section \<open>Fan-out\<close>

text \<open>The messages a fan-out puts into the queue of sink \<open>k\<close>: one per entry that holds it
  and is not skipped.\<close>

definition copies :: "(u64, sink) hmap \<Rightarrow> (u64 \<Rightarrow> bool) \<Rightarrow> daemon_message \<Rightarrow> sink \<Rightarrow> daemon_message list" where
  "copies subs skip m k = replicate (length (filter (\<lambda>(c, k'). \<not> skip c \<and> k' = k) subs)) m"

lemma copies_Nil [simp]: "copies [] skip m k = []"
  by (simp add: copies_def)

lemma copies_Cons:
  "copies ((c, k') # subs) skip m k =
     (if \<not> skip c then one k' m k else []) @ copies subs skip m k"
  by (simp add: copies_def one_def)

text \<open>One round of the loop, component by component.\<close>

lemma fan_out_Cons:
  "fan_out_evicting ((c, k) # subs) m limits skip n =
     (let out = snd (enqueue k m limits n);
          n1 = (if skip c then n else fst (send_accounted k m n));
          rest = fan_out_evicting subs m limits skip n1
      in ((if skip c \<or> out \<noteq> Disconnected then [(c, k)] else []) @ fst rest,
          (if \<not> skip c \<and> out = ClientOverLag then [c] else []) @ fst (snd rest),
          (\<not> skip c \<and> out = GlobalOverBudget) \<or> fst (snd (snd rest)),
          snd (snd (snd rest))))"
  unfolding fan_out_evicting.simps enqueue_net [of k m limits n, symmetric] Let_def
  by (simp add: case_prod_unfold split: enqueue_outcome.splits)

declare fan_out_evicting.simps(2) [simp del]

lemma fan_out_delivers:
  "delivers n (snd (snd (snd (fan_out_evicting subs m limits skip n)))) (copies subs skip m)"
proof (induction subs arbitrary: n)
  case Nil
  show ?case by (simp add: delivers_refl copies_def)
next
  case (Cons ck subs)
  obtain c k where ck: "ck = (c, k)" by (cases ck)
  show ?case
  proof (cases "skip c")
    case True
    then have "copies (ck # subs) skip m = copies subs skip m"
      using ck by (auto simp: copies_Cons)
    with Cons.IH [of n] True ck show ?thesis by (simp add: fan_out_Cons Let_def)
  next
    case False
    then have "copies (ck # subs) skip m = (\<lambda>k'. one k m k' @ copies subs skip m k')"
      using ck by (auto simp: copies_Cons)
    with delivers_trans [OF send_accounted_delivers Cons.IH] False ck show ?thesis
      by (simp add: fan_out_Cons Let_def)
  qed
qed

text \<open>Exactly the dead, unskipped subscribers are dropped from the map.\<close>

lemma fan_out_retains:
  "fst (fan_out_evicting subs m limits skip n) =
     filter (\<lambda>(c, k). skip c \<or> receiver_alive (chans n k)) subs"
proof (induction subs arbitrary: n)
  case Nil
  show ?case by simp
next
  case (Cons ck subs)
  obtain c k where ck: "ck = (c, k)" by (cases ck)
  have al: "receiver_alive (chans (fst (send_accounted k m n)) k') = receiver_alive (chans n k')" for k'
    by (rule delivers_alive [OF send_accounted_delivers])
  show ?case
    by (simp add: ck al fan_out_Cons Let_def Cons.IH enqueue_outcome)
qed

text \<open>
  Which clients a fan-out reports for eviction. When every entry has its own sink, the
  lag of an entry is judged on the bytes it had before the fan-out.
\<close>

lemma fan_out_evicts:
  assumes "distinct (map snd subs)"
  shows "fst (snd (fan_out_evicting subs m limits skip n)) =
    map fst (filter (\<lambda>(c, k). \<not> skip c \<and> receiver_alive (chans n k)
       \<and> bytes_in_flight (chans n k) + msg_bytes m > per_client_cap limits) subs)"
  using assms
proof (induction subs arbitrary: n)
  case Nil
  show ?case by simp
next
  case (Cons ck subs)
  obtain c k where ck: "ck = (c, k)" by (cases ck)
  let ?n' = "fst (send_accounted k m n)"
  from Cons.prems ck have k: "k \<notin> snd ` set subs" and d: "distinct (map snd subs)" by auto
  have same: "chans ?n' k' = chans n k'" if "(c', k') \<in> set subs" for c' k'
    using that k enq.send_other [of k' k m limits n] by (force simp: image_iff)
  have "filter (\<lambda>(c, k). \<not> skip c \<and> receiver_alive (chans ?n' k)
       \<and> bytes_in_flight (chans ?n' k) + msg_bytes m > per_client_cap limits) subs =
     filter (\<lambda>(c, k). \<not> skip c \<and> receiver_alive (chans n k)
       \<and> bytes_in_flight (chans n k) + msg_bytes m > per_client_cap limits) subs"
    by (rule filter_cong) (auto simp: same)
  then show ?case
    by (simp add: ck fan_out_Cons Let_def Cons.IH [OF d] enqueue_outcome)
qed

section \<open>Balanced accounting\<close>

text \<open>
  The counters are balanced over a finite set of sinks when each byte counter is the
  bytes of its queue and the daemon-wide counter is their sum.
\<close>

definition balanced :: "sink set \<Rightarrow> net \<Rightarrow> bool" where
  "balanced K n \<longleftrightarrow> finite K \<and> (\<forall>k\<in>K. bytes_in_flight (chans n k) = queue_bytes (queue (chans n k)))
     \<and> global_lag n = (\<Sum>k\<in>K. bytes_in_flight (chans n k))"

lemma delivers_balanced:
  assumes bal: "balanced K n" and del: "delivers n n' d" and sub: "{k. d k \<noteq> []} \<subseteq> K"
  shows "balanced K n'"
proof -
  have fin: "finite K" using bal by (simp add: balanced_def)
  have b: "bytes_in_flight (chans n' k) = bytes_in_flight (chans n k) + accepted n d k" for k
    using del by (simp add: delivers_def chan_deliver_def accepted_def)
  have q: "bytes_in_flight (chans n' k) = queue_bytes (queue (chans n' k))" if "k \<in> K" for k
    using that bal del by (simp add: balanced_def delivers_def chan_deliver_def)
  have "global_lag n' = (\<Sum>k\<in>K. bytes_in_flight (chans n k)) + (\<Sum>k\<in>K. accepted n d k)"
    using bal del accepted_sum [OF fin sub, of n] by (simp add: balanced_def delivers_def)
  also have "\<dots> = (\<Sum>k\<in>K. bytes_in_flight (chans n' k))"
    by (simp add: b sum.distrib)
  finally show ?thesis using fin q by (simp add: balanced_def)
qed

lemma copies_support: "{k. copies subs skip m k \<noteq> []} \<subseteq> snd ` set subs"
  by (force simp: copies_def filter_empty_conv image_iff)

lemma copies_once:
  assumes "distinct (map snd subs)" and "(c, k) \<in> set subs" and "\<not> skip c"
  shows "copies subs skip m k = [m]"
  using assms
proof (induction subs)
  case Nil
  then show ?case by simp
next
  case (Cons ck subs)
  obtain c' k' where ck: "ck = (c', k')" by (cases ck)
  have none: "copies subs skip m k' = []"
    using Cons.prems(1) copies_support [of subs skip m] ck by auto
  show ?case
  proof (cases "k' = k")
    case True
    then have "(c, k) \<notin> set subs" using Cons.prems(1) ck by (force simp: image_iff)
    then have "c' = c" using Cons.prems(2) ck by simp
    then show ?thesis using True none ck Cons.prems by (simp add: copies_Cons one_def)
  next
    case False
    then show ?thesis using Cons ck by (auto simp: copies_Cons one_def)
  qed
qed

lemma copies_none:
  "(\<And>c. (c, k) \<in> set subs \<Longrightarrow> skip c) \<Longrightarrow> copies subs skip m k = []"
  by (auto simp: copies_def filter_empty_conv)

section \<open>Properties\<close>

text \<open>A store of fresh channels, on which the properties are exercised.\<close>

definition net_new :: net where
  "net_new = \<lparr>chans = (\<lambda>_. chan_new), global_lag = 0\<rparr>"

lemma fan_out_split:
  "fan_out_evicting subs m limits skip n =
     (fst (fan_out_evicting subs m limits skip n),
      fst (snd (fan_out_evicting subs m limits skip n)),
      fst (snd (snd (fan_out_evicting subs m limits skip n))),
      snd (snd (snd (fan_out_evicting subs m limits skip n))))"
  by simp

text \<open>
  C30. One fan-out of a message, sink by sink. A subscriber whose receiver is alive and who
  is not skipped finds exactly one copy of the message appended to its queue and its byte
  counter raised by the size of the message; a skipped subscriber finds nothing; the queue
  of a dead receiver is untouched. Nothing is dropped or overtaken, whatever the limits.
\<close>

theorem fan_out_exactly_once:
  assumes "distinct (map snd subs)" and "(c, k) \<in> set subs"
    and "fan_out_evicting subs m limits skip n = (subs', ev, lg, n')"
  shows "queue (chans n' k) =
      queue (chans n k) @ (if receiver_alive (chans n k) \<and> \<not> skip c then [m] else [])
    \<and> bytes_in_flight (chans n' k) =
      bytes_in_flight (chans n k) + (if receiver_alive (chans n k) \<and> \<not> skip c then msg_bytes m else 0)"
proof -
  have del: "delivers n n' (copies subs skip m)"
    using fan_out_delivers [of n subs m limits skip] assms(3) by simp
  have "copies subs skip m k = (if skip c then [] else [m])"
  proof (cases "skip c")
    case True
    have "c' = c" if "(c', k) \<in> set subs" for c'
      using assms(1,2) that by (metis inj_onD distinct_map fst_conv snd_conv)
    then show ?thesis using True copies_none [of k subs skip m] by auto
  qed (use copies_once [OF assms(1,2)] in simp)
  then show ?thesis
    using del by (simp add: delivers_def chan_deliver_def)
qed

theorem fan_out_exactly_once_witness:
  "queue (chans (snd (snd (snd
     (fan_out_evicting [(1, 0), (2, 1)] Pong lag_limits_default (\<lambda>_. False) net_new)))) 1) = [Pong]"
  using fan_out_exactly_once [OF _ _ fan_out_split,
      of "[(1, 0), (2, 1)]" 2 1 Pong lag_limits_default "\<lambda>_. False" net_new]
  by (simp add: net_new_def chan_new_def)

text \<open>
  A fan-out keeps the books: if every byte counter equals the bytes of its queue and
  the daemon-wide counter is their sum, this holds after any fan-out over sinks of the set,
  with the counters wrapping at 64 bits and dead receivers among the subscribers.
\<close>

lemma fan_out_balanced:
  assumes "balanced K n" and "snd ` set subs \<subseteq> K"
    and "fan_out_evicting subs m limits skip n = (subs', ev, lg, n')"
  shows "balanced K n'"
proof (rule delivers_balanced [OF assms(1)])
  show "delivers n n' (copies subs skip m)"
    using fan_out_delivers [of n subs m limits skip] assms(3) by simp
  show "{k. copies subs skip m k \<noteq> []} \<subseteq> K" using copies_support assms(2) by blast
qed

lemma fan_out_balanced_witness:
  "balanced {0, 1} (snd (snd (snd
     (fan_out_evicting [(1, 0), (2, 1)] Pong lag_limits_default (\<lambda>_. False) net_new))))"
  using fan_out_balanced [OF _ _ fan_out_split,
      of "{0, 1}" net_new "[(1, 0), (2, 1)]" Pong lag_limits_default "\<lambda>_. False"]
  by (simp add: balanced_def net_new_def chan_new_def)

text \<open>
  Which subscribers a fan-out removes and which it reports: exactly the unskipped ones
  with a dead receiver leave the map; exactly the live, unskipped ones whose lag passes the
  per-client cap with this message are reported, in map order, and they stay subscribed
  until the daemon evicts them.
\<close>

lemma fan_out_removes_and_reports:
  assumes "distinct (map snd subs)"
    and "fan_out_evicting subs m limits skip n = (subs', ev, lg, n')"
  shows "subs' = filter (\<lambda>(c, k). skip c \<or> receiver_alive (chans n k)) subs
    \<and> ev = map fst (filter (\<lambda>(c, k). \<not> skip c \<and> receiver_alive (chans n k)
         \<and> bytes_in_flight (chans n k) + msg_bytes m > per_client_cap limits) subs)
    \<and> set ev \<subseteq> fst ` set subs'"
  using fan_out_retains [of subs m limits skip n] fan_out_evicts [OF assms(1), of m limits skip n] assms(2)
  by force

lemma fan_out_removes_and_reports_witness:
  "fst (fan_out_evicting [(1, 0), (2, 1)] Pong \<lparr>per_client_cap = 10, global_budget = 10\<rparr>
     (\<lambda>_. False) (upd_chan 0 (\<lambda>c. c\<lparr>receiver_alive := False\<rparr>) net_new)) = [(2, 1)]
   \<and> fst (snd (fan_out_evicting [(1, 0), (2, 1)] Pong \<lparr>per_client_cap = 10, global_budget = 10\<rparr>
     (\<lambda>_. False) (upd_chan 0 (\<lambda>c. c\<lparr>receiver_alive := False\<rparr>) net_new))) = [2]"
  using fan_out_removes_and_reports [OF _ fan_out_split,
      of "[(1, 0), (2, 1)]" Pong "\<lparr>per_client_cap = 10, global_budget = 10\<rparr>" "\<lambda>_. False"
         "upd_chan 0 (\<lambda>c. c\<lparr>receiver_alive := False\<rparr>) net_new"]
  by (simp add: net_new_def chan_new_def upd_chan_def msg_bytes_def OVERHEAD_def)

text \<open>Every message is accounted with at least 64 bytes.\<close>

lemma approx_wire_size_ge: "64 \<le> approx_wire_size m"
  by (cases m) (simp_all add: named_field_overhead_def OVERHEAD_def)

lemma queue_wire_ge: "64 * length ms \<le> (\<Sum>m\<leftarrow>ms. approx_wire_size m)"
proof (induction ms)
  case (Cons m ms)
  then show ?case using approx_wire_size_ge [of m] by simp
qed simp

lemma unat_queue_bytes:
  "(\<Sum>m\<leftarrow>ms. approx_wire_size m) < 2 ^ 64 \<Longrightarrow>
   unat (queue_bytes ms) = (\<Sum>m\<leftarrow>ms. approx_wire_size m)"
proof (induction ms)
  case (Cons m ms)
  then have "unat (queue_bytes ms) = (\<Sum>m\<leftarrow>ms. approx_wire_size m)" by simp
  moreover have "unat (msg_bytes m) = approx_wire_size m"
    using Cons.prems by (simp add: msg_bytes_def unat_of_nat)
  ultimately show ?case
    using Cons.prems by (simp add: unat_word_ariths)
qed simp

text \<open>
  The lag limits bound the backlog. When an enqueue on a sink with balanced books
  answers \<^verbatim>\<open>Delivered\<close>, the queue, this message included, holds at most
  \<^verbatim>\<open>per_client_cap\<close> accounted bytes and at most \<^verbatim>\<open>per_client_cap / 64\<close> messages, as long as
  the true total fits in 64 bits.
\<close>

lemma delivered_backlog_bounded:
  assumes "bytes_in_flight (chans n k) = queue_bytes (queue (chans n k))"
    and "(\<Sum>x\<leftarrow>queue (chans n k) @ [m]. approx_wire_size x) < 2 ^ 64"
    and "enqueue k m limits n = (n', Delivered)"
  shows "(\<Sum>x\<leftarrow>queue (chans n' k). approx_wire_size x) \<le> unat (per_client_cap limits)
    \<and> 64 * length (queue (chans n' k)) \<le> unat (per_client_cap limits)"
proof -
  have out: "snd (enqueue k m limits n) = Delivered" and n': "n' = fst (send_accounted k m n)"
    using assms(3) enqueue_net [of k m limits n] by simp_all
  then have alive: "receiver_alive (chans n k)"
    and cap: "bytes_in_flight (chans n k) + msg_bytes m \<le> per_client_cap limits"
    by (auto simp: enqueue_outcome split: if_splits)
  have q: "queue (chans n' k) = queue (chans n k) @ [m]"
    using delivers_queue [OF send_accounted_delivers alive, of k m] n' by (simp add: one_def)
  have "unat (queue_bytes (queue (chans n' k))) \<le> unat (per_client_cap limits)"
    using cap assms(1) by (simp add: q word_le_nat_alt)
  then show ?thesis
    using unat_queue_bytes [of "queue (chans n' k)"] assms(2) queue_wire_ge [of "queue (chans n' k)"]
    by (simp add: q)
qed

lemma delivered_backlog_bounded_witness:
  "64 * length (queue (chans (fst (enqueue 0 Pong lag_limits_default net_new)) 0))
     \<le> unat (per_client_cap lag_limits_default)"
proof -
  have "enqueue 0 Pong lag_limits_default net_new =
      (fst (enqueue 0 Pong lag_limits_default net_new), Delivered)"
    by (simp add: prod_eq_iff enqueue_outcome net_new_def chan_new_def msg_bytes_def OVERHEAD_def
        lag_limits_default_def del: enqueue_net)
  from delivered_backlog_bounded [OF _ _ this] show ?thesis
    by (simp add: net_new_def chan_new_def OVERHEAD_def)
qed

end
