(* ===== verification/Lag_Accounting.thy ===== *)
theory Lag_Accounting
  imports Broadcast "HOL-Library.Sublist"
begin

text \<open>
  The queue accounting under concurrency. In \<^verbatim>\<open>broadcast.rs\<close> a send is not one atomic
  action: \<^verbatim>\<open>send_accounted\<close> is two independent \<^verbatim>\<open>fetch_add\<close>s, a channel send and, on a
  dead receiver, two \<^verbatim>\<open>fetch_sub\<close>s, run by any number of session, daemon and connection
  threads at once, while the connection's writer thread (\<^verbatim>\<open>writer_thread\<close> in
  \<^verbatim>\<open>server/connection.rs\<close>) dequeues and decrements. Here every atomic action is one step,
  and the steps of all threads interleave freely.

  The state also records two histories that the code does not keep: the messages a queue
  accepted and the messages its socket took. They let the theorems speak of order and of
  exactly-once delivery.
\<close>

section \<open>The interleaved system\<close>

datatype send_stage =
    CountedGlobal \<comment> \<open>after \<^verbatim>\<open>global.fetch_add\<close>\<close>
  | CountedBoth \<comment> \<open>after \<^verbatim>\<open>bytes_in_flight.fetch_add\<close>\<close>
  | SendFailed \<comment> \<open>the receiver was gone\<close>
  | ClientRestored \<comment> \<open>after \<^verbatim>\<open>bytes_in_flight.fetch_sub\<close>\<close>

record producer =
  pr_sink :: sink
  pr_msg :: daemon_message
  pr_stage :: send_stage

datatype writer_pc =
    Receiving
  | Sent daemon_message bool \<comment> \<open>\<^verbatim>\<open>send_message\<close> returned; the flag is its success\<close>
  | SentClient daemon_message bool \<comment> \<open>the client counter is decremented\<close>
  | Draining
  | Drained1 daemon_message
  | DrainedClient daemon_message
  | DrainOver \<comment> \<open>\<^verbatim>\<open>try_iter\<close> found the queue empty; the receiver still exists\<close>
  | Exited

record lag_sys =
  sys_queue :: "sink \<Rightarrow> daemon_message list"
  sys_bytes :: "sink \<Rightarrow> usize"
  sys_global :: usize
  sys_writer :: "sink \<Rightarrow> writer_pc"
  sys_producers :: "producer list"
  sys_accepted :: "sink \<Rightarrow> daemon_message list"
  sys_written :: "sink \<Rightarrow> daemon_message list"

fun is_stop :: "daemon_message \<Rightarrow> bool" where
  "is_stop ShuttingDown = True"
| "is_stop Evicted = True"
| "is_stop _ = False"

definition lag_init :: "sink set \<Rightarrow> lag_sys \<Rightarrow> bool" where
  "lag_init K s \<longleftrightarrow> finite K \<and> sys_queue s = (\<lambda>_. []) \<and> sys_bytes s = (\<lambda>_. 0) \<and> sys_global s = 0
     \<and> sys_writer s = (\<lambda>_. Receiving) \<and> sys_producers s = []
     \<and> sys_accepted s = (\<lambda>_. []) \<and> sys_written s = (\<lambda>_. [])"

text \<open>One atomic action of \<^verbatim>\<open>SubscriberSink::send_accounted\<close>.\<close>

inductive producer_step :: "sink set \<Rightarrow> lag_sys \<Rightarrow> lag_sys \<Rightarrow> bool" for K :: "sink set" where
  count_global: "k \<in> K \<Longrightarrow>
    producer_step K s
      (s\<lparr>sys_global := sys_global s + msg_bytes m,
         sys_producers := \<lparr>pr_sink = k, pr_msg = m, pr_stage = CountedGlobal\<rparr> # sys_producers s\<rparr>)"
| count_client: "sys_producers s = ps1 @ p # ps2 \<Longrightarrow> pr_stage p = CountedGlobal \<Longrightarrow>
    producer_step K s
      (s\<lparr>sys_bytes := (sys_bytes s)(pr_sink p := sys_bytes s (pr_sink p) + msg_bytes (pr_msg p)),
         sys_producers := ps1 @ p\<lparr>pr_stage := CountedBoth\<rparr> # ps2\<rparr>)"
| send_ok: "sys_producers s = ps1 @ p # ps2 \<Longrightarrow> pr_stage p = CountedBoth \<Longrightarrow>
    sys_writer s (pr_sink p) \<noteq> Exited \<Longrightarrow>
    producer_step K s
      (s\<lparr>sys_queue := (sys_queue s)(pr_sink p := sys_queue s (pr_sink p) @ [pr_msg p]),
         sys_accepted := (sys_accepted s)(pr_sink p := sys_accepted s (pr_sink p) @ [pr_msg p]),
         sys_producers := ps1 @ ps2\<rparr>)"
| send_fail: "sys_producers s = ps1 @ p # ps2 \<Longrightarrow> pr_stage p = CountedBoth \<Longrightarrow>
    sys_writer s (pr_sink p) = Exited \<Longrightarrow>
    producer_step K s (s\<lparr>sys_producers := ps1 @ p\<lparr>pr_stage := SendFailed\<rparr> # ps2\<rparr>)"
| restore_client: "sys_producers s = ps1 @ p # ps2 \<Longrightarrow> pr_stage p = SendFailed \<Longrightarrow>
    producer_step K s
      (s\<lparr>sys_bytes := (sys_bytes s)(pr_sink p := sys_bytes s (pr_sink p) - msg_bytes (pr_msg p)),
         sys_producers := ps1 @ p\<lparr>pr_stage := ClientRestored\<rparr> # ps2\<rparr>)"
| restore_global: "sys_producers s = ps1 @ p # ps2 \<Longrightarrow> pr_stage p = ClientRestored \<Longrightarrow>
    producer_step K s
      (s\<lparr>sys_global := sys_global s - msg_bytes (pr_msg p), sys_producers := ps1 @ ps2\<rparr>)"

text \<open>
  One atomic action of the writer thread of sink \<open>k\<close>. \<open>hang_up\<close> is the end of the
  \<^verbatim>\<open>for msg in &rx\<close> loop when every sender is gone.
\<close>

inductive writer_step :: "sink set \<Rightarrow> lag_sys \<Rightarrow> lag_sys \<Rightarrow> bool" for K :: "sink set" where
  write_msg: "k \<in> K \<Longrightarrow> sys_writer s k = Receiving \<Longrightarrow> sys_queue s k = m # ms \<Longrightarrow>
    writer_step K s
      (s\<lparr>sys_queue := (sys_queue s)(k := ms), sys_writer := (sys_writer s)(k := Sent m ok),
         sys_written := (sys_written s)(k := sys_written s k @ (if ok then [m] else []))\<rparr>)"
| hang_up: "k \<in> K \<Longrightarrow> sys_writer s k = Receiving \<Longrightarrow> sys_queue s k = [] \<Longrightarrow>
    writer_step K s (s\<lparr>sys_writer := (sys_writer s)(k := Draining)\<rparr>)"
| written_client: "k \<in> K \<Longrightarrow> sys_writer s k = Sent m ok \<Longrightarrow>
    writer_step K s
      (s\<lparr>sys_bytes := (sys_bytes s)(k := sys_bytes s k - msg_bytes m),
         sys_writer := (sys_writer s)(k := SentClient m ok)\<rparr>)"
| written_global: "k \<in> K \<Longrightarrow> sys_writer s k = SentClient m ok \<Longrightarrow>
    writer_step K s
      (s\<lparr>sys_global := sys_global s - msg_bytes m,
         sys_writer := (sys_writer s)(k := if \<not> ok \<or> is_stop m then Draining else Receiving)\<rparr>)"
| drain: "k \<in> K \<Longrightarrow> sys_writer s k = Draining \<Longrightarrow> sys_queue s k = m # ms \<Longrightarrow>
    writer_step K s
      (s\<lparr>sys_queue := (sys_queue s)(k := ms), sys_writer := (sys_writer s)(k := Drained1 m)\<rparr>)"
| drain_client: "k \<in> K \<Longrightarrow> sys_writer s k = Drained1 m \<Longrightarrow>
    writer_step K s
      (s\<lparr>sys_bytes := (sys_bytes s)(k := sys_bytes s k - msg_bytes m),
         sys_writer := (sys_writer s)(k := DrainedClient m)\<rparr>)"
| drain_global: "k \<in> K \<Longrightarrow> sys_writer s k = DrainedClient m \<Longrightarrow>
    writer_step K s
      (s\<lparr>sys_global := sys_global s - msg_bytes m, sys_writer := (sys_writer s)(k := Draining)\<rparr>)"
| drain_over: "k \<in> K \<Longrightarrow> sys_writer s k = Draining \<Longrightarrow> sys_queue s k = [] \<Longrightarrow>
    writer_step K s (s\<lparr>sys_writer := (sys_writer s)(k := DrainOver)\<rparr>)"
| drop_receiver: "k \<in> K \<Longrightarrow> sys_writer s k = DrainOver \<Longrightarrow>
    writer_step K s (s\<lparr>sys_writer := (sys_writer s)(k := Exited)\<rparr>)"

definition lag_step :: "sink set \<Rightarrow> lag_sys \<Rightarrow> lag_sys \<Rightarrow> bool" where
  "lag_step K s t \<longleftrightarrow> producer_step K s t \<or> writer_step K s t"

section \<open>The accounting invariant\<close>

text \<open>Bytes a thread has counted in a counter but that are not (or no longer) in a queue.\<close>

fun held_client :: "writer_pc \<Rightarrow> usize" where
  "held_client (Sent m _) = msg_bytes m"
| "held_client (Drained1 m) = msg_bytes m"
| "held_client _ = 0"

fun held_global :: "writer_pc \<Rightarrow> usize" where
  "held_global (Sent m _) = msg_bytes m"
| "held_global (SentClient m _) = msg_bytes m"
| "held_global (Drained1 m) = msg_bytes m"
| "held_global (DrainedClient m) = msg_bytes m"
| "held_global _ = 0"

definition pending_client :: "sink \<Rightarrow> producer \<Rightarrow> usize" where
  "pending_client k p =
     (if pr_sink p = k \<and> (pr_stage p = CountedBoth \<or> pr_stage p = SendFailed)
      then msg_bytes (pr_msg p) else 0)"

definition lag_inv :: "sink set \<Rightarrow> lag_sys \<Rightarrow> bool" where
  "lag_inv K s \<longleftrightarrow> finite K
     \<and> (\<forall>p \<in> set (sys_producers s). pr_sink p \<in> K)
     \<and> (\<forall>k \<in> K. sys_bytes s k = queue_bytes (sys_queue s k) + held_client (sys_writer s k)
            + (\<Sum>p\<leftarrow>sys_producers s. pending_client k p))
     \<and> sys_global s = (\<Sum>k\<in>K. queue_bytes (sys_queue s k) + held_global (sys_writer s k))
            + (\<Sum>p\<leftarrow>sys_producers s. msg_bytes (pr_msg p))"

lemma sum_upd_at:
  fixes f :: "'a \<Rightarrow> 'b::ab_group_add"
  assumes "finite K" and "k \<in> K" and "\<And>x. x \<noteq> k \<Longrightarrow> g x = f x"
  shows "(\<Sum>x\<in>K. g x) = (\<Sum>x\<in>K. f x) + (g k - f k)"
proof -
  have "(\<Sum>x\<in>K - {k}. g x) = (\<Sum>x\<in>K - {k}. f x)" using assms(3) by (intro sum.cong) auto
  then show ?thesis using assms(1,2) by (simp add: sum.remove)
qed

lemma lag_inv_init: "lag_init K s \<Longrightarrow> lag_inv K s"
  by (simp add: lag_init_def lag_inv_def)

lemma producer_step_inv:
  assumes "lag_inv K s" and "producer_step K s t"
  shows "lag_inv K t"
  using assms(2,1)
proof (induction rule: producer_step.induct)
  case (send_ok s ps1 p ps2)
  let ?q' = "(sys_queue s)(pr_sink p := sys_queue s (pr_sink p) @ [pr_msg p])"
  from send_ok have "finite K" and "pr_sink p \<in> K" by (auto simp: lag_inv_def)
  then have "(\<Sum>k\<in>K. queue_bytes (?q' k) + held_global (sys_writer s k))
    = (\<Sum>k\<in>K. queue_bytes (sys_queue s k) + held_global (sys_writer s k)) + msg_bytes (pr_msg p)"
    by (subst sum_upd_at [where k = "pr_sink p"]) auto
  with send_ok show ?case
    by (auto simp: lag_inv_def pending_client_def algebra_simps)
qed (auto simp: lag_inv_def pending_client_def algebra_simps)

text \<open>A writer step changes the state of its own sink only.\<close>

lemma writer_update:
  assumes inv: "lag_inv K s" and k: "k \<in> K"
    and q: "queue_bytes q + held_client w + (sys_bytes s k - b)
       = queue_bytes (sys_queue s k) + held_client (sys_writer s k)"
    and g: "queue_bytes q + held_global w + (sys_global s - gl)
       = queue_bytes (sys_queue s k) + held_global (sys_writer s k)"
  shows "lag_inv K (s\<lparr>sys_queue := (sys_queue s)(k := q), sys_bytes := (sys_bytes s)(k := b),
     sys_global := gl, sys_writer := (sys_writer s)(k := w), sys_written := wr\<rparr>)"
proof -
  let ?t = "s\<lparr>sys_queue := (sys_queue s)(k := q), sys_bytes := (sys_bytes s)(k := b),
     sys_global := gl, sys_writer := (sys_writer s)(k := w), sys_written := wr\<rparr>"
  have "(\<Sum>x\<in>K. queue_bytes (sys_queue ?t x) + held_global (sys_writer ?t x))
     = (\<Sum>x\<in>K. queue_bytes (sys_queue s x) + held_global (sys_writer s x))
       + (queue_bytes q + held_global w - (queue_bytes (sys_queue s k) + held_global (sys_writer s k)))"
    using inv k by (subst sum_upd_at [where k = k]) (auto simp: lag_inv_def)
  also have "\<dots> = (\<Sum>x\<in>K. queue_bytes (sys_queue s x) + held_global (sys_writer s x))
       - (sys_global s - gl)"
    by (simp flip: g)
  finally have "sys_global ?t = (\<Sum>x\<in>K. queue_bytes (sys_queue ?t x) + held_global (sys_writer ?t x))
     + (\<Sum>p\<leftarrow>sys_producers s. msg_bytes (pr_msg p))"
    using inv by (simp add: lag_inv_def)
  moreover have "b = queue_bytes q + held_client w + (\<Sum>p\<leftarrow>sys_producers s. pending_client k p)"
    using inv k q by (simp add: lag_inv_def algebra_simps)
  ultimately show ?thesis using inv by (auto simp: lag_inv_def)
qed

lemma writer_step_inv:
  assumes "lag_inv K s" and "writer_step K s t"
  shows "lag_inv K t"
  using assms(2,1)
proof (induction rule: writer_step.induct)
  case (write_msg k s m ms ok)
  then show ?case
    using writer_update [of K s k ms "Sent m ok" "sys_bytes s k" "sys_global s"] by simp
next
  case (hang_up k s)
  then show ?case
    using writer_update [of K s k "[]" Draining "sys_bytes s k" "sys_global s" "sys_written s"]
    by (simp add: fun_upd_idem)
next
  case (written_client k s m ok)
  then show ?case
    using writer_update [of K s k "sys_queue s k" "SentClient m ok" "sys_bytes s k - msg_bytes m"
        "sys_global s" "sys_written s"] by simp
next
  case (written_global k s m ok)
  then show ?case
    using writer_update [of K s k "sys_queue s k" "if \<not> ok \<or> is_stop m then Draining else Receiving"
        "sys_bytes s k" "sys_global s - msg_bytes m" "sys_written s"] by (auto split: if_splits)
next
  case (drain k s m ms)
  then show ?case
    using writer_update [of K s k ms "Drained1 m" "sys_bytes s k" "sys_global s" "sys_written s"] by simp
next
  case (drain_client k s m)
  then show ?case
    using writer_update [of K s k "sys_queue s k" "DrainedClient m" "sys_bytes s k - msg_bytes m"
        "sys_global s" "sys_written s"] by simp
next
  case (drain_global k s m)
  then show ?case
    using writer_update [of K s k "sys_queue s k" Draining "sys_bytes s k"
        "sys_global s - msg_bytes m" "sys_written s"] by simp
next
  case (drain_over k s)
  then show ?case
    using writer_update [of K s k "[]" DrainOver "sys_bytes s k" "sys_global s" "sys_written s"]
    by (simp add: fun_upd_idem)
next
  case (drop_receiver k s)
  then show ?case
    using writer_update [of K s k "sys_queue s k" Exited "sys_bytes s k" "sys_global s" "sys_written s"]
    by simp
qed

interpretation lag: stepping_system "lag_init K" "lag_step K" "lag_inv K" for K
  by unfold_locales (auto simp: lag_step_def intro: lag_inv_init producer_step_inv writer_step_inv)

section \<open>Order and exactly-once delivery\<close>

text \<open>
  What the writer has taken from the queue and not yet handed on: while it receives, the
  accepted messages are the written ones followed by the queue.
\<close>

fun stopped :: "writer_pc \<Rightarrow> bool" where
  "stopped Receiving = False"
| "stopped (Sent m ok) = (\<not> ok \<or> is_stop m)"
| "stopped (SentClient m ok) = (\<not> ok \<or> is_stop m)"
| "stopped _ = True"

definition fifo_inv :: "lag_sys \<Rightarrow> bool" where
  "fifo_inv s \<longleftrightarrow> (\<forall>k. prefix (sys_written s k) (sys_accepted s k)
     \<and> (\<not> stopped (sys_writer s k) \<longrightarrow> sys_accepted s k = sys_written s k @ sys_queue s k))"

lemma producer_step_fifo: "producer_step K s t \<Longrightarrow> fifo_inv s \<Longrightarrow> fifo_inv t"
  by (induction rule: producer_step.induct) (auto simp: fifo_inv_def)

lemma writer_step_fifo: "writer_step K s t \<Longrightarrow> fifo_inv s \<Longrightarrow> fifo_inv t"
  by (induction rule: writer_step.induct) (auto simp: fifo_inv_def split: if_splits)

interpretation fifo: stepping_system "lag_init K" "lag_step K" fifo_inv for K
proof unfold_locales
  show "fifo_inv s" if "lag_init K s" for s
    using that by (simp add: lag_init_def fifo_inv_def)
  show "fifo_inv t" if "fifo_inv s" and "lag_step K s t" for s t
    using that by (auto simp: lag_step_def intro: producer_step_fifo writer_step_fifo)
qed

section \<open>Properties\<close>

text \<open>A run used to exercise the properties: one message is counted, queued and written.\<close>

definition lag_new :: lag_sys where
  "lag_new = \<lparr>sys_queue = (\<lambda>_. []), sys_bytes = (\<lambda>_. 0), sys_global = 0,
     sys_writer = (\<lambda>_. Receiving), sys_producers = [], sys_accepted = (\<lambda>_. []), sys_written = (\<lambda>_. [])\<rparr>"

definition lag_queued :: lag_sys where
  "lag_queued = lag_new\<lparr>sys_global := 96, sys_bytes := (\<lambda>_. 0)(0 := 96),
     sys_queue := (\<lambda>_. [])(0 := [Pong]), sys_accepted := (\<lambda>_. [])(0 := [Pong])\<rparr>"

definition lag_written :: lag_sys where
  "lag_written = lag_queued\<lparr>sys_queue := (\<lambda>_. [])(0 := []),
     sys_writer := (\<lambda>_. Receiving)(0 := Sent Pong True), sys_written := (\<lambda>_. [])(0 := [Pong])\<rparr>"

lemma pong_bytes: "msg_bytes Pong = 96"
  by (simp add: msg_bytes_def OVERHEAD_def)

lemma lag_queued_reachable: "reachable (lag_init {0}) (lag_step {0}) lag_queued"
proof -
  let ?p = "\<lparr>pr_sink = 0, pr_msg = Pong, pr_stage = CountedGlobal\<rparr>"
  let ?s1 = "lag_new\<lparr>sys_global := 96, sys_producers := [?p]\<rparr>"
  let ?s2 = "?s1\<lparr>sys_bytes := (\<lambda>_. 0)(0 := 96), sys_producers := [?p\<lparr>pr_stage := CountedBoth\<rparr>]\<rparr>"
  have "reachable (lag_init {0}) (lag_step {0}) lag_new"
    by (rule reachable_init) (simp add: lag_init_def lag_new_def)
  moreover have "lag_step {0} lag_new ?s1"
    using count_global [of 0 "{0}" lag_new Pong] by (simp add: lag_step_def lag_new_def pong_bytes)
  moreover have "lag_step {0} ?s1 ?s2"
    using count_client [of ?s1 "[]" ?p "[]" "{0}"]
    by (simp add: lag_step_def lag_new_def pong_bytes)
  moreover have "lag_step {0} ?s2 lag_queued"
    using send_ok [of ?s2 "[]" "?p\<lparr>pr_stage := CountedBoth\<rparr>" "[]" "{0}"]
    by (simp add: lag_step_def lag_new_def lag_queued_def)
  ultimately show ?thesis by (blast intro: reachable_step)
qed

lemma lag_written_reachable: "reachable (lag_init {0}) (lag_step {0}) lag_written"
proof (rule reachable_step [OF lag_queued_reachable])
  show "lag_step {0} lag_queued lag_written"
    using write_msg [of 0 "{0}" lag_queued Pong "[]" True]
    by (simp add: lag_step_def lag_queued_def lag_written_def lag_new_def)
qed

text \<open>
  C31. Under every interleaving of producers and writer threads, whenever no send is in
  progress and every writer is between messages or gone, the byte counter of each client is
  the bytes of its queue and the daemon-wide counter is their sum. When moreover every live
  queue is empty, the daemon-wide counter is exactly the bytes stranded in the queues of
  writers that have exited.
\<close>

theorem quiescent_accounting:
  assumes "reachable (lag_init K) (lag_step K) s" and "sys_producers s = []"
    and "\<forall>k \<in> K. sys_writer s k = Receiving \<or> sys_writer s k = Exited"
  shows "(\<forall>k \<in> K. sys_bytes s k = queue_bytes (sys_queue s k))
    \<and> sys_global s = (\<Sum>k\<in>K. queue_bytes (sys_queue s k))
    \<and> ((\<forall>k \<in> K. sys_writer s k = Receiving \<longrightarrow> sys_queue s k = [])
        \<longrightarrow> sys_global s = (\<Sum>k | k \<in> K \<and> sys_writer s k = Exited. queue_bytes (sys_queue s k)))"
proof (intro conjI impI)
  have inv: "lag_inv K s" by (rule lag.inv_reachable [OF assms(1)])
  then have fin: "finite K" by (simp add: lag_inv_def)
  have rest: "held_client (sys_writer s k) = 0 \<and> held_global (sys_writer s k) = 0" if "k \<in> K" for k
    using assms(3) that by fastforce
  show "\<forall>k \<in> K. sys_bytes s k = queue_bytes (sys_queue s k)"
    using inv rest assms(2) by (simp add: lag_inv_def)
  show g: "sys_global s = (\<Sum>k\<in>K. queue_bytes (sys_queue s k))"
    using inv rest assms(2) by (simp add: lag_inv_def)
  assume empty: "\<forall>k \<in> K. sys_writer s k = Receiving \<longrightarrow> sys_queue s k = []"
  show "sys_global s = (\<Sum>k | k \<in> K \<and> sys_writer s k = Exited. queue_bytes (sys_queue s k))"
    unfolding g using fin empty assms(3)
    by (intro sum.mono_neutral_right) auto
qed

theorem quiescent_accounting_witness:
  "sys_global lag_queued = queue_bytes (sys_queue lag_queued 0) \<and> sys_queue lag_queued 0 = [Pong]"
  using quiescent_accounting [OF lag_queued_reachable]
  by (simp add: lag_queued_def lag_new_def)

text \<open>
  What a socket has taken is always a prefix of what its queue accepted, in the order
  of acceptance: nothing is reordered, duplicated or invented. While the writer is
  receiving, the accepted messages are exactly the written ones followed by the queue.
\<close>

lemma writer_fifo:
  assumes "reachable (lag_init K) (lag_step K) s"
  shows "prefix (sys_written s k) (sys_accepted s k)
    \<and> (sys_writer s k = Receiving \<longrightarrow> sys_accepted s k = sys_written s k @ sys_queue s k)"
  using fifo.inv_reachable [OF assms] by (auto simp: fifo_inv_def)

lemma writer_fifo_witness: "prefix (sys_written lag_written 0) (sys_accepted lag_written 0) \<and> sys_written lag_written 0 = [Pong]"
  using writer_fifo [OF lag_written_reachable, of 0] by (simp add: lag_written_def)

text \<open>A step leaves the queue of an exited writer alone.\<close>

lemma exited_step:
  assumes "lag_step K s t" and "sys_writer s k = Exited"
  shows "sys_writer t k = Exited \<and> sys_queue t k = sys_queue s k"
  using assms by (auto simp: lag_step_def elim!: producer_step.cases writer_step.cases)

text \<open>
  The bytes that an exiting writer strands are bounded: once it has exited, no further
  message enters its queue, however many producers still hold its sink; their sends fail
  and undo their counting.
\<close>

lemma exited_queue_frozen:
  assumes "(lag_step K)\<^sup>*\<^sup>* s t" and "sys_writer s k = Exited"
  shows "sys_writer t k = Exited \<and> sys_queue t k = sys_queue s k"
  using assms
proof (induction rule: rtranclp_induct)
  case base
  then show ?case by simp
next
  case (step u v)
  then show ?case using exited_step [of K u v k] by simp
qed

definition lag_exited :: lag_sys where
  "lag_exited = lag_new\<lparr>sys_writer := (\<lambda>_. Receiving)(0 := Exited)\<rparr>"

lemma exited_queue_frozen_witness:
  "sys_queue (lag_exited\<lparr>sys_global := 96,
     sys_producers := [\<lparr>pr_sink = 0, pr_msg = Pong, pr_stage = CountedGlobal\<rparr>]\<rparr>) 0 = []"
proof -
  have "lag_step {0} lag_exited (lag_exited\<lparr>sys_global := 96,
     sys_producers := [\<lparr>pr_sink = 0, pr_msg = Pong, pr_stage = CountedGlobal\<rparr>]\<rparr>)"
    using count_global [of 0 "{0}" lag_exited Pong]
    by (simp add: lag_step_def lag_exited_def lag_new_def pong_bytes)
  from exited_queue_frozen [OF r_into_rtranclp [of "lag_step {0}", OF this], of 0] show ?thesis
    by (simp add: lag_exited_def lag_new_def)
qed

end
