(* ===== verification/Text.thy ===== *)
theory Text
  imports Prelude
begin

text \<open>
  The string operations of the Rust standard library the daemon applies to untrusted
  bytes: \<^verbatim>\<open>String::from_utf8_lossy\<close> (also behind \<^verbatim>\<open>Path::display\<close> and
  \<^verbatim>\<open>to_string_lossy\<close>), \<^verbatim>\<open>str::trim\<close>, decimal formatting of an index and \<^verbatim>\<open>join\<close>. A string
  is the list of its UTF-8 bytes.
\<close>

section \<open>Lossy UTF-8 decoding\<close>

abbreviation byte :: "char \<Rightarrow> nat" where
  "byte c \<equiv> of_char c"

definition is_cont :: "char \<Rightarrow> bool" where
  "is_cont c \<longleftrightarrow> 0x80 \<le> byte c \<and> byte c \<le> 0xBF"

text \<open>Whether \<open>b2\<close> may follow the lead byte \<open>b1\<close> of a sequence of three or four bytes:
  no overlong forms, no surrogates, nothing above U+10FFFF.\<close>

definition second3 :: "nat \<Rightarrow> nat \<Rightarrow> bool" where
  "second3 b1 b2 \<longleftrightarrow>
     (if b1 = 0xE0 then 0xA0 \<le> b2 \<and> b2 \<le> 0xBF
      else if b1 = 0xED then 0x80 \<le> b2 \<and> b2 \<le> 0x9F
      else 0x80 \<le> b2 \<and> b2 \<le> 0xBF)"

definition second4 :: "nat \<Rightarrow> nat \<Rightarrow> bool" where
  "second4 b1 b2 \<longleftrightarrow>
     (if b1 = 0xF0 then 0x90 \<le> b2 \<and> b2 \<le> 0xBF
      else if b1 = 0xF4 then 0x80 \<le> b2 \<and> b2 \<le> 0x8F
      else 0x80 \<le> b2 \<and> b2 \<le> 0xBF)"

text \<open>The length of the next chunk and whether it is a character; an ill-formed chunk is
  the longest prefix of a character that the bytes do not continue.\<close>

definition cont_at :: "string \<Rightarrow> nat \<Rightarrow> bool" where
  "cont_at bs i \<longleftrightarrow> i < length bs \<and> is_cont (bs ! i)"

definition utf8_chunk :: "string \<Rightarrow> bool \<times> nat" where
  "utf8_chunk bs =
     (let b1 = byte (hd bs); snd_ok = (\<lambda>p. 1 < length bs \<and> p b1 (byte (bs ! 1)))
      in if b1 \<le> 0x7F then (True, 1)
         else if 0xC2 \<le> b1 \<and> b1 \<le> 0xDF then (if cont_at bs 1 then (True, 2) else (False, 1))
         else if 0xE0 \<le> b1 \<and> b1 \<le> 0xEF then
           (if \<not> snd_ok second3 then (False, 1)
            else if cont_at bs 2 then (True, 3) else (False, 2))
         else if 0xF0 \<le> b1 \<and> b1 \<le> 0xF4 then
           (if \<not> snd_ok second4 then (False, 1)
            else if \<not> cont_at bs 2 then (False, 2)
            else if cont_at bs 3 then (True, 4) else (False, 3))
         else (False, 1))"

definition REPLACEMENT :: string where
  "REPLACEMENT = [CHR 0xEF, CHR 0xBF, CHR 0xBD]"

lemma utf8_chunk_pos: "0 < snd (utf8_chunk bs)"
  by (simp add: utf8_chunk_def Let_def)

function from_utf8_lossy :: "string \<Rightarrow> string" where
  "from_utf8_lossy bs =
     (if bs = [] then []
      else (if fst (utf8_chunk bs) then take (snd (utf8_chunk bs)) bs else REPLACEMENT)
           @ from_utf8_lossy (drop (snd (utf8_chunk bs)) bs))"
  by pat_completeness auto
termination
  by (relation "measure length") (auto simp: utf8_chunk_pos)

declare from_utf8_lossy.simps [simp del]

function utf8_valid :: "string \<Rightarrow> bool" where
  "utf8_valid bs =
     (if bs = [] then True
      else if fst (utf8_chunk bs) then utf8_valid (drop (snd (utf8_chunk bs)) bs)
      else False)"
  by pat_completeness auto
termination
  by (relation "measure length") (auto simp: utf8_chunk_pos)

declare utf8_valid.simps [simp del]

lemma from_utf8_lossy_Nil [simp]: "from_utf8_lossy [] = []"
  by (simp add: from_utf8_lossy.simps)

lemma from_utf8_lossy_valid: "utf8_valid bs \<Longrightarrow> from_utf8_lossy bs = bs"
proof (induction bs rule: utf8_valid.induct)
  case (1 bs)
  show ?case
  proof (cases "bs = []")
    case True
    then show ?thesis by simp
  next
    case False
    with "1.prems" have c: "fst (utf8_chunk bs)" and v: "utf8_valid (drop (snd (utf8_chunk bs)) bs)"
      by (auto simp: utf8_valid.simps [of bs] split: if_splits)
    from "1.IH" [OF False c v] c False show ?thesis
      by (simp add: from_utf8_lossy.simps [of bs])
  qed
qed

lemma from_utf8_lossy_nonempty: "bs \<noteq> [] \<Longrightarrow> from_utf8_lossy bs \<noteq> []"
  using utf8_chunk_pos [of bs] by (simp add: from_utf8_lossy.simps [of bs] REPLACEMENT_def)

section \<open>Trimming white space\<close>

text \<open>The length of the white-space character (Unicode \<^verbatim>\<open>White_Space\<close>) a string starts
  with, 0 for none.\<close>

definition ws_len :: "string \<Rightarrow> nat" where
  "ws_len bs =
     (let b = (\<lambda>i. if i < length bs then byte (bs ! i) else 256)
      in if (9 \<le> b 0 \<and> b 0 \<le> 13) \<or> b 0 = 32 then 1
         else if b 0 = 0xC2 \<and> (b 1 = 0x85 \<or> b 1 = 0xA0) then 2
         else if b 0 = 0xE1 \<and> b 1 = 0x9A \<and> b 2 = 0x80 then 3
         else if b 0 = 0xE2 \<and> b 1 = 0x80 \<and>
            ((0x80 \<le> b 2 \<and> b 2 \<le> 0x8A) \<or> b 2 = 0xA8 \<or> b 2 = 0xA9 \<or> b 2 = 0xAF) then 3
         else if b 0 = 0xE2 \<and> b 1 = 0x81 \<and> b 2 = 0x9F then 3
         else if b 0 = 0xE3 \<and> b 1 = 0x80 \<and> b 2 = 0x80 then 3
         else 0)"

lemma ws_len_Nil [simp]: "ws_len [] = 0"
  by (simp add: ws_len_def)

function trim_start :: "string \<Rightarrow> string" where
  "trim_start bs = (if ws_len bs = 0 then bs else trim_start (drop (ws_len bs) bs))"
  by pat_completeness auto
termination
proof (relation "measure length")
  fix bs :: string
  assume "ws_len bs \<noteq> 0"
  moreover from this have "bs \<noteq> []" by (cases bs) simp_all
  ultimately show "(drop (ws_len bs) bs, bs) \<in> measure length" by simp
qed simp

declare trim_start.simps [simp del]

text \<open>The end of a string is trimmed by trying the three lengths a white-space character
  can have.\<close>

definition ws_suffix_len :: "string \<Rightarrow> nat" where
  "ws_suffix_len bs =
     (let at = (\<lambda>n. n \<le> length bs \<and> ws_len (drop (length bs - n) bs) = n)
      in if at 1 then 1 else if at 2 then 2 else if at 3 then 3 else 0)"

lemma ws_suffix_len_le: "ws_suffix_len bs \<le> length bs"
  by (simp add: ws_suffix_len_def Let_def)

function trim_end :: "string \<Rightarrow> string" where
  "trim_end bs =
     (if ws_suffix_len bs = 0 then bs else trim_end (take (length bs - ws_suffix_len bs) bs))"
  by pat_completeness auto
termination
proof (relation "measure length")
  fix bs :: string
  assume "ws_suffix_len bs \<noteq> 0"
  with ws_suffix_len_le [of bs]
  show "(take (length bs - ws_suffix_len bs) bs, bs) \<in> measure length" by simp
qed simp

declare trim_end.simps [simp del]

definition trim :: "string \<Rightarrow> string" where
  "trim bs = trim_end (trim_start bs)"

section \<open>Formatting\<close>

definition digit :: "nat \<Rightarrow> char" where
  "digit d = char_of (48 + d)"

fun decimal :: "nat \<Rightarrow> string" where
  "decimal n = (if n < 10 then [digit n] else decimal (n div 10) @ [digit (n mod 10)])"

declare decimal.simps [simp del]

text \<open>Reading the digits back shows that the formatting is injective.\<close>

definition undecimal :: "string \<Rightarrow> nat" where
  "undecimal ds = foldl (\<lambda>n c. 10 * n + (byte c - 48)) 0 ds"

lemma byte_digit: "d < 10 \<Longrightarrow> byte (digit d) = 48 + d"
  by (simp add: digit_def)

lemma undecimal_decimal: "undecimal (decimal n) = n"
proof (induction n rule: decimal.induct)
  case (1 n)
  show ?case
  proof (cases "n < 10")
    case True
    then show ?thesis by (simp add: decimal.simps [of n] undecimal_def byte_digit)
  next
    case False
    with "1.IH" have "undecimal (decimal (n div 10)) = n div 10" by simp
    with False show ?thesis
      by (simp add: decimal.simps [of n] undecimal_def byte_digit)
  qed
qed

lemma decimal_inject [simp]: "decimal m = decimal n \<longleftrightarrow> m = n"
  by (metis undecimal_decimal)

fun join :: "string \<Rightarrow> string list \<Rightarrow> string" where
  "join sep [] = []"
| "join sep [s] = s"
| "join sep (s # t # ss) = s @ sep @ join sep (t # ss)"

end
