(* ===== verification/Session_State.thy ===== *)
theory Session_State
  imports Broadcast Text
begin

text \<open>
  The data a session owns and the operations on its turns
  (\<^verbatim>\<open>choreo-daemon/src/sessions.rs\<close>): configuration, metadata and persisted record with
  the conversions between them, and the \<^verbatim>\<open>impl SessionState\<close> block: starting a turn,
  recording the assistant's response and tool results, undo and redo, snapshots.

  A \<^verbatim>\<open>HashSet<String>\<close> is a list without duplicates whose order is the iteration order; a
  path is the list of its bytes and \<open>path_display\<close> is its lossy printing. The clock is an
  argument (\<open>now\<close>, milliseconds since the epoch).
\<close>

section \<open>Configuration, metadata, record\<close>

type_synonym hset = "string list"

definition hset_insert :: "string \<Rightarrow> hset \<Rightarrow> hset" where
  "hset_insert x s = (if x \<in> set s then s else s @ [x])"

definition hset_remove :: "string \<Rightarrow> hset \<Rightarrow> hset" where
  "hset_remove x s = filter (\<lambda>y. y \<noteq> x) s"

definition hset_of_vec :: "string list \<Rightarrow> hset" where
  "hset_of_vec xs = remdups xs"

definition path_display :: "string \<Rightarrow> string" where
  "path_display p = from_utf8_lossy p"

record session_config =
  cfg_title :: "string option"
  cfg_selected_model :: "string option"
  cfg_reasoning_effort :: "string option"
  cfg_parent_session_id :: "u64 option"
  cfg_working_dir :: "string option"
  cfg_created_at :: i64
  cfg_last_modified :: i64
  cfg_status :: session_status
  cfg_active_tool_groups :: hset
  cfg_context_config :: context_config
  cfg_account_name :: "string option"
  cfg_accumulated_usage :: token_usage
  cfg_context_window :: "u32 option"
  cfg_last_prompt_tokens :: "u32 option"
  cfg_last_response_id :: "string option"
  cfg_last_response_id_producer :: "reasoning_producer option"

definition session_config_default :: session_config where
  "session_config_default =
     \<lparr>cfg_title = None, cfg_selected_model = None, cfg_reasoning_effort = None,
      cfg_parent_session_id = None, cfg_working_dir = None, cfg_created_at = 0,
      cfg_last_modified = 0, cfg_status = Inactive, cfg_active_tool_groups = [],
      cfg_context_config = context_config_default, cfg_account_name = None,
      cfg_accumulated_usage = token_usage_default, cfg_context_window = None,
      cfg_last_prompt_tokens = None, cfg_last_response_id = None,
      cfg_last_response_id_producer = None\<rparr>"

definition apply_worker_snapshot :: "session_config \<Rightarrow> session_config \<Rightarrow> session_config" where
  "apply_worker_snapshot self snapshot =
     self\<lparr>cfg_accumulated_usage := cfg_accumulated_usage snapshot,
          cfg_context_window := cfg_context_window snapshot,
          cfg_last_prompt_tokens := cfg_last_prompt_tokens snapshot,
          cfg_last_response_id := cfg_last_response_id snapshot,
          cfg_last_response_id_producer := cfg_last_response_id_producer snapshot\<rparr>"

record session_metadata =
  meta_title :: "string option"
  meta_selected_model :: "string option"
  meta_reasoning_effort :: "string option"
  meta_parent_session_id :: "u64 option"
  meta_working_dir :: "string option"
  meta_created_at :: i64
  meta_last_modified :: i64
  meta_turn_count :: u32
  meta_status :: session_status
  meta_active_tool_groups :: "string list"
  meta_account_name :: "string option"
  meta_accumulated_usage :: token_usage
  meta_context_window :: "u32 option"
  meta_last_prompt_tokens :: "u32 option"

record session_record =
  rec_title :: "string option"
  rec_selected_model :: "string option"
  rec_parent_session_id :: "u64 option"
  rec_working_dir :: "string option"
  rec_turn_count :: u32
  rec_created_at :: i64
  rec_last_modified :: i64
  rec_active_tool_groups :: "string list"
  rec_context_config :: context_config
  rec_account_name :: "string option"
  rec_reasoning_effort :: "string option"
  rec_last_response_id :: "string option"
  rec_last_response_id_producer :: "reasoning_producer option"

definition metadata_of_config :: "session_config \<Rightarrow> session_metadata" where
  "metadata_of_config c =
     \<lparr>meta_title = cfg_title c, meta_selected_model = cfg_selected_model c,
      meta_reasoning_effort = cfg_reasoning_effort c,
      meta_parent_session_id = cfg_parent_session_id c,
      meta_working_dir = map_option path_display (cfg_working_dir c),
      meta_created_at = cfg_created_at c, meta_last_modified = cfg_last_modified c,
      meta_turn_count = 0, meta_status = cfg_status c,
      meta_active_tool_groups = cfg_active_tool_groups c,
      meta_account_name = cfg_account_name c,
      meta_accumulated_usage = cfg_accumulated_usage c,
      meta_context_window = cfg_context_window c,
      meta_last_prompt_tokens = cfg_last_prompt_tokens c\<rparr>"

definition metadata_of_record :: "session_record \<Rightarrow> session_metadata" where
  "metadata_of_record r =
     (let config =
        \<lparr>cfg_title = rec_title r, cfg_selected_model = rec_selected_model r,
         cfg_reasoning_effort = rec_reasoning_effort r,
         cfg_parent_session_id = rec_parent_session_id r,
         cfg_working_dir = rec_working_dir r,
         cfg_created_at = rec_created_at r, cfg_last_modified = rec_last_modified r,
         cfg_status = Sleeping,
         cfg_active_tool_groups = hset_of_vec (rec_active_tool_groups r),
         cfg_context_config = rec_context_config r, cfg_account_name = rec_account_name r,
         cfg_accumulated_usage = token_usage_default, cfg_context_window = None,
         cfg_last_prompt_tokens = None, cfg_last_response_id = rec_last_response_id r,
         cfg_last_response_id_producer = rec_last_response_id_producer r\<rparr>
      in (metadata_of_config config)\<lparr>meta_turn_count := rec_turn_count r\<rparr>)"

definition record_of_metadata :: "session_metadata \<Rightarrow> session_record" where
  "record_of_metadata m =
     \<lparr>rec_title = meta_title m, rec_selected_model = meta_selected_model m,
      rec_parent_session_id = meta_parent_session_id m, rec_working_dir = meta_working_dir m,
      rec_turn_count = meta_turn_count m, rec_created_at = meta_created_at m,
      rec_last_modified = meta_last_modified m,
      rec_active_tool_groups = meta_active_tool_groups m,
      rec_context_config = context_config_default, rec_account_name = meta_account_name m,
      rec_reasoning_effort = meta_reasoning_effort m, rec_last_response_id = None,
      rec_last_response_id_producer = None\<rparr>"

definition to_summary :: "session_metadata \<Rightarrow> u64 \<Rightarrow> session_summary" where
  "to_summary m session_id =
     \<lparr>sum_session_id = session_id, sum_title = meta_title m,
      sum_selected_model = meta_selected_model m,
      sum_reasoning_effort = meta_reasoning_effort m,
      sum_parent_session_id = meta_parent_session_id m,
      sum_working_dir = meta_working_dir m, sum_created_at = meta_created_at m,
      sum_last_modified = meta_last_modified m, sum_turn_count = meta_turn_count m,
      sum_status = meta_status m, sum_active_tool_groups = meta_active_tool_groups m,
      sum_account_name = meta_account_name m,
      sum_token_usage = Some (meta_accumulated_usage m),
      sum_context_window = meta_context_window m,
      sum_last_prompt_tokens = meta_last_prompt_tokens m\<rparr>"

section \<open>Session state\<close>

text \<open>
  An inference provider is opaque to the session: its slug, and the context window it
  resolves for a model.
\<close>

record inference_provider =
  provider_slug :: string
  resolve_context_window :: "string \<Rightarrow> u32 option"

record loaded_skill =
  ls_name :: string
  ls_body :: string

record skill_meta =
  sk_name :: string
  sk_description :: string
  sk_path :: string

text \<open>The cancellation channel of a request is the number of cancel messages sent on it.\<close>

record active_request =
  cancels_sent :: nat
  ar_turn_id :: u32

record session_state =
  config :: session_config
  next_turn_id :: u32
  last_undo_turn_ids :: "u32 list option"
  turns :: "(u32, turn) btmap"
  subscribers :: "(u64, sink) hmap"
  active_requests :: "(u32, active_request) btmap"
  provider :: "inference_provider option"
  loaded_skill_bodies :: "loaded_skill list"
  context_cache :: "(u64 \<times> string) option"
  discovered_skills :: "skill_meta list option"

record session_snapshot =
  snap_config :: session_config
  snap_turns :: "(u32, turn) btmap"
  snap_loaded_skill_bodies :: "loaded_skill list"
  snap_context_cache :: "(u64 \<times> string) option"
  snap_discovered_skills :: "skill_meta list option"

definition session_state_empty :: session_state where
  "session_state_empty =
     \<lparr>config = session_config_default, next_turn_id = 0, last_undo_turn_ids = None, turns = [],
      subscribers = [], active_requests = [], provider = None, loaded_skill_bodies = [],
      context_cache = None, discovered_skills = None\<rparr>"

definition snapshot :: "session_state \<Rightarrow> session_snapshot" where
  "snapshot s =
     \<lparr>snap_config = config s, snap_turns = turns s,
      snap_loaded_skill_bodies = loaded_skill_bodies s, snap_context_cache = context_cache s,
      snap_discovered_skills = discovered_skills s\<rparr>"

definition from_snapshot :: "session_snapshot \<Rightarrow> (u64, sink) hmap \<Rightarrow> session_state" where
  "from_snapshot sn subs =
     (let turn_count = of_nat (length (snap_turns sn)) in
      \<lparr>config = snap_config sn, next_turn_id = turn_count, last_undo_turn_ids = None,
       turns = snap_turns sn, subscribers = subs, active_requests = [], provider = None,
       loaded_skill_bodies = snap_loaded_skill_bodies sn,
       context_cache = snap_context_cache sn, discovered_skills = snap_discovered_skills sn\<rparr>)"

definition metadata_of_state :: "session_state \<Rightarrow> session_metadata" where
  "metadata_of_state s =
     (metadata_of_config (config s))\<lparr>meta_turn_count := of_nat (length (turns s))\<rparr>"

definition record_of_state :: "session_state \<Rightarrow> session_record" where
  "record_of_state s =
     (record_of_metadata (metadata_of_state s))
       \<lparr>rec_context_config := cfg_context_config (config s),
        rec_last_response_id := cfg_last_response_id (config s),
        rec_last_response_id_producer := cfg_last_response_id_producer (config s)\<rparr>"

section \<open>Operations on turns\<close>

abbreviation upd_config :: "(session_config \<Rightarrow> session_config) \<Rightarrow> session_state \<Rightarrow> session_state" where
  "upd_config f s \<equiv> s\<lparr>config := f (config s)\<rparr>"

definition upd_turn :: "u32 \<Rightarrow> (turn \<Rightarrow> turn) \<Rightarrow> session_state \<Rightarrow> session_state" where
  "upd_turn i f s = s\<lparr>turns := map_at i f (turns s)\<rparr>"

definition new_turn :: "i64 \<Rightarrow> string option \<Rightarrow> turn" where
  "new_turn now text =
     \<lparr>created_at = now, undone = False, turn_error = None, user_text = text,
      assistant_text = None, assistant_reasoning = None, tool_calls = [],
      turn_token_usage = None, tool_results = [], displayed_images = [],
      turn_reasoning_artifact = None, turn_reasoning_producer = None\<rparr>"

definition start_turn ::
  "i64 \<Rightarrow> string option \<Rightarrow> session_state \<Rightarrow> session_state \<times> u32 \<times> turn" where
  "start_turn now text s =
     (let s1 = (if text \<noteq> None then s\<lparr>last_undo_turn_ids := None\<rparr> else s);
          turn_id = next_turn_id s1;
          s2 = s1\<lparr>next_turn_id := next_turn_id s1 + 1\<rparr>;
          t = new_turn now text
      in (s2\<lparr>turns := bt_insert turn_id t (turns s2)\<rparr>, turn_id, t))"

record assistant_response =
  resp_text :: "string option"
  resp_reasoning :: "string option"
  resp_tool_calls :: "assistant_tool_call_record list"
  resp_token_usage :: "token_usage option"
  resp_reasoning_artifact :: "reasoning_artifact option"
  resp_reasoning_producer :: "reasoning_producer option"

definition set_assistant_response ::
  "u32 \<Rightarrow> assistant_response \<Rightarrow> session_state \<Rightarrow> session_state" where
  "set_assistant_response turn_id r =
     upd_turn turn_id (\<lambda>t. t
       \<lparr>assistant_text := resp_text r, assistant_reasoning := resp_reasoning r,
        tool_calls := resp_tool_calls r, turn_token_usage := resp_token_usage r,
        turn_reasoning_artifact := resp_reasoning_artifact r,
        turn_reasoning_producer := resp_reasoning_producer r\<rparr>)"

definition placeholder :: "assistant_tool_call_record \<Rightarrow> string \<Rightarrow> tool_result_record" where
  "placeholder tc desc =
     \<lparr>tr_call_id = tc_call_id tc, tr_name = tc_name tc, tr_content = [], tr_is_error = False,
      tr_invocation_description = desc, tr_image = None\<rparr>"

definition seed_tool_results ::
  "u32 \<Rightarrow> assistant_tool_call_record list \<Rightarrow> string list \<Rightarrow> session_state \<Rightarrow> session_state" where
  "seed_tool_results turn_id calls descs =
     upd_turn turn_id (\<lambda>t. t\<lparr>tool_results := map (\<lambda>(tc, d). placeholder tc d) (zip calls descs)\<rparr>)"

record tool_output =
  out_content :: string
  out_is_error :: bool
  out_invocation_description :: string
  out_image_ref :: "image_reference option"

text \<open>\<^verbatim>\<open>iter_mut().find(|r| r.call_id == call_id)\<close>: the first match is changed.\<close>

fun upd_first :: "('a \<Rightarrow> bool) \<Rightarrow> ('a \<Rightarrow> 'a) \<Rightarrow> 'a list \<Rightarrow> 'a list" where
  "upd_first P f [] = []"
| "upd_first P f (x # xs) = (if P x then f x # xs else x # upd_first P f xs)"

definition update_tool_result ::
  "u32 \<Rightarrow> string \<Rightarrow> string \<Rightarrow> tool_output \<Rightarrow> session_state \<Rightarrow> session_state" where
  "update_tool_result turn_id call_id name out =
     upd_turn turn_id (\<lambda>t. t\<lparr>tool_results :=
       upd_first (\<lambda>r. tr_call_id r = call_id)
         (\<lambda>r. r\<lparr>tr_name := name, tr_content := out_content out, tr_is_error := out_is_error out,
                tr_invocation_description := out_invocation_description out,
                tr_image := out_image_ref out\<rparr>) (tool_results t)\<rparr>)"

text \<open>The marker holds an em dash, the bytes E2 80 94.\<close>

definition CANCELLED_MARK :: string where
  "CANCELLED_MARK =
     ''[cancelled '' @ [CHR 0xE2, CHR 0x80, CHR 0x94] @ '' result not recorded]''"

definition mark_unexecuted_tool_results :: "u32 \<Rightarrow> hset \<Rightarrow> session_state \<Rightarrow> session_state" where
  "mark_unexecuted_tool_results turn_id executed =
     upd_turn turn_id (\<lambda>t. t\<lparr>tool_results :=
       map (\<lambda>r. if tr_call_id r \<notin> set executed
                then r\<lparr>tr_content := CANCELLED_MARK, tr_is_error := True\<rparr> else r)
         (tool_results t)\<rparr>)"

definition add_displayed_image :: "u32 \<Rightarrow> displayed_image_record \<Rightarrow> session_state \<Rightarrow> session_state" where
  "add_displayed_image turn_id img =
     upd_turn turn_id (\<lambda>t. t\<lparr>displayed_images := displayed_images t @ [img]\<rparr>)"

definition set_turn_error :: "u32 \<Rightarrow> string \<Rightarrow> session_state \<Rightarrow> session_state" where
  "set_turn_error turn_id err = upd_turn turn_id (\<lambda>t. t\<lparr>turn_error := Some err\<rparr>)"

definition mark_undone :: "bool \<Rightarrow> u32 list \<Rightarrow> (u32, turn) btmap \<Rightarrow> (u32, turn) btmap" where
  "mark_undone b ids ts = fold (\<lambda>i. map_at i (\<lambda>t. t\<lparr>undone := b\<rparr>)) ids ts"

definition undo_target :: "(u32, turn) btmap \<Rightarrow> u32 option" where
  "undo_target ts =
     map_option fst (find (\<lambda>(_, t). \<not> undone t \<and> user_text t \<noteq> None) (rev ts))"

definition undo_turns :: "session_state \<Rightarrow> session_state \<times> u32 list option" where
  "undo_turns s =
     (case undo_target (turns s) of
        None \<Rightarrow> (s, None)
      | Some target \<Rightarrow>
          let to_undo = filter (\<lambda>i. target \<le> i) (keys (turns s))
          in (s\<lparr>turns := mark_undone True to_undo (turns s),
                last_undo_turn_ids := Some to_undo\<rparr>, Some to_undo))"

definition redo_turns :: "session_state \<Rightarrow> session_state \<times> (u32, turn) btmap option" where
  "redo_turns s =
     (case last_undo_turn_ids s of
        None \<Rightarrow> (s, None)
      | Some ids \<Rightarrow>
          let ts = mark_undone False ids (turns s);
              restored = fold (\<lambda>i r. case map_of ts i of None \<Rightarrow> r | Some t \<Rightarrow> bt_insert i t r) ids []
          in (s\<lparr>last_undo_turn_ids := None, turns := ts\<rparr>, Some restored))"

definition turn_for_client :: "turn \<Rightarrow> turn" where
  "turn_for_client t =
     t\<lparr>turn_reasoning_artifact := None, turn_reasoning_producer := None,
       tool_results := map (\<lambda>r. r\<lparr>tr_image := None\<rparr>) (tool_results t)\<rparr>"

text \<open>
  The snapshot message of the session. \<open>cap\<close> stands for \<^verbatim>\<open>model_reasoning_capability\<close> of
  \<^verbatim>\<open>choreo-ai-protocols\<close>, a lookup in the provider catalog.
\<close>

definition session_capability ::
  "(string \<Rightarrow> string \<Rightarrow> reasoning_capability) \<Rightarrow> session_state \<Rightarrow> reasoning_capability option" where
  "session_capability cap s =
     (case (cfg_selected_model (config s), provider s) of
        (Some model, Some p) \<Rightarrow> Some (cap (provider_slug p) model)
      | _ \<Rightarrow> None)"

definition clients_turns :: "(u32, turn) btmap \<Rightarrow> (u32, turn) btmap" where
  "clients_turns ts = map (\<lambda>(i, t). (i, turn_for_client t)) ts"

definition session_state_message ::
  "(string \<Rightarrow> string \<Rightarrow> reasoning_capability) \<Rightarrow> u64 \<Rightarrow> session_state \<Rightarrow> daemon_message" where
  "session_state_message cap session_id s =
     Session (Some session_id)
       (SessionStateEvent (cfg_title (config s)) (cfg_selected_model (config s))
          (cfg_parent_session_id (config s)) (map_option path_display (cfg_working_dir (config s)))
          (clients_turns (turns s)) (cfg_active_tool_groups (config s))
          (Some (cfg_accumulated_usage (config s))) (cfg_context_window (config s))
          (cfg_last_prompt_tokens (config s)) (cfg_status (config s))
          (cfg_reasoning_effort (config s)) (session_capability cap s))"

section \<open>Turn identifiers\<close>

text \<open>
  The turns of a session are numbered without gaps from 0, and \<open>next_turn_id\<close> is their
  number. The worker of a request relies on it: its copy of the session recomputes
  \<open>next_turn_id\<close> as the number of turns.
\<close>

definition contiguous :: "session_state \<Rightarrow> bool" where
  "contiguous s \<longleftrightarrow> keys (turns s) = map of_nat [0..<unat (next_turn_id s)]"

lemma of_nat_less_u32: "a < b \<Longrightarrow> b < 2 ^ 32 \<Longrightarrow> (of_nat a :: u32) < of_nat b"
  by (simp add: word_less_nat_alt unat_of_nat)

lemma contiguous_bt_wf: "contiguous s \<Longrightarrow> bt_wf (turns s)"
proof -
  assume "contiguous s"
  moreover have "sorted_wrt (<) (map of_nat [0..<n] :: u32 list)" if "n < 2 ^ 32" for n
    using that by (auto simp: sorted_wrt_iff_nth_less intro!: of_nat_less_u32)
  ultimately show ?thesis
    using unsigned_less [of "next_turn_id s"] by (simp add: contiguous_def bt_wf_def)
qed

lemma contiguous_length: "contiguous s \<Longrightarrow> length (turns s) = unat (next_turn_id s)"
  by (metis contiguous_def length_map length_upt minus_nat.diff_0)

lemma contiguous_keys: "contiguous s \<Longrightarrow> i \<in> set (keys (turns s)) \<longleftrightarrow> i < next_turn_id s"
proof -
  assume c: "contiguous s"
  have "i \<in> set (keys (turns s)) \<longleftrightarrow> (\<exists>n < unat (next_turn_id s). i = of_nat n)"
    using c by (auto simp: contiguous_def simp del: set_map) (auto simp: image_iff)
  also have "\<dots> \<longleftrightarrow> i < next_turn_id s"
  proof
    assume "\<exists>n < unat (next_turn_id s). i = of_nat n"
    then show "i < next_turn_id s"
      using of_nat_less_u32 [of _ "unat (next_turn_id s)"] unsigned_less [of "next_turn_id s"] by auto
  next
    assume "i < next_turn_id s"
    then show "\<exists>n < unat (next_turn_id s). i = of_nat n"
      by (intro exI [of _ "unat i"]) (simp add: word_less_nat_alt)
  qed
  finally show ?thesis .
qed

lemma snapshot_simps [simp]:
  "turns (from_snapshot (snapshot s) subs) = turns s"
  "config (from_snapshot (snapshot s) subs) = config s"
  "last_undo_turn_ids (from_snapshot sn subs) = None"
  "active_requests (from_snapshot sn subs) = []"
  by (simp_all add: from_snapshot_def snapshot_def)

lemma worker_next_turn_id:
  "contiguous s \<Longrightarrow> next_turn_id (from_snapshot (snapshot s) subs) = next_turn_id s"
  by (simp add: from_snapshot_def snapshot_def contiguous_length)

lemma worker_contiguous: "contiguous s \<Longrightarrow> contiguous (from_snapshot (snapshot s) subs)"
  by (simp add: contiguous_def [of "from_snapshot (snapshot s) subs"] worker_next_turn_id)
     (simp add: contiguous_def)

lemma start_turn_simps [simp]:
  "fst (snd (start_turn now text s)) = next_turn_id s"
  "snd (snd (start_turn now text s)) = new_turn now text"
  "turns (fst (start_turn now text s)) = bt_insert (next_turn_id s) (new_turn now text) (turns s)"
  "next_turn_id (fst (start_turn now text s)) = next_turn_id s + 1"
  "config (fst (start_turn now text s)) = config s"
  by (simp_all add: start_turn_def Let_def)

lemma start_turn_contiguous:
  assumes c: "contiguous s" and room: "next_turn_id s \<noteq> - 1"
  shows "contiguous (fst (start_turn now text s))"
proof -
  have u: "unat (next_turn_id s + 1) = Suc (unat (next_turn_id s))"
    using room unatSuc [of "next_turn_id s"] by (simp add: eq_neg_iff_add_eq_0 add.commute)
  have "bt_insert (next_turn_id s) (new_turn now text) (turns s)
      = turns s @ [(next_turn_id s, new_turn now text)]"
    using contiguous_keys [OF c] by (intro bt_insert_last) auto
  then show ?thesis using c u by (simp add: contiguous_def)
qed

lemma keys_upd_turn [simp]: "keys (turns (upd_turn i f s)) = keys (turns s)"
  by (simp add: upd_turn_def)

lemma upd_turn_frame [simp]:
  "next_turn_id (upd_turn i f s) = next_turn_id s"
  "config (upd_turn i f s) = config s"
  "last_undo_turn_ids (upd_turn i f s) = last_undo_turn_ids s"
  by (simp_all add: upd_turn_def)

lemma upd_turn_contiguous [simp]: "contiguous (upd_turn i f s) \<longleftrightarrow> contiguous s"
  by (simp add: contiguous_def)

section \<open>Undo and redo\<close>

lemma keys_mark_undone [simp]: "keys (mark_undone b ids ts) = keys ts"
  by (induction ids arbitrary: ts) (simp_all add: mark_undone_def)

lemma bt_wf_mark_undone [simp]: "bt_wf (mark_undone b ids ts) \<longleftrightarrow> bt_wf ts"
  by (simp add: bt_wf_def)

lemma map_of_mark_undone:
  "map_of (mark_undone b ids ts) i =
     (if i \<in> set ids then map_option (\<lambda>t. t\<lparr>undone := b\<rparr>) (map_of ts i) else map_of ts i)"
  by (induction ids arbitrary: ts)
    (auto simp: mark_undone_def option.map_comp o_def cong: option.map_cong)

text \<open>The target of an undo is the latest visible turn with user text.\<close>

lemma find_snoc:
  "find P (xs @ [x]) = (case find P xs of None \<Rightarrow> if P x then Some x else None | r \<Rightarrow> r)"
  by (induction xs) auto

lemma find_rev_Some:
  assumes "bt_wf ts"
  shows "find P (rev ts) = Some (i, t) \<longleftrightarrow>
    map_of ts i = Some t \<and> P (i, t) \<and> (\<forall>j u. map_of ts j = Some u \<longrightarrow> P (j, u) \<longrightarrow> j \<le> i)"
  using assms
proof (induction ts)
  case Nil
  show ?case by simp
next
  case (Cons kv ts)
  obtain k v where kv: "kv = (k, v)" by (cases kv)
  from Cons.prems kv have lt: "\<And>j u. map_of ts j = Some u \<Longrightarrow> k < j" and wf: "bt_wf ts"
    by (fastforce simp: bt_wf_Cons dest: map_of_SomeD)+
  have "find P (rev (kv # ts)) = (case find P (rev ts) of None \<Rightarrow> if P kv then Some kv else None | r \<Rightarrow> r)"
    by (simp add: find_snoc)
  moreover have "find P (rev ts) = None \<longleftrightarrow> (\<forall>j u. map_of ts j = Some u \<longrightarrow> \<not> P (j, u))"
    using wf by (auto simp: find_None_iff bt_wf_def strict_sorted_iff)
  ultimately show ?case
    using Cons.IH [OF wf] lt kv by (auto split: option.splits if_splits dest: less_imp_le) (force+)
qed

definition visible_user :: "turn \<Rightarrow> bool" where
  "visible_user t \<longleftrightarrow> \<not> undone t \<and> user_text t \<noteq> None"

lemma undo_target_Some:
  assumes "bt_wf ts"
  shows "undo_target ts = Some i \<longleftrightarrow>
    (\<exists>t. map_of ts i = Some t \<and> visible_user t
       \<and> (\<forall>j u. map_of ts j = Some u \<longrightarrow> visible_user u \<longrightarrow> j \<le> i))"
  using find_rev_Some [OF assms, of "\<lambda>(_, t). visible_user t"]
  by (auto simp: undo_target_def visible_user_def)

lemma undo_target_None: "undo_target ts = None \<longleftrightarrow> (\<forall>(i, t) \<in> set ts. \<not> visible_user t)"
  by (fastforce simp: undo_target_def visible_user_def find_None_iff)

lemma undo_turns_SomeD:
  assumes "undo_turns s = (s', Some ids)"
  obtains target where "undo_target (turns s) = Some target"
    and "ids = filter (\<lambda>i. target \<le> i) (keys (turns s))"
    and "s' = s\<lparr>turns := mark_undone True ids (turns s), last_undo_turn_ids := Some ids\<rparr>"
  using assms by (auto simp: undo_turns_def Let_def split: option.splits)

lemma map_of_undone:
  assumes "undo_turns s = (s', Some ids)" and "undo_target (turns s) = Some target"
  shows "map_of (turns s') i =
    map_option (\<lambda>t. if target \<le> i then t\<lparr>undone := True\<rparr> else t) (map_of (turns s) i)"
proof -
  from assms have s': "turns s' = mark_undone True ids (turns s)"
    and ids: "ids = filter (\<lambda>i. target \<le> i) (keys (turns s))"
    by (auto elim!: undo_turns_SomeD)
  show ?thesis
  proof (cases "map_of (turns s) i")
    case None
    then show ?thesis by (simp add: s' map_of_mark_undone)
  next
    case (Some t)
    then have "i \<in> set (keys (turns s))" by (metis map_of_eq_None_iff option.distinct(1) set_map)
    then show ?thesis using Some by (simp add: s' ids map_of_mark_undone del: set_map)
  qed
qed

text \<open>A redo sets exactly the turns of the recorded undo visible, and forgets the record.\<close>

lemma redo_turns_turns:
  "last_undo_turn_ids s = Some ids \<Longrightarrow> turns (fst (redo_turns s)) = mark_undone False ids (turns s)"
  by (simp add: redo_turns_def Let_def)

lemma redo_turns_forgets: "last_undo_turn_ids (fst (redo_turns s)) = None"
  by (simp add: redo_turns_def Let_def split: option.splits)

lemma turn_undone_idem: "\<not> undone t \<Longrightarrow> t\<lparr>undone := False\<rparr> = t"
  by (cases t) simp

text \<open>The number of visible user turns, the measure that an undo decreases.\<close>

definition visible_users :: "(u32, turn) btmap \<Rightarrow> nat" where
  "visible_users ts = length (filter (\<lambda>(i, t). visible_user t) ts)"

lemma mark_undone_eq_map:
  assumes "bt_wf ts"
  shows "mark_undone b ids ts = map (\<lambda>(i, t). (i, if i \<in> set ids then t\<lparr>undone := b\<rparr> else t)) ts"
proof (rule bt_wf_eqI)
  show "keys (mark_undone b ids ts) = keys (map (\<lambda>(i, t). (i, if i \<in> set ids then t\<lparr>undone := b\<rparr> else t)) ts)"
    by (simp add: case_prod_unfold)
  show "bt_wf (mark_undone b ids ts)" using assms by simp
  fix k
  show "map_of (mark_undone b ids ts) k =
      map_of (map (\<lambda>(i, t). (i, if i \<in> set ids then t\<lparr>undone := b\<rparr> else t)) ts) k"
    by (induction ts) (auto simp: map_of_mark_undone)
qed

lemma undo_visible_users:
  assumes wf: "bt_wf (turns s)" and u: "undo_turns s = (s', Some ids)"
  shows "visible_users (turns s') < visible_users (turns s)"
proof -
  from u obtain target where tg: "undo_target (turns s) = Some target"
    and ids: "ids = filter (\<lambda>i. target \<le> i) (keys (turns s))"
    and s': "turns s' = mark_undone True ids (turns s)"
    by (auto elim!: undo_turns_SomeD)
  from tg wf obtain t where t: "(target, t) \<in> set (turns s)" "visible_user t"
    by (auto simp: undo_target_Some dest: map_of_SomeD)
  let ?P = "\<lambda>(i, t). visible_user t" and ?Q = "\<lambda>(i, t). visible_user t \<and> i \<notin> set ids"
  have "visible_users (turns s') = length (filter ?Q (turns s))"
    unfolding visible_users_def s' mark_undone_eq_map [OF wf]
    by (auto simp: filter_map o_def case_prod_unfold visible_user_def intro!: arg_cong [of _ _ length] filter_cong)
  also have "\<dots> < length (filter ?P (turns s))"
  proof -
    have "filter ?Q (turns s) = filter ?Q (filter ?P (turns s))"
      by (auto simp: filter_filter intro!: filter_cong)
    moreover have "(target, t) \<in> set (filter ?P (turns s))" using t by simp
    moreover have "\<not> ?Q (target, t)" using t by (force simp: ids)
    ultimately show ?thesis by (metis (no_types, lifting) length_filter_less)
  qed
  finally show ?thesis by (simp add: visible_users_def)
qed

section \<open>Client copies\<close>

definition client_safe :: "turn \<Rightarrow> bool" where
  "client_safe t \<longleftrightarrow> turn_reasoning_artifact t = None \<and> turn_reasoning_producer t = None
     \<and> (\<forall>r \<in> set (tool_results t). tr_image r = None)"

lemma turn_for_client_safe: "client_safe (turn_for_client t)"
  by (auto simp: client_safe_def turn_for_client_def)

fun message_safe :: "daemon_message \<Rightarrow> bool" where
  "message_safe (Session _ (SessionStateEvent _ _ _ _ ts _ _ _ _ _ _ _)) = (\<forall>(i, t) \<in> set ts. client_safe t)"
| "message_safe (Session _ (TurnAppended _ t)) = client_safe t"
| "message_safe (Session _ (TurnsRedone ts)) = (\<forall>(i, t) \<in> set ts. client_safe t)"
| "message_safe _ = True"

lemma clients_turns_safe: "\<forall>(i, t) \<in> set (clients_turns ts). client_safe t"
  by (auto simp: clients_turns_def turn_for_client_safe)

lemma session_state_message_safe [simp]: "message_safe (session_state_message cap sid s)"
  using clients_turns_safe by (simp add: session_state_message_def)

section \<open>Properties\<close>

text \<open>
  What one undo does. It succeeds exactly when a visible turn with user text exists;
  then the target is the latest such turn, the reported ids are the ids from the target on,
  in order, those turns are marked undone and every other turn, and every other field of
  the session but the undo record, is as before.
\<close>

lemma undo_specification:
  assumes "bt_wf (turns s)"
  shows "(snd (undo_turns s) = None \<longleftrightarrow> (\<forall>(i, t) \<in> set (turns s). \<not> visible_user t))
    \<and> (\<forall>ids. snd (undo_turns s) = Some ids \<longrightarrow>
        (\<exists>target t. map_of (turns s) target = Some t \<and> visible_user t
          \<and> (\<forall>j u. map_of (turns s) j = Some u \<longrightarrow> visible_user u \<longrightarrow> j \<le> target)
          \<and> ids = filter (\<lambda>i. target \<le> i) (keys (turns s))
          \<and> fst (undo_turns s) = s\<lparr>last_undo_turn_ids := Some ids,
              turns := map (\<lambda>(i, t). (i, if target \<le> i then t\<lparr>undone := True\<rparr> else t)) (turns s)\<rparr>))"
proof (intro conjI allI impI)
  show "snd (undo_turns s) = None \<longleftrightarrow> (\<forall>(i, t) \<in> set (turns s). \<not> visible_user t)"
    unfolding undo_target_None [symmetric] by (simp add: undo_turns_def Let_def split: option.splits)
  fix ids assume "snd (undo_turns s) = Some ids"
  then have "undo_turns s = (fst (undo_turns s), Some ids)" by (simp add: prod_eq_iff)
  then obtain target where tg: "undo_target (turns s) = Some target"
    and ids: "ids = filter (\<lambda>i. target \<le> i) (keys (turns s))"
    and s': "fst (undo_turns s) = s\<lparr>turns := mark_undone True ids (turns s), last_undo_turn_ids := Some ids\<rparr>"
    by (rule undo_turns_SomeD)
  have "mark_undone True ids (turns s) =
      map (\<lambda>(i, t). (i, if target \<le> i then t\<lparr>undone := True\<rparr> else t)) (turns s)"
    unfolding mark_undone_eq_map [OF assms] ids by (rule map_cong) (auto, force)
  moreover obtain t where "map_of (turns s) target = Some t" "visible_user t"
    "\<forall>j u. map_of (turns s) j = Some u \<longrightarrow> visible_user u \<longrightarrow> j \<le> target"
    using tg by (auto simp: undo_target_Some [OF assms])
  ultimately show "\<exists>target t. map_of (turns s) target = Some t \<and> visible_user t
          \<and> (\<forall>j u. map_of (turns s) j = Some u \<longrightarrow> visible_user u \<longrightarrow> j \<le> target)
          \<and> ids = filter (\<lambda>i. target \<le> i) (keys (turns s))
          \<and> fst (undo_turns s) = s\<lparr>last_undo_turn_ids := Some ids,
              turns := map (\<lambda>(i, t). (i, if target \<le> i then t\<lparr>undone := True\<rparr> else t)) (turns s)\<rparr>"
    using ids s' by (intro exI [of _ target] exI [of _ t]) simp
qed

text \<open>A session with two finished exchanges, on which the properties are exercised.\<close>

definition two_turns :: session_state where
  "two_turns = fst (start_turn 20 (Some ''second'') (fst (start_turn 10 (Some ''first'') session_state_empty)))"

lemma two_turns_simps:
  "turns two_turns = [(0, new_turn 10 (Some ''first'')), (1, new_turn 20 (Some ''second''))]"
  "next_turn_id two_turns = 2" "bt_wf (turns two_turns)" "contiguous two_turns"
  by (simp_all add: two_turns_def session_state_empty_def bt_wf_def contiguous_def upt_rec)

lemma undo_specification_witness: "snd (undo_turns two_turns) \<noteq> None"
  using undo_specification [OF two_turns_simps(3)]
  by (auto simp: two_turns_simps(1) visible_user_def new_turn_def)

lemma undo_keeps_wf: "bt_wf (turns s) \<Longrightarrow> bt_wf (turns (fst (undo_turns s)))"
  by (simp add: undo_turns_def Let_def split: option.splits)

lemma undo_exhausts:
  "bt_wf (turns s) \<Longrightarrow> visible_users (turns s) \<le> n \<Longrightarrow>
   snd (undo_turns (((\<lambda>s. fst (undo_turns s)) ^^ n) s)) = None"
proof (induction n arbitrary: s)
  case 0
  then have "\<forall>(i, t) \<in> set (turns s). \<not> visible_user t" by (auto simp: visible_users_def filter_empty_conv)
  then show ?case unfolding undo_target_None [symmetric] by (simp add: undo_turns_def)
next
  case (Suc n)
  have "visible_users (turns (fst (undo_turns s))) \<le> n"
  proof (cases "undo_turns s")
    case (Pair s' r)
    show ?thesis
    proof (cases r)
      case None
      then have "undo_target (turns s) = None" "s' = s"
        using Pair by (auto simp: undo_turns_def Let_def split: option.splits)
      then have "\<forall>(i, t) \<in> set (turns s). \<not> visible_user t" by (simp add: undo_target_None)
      then have "visible_users (turns s) = 0" by (auto simp: visible_users_def filter_empty_conv)
      then show ?thesis using Pair \<open>s' = s\<close> by simp
    next
      case (Some ids)
      then show ?thesis using Pair undo_visible_users [OF Suc.prems(1)] Suc.prems(2) by fastforce
    qed
  qed
  from Suc.IH [OF undo_keeps_wf [OF Suc.prems(1)] this] show ?case
    by (simp add: funpow_Suc_right del: funpow.simps)
qed

text \<open>
  Undo reaches the beginning: after as many undos as there are visible user turns,
  nothing is left to undo.
\<close>

lemma undo_terminates:
  assumes "bt_wf (turns s)"
  shows "snd (undo_turns (((\<lambda>s. fst (undo_turns s)) ^^ visible_users (turns s)) s)) = None"
  by (rule undo_exhausts [OF assms]) simp

lemma undo_terminates_witness:
  "snd (undo_turns (fst (undo_turns (fst (undo_turns two_turns))))) = None"
  using undo_terminates [OF two_turns_simps(3)]
  by (simp add: two_turns_simps visible_users_def visible_user_def new_turn_def numeral_2_eq_2)

text \<open>A list of distinct keys filtered out of a map, collected again in order.\<close>

lemma bt_insert_snoc: "bt_wf (m @ [(k, v)]) \<Longrightarrow> bt_insert k v m = m @ [(k, v)]"
  by (rule bt_insert_last) (auto simp: bt_wf_def sorted_wrt_append)

lemma collect_sorted:
  assumes "bt_wf (r @ m)" and "\<And>k v. (k, v) \<in> set m \<Longrightarrow> g k = Some v"
  shows "fold (\<lambda>i r. case g i of None \<Rightarrow> r | Some t \<Rightarrow> bt_insert i t r) (keys m) r = r @ m"
  using assms
proof (induction m arbitrary: r)
  case (Cons kv m)
  obtain k v where kv: "kv = (k, v)" by (cases kv)
  have "bt_wf (r @ [(k, v)])" using Cons.prems(1) by (simp add: bt_wf_def sorted_wrt_append kv)
  then have "bt_insert k v r = r @ [(k, v)]" by (rule bt_insert_snoc)
  moreover have "g k = Some v" using Cons.prems(2) kv by simp
  moreover have "fold (\<lambda>i r. case g i of None \<Rightarrow> r | Some t \<Rightarrow> bt_insert i t r) (keys m) (r @ [(k, v)])
      = (r @ [(k, v)]) @ m"
    using Cons.prems kv by (intro Cons.IH) simp_all
  ultimately show ?case by (simp add: kv)
qed simp

lemma keys_filter_ids:
  "bt_wf ts \<Longrightarrow> keys (filter (\<lambda>(i, t). P i) ts) = filter P (keys ts)"
  by (induction ts) (auto simp: bt_wf_Cons)

text \<open>
  Redo takes back an undo. If none of the turns from the undo's target on was undone
  before, then redoing right after it restores the turns exactly, forgets the undo record
  and reports exactly the restored turns, in order.
\<close>

lemma undo_redo_roundtrip:
  assumes wf: "bt_wf (turns s)" and u: "undo_turns s = (s', Some ids)"
    and fresh: "\<forall>i t. i \<in> set ids \<longrightarrow> map_of (turns s) i = Some t \<longrightarrow> \<not> undone t"
  shows "redo_turns s' =
    (s\<lparr>last_undo_turn_ids := None\<rparr>, Some (filter (\<lambda>(i, t). i \<in> set ids) (turns s)))"
proof -
  from u obtain target where ids: "ids = filter (\<lambda>i. target \<le> i) (keys (turns s))"
    and s': "s' = s\<lparr>turns := mark_undone True ids (turns s), last_undo_turn_ids := Some ids\<rparr>"
    by (rule undo_turns_SomeD)
  have takes_back: "mark_undone False ids (mark_undone True ids (turns s)) = turns s"
  proof (rule bt_wf_eqI)
    fix i
    show "map_of (mark_undone False ids (mark_undone True ids (turns s))) i = map_of (turns s) i"
      using fresh by (cases "map_of (turns s) i") (auto simp: map_of_mark_undone turn_undone_idem)
  qed (use wf in simp_all)
  let ?r = "filter (\<lambda>(i, t). i \<in> set ids) (turns s)"
  have "i \<in> set (keys (turns s)) \<Longrightarrow> i \<in> set ids \<longleftrightarrow> target \<le> i" for i by (simp add: ids)
  then have "keys ?r = ids"
    unfolding keys_filter_ids [OF wf] ids by (intro filter_cong) simp_all
  moreover have "map_of (turns s) k = Some v" if "(k, v) \<in> set ?r" for k v
    using that wf by (simp add: bt_wf_def strict_sorted_iff)
  moreover have "bt_wf ?r" by (rule bt_wf_filter [OF wf])
  ultimately have "fold (\<lambda>i r. case map_of (turns s) i of None \<Rightarrow> r | Some t \<Rightarrow> bt_insert i t r) ids [] = ?r"
    using collect_sorted [of "[]" ?r "map_of (turns s)"] by simp
  then show ?thesis by (simp add: redo_turns_def Let_def s' takes_back)
qed

lemma undo_redo_roundtrip_witness:
  "fst (redo_turns (fst (undo_turns two_turns))) = two_turns"
proof -
  have u: "undo_turns two_turns = (fst (undo_turns two_turns), Some [1])"
    by (simp add: undo_turns_def undo_target_def two_turns_simps new_turn_def Let_def)
  have "two_turns\<lparr>last_undo_turn_ids := None\<rparr> = two_turns"
    by (simp add: two_turns_def start_turn_def session_state_empty_def Let_def)
  with undo_redo_roundtrip [OF two_turns_simps(3) u] show ?thesis
    by (simp add: two_turns_simps new_turn_def)
qed

section \<open>Tool results\<close>

definition result_of :: "tool_result_record \<Rightarrow> string \<Rightarrow> tool_output \<Rightarrow> bool" where
  "result_of r name out \<longleftrightarrow> tr_name r = name \<and> tr_content r = out_content out
     \<and> tr_is_error r = out_is_error out
     \<and> tr_invocation_description r = out_invocation_description out \<and> tr_image r = out_image_ref out"

abbreviation record_output :: "string \<Rightarrow> tool_output \<Rightarrow> tool_result_record \<Rightarrow> tool_result_record" where
  "record_output name out r \<equiv> r\<lparr>tr_name := name, tr_content := out_content out, tr_is_error := out_is_error out,
     tr_invocation_description := out_invocation_description out, tr_image := out_image_ref out\<rparr>"

text \<open>With distinct call ids, changing the first match changes the match.\<close>

lemma upd_first_distinct:
  "distinct (map key xs) \<Longrightarrow>
   upd_first (\<lambda>r. key r = c) f xs = map (\<lambda>r. if key r = c then f r else r) xs"
proof (induction xs)
  case (Cons x xs)
  have "map (\<lambda>r. if key r = c then f r else r) xs = xs" if "key x = c"
    using Cons.prems that by (intro map_idI) (force simp: image_iff)
  then show ?case using Cons by auto
qed simp

definition apply_outputs :: "(string \<times> string \<times> tool_output) list \<Rightarrow> tool_result_record list \<Rightarrow> tool_result_record list" where
  "apply_outputs ups rs =
     fold (\<lambda>(c, name, out). map (\<lambda>r. if tr_call_id r = c then record_output name out r else r)) ups rs"

lemma apply_outputs_ids: "map tr_call_id (apply_outputs ups rs) = map tr_call_id rs"
  by (induction ups arbitrary: rs) (simp_all add: apply_outputs_def case_prod_unfold o_def)

lemma apply_outputs_result:
  assumes "distinct (map fst ups)" and "r' \<in> set (apply_outputs ups rs)"
  shows "\<exists>r \<in> set rs. tr_call_id r' = tr_call_id r \<and>
    (case map_of ups (tr_call_id r) of None \<Rightarrow> r' = r | Some (name, out) \<Rightarrow> result_of r' name out)"
  using assms
proof (induction ups arbitrary: rs)
  case Nil
  then show ?case by (auto simp: apply_outputs_def)
next
  case (Cons u ups)
  obtain c name out where u: "u = (c, name, out)" by (cases u)
  let ?g = "\<lambda>r. if tr_call_id r = c then record_output name out r else r"
  have none: "map_of ups c = None" using Cons.prems(1) u by (simp add: map_of_eq_None_iff)
  have "r' \<in> set (apply_outputs ups (map ?g rs))"
    using Cons.prems(2) by (simp add: apply_outputs_def u)
  with Cons.IH [of "map ?g rs"] Cons.prems(1) obtain r where r: "r \<in> set rs"
    and h: "tr_call_id r' = tr_call_id (?g r)"
      "case map_of ups (tr_call_id (?g r)) of None \<Rightarrow> r' = ?g r | Some (name, out) \<Rightarrow> result_of r' name out"
    by auto
  have "tr_call_id (?g r) = tr_call_id r" by simp
  with h none r show ?case
    by (intro bexI [OF _ r]) (auto simp: u result_of_def split: if_splits option.splits)
qed

lemma upd_turn_lookup: "map_of (turns (upd_turn i f s)) i = map_option f (map_of (turns s) i)"
  by (simp add: upd_turn_def)

text \<open>The results of one turn after any sequence of recorded outputs.\<close>

lemma updates_lookup:
  assumes "map_of (turns s) i = Some t" and "distinct (map tr_call_id (tool_results t))"
  shows "\<exists>t'. map_of (turns (fold (\<lambda>(c, name, out). update_tool_result i c name out) ups s)) i = Some t'
    \<and> tool_results t' = apply_outputs ups (tool_results t)"
  using assms
proof (induction ups arbitrary: s t)
  case Nil
  then show ?case by (simp add: apply_outputs_def)
next
  case (Cons u ups)
  obtain c name out where u: "u = (c, name, out)" by (cases u)
  let ?rs = "map (\<lambda>r. if tr_call_id r = c then record_output name out r else r) (tool_results t)"
  have look: "map_of (turns (update_tool_result i c name out s)) i = Some (t\<lparr>tool_results := ?rs\<rparr>)"
    using Cons.prems by (simp add: update_tool_result_def upd_turn_lookup upd_first_distinct)
  have "map tr_call_id ?rs = map tr_call_id (tool_results t)" by simp
  then have "distinct (map tr_call_id ?rs)" using Cons.prems(2) by (rule ssubst)
  then have "distinct (map tr_call_id (tool_results (t\<lparr>tool_results := ?rs\<rparr>)))" by simp
  from Cons.IH [OF look this] show ?case by (simp add: u apply_outputs_def)
qed

text \<open>
  The tool results of a turn. The code seeds one placeholder per call, records the
  outputs of the calls that ran, in whatever order they end, and marks the rest. Afterwards
  the turn holds exactly one result per call, in the order of the calls; a call that ran
  shows its own output, every other call the cancellation marker flagged as an error.
\<close>

lemma tool_results_complete:
  assumes "map_of (turns s) i = Some t" and "distinct (map tc_call_id calls)"
    and "length descs = length calls" and "distinct (map fst ups)"
    and "set executed = set (map fst ups)"
    and "s' = mark_unexecuted_tool_results i executed
      (fold (\<lambda>(c, name, out). update_tool_result i c name out) ups (seed_tool_results i calls descs s))"
  shows "\<exists>t'. map_of (turns s') i = Some t'
    \<and> map tr_call_id (tool_results t') = map tc_call_id calls
    \<and> (\<forall>r \<in> set (tool_results t').
         case map_of ups (tr_call_id r) of
           Some (name, out) \<Rightarrow> result_of r name out
         | None \<Rightarrow> tr_content r = CANCELLED_MARK \<and> tr_is_error r)"
proof -
  let ?rs0 = "map (\<lambda>(tc, d). placeholder tc d) (zip calls descs)"
  let ?s1 = "seed_tool_results i calls descs s"
  let ?s2 = "fold (\<lambda>(c, name, out). update_tool_result i c name out) ups ?s1"
  let ?mark = "\<lambda>r. if tr_call_id r \<notin> set executed then r\<lparr>tr_content := CANCELLED_MARK, tr_is_error := True\<rparr> else r"
  have "map tr_call_id ?rs0 = map (tc_call_id \<circ> fst) (zip calls descs)"
    by (simp add: placeholder_def case_prod_unfold)
  also have "\<dots> = map tc_call_id calls" using assms(3) by (metis map_fst_zip map_map)
  finally have ids0: "map tr_call_id ?rs0 = map tc_call_id calls" .
  have "map_of (turns ?s1) i = Some (t\<lparr>tool_results := ?rs0\<rparr>)"
    using assms(1) by (simp add: seed_tool_results_def upd_turn_lookup)
  from updates_lookup [OF this, of ups] ids0 assms(2) obtain t2
    where t2: "map_of (turns ?s2) i = Some t2" "tool_results t2 = apply_outputs ups ?rs0" by auto
  let ?t' = "t2\<lparr>tool_results := map ?mark (tool_results t2)\<rparr>"
  have "map_of (turns s') i = Some ?t'"
    using t2(1) by (simp add: assms(6) mark_unexecuted_tool_results_def upd_turn_lookup)
  moreover have "map tr_call_id (tool_results ?t') = map tc_call_id calls"
  proof -
    have "map tr_call_id (tool_results ?t') = map tr_call_id (tool_results t2)" by simp
    then show ?thesis using t2(2) ids0 by (simp add: apply_outputs_ids)
  qed
  moreover have "case map_of ups (tr_call_id r) of Some (name, out) \<Rightarrow> result_of r name out
      | None \<Rightarrow> tr_content r = CANCELLED_MARK \<and> tr_is_error r" if "r \<in> set (tool_results ?t')" for r
  proof -
    from that obtain r2 where r2: "r2 \<in> set (apply_outputs ups ?rs0)" "r = ?mark r2" using t2(2) by auto
    from apply_outputs_result [OF assms(4) r2(1)]
    have o: "case map_of ups (tr_call_id r2) of None \<Rightarrow> True | Some (name, out) \<Rightarrow> result_of r2 name out"
      by (auto split: option.splits)
    have "tr_call_id r2 \<in> set executed \<longleftrightarrow> map_of ups (tr_call_id r2) \<noteq> None"
      using assms(5) by (simp add: map_of_eq_None_iff)
    with o r2(2) show ?thesis by (auto split: option.splits if_splits)
  qed
  ultimately show ?thesis by (intro exI [of _ ?t']) simp
qed

lemma tool_results_complete_witness:
  "\<exists>t'. map_of (turns (mark_unexecuted_tool_results 1 [''b'']
      (fold (\<lambda>(c, name, out). update_tool_result 1 c name out)
        [(''b'', ''grep'', \<lparr>out_content = ''hit'', out_is_error = False, out_invocation_description = [], out_image_ref = None\<rparr>)]
        (seed_tool_results 1 [\<lparr>tc_call_id = ''a'', tc_name = ''ls'', tc_arguments_json = []\<rparr>,
           \<lparr>tc_call_id = ''b'', tc_name = ''grep'', tc_arguments_json = []\<rparr>] [[], []] two_turns)))) 1 = Some t'
    \<and> map tr_call_id (tool_results t') = [''a'', ''b'']"
  using tool_results_complete [OF _ _ _ _ _ refl, of two_turns 1 "new_turn 20 (Some ''second'')"
      "[\<lparr>tc_call_id = ''a'', tc_name = ''ls'', tc_arguments_json = []\<rparr>, \<lparr>tc_call_id = ''b'', tc_name = ''grep'', tc_arguments_json = []\<rparr>]"
      "[[], []]"
      "[(''b'', ''grep'', \<lparr>out_content = ''hit'', out_is_error = False, out_invocation_description = [], out_image_ref = None\<rparr>)]"
      "[''b'']"]
  by (auto simp: two_turns_simps)

end
