(* ===== verification/Commands.thy ===== *)
theory Commands
  imports Session_State
begin

text \<open>
  The two command alphabets of the daemon: what a session thread accepts
  (\<^verbatim>\<open>SessionCommand\<close> of \<^verbatim>\<open>sessions.rs\<close>) and what the daemon's command loop accepts from
  sessions and connections (\<^verbatim>\<open>DaemonCommand\<close> of \<^verbatim>\<open>daemon.rs\<close>). A reply channel is a number
  that names it; the two queries a session thread blocks on (\<^verbatim>\<open>ResolveProviderCmd\<close> and
  \<^verbatim>\<open>ValidateModel\<close>) carry none, since nothing else can be answered in between. The daemon
  commands that unlock or change the keystore, the accounts, the ACL and the model catalog
  are not listed.
\<close>

type_synonym reply_chan = nat

datatype session_command =
    RunInput u32 "u8 list"
  | RunChildInput u32 "string option" reply_chan
  | Cancel u32
  | SetModel string
  | StatusChanged session_status
  | Attach u64 sink
  | Detach u64
  | RemoveSubscriber u64
  | GetSummary reply_chan
  | RequestFinished u32 session_snapshot
  | BroadcastMsg daemon_message
  | SyncAccumulatedUsage token_usage "u32 option"
  | SetTitle string
  | SetWorkingDir string reply_chan
  | LoadTools "string list" reply_chan
  | UnloadTools "string list" reply_chan
  | SetAccount string
  | SetReasoningEffort string
  | GetReasoningEffort reply_chan
  | Undo
  | Redo
  | Shutdown

datatype daemon_command =
    D_CreateSession "string option" "u64 option" "string option" "string option"
      "string option" "context_config option" "string option" "string list" reply_chan
  | D_AttachSession u64 reply_chan
  | D_ListSessions reply_chan
  | D_GetSession u64 reply_chan
  | D_UpdateMetadata u64 session_metadata
  | D_SessionExited u64
  | D_SessionDeleteFinalized u64
  | D_RegisterSummarySubscriber u64 sink
  | D_UnregisterSummarySubscriber u64
  | D_RegisterActivitySubscriber u64 sink
  | D_UnregisterActivitySubscriber u64
  | D_TrackSessionSubscription u64 u64
  | D_UntrackSessionSubscription u64 u64
  | D_ClientDisconnected u64
  | D_RegisterClientWriter u64 sink
  | D_EvictClient u64
  | D_EvictLargestLagging
  | D_BroadcastShuttingDown
  | D_BroadcastActivity "u64 option" daemon_message
  | D_BroadcastSessionStatus u64 session_status
  | D_DeleteSession u64 reply_chan
  | D_ResolveProviderCmd string
  | D_ValidateModel u64 string
  | D_CancelRequest u64 u32
  | D_SetSessionTitle u64 string
  | D_SetWorkingDir u64 string reply_chan
  | D_LoadTools u64 "string list" reply_chan
  | D_UnloadTools u64 "string list" reply_chan
  | D_Lock reply_chan
  | D_ListModels "u64 option" reply_chan
  | D_ModelPrefetchResult string "string + string list"
  | D_AccountExists string reply_chan

section \<open>Tool groups\<close>

text \<open>
  The effect of \<^verbatim>\<open>load_tools\<close> and \<^verbatim>\<open>unload_tools\<close> on a session's active groups, with the
  summary they return. \<open>list_fmt\<close> is \<^verbatim>\<open>humfmt::list\<close>, the third-party list formatter.
\<close>

definition unknown_group_names :: "string list \<Rightarrow> hset \<Rightarrow> string list option" where
  "unknown_group_names groups known =
     (let unknown = filter (\<lambda>g. g \<notin> set known) groups
      in if unknown = [] then None else Some unknown)"

fun load_groups :: "string list \<Rightarrow> hset \<Rightarrow> hset \<times> string list" where
  "load_groups [] act = (act, [])"
| "load_groups (g # gs) act =
     (case load_groups gs (hset_insert g act) of
        (act', loaded) \<Rightarrow> (act', if g \<in> set act then loaded else g # loaded))"

definition apply_load_tools :: "(string list \<Rightarrow> string) \<Rightarrow> hset \<Rightarrow> string list \<Rightarrow> hset \<times> string" where
  "apply_load_tools list_fmt act groups =
     (case load_groups groups act of (act', loaded) \<Rightarrow>
        (act', if loaded = [] then ''All specified groups were already active.''
               else ''Activated tool groups: '' @ list_fmt loaded))"

fun unload_groups :: "string list \<Rightarrow> hset \<Rightarrow> hset \<times> string list \<times> string list" where
  "unload_groups [] act = (act, [], [])"
| "unload_groups (g # gs) act =
     (if g = ''core'' then
        (case unload_groups gs act of (act', u, p) \<Rightarrow> (act', u, g # p))
      else
        (case unload_groups gs (hset_remove g act) of
           (act', u, p) \<Rightarrow> (act', if g \<in> set act then g # u else u, p)))"

definition apply_unload_tools :: "(string list \<Rightarrow> string) \<Rightarrow> hset \<Rightarrow> string list \<Rightarrow> hset \<times> string" where
  "apply_unload_tools list_fmt act groups =
     (case unload_groups groups act of (act', unloaded, protected) \<Rightarrow>
        let parts =
              (if unloaded = [] then [] else [''Deactivated tool groups: '' @ list_fmt unloaded])
            @ (if protected = [] then [] else [''The 'core' group cannot be unloaded.'']);
            parts' = (if parts = [] then [''None of the specified groups were active.''] else parts)
        in (act', join '' '' parts'))"

lemma set_hset_insert [simp]: "set (hset_insert g act) = insert g (set act)"
  by (auto simp: hset_insert_def)

lemma set_hset_remove [simp]: "set (hset_remove g act) = set act - {g}"
  by (auto simp: hset_remove_def)

lemma distinct_hset [simp]:
  "distinct act \<Longrightarrow> distinct (hset_insert g act)"
  "distinct act \<Longrightarrow> distinct (hset_remove g act)"
  by (simp_all add: hset_insert_def hset_remove_def)

lemma load_groups_set: "set (fst (load_groups gs act)) = set act \<union> set gs"
  by (induction gs arbitrary: act) (auto split: prod.splits simp: prod_eq_iff)

lemma load_groups_loaded: "set (snd (load_groups gs act)) = set gs - set act"
proof (induction gs arbitrary: act)
  case Nil
  show ?case by simp
next
  case (Cons g gs)
  from Cons.IH [of "hset_insert g act"] show ?case by (simp add: case_prod_unfold) blast
qed

lemma unload_groups_set: "set (fst (unload_groups gs act)) = set act - (set gs - {''core''})"
proof (induction gs arbitrary: act)
  case Nil
  show ?case by simp
next
  case (Cons g gs)
  show ?case
  proof (cases "g = ''core''")
    case True
    then have "insert g (set gs) - {''core''} = set gs - {''core''}" by simp
    then show ?thesis using True by (simp add: case_prod_unfold Cons.IH)
  next
    case False
    then have "insert g (set gs) - {''core''} = insert g (set gs - {''core''})" by (simp add: insert_Diff_if)
    then show ?thesis using False by (simp add: case_prod_unfold Cons.IH) blast
  qed
qed

lemma unload_groups_distinct: "distinct act \<Longrightarrow> distinct (fst (unload_groups gs act))"
proof (induction gs arbitrary: act)
  case Nil
  then show ?case by simp
next
  case (Cons g gs)
  from Cons.IH [of act] Cons.IH [of "hset_remove g act"] Cons.prems show ?case
    by (simp add: case_prod_unfold)
qed

lemma load_groups_distinct: "distinct act \<Longrightarrow> distinct (fst (load_groups gs act))"
proof (induction gs arbitrary: act)
  case Nil
  then show ?case by simp
next
  case (Cons g gs)
  from Cons.IH [of "hset_insert g act"] Cons.prems show ?case
    by (auto split: prod.splits)
qed

end
