(* ===== verification/Storage.thy ===== *)
theory Storage
  imports Session_State
begin

text \<open>
  Persistence. A session thread writes its record and its turns through the retry loops
  of \<^verbatim>\<open>choreo-daemon/src/db/mod.rs\<close>. The database is seen here as what can be read back
  from it: the session records and the turns. Whether a write attempt fails is decided by
  the environment: \<open>db_faults\<close> lists the outcomes of the coming attempts, and an attempt
  past its end succeeds. A failed attempt leaves the tables unchanged, as an uncommitted
  \<^verbatim>\<open>redb\<close> transaction does.
\<close>

section \<open>The database and its retry loops\<close>

record db =
  db_sessions :: "u64 \<Rightarrow> session_record option"
  db_turns :: "u64 \<times> u32 \<Rightarrow> turn option"
  db_tombstones :: "u64 set"
  db_faults :: "bool list"

definition attempt_write :: "(db \<Rightarrow> db) \<Rightarrow> db \<Rightarrow> db \<times> bool" where
  "attempt_write w d =
     (case db_faults d of
        True # fs \<Rightarrow> (d\<lparr>db_faults := fs\<rparr>, False)
      | False # fs \<Rightarrow> (w (d\<lparr>db_faults := fs\<rparr>), True)
      | [] \<Rightarrow> (w d, True))"

definition put_session :: "u64 \<Rightarrow> session_record \<Rightarrow> db \<Rightarrow> db" where
  "put_session sid r d = d\<lparr>db_sessions := (db_sessions d)(sid \<mapsto> r)\<rparr>"

definition put_turn :: "u64 \<Rightarrow> u32 \<Rightarrow> turn \<Rightarrow> db \<Rightarrow> db" where
  "put_turn sid tid t d = d\<lparr>db_turns := (db_turns d)((sid, tid) \<mapsto> t)\<rparr>"

function retry_write :: "nat \<Rightarrow> (db \<Rightarrow> db) \<Rightarrow> db \<Rightarrow> db \<times> bool" where
  "retry_write attempts w d =
     (case attempt_write w d of
        (d', True) \<Rightarrow> (d', True)
      | (d', False) \<Rightarrow> if attempts < 3 then retry_write (attempts + 1) w d' else (d', False))"
  by pat_completeness auto
termination
  by (relation "measure (\<lambda>(a, _, _). 3 - a)") auto

declare retry_write.simps [simp del]

definition write_turn_retry :: "u64 \<Rightarrow> u32 \<Rightarrow> turn \<Rightarrow> db \<Rightarrow> db \<times> bool" where
  "write_turn_retry sid tid t d = retry_write 0 (put_turn sid tid t) d"

definition write_session_retry :: "u64 \<Rightarrow> session_record \<Rightarrow> db \<Rightarrow> db \<times> bool" where
  "write_session_retry sid r d = retry_write 0 (put_session sid r) d"

text \<open>
  The single-attempt operations the daemon's command loop uses. A read can fail like a
  write; then the caller sees an error (\<open>None\<close>). The key range of a deletion is
  \<^verbatim>\<open>session_id .. session_id.saturating_add(1)\<close>, which is empty for the largest id.
\<close>

definition write_session :: "u64 \<Rightarrow> session_record \<Rightarrow> db \<Rightarrow> db \<times> bool" where
  "write_session sid r d = attempt_write (put_session sid r) d"

definition read_session :: "u64 \<Rightarrow> db \<Rightarrow> db \<times> session_record option option" where
  "read_session sid d =
     (case attempt_write (\<lambda>d. d) d of (d', ok) \<Rightarrow> (d', if ok then Some (db_sessions d sid) else None))"

definition session_range_end :: "u64 \<Rightarrow> u64" where
  "session_range_end sid = (if sid = - 1 then sid else sid + 1)"

definition remove_session_rows :: "u64 \<Rightarrow> db \<Rightarrow> db" where
  "remove_session_rows sid d =
     d\<lparr>db_sessions := (db_sessions d)(sid := None),
       db_turns := (\<lambda>(s, i). if sid \<le> s \<and> s < session_range_end sid then None else db_turns d (s, i))\<rparr>"

definition delete_session :: "u64 \<Rightarrow> db \<Rightarrow> db \<times> bool" where
  "delete_session sid d = attempt_write (remove_session_rows sid) d"

definition mark_session_deleted :: "u64 \<Rightarrow> db \<Rightarrow> db \<times> bool" where
  "mark_session_deleted sid d = attempt_write (\<lambda>d. d\<lparr>db_tombstones := insert sid (db_tombstones d)\<rparr>) d"

definition clear_session_tombstone :: "u64 \<Rightarrow> db \<Rightarrow> db \<times> bool" where
  "clear_session_tombstone sid d = attempt_write (\<lambda>d. d\<lparr>db_tombstones := db_tombstones d - {sid}\<rparr>) d"

text \<open>The purge at startup, after the tombstoned ids have been read: a session whose deletion
  fails keeps its tombstone. The result counts the purged sessions.\<close>

fun purge_ids :: "u64 list \<Rightarrow> db \<times> nat \<Rightarrow> db \<times> nat" where
  "purge_ids [] acc = acc"
| "purge_ids (i # ids) (d, n) =
     (case delete_session i d of
        (d1, False) \<Rightarrow> purge_ids ids (d1, n)
      | (d1, True) \<Rightarrow> purge_ids ids (fst (clear_session_tombstone i d1), n + 1))"

definition purge_tombstoned_sessions :: "db \<Rightarrow> db \<times> nat option" where
  "purge_tombstoned_sessions d =
     (case attempt_write (\<lambda>d. d) d of
        (d', False) \<Rightarrow> (d', None)
      | (d', True) \<Rightarrow>
          (case purge_ids (sorted_list_of_set (db_tombstones d)) (d', 0) of (d'', n) \<Rightarrow> (d'', Some n)))"

text \<open>The scan of the session table at startup, in key order.\<close>

definition read_all_sessions :: "db \<Rightarrow> db \<times> (u64 \<times> session_record) list option" where
  "read_all_sessions d =
     (case attempt_write (\<lambda>d. d) d of
        (d', False) \<Rightarrow> (d', None)
      | (d', True) \<Rightarrow>
          (d', Some (map (\<lambda>i. (i, the (db_sessions d i))) (sorted_list_of_set (dom (db_sessions d))))))"

text \<open>\<^verbatim>\<open>SessionState::finalize_turn\<close>: persists the turn if it exists; the result says whether
  the caller gets an error.\<close>

definition finalize_turn :: "u64 \<Rightarrow> u32 \<Rightarrow> session_state \<Rightarrow> db \<Rightarrow> db \<times> bool" where
  "finalize_turn sid tid s d =
     (case map_of (turns s) tid of
        None \<Rightarrow> (d, True)
      | Some t \<Rightarrow> write_turn_retry sid tid t d)"

text \<open>
  Four attempts: the write succeeds exactly when one of the next four outcomes is not a
  fault, and then takes effect once.
\<close>

primrec leading_faults :: "bool list \<Rightarrow> nat" where
  "leading_faults [] = 0"
| "leading_faults (f # fs) = (if f then Suc (leading_faults fs) else 0)"

definition write_lands :: "db \<Rightarrow> bool" where
  "write_lands d \<longleftrightarrow> leading_faults (db_faults d) < 4"

lemma retry_write_effect:
  assumes "attempts \<le> 3"
  shows "retry_write attempts w d =
    (let n = leading_faults (db_faults d)
     in if n \<le> 3 - attempts
        then (w (d\<lparr>db_faults := drop (Suc n) (db_faults d)\<rparr>), True)
        else (d\<lparr>db_faults := drop (4 - attempts) (db_faults d)\<rparr>, False))"
  using assms
proof (induction attempts w d rule: retry_write.induct)
  case (1 attempts w d)
  show ?case
  proof (cases "db_faults d")
    case Nil
    then have "d\<lparr>db_faults := []\<rparr> = d" by (cases d) simp
    then have "w (d\<lparr>db_faults := []\<rparr>) = w d" by (rule arg_cong)
    then show ?thesis using Nil by (simp add: retry_write.simps [of attempts] attempt_write_def)
  next
    case (Cons f fs)
    show ?thesis
    proof (cases f)
      case False
      then show ?thesis using Cons by (simp add: retry_write.simps [of attempts] attempt_write_def)
    next
      case True
      let ?d' = "d\<lparr>db_faults := fs\<rparr>"
      have at: "attempt_write w d = (?d', False)"
        using Cons True by (simp add: attempt_write_def)
      show ?thesis
      proof (cases "attempts < 3")
        case False
        then have "attempts = 3" using "1.prems" by simp
        then show ?thesis using Cons True at by (simp add: retry_write.simps [of 3])
      next
        case less: True
        from "1.IH" [OF at [symmetric] refl less] less
        have "retry_write (attempts + 1) w ?d' =
          (let n = leading_faults fs
           in if n \<le> 3 - (attempts + 1)
              then (w (d\<lparr>db_faults := drop (Suc n) fs\<rparr>), True)
              else (d\<lparr>db_faults := drop (4 - (attempts + 1)) fs\<rparr>, False))"
          by (simp add: Let_def)
        moreover have "4 - attempts = Suc (3 - attempts)" and "3 - attempts = Suc (2 - attempts)"
          using less by simp_all
        ultimately show ?thesis using Cons True at less
          by (simp add: retry_write.simps [of attempts] Let_def)
      qed
    qed
  qed
qed

lemma write_turn_retry_db:
  "db_turns (fst (write_turn_retry sid tid t d)) =
     (if write_lands d then (db_turns d)((sid, tid) \<mapsto> t) else db_turns d)"
  "db_sessions (fst (write_turn_retry sid tid t d)) = db_sessions d"
  "snd (write_turn_retry sid tid t d) = write_lands d"
  by (auto simp: write_turn_retry_def retry_write_effect Let_def write_lands_def put_turn_def)

lemma write_session_retry_db:
  "db_sessions (fst (write_session_retry sid r d)) =
     (if write_lands d then (db_sessions d)(sid \<mapsto> r) else db_sessions d)"
  "db_turns (fst (write_session_retry sid r d)) = db_turns d"
  "snd (write_session_retry sid r d) = write_lands d"
  by (auto simp: write_session_retry_def retry_write_effect Let_def write_lands_def put_session_def)

text \<open>A database without faults stays so.\<close>

lemma write_no_faults [simp]:
  "db_faults d = [] \<Longrightarrow> db_faults (fst (write_turn_retry sid tid t d)) = []"
  "db_faults d = [] \<Longrightarrow> db_faults (fst (write_session_retry sid r d)) = []"
  "db_faults d = [] \<Longrightarrow> write_lands d"
  by (auto simp: write_turn_retry_def write_session_retry_def retry_write_effect write_lands_def
      put_turn_def put_session_def)

section \<open>Properties\<close>

text \<open>
  The retry loop around a turn write. It makes at most four attempts and stops at the
  first that succeeds; it reports success exactly when fewer than four attempts in a row
  fail, and then the row holds the turn; when it reports failure the tables are as before.
  No other row is touched in either case.
\<close>

lemma write_turn_retry_spec:
  "snd (write_turn_retry sid tid t d) = (leading_faults (db_faults d) < 4)
   \<and> db_turns (fst (write_turn_retry sid tid t d)) =
       (if leading_faults (db_faults d) < 4 then (db_turns d)((sid, tid) \<mapsto> t) else db_turns d)
   \<and> db_sessions (fst (write_turn_retry sid tid t d)) = db_sessions d
   \<and> db_faults (fst (write_turn_retry sid tid t d)) =
       drop (min 4 (Suc (leading_faults (db_faults d)))) (db_faults d)"
proof -
  have "db_faults (fst (write_turn_retry sid tid t d)) =
      drop (min 4 (Suc (leading_faults (db_faults d)))) (db_faults d)"
    by (auto simp: write_turn_retry_def retry_write_effect Let_def put_turn_def min_def)
  then show ?thesis by (simp add: write_turn_retry_db write_lands_def)
qed

end
