(* ===== verification/Session_Thread.thy ===== *)
theory Session_Thread
  imports Commands Storage
begin

text \<open>
  The session thread of \<^verbatim>\<open>choreo-daemon/src/sessions.rs\<close>: one handler per
  \<^verbatim>\<open>SessionCommand\<close>, the dispatcher \<^verbatim>\<open>process_command\<close>, the start of the thread, its loop
  and its exit, and the request worker it spawns.

  A handler takes the world of the thread and returns the new world and whether the loop
  ends. The world holds the session state, the shutdown flag, the database, the store of
  the client queues, and what the thread has sent: commands to the daemon, replies, and
  the workers it has spawned. The context holds what the thread reads and never writes:
  its id, the lag limits, the clock, the registry's group names, and the answers of the
  other parties (the daemon's reply to a provider or model query, the catalog's
  capability of a model, the third-party grapheme count and list formatter).
\<close>

section \<open>World and context\<close>

record child_result =
  child_output :: string
  child_is_error :: bool

datatype reply_value =
    SummaryReply session_summary
  | ChildReply "string + child_result"
  | TextReply "string + string"
  | EffortReply string

record worker =
  w_request_id :: u32
  w_provider :: inference_provider
  w_session :: session_state
  w_model :: string
  w_child_reply :: "reply_chan option"
  w_user_text :: "string option"

record session_world =
  st :: session_state
  shutdown_requested :: bool
  sdb :: db
  snet :: net
  daemon_out :: "daemon_command list"
  replies :: "(reply_chan \<times> reply_value) list"
  spawned :: "worker list"

text \<open>
  \<open>ctx_resolve_provider\<close> and \<open>ctx_validate_model\<close> are what \<^verbatim>\<open>rx.recv()\<close> yields for a query
  to a reachable daemon: \<open>None\<close> when the daemon drops the reply channel.
\<close>

record request_ctx =
  ctx_session_id :: u64
  ctx_lag_limits :: lag_limits
  ctx_now :: i64
  ctx_daemon_connected :: bool
  ctx_resolve_provider :: "string \<Rightarrow> inference_provider option option"
  ctx_validate_model :: "string \<Rightarrow> (string + unit) option"
  ctx_capability :: "string \<Rightarrow> string \<Rightarrow> reasoning_capability"
  ctx_known_groups :: hset
  ctx_graphemes :: "string \<Rightarrow> nat"
  ctx_list_fmt :: "string list \<Rightarrow> string"

abbreviation upd_st :: "(session_state \<Rightarrow> session_state) \<Rightarrow> session_world \<Rightarrow> session_world" where
  "upd_st f w \<equiv> w\<lparr>st := f (st w)\<rparr>"

definition to_daemon :: "request_ctx \<Rightarrow> daemon_command \<Rightarrow> session_world \<Rightarrow> session_world" where
  "to_daemon ctx c w =
     (if ctx_daemon_connected ctx then w\<lparr>daemon_out := daemon_out w @ [c]\<rparr> else w)"

definition send_reply :: "reply_chan \<Rightarrow> reply_value \<Rightarrow> session_world \<Rightarrow> session_world" where
  "send_reply ch v w = w\<lparr>replies := replies w @ [(ch, v)]\<rparr>"

definition origin_event :: "request_ctx \<Rightarrow> session_event \<Rightarrow> daemon_message" where
  "origin_event ctx ev = Session (Some (ctx_session_id ctx)) ev"

section \<open>Broadcasting and persisting\<close>

definition broadcast :: "request_ctx \<Rightarrow> daemon_message \<Rightarrow> session_world \<Rightarrow> session_world" where
  "broadcast ctx msg w =
     (let w1 = to_daemon ctx (D_BroadcastActivity (Some (ctx_session_id ctx)) msg) w
      in case fan_out_evicting (subscribers (st w1)) msg (ctx_lag_limits ctx) (\<lambda>_. False) (snet w1) of
           (subs', evict_clients, evict_largest, n') \<Rightarrow>
             let w2 = w1\<lparr>st := (st w1)\<lparr>subscribers := subs'\<rparr>, snet := n'\<rparr>;
                 w3 = fold (\<lambda>c. to_daemon ctx (D_EvictClient c)) evict_clients w2
             in if evict_largest then to_daemon ctx D_EvictLargestLagging w3 else w3)"

definition broadcast_event :: "request_ctx \<Rightarrow> session_event \<Rightarrow> session_world \<Rightarrow> session_world" where
  "broadcast_event ctx ev = broadcast ctx (origin_event ctx ev)"

definition fail_request :: "request_ctx \<Rightarrow> u32 \<Rightarrow> string \<Rightarrow> session_world \<Rightarrow> session_world \<times> bool" where
  "fail_request ctx request_id err w =
     (broadcast_event ctx (Failed request_id err)
        (broadcast_event ctx (Started request_id 0 0) w), False)"

definition update_metadata :: "request_ctx \<Rightarrow> session_world \<Rightarrow> session_world" where
  "update_metadata ctx w =
     to_daemon ctx (D_UpdateMetadata (ctx_session_id ctx) (metadata_of_state (st w))) w"

definition persist_record :: "request_ctx \<Rightarrow> session_world \<Rightarrow> session_world" where
  "persist_record ctx w =
     w\<lparr>sdb := fst (write_session_retry (ctx_session_id ctx) (record_of_state (st w)) (sdb w))\<rparr>"

definition touch :: "i64 \<Rightarrow> session_state \<Rightarrow> session_state" where
  "touch now = upd_config (\<lambda>c. c\<lparr>cfg_last_modified := max (cfg_last_modified c) now\<rparr>)"

definition persist_session_metadata :: "request_ctx \<Rightarrow> session_world \<Rightarrow> session_world" where
  "persist_session_metadata ctx w =
     persist_record ctx (update_metadata ctx (upd_st (touch (ctx_now ctx)) w))"

definition resolve_context_window_if_missing :: "request_ctx \<Rightarrow> session_world \<Rightarrow> session_world" where
  "resolve_context_window_if_missing ctx w =
     (if cfg_context_window (config (st w)) \<noteq> None then w
      else case (cfg_selected_model (config (st w)), provider (st w)) of
        (Some model, Some p) \<Rightarrow>
          (case resolve_context_window p model of
             Some cw \<Rightarrow>
               broadcast_event ctx (ContextWindowResolved cw)
                 (upd_st (upd_config (\<lambda>c. c\<lparr>cfg_context_window := Some cw\<rparr>)) w)
           | None \<Rightarrow> w)
      | _ \<Rightarrow> w)"

definition default_active_tool_groups :: hset where
  "default_active_tool_groups = [''core'', ''git'', ''shell'']"

section \<open>Running requests\<close>

definition bytes_string :: "u8 list \<Rightarrow> string" where
  "bytes_string bs = map (\<lambda>b. char_of (unat b)) bs"

definition em_dash :: string where
  "em_dash = [CHR 0xE2, CHR 0x80, CHR 0x94]"

definition no_credential_error :: "string \<Rightarrow> string" where
  "no_credential_error name =
     ''no credential stored for account '' @ [CHR 0x27] @ name @ [CHR 0x27] @ '' '' @ em_dash
     @ '' add one via the AI Providers page or /add-key''"

definition no_account_error :: string where
  "no_account_error =
     ''no account configured on this session '' @ em_dash @ '' use /account <name> to set one''"

text \<open>The provider of a run: the cached one, else one resolved through the daemon.\<close>

definition obtain_provider ::
  "request_ctx \<Rightarrow> session_world \<Rightarrow> session_world \<times> (string + inference_provider)" where
  "obtain_provider ctx w =
     (case provider (st w) of
        Some p \<Rightarrow> (w, Inr p)
      | None \<Rightarrow>
          (case cfg_account_name (config (st w)) of
             None \<Rightarrow> (w, Inl no_account_error)
           | Some name \<Rightarrow>
               let w1 = to_daemon ctx (D_ResolveProviderCmd name) w
               in case (if ctx_daemon_connected ctx then ctx_resolve_provider ctx name else None) of
                    Some (Some p) \<Rightarrow>
                      (resolve_context_window_if_missing ctx
                         (upd_st (\<lambda>s. s\<lparr>provider := Some p\<rparr>) w1), Inr p)
                  | _ \<Rightarrow> (w1, Inl (no_credential_error name))))"

text \<open>What every accepted run does: announce it, register its cancel channel and spawn a
  worker on a snapshot of the session.\<close>

definition start_request ::
  "request_ctx \<Rightarrow> u32 \<Rightarrow> inference_provider \<Rightarrow> string \<Rightarrow> reply_chan option \<Rightarrow> string option
   \<Rightarrow> session_world \<Rightarrow> session_world" where
  "start_request ctx request_id p model child_reply text w =
     (let w1 = broadcast_event ctx (Started request_id (next_turn_id (st w)) 0) w;
          w2 = upd_st (\<lambda>s. s\<lparr>active_requests :=
                 bt_insert request_id \<lparr>cancels_sent = 0, ar_turn_id = next_turn_id s\<rparr>
                   (active_requests s)\<rparr>) w1;
          worker_session = from_snapshot (snapshot (st w2)) []
      in w2\<lparr>spawned := spawned w2 @
             [\<lparr>w_request_id = request_id, w_provider = p, w_session = worker_session,
               w_model = model, w_child_reply = child_reply, w_user_text = text\<rparr>]\<rparr>)"

definition handle_run_input ::
  "request_ctx \<Rightarrow> u32 \<Rightarrow> u8 list \<Rightarrow> session_world \<Rightarrow> session_world \<times> bool" where
  "handle_run_input ctx request_id input w =
     (let text = trim (from_utf8_lossy (bytes_string input)) in
      if text = [] then fail_request ctx request_id ''empty input'' w
      else case obtain_provider ctx w of
        (w1, Inl err) \<Rightarrow> fail_request ctx request_id err w1
      | (w1, Inr p) \<Rightarrow>
          (case cfg_selected_model (config (st w1)) of
             None \<Rightarrow> fail_request ctx request_id ''no model selected'' w1
           | Some model \<Rightarrow>
               if shutdown_requested w1
               then fail_request ctx request_id ''session is shutting down'' w1
               else if active_requests (st w1) \<noteq> []
               then fail_request ctx request_id ''session already has an active request'' w1
               else (start_request ctx request_id p model None (Some text) w1, False)))"

definition handle_run_child_input ::
  "request_ctx \<Rightarrow> u32 \<Rightarrow> string option \<Rightarrow> reply_chan \<Rightarrow> session_world \<Rightarrow> session_world \<times> bool" where
  "handle_run_child_input ctx request_id text reply w =
     (case provider (st w) of
        None \<Rightarrow> (send_reply reply (ChildReply (Inl ''daemon locked'')) w, False)
      | Some p \<Rightarrow>
          (let model = (case cfg_selected_model (config (st w)) of Some m \<Rightarrow> m | None \<Rightarrow> [])
           in if shutdown_requested w
              then (send_reply reply (ChildReply (Inl ''session is shutting down'')) w, False)
              else if active_requests (st w) \<noteq> []
              then (send_reply reply
                      (ChildReply (Inl ''session already has an active request'')) w, False)
              else (start_request ctx request_id p model (Some reply) text w, False)))"

definition cancel_one :: "request_ctx \<Rightarrow> u32 \<Rightarrow> session_world \<Rightarrow> session_world" where
  "cancel_one ctx rid w =
     (case map_of (active_requests (st w)) rid of
        None \<Rightarrow> w
      | Some _ \<Rightarrow>
          broadcast_event ctx (Cancelled rid)
            (upd_st (\<lambda>s. s\<lparr>active_requests :=
               map_at rid (\<lambda>a. a\<lparr>cancels_sent := cancels_sent a + 1\<rparr>) (active_requests s)\<rparr>) w))"

definition handle_cancel :: "request_ctx \<Rightarrow> u32 \<Rightarrow> session_world \<Rightarrow> session_world \<times> bool" where
  "handle_cancel ctx request_id w =
     (let targets = (if request_id = 0 then keys (active_requests (st w)) else [request_id])
      in (fold (cancel_one ctx) targets w, False))"

section \<open>Configuration commands\<close>

definition validate_model_via_daemon ::
  "request_ctx \<Rightarrow> string \<Rightarrow> session_world \<Rightarrow> session_world \<times> (string + unit)" where
  "validate_model_via_daemon ctx model w =
     (if \<not> ctx_daemon_connected ctx then (w, Inr ())
      else (to_daemon ctx (D_ValidateModel (ctx_session_id ctx) model) w,
            case ctx_validate_model ctx model of
              Some (Inr ()) \<Rightarrow> Inr ()
            | Some (Inl msg) \<Rightarrow> Inl msg
            | None \<Rightarrow> Inr ()))"

definition effort_unsupported :: "reasoning_capability option \<Rightarrow> string option \<Rightarrow> bool" where
  "effort_unsupported cap effort =
     (case (cap, effort) of
        (Some c, Some e) \<Rightarrow> e \<noteq> ''off'' \<and> e \<notin> set (available_effort_levels c)
      | _ \<Rightarrow> False)"

definition announce_window :: "request_ctx \<Rightarrow> u32 option \<Rightarrow> session_world \<Rightarrow> session_world" where
  "announce_window ctx cw w =
     (let w1 = upd_st (upd_config (\<lambda>c. c\<lparr>cfg_context_window := cw\<rparr>)) w
      in case cw of Some n \<Rightarrow> broadcast_event ctx (ContextWindowResolved n) w1 | None \<Rightarrow> w1)"

definition handle_set_model :: "request_ctx \<Rightarrow> string \<Rightarrow> session_world \<Rightarrow> session_world \<times> bool" where
  "handle_set_model ctx model w =
     (case validate_model_via_daemon ctx model w of
        (w1, Inl msg) \<Rightarrow> (broadcast_event ctx (ModelSelectionFailed model msg) w1, False)
      | (w1, Inr _) \<Rightarrow>
          let w2 = upd_st (upd_config (\<lambda>c. c\<lparr>cfg_selected_model := Some model\<rparr>)) w1;
              cw = Option.bind (provider (st w2)) (\<lambda>p. resolve_context_window p model);
              w3 = announce_window ctx cw w2;
              capability = map_option (\<lambda>p. ctx_capability ctx (provider_slug p) model) (provider (st w3));
              w4 = (if effort_unsupported capability (cfg_reasoning_effort (config (st w3)))
                    then broadcast_event ctx (ReasoningEffortSet ''off'')
                      (upd_st (upd_config (\<lambda>c. c\<lparr>cfg_reasoning_effort := Some ''off''\<rparr>)) w3)
                    else w3);
              w5 = broadcast_event ctx (ModelSelected model capability) w4
          in (persist_session_metadata ctx w5, False))"

definition handle_status_changed ::
  "request_ctx \<Rightarrow> session_status \<Rightarrow> session_world \<Rightarrow> session_world \<times> bool" where
  "handle_status_changed ctx new_status w =
     (let w1 = upd_st (upd_config (\<lambda>c. c\<lparr>cfg_status := new_status\<rparr>)) w;
          last_modified = cfg_last_modified (config (st w1));
          w2 = broadcast_event ctx (SessionStatusChanged new_status last_modified) w1
      in (to_daemon ctx (D_BroadcastSessionStatus (ctx_session_id ctx) new_status) w2, False))"

definition handle_broadcast :: "request_ctx \<Rightarrow> daemon_message \<Rightarrow> session_world \<Rightarrow> session_world \<times> bool" where
  "handle_broadcast ctx msg w = (broadcast ctx msg w, False)"

definition handle_sync_accumulated_usage ::
  "request_ctx \<Rightarrow> token_usage \<Rightarrow> u32 option \<Rightarrow> session_world \<Rightarrow> session_world \<times> bool" where
  "handle_sync_accumulated_usage ctx usage lpt w =
     (let w1 = upd_st (upd_config (\<lambda>c. c\<lparr>cfg_accumulated_usage := merge_max (cfg_accumulated_usage c) usage\<rparr>)) w;
          w2 = (case lpt of
                  Some tokens \<Rightarrow> upd_st (upd_config (\<lambda>c. c\<lparr>cfg_last_prompt_tokens := Some tokens\<rparr>)) w1
                | None \<Rightarrow> w1);
          w3 = broadcast_event ctx
                 (TokenUsageUpdate (cfg_accumulated_usage (config (st w2)))
                    (cfg_last_prompt_tokens (config (st w2)))) w2
      in (update_metadata ctx w3, False))"

definition MAX_TITLE_CHARS :: nat where
  "MAX_TITLE_CHARS = 200"

definition handle_set_title :: "request_ctx \<Rightarrow> string \<Rightarrow> session_world \<Rightarrow> session_world \<times> bool" where
  "handle_set_title ctx title w =
     (if ctx_graphemes ctx title > MAX_TITLE_CHARS then (w, False)
      else
        let w1 = upd_st (upd_config (\<lambda>c. c\<lparr>cfg_title := Some title\<rparr>)) w;
            w2 = broadcast_event ctx (SessionTitleSet title) w1
        in (persist_session_metadata ctx w2, False))"

definition handle_set_working_dir ::
  "request_ctx \<Rightarrow> string \<Rightarrow> reply_chan \<Rightarrow> session_world \<Rightarrow> session_world \<times> bool" where
  "handle_set_working_dir ctx path reply w =
     (let w1 = upd_st (upd_config (\<lambda>c. c\<lparr>cfg_working_dir := Some path\<rparr>)) w;
          w2 = upd_st (\<lambda>s. s\<lparr>discovered_skills := None\<rparr>) w1;
          w3 = broadcast_event ctx (SessionWorkingDirSet (Some (path_display path))) w2;
          w4 = persist_session_metadata ctx w3
      in (send_reply reply (TextReply (Inr (path_display path))) w4, False))"

definition broadcast_state :: "request_ctx \<Rightarrow> session_world \<Rightarrow> session_world" where
  "broadcast_state ctx w =
     broadcast ctx (session_state_message (ctx_capability ctx) (ctx_session_id ctx) (st w)) w"

text \<open>The common body of \<^verbatim>\<open>handle_load_tools\<close> and \<^verbatim>\<open>handle_unload_tools\<close>.\<close>

definition change_groups ::
  "(hset \<Rightarrow> string list \<Rightarrow> hset \<times> string) \<Rightarrow> request_ctx \<Rightarrow> string list \<Rightarrow> reply_chan
   \<Rightarrow> session_world \<Rightarrow> session_world \<times> bool" where
  "change_groups apply_tools ctx groups reply w =
     (case unknown_group_names groups (ctx_known_groups ctx) of
        Some unknown \<Rightarrow>
          (send_reply reply
             (TextReply (Inl (''Unknown tool group(s): '' @ join '', '' unknown))) w, False)
      | None \<Rightarrow>
          (case apply_tools (cfg_active_tool_groups (config (st w))) groups of
             (groups', result) \<Rightarrow>
               let w1 = upd_st (upd_config (\<lambda>c. c\<lparr>cfg_active_tool_groups := groups'\<rparr>)) w;
                   w2 = broadcast_state ctx w1;
                   w3 = persist_session_metadata ctx w2
               in (send_reply reply (TextReply (Inr result)) w3, False)))"

definition handle_load_tools ::
  "request_ctx \<Rightarrow> string list \<Rightarrow> reply_chan \<Rightarrow> session_world \<Rightarrow> session_world \<times> bool" where
  "handle_load_tools ctx = change_groups (apply_load_tools (ctx_list_fmt ctx)) ctx"

definition handle_unload_tools ::
  "request_ctx \<Rightarrow> string list \<Rightarrow> reply_chan \<Rightarrow> session_world \<Rightarrow> session_world \<times> bool" where
  "handle_unload_tools ctx = change_groups (apply_unload_tools (ctx_list_fmt ctx)) ctx"

definition handle_set_account :: "request_ctx \<Rightarrow> string \<Rightarrow> session_world \<Rightarrow> session_world \<times> bool" where
  "handle_set_account ctx name w =
     (let w1 = to_daemon ctx (D_ResolveProviderCmd name) w;
          w2 = (case (if ctx_daemon_connected ctx then ctx_resolve_provider ctx name else None) of
                  Some (Some p) \<Rightarrow>
                    upd_st (\<lambda>s. s\<lparr>provider := Some p\<rparr>)
                      (case cfg_selected_model (config (st w1)) of
                         Some model \<Rightarrow> announce_window ctx (resolve_context_window p model) w1
                       | None \<Rightarrow> w1)
                | _ \<Rightarrow> w1);
          w3 = upd_st (upd_config (\<lambda>c. c\<lparr>cfg_account_name := Some name\<rparr>)) w2;
          w4 = broadcast_event ctx (SessionAccountSet name) w3
      in (persist_session_metadata ctx w4, False))"

definition effort_too_long_error :: "string \<Rightarrow> string" where
  "effort_too_long_error effort =
     ''reasoning effort slug too long ('' @ decimal (length effort) @ '' bytes)''"

definition effort_unsupported_error :: "string option \<Rightarrow> string \<Rightarrow> string" where
  "effort_unsupported_error model effort =
     ''model '' @ [CHR 0x27] @ (case model of Some m \<Rightarrow> m | None \<Rightarrow> ''(none)'') @ [CHR 0x27]
     @ '' does not support reasoning effort '' @ [CHR 0x27] @ effort @ [CHR 0x27]"

definition handle_set_reasoning_effort ::
  "request_ctx \<Rightarrow> string \<Rightarrow> session_world \<Rightarrow> session_world \<times> bool" where
  "handle_set_reasoning_effort ctx effort w =
     (if length effort > 64
      then (broadcast_event ctx (ReasoningEffortSetFailed effort (effort_too_long_error effort)) w, False)
      else
        let capability = session_capability (ctx_capability ctx) (st w);
            valid = (effort = ''off''
              \<or> (case capability of Some c \<Rightarrow> effort \<in> set (available_effort_levels c) | None \<Rightarrow> False)
              \<or> capability = None)
        in if valid
           then (broadcast_event ctx (ReasoningEffortSet effort)
                   (upd_st (upd_config (\<lambda>c. c\<lparr>cfg_reasoning_effort := Some effort\<rparr>)) w), False)
           else (broadcast_event ctx (ReasoningEffortSetFailed effort
                   (effort_unsupported_error (cfg_selected_model (config (st w))) effort)) w, False))"

definition handle_get_reasoning_effort ::
  "reply_chan \<Rightarrow> session_world \<Rightarrow> session_world \<times> bool" where
  "handle_get_reasoning_effort reply w =
     (send_reply reply
        (EffortReply (case cfg_reasoning_effort (config (st w)) of Some e \<Rightarrow> e | None \<Rightarrow> ''off'')) w,
      False)"

end
