(* ===== verification/Session_Loop.thy ===== *)
theory Session_Loop
  imports Session_Thread
begin

text \<open>
  The rest of the session thread of \<^verbatim>\<open>choreo-daemon/src/sessions.rs\<close>: attaching and
  detaching clients, merging the result of a finished request, undo, redo and shutdown;
  the dispatcher, the start and the loop of the thread, the request worker, and the
  bounded join of an exiting thread.
\<close>

section \<open>Clients\<close>

definition can_exit :: "session_world \<Rightarrow> bool" where
  "can_exit w \<longleftrightarrow> active_requests (st w) = [] \<and> (subscribers (st w) = [] \<or> shutdown_requested w)"

definition send_direct :: "u64 \<Rightarrow> daemon_message \<Rightarrow> session_world \<Rightarrow> session_world" where
  "send_direct client_id msg w =
     (case map_of (subscribers (st w)) client_id of
        None \<Rightarrow> w
      | Some tx \<Rightarrow> w\<lparr>snet := fst (send_unchecked tx msg (snet w))\<rparr>)"

definition handle_attach :: "request_ctx \<Rightarrow> u64 \<Rightarrow> sink \<Rightarrow> session_world \<Rightarrow> session_world \<times> bool" where
  "handle_attach ctx client_id tx w =
     (let w1 = upd_st (\<lambda>s. s\<lparr>subscribers := AList.update client_id tx (subscribers s)\<rparr>) w;
          w2 = to_daemon ctx (D_TrackSessionSubscription client_id (ctx_session_id ctx)) w1;
          w3 = fold (\<lambda>(request_id, active).
                  send_direct client_id (origin_event ctx (Started request_id (ar_turn_id active) 0)))
                 (active_requests (st w2)) w2;
          snap = session_state_message (ctx_capability ctx) (ctx_session_id ctx) (st w3)
      in (send_direct client_id snap w3, False))"

definition handle_detach :: "request_ctx \<Rightarrow> u64 \<Rightarrow> session_world \<Rightarrow> session_world \<times> bool" where
  "handle_detach ctx client_id w =
     (let w1 = upd_st (\<lambda>s. s\<lparr>subscribers := AList.delete client_id (subscribers s)\<rparr>) w;
          w2 = to_daemon ctx (D_UntrackSessionSubscription client_id (ctx_session_id ctx)) w1
      in (w2, can_exit w2))"

definition handle_remove_subscriber :: "u64 \<Rightarrow> session_world \<Rightarrow> session_world \<times> bool" where
  "handle_remove_subscriber client_id w =
     (let w1 = upd_st (\<lambda>s. s\<lparr>subscribers := AList.delete client_id (subscribers s)\<rparr>) w
      in (w1, can_exit w1))"

definition handle_get_summary :: "request_ctx \<Rightarrow> reply_chan \<Rightarrow> session_world \<Rightarrow> session_world \<times> bool" where
  "handle_get_summary ctx reply w =
     (let c = config (st w) in
      (send_reply reply (SummaryReply
         \<lparr>sum_session_id = ctx_session_id ctx, sum_title = cfg_title c,
          sum_selected_model = cfg_selected_model c,
          sum_reasoning_effort = cfg_reasoning_effort c,
          sum_parent_session_id = cfg_parent_session_id c,
          sum_working_dir = map_option path_display (cfg_working_dir c),
          sum_created_at = cfg_created_at c, sum_last_modified = cfg_last_modified c,
          sum_turn_count = of_nat (length (turns (st w))), sum_status = cfg_status c,
          sum_active_tool_groups = cfg_active_tool_groups c,
          sum_account_name = cfg_account_name c,
          sum_token_usage = Some (cfg_accumulated_usage c),
          sum_context_window = cfg_context_window c,
          sum_last_prompt_tokens = cfg_last_prompt_tokens c\<rparr>) w, False))"

section \<open>The end of a request\<close>

definition undo_during_request :: "(u32, turn) btmap \<Rightarrow> (u32, turn) btmap \<Rightarrow> bool" where
  "undo_during_request live snap =
     list_ex (\<lambda>(i, snap_turn).
        case map_of live i of Some t \<Rightarrow> undone t \<and> \<not> undone snap_turn | None \<Rightarrow> False) snap"

text \<open>
  One round of the merge loop. The test of the last branch reads the turn back after it
  was inserted, as the source does.
\<close>

definition merge_turn ::
  "u64 \<Rightarrow> u32 \<times> turn \<Rightarrow> (u32, turn) btmap \<times> db \<Rightarrow> (u32, turn) btmap \<times> db" where
  "merge_turn sid it acc =
     (case (it, acc) of ((i, t), (ts, d)) \<Rightarrow>
        let is_new = (map_of ts i = None) in
        if \<not> is_new \<and> (case map_of ts i of Some live \<Rightarrow> undone live \<and> \<not> undone t | None \<Rightarrow> False)
        then (ts, d)
        else
          let ts' = bt_insert i t ts in
          if is_new then (ts', fst (write_turn_retry sid i t d))
          else if (case map_of ts' i of Some t' \<Rightarrow> t' \<noteq> t | None \<Rightarrow> False)
          then (ts', fst (write_turn_retry sid i t d))
          else (ts', d))"

definition merge_turns ::
  "u64 \<Rightarrow> (u32, turn) btmap \<Rightarrow> (u32, turn) btmap \<times> db \<Rightarrow> (u32, turn) btmap \<times> db" where
  "merge_turns sid snap acc = fold (merge_turn sid) snap acc"

definition advance_next_turn_id :: "(u32, turn) btmap \<Rightarrow> u32 \<Rightarrow> u32" where
  "advance_next_turn_id snap next_id =
     (if snap = [] then next_id else max next_id (Max (set (keys snap)) + 1))"

definition handle_request_finished ::
  "request_ctx \<Rightarrow> u32 \<Rightarrow> session_snapshot \<Rightarrow> session_world \<Rightarrow> session_world \<times> bool" where
  "handle_request_finished ctx request_id sn w =
     (let snap_cfg =
            (if undo_during_request (turns (st w)) (snap_turns sn)
             then (snap_config sn)\<lparr>cfg_last_response_id := None, cfg_last_response_id_producer := None\<rparr>
             else snap_config sn);
          w1 = upd_st (upd_config (\<lambda>c. apply_worker_snapshot c snap_cfg)) w;
          last_modified = ctx_now ctx;
          w2 = upd_st (touch last_modified) w1;
          w3 = persist_record ctx w2;
          w4 = upd_st (\<lambda>s. s\<lparr>loaded_skill_bodies := snap_loaded_skill_bodies sn,
                             context_cache := snap_context_cache sn,
                             discovered_skills := snap_discovered_skills sn\<rparr>) w3;
          merged = merge_turns (ctx_session_id ctx) (snap_turns sn) (turns (st w4), sdb w4);
          w5 = w4\<lparr>st := (st w4)\<lparr>turns := fst merged\<rparr>, sdb := snd merged\<rparr>;
          w6 = upd_st (\<lambda>s. s\<lparr>next_turn_id := advance_next_turn_id (snap_turns sn) (next_turn_id s)\<rparr>) w5;
          w7 = upd_st (\<lambda>s. s\<lparr>active_requests := AList.delete request_id (active_requests s)\<rparr>) w6;
          w8 = upd_st (upd_config (\<lambda>c. c\<lparr>cfg_status := Inactive\<rparr>)) w7;
          w9 = update_metadata ctx w8;
          w10 = broadcast_event ctx (SessionStatusChanged Inactive last_modified) w9;
          w11 = to_daemon ctx (D_BroadcastSessionStatus (ctx_session_id ctx) Inactive) w10
      in (w11, can_exit w11))"

section \<open>Undo, redo, shutdown\<close>

definition persist_turns :: "request_ctx \<Rightarrow> u32 list \<Rightarrow> session_world \<Rightarrow> session_world" where
  "persist_turns ctx ids w =
     fold (\<lambda>i w. case map_of (turns (st w)) i of
                   None \<Rightarrow> w
                 | Some t \<Rightarrow> w\<lparr>sdb := fst (write_turn_retry (ctx_session_id ctx) i t (sdb w))\<rparr>) ids w"

definition handle_undo :: "request_ctx \<Rightarrow> session_world \<Rightarrow> session_world \<times> bool" where
  "handle_undo ctx w =
     (case undo_turns (st w) of
        (s', None) \<Rightarrow> (w\<lparr>st := s'\<rparr>, False)
      | (s', Some turn_ids) \<Rightarrow>
          let w1 = w\<lparr>st := s'\<rparr>;
              w2 = (if cfg_last_response_id (config (st w1)) \<noteq> None
                    then persist_record ctx (upd_st (upd_config (\<lambda>c. c
                           \<lparr>cfg_last_response_id := None, cfg_last_response_id_producer := None\<rparr>)) w1)
                    else w1);
              w3 = persist_turns ctx turn_ids w2
          in (broadcast_event ctx (TurnsUndone turn_ids) w3, False))"

definition handle_redo :: "request_ctx \<Rightarrow> session_world \<Rightarrow> session_world \<times> bool" where
  "handle_redo ctx w =
     (case redo_turns (st w) of
        (s', None) \<Rightarrow> (w\<lparr>st := s'\<rparr>, False)
      | (s', Some restored) \<Rightarrow>
          let w1 = w\<lparr>st := s'\<rparr>;
              w2 = w1\<lparr>sdb := fold (\<lambda>(i, t) d. fst (write_turn_retry (ctx_session_id ctx) i t d))
                              restored (sdb w1)\<rparr>
          in (broadcast_event ctx (TurnsRedone (clients_turns restored)) w2, False))"

definition handle_shutdown :: "request_ctx \<Rightarrow> session_world \<Rightarrow> session_world \<times> bool" where
  "handle_shutdown ctx w =
     (let w1 = w\<lparr>shutdown_requested := True\<rparr>;
          w2 = fold (cancel_one ctx) (keys (active_requests (st w1))) w1
      in (w2, active_requests (st w2) = []))"

section \<open>The loop\<close>

fun process_command :: "request_ctx \<Rightarrow> session_command \<Rightarrow> session_world \<Rightarrow> session_world \<times> bool" where
  "process_command ctx (RunInput rid input) w = handle_run_input ctx rid input w"
| "process_command ctx (RunChildInput rid text reply) w = handle_run_child_input ctx rid text reply w"
| "process_command ctx (Cancel rid) w = handle_cancel ctx rid w"
| "process_command ctx (SetModel model) w = handle_set_model ctx model w"
| "process_command ctx (StatusChanged s) w = handle_status_changed ctx s w"
| "process_command ctx (Attach c tx) w = handle_attach ctx c tx w"
| "process_command ctx (Detach c) w = handle_detach ctx c w"
| "process_command ctx (RemoveSubscriber c) w = handle_remove_subscriber c w"
| "process_command ctx (GetSummary reply) w = handle_get_summary ctx reply w"
| "process_command ctx (RequestFinished rid sn) w = handle_request_finished ctx rid sn w"
| "process_command ctx (BroadcastMsg msg) w = handle_broadcast ctx msg w"
| "process_command ctx (SyncAccumulatedUsage u l) w = handle_sync_accumulated_usage ctx u l w"
| "process_command ctx (SetTitle title) w = handle_set_title ctx title w"
| "process_command ctx (SetWorkingDir path reply) w = handle_set_working_dir ctx path reply w"
| "process_command ctx (LoadTools gs reply) w = handle_load_tools ctx gs reply w"
| "process_command ctx (UnloadTools gs reply) w = handle_unload_tools ctx gs reply w"
| "process_command ctx (SetAccount name) w = handle_set_account ctx name w"
| "process_command ctx (SetReasoningEffort e) w = handle_set_reasoning_effort ctx e w"
| "process_command ctx (GetReasoningEffort reply) w = handle_get_reasoning_effort reply w"
| "process_command ctx Undo w = handle_undo ctx w"
| "process_command ctx Redo w = handle_redo ctx w"
| "process_command ctx Shutdown w = handle_shutdown ctx w"

text \<open>
  The start of the thread. \<open>rows\<close> is what \<^verbatim>\<open>db::read_turns\<close> returns for the session, \<open>None\<close>
  when it fails.
\<close>

definition initial_config ::
  "i64 \<Rightarrow> string option \<Rightarrow> session_record option \<Rightarrow> session_config" where
  "initial_config now account rec =
     \<lparr>cfg_title = Option.bind rec rec_title,
      cfg_selected_model = Option.bind rec rec_selected_model,
      cfg_reasoning_effort = Option.bind rec rec_reasoning_effort,
      cfg_parent_session_id = Option.bind rec rec_parent_session_id,
      cfg_working_dir = Option.bind rec rec_working_dir,
      cfg_created_at = (case rec of Some r \<Rightarrow> rec_created_at r | None \<Rightarrow> now),
      cfg_last_modified = (case rec of Some r \<Rightarrow> rec_last_modified r | None \<Rightarrow> now),
      cfg_status = Inactive,
      cfg_active_tool_groups =
        (case rec of
           Some r \<Rightarrow> if rec_active_tool_groups r = [] then default_active_tool_groups
                     else hset_of_vec (rec_active_tool_groups r)
         | None \<Rightarrow> default_active_tool_groups),
      cfg_context_config = (case rec of Some r \<Rightarrow> rec_context_config r | None \<Rightarrow> context_config_default),
      cfg_account_name = account,
      cfg_accumulated_usage = token_usage_default, cfg_context_window = None,
      cfg_last_prompt_tokens = None,
      cfg_last_response_id = Option.bind rec rec_last_response_id,
      cfg_last_response_id_producer = Option.bind rec rec_last_response_id_producer\<rparr>"

definition add_usage :: "token_usage \<Rightarrow> token_usage \<Rightarrow> token_usage" where
  "add_usage a u =
     \<lparr>input_tokens = input_tokens a + input_tokens u,
      output_tokens = output_tokens a + output_tokens u,
      total_tokens = total_tokens a + total_tokens u\<rparr>"

fun reconstruct_usage :: "turn list \<Rightarrow> token_usage \<times> u32 option \<Rightarrow> token_usage \<times> u32 option" where
  "reconstruct_usage [] acc = acc"
| "reconstruct_usage (t # ts) (u, l) =
     reconstruct_usage ts
       (case turn_token_usage t of Some tu \<Rightarrow> (add_usage u tu, Some (input_tokens tu)) | None \<Rightarrow> (u, l))"

definition load_turn :: "u32 \<times> turn \<Rightarrow> session_state \<Rightarrow> session_state" where
  "load_turn it s =
     (case it of (i, t) \<Rightarrow>
        s\<lparr>turns := bt_insert i t (turns s), next_turn_id := max (next_turn_id s) (i + 1)\<rparr>)"

definition load_turns :: "(u32 \<times> turn) list \<Rightarrow> session_state \<Rightarrow> session_state" where
  "load_turns rows s =
     (let s1 = fold load_turn rows s;
          ul = reconstruct_usage (map snd (turns s1)) (token_usage_default, None)
      in upd_config (\<lambda>c. c\<lparr>cfg_accumulated_usage := fst ul, cfg_last_prompt_tokens := snd ul\<rparr>) s1)"

definition session_start ::
  "request_ctx \<Rightarrow> inference_provider option \<Rightarrow> string option \<Rightarrow> session_record option
   \<Rightarrow> (u32 \<times> turn) list option \<Rightarrow> db \<Rightarrow> net \<Rightarrow> session_world" where
  "session_start ctx prov account rec rows d n =
     (let s0 = session_state_empty\<lparr>config := initial_config (ctx_now ctx) account rec, provider := prov\<rparr>;
          w0 = \<lparr>st = s0, shutdown_requested = False, sdb = d, snet = n, daemon_out = [],
                replies = [], spawned = []\<rparr>;
          w1 = resolve_context_window_if_missing ctx w0;
          w2 = (case rows of Some rs \<Rightarrow> upd_st (load_turns rs) w1 | None \<Rightarrow> w1)
      in update_metadata ctx w2)"

fun session_loop :: "(request_ctx \<times> session_command) list \<Rightarrow> session_world \<Rightarrow> session_world \<times> bool" where
  "session_loop [] w = (w, False)"
| "session_loop ((ctx, cmd) # cmds) w =
     (case process_command ctx cmd w of
        (w', True) \<Rightarrow> (w', True)
      | (w', False) \<Rightarrow> session_loop cmds w')"

definition persist_and_exit :: "request_ctx \<Rightarrow> session_world \<Rightarrow> session_world" where
  "persist_and_exit ctx w =
     to_daemon ctx (D_SessionExited (ctx_session_id ctx)) (persist_record ctx w)"

section \<open>The request worker\<close>

text \<open>
  The outcome of \<^verbatim>\<open>run_agent_loop\<close> under \<^verbatim>\<open>catch_unwind\<close>: it returned whether the request was
  cancelled, it returned an error, or it panicked. \<open>s'\<close> is the worker's session after it.
\<close>

datatype loop_result = LoopOk bool | LoopErr string | LoopPanic

definition child_reply_of :: "loop_result \<Rightarrow> session_state \<Rightarrow> child_result" where
  "child_reply_of r s' =
     (case r of
        LoopOk False \<Rightarrow>
          \<lparr>child_output = join [CHR 0x0A] (List.map_filter (\<lambda>(_, t). assistant_text t) (turns s')),
           child_is_error = False\<rparr>
      | LoopOk True \<Rightarrow> \<lparr>child_output = ''request cancelled'', child_is_error = True\<rparr>
      | LoopErr e \<Rightarrow> \<lparr>child_output = e, child_is_error = True\<rparr>
      | LoopPanic \<Rightarrow> \<lparr>child_output = ''request worker panicked'', child_is_error = True\<rparr>)"

definition run_request_worker ::
  "u64 \<Rightarrow> worker \<Rightarrow> loop_result \<Rightarrow> session_state \<Rightarrow> session_command list \<times> (reply_chan \<times> reply_value) list" where
  "run_request_worker sid wk r s' =
     (let rid = w_request_id wk;
          snap = (case r of LoopPanic \<Rightarrow> snapshot (w_session wk) | _ \<Rightarrow> snapshot s');
          announce =
            (case r of
               LoopOk False \<Rightarrow>
                 [BroadcastMsg (Session (Some sid)
                    (Done rid (Some (cfg_accumulated_usage (config s')))
                       (cfg_last_prompt_tokens (config s'))))]
             | LoopErr e \<Rightarrow> [BroadcastMsg (Session (Some sid) (Failed rid e))]
             | LoopPanic \<Rightarrow> [BroadcastMsg (Session (Some sid) (Failed rid ''request worker panicked''))]
             | LoopOk True \<Rightarrow> [])
      in (announce @ [RequestFinished rid snap],
          case w_child_reply wk of
            None \<Rightarrow> []
          | Some ch \<Rightarrow> [(ch, ChildReply (Inr (child_reply_of r s')))]))"

section \<open>Joining an exiting thread\<close>

text \<open>
  \<^verbatim>\<open>shutdown_join_poll\<close> with its injected clock: \<open>finished i\<close> and \<open>now i\<close> are the answers of
  the \<open>i\<close>-th round, in milliseconds. The result is the verdict and the round it fell in;
  \<open>None\<close> means the fuel did not suffice.
\<close>

fun shutdown_join_poll ::
  "nat \<Rightarrow> (nat \<Rightarrow> bool) \<Rightarrow> (nat \<Rightarrow> nat) \<Rightarrow> nat \<Rightarrow> nat \<Rightarrow> (bool \<times> nat) option" where
  "shutdown_join_poll 0 finished now deadline i = None"
| "shutdown_join_poll (Suc fuel) finished now deadline i =
     (if finished i then Some (True, i)
      else
        let remaining = deadline - now i
        in if remaining = 0 then Some (False, i)
           else shutdown_join_poll fuel finished now deadline (i + 1))"

text \<open>The time the loop sleeps before its next round.\<close>

definition poll_sleep :: "(nat \<Rightarrow> nat) \<Rightarrow> nat \<Rightarrow> nat \<Rightarrow> nat" where
  "poll_sleep now deadline i = min (deadline - now i) 50"

end
