(* ===== verification/Session_Frame.thy ===== *)
theory Session_Frame
  imports Session_Loop
begin

text \<open>
  What the handlers of the session thread leave alone. Most of them are compositions of a
  few primitive effects: a message to the daemon, a broadcast, a reply, a write of the
  session record, a change of the configuration. The locale \<open>effect_relation\<close> is the
  interface of a relation between worlds that every such effect respects; every
  configuration handler then respects it. It is interpreted on the relations the theorems
  need: the frame of the conversation, the safety of deliveries, the balance of the
  counters.
\<close>

section \<open>Primitive effects\<close>

lemma to_daemon_frame [simp]:
  "st (to_daemon ctx c w) = st w"
  "shutdown_requested (to_daemon ctx c w) = shutdown_requested w"
  "sdb (to_daemon ctx c w) = sdb w"
  "snet (to_daemon ctx c w) = snet w"
  "replies (to_daemon ctx c w) = replies w"
  "spawned (to_daemon ctx c w) = spawned w"
  by (simp_all add: to_daemon_def)

lemma to_daemon_out:
  "daemon_out (to_daemon ctx c w) = daemon_out w @ (if ctx_daemon_connected ctx then [c] else [])"
  by (simp add: to_daemon_def)

lemma send_reply_frame [simp]:
  "st (send_reply ch v w) = st w"
  "shutdown_requested (send_reply ch v w) = shutdown_requested w"
  "sdb (send_reply ch v w) = sdb w"
  "snet (send_reply ch v w) = snet w"
  "daemon_out (send_reply ch v w) = daemon_out w"
  "replies (send_reply ch v w) = replies w @ [(ch, v)]"
  "spawned (send_reply ch v w) = spawned w"
  by (simp_all add: send_reply_def)

lemma fold_to_daemon_frame [simp]:
  "st (fold (\<lambda>c. to_daemon ctx (f c)) cs w) = st w"
  "shutdown_requested (fold (\<lambda>c. to_daemon ctx (f c)) cs w) = shutdown_requested w"
  "sdb (fold (\<lambda>c. to_daemon ctx (f c)) cs w) = sdb w"
  "snet (fold (\<lambda>c. to_daemon ctx (f c)) cs w) = snet w"
  "replies (fold (\<lambda>c. to_daemon ctx (f c)) cs w) = replies w"
  "spawned (fold (\<lambda>c. to_daemon ctx (f c)) cs w) = spawned w"
  by (induction cs arbitrary: w) simp_all

lemma fold_to_daemon_out:
  "daemon_out (fold (\<lambda>c. to_daemon ctx (f c)) cs w) =
     daemon_out w @ (if ctx_daemon_connected ctx then map f cs else [])"
  by (induction cs arbitrary: w) (simp_all add: to_daemon_out)

text \<open>
  A broadcast reports to the daemon, hands the message to every subscriber, drops the dead
  ones and asks for the eviction of the lagging ones; nothing else changes.
\<close>

definition live_subscribers :: "net \<Rightarrow> (u64, sink) hmap \<Rightarrow> (u64, sink) hmap" where
  "live_subscribers n subs = filter (\<lambda>(c, k). receiver_alive (chans n k)) subs"

lemma broadcast_state_eq:
  "st (broadcast ctx m w) = (st w)\<lparr>subscribers := live_subscribers (snet w) (subscribers (st w))\<rparr>"
  using fan_out_retains [of "subscribers (st w)" m "ctx_lag_limits ctx" "\<lambda>_. False" "snet w"]
  by (simp add: broadcast_def Let_def case_prod_unfold live_subscribers_def)

lemma broadcast_delivers:
  "delivers (snet w) (snet (broadcast ctx m w)) (copies (subscribers (st w)) (\<lambda>_. False) m)"
  using fan_out_delivers [of "snet w" "subscribers (st w)" m "ctx_lag_limits ctx" "\<lambda>_. False"]
  by (simp add: broadcast_def Let_def case_prod_unfold)

lemma broadcast_frame [simp]:
  "config (st (broadcast ctx m w)) = config (st w)"
  "next_turn_id (st (broadcast ctx m w)) = next_turn_id (st w)"
  "last_undo_turn_ids (st (broadcast ctx m w)) = last_undo_turn_ids (st w)"
  "turns (st (broadcast ctx m w)) = turns (st w)"
  "active_requests (st (broadcast ctx m w)) = active_requests (st w)"
  "provider (st (broadcast ctx m w)) = provider (st w)"
  "loaded_skill_bodies (st (broadcast ctx m w)) = loaded_skill_bodies (st w)"
  "context_cache (st (broadcast ctx m w)) = context_cache (st w)"
  "discovered_skills (st (broadcast ctx m w)) = discovered_skills (st w)"
  "subscribers (st (broadcast ctx m w)) = live_subscribers (snet w) (subscribers (st w))"
  "shutdown_requested (broadcast ctx m w) = shutdown_requested w"
  "sdb (broadcast ctx m w) = sdb w"
  "replies (broadcast ctx m w) = replies w"
  "spawned (broadcast ctx m w) = spawned w"
  by (simp_all add: broadcast_state_eq) (simp_all add: broadcast_def Let_def case_prod_unfold)

lemma broadcast_alive [simp]:
  "receiver_alive (chans (snet (broadcast ctx m w)) k) = receiver_alive (chans (snet w) k)"
  by (rule delivers_alive [OF broadcast_delivers])

lemma live_subscribers_simps [simp]:
  "live_subscribers n (live_subscribers n subs) = live_subscribers n subs"
  "live_subscribers (snet (broadcast ctx m w)) subs = live_subscribers (snet w) subs"
  "hm_wf subs \<Longrightarrow> hm_wf (live_subscribers n subs)"
  by (auto simp: live_subscribers_def hm_wf_def distinct_map_filter)

lemma live_subscribers_subset: "set (live_subscribers n subs) \<subseteq> set subs"
  by (simp add: live_subscribers_def)

lemma persist_record_frame [simp]:
  "st (persist_record ctx w) = st w"
  "shutdown_requested (persist_record ctx w) = shutdown_requested w"
  "snet (persist_record ctx w) = snet w"
  "daemon_out (persist_record ctx w) = daemon_out w"
  "replies (persist_record ctx w) = replies w"
  "spawned (persist_record ctx w) = spawned w"
  "db_turns (sdb (persist_record ctx w)) = db_turns (sdb w)"
  "db_faults (sdb w) = [] \<Longrightarrow> db_faults (sdb (persist_record ctx w)) = []"
  by (simp_all add: persist_record_def write_session_retry_db)

lemma touch_frame [simp]:
  "config (touch now s) = (config s)\<lparr>cfg_last_modified := max (cfg_last_modified (config s)) now\<rparr>"
  "next_turn_id (touch now s) = next_turn_id s"
  "last_undo_turn_ids (touch now s) = last_undo_turn_ids s"
  "turns (touch now s) = turns s"
  "active_requests (touch now s) = active_requests s"
  "provider (touch now s) = provider s"
  "subscribers (touch now s) = subscribers s"
  by (simp_all add: touch_def)

section \<open>The interface of an effect relation\<close>

text \<open>
  The configuration changes a handler makes: the modification time never goes back, and
  the creation time, the parent and the context settings are fixed for life.
\<close>

definition config_step :: "(session_config \<Rightarrow> session_config) \<Rightarrow> bool" where
  "config_step f \<longleftrightarrow> (\<forall>c. cfg_last_modified c \<le> cfg_last_modified (f c)
     \<and> cfg_created_at (f c) = cfg_created_at c
     \<and> cfg_parent_session_id (f c) = cfg_parent_session_id c
     \<and> cfg_context_config (f c) = cfg_context_config c)"

locale effect_relation =
  fixes R :: "session_world \<Rightarrow> session_world \<Rightarrow> bool"
  assumes R_refl: "R w w"
    and R_trans: "R w w' \<Longrightarrow> R w' w'' \<Longrightarrow> R w w''"
    and R_to_daemon: "R w (to_daemon ctx c w)"
    and R_reply: "R w (send_reply ch v w)"
    and R_broadcast: "message_safe m \<Longrightarrow> R w (broadcast ctx m w)"
    and R_persist: "R w (persist_record ctx w)"
    and R_config: "config_step f \<Longrightarrow> R w (upd_st (upd_config f) w)"
    and R_provider: "R w (upd_st (\<lambda>s. s\<lparr>provider := p\<rparr>) w)"
    and R_skills: "R w (upd_st (\<lambda>s. s\<lparr>discovered_skills := d\<rparr>) w)"
begin

lemma R_config_then: "config_step f \<Longrightarrow> R (upd_st (upd_config f) w) w' \<Longrightarrow> R w w'"
  using R_trans [OF R_config] by blast

lemma R_event:
  assumes "message_safe (Session None ev)"
  shows "R w (broadcast_event ctx ev w)"
proof -
  have "message_safe (Session (Some (ctx_session_id ctx)) ev)" using assms by (cases ev) simp_all
  then show ?thesis by (simp add: broadcast_event_def origin_event_def R_broadcast)
qed

lemma R_update_metadata: "R w (update_metadata ctx w)"
  by (simp add: update_metadata_def R_to_daemon)

lemma R_touch: "R w (upd_st (touch now) w)"
  using R_config [of "\<lambda>c. c\<lparr>cfg_last_modified := max (cfg_last_modified c) now\<rparr>" w]
  by (simp add: touch_def config_step_def)

lemma R_persist_metadata: "R w (persist_session_metadata ctx w)"
  unfolding persist_session_metadata_def
  by (rule R_trans [OF R_touch R_trans [OF R_update_metadata R_persist]])

lemma R_announce_window: "R w (announce_window ctx cw w)"
proof -
  have c: "R w (upd_st (upd_config (\<lambda>c. c\<lparr>cfg_context_window := cw\<rparr>)) w)"
    by (rule R_config) (simp add: config_step_def)
  show ?thesis
  proof (cases cw)
    case None
    then show ?thesis using c by (simp add: announce_window_def)
  next
    case (Some n)
    have "R w (broadcast_event ctx (ContextWindowResolved n)
        (upd_st (upd_config (\<lambda>c. c\<lparr>cfg_context_window := cw\<rparr>)) w))"
      by (rule R_trans [OF c R_event]) simp
    then show ?thesis using Some by (simp add: announce_window_def)
  qed
qed

lemma R_resolve_window: "R w (resolve_context_window_if_missing ctx w)"
proof -
  have "R w (broadcast_event ctx (ContextWindowResolved cw)
      (upd_st (upd_config (\<lambda>c. c\<lparr>cfg_context_window := Some cw\<rparr>)) w))" for cw
    by (rule R_config_then [OF _ R_event]) (simp_all add: config_step_def)
  then show ?thesis
    by (auto simp: resolve_context_window_if_missing_def R_refl split: option.splits)
qed

lemma R_fail_request: "R w (fst (fail_request ctx rid err w))"
  unfolding fail_request_def fst_conv
  by (rule R_trans [OF R_event R_event]) simp_all

lemma R_obtain_provider: "R w (fst (obtain_provider ctx w))"
proof -
  have p: "R w (resolve_context_window_if_missing ctx
      (upd_st (\<lambda>s. s\<lparr>provider := Some p\<rparr>) (to_daemon ctx (D_ResolveProviderCmd name) w)))" for p name
    by (rule R_trans [OF R_to_daemon R_trans [OF R_provider R_resolve_window]])
  show ?thesis
    using p by (auto simp: obtain_provider_def Let_def R_refl R_to_daemon split: option.splits)
qed

lemma R_set_model: "R w (fst (handle_set_model ctx model w))"
proof (cases "validate_model_via_daemon ctx model w")
  case (Pair w1 res)
  then have w1: "R w w1"
    by (auto simp: validate_model_via_daemon_def R_refl R_to_daemon split: if_splits)
  show ?thesis
  proof (cases res)
    case (Inl msg)
    then show ?thesis using Pair by (simp add: handle_set_model_def R_trans [OF w1 R_event])
  next
    case (Inr u)
    let ?w2 = "upd_st (upd_config (\<lambda>c. c\<lparr>cfg_selected_model := Some model\<rparr>)) w1"
    let ?w3 = "announce_window ctx (Option.bind (provider (st ?w2)) (\<lambda>p. resolve_context_window p model)) ?w2"
    let ?off = "broadcast_event ctx (ReasoningEffortSet ''off'')
       (upd_st (upd_config (\<lambda>c. c\<lparr>cfg_reasoning_effort := Some ''off''\<rparr>)) ?w3)"
    have w3: "R w ?w3"
      by (rule R_trans [OF w1 R_config_then [OF _ R_announce_window]]) (simp add: config_step_def)
    have "R ?w3 ?off"
      by (rule R_config_then [OF _ R_event]) (simp_all add: config_step_def)
    then have w4: "R w (if b then ?off else ?w3)" for b using w3 R_trans by auto
    show ?thesis
      unfolding handle_set_model_def Pair Inr Let_def prod.case sum.case fst_conv
      by (rule R_trans [OF R_trans [OF w4 R_event] R_persist_metadata]) simp
  qed
qed

lemma R_status_changed: "R w (fst (handle_status_changed ctx s w))"
  unfolding handle_status_changed_def Let_def fst_conv
  by (rule R_trans [OF _ R_to_daemon], rule R_config_then [OF _ R_event])
     (simp_all add: config_step_def)

lemma R_sync_usage: "R w (fst (handle_sync_accumulated_usage ctx u l w))"
proof -
  let ?w1 = "upd_st (upd_config (\<lambda>c. c\<lparr>cfg_accumulated_usage := merge_max (cfg_accumulated_usage c) u\<rparr>)) w"
  have w1: "R w ?w1" by (rule R_config) (simp add: config_step_def)
  have w2: "R w (case l of Some n \<Rightarrow> upd_st (upd_config (\<lambda>c. c\<lparr>cfg_last_prompt_tokens := Some n\<rparr>)) ?w1
      | None \<Rightarrow> ?w1)"
  proof (cases l)
    case (Some n)
    have "R w (upd_st (upd_config (\<lambda>c. c\<lparr>cfg_last_prompt_tokens := Some n\<rparr>)) ?w1)"
      by (rule R_trans [OF w1 R_config]) (simp add: config_step_def)
    then show ?thesis using Some by simp
  qed (use w1 in simp)
  show ?thesis
    unfolding handle_sync_accumulated_usage_def Let_def fst_conv
    by (rule R_trans [OF R_trans [OF w2 R_event] R_update_metadata]) simp
qed

lemma R_set_title: "R w (fst (handle_set_title ctx title w))"
proof -
  have "R w (broadcast_event ctx (SessionTitleSet title)
      (upd_st (upd_config (\<lambda>c. c\<lparr>cfg_title := Some title\<rparr>)) w))"
    by (rule R_config_then [OF _ R_event]) (simp_all add: config_step_def)
  then show ?thesis
    by (auto simp: handle_set_title_def Let_def R_refl intro: R_trans R_persist_metadata)
qed

lemma R_set_working_dir: "R w (fst (handle_set_working_dir ctx path reply w))"
  unfolding handle_set_working_dir_def Let_def fst_conv
  by (rule R_config_then [OF _ R_trans [OF R_skills
        R_trans [OF R_event R_trans [OF R_persist_metadata R_reply]]]])
     (simp_all add: config_step_def)

lemma R_change_groups: "R w (fst (change_groups f ctx gs reply w))"
proof -
  have "R w (send_reply reply v (persist_session_metadata ctx (broadcast_state ctx
      (upd_st (upd_config (\<lambda>c. c\<lparr>cfg_active_tool_groups := g\<rparr>)) w))))" for g v
    unfolding broadcast_state_def
    by (rule R_config_then [OF _ R_trans [OF R_broadcast R_trans [OF R_persist_metadata R_reply]]])
       (simp_all add: config_step_def)
  then show ?thesis
    by (auto simp: change_groups_def Let_def R_reply case_prod_unfold split: option.splits)
qed

lemma R_set_account: "R w (fst (handle_set_account ctx name w))"
proof -
  let ?w1 = "to_daemon ctx (D_ResolveProviderCmd name) w"
  have p: "R w (upd_st (\<lambda>s. s\<lparr>provider := Some p\<rparr>)
      (case m of Some model \<Rightarrow> announce_window ctx (resolve_context_window p model) ?w1 | None \<Rightarrow> ?w1))"
    for p m
    by (rule R_trans [OF _ R_provider])
       (auto intro: R_trans [OF R_to_daemon R_announce_window] R_to_daemon split: option.splits)
  have "R w (case r of Some (Some p) \<Rightarrow> upd_st (\<lambda>s. s\<lparr>provider := Some p\<rparr>)
      (case m of Some model \<Rightarrow> announce_window ctx (resolve_context_window p model) ?w1 | None \<Rightarrow> ?w1)
      | _ \<Rightarrow> ?w1)" for r m
    using p R_to_daemon by (auto split: option.splits)
  then show ?thesis
    unfolding handle_set_account_def Let_def fst_conv
    by (rule R_trans [OF _ R_config_then [OF _ R_trans [OF R_event R_persist_metadata]]])
       (simp_all add: config_step_def)
qed

lemma R_set_reasoning_effort: "R w (fst (handle_set_reasoning_effort ctx e w))"
proof -
  have "R w (broadcast_event ctx (ReasoningEffortSet e)
      (upd_st (upd_config (\<lambda>c. c\<lparr>cfg_reasoning_effort := Some e\<rparr>)) w))"
    by (rule R_config_then [OF _ R_event]) (simp_all add: config_step_def)
  then show ?thesis
    by (auto simp: handle_set_reasoning_effort_def Let_def intro: R_event)
qed

lemmas R_config_handlers =
  R_set_model R_status_changed R_sync_usage R_set_title R_set_working_dir R_change_groups
  R_set_account R_set_reasoning_effort

end

end
