(* ===== verification/Session_Safety.thy ===== *)
theory Session_Safety
  imports Session_Frame
begin

text \<open>
  Safety of the session thread, over \<open>process_command\<close>: which commands touch the
  conversation, what reaches the clients, when the thread ends, and the invariant of its
  state.
\<close>

section \<open>The conversation is left alone by configuration commands\<close>

text \<open>
  \<open>same_conversation\<close>: the turns, their numbering, the undo record, the running requests and
  the stored turns are untouched; the fixed settings are fixed, the modification time does
  not go back, subscribers are at most lost.
\<close>

definition same_conversation :: "session_world \<Rightarrow> session_world \<Rightarrow> bool" where
  "same_conversation w w' \<longleftrightarrow>
     turns (st w') = turns (st w) \<and> next_turn_id (st w') = next_turn_id (st w)
     \<and> last_undo_turn_ids (st w') = last_undo_turn_ids (st w)
     \<and> active_requests (st w') = active_requests (st w)
     \<and> shutdown_requested w' = shutdown_requested w \<and> spawned w' = spawned w
     \<and> db_turns (sdb w') = db_turns (sdb w)
     \<and> cfg_last_modified (config (st w)) \<le> cfg_last_modified (config (st w'))
     \<and> cfg_created_at (config (st w')) = cfg_created_at (config (st w))
     \<and> cfg_parent_session_id (config (st w')) = cfg_parent_session_id (config (st w))
     \<and> cfg_context_config (config (st w')) = cfg_context_config (config (st w))
     \<and> set (subscribers (st w')) \<subseteq> set (subscribers (st w))
     \<and> (hm_wf (subscribers (st w)) \<longrightarrow> hm_wf (subscribers (st w')))"

lemma same_conversation_refl: "same_conversation w w"
  by (simp add: same_conversation_def)

lemma same_conversation_trans:
  "same_conversation w w' \<Longrightarrow> same_conversation w' w'' \<Longrightarrow> same_conversation w w''"
  unfolding same_conversation_def by (elim conjE, intro conjI) simp_all

lemma broadcast_same_conversation: "same_conversation w (broadcast ctx m w)"
  using live_subscribers_subset [of "snet w" "subscribers (st w)"]
  by (simp add: same_conversation_def)

interpretation conv: effect_relation same_conversation
proof unfold_locales
  show "same_conversation w (upd_st (upd_config f) w)" if "config_step f" for w f
    using that by (simp add: same_conversation_def config_step_def)
qed (simp_all add: same_conversation_refl broadcast_same_conversation,
     blast intro: same_conversation_trans, simp_all add: same_conversation_def)

section \<open>What reaches the clients\<close>

text \<open>
  \<open>safe_delivery K\<close>: if every subscriber's sink is in \<open>K\<close>, then it stays so, and the only
  effect on the queues is the delivery of client-safe messages to sinks of \<open>K\<close>.
\<close>

definition sinks :: "session_world \<Rightarrow> sink set" where
  "sinks w = snd ` set (subscribers (st w))"

definition safe_delivery :: "sink set \<Rightarrow> session_world \<Rightarrow> session_world \<Rightarrow> bool" where
  "safe_delivery K w w' \<longleftrightarrow>
     (sinks w \<subseteq> K \<longrightarrow> sinks w' \<subseteq> K
        \<and> (\<exists>d. delivers (snet w) (snet w') d \<and> (\<forall>k. d k \<noteq> [] \<longrightarrow> k \<in> K)
             \<and> (\<forall>k. \<forall>m \<in> set (d k). message_safe m)))"

lemma safe_delivery_same:
  "snet w' = snet w \<Longrightarrow> sinks w' \<subseteq> sinks w \<Longrightarrow> safe_delivery K w w'"
  unfolding safe_delivery_def by (auto intro!: exI [of _ "\<lambda>_. []"] delivers_refl)

lemma safe_delivery_trans:
  assumes "safe_delivery K w w'" and "safe_delivery K w' w''"
  shows "safe_delivery K w w''"
  unfolding safe_delivery_def
proof (intro impI conjI)
  assume K: "sinks w \<subseteq> K"
  from assms K show "sinks w'' \<subseteq> K" by (simp add: safe_delivery_def)
  from assms K obtain d e where "delivers (snet w) (snet w') d" "delivers (snet w') (snet w'') e"
    and d: "\<forall>k. d k \<noteq> [] \<longrightarrow> k \<in> K" "\<forall>k. e k \<noteq> [] \<longrightarrow> k \<in> K"
      "\<forall>k. \<forall>m \<in> set (d k). message_safe m" "\<forall>k. \<forall>m \<in> set (e k). message_safe m"
    unfolding safe_delivery_def by blast
  then have "delivers (snet w) (snet w'') (\<lambda>k. d k @ e k)" by (blast intro: delivers_trans)
  with d show "\<exists>d. delivers (snet w) (snet w'') d \<and> (\<forall>k. d k \<noteq> [] \<longrightarrow> k \<in> K)
      \<and> (\<forall>k. \<forall>m \<in> set (d k). message_safe m)"
    by (intro exI [of _ "\<lambda>k. d k @ e k"]) auto
qed

lemma sinks_broadcast: "sinks (broadcast ctx m w) \<subseteq> sinks w"
  using live_subscribers_subset [of "snet w" "subscribers (st w)"] by (auto simp: sinks_def)

lemma broadcast_safe_delivery:
  assumes "message_safe m"
  shows "safe_delivery K w (broadcast ctx m w)"
  unfolding safe_delivery_def
proof (intro impI conjI exI)
  assume K: "sinks w \<subseteq> K"
  show "sinks (broadcast ctx m w) \<subseteq> K" using sinks_broadcast K by blast
  show "delivers (snet w) (snet (broadcast ctx m w)) (copies (subscribers (st w)) (\<lambda>_. False) m)"
    by (rule broadcast_delivers)
  show "\<forall>k. copies (subscribers (st w)) (\<lambda>_. False) m k \<noteq> [] \<longrightarrow> k \<in> K"
    using copies_support [of "subscribers (st w)" "\<lambda>_. False" m] K by (auto simp: sinks_def)
  show "\<forall>k. \<forall>m' \<in> set (copies (subscribers (st w)) (\<lambda>_. False) m k). message_safe m'"
    using assms by (simp add: copies_def)
qed

interpretation safe: effect_relation "safe_delivery K" for K
proof unfold_locales
  show "safe_delivery K w w''" if "safe_delivery K w w'" "safe_delivery K w' w''" for w w' w''
    using that by (rule safe_delivery_trans)
  show "safe_delivery K w (broadcast ctx m w)" if "message_safe m" for w ctx m
    using that by (rule broadcast_safe_delivery)
qed (simp_all add: safe_delivery_same sinks_def)

lemma send_direct_safe_delivery:
  assumes "message_safe m"
  shows "safe_delivery K w (send_direct c m w)"
proof (cases "map_of (subscribers (st w)) c")
  case None
  then show ?thesis by (simp add: send_direct_def safe_delivery_same)
next
  case (Some k)
  then have "k \<in> sinks w" by (force simp: sinks_def dest: map_of_SomeD)
  then show ?thesis
    using Some assms raw.send_delivers [of "snet w" k m]
    by (auto simp: send_direct_def safe_delivery_def sinks_def one_def split: if_splits
        intro!: exI [of _ "one k m"])
qed

section \<open>The frame of the other handlers\<close>

lemma broadcast_event_frame [simp]:
  "config (st (broadcast_event ctx ev w)) = config (st w)"
  "next_turn_id (st (broadcast_event ctx ev w)) = next_turn_id (st w)"
  "last_undo_turn_ids (st (broadcast_event ctx ev w)) = last_undo_turn_ids (st w)"
  "turns (st (broadcast_event ctx ev w)) = turns (st w)"
  "active_requests (st (broadcast_event ctx ev w)) = active_requests (st w)"
  "provider (st (broadcast_event ctx ev w)) = provider (st w)"
  "loaded_skill_bodies (st (broadcast_event ctx ev w)) = loaded_skill_bodies (st w)"
  "context_cache (st (broadcast_event ctx ev w)) = context_cache (st w)"
  "discovered_skills (st (broadcast_event ctx ev w)) = discovered_skills (st w)"
  "subscribers (st (broadcast_event ctx ev w)) = live_subscribers (snet w) (subscribers (st w))"
  "shutdown_requested (broadcast_event ctx ev w) = shutdown_requested w"
  "sdb (broadcast_event ctx ev w) = sdb w"
  "replies (broadcast_event ctx ev w) = replies w"
  "spawned (broadcast_event ctx ev w) = spawned w"
  by (simp_all add: broadcast_event_def)

definition request_worker ::
  "u32 \<Rightarrow> inference_provider \<Rightarrow> string \<Rightarrow> reply_chan option \<Rightarrow> string option \<Rightarrow> session_state \<Rightarrow> worker" where
  "request_worker rid p model reply text s =
     \<lparr>w_request_id = rid, w_provider = p, w_session = from_snapshot (snapshot s) [],
      w_model = model, w_child_reply = reply, w_user_text = text\<rparr>"

lemma snapshot_cong:
  "config s = config s' \<Longrightarrow> turns s = turns s' \<Longrightarrow> loaded_skill_bodies s = loaded_skill_bodies s'
   \<Longrightarrow> context_cache s = context_cache s' \<Longrightarrow> discovered_skills s = discovered_skills s'
   \<Longrightarrow> snapshot s = snapshot s'"
  by (simp add: snapshot_def)

lemma start_request_frame [simp]:
  "config (st (start_request ctx rid p model reply text w)) = config (st w)"
  "next_turn_id (st (start_request ctx rid p model reply text w)) = next_turn_id (st w)"
  "last_undo_turn_ids (st (start_request ctx rid p model reply text w)) = last_undo_turn_ids (st w)"
  "turns (st (start_request ctx rid p model reply text w)) = turns (st w)"
  "active_requests (st (start_request ctx rid p model reply text w)) =
     bt_insert rid \<lparr>cancels_sent = 0, ar_turn_id = next_turn_id (st w)\<rparr> (active_requests (st w))"
  "subscribers (st (start_request ctx rid p model reply text w)) =
     live_subscribers (snet w) (subscribers (st w))"
  "shutdown_requested (start_request ctx rid p model reply text w) = shutdown_requested w"
  "sdb (start_request ctx rid p model reply text w) = sdb w"
  "snet (start_request ctx rid p model reply text w) =
     snet (broadcast_event ctx (Started rid (next_turn_id (st w)) 0) w)"
  "spawned (start_request ctx rid p model reply text w) =
     spawned w @ [request_worker rid p model reply text (st w)]"
  by (simp_all add: start_request_def Let_def request_worker_def)
     (simp add: snapshot_def)

lemma start_request_safe: "safe_delivery K w (start_request ctx rid p model reply text w)"
proof -
  let ?b = "broadcast_event ctx (Started rid (next_turn_id (st w)) 0) w"
  have "safe_delivery K w ?b" by (rule safe.R_event) simp
  moreover have "safe_delivery K ?b (start_request ctx rid p model reply text w)"
    by (rule safe_delivery_same) (simp_all add: sinks_def)
  ultimately show ?thesis by (rule safe_delivery_trans)
qed

definition bump_cancel :: "active_request \<Rightarrow> active_request" where
  "bump_cancel a = a\<lparr>cancels_sent := cancels_sent a + 1\<rparr>"

lemma cancel_one_frame [simp]:
  "config (st (cancel_one ctx rid w)) = config (st w)"
  "next_turn_id (st (cancel_one ctx rid w)) = next_turn_id (st w)"
  "last_undo_turn_ids (st (cancel_one ctx rid w)) = last_undo_turn_ids (st w)"
  "turns (st (cancel_one ctx rid w)) = turns (st w)"
  "shutdown_requested (cancel_one ctx rid w) = shutdown_requested w"
  "sdb (cancel_one ctx rid w) = sdb w"
  "spawned (cancel_one ctx rid w) = spawned w"
  by (simp_all add: cancel_one_def split: option.splits)

lemma cancel_one_requests [simp]:
  "active_requests (st (cancel_one ctx rid w)) = map_at rid bump_cancel (active_requests (st w))"
proof (cases "map_of (active_requests (st w)) rid")
  case None
  then have "rid \<notin> set (keys (active_requests (st w)))" by (simp add: map_of_eq_None_iff)
  then show ?thesis using None by (simp add: cancel_one_def map_at_absent)
next
  case (Some a)
  moreover have "bump_cancel = (\<lambda>a. a\<lparr>cancels_sent := cancels_sent a + 1\<rparr>)"
    by (simp add: fun_eq_iff bump_cancel_def)
  ultimately show ?thesis by (simp add: cancel_one_def)
qed

lemma cancel_one_subscribers:
  "set (subscribers (st (cancel_one ctx rid w))) \<subseteq> set (subscribers (st w))"
  "hm_wf (subscribers (st w)) \<Longrightarrow> hm_wf (subscribers (st (cancel_one ctx rid w)))"
  using live_subscribers_subset [of "snet w" "subscribers (st w)"]
  by (simp_all add: cancel_one_def split: option.splits)

lemma cancel_one_safe: "safe_delivery K w (cancel_one ctx rid w)"
proof (cases "map_of (active_requests (st w)) rid")
  case None
  then show ?thesis by (simp add: cancel_one_def safe_delivery_same)
next
  case (Some a)
  let ?u = "upd_st (\<lambda>s. s\<lparr>active_requests :=
      map_at rid (\<lambda>a. a\<lparr>cancels_sent := cancels_sent a + 1\<rparr>) (active_requests s)\<rparr>) w"
  have "safe_delivery K w ?u" by (rule safe_delivery_same) (simp_all add: sinks_def)
  moreover have "safe_delivery K ?u (broadcast_event ctx (Cancelled rid) ?u)"
    by (rule safe.R_event) simp
  ultimately have "safe_delivery K w (broadcast_event ctx (Cancelled rid) ?u)"
    by (rule safe_delivery_trans)
  then show ?thesis using Some by (simp add: cancel_one_def)
qed

lemma fold_cancel_frame [simp]:
  "config (st (fold (cancel_one ctx) rids w)) = config (st w)"
  "next_turn_id (st (fold (cancel_one ctx) rids w)) = next_turn_id (st w)"
  "last_undo_turn_ids (st (fold (cancel_one ctx) rids w)) = last_undo_turn_ids (st w)"
  "turns (st (fold (cancel_one ctx) rids w)) = turns (st w)"
  "shutdown_requested (fold (cancel_one ctx) rids w) = shutdown_requested w"
  "sdb (fold (cancel_one ctx) rids w) = sdb w"
  "spawned (fold (cancel_one ctx) rids w) = spawned w"
  "keys (active_requests (st (fold (cancel_one ctx) rids w))) = keys (active_requests (st w))"
  by (induction rids arbitrary: w) simp_all

lemma fold_cancel_subscribers:
  "set (subscribers (st (fold (cancel_one ctx) rids w))) \<subseteq> set (subscribers (st w))"
  "hm_wf (subscribers (st w)) \<Longrightarrow> hm_wf (subscribers (st (fold (cancel_one ctx) rids w)))"
proof (induction rids arbitrary: w)
  case (Cons rid rids)
  { case 1 then show ?case using Cons.IH(1) [of "cancel_one ctx rid w"] cancel_one_subscribers(1) by fastforce }
  { case 2 then show ?case using Cons.IH(2) [of "cancel_one ctx rid w"] cancel_one_subscribers(2) by simp }
qed simp_all

lemma fold_cancel_safe: "safe_delivery K w (fold (cancel_one ctx) rids w)"
proof (induction rids arbitrary: w)
  case Nil
  show ?case by (simp add: safe_delivery_same)
next
  case (Cons rid rids)
  show ?case using safe_delivery_trans [OF cancel_one_safe Cons.IH] by simp
qed

lemma fold_cancel_requests:
  "map_of (active_requests (st (fold (cancel_one ctx) rids w))) rid =
     map_option (bump_cancel ^^ count_list rids rid) (map_of (active_requests (st w)) rid)"
  by (induction rids arbitrary: w)
    (auto simp: option.map_comp o_def funpow_swap1 option.map_ident id_def intro!: option.map_cong0)

lemma send_direct_frame [simp]:
  "st (send_direct c m w) = st w"
  "shutdown_requested (send_direct c m w) = shutdown_requested w"
  "sdb (send_direct c m w) = sdb w"
  "daemon_out (send_direct c m w) = daemon_out w"
  "spawned (send_direct c m w) = spawned w"
  by (simp_all add: send_direct_def split: option.splits)

lemma fold_send_direct_frame [simp]:
  "st (fold (\<lambda>x. send_direct c (f x)) xs w) = st w"
  "shutdown_requested (fold (\<lambda>x. send_direct c (f x)) xs w) = shutdown_requested w"
  "sdb (fold (\<lambda>x. send_direct c (f x)) xs w) = sdb w"
  "daemon_out (fold (\<lambda>x. send_direct c (f x)) xs w) = daemon_out w"
  "spawned (fold (\<lambda>x. send_direct c (f x)) xs w) = spawned w"
  by (induction xs arbitrary: w) simp_all

lemma fold_send_direct_safe:
  "(\<And>x. message_safe (f x)) \<Longrightarrow> safe_delivery K w (fold (\<lambda>x. send_direct c (f x)) xs w)"
proof (induction xs arbitrary: w)
  case Nil
  show ?case by (simp add: safe_delivery_same)
next
  case (Cons x xs)
  show ?case
    using safe_delivery_trans [OF send_direct_safe_delivery Cons.IH] Cons.prems by simp
qed

lemma persist_turns_frame [simp]:
  "st (persist_turns ctx ids w) = st w"
  "shutdown_requested (persist_turns ctx ids w) = shutdown_requested w"
  "snet (persist_turns ctx ids w) = snet w"
  "spawned (persist_turns ctx ids w) = spawned w"
  "daemon_out (persist_turns ctx ids w) = daemon_out w"
  unfolding persist_turns_def
  by (induction ids arbitrary: w) (simp_all split: option.splits)

text \<open>What an undo does to the state of the thread.\<close>

lemma handle_undo_None:
  "undo_target (turns (st w)) = None \<Longrightarrow> handle_undo ctx w = (w, False)"
  by (simp add: handle_undo_def undo_turns_def)

lemma handle_undo_Some:
  assumes "undo_turns (st w) = (s', Some ids)"
  obtains w1 where "handle_undo ctx w = (broadcast_event ctx (TurnsUndone ids) (persist_turns ctx ids w1), False)"
    and "st w1 = s'\<lparr>config := (config s')\<lparr>cfg_last_response_id := None,
           cfg_last_response_id_producer := (if cfg_last_response_id (config s') \<noteq> None then None
             else cfg_last_response_id_producer (config s'))\<rparr>\<rparr>"
    and "snet w1 = snet w" "shutdown_requested w1 = shutdown_requested w" "spawned w1 = spawned w"
    and "db_turns (sdb w1) = db_turns (sdb w)" "db_faults (sdb w) = [] \<Longrightarrow> db_faults (sdb w1) = []"
proof -
  let ?clear = "upd_config (\<lambda>c. c\<lparr>cfg_last_response_id := None, cfg_last_response_id_producer := None\<rparr>)"
  let ?w1 = "if cfg_last_response_id (config s') \<noteq> None
     then persist_record ctx (w\<lparr>st := ?clear s'\<rparr>) else w\<lparr>st := s'\<rparr>"
  have "(config s')\<lparr>cfg_last_response_id := None\<rparr> = config s'" if "cfg_last_response_id (config s') = None"
    using that by (cases "config s'") simp
  then have "s'\<lparr>config := (config s')\<lparr>cfg_last_response_id := None\<rparr>\<rparr> = s'"
    if "cfg_last_response_id (config s') = None"
    using that by (cases s') simp
  then show thesis using assms by (intro that [of ?w1]) (simp_all add: handle_undo_def)
qed

lemma undo_turns_frame:
  "config (fst (undo_turns s)) = config s" "next_turn_id (fst (undo_turns s)) = next_turn_id s"
  "active_requests (fst (undo_turns s)) = active_requests s"
  "subscribers (fst (undo_turns s)) = subscribers s"
  "keys (turns (fst (undo_turns s))) = keys (turns s)"
  by (simp_all add: undo_turns_def Let_def split: option.splits)

lemma redo_turns_frame:
  "config (fst (redo_turns s)) = config s" "next_turn_id (fst (redo_turns s)) = next_turn_id s"
  "active_requests (fst (redo_turns s)) = active_requests s"
  "subscribers (fst (redo_turns s)) = subscribers s"
  "keys (turns (fst (redo_turns s))) = keys (turns s)"
  by (simp_all add: redo_turns_def Let_def split: option.splits)

lemma handle_undo_frame [simp]:
  "next_turn_id (st (fst (handle_undo ctx w))) = next_turn_id (st w)"
  "active_requests (st (fst (handle_undo ctx w))) = active_requests (st w)"
  "keys (turns (st (fst (handle_undo ctx w)))) = keys (turns (st w))"
  "shutdown_requested (fst (handle_undo ctx w)) = shutdown_requested w"
  "spawned (fst (handle_undo ctx w)) = spawned w"
  "cfg_last_modified (config (st (fst (handle_undo ctx w)))) = cfg_last_modified (config (st w))"
  "snd (handle_undo ctx w) = False"
  using undo_turns_frame [of "st w"]
  by (simp_all add: handle_undo_def Let_def case_prod_unfold split: option.splits)

lemma handle_redo_frame [simp]:
  "next_turn_id (st (fst (handle_redo ctx w))) = next_turn_id (st w)"
  "active_requests (st (fst (handle_redo ctx w))) = active_requests (st w)"
  "keys (turns (st (fst (handle_redo ctx w)))) = keys (turns (st w))"
  "shutdown_requested (fst (handle_redo ctx w)) = shutdown_requested w"
  "spawned (fst (handle_redo ctx w)) = spawned w"
  "config (st (fst (handle_redo ctx w))) = config (st w)"
  "snd (handle_redo ctx w) = False"
  using redo_turns_frame [of "st w"]
  by (simp_all add: handle_redo_def Let_def case_prod_unfold split: option.splits)

lemma subscribers_undo_redo:
  "subscribers (st (fst (handle_undo ctx w))) \<in> {subscribers (st w), live_subscribers (snet w) (subscribers (st w))}"
  "subscribers (st (fst (handle_redo ctx w))) \<in> {subscribers (st w), live_subscribers (snet w) (subscribers (st w))}"
  using undo_turns_frame [of "st w"] redo_turns_frame [of "st w"]
  by (auto simp: handle_undo_def handle_redo_def Let_def case_prod_unfold split: option.splits)

lemma undo_redo_safe:
  "safe_delivery K w (fst (handle_undo ctx w))" "safe_delivery K w (fst (handle_redo ctx w))"
proof -
  show "safe_delivery K w (fst (handle_undo ctx w))"
  proof (cases "undo_turns (st w)")
    case (Pair s' r)
    have sub: "subscribers s' = subscribers (st w)" using undo_turns_frame(4) [of "st w"] Pair by simp
    show ?thesis
    proof (cases r)
      case None
      then show ?thesis
        using Pair sub by (simp add: handle_undo_def safe_delivery_same sinks_def)
    next
      case (Some ids)
      have u: "undo_turns (st w) = (s', Some ids)" using Pair Some by simp
      obtain w1 where h: "handle_undo ctx w = (broadcast_event ctx (TurnsUndone ids) (persist_turns ctx ids w1), False)"
        and s: "subscribers (st w1) = subscribers s'" "snet w1 = snet w"
        by (rule handle_undo_Some [OF u, of ctx], rule that, assumption, simp_all)
      have "safe_delivery K w (persist_turns ctx ids w1)"
        by (rule safe_delivery_same) (simp_all add: s sub sinks_def)
      moreover have "safe_delivery K (persist_turns ctx ids w1) (fst (handle_undo ctx w))"
        unfolding h fst_conv by (rule safe.R_event) simp
      ultimately show ?thesis by (rule safe_delivery_trans)
    qed
  qed
  show "safe_delivery K w (fst (handle_redo ctx w))"
  proof (cases "redo_turns (st w)")
    case (Pair s' r)
    have sub: "subscribers s' = subscribers (st w)" using redo_turns_frame(4) [of "st w"] Pair by simp
    show ?thesis
    proof (cases r)
      case None
      then show ?thesis
        using Pair sub by (simp add: handle_redo_def safe_delivery_same sinks_def)
    next
      case (Some ts)
      let ?w2 = "w\<lparr>st := s', sdb := fold (\<lambda>(i, t) d. fst (write_turn_retry (ctx_session_id ctx) i t d)) ts (sdb w)\<rparr>"
      have "safe_delivery K w ?w2"
        by (rule safe_delivery_same) (simp_all add: sub sinks_def)
      moreover have "safe_delivery K ?w2 (broadcast_event ctx (TurnsRedone (clients_turns ts)) ?w2)"
        by (rule safe.R_event) (use clients_turns_safe in simp)
      ultimately have "safe_delivery K w (broadcast_event ctx (TurnsRedone (clients_turns ts)) ?w2)"
        by (rule safe_delivery_trans)
      then show ?thesis using Pair Some by (simp add: handle_redo_def)
    qed
  qed
qed

section \<open>The end of a request\<close>

lemma merge_turn_turns:
  "fst (merge_turn sid (i, t) (ts, d)) =
     (case map_of ts i of
        Some live \<Rightarrow> if undone live \<and> \<not> undone t then ts else bt_insert i t ts
      | None \<Rightarrow> bt_insert i t ts)"
  by (simp add: merge_turn_def Let_def split: option.splits)

text \<open>Merging a snapshot whose turns have distinct ids: each turn is taken over unless the
  live one was undone meanwhile.\<close>

lemma merge_turns_lookup:
  assumes "distinct (keys snap)"
  shows "map_of (fst (merge_turns sid snap (ts, d))) i =
    (case map_of snap i of
       None \<Rightarrow> map_of ts i
     | Some t \<Rightarrow> (case map_of ts i of
                   Some live \<Rightarrow> if undone live \<and> \<not> undone t then Some live else Some t
                 | None \<Rightarrow> Some t))"
  using assms
proof (induction snap arbitrary: ts d)
  case Nil
  show ?case by (simp add: merge_turns_def)
next
  case (Cons it snap)
  obtain j t where it: "it = (j, t)" by (cases it)
  let ?m = "merge_turn sid (j, t) (ts, d)"
  have "fst (merge_turns sid (it # snap) (ts, d)) = fst (merge_turns sid snap (fst ?m, snd ?m))"
    by (simp add: merge_turns_def it)
  moreover have "map_of snap j = None" using Cons.prems it by (simp add: map_of_eq_None_iff)
  ultimately show ?case
    using Cons.prems it
    by (simp add: Cons.IH merge_turn_turns split: option.splits)
qed

lemma merge_turns_wf: "bt_wf ts \<Longrightarrow> bt_wf (fst (merge_turns sid snap (ts, d)))"
proof (induction snap arbitrary: ts d)
  case Nil
  then show ?case by (simp add: merge_turns_def)
next
  case (Cons it snap)
  obtain j t where it: "it = (j, t)" by (cases it)
  let ?m = "merge_turn sid (j, t) (ts, d)"
  have "bt_wf (fst ?m)" using Cons.prems by (auto simp: merge_turn_turns bt_wf_insert split: option.splits)
  from Cons.IH [OF this, of "snd ?m"] show ?case by (simp add: merge_turns_def it)
qed

lemma merge_turns_keys: "set (keys (fst (merge_turns sid snap (ts, d)))) = set (keys ts) \<union> set (keys snap)"
proof (induction snap arbitrary: ts d)
  case Nil
  show ?case by (simp add: merge_turns_def)
next
  case (Cons it snap)
  obtain j t where it: "it = (j, t)" by (cases it)
  let ?m = "merge_turn sid (j, t) (ts, d)"
  have "set (keys (fst ?m)) = insert j (set (keys ts))"
    by (auto simp: merge_turn_turns simp del: set_map split: option.splits)
       (metis map_of_eq_None_iff option.distinct(1) set_map)
  with Cons.IH [of "fst ?m" "snd ?m"] show ?case by (simp add: merge_turns_def it del: set_map)
qed

lemma request_finished_frame [simp]:
  "turns (st (fst (handle_request_finished ctx rid sn w))) =
     fst (merge_turns (ctx_session_id ctx) (snap_turns sn)
       (turns (st w), sdb (persist_record ctx (upd_st (touch (ctx_now ctx)) (upd_st (upd_config (\<lambda>c. apply_worker_snapshot c
         (if undo_during_request (turns (st w)) (snap_turns sn)
          then (snap_config sn)\<lparr>cfg_last_response_id := None, cfg_last_response_id_producer := None\<rparr>
          else snap_config sn))) w)))))"
  "next_turn_id (st (fst (handle_request_finished ctx rid sn w))) =
     advance_next_turn_id (snap_turns sn) (next_turn_id (st w))"
  "last_undo_turn_ids (st (fst (handle_request_finished ctx rid sn w))) = last_undo_turn_ids (st w)"
  "active_requests (st (fst (handle_request_finished ctx rid sn w))) =
     AList.delete rid (active_requests (st w))"
  "subscribers (st (fst (handle_request_finished ctx rid sn w))) =
     live_subscribers (snet w) (subscribers (st w))"
  "shutdown_requested (fst (handle_request_finished ctx rid sn w)) = shutdown_requested w"
  "spawned (fst (handle_request_finished ctx rid sn w)) = spawned w"
  by (simp_all add: handle_request_finished_def Let_def update_metadata_def del: if_split)

lemma request_finished_exit:
  "snd (handle_request_finished ctx rid sn w) = can_exit (fst (handle_request_finished ctx rid sn w))"
  by (simp add: handle_request_finished_def Let_def)

lemma request_finished_config:
  "config (st (fst (handle_request_finished ctx rid sn w))) =
     (apply_worker_snapshot (config (st w))
        (if undo_during_request (turns (st w)) (snap_turns sn)
         then (snap_config sn)\<lparr>cfg_last_response_id := None, cfg_last_response_id_producer := None\<rparr>
         else snap_config sn))
       \<lparr>cfg_last_modified := max (cfg_last_modified (config (st w))) (ctx_now ctx), cfg_status := Inactive\<rparr>"
  by (simp add: handle_request_finished_def Let_def update_metadata_def apply_worker_snapshot_def)

lemma request_finished_safe: "safe_delivery K w (fst (handle_request_finished ctx rid sn w))"
proof -
  obtain w9 where h: "fst (handle_request_finished ctx rid sn w) =
      to_daemon ctx (D_BroadcastSessionStatus (ctx_session_id ctx) Inactive)
        (broadcast_event ctx (SessionStatusChanged Inactive (ctx_now ctx)) w9)"
    and s: "snet w9 = snet w" "subscribers (st w9) = subscribers (st w)"
    by (simp add: handle_request_finished_def Let_def update_metadata_def del: if_split)
  have "safe_delivery K w w9" by (rule safe_delivery_same) (simp_all add: s sinks_def)
  moreover have "safe_delivery K w9 (fst (handle_request_finished ctx rid sn w))"
    unfolding h by (rule safe_delivery_trans [OF safe.R_event safe.R_to_daemon]) simp
  ultimately show ?thesis by (rule safe_delivery_trans)
qed

section \<open>Attaching\<close>

lemma handle_attach_frame [simp]:
  "st (fst (handle_attach ctx c tx w)) = (st w)\<lparr>subscribers := AList.update c tx (subscribers (st w))\<rparr>"
  "shutdown_requested (fst (handle_attach ctx c tx w)) = shutdown_requested w"
  "sdb (fst (handle_attach ctx c tx w)) = sdb w"
  "spawned (fst (handle_attach ctx c tx w)) = spawned w"
  "snd (handle_attach ctx c tx w) = False"
  by (simp_all add: handle_attach_def Let_def case_prod_unfold)

text \<open>The messages an attaching client is sent: one \<^verbatim>\<open>Started\<close> per running request, then the
  snapshot of the session.\<close>

definition attach_messages :: "request_ctx \<Rightarrow> session_state \<Rightarrow> daemon_message list" where
  "attach_messages ctx s =
     map (\<lambda>(rid, a). origin_event ctx (Started rid (ar_turn_id a) 0)) (active_requests s)
     @ [session_state_message (ctx_capability ctx) (ctx_session_id ctx) s]"

lemma fold_send_direct_net:
  assumes "map_of (subscribers (st w)) c = Some k"
  shows "snet (fold (\<lambda>x. send_direct c (f x)) xs w) = raw.send_seq k (map f xs) (snet w)"
  using assms
proof (induction xs arbitrary: w)
  case Nil
  show ?case by (simp add: raw.send_seq_def del: send_unchecked_net)
next
  case (Cons x xs)
  then show ?case by (simp add: raw.send_seq_def send_direct_def del: send_unchecked_net)
qed

lemma handle_attach_net:
  "snet (fst (handle_attach ctx c tx w)) = raw.send_seq tx (attach_messages ctx (st w)) (snet w)"
proof -
  let ?w2 = "to_daemon ctx (D_TrackSessionSubscription c (ctx_session_id ctx))
      (upd_st (\<lambda>s. s\<lparr>subscribers := AList.update c tx (subscribers s)\<rparr>) w)"
  let ?f = "\<lambda>x. origin_event ctx (Started (fst x) (ar_turn_id (snd x)) 0)"
  let ?w3 = "fold (\<lambda>x. send_direct c (?f x)) (active_requests (st w)) ?w2"
  have sub: "map_of (subscribers (st ?w2)) c = Some tx" by (simp add: update_conv')
  have "snet ?w3 = raw.send_seq tx (map ?f (active_requests (st w))) (snet w)"
    using fold_send_direct_net [OF sub, of ?f "active_requests (st w)"]
    by (simp del: send_unchecked_net)
  moreover have "session_state_message (ctx_capability ctx) (ctx_session_id ctx) (st ?w3)
      = session_state_message (ctx_capability ctx) (ctx_session_id ctx) (st w)"
    by (simp add: session_state_message_def session_capability_def)
  ultimately show ?thesis
    using sub
    by (simp add: handle_attach_def Let_def case_prod_unfold send_direct_def attach_messages_def
        raw.send_seq_def del: send_unchecked_net)
qed

lemma set_update_subset: "set (AList.update k v m) \<subseteq> insert (k, v) (set m)"
  by (induction m) auto

lemma attach_messages_safe: "m \<in> set (attach_messages ctx s) \<Longrightarrow> message_safe m"
  by (auto simp: attach_messages_def origin_event_def)

lemma handle_attach_safe: "tx \<in> K \<Longrightarrow> safe_delivery K w (fst (handle_attach ctx c tx w))"
  unfolding safe_delivery_def
proof (intro impI conjI exI)
  assume tx: "tx \<in> K" and K: "sinks w \<subseteq> K"
  let ?d = "\<lambda>k. if k = tx then attach_messages ctx (st w) else []"
  show "sinks (fst (handle_attach ctx c tx w)) \<subseteq> K"
    using tx K set_update_subset [of c tx "subscribers (st w)"] by (force simp: sinks_def)
  show "delivers (snet w) (snet (fst (handle_attach ctx c tx w))) ?d"
    unfolding handle_attach_net by (rule raw.send_seq_delivers)
  show "\<forall>k. ?d k \<noteq> [] \<longrightarrow> k \<in> K" using tx by simp
  show "\<forall>k. \<forall>m \<in> set (?d k). message_safe m" using attach_messages_safe by auto
qed

section \<open>Every command\<close>

lemmas run_defs = handle_run_input_def handle_run_child_input_def

text \<open>A run either starts one worker, or leaves the conversation alone.\<close>

lemma run_input_cases:
  obtains (refused) w1 err where "same_conversation w w1" "safe_delivery K w w1"
      "handle_run_input ctx rid input w = fail_request ctx rid err w1"
  | (accepted) w1 p model input_text where "same_conversation w w1" "safe_delivery K w w1"
      "handle_run_input ctx rid input w = (start_request ctx rid p model None (Some input_text) w1, False)"
      "active_requests (st w1) = []" "\<not> shutdown_requested w1"
proof -
  let ?text = "trim (from_utf8_lossy (bytes_string input))"
  let ?w1 = "fst (obtain_provider ctx w)"
  have c: "same_conversation w ?w1" by (rule conv.R_obtain_provider)
  have d: "safe_delivery K w ?w1" by (rule safe.R_obtain_provider)
  show thesis
  proof (cases "?text = []")
    case True
    then show thesis
      using same_conversation_refl safe.R_refl [of K w]
      by (intro refused [of w "''empty input''"]) (simp_all add: handle_run_input_def)
  next
    case nonempty: False
    show thesis
    proof (cases "snd (obtain_provider ctx w)")
      case (Inl err)
      then show thesis using c d nonempty
        by (intro refused [of ?w1 err]) (simp_all add: handle_run_input_def case_prod_unfold Let_def)
    next
      case (Inr p)
      show thesis
      proof (cases "cfg_selected_model (config (st ?w1))")
        case None
        then show thesis using c d nonempty Inr
          by (intro refused [of ?w1 "''no model selected''"])
             (simp_all add: handle_run_input_def case_prod_unfold Let_def)
      next
        case (Some model)
        note run = handle_run_input_def case_prod_unfold Let_def
        consider "shutdown_requested ?w1" | "\<not> shutdown_requested ?w1" "active_requests (st ?w1) \<noteq> []"
          | "\<not> shutdown_requested ?w1" "active_requests (st ?w1) = []" by blast
        then show thesis
        proof cases
          case 1
          then show thesis using c d nonempty Inr Some
            by (intro refused [of ?w1 "''session is shutting down''"]) (simp_all add: run)
        next
          case 2
          then show thesis using c d nonempty Inr Some
            by (intro refused [of ?w1 "''session already has an active request''"]) (simp_all add: run)
        next
          case 3
          then show thesis using c d nonempty Inr Some
            by (intro accepted [of ?w1 p model ?text]) (simp_all add: run)
        qed
      qed
    qed
  qed
qed

lemma run_child_input_cases:
  obtains (refused) err where
      "handle_run_child_input ctx rid utext reply w = (send_reply reply (ChildReply (Inl err)) w, False)"
  | (accepted) p model where
      "handle_run_child_input ctx rid utext reply w = (start_request ctx rid p model (Some reply) utext w, False)"
      "active_requests (st w) = []" "\<not> shutdown_requested w"
proof (cases "provider (st w) = None \<or> shutdown_requested w \<or> active_requests (st w) \<noteq> []")
  case True
  then show thesis
    by (cases "provider (st w)"; cases "shutdown_requested w")
       (auto simp: handle_run_child_input_def intro: refused)
next
  case False
  then show thesis by (auto simp: handle_run_child_input_def intro: accepted)
qed

text \<open>Commands that neither run, end nor change turns.\<close>

fun is_setting :: "session_command \<Rightarrow> bool" where
  "is_setting (SetModel _) = True"
| "is_setting (StatusChanged _) = True"
| "is_setting (GetSummary _) = True"
| "is_setting (BroadcastMsg _) = True"
| "is_setting (SyncAccumulatedUsage _ _) = True"
| "is_setting (SetTitle _) = True"
| "is_setting (SetWorkingDir _ _) = True"
| "is_setting (LoadTools _ _) = True"
| "is_setting (UnloadTools _ _) = True"
| "is_setting (SetAccount _) = True"
| "is_setting (SetReasoningEffort _) = True"
| "is_setting (GetReasoningEffort _) = True"
| "is_setting _ = False"

lemma setting_same_conversation:
  "is_setting cmd \<Longrightarrow> same_conversation w (fst (process_command ctx cmd w))"
  by (cases cmd)
     (simp_all add: conv.R_config_handlers handle_load_tools_def handle_unload_tools_def
        handle_get_summary_def Let_def conv.R_reply handle_get_reasoning_effort_def
        handle_broadcast_def broadcast_same_conversation)

fun command_ok :: "sink set \<Rightarrow> session_command \<Rightarrow> bool" where
  "command_ok K (Attach _ tx) = (tx \<in> K)"
| "command_ok K (BroadcastMsg m) = message_safe m"
| "command_ok K _ = True"

lemma command_safe_delivery:
  assumes "command_ok K cmd"
  shows "safe_delivery K w (fst (process_command ctx cmd w))"
proof (cases cmd)
  case (RunInput rid input)
  show ?thesis
  proof (cases rule: run_input_cases [where w = w and K = K and ctx = ctx and rid = rid and input = input])
    case (refused w1 err)
    then show ?thesis using RunInput safe_delivery_trans [OF refused(2) safe.R_fail_request] by simp
  next
    case (accepted w1 p model input_text)
    then show ?thesis using RunInput safe_delivery_trans [OF accepted(2) start_request_safe] by simp
  qed
next
  case (RunChildInput rid t reply)
  then show ?thesis
    by (cases rule: run_child_input_cases [where w = w and ctx = ctx and rid = rid and utext = t and reply = reply]) (simp_all add: safe.R_reply start_request_safe)
next
  case (Detach c)
  then show ?thesis
    by (simp add: handle_detach_def Let_def, intro safe_delivery_same)
       (auto simp: sinks_def AList.delete_eq)
next
  case (RemoveSubscriber c)
  then show ?thesis
    by (simp add: handle_remove_subscriber_def Let_def, intro safe_delivery_same)
       (auto simp: sinks_def AList.delete_eq)
next
  case Shutdown
  have "safe_delivery K w (w\<lparr>shutdown_requested := True\<rparr>)"
    by (rule safe_delivery_same) (simp_all add: sinks_def)
  from safe_delivery_trans [OF this fold_cancel_safe] show ?thesis
    using Shutdown by (simp add: handle_shutdown_def Let_def)
qed (use assms in \<open>simp_all add: safe.R_config_handlers handle_load_tools_def handle_unload_tools_def
        handle_get_summary_def Let_def safe.R_reply handle_get_reasoning_effort_def
        handle_broadcast_def safe.R_broadcast handle_cancel_def fold_cancel_safe undo_redo_safe
        request_finished_safe handle_attach_safe\<close>)

text \<open>The undo record belongs to undo and redo alone.\<close>

lemma undo_record_frame:
  assumes "cmd \<noteq> Undo" and "cmd \<noteq> Redo"
  shows "last_undo_turn_ids (st (fst (process_command ctx cmd w))) = last_undo_turn_ids (st w)"
proof (cases "is_setting cmd")
  case True
  then show ?thesis using setting_same_conversation [of cmd w ctx] by (simp add: same_conversation_def)
next
  case False
  show ?thesis
  proof (cases cmd)
    case (RunInput rid input)
    show ?thesis
    proof (cases rule: run_input_cases [where w = w and K = UNIV and ctx = ctx and rid = rid and input = input])
      case (refused w1 err)
      then show ?thesis
        using RunInput conv.R_fail_request [of w1 ctx rid err] by (simp add: same_conversation_def)
    qed (use RunInput in \<open>simp add: same_conversation_def\<close>)
  next
    case (RunChildInput rid t reply)
    then show ?thesis by (cases rule: run_child_input_cases [where w = w and ctx = ctx and rid = rid and utext = t and reply = reply]) simp_all
  qed (use assms False in \<open>simp_all add: handle_detach_def handle_remove_subscriber_def Let_def
        handle_shutdown_def handle_cancel_def\<close>)
qed

end
