(* ===== verification/Session_Requests.thy ===== *)
theory Session_Requests
  imports Session_Safety
begin

text \<open>
  The session thread together with the request workers it spawns. A worker runs on its own
  copy of the session (\<open>from_snapshot (snapshot s)\<close>), edits it through the methods of
  \<^verbatim>\<open>SessionState\<close>, and hands it back in a \<^verbatim>\<open>RequestFinished\<close> command; meanwhile the thread
  keeps serving other commands. The steps of thread and workers interleave freely.

  The invariant ties the two together: at most one worker runs, it is the one the thread
  has registered, the turns of both are numbered without gaps, and the worker's copy only
  extends what the thread has.
\<close>

section \<open>The system\<close>

record session_sys =
  sy_world :: session_world
  sy_running :: "(worker \<times> session_state) list"
  sy_ended :: bool

text \<open>
  One edit of a worker on its copy. A turn is started only while the 32-bit numbering has
  room.
\<close>

inductive worker_edit :: "session_state \<Rightarrow> session_state \<Rightarrow> bool" where
  edit_start: "next_turn_id s \<noteq> - 1 \<Longrightarrow> worker_edit s (fst (start_turn now t s))"
| edit_response: "worker_edit s (set_assistant_response i r s)"
| edit_seed: "worker_edit s (seed_tool_results i calls descs s)"
| edit_result: "worker_edit s (update_tool_result i c nm out s)"
| edit_mark: "worker_edit s (mark_unexecuted_tool_results i ex s)"
| edit_image: "worker_edit s (add_displayed_image i img s)"
| edit_error: "worker_edit s (set_turn_error i err s)"
| edit_config: "worker_edit s (upd_config f s)"
| edit_skills: "worker_edit s (s\<lparr>loaded_skill_bodies := b, context_cache := cc, discovered_skills := ds\<rparr>)"

fun finishes :: "session_command \<Rightarrow> bool" where
  "finishes (RequestFinished _ _) = True"
| "finishes _ = False"

definition new_workers :: "session_world \<Rightarrow> session_world \<Rightarrow> (worker \<times> session_state) list" where
  "new_workers w w' = map (\<lambda>wk. (wk, w_session wk)) (drop (length (spawned w)) (spawned w'))"

inductive sys_step :: "session_sys \<Rightarrow> session_sys \<Rightarrow> bool" where
  sys_command: "\<not> sy_ended y \<Longrightarrow> \<not> finishes cmd \<Longrightarrow>
    process_command ctx cmd (sy_world y) = (w', fin) \<Longrightarrow>
    sys_step y (y\<lparr>sy_world := w', sy_running := sy_running y @ new_workers (sy_world y) w',
                 sy_ended := fin\<rparr>)"
| sys_edit: "sy_running y = r1 @ (wk, s) # r2 \<Longrightarrow> worker_edit s s' \<Longrightarrow>
    sys_step y (y\<lparr>sy_running := r1 @ (wk, s') # r2\<rparr>)"
| sys_finish: "\<not> sy_ended y \<Longrightarrow> sy_running y = r1 @ (wk, s) # r2 \<Longrightarrow>
    process_command ctx (last (fst (run_request_worker (ctx_session_id ctx) wk res s))) (sy_world y) = (w', fin) \<Longrightarrow>
    sys_step y (y\<lparr>sy_world := w', sy_running := r1 @ r2, sy_ended := fin\<rparr>)"

definition sys_init :: "session_sys \<Rightarrow> bool" where
  "sys_init y \<longleftrightarrow> sy_running y = [] \<and> \<not> sy_ended y
     \<and> (\<exists>ctx prov account rec rows d n.
          sy_world y = session_start ctx prov account rec (Some rows) d n
          \<and> keys rows = map of_nat [0..<length rows] \<and> length rows < 2 ^ 32)"

section \<open>Start of the thread\<close>

lemma load_turn_append:
  assumes "contiguous s" and "i = next_turn_id s" and "i \<noteq> - 1"
  shows "contiguous (load_turn (i, t) s)" and "next_turn_id (load_turn (i, t) s) = i + 1"
proof -
  have u: "unat (next_turn_id s + 1) = Suc (unat (next_turn_id s))"
    using assms unatSuc [of "next_turn_id s"] by (simp add: eq_neg_iff_add_eq_0 add.commute)
  then have mx: "max (next_turn_id s) (next_turn_id s + 1) = next_turn_id s + 1"
    by (simp add: max_def word_le_nat_alt)
  then show "next_turn_id (load_turn (i, t) s) = i + 1" using assms by (simp add: load_turn_def)
  have "bt_insert (next_turn_id s) t (turns s) = turns s @ [(next_turn_id s, t)]"
    using contiguous_keys [OF assms(1)] by (intro bt_insert_last) auto
  then show "contiguous (load_turn (i, t) s)"
    using assms u mx by (simp add: contiguous_def load_turn_def)
qed

lemma fold_load_turn_contiguous:
  assumes "contiguous s" and "keys rows = map of_nat [unat (next_turn_id s)..<unat (next_turn_id s) + length rows]"
    and "unat (next_turn_id s) + length rows < 2 ^ 32"
  shows "contiguous (fold load_turn rows s)"
  using assms
proof (induction rows arbitrary: s)
  case Nil
  then show ?case by simp
next
  case (Cons it rows)
  obtain i t where it: "it = (i, t)" by (cases it)
  let ?n = "unat (next_turn_id s)"
  have "[?n..<?n + length (it # rows)] = ?n # [Suc ?n..<Suc ?n + length rows]"
    by (simp add: upt_conv_Cons del: upt_Suc)
  with Cons.prems(2) have ks: "i # keys rows = map of_nat (?n # [Suc ?n..<Suc ?n + length rows])"
    by (simp add: it del: upt_Suc)
  then have i: "i = next_turn_id s" by simp
  have "i \<noteq> - 1"
  proof
    assume "i = - 1"
    moreover have "unat (- 1 :: u32) = 2 ^ 32 - 1"
      by (simp add: unsigned_minus_1_eq_mask mask_eq_exp_minus_1)
    ultimately have "?n = 2 ^ 32 - 1" using i by simp
    then show False using Cons.prems(3) by simp
  qed
  then have s': "contiguous (load_turn (i, t) s)" "next_turn_id (load_turn (i, t) s) = i + 1"
    and u: "unat (i + 1) = Suc ?n"
    using load_turn_append [OF Cons.prems(1) i] i unatSuc [of i]
    by (simp_all add: eq_neg_iff_add_eq_0 add.commute)
  have "contiguous (fold load_turn rows (load_turn (i, t) s))"
    using Cons.prems ks s' u by (intro Cons.IH) simp_all
  then show ?case by (simp add: it)
qed

lemma fold_load_turn_cong:
  "turns s = turns s' \<Longrightarrow> next_turn_id s = next_turn_id s' \<Longrightarrow>
   turns (fold load_turn rows s) = turns (fold load_turn rows s')
   \<and> next_turn_id (fold load_turn rows s) = next_turn_id (fold load_turn rows s')"
proof (induction rows arbitrary: s s')
  case (Cons it rows)
  have "turns (load_turn it s) = turns (load_turn it s')"
    "next_turn_id (load_turn it s) = next_turn_id (load_turn it s')"
    using Cons.prems by (simp_all add: load_turn_def case_prod_unfold)
  from Cons.IH [OF this] show ?case by simp
qed simp

lemma fold_load_turn_frame:
  "active_requests (fold load_turn rows s) = active_requests s"
  "subscribers (fold load_turn rows s) = subscribers s"
  by (induction rows arbitrary: s) (simp_all add: load_turn_def case_prod_unfold)

lemma session_start_state:
  "turns (st (session_start ctx prov account rec (Some rows) d n)) = turns (fold load_turn rows session_state_empty)"
  "next_turn_id (st (session_start ctx prov account rec (Some rows) d n)) =
     next_turn_id (fold load_turn rows session_state_empty)"
  "active_requests (st (session_start ctx prov account rec (Some rows) d n)) = []"
  "subscribers (st (session_start ctx prov account rec (Some rows) d n)) = []"
  "spawned (session_start ctx prov account rec (Some rows) d n) = []"
  "\<not> shutdown_requested (session_start ctx prov account rec (Some rows) d n)"
proof -
  let ?s0 = "session_state_empty\<lparr>config := initial_config (ctx_now ctx) account rec, provider := prov\<rparr>"
  let ?w0 = "\<lparr>st = ?s0, shutdown_requested = False, sdb = d, snet = n, daemon_out = [],
                replies = [], spawned = []\<rparr>"
  let ?w1 = "resolve_context_window_if_missing ctx ?w0"
  have same: "same_conversation ?w0 ?w1" by (rule conv.R_resolve_window)
  have start: "session_start ctx prov account rec (Some rows) d n = update_metadata ctx (upd_st (load_turns rows) ?w1)"
    by (simp add: session_start_def Let_def)
  show "turns (st (session_start ctx prov account rec (Some rows) d n)) = turns (fold load_turn rows session_state_empty)"
    "next_turn_id (st (session_start ctx prov account rec (Some rows) d n)) =
     next_turn_id (fold load_turn rows session_state_empty)"
    using same fold_load_turn_cong [of "st ?w1" session_state_empty rows]
    by (simp_all add: start update_metadata_def load_turns_def Let_def same_conversation_def session_state_empty_def)
  show "active_requests (st (session_start ctx prov account rec (Some rows) d n)) = []"
    "subscribers (st (session_start ctx prov account rec (Some rows) d n)) = []"
    "spawned (session_start ctx prov account rec (Some rows) d n) = []"
    "\<not> shutdown_requested (session_start ctx prov account rec (Some rows) d n)"
    using same
    by (simp_all add: fold_load_turn_frame start update_metadata_def load_turns_def Let_def same_conversation_def session_state_empty_def)
qed

lemma session_start_contiguous:
  assumes "keys rows = map of_nat [0..<length rows]" and "length rows < 2 ^ 32"
  shows "contiguous (st (session_start ctx prov account rec (Some rows) d n))"
proof -
  have e: "contiguous session_state_empty" "next_turn_id session_state_empty = 0"
    by (simp_all add: contiguous_def session_state_empty_def)
  have "contiguous (fold load_turn rows session_state_empty)"
    using assms e by (intro fold_load_turn_contiguous) simp_all
  then show ?thesis by (simp add: contiguous_def session_start_state)
qed

section \<open>The invariant\<close>

definition request_turns :: "session_state \<Rightarrow> (u32 \<times> u32) list" where
  "request_turns s = map (\<lambda>(rid, a). (rid, ar_turn_id a)) (active_requests s)"

text \<open>The turns and the numbering of \<open>s'\<close> extend those of \<open>s\<close>.\<close>

definition extends :: "session_state \<Rightarrow> session_state \<Rightarrow> bool" where
  "extends s s' \<longleftrightarrow> contiguous s' \<and> next_turn_id s \<le> next_turn_id s'"

definition sys_inv :: "session_sys \<Rightarrow> bool" where
  "sys_inv y \<longleftrightarrow>
     (let s = st (sy_world y) in
      contiguous s \<and> hm_wf (subscribers s) \<and> length (sy_running y) \<le> 1
      \<and> request_turns s = map (\<lambda>(wk, _). (w_request_id wk, next_turn_id s)) (sy_running y)
      \<and> (\<forall>(wk, s') \<in> set (sy_running y).
           extends s s' \<and> extends s (w_session wk) \<and> next_turn_id (w_session wk) = next_turn_id s)
      \<and> (sy_ended y \<longrightarrow> sy_running y = []))"

lemma edit_contiguous:
  assumes "worker_edit s s'"
  shows "extends r s \<Longrightarrow> extends r s'"
  using assms
proof (induction rule: worker_edit.induct)
  case (edit_start s now t)
  have "next_turn_id s \<le> next_turn_id s + 1"
    using edit_start unatSuc [of "next_turn_id s"]
    by (simp add: word_le_nat_alt eq_neg_iff_add_eq_0 add.commute)
  moreover have "contiguous (fst (start_turn now t s))"
    using edit_start by (intro start_turn_contiguous) (simp_all add: extends_def)
  ultimately show ?case using edit_start(2) by (auto simp: extends_def)
qed (simp_all add: extends_def set_assistant_response_def seed_tool_results_def update_tool_result_def
      mark_unexecuted_tool_results_def add_displayed_image_def set_turn_error_def contiguous_def
      del: upd_turn_contiguous)

text \<open>What the quiet commands keep.\<close>

definition same_requests :: "session_world \<Rightarrow> session_world \<Rightarrow> bool" where
  "same_requests w w' \<longleftrightarrow>
     spawned w' = spawned w \<and> keys (turns (st w')) = keys (turns (st w))
     \<and> next_turn_id (st w') = next_turn_id (st w)
     \<and> request_turns (st w') = request_turns (st w)
     \<and> (hm_wf (subscribers (st w)) \<longrightarrow> hm_wf (subscribers (st w')))"

lemma same_conversation_requests: "same_conversation w w' \<Longrightarrow> same_requests w w'"
  by (simp add: same_conversation_def same_requests_def request_turns_def)

lemma request_turns_map_at [simp]:
  "map (\<lambda>(rid, a). (rid, ar_turn_id a)) (map_at r bump_cancel m) = map (\<lambda>(rid, a). (rid, ar_turn_id a)) m"
  by (simp add: map_at_def bump_cancel_def case_prod_unfold)

lemma fold_cancel_request_turns:
  "request_turns (st (fold (cancel_one ctx) rids w)) = request_turns (st w)"
proof (induction rids arbitrary: w)
  case (Cons r rids)
  have "request_turns (st (cancel_one ctx r w)) = request_turns (st w)" by (simp add: request_turns_def)
  with Cons.IH [of "cancel_one ctx r w"] show ?case by simp
qed simp

fun runs :: "session_command \<Rightarrow> bool" where
  "runs (RunInput _ _) = True"
| "runs (RunChildInput _ _ _) = True"
| "runs _ = False"

lemma quiet_command:
  assumes "\<not> runs cmd" and "\<not> finishes cmd"
  shows "same_requests w (fst (process_command ctx cmd w))"
proof (cases "is_setting cmd")
  case True
  then show ?thesis by (rule same_conversation_requests [OF setting_same_conversation])
next
  case False
  have sub: "hm_wf (subscribers (st w)) \<Longrightarrow> hm_wf (subscribers (st (fst (handle_undo ctx w))))"
    "hm_wf (subscribers (st w)) \<Longrightarrow> hm_wf (subscribers (st (fst (handle_redo ctx w))))"
    using subscribers_undo_redo [of ctx w] by auto
  show ?thesis
    by (cases cmd)
       (use assms False in \<open>simp_all add: same_requests_def sub handle_detach_def
          handle_remove_subscriber_def Let_def handle_shutdown_def handle_cancel_def hm_wf_update
          hm_wf_delete fold_cancel_subscribers(2) fold_cancel_request_turns\<close>,
        simp_all add: request_turns_def)
qed

text \<open>A run either changes no request, or starts the one worker.\<close>

lemma run_command:
  assumes "runs cmd"
  obtains (refused) "same_requests w (fst (process_command ctx cmd w))"
  | (accepted) w1 wk where "same_requests w w1" "active_requests (st w) = []" "\<not> shutdown_requested w"
      "wk = request_worker (w_request_id wk) (w_provider wk) (w_model wk) (w_child_reply wk) (w_user_text wk) (st w1)"
      "fst (process_command ctx cmd w) =
         start_request ctx (w_request_id wk) (w_provider wk) (w_model wk) (w_child_reply wk) (w_user_text wk) w1"
proof (cases cmd)
  case (RunInput rid input)
  show thesis
  proof (cases rule: run_input_cases [where w = w and K = UNIV and ctx = ctx and rid = rid and input = input])
    case (refused w1 err)
    have "same_conversation w (fst (fail_request ctx rid err w1))"
      by (rule same_conversation_trans [OF refused(1) conv.R_fail_request])
    then show thesis
      using RunInput refused same_conversation_requests by (intro that(1)) simp
  next
    case (accepted w1 p model input_text)
    then show thesis using RunInput
      by (intro that(2) [of w1 "request_worker rid p model None (Some input_text) (st w1)"])
         (simp_all add: request_worker_def same_conversation_requests, simp_all add: same_conversation_def)
  qed
next
  case (RunChildInput rid t reply)
  show thesis
  proof (cases rule: run_child_input_cases [where w = w and ctx = ctx and rid = rid and utext = t and reply = reply])
    case (refused err)
    then show thesis
      using RunChildInput by (intro that(1)) (simp add: same_requests_def)
  next
    case (accepted p model)
    then show thesis using RunChildInput
      by (intro that(2) [of w "request_worker rid p model (Some reply) t (st w)"])
         (simp_all add: request_worker_def same_requests_def)
  qed
qed (use assms in simp_all)

text \<open>When the thread leaves its loop.\<close>

lemma exit_state:
  assumes "snd (process_command ctx cmd w)"
  shows "active_requests (st (fst (process_command ctx cmd w))) = []
    \<and> (subscribers (st (fst (process_command ctx cmd w))) = []
       \<or> shutdown_requested (fst (process_command ctx cmd w)))"
proof (cases cmd)
  case (RunInput rid input)
  have "\<not> snd (handle_run_input ctx rid input w)"
    by (cases rule: run_input_cases [where w = w and K = UNIV and ctx = ctx and rid = rid and input = input])
       (simp_all add: fail_request_def)
  then show ?thesis using assms RunInput by simp
next
  case (RunChildInput rid t reply)
  have "\<not> snd (handle_run_child_input ctx rid t reply w)"
    by (cases rule: run_child_input_cases [where w = w and ctx = ctx and rid = rid and utext = t and reply = reply])
       simp_all
  then show ?thesis using assms RunChildInput by simp
next
  case (RequestFinished rid sn)
  then show ?thesis using assms
    by (simp add: request_finished_exit can_exit_def del: request_finished_frame)
next
  case (SetModel m)
  then show ?thesis using assms
    by (simp add: handle_set_model_def Let_def case_prod_unfold split: sum.splits)
next
  case (SetTitle t)
  then show ?thesis using assms by (simp add: handle_set_title_def Let_def split: if_splits)
next
  case (LoadTools gs r)
  then show ?thesis using assms
    by (simp add: handle_load_tools_def change_groups_def Let_def case_prod_unfold split: option.splits)
next
  case (UnloadTools gs r)
  then show ?thesis using assms
    by (simp add: handle_unload_tools_def change_groups_def Let_def case_prod_unfold split: option.splits)
next
  case (SetReasoningEffort e)
  then show ?thesis using assms by (simp add: handle_set_reasoning_effort_def Let_def split: if_splits)
next
  case Shutdown
  have "shutdown_requested (fst (handle_shutdown ctx w))" by (simp add: handle_shutdown_def Let_def)
  then show ?thesis using assms Shutdown by (simp add: handle_shutdown_def Let_def)
qed (use assms in \<open>simp_all add: handle_cancel_def handle_status_changed_def handle_detach_def can_exit_def
      handle_remove_subscriber_def handle_get_summary_def handle_broadcast_def Let_def
      handle_sync_accumulated_usage_def handle_set_working_dir_def handle_set_account_def
      handle_get_reasoning_effort_def\<close>)

lemma quiet_step_inv:
  assumes inv: "sys_inv y" and same: "same_requests (sy_world y) w'"
    and fin: "fin \<Longrightarrow> active_requests (st w') = []"
  shows "sys_inv (y\<lparr>sy_world := w', sy_running := sy_running y @ new_workers (sy_world y) w', sy_ended := fin\<rparr>)"
proof -
  have "new_workers (sy_world y) w' = []" using same by (simp add: same_requests_def new_workers_def)
  moreover have "contiguous (st w') \<longleftrightarrow> contiguous (st (sy_world y))"
    using same by (simp add: same_requests_def contiguous_def)
  moreover have "extends (st w') s = extends (st (sy_world y)) s" for s
    using same by (simp add: same_requests_def extends_def)
  moreover have "fin \<Longrightarrow> sy_running y = []"
    using fin inv same by (auto simp: sys_inv_def Let_def same_requests_def request_turns_def)
  ultimately show ?thesis using inv same by (auto simp: sys_inv_def Let_def same_requests_def)
qed

lemma extends_worker: "contiguous s \<Longrightarrow> extends s (from_snapshot (snapshot s) subs)"
  by (simp add: extends_def worker_contiguous worker_next_turn_id)

lemma command_step_inv:
  assumes inv: "sys_inv y" and fc: "\<not> finishes cmd"
    and run: "process_command ctx cmd (sy_world y) = (w', fin)"
  shows "sys_inv (y\<lparr>sy_world := w', sy_running := sy_running y @ new_workers (sy_world y) w', sy_ended := fin\<rparr>)"
proof -
  let ?w = "sy_world y"
  have ex: "fin \<Longrightarrow> active_requests (st w') = []" using exit_state [of ctx cmd ?w] run by simp
  show ?thesis
  proof (cases "runs cmd")
    case False
    then show ?thesis
      using quiet_step_inv [OF inv _ ex] quiet_command [OF False fc, of ?w ctx] run by simp
  next
    case True
    show ?thesis
    proof (cases rule: run_command [OF True, where w = ?w and ctx = ctx])
      case 1
      then show ?thesis using quiet_step_inv [OF inv _ ex] run by simp
    next
      case (2 w1 wk)
      from 2 inv have idle: "sy_running y = []" by (simp add: sys_inv_def Let_def request_turns_def)
      have c: "contiguous (st w1)" using 2(1) inv by (simp add: same_requests_def sys_inv_def Let_def contiguous_def)
      have w': "w' = start_request ctx (w_request_id wk) (w_provider wk) (w_model wk) (w_child_reply wk) (w_user_text wk) w1"
        using 2(5) run by simp
      have a1: "active_requests (st w1) = []" using 2(1,2) by (simp add: same_requests_def request_turns_def)
      have nw: "new_workers ?w w' = [(wk, w_session wk)]"
        using 2(1) 2(4) by (simp add: new_workers_def w' same_requests_def)
      have ws: "w_session wk = from_snapshot (snapshot (st w1)) []"
        by (subst 2(4)) (simp add: request_worker_def)
      have st': "next_turn_id (st w') = next_turn_id (st w1)" "turns (st w') = turns (st w1)"
        "active_requests (st w') = [(w_request_id wk, \<lparr>cancels_sent = 0, ar_turn_id = next_turn_id (st w1)\<rparr>)]"
        by (simp_all add: w' a1)
      have "contiguous (st w')" using c by (simp add: contiguous_def st')
      moreover have "extends (st w') (w_session wk)" "next_turn_id (w_session wk) = next_turn_id (st w')"
        using extends_worker [OF c] worker_next_turn_id [OF c] by (simp_all add: ws st' extends_def)
      moreover have "hm_wf (subscribers (st w'))"
        using inv 2(1) by (simp add: w' sys_inv_def Let_def same_requests_def)
      moreover have "\<not> fin" using ex st' by auto
      ultimately show ?thesis by (simp add: sys_inv_def Let_def nw idle request_turns_def st')
    qed
  qed
qed

section \<open>The end of a request\<close>

lemma advance_contiguous:
  assumes c: "contiguous s" and n: "n \<le> next_turn_id s"
  shows "advance_next_turn_id (turns s) n = next_turn_id s"
proof (cases "turns s")
  case Nil
  then have "next_turn_id s = 0" using contiguous_length [OF c] by (simp add: unat_eq_0)
  then show ?thesis using Nil n by (simp add: advance_next_turn_id_def)
next
  case (Cons it ts)
  then have nz: "next_turn_id s \<noteq> 0" using contiguous_length [OF c] by auto
  then have u: "unat (next_turn_id s) = Suc (unat (next_turn_id s - 1))"
    using unatSuc [of "next_turn_id s - 1"] by simp
  have "Max (set (keys (turns s))) = next_turn_id s - 1"
  proof (rule Max_eqI)
    show "next_turn_id s - 1 \<in> set (keys (turns s))"
      using nz u by (simp add: contiguous_keys [OF c] word_less_nat_alt del: set_map)
    show "i \<le> next_turn_id s - 1" if "i \<in> set (keys (turns s))" for i
      using that u by (simp add: contiguous_keys [OF c] word_less_nat_alt word_le_nat_alt del: set_map)
  qed simp
  then show ?thesis using Cons n by (simp add: advance_next_turn_id_def max_def)
qed

text \<open>Both outcomes of a worker hand back a session that extends the thread's.\<close>

lemma worker_result:
  "last (fst (run_request_worker sid wk res s)) =
     RequestFinished (w_request_id wk)
       (snapshot (case res of LoopPanic \<Rightarrow> w_session wk | _ \<Rightarrow> s))"
  by (simp add: run_request_worker_def Let_def split: loop_result.splits)

lemma sorted_keys_eqI:
  "bt_wf m \<Longrightarrow> bt_wf m' \<Longrightarrow> set (keys m) = set (keys m') \<Longrightarrow> keys m = keys m'"
  by (simp add: bt_wf_def strict_sorted_equal del: set_map)

lemma finish_step_inv:
  assumes inv: "sys_inv y" and r: "sy_running y = r1 @ (wk, s) # r2"
    and run: "process_command ctx (last (fst (run_request_worker (ctx_session_id ctx) wk res s))) (sy_world y) = (w', fin)"
  shows "sys_inv (y\<lparr>sy_world := w', sy_running := r1 @ r2, sy_ended := fin\<rparr>)"
proof -
  let ?w = "sy_world y" and ?s = "case res of LoopPanic \<Rightarrow> w_session wk | _ \<Rightarrow> s"
  have one: "r1 = []" "r2 = []" using inv r by (simp_all add: sys_inv_def Let_def)
  have c: "contiguous (st ?w)" and req: "request_turns (st ?w) = [(w_request_id wk, next_turn_id (st ?w))]"
    and e: "extends (st ?w) ?s"
    using inv r one by (simp_all add: sys_inv_def Let_def split: loop_result.splits)
  have w': "w' = fst (handle_request_finished ctx (w_request_id wk) (snapshot ?s) ?w)"
    using run by (simp add: worker_result)
  have snap: "snap_turns (snapshot ?s) = turns ?s" by (simp add: snapshot_def)
  have act: "active_requests (st w') = []"
    using req by (auto simp: w' request_turns_def)
  have nt: "next_turn_id (st w') = next_turn_id ?s"
    using e by (simp add: w' snap extends_def advance_contiguous)
  obtain d where ts: "turns (st w') = fst (merge_turns (ctx_session_id ctx) (turns ?s) (turns (st ?w), d))"
    by (simp add: w' snap)
  have "keys (turns (st w')) = keys (turns ?s)"
  proof (rule sorted_keys_eqI)
    show "bt_wf (turns (st w'))" unfolding ts by (rule merge_turns_wf [OF contiguous_bt_wf [OF c]])
    show "bt_wf (turns ?s)" using e by (simp add: extends_def contiguous_bt_wf)
    have "i < next_turn_id (st ?w) \<Longrightarrow> i < next_turn_id ?s" for i
      using e by (auto simp: extends_def)
    then show "set (keys (turns (st w'))) = set (keys (turns ?s))"
      using c e by (auto simp: ts merge_turns_keys contiguous_keys extends_def simp del: set_map)
  qed
  then have "contiguous (st w')" using e nt by (simp add: contiguous_def extends_def)
  moreover have "hm_wf (subscribers (st w'))" using inv by (simp add: w' sys_inv_def Let_def)
  ultimately show ?thesis using act one by (simp add: sys_inv_def Let_def request_turns_def)
qed

lemma sys_step_inv: "sys_step y z \<Longrightarrow> sys_inv y \<Longrightarrow> sys_inv z"
proof (induction rule: sys_step.induct)
  case (sys_command y cmd ctx w' fin)
  then show ?case by (intro command_step_inv)
next
  case (sys_edit y r1 wk s r2 s')
  then have "extends (st (sy_world y)) s'"
    by (intro edit_contiguous [OF sys_edit(2)]) (simp add: sys_inv_def Let_def)
  then show ?case using sys_edit by (simp add: sys_inv_def Let_def)
next
  case (sys_finish y r1 wk s r2 ctx res w' fin)
  then show ?case by (intro finish_step_inv)
qed

lemma sys_init_inv: "sys_init y \<Longrightarrow> sys_inv y"
  by (auto simp: sys_init_def sys_inv_def Let_def session_start_contiguous session_start_state
      request_turns_def)

interpretation sys: stepping_system sys_init sys_step sys_inv
  by unfold_locales (auto intro: sys_init_inv sys_step_inv)

end
