(* ===== verification/Session_Theorems.thy ===== *)
theory Session_Theorems
  imports Session_Requests
begin

text \<open>
  The properties of the session thread: numbering of turns and predicted turn ids, at most
  one request, what clients receive, undo and redo through the thread and the database,
  merging, shutdown, settings.
\<close>

section \<open>A concrete session\<close>

text \<open>A context and a freshly started session, on which the properties are exercised.\<close>

definition demo_provider :: inference_provider where
  "demo_provider = \<lparr>provider_slug = ''demo'', resolve_context_window = (\<lambda>_. None)\<rparr>"

definition demo_ctx :: request_ctx where
  "demo_ctx = \<lparr>ctx_session_id = 7, ctx_lag_limits = lag_limits_default, ctx_now = 100,
     ctx_daemon_connected = True, ctx_resolve_provider = (\<lambda>_. None), ctx_validate_model = (\<lambda>_. None),
     ctx_capability = (\<lambda>_ _. \<lparr>available_effort_levels = [''low'', ''high'']\<rparr>),
     ctx_known_groups = [''core'', ''git'', ''shell'', ''web''], ctx_graphemes = length,
     ctx_list_fmt = join '', ''\<rparr>"

definition demo_db :: db where
  "demo_db = \<lparr>db_sessions = (\<lambda>_. None), db_turns = (\<lambda>_. None), db_tombstones = {}, db_faults = []\<rparr>"

definition demo_start :: session_world where
  "demo_start = session_start demo_ctx (Some demo_provider) None None (Some []) demo_db net_new"

definition demo_sys :: session_sys where
  "demo_sys = \<lparr>sy_world = demo_start, sy_running = [], sy_ended = False\<rparr>"

lemma demo_start_simps:
  "turns (st demo_start) = []" "next_turn_id (st demo_start) = 0"
  "active_requests (st demo_start) = []" "subscribers (st demo_start) = []"
  "spawned demo_start = []" "\<not> shutdown_requested demo_start"
  "provider (st demo_start) = Some demo_provider"
  "cfg_selected_model (config (st demo_start)) = None"
  "snet demo_start = net_new" "sdb demo_start = demo_db"
  "last_undo_turn_ids (st demo_start) = None"
  by (simp_all add: demo_start_def session_start_def Let_def resolve_context_window_if_missing_def
      initial_config_def load_turns_def session_state_empty_def update_metadata_def)

lemma demo_reachable: "reachable sys_init sys_step demo_sys"
proof (rule reachable_init)
  show "sys_init demo_sys"
    unfolding sys_init_def
    by (simp add: demo_sys_def demo_start_def)
       (intro exI conjI, rule refl, simp_all)
qed

text \<open>A child request on it: the session then has a running worker.\<close>

definition demo_busy :: session_world where
  "demo_busy = fst (process_command demo_ctx (RunChildInput 3 (Some ''go'') 0) demo_start)"

definition demo_worker :: worker where
  "demo_worker = request_worker 3 demo_provider [] (Some 0) (Some ''go'') (st demo_start)"

definition demo_busy_sys :: session_sys where
  "demo_busy_sys = \<lparr>sy_world = demo_busy, sy_running = [(demo_worker, w_session demo_worker)], sy_ended = False\<rparr>"

lemma demo_busy_eq:
  "process_command demo_ctx (RunChildInput 3 (Some ''go'') 0) demo_start =
     (start_request demo_ctx 3 demo_provider [] (Some 0) (Some ''go'') demo_start, False)"
  by (simp add: handle_run_child_input_def demo_start_simps)

lemma demo_busy_simps:
  "turns (st demo_busy) = []" "next_turn_id (st demo_busy) = 0"
  "active_requests (st demo_busy) = [(3, \<lparr>cancels_sent = 0, ar_turn_id = 0\<rparr>)]"
  "subscribers (st demo_busy) = []" "spawned demo_busy = [demo_worker]"
  "\<not> shutdown_requested demo_busy" "sdb demo_busy = demo_db"
  by (simp_all add: demo_busy_def demo_busy_eq demo_start_simps demo_worker_def
      live_subscribers_def del: process_command.simps)

lemma demo_busy_reachable: "reachable sys_init sys_step demo_busy_sys"
proof (rule reachable_step [OF demo_reachable])
  have "process_command demo_ctx (RunChildInput 3 (Some ''go'') 0) (sy_world demo_sys) = (demo_busy, False)"
    by (simp add: demo_busy_def demo_sys_def demo_busy_eq del: process_command.simps)
  from sys_command [OF _ _ this] show "sys_step demo_sys demo_busy_sys"
    by (simp add: demo_sys_def demo_busy_sys_def new_workers_def demo_start_simps demo_busy_simps)
qed

section \<open>Requests\<close>

lemma sys_inv_requests:
  assumes "sys_inv y"
  shows "keys (active_requests (st (sy_world y))) = map (\<lambda>(wk, _). w_request_id wk) (sy_running y)"
proof -
  have "keys (active_requests (st (sy_world y))) = map fst (request_turns (st (sy_world y)))"
    by (simp add: request_turns_def case_prod_unfold o_def)
  also have "\<dots> = map (\<lambda>(wk, _). w_request_id wk) (sy_running y)"
    using assms by (simp add: sys_inv_def Let_def case_prod_unfold o_def)
  finally show ?thesis .
qed



text \<open>
  The turn id announced in \<^verbatim>\<open>Started\<close> is right. While a worker runs, the id the thread
  announced and replays to attaching clients is the id of the first turn that the worker
  starts on its copy, and it collides with no turn of the session.
\<close>

lemma started_turn_id_correct:
  assumes "reachable sys_init sys_step y" and "(wk, s) \<in> set (sy_running y)"
    and "map_of (active_requests (st (sy_world y))) (w_request_id wk) = Some a"
  shows "fst (snd (start_turn now t (w_session wk))) = ar_turn_id a
    \<and> ar_turn_id a \<notin> set (keys (turns (st (sy_world y))))"
proof -
  let ?s = "st (sy_world y)"
  have inv: "sys_inv y" by (rule sys.inv_reachable [OF assms(1)])
  have c: "contiguous ?s" and n: "next_turn_id (w_session wk) = next_turn_id ?s"
    using inv assms(2) by (auto simp: sys_inv_def Let_def)
  have "(w_request_id wk, ar_turn_id a) \<in> set (request_turns ?s)"
    using map_of_SomeD [OF assms(3)] by (force simp: request_turns_def)
  then have "ar_turn_id a = next_turn_id ?s" using inv by (auto simp: sys_inv_def Let_def)
  then show ?thesis using n contiguous_keys [OF c] by (simp del: set_map)
qed

lemma started_turn_id_correct_witness:
  "fst (snd (start_turn 5 (Some ''go'') (w_session demo_worker))) = 0"
  using started_turn_id_correct [OF demo_busy_reachable, of demo_worker "w_session demo_worker"
      "\<lparr>cancels_sent = 0, ar_turn_id = 0\<rparr>" 5 "Some ''go''"]
  by (simp add: demo_busy_sys_def demo_busy_simps demo_worker_def request_worker_def)

text \<open>
  The thread never abandons a worker: when it leaves its loop, no worker is running and
  no request is registered.
\<close>

lemma no_worker_left_behind:
  assumes "reachable sys_init sys_step y" and "sy_ended y"
  shows "sy_running y = [] \<and> active_requests (st (sy_world y)) = []"
  using sys_inv_requests [OF sys.inv_reachable [OF assms(1)]] sys.inv_reachable [OF assms(1)] assms(2)
  by (simp add: sys_inv_def Let_def)

lemma no_worker_left_behind_witness:
  "active_requests (st (fst (process_command demo_ctx Shutdown demo_start))) = []"
proof -
  let ?r = "process_command demo_ctx Shutdown demo_start"
  let ?y = "demo_sys\<lparr>sy_world := fst ?r, sy_running := [], sy_ended := True\<rparr>"
  have r: "?r = (fst ?r, True)" "spawned (fst ?r) = []"
    by (simp_all add: handle_shutdown_def demo_start_simps)
  have "sys_step demo_sys ?y"
    using sys_command [of demo_sys Shutdown demo_ctx "fst ?r" True] r
    by (simp add: demo_sys_def new_workers_def demo_start_simps del: process_command.simps)
  from no_worker_left_behind [OF reachable_step [OF demo_reachable this]] show ?thesis
    by (simp del: process_command.simps)
qed

section \<open>Clients\<close>



text \<open>
  The session thread keeps the lag accounting balanced: if the byte counters of a set
  of sinks that contains every subscriber agree with their queues, and the daemon-wide
  counter with their sum, they agree after every command.
\<close>

lemma session_commands_balanced:
  assumes "balanced K (snet w)" and "command_ok K cmd" and "snd ` set (subscribers (st w)) \<subseteq> K"
    and "process_command ctx cmd w = (w', fin)"
  shows "balanced K (snet w')"
proof -
  from command_safe_delivery [OF assms(2), of w ctx] assms(3,4)
  obtain d where "delivers (snet w) (snet w') d" "\<forall>k. d k \<noteq> [] \<longrightarrow> k \<in> K"
    by (auto simp: safe_delivery_def sinks_def)
  then show ?thesis by (intro delivers_balanced [OF assms(1)]) auto
qed

lemma session_commands_balanced_witness:
  "balanced {0} (snet (fst (process_command demo_ctx (Attach 1 0) demo_start)))"
  by (rule session_commands_balanced [where w = demo_start and cmd = "Attach 1 0" and ctx = demo_ctx
        and fin = "snd (process_command demo_ctx (Attach 1 0) demo_start)"])
     (simp_all add: demo_start_simps balanced_def net_new_def chan_new_def del: process_command.simps)

text \<open>
  A client that attaches gets the whole picture first: its queue receives one
  \<^verbatim>\<open>Started\<close> per running request, in id order and with the turn id of the request, followed
  by the snapshot of the session, and nothing else; no other queue changes. It is
  subscribed from then on.
\<close>

lemma attach_replays_then_snapshot:
  assumes "receiver_alive (chans (snet w) tx)"
    and "process_command ctx (Attach c tx) w = (w', fin)"
  shows "queue (chans (snet w') tx) = queue (chans (snet w) tx)
      @ map (\<lambda>(rid, a). Session (Some (ctx_session_id ctx)) (Started rid (ar_turn_id a) 0)) (active_requests (st w))
      @ [session_state_message (ctx_capability ctx) (ctx_session_id ctx) (st w)]
    \<and> (\<forall>k. k \<noteq> tx \<longrightarrow> chans (snet w') k = chans (snet w) k)
    \<and> map_of (subscribers (st w')) c = Some tx \<and> \<not> fin"
proof -
  have w': "w' = fst (handle_attach ctx c tx w)" "fin = False"
    using assms(2) handle_attach_frame(5) [of ctx c tx w] by (simp_all add: prod_eq_iff)
  have d: "delivers (snet w) (snet w') (\<lambda>k. if k = tx then attach_messages ctx (st w) else [])"
    unfolding w' handle_attach_net by (rule raw.send_seq_delivers)
  have "chans (snet w') k = chans (snet w) k" if "k \<noteq> tx" for k
    using d that by (simp add: delivers_def)
  moreover have "queue (chans (snet w') tx) = queue (chans (snet w) tx) @ attach_messages ctx (st w)"
    using delivers_queue [OF d assms(1)] by simp
  ultimately show ?thesis
    using w' by (simp add: attach_messages_def origin_event_def update_conv')
qed

lemma attach_replays_then_snapshot_witness:
  "queue (chans (snet (fst (process_command demo_ctx (Attach 1 0) demo_start))) 0) =
     [session_state_message (ctx_capability demo_ctx) 7 (st demo_start)]"
  using attach_replays_then_snapshot [where w = demo_start and tx = 0 and ctx = demo_ctx and c = 1
      and w' = "fst (process_command demo_ctx (Attach 1 0) demo_start)"
      and fin = "snd (process_command demo_ctx (Attach 1 0) demo_start)"]
  by (simp add: demo_start_simps net_new_def chan_new_def demo_ctx_def del: process_command.simps)

section \<open>Undo, redo and the database\<close>

text \<open>The stored turns of the session are the turns in memory.\<close>

definition synced :: "request_ctx \<Rightarrow> session_world \<Rightarrow> bool" where
  "synced ctx w \<longleftrightarrow> (\<forall>i. db_turns (sdb w) (ctx_session_id ctx, i) = map_of (turns (st w)) i)"

lemma persist_turns_db:
  "db_faults (sdb w) = [] \<Longrightarrow>
   db_turns (sdb (persist_turns ctx ids w)) (sid, i) =
     (if sid = ctx_session_id ctx \<and> i \<in> set ids \<and> map_of (turns (st w)) i \<noteq> None
      then map_of (turns (st w)) i else db_turns (sdb w) (sid, i))
   \<and> db_faults (sdb (persist_turns ctx ids w)) = []"
proof (induction ids arbitrary: w)
  case Nil
  then show ?case by (simp add: persist_turns_def)
next
  case (Cons j ids)
  obtain w1 where p: "persist_turns ctx (j # ids) w = persist_turns ctx ids w1" and st: "st w1 = st w"
    and f: "db_faults (sdb w1) = []"
    and d: "db_turns (sdb w1) (sid, i) = (if sid = ctx_session_id ctx \<and> i = j \<and> map_of (turns (st w)) j \<noteq> None
        then map_of (turns (st w)) j else db_turns (sdb w) (sid, i))"
  proof (cases "map_of (turns (st w)) j")
    case None
    then show thesis using Cons.prems by (intro that [of w]) (simp_all add: persist_turns_def)
  next
    case (Some t)
    then show thesis using Cons.prems
      by (intro that [of "w\<lparr>sdb := fst (write_turn_retry (ctx_session_id ctx) j t (sdb w))\<rparr>"])
         (simp_all add: persist_turns_def write_turn_retry_db)
  qed
  show ?case using Cons.IH [OF f] d by (auto simp: p st split: if_splits)
qed

lemma redo_writes_db:
  "db_faults d = [] \<Longrightarrow> distinct (keys r) \<Longrightarrow>
   db_turns (fold (\<lambda>(i, t) d. fst (write_turn_retry sid i t d)) r d) (sid, i) =
     (case map_of r i of Some t \<Rightarrow> Some t | None \<Rightarrow> db_turns d (sid, i))
   \<and> db_faults (fold (\<lambda>(i, t) d. fst (write_turn_retry sid i t d)) r d) = []"
proof (induction r arbitrary: d)
  case (Cons it r)
  obtain j t where it: "it = (j, t)" by (cases it)
  let ?d1 = "fst (write_turn_retry sid j t d)"
  have "db_faults ?d1 = []" "db_turns ?d1 (sid, i) = (if i = j then Some t else db_turns d (sid, i))"
    using Cons.prems(1) by (simp_all add: write_turn_retry_db)
  moreover have "map_of r j = None" using Cons.prems(2) it by (simp add: map_of_eq_None_iff)
  ultimately show ?case using Cons.IH [of ?d1] Cons.prems(2) by (auto simp: it split: option.splits)
qed simp

text \<open>What a redo restores: the recorded turns, visible again.\<close>

lemma fold_collect_map_of:
  "map_of (fold (\<lambda>i r. case g i of None \<Rightarrow> r | Some t \<Rightarrow> bt_insert i t r) ids r) i =
     (if i \<in> set ids \<and> g i \<noteq> None then g i else map_of r i)"
proof (induction ids arbitrary: r)
  case (Cons j ids)
  show ?case by (auto simp: Cons.IH split: option.splits)
qed simp

lemma fold_collect_wf:
  "bt_wf r \<Longrightarrow> bt_wf (fold (\<lambda>i r. case g i of None \<Rightarrow> r | Some t \<Rightarrow> bt_insert i t r) ids r)"
proof (induction ids arbitrary: r)
  case (Cons j ids)
  have "bt_wf (case g j of None \<Rightarrow> r | Some t \<Rightarrow> bt_insert j t r)"
    using Cons.prems by (simp add: bt_wf_insert split: option.splits)
  from Cons.IH [OF this] show ?case by simp
qed simp

lemma redo_restored:
  assumes "redo_turns s = (s', Some r)"
  shows "bt_wf r" and "\<And>i. map_of r i = None \<Longrightarrow> map_of (turns s') i = map_of (turns s) i"
    and "\<And>i t. map_of r i = Some t \<Longrightarrow> map_of (turns s') i = Some t"
proof -
  from assms obtain ids where ids: "last_undo_turn_ids s = Some ids"
    and ts: "turns s' = mark_undone False ids (turns s)"
    and r: "r = fold (\<lambda>i r. case map_of (turns s') i of None \<Rightarrow> r | Some t \<Rightarrow> bt_insert i t r) ids []"
    by (auto simp: redo_turns_def Let_def split: option.splits)
  show "bt_wf r" unfolding r by (rule fold_collect_wf) simp
  fix i
  show "map_of r i = None \<Longrightarrow> map_of (turns s') i = map_of (turns s) i"
    by (auto simp: r fold_collect_map_of ts map_of_mark_undone split: if_splits)
  show "map_of r i = Some t \<Longrightarrow> map_of (turns s') i = Some t" for t
    by (auto simp: r fold_collect_map_of split: if_splits)
qed

lemma undo_synced:
  assumes "db_faults (sdb w) = []" and sy: "synced ctx w"
  shows "synced ctx (fst (handle_undo ctx w))"
proof (cases "undo_turns (st w)")
  case (Pair s' r)
  show ?thesis
  proof (cases r)
    case None
    then have "s' = st w" using Pair by (auto simp: undo_turns_def Let_def split: option.splits)
    then show ?thesis using Pair None sy by (simp add: handle_undo_def synced_def)
  next
    case (Some ids)
    then have u: "undo_turns (st w) = (s', Some ids)" using Pair by simp
    obtain w1 where h: "handle_undo ctx w = (broadcast_event ctx (TurnsUndone ids) (persist_turns ctx ids w1), False)"
      and t1: "turns (st w1) = turns s'" and d1: "db_turns (sdb w1) = db_turns (sdb w)"
      and f1: "db_faults (sdb w1) = []"
      by (rule handle_undo_Some [OF u, of ctx], rule that, assumption) (simp_all add: assms(1))
    obtain target where ids: "ids = filter (\<lambda>i. target \<le> i) (keys (turns (st w)))"
      and ts: "turns s' = mark_undone True ids (turns (st w))"
      by (rule undo_turns_SomeD [OF u], rule that) simp_all
    have "db_turns (sdb (persist_turns ctx ids w1)) (ctx_session_id ctx, i) = map_of (turns s') i" for i
      using persist_turns_db [OF f1, of ctx ids "ctx_session_id ctx" i] sy
      by (auto simp: t1 d1 synced_def ts map_of_mark_undone)
    then show ?thesis by (simp add: h synced_def t1)
  qed
qed

lemma redo_synced:
  assumes "db_faults (sdb w) = []" and sy: "synced ctx w"
  shows "synced ctx (fst (handle_redo ctx w))"
proof (cases "redo_turns (st w)")
  case (Pair s' r)
  show ?thesis
  proof (cases r)
    case None
    then have "s' = st w" using Pair by (auto simp: redo_turns_def Let_def split: option.splits)
    then show ?thesis using Pair None sy by (simp add: handle_redo_def synced_def)
  next
    case (Some ts)
    then have u: "redo_turns (st w) = (s', Some ts)" using Pair by simp
    have "distinct (keys ts)" using redo_restored(1) [OF u] by (simp add: bt_wf_def strict_sorted_iff)
    from redo_writes_db [OF assms(1) this, of "ctx_session_id ctx"] sy
    have "db_turns (fold (\<lambda>(i, t) d. fst (write_turn_retry (ctx_session_id ctx) i t d)) ts (sdb w))
        (ctx_session_id ctx, i) = map_of (turns s') i" for i
      using redo_restored(2,3) [OF u, of i] by (auto simp: synced_def split: option.splits)
    then show ?thesis by (simp add: handle_redo_def u synced_def)
  qed
qed

text \<open>
  Undo and redo are durable. With a database that accepts writes and stored turns
  equal to the turns in memory, they are still equal after an \<^verbatim>\<open>Undo\<close> and after a \<^verbatim>\<open>Redo\<close>: a
  restart shows the same visible conversation.
\<close>

lemma undo_redo_durable:
  assumes "db_faults (sdb w) = []"
    and "\<forall>i. db_turns (sdb w) (ctx_session_id ctx, i) = map_of (turns (st w)) i"
    and "cmd = Undo \<or> cmd = Redo" and "process_command ctx cmd w = (w', fin)"
  shows "\<forall>i. db_turns (sdb w') (ctx_session_id ctx, i) = map_of (turns (st w')) i"
  using undo_synced [OF assms(1), of ctx] redo_synced [OF assms(1), of ctx] assms(2-4)
  by (auto simp: synced_def)

definition demo_talk :: session_world where
  "demo_talk = demo_start\<lparr>st := two_turns, sdb := demo_db\<lparr>db_turns :=
     (\<lambda>(sid, i). if sid = 7 then map_of (turns two_turns) i else None)\<rparr>\<rparr>"

lemma undo_redo_durable_witness:
  "\<forall>i. db_turns (sdb (fst (process_command demo_ctx Undo demo_talk))) (7, i) =
     map_of (turns (st (fst (process_command demo_ctx Undo demo_talk)))) i"
  using undo_redo_durable [of demo_talk demo_ctx Undo "fst (process_command demo_ctx Undo demo_talk)"
      "snd (process_command demo_ctx Undo demo_talk)"]
  by (simp add: demo_talk_def demo_db_def demo_ctx_def del: process_command.simps)

lemma loop_undo_record:
  "\<forall>(ctx, cmd) \<in> set cmds. cmd \<noteq> Undo \<and> cmd \<noteq> Redo \<Longrightarrow>
   last_undo_turn_ids (st (fst (session_loop cmds w))) = last_undo_turn_ids (st w)"
proof (induction cmds arbitrary: w)
  case (Cons cc cmds)
  obtain ctx cmd where cc: "cc = (ctx, cmd)" by (cases cc)
  obtain w' fin where p: "process_command ctx cmd w = (w', fin)" by (cases "process_command ctx cmd w")
  have "last_undo_turn_ids (st w') = last_undo_turn_ids (st w)"
    using undo_record_frame [of cmd ctx w] Cons.prems cc p by simp
  then show ?case using Cons cc p by (cases fin) simp_all
qed simp



text \<open>
  C33. Merging a finished request. Every turn of the worker's snapshot replaces the live
  turn, with one exception: a turn that was undone while the request ran stays undone as it
  is. Turns that the snapshot does not have are kept, and after such an undo the provider's
  response id is dropped, so the next request cannot build on an undone exchange.
\<close>

theorem request_finished_merge:
  assumes "distinct (keys (snap_turns sn))"
    and "process_command ctx (RequestFinished rid sn) w = (w', fin)"
  shows "map_of (turns (st w')) i =
      (case map_of (snap_turns sn) i of
         None \<Rightarrow> map_of (turns (st w)) i
       | Some t \<Rightarrow> (case map_of (turns (st w)) i of
                     Some live \<Rightarrow> if undone live \<and> \<not> undone t then Some live else Some t
                   | None \<Rightarrow> Some t))
    \<and> (undo_during_request (turns (st w)) (snap_turns sn) \<longrightarrow>
         cfg_last_response_id (config (st w')) = None
         \<and> cfg_last_response_id_producer (config (st w')) = None)
    \<and> map_of (active_requests (st w')) rid = None \<and> cfg_status (config (st w')) = Inactive"
proof -
  have w': "w' = fst (handle_request_finished ctx rid sn w)" using assms(2) by simp
  show ?thesis
    unfolding w' request_finished_config
    by (simp add: merge_turns_lookup [OF assms(1)] apply_worker_snapshot_def delete_conv')
qed

theorem request_finished_merge_witness:
  "map_of (turns (st (fst (process_command demo_ctx (RequestFinished 3 (snapshot two_turns))
     (demo_busy\<lparr>st := (st demo_busy)\<lparr>turns := turns (fst (undo_turns two_turns))\<rparr>\<rparr>))))) 1
   = Some ((new_turn 20 (Some ''second''))\<lparr>undone := True\<rparr>)"
proof -
  let ?w = "demo_busy\<lparr>st := (st demo_busy)\<lparr>turns := turns (fst (undo_turns two_turns))\<rparr>\<rparr>"
  let ?r = "process_command demo_ctx (RequestFinished 3 (snapshot two_turns)) ?w"
  have u: "turns (fst (undo_turns two_turns)) =
      [(0, new_turn 10 (Some ''first'')), (1, (new_turn 20 (Some ''second''))\<lparr>undone := True\<rparr>)]"
    by (simp add: undo_turns_def undo_target_def two_turns_simps new_turn_def Let_def mark_undone_def map_at_def)
  have "map_of (turns (st (fst ?r))) 1 = Some ((new_turn 20 (Some ''second''))\<lparr>undone := True\<rparr>)"
    using request_finished_merge [where sn = "snapshot two_turns" and ctx = demo_ctx and rid = 3 and w = ?w
        and w' = "fst ?r" and fin = "snd ?r" and i = 1]
    by (simp add: u snapshot_def two_turns_simps new_turn_def del: process_command.simps)
  then show ?thesis .
qed

section \<open>Shutdown and exit\<close>

lemma shutdown_frame:
  assumes "shutdown_requested w"
  shows "shutdown_requested (fst (process_command ctx cmd w))
    \<and> spawned (fst (process_command ctx cmd w)) = spawned w"
proof (cases "is_setting cmd")
  case True
  then show ?thesis using setting_same_conversation [of cmd w ctx] assms by (simp add: same_conversation_def)
next
  case False
  show ?thesis
  proof (cases cmd)
    case (RunInput rid input)
    show ?thesis
    proof (cases rule: run_input_cases [where w = w and K = UNIV and ctx = ctx and rid = rid and input = input])
      case (refused w1 err)
      then show ?thesis
        using RunInput assms same_conversation_trans [OF refused(1) conv.R_fail_request [of w1 ctx rid err]]
        by (simp add: same_conversation_def)
    qed (use assms in \<open>simp add: same_conversation_def\<close>)
  next
    case (RunChildInput rid t reply)
    then show ?thesis using assms
      by (cases rule: run_child_input_cases [where w = w and ctx = ctx and rid = rid and utext = t and reply = reply])
         simp_all
  qed (use assms False in \<open>simp_all add: handle_detach_def handle_remove_subscriber_def Let_def
        handle_shutdown_def handle_cancel_def\<close>)
qed

lemma loop_shutdown_frame:
  "shutdown_requested w \<Longrightarrow> shutdown_requested (fst (session_loop cmds w))
   \<and> spawned (fst (session_loop cmds w)) = spawned w"
proof (induction cmds arbitrary: w)
  case (Cons cc cmds)
  obtain ctx cmd where cc: "cc = (ctx, cmd)" by (cases cc)
  obtain w' fin where p: "process_command ctx cmd w = (w', fin)" by (cases "process_command ctx cmd w")
  have "shutdown_requested w' \<and> spawned w' = spawned w"
    using shutdown_frame [OF Cons.prems, of ctx cmd] p by simp
  then show ?case using Cons.IH [of w'] cc p by (cases fin) simp_all
qed simp

lemma count_list_distinct: "distinct xs \<Longrightarrow> x \<in> set xs \<Longrightarrow> count_list xs x = 1"
  by (induction xs) (auto simp: count_list_0_iff)

text \<open>
  Shutdown is final. It sends every running request one cancel message and ends the
  thread at once if there is none; whatever commands follow, the thread never spawns another
  worker.
\<close>

lemma shutdown_is_final:
  assumes "process_command ctx Shutdown w = (w1, fin)" and "distinct (keys (active_requests (st w)))"
    and "session_loop cmds w1 = (w2, fin2)"
  shows "(fin \<longleftrightarrow> active_requests (st w) = [])
    \<and> map_of (active_requests (st w1)) =
        (\<lambda>rid. map_option (\<lambda>a. a\<lparr>cancels_sent := cancels_sent a + 1\<rparr>) (map_of (active_requests (st w)) rid))
    \<and> shutdown_requested w2 \<and> spawned w2 = spawned w"
proof -
  let ?w0 = "w\<lparr>shutdown_requested := True\<rparr>" and ?ids = "keys (active_requests (st w))"
  have w1: "w1 = fold (cancel_one ctx) ?ids ?w0" and fin: "fin = (active_requests (st w1) = [])"
    using assms(1) by (auto simp: handle_shutdown_def Let_def)
  have "keys (active_requests (st w1)) = ?ids" by (simp add: w1)
  then have "active_requests (st w1) = [] \<longleftrightarrow> active_requests (st w) = []"
    by (metis map_is_Nil_conv)
  moreover have "map_of (active_requests (st w1)) rid =
      map_option (\<lambda>a. a\<lparr>cancels_sent := cancels_sent a + 1\<rparr>) (map_of (active_requests (st w)) rid)" for rid
  proof (cases "rid \<in> set ?ids")
    case True
    then have "count_list ?ids rid = 1" using assms(2) by (simp add: count_list_distinct del: set_map)
    then show ?thesis
      by (simp add: w1 fold_cancel_requests bump_cancel_def cong: option.map_cong)
  next
    case False
    then show ?thesis by (simp add: w1 fold_cancel_requests map_of_eq_None_iff [THEN iffD2])
  qed
  moreover have "shutdown_requested w1" "spawned w1 = spawned w" by (simp_all add: w1)
  ultimately show ?thesis
    using fin loop_shutdown_frame [of w1 cmds] assms(3) by auto
qed

lemma shutdown_is_final_witness:
  "map_of (active_requests (st (fst (process_command demo_ctx Shutdown demo_busy)))) 3
     = Some \<lparr>cancels_sent = 1, ar_turn_id = 0\<rparr>
   \<and> spawned (fst (session_loop [(demo_ctx, RunChildInput 4 None 1)]
       (fst (process_command demo_ctx Shutdown demo_busy)))) = [demo_worker]"
proof -
  let ?r = "process_command demo_ctx Shutdown demo_busy"
  let ?l = "session_loop [(demo_ctx, RunChildInput 4 None 1)] (fst ?r)"
  show ?thesis
    using shutdown_is_final [of demo_ctx demo_busy "fst ?r" "snd ?r" "[(demo_ctx, RunChildInput 4 None 1)]"
        "fst ?l" "snd ?l"]
    by (simp add: demo_busy_simps del: process_command.simps session_loop.simps)
qed

text \<open>
  When the thread ends. A command ends the loop only if no request is running and
  either no client is subscribed or a shutdown was asked for; so an attached client or a
  running request keeps a session alive.
\<close>

lemma exit_only_when_idle:
  assumes "process_command ctx cmd w = (w', True)"
  shows "active_requests (st w') = [] \<and> (subscribers (st w') = [] \<or> shutdown_requested w')"
  using exit_state [of ctx cmd w] assms by simp

lemma exit_only_when_idle_witness:
  "active_requests (st (fst (process_command demo_ctx (Detach 1) demo_start))) = []"
  using exit_only_when_idle [of demo_ctx "Detach 1" demo_start "fst (process_command demo_ctx (Detach 1) demo_start)"]
  by (simp add: handle_detach_def Let_def can_exit_def demo_start_simps)

text \<open>
  The epilogue of a request worker. Whether its agent loop returns, fails or panics,
  the worker sends the session exactly one \<^verbatim>\<open>RequestFinished\<close>, for its own request and as its
  last command; everything before it is a client-safe broadcast. A child request gets
  exactly one reply, any other request none.
\<close>

lemma worker_reports_once:
  "\<exists>sn msgs. fst (run_request_worker sid wk r s) = map BroadcastMsg msgs @ [RequestFinished (w_request_id wk) sn]
     \<and> list_all message_safe msgs
     \<and> map fst (snd (run_request_worker sid wk r s)) = (case w_child_reply wk of None \<Rightarrow> [] | Some ch \<Rightarrow> [ch])"
proof -
  let ?sn = "case r of LoopPanic \<Rightarrow> snapshot (w_session wk) | _ \<Rightarrow> snapshot s"
  let ?msgs = "case r of
       LoopOk False \<Rightarrow> [Session (Some sid) (Done (w_request_id wk) (Some (cfg_accumulated_usage (config s)))
                         (cfg_last_prompt_tokens (config s)))]
     | LoopOk True \<Rightarrow> []
     | LoopErr e \<Rightarrow> [Session (Some sid) (Failed (w_request_id wk) e)]
     | LoopPanic \<Rightarrow> [Session (Some sid) (Failed (w_request_id wk) ''request worker panicked'')]"
  have "fst (run_request_worker sid wk r s) = map BroadcastMsg ?msgs @ [RequestFinished (w_request_id wk) ?sn]"
    by (simp add: run_request_worker_def Let_def split: loop_result.splits bool.splits)
  moreover have "list_all message_safe ?msgs"
    by (simp split: loop_result.splits bool.splits)
  moreover have "map fst (snd (run_request_worker sid wk r s)) = (case w_child_reply wk of None \<Rightarrow> [] | Some ch \<Rightarrow> [ch])"
    by (simp add: run_request_worker_def Let_def split: option.splits)
  ultimately show ?thesis by blast
qed

section \<open>Joining an exiting thread\<close>

lemma poll_rounds:
  assumes "\<forall>j. now (Suc j) \<ge> now j + poll_sleep now deadline j"
    and "deadline - now i \<le> 50 * n"
  shows "\<exists>b k. shutdown_join_poll (Suc n) finished now deadline i = Some (b, k) \<and> i \<le> k
    \<and> (b \<longrightarrow> finished k) \<and> (\<not> b \<longrightarrow> \<not> finished k \<and> deadline \<le> now k)
    \<and> (\<forall>j. i \<le> j \<and> j < k \<longrightarrow> \<not> finished j \<and> now j < deadline)"
  using assms(2)
proof (induction n arbitrary: i)
  case 0
  then show ?case by (cases "finished i") auto
next
  case (Suc n)
  show ?case
  proof (cases "finished i \<or> deadline \<le> now i")
    case True
    then show ?thesis by (cases "finished i") auto
  next
    case False
    have "now (Suc i) \<ge> now i + min (deadline - now i) 50"
      using assms(1) by (simp add: poll_sleep_def)
    then have "deadline - now (Suc i) \<le> 50 * n" using Suc.prems by (simp add: min_def split: if_splits)
    from Suc.IH [OF this] obtain b k where
      k: "shutdown_join_poll (Suc n) finished now deadline (Suc i) = Some (b, k)" "Suc i \<le> k"
        "b \<longrightarrow> finished k" "\<not> b \<longrightarrow> \<not> finished k \<and> deadline \<le> now k"
        "\<forall>j. Suc i \<le> j \<and> j < k \<longrightarrow> \<not> finished j \<and> now j < deadline"
      by blast
    have "\<forall>j. i \<le> j \<and> j < k \<longrightarrow> \<not> finished j \<and> now j < deadline"
      using k(5) False by (metis Suc_leI le_neq_implies_less not_le)
    moreover have "shutdown_join_poll (Suc (Suc n)) finished now deadline i = Some (b, k)"
      using False k(1) by simp
    ultimately show ?thesis using k by (intro exI [of _ b] exI [of _ k]) simp
  qed
qed

text \<open>
  Waiting for an exiting thread ends. If the clock advances at least by the time slept,
  the poll returns after at most one round per 50 milliseconds of the budget and one more:
  with success at the first round that finds the thread finished before the deadline, and
  with failure only once the deadline has passed with the thread still running.
\<close>

lemma join_poll_terminates:
  assumes "\<forall>j. now (Suc j) \<ge> now j + poll_sleep now deadline j"
  shows "\<exists>b k. shutdown_join_poll ((deadline - now 0 + 49) div 50 + 1) finished now deadline 0 = Some (b, k)
    \<and> (b \<longrightarrow> finished k) \<and> (\<not> b \<longrightarrow> \<not> finished k \<and> deadline \<le> now k)
    \<and> (\<forall>j < k. \<not> finished j \<and> now j < deadline)"
proof -
  have "deadline - now 0 \<le> 50 * ((deadline - now 0 + 49) div 50)" by simp
  from poll_rounds [OF assms this, of finished] show ?thesis by auto
qed

lemma join_poll_terminates_witness:
  "\<exists>b k. shutdown_join_poll 4 (\<lambda>_. False) (\<lambda>i. 50 * i) 120 0 = Some (b, k) \<and> \<not> b"
  using join_poll_terminates [of "\<lambda>i. 50 * i" 120 "\<lambda>_. False"]
  by (auto simp: poll_sleep_def)

section \<open>Settings\<close>

text \<open>
  Settings leave the conversation alone: a command that only reads or changes settings,
  or forwards a broadcast, changes no turn, in memory or stored, no turn numbering, no undo
  record and no running request; the modification time does not go back and the creation
  time and the parent are fixed.
\<close>

lemma settings_keep_conversation:
  assumes "is_setting cmd" and "process_command ctx cmd w = (w', fin)"
  shows "turns (st w') = turns (st w) \<and> next_turn_id (st w') = next_turn_id (st w)
    \<and> last_undo_turn_ids (st w') = last_undo_turn_ids (st w)
    \<and> active_requests (st w') = active_requests (st w) \<and> spawned w' = spawned w
    \<and> db_turns (sdb w') = db_turns (sdb w)
    \<and> cfg_last_modified (config (st w)) \<le> cfg_last_modified (config (st w'))
    \<and> cfg_created_at (config (st w')) = cfg_created_at (config (st w))
    \<and> cfg_parent_session_id (config (st w')) = cfg_parent_session_id (config (st w))"
  using setting_same_conversation [OF assms(1), of w ctx] assms(2) by (simp add: same_conversation_def)

lemma settings_keep_conversation_witness:
  "turns (st (fst (process_command demo_ctx (SetTitle ''t'') demo_talk))) = turns two_turns"
  using settings_keep_conversation [of "SetTitle ''t''" demo_ctx demo_talk
      "fst (process_command demo_ctx (SetTitle ''t'') demo_talk)"
      "snd (process_command demo_ctx (SetTitle ''t'') demo_talk)"]
  by (simp add: demo_talk_def del: process_command.simps)

lemma persist_session_metadata_config [simp]:
  "config (st (persist_session_metadata ctx w)) =
     (config (st w))\<lparr>cfg_last_modified := max (cfg_last_modified (config (st w))) (ctx_now ctx)\<rparr>"
  "provider (st (persist_session_metadata ctx w)) = provider (st w)"
  "replies (persist_session_metadata ctx w) = replies w"
  by (simp_all add: persist_session_metadata_def update_metadata_def)

lemma announce_window_frame [simp]:
  "config (st (announce_window ctx cw w)) = (config (st w))\<lparr>cfg_context_window := cw\<rparr>"
  "provider (st (announce_window ctx cw w)) = provider (st w)"
  by (simp_all add: announce_window_def Let_def split: option.splits)

text \<open>The effort of a session is one its model supports, as far as that is known.\<close>

definition effort_supported :: "request_ctx \<Rightarrow> session_state \<Rightarrow> bool" where
  "effort_supported ctx s \<longleftrightarrow>
     \<not> effort_unsupported (session_capability (ctx_capability ctx) s) (cfg_reasoning_effort (config s))"

lemma set_model_effort:
  assumes "validate_model_via_daemon ctx model w = (w1, Inr u)"
  shows "effort_supported ctx (st (fst (handle_set_model ctx model w)))
    \<and> cfg_selected_model (config (st (fst (handle_set_model ctx model w)))) = Some model"
proof -
  let ?w2 = "upd_st (upd_config (\<lambda>c. c\<lparr>cfg_selected_model := Some model\<rparr>)) w1"
  let ?w3 = "announce_window ctx (Option.bind (provider (st ?w2)) (\<lambda>p. resolve_context_window p model)) ?w2"
  let ?cap = "map_option (\<lambda>p. ctx_capability ctx (provider_slug p) model) (provider (st ?w3))"
  define w4 where "w4 = (if effort_unsupported ?cap (cfg_reasoning_effort (config (st ?w3)))
     then broadcast_event ctx (ReasoningEffortSet ''off'')
       (upd_st (upd_config (\<lambda>c. c\<lparr>cfg_reasoning_effort := Some ''off''\<rparr>)) ?w3) else ?w3)"
  have h: "fst (handle_set_model ctx model w) =
      persist_session_metadata ctx (broadcast_event ctx (ModelSelected model ?cap) w4)"
    by (simp add: handle_set_model_def assms Let_def w4_def)
  have w4: "provider (st w4) = provider (st w1)" "cfg_selected_model (config (st w4)) = Some model"
    "\<not> effort_unsupported ?cap (cfg_reasoning_effort (config (st w4)))"
    by (simp_all add: w4_def effort_unsupported_def split: option.splits)
  have "session_capability (ctx_capability ctx) (st (fst (handle_set_model ctx model w))) = ?cap"
    by (simp add: h session_capability_def w4 split: option.splits)
  then show ?thesis using w4 by (simp add: effort_supported_def h)
qed

text \<open>
  A session never runs at an effort its model rejects because of these commands. An
  accepted \<^verbatim>\<open>SetModel\<close> selects the model and falls back to "off" when the new model does not
  list the current effort; a \<^verbatim>\<open>SetReasoningEffort\<close> on a session whose effort is supported
  leaves it supported, whatever slug is asked for.
\<close>

lemma effort_stays_supported:
  assumes "cmd = SetModel model \<and> snd (validate_model_via_daemon ctx model w) = Inr ()
      \<or> cmd = SetReasoningEffort e \<and> effort_supported ctx (st w)"
    and "process_command ctx cmd w = (w', fin)"
  shows "effort_supported ctx (st w')"
  using assms(1)
proof
  assume c: "cmd = SetModel model \<and> snd (validate_model_via_daemon ctx model w) = Inr ()"
  then have "validate_model_via_daemon ctx model w = (fst (validate_model_via_daemon ctx model w), Inr ())"
    by (simp add: prod_eq_iff)
  from set_model_effort [OF this] c assms(2) show ?thesis by simp
next
  assume c: "cmd = SetReasoningEffort e \<and> effort_supported ctx (st w)"
  show ?thesis
  proof (cases "config (st w') = config (st w)")
    case True
    have "provider (st w') = provider (st w)"
      using c assms(2) by (auto simp: handle_set_reasoning_effort_def Let_def split: if_splits)
    then show ?thesis using True c by (simp add: effort_supported_def session_capability_def)
  next
    case False
    then have "e = ''off'' \<or> (case session_capability (ctx_capability ctx) (st w) of
          Some cp \<Rightarrow> e \<in> set (available_effort_levels cp) | None \<Rightarrow> True)"
      and w': "w' = broadcast_event ctx (ReasoningEffortSet e)
          (upd_st (upd_config (\<lambda>c. c\<lparr>cfg_reasoning_effort := Some e\<rparr>)) w)"
      using c assms(2)
      by (auto simp: handle_set_reasoning_effort_def Let_def split: if_splits option.splits)
    then show ?thesis
      by (auto simp: effort_supported_def session_capability_def effort_unsupported_def split: option.splits)
  qed
qed

lemma effort_stays_supported_witness:
  "effort_supported demo_ctx (st (fst (process_command demo_ctx (SetModel ''m'') demo_start)))"
  using effort_stays_supported [where cmd = "SetModel ''m''" and model = "''m''" and ctx = demo_ctx
      and w = demo_start and w' = "fst (process_command demo_ctx (SetModel ''m'') demo_start)"
      and fin = "snd (process_command demo_ctx (SetModel ''m'') demo_start)"]
  by (simp add: validate_model_via_daemon_def demo_ctx_def del: process_command.simps)

lemma change_groups_known:
  assumes "unknown_group_names gs (ctx_known_groups ctx) = None"
  shows "cfg_active_tool_groups (config (st (fst (change_groups f ctx gs reply w)))) =
      fst (f (cfg_active_tool_groups (config (st w))) gs)
    \<and> replies (fst (change_groups f ctx gs reply w)) =
      replies w @ [(reply, TextReply (Inr (snd (f (cfg_active_tool_groups (config (st w))) gs))))]"
  using assms by (simp add: change_groups_def Let_def case_prod_unfold broadcast_state_def)

lemma change_groups_unknown:
  assumes "unknown_group_names gs (ctx_known_groups ctx) = Some us"
  shows "\<exists>err. fst (change_groups f ctx gs reply w) = send_reply reply (TextReply (Inl err)) w"
  using assms unfolding change_groups_def by auto

lemma unknown_group_names_None: "unknown_group_names gs known = None \<longleftrightarrow> set gs \<subseteq> set known"
  by (auto simp: unknown_group_names_def Let_def filter_empty_conv)

text \<open>
  Loading and unloading tool groups. If every named group is registered, loading makes
  exactly the named groups active in addition and unloading exactly the named groups except
  "core" inactive; the set stays free of duplicates and the requester gets one positive
  reply. If one name is unknown, nothing changes but one negative reply.
\<close>

lemma tool_groups_effect:
  assumes "distinct (cfg_active_tool_groups (config (st w)))"
    and "process_command ctx (LoadTools gs r) w = (wl, finl)"
    and "process_command ctx (UnloadTools gs r) w = (wu, finu)"
  shows "if set gs \<subseteq> set (ctx_known_groups ctx)
    then set (cfg_active_tool_groups (config (st wl))) = set (cfg_active_tool_groups (config (st w))) \<union> set gs
       \<and> set (cfg_active_tool_groups (config (st wu))) =
           set (cfg_active_tool_groups (config (st w))) - (set gs - {''core''})
       \<and> distinct (cfg_active_tool_groups (config (st wl)))
       \<and> distinct (cfg_active_tool_groups (config (st wu)))
       \<and> (\<exists>txt. replies wl = replies w @ [(r, TextReply (Inr txt))])
       \<and> (\<exists>txt. replies wu = replies w @ [(r, TextReply (Inr txt))])
    else (\<exists>err. wl = send_reply r (TextReply (Inl err)) w) \<and> (\<exists>err. wu = send_reply r (TextReply (Inl err)) w)"
proof -
  let ?fl = "apply_load_tools (ctx_list_fmt ctx)" and ?fu = "apply_unload_tools (ctx_list_fmt ctx)"
  let ?act = "cfg_active_tool_groups (config (st w))"
  have wl: "wl = fst (change_groups ?fl ctx gs r w)" and wu: "wu = fst (change_groups ?fu ctx gs r w)"
    using assms(2,3) by (simp_all add: handle_load_tools_def handle_unload_tools_def)
  have fl: "fst (?fl ?act gs) = fst (load_groups gs ?act)" and fu: "fst (?fu ?act gs) = fst (unload_groups gs ?act)"
    by (simp_all add: apply_load_tools_def apply_unload_tools_def case_prod_unfold Let_def)
  show ?thesis
  proof (cases "set gs \<subseteq> set (ctx_known_groups ctx)")
    case True
    then have k: "unknown_group_names gs (ctx_known_groups ctx) = None" by (simp add: unknown_group_names_None)
    show ?thesis
      using True change_groups_known [OF k, of ?fl r w] change_groups_known [OF k, of ?fu r w]
        load_groups_distinct [OF assms(1), of gs] unload_groups_distinct [OF assms(1), of gs]
      by (simp add: wl wu fl fu load_groups_set unload_groups_set)
  next
    case False
    then obtain us where k: "unknown_group_names gs (ctx_known_groups ctx) = Some us"
      using unknown_group_names_None [of gs] by (metis not_None_eq)
    show ?thesis
      using False change_groups_unknown [OF k, of ?fl r w] change_groups_unknown [OF k, of ?fu r w]
      by (simp add: wl wu)
  qed
qed

lemma demo_groups: "cfg_active_tool_groups (config (st demo_start)) = [''core'', ''git'', ''shell'']"
  by (simp add: demo_start_def session_start_def Let_def resolve_context_window_if_missing_def
      initial_config_def load_turns_def session_state_empty_def update_metadata_def
      default_active_tool_groups_def)

lemma tool_groups_effect_witness:
  "set (cfg_active_tool_groups (config (st (fst (process_command demo_ctx (UnloadTools [''core'', ''git''] 0) demo_start)))))
     = {''core'', ''shell''}"
proof -
  let ?gs = "[''core'', ''git'']"
  let ?l = "process_command demo_ctx (LoadTools ?gs 0) demo_start"
  let ?u = "process_command demo_ctx (UnloadTools ?gs 0) demo_start"
  have "set ?gs \<subseteq> set (ctx_known_groups demo_ctx)" by (simp add: demo_ctx_def)
  with tool_groups_effect [of demo_start demo_ctx ?gs 0 "fst ?l" "snd ?l" "fst ?u" "snd ?u"]
  show ?thesis by (auto simp: demo_groups simp del: process_command.simps)
qed

text \<open>
  Restarting from the stored record. A session whose directory is valid UTF-8 and whose
  group set is not empty comes back from its own record with the same title, model, effort,
  parent, directory, creation and modification time, tool groups, context settings and
  response id; usage, window and status start fresh.
\<close>

lemma record_roundtrip:
  assumes "\<forall>d. cfg_working_dir (config s) = Some d \<longrightarrow> utf8_valid d"
    and "cfg_active_tool_groups (config s) \<noteq> []" and "distinct (cfg_active_tool_groups (config s))"
  shows "initial_config now (cfg_account_name (config s)) (Some (record_of_state s)) =
    (config s)\<lparr>cfg_status := Inactive, cfg_accumulated_usage := token_usage_default,
       cfg_context_window := None, cfg_last_prompt_tokens := None\<rparr>"
proof -
  have "map_option path_display (cfg_working_dir (config s)) = cfg_working_dir (config s)"
    using assms(1) by (cases "cfg_working_dir (config s)") (simp_all add: path_display_def from_utf8_lossy_valid)
  then show ?thesis
    using assms(2,3)
    by (simp add: initial_config_def record_of_state_def record_of_metadata_def metadata_of_state_def
        metadata_of_config_def hset_of_vec_def distinct_remdups_id)
qed

lemma record_roundtrip_witness:
  "cfg_working_dir (initial_config 5 None (Some (record_of_state
     (two_turns\<lparr>config := session_config_default\<lparr>cfg_working_dir := Some ''/srv'', cfg_active_tool_groups := [''core'']\<rparr>\<rparr>))))
   = Some ''/srv''"
proof -
  have "utf8_valid ''/srv''" by (simp add: utf8_valid.simps utf8_chunk_def Let_def)
  with record_roundtrip [of "two_turns\<lparr>config := session_config_default\<lparr>cfg_working_dir := Some ''/srv'', cfg_active_tool_groups := [''core'']\<rparr>\<rparr>" 5]
  show ?thesis by (simp add: session_config_default_def)
qed

section \<open>Refused input\<close>

lemma fail_request_delivers:
  "delivers (snet w) (snet (fst (fail_request ctx rid err w)))
     (\<lambda>k. copies (subscribers (st w)) (\<lambda>_. False) (origin_event ctx (Started rid 0 0)) k
        @ copies (live_subscribers (snet w) (subscribers (st w))) (\<lambda>_. False) (origin_event ctx (Failed rid err)) k)"
  using delivers_trans [OF broadcast_delivers [where w = w and m = "origin_event ctx (Started rid 0 0)" and ctx = ctx]
      broadcast_delivers [where m = "origin_event ctx (Failed rid err)" and ctx = ctx]]
  by (simp add: fail_request_def broadcast_event_def)

text \<open>
  Input to a busy session is refused in a way clients can follow. If a request is
  running, a further \<^verbatim>\<open>RunInput\<close> with text, provider and model present spawns no worker and
  registers nothing, and every live subscriber receives, in order and once each, a
  \<^verbatim>\<open>Started\<close> for the refused id and then its \<^verbatim>\<open>Failed\<close>.
\<close>

lemma busy_session_refuses:
  assumes "active_requests (st w) \<noteq> []" and "\<not> shutdown_requested w"
    and "provider (st w) = Some p" and "cfg_selected_model (config (st w)) = Some model"
    and "trim (from_utf8_lossy (bytes_string input)) \<noteq> []"
    and "distinct (map snd (subscribers (st w)))"
    and "(c, k) \<in> set (subscribers (st w))" and "receiver_alive (chans (snet w) k)"
    and "process_command ctx (RunInput rid input) w = (w', fin)"
  shows "spawned w' = spawned w \<and> active_requests (st w') = active_requests (st w) \<and> \<not> fin
    \<and> queue (chans (snet w') k) = queue (chans (snet w) k)
        @ [Session (Some (ctx_session_id ctx)) (Started rid 0 0),
           Session (Some (ctx_session_id ctx)) (Failed rid ''session already has an active request'')]"
proof -
  let ?err = "''session already has an active request''"
  have h: "process_command ctx (RunInput rid input) w = fail_request ctx rid ?err w"
    using assms(1-5) by (simp add: handle_run_input_def Let_def obtain_provider_def)
  then have w': "w' = fst (fail_request ctx rid ?err w)" "\<not> fin"
    using assms(9) by (simp_all add: fail_request_def)
  have live: "(c, k) \<in> set (live_subscribers (snet w) (subscribers (st w)))"
    "distinct (map snd (live_subscribers (snet w) (subscribers (st w))))"
    using assms(6-8) by (simp_all add: live_subscribers_def distinct_map_filter)
  have "queue (chans (snet w') k) = queue (chans (snet w) k)
      @ [origin_event ctx (Started rid 0 0)] @ [origin_event ctx (Failed rid ?err)]"
    unfolding w' delivers_queue [OF fail_request_delivers assms(8)]
    by (simp add: copies_once [OF assms(6,7)] copies_once [OF live(2,1)])
  then show ?thesis
    using w' by (simp add: origin_event_def fail_request_def)
qed

definition demo_full :: session_world where
  "demo_full = demo_busy\<lparr>st := (st demo_busy)\<lparr>subscribers := [(1, 0)], provider := Some demo_provider,
     config := session_config_default\<lparr>cfg_selected_model := Some ''m''\<rparr>\<rparr>, snet := net_new\<rparr>"

lemma trim_x: "trim (from_utf8_lossy (bytes_string [120])) = ''x''"
  by (simp add: trim_def bytes_string_def from_utf8_lossy.simps utf8_chunk_def Let_def trim_start.simps
      trim_end.simps ws_len_def ws_suffix_len_def flip: of_char_eq_iff [where 'a = nat])

lemma busy_session_refuses_witness:
  "length (queue (chans (snet (fst (process_command demo_ctx (RunInput 9 [120]) demo_full))) 0)) = 2"
  using busy_session_refuses [of demo_full demo_provider "''m''" "[120]" 1 0 demo_ctx 9
      "fst (process_command demo_ctx (RunInput 9 [120]) demo_full)"
      "snd (process_command demo_ctx (RunInput 9 [120]) demo_full)"]
  by (simp add: demo_full_def demo_busy_simps net_new_def chan_new_def trim_x del: process_command.simps)

end
