(* ===== verification/Daemon_State.thy ===== *)
theory Daemon_State
  imports Commands Storage
begin

text \<open>
  The daemon's command loop, first part: its state and the subscriber lifecycle of
  \<^verbatim>\<open>choreo-daemon/src/daemon/subscriber_handlers.rs\<close>: registration, the lossless fan-outs
  with their duplicate suppression, eviction of lagging clients, shutdown notification and
  disconnect cleanup.

  A session thread is a number; what the daemon sends to it is recorded in \<open>ds_sent\<close>. The
  other outputs are recorded too: replies, spawned session threads, finalizer threads and
  model prefetches. The context holds what the loop reads from outside: the clocks, which
  threads have terminated, the provider catalog.
\<close>

section \<open>State\<close>

text \<open>A database error is a value without its text.\<close>

datatype attach_error = SessionNotFound | DatabaseError

datatype daemon_reply =
    CreatedReply u64 nat
  | AttachReply "attach_error + nat"
  | ListReply "session_summary list"
  | GetReply "session_summary option"
  | DeleteReply bool
  | LockReply
  | TextReplyD "string + string"
  | ModelsReply "string + (string list \<times> string option)"
  | BoolReply bool

datatype query_answer =
    ProviderAnswer "inference_provider option"
  | ModelAnswer "string + unit"

record daemon_state =
  ds_next_session_id :: u64
  ds_active_sessions :: "(u64, nat) hmap"
  ds_session_metadata :: "(u64, session_metadata) hmap"
  ds_deleted_sessions :: "u64 set"
  ds_children :: "(u64, u64 list) hmap"
  ds_accounts :: "(string, string) hmap"
  ds_providers :: "(string, inference_provider) hmap"
  ds_locked :: bool
  ds_db :: db
  ds_summary_subscribers :: "(u64, sink) hmap"
  ds_client_writers :: "(u64, sink) hmap"
  ds_activity_subscribers :: "(u64, sink) hmap"
  ds_client_subscribed_sessions :: "(u64, u64 list) hmap"
  ds_lag_limits :: lag_limits
  ds_model_cache :: "(string, string list \<times> nat) hmap"
  ds_model_prefetch_in_flight :: hset
  ds_net :: net
  ds_next_thread :: nat
  ds_spawned :: "(nat \<times> u64 \<times> session_record \<times> inference_provider option) list"
  ds_sent :: "(nat \<times> session_command) list"
  ds_replies :: "(reply_chan \<times> daemon_reply) list"
  ds_answers :: "query_answer list"
  ds_finalizers :: "u64 list"
  ds_prefetchers :: "string list"

record daemon_ctx =
  dx_now :: i64
  dx_instant :: nat
  dx_is_finished :: "nat \<Rightarrow> bool"
  dx_prefetch_spawns :: "string \<Rightarrow> bool"
  dx_context_window :: "string \<Rightarrow> string \<Rightarrow> u32 option"
  dx_catalog :: "catalog_provider list"
  dx_list_fmt :: "string list \<Rightarrow> string"

definition send_session :: "u64 \<Rightarrow> session_command \<Rightarrow> daemon_state \<Rightarrow> daemon_state" where
  "send_session sid cmd s =
     (case map_of (ds_active_sessions s) sid of
        None \<Rightarrow> s
      | Some th \<Rightarrow> s\<lparr>ds_sent := ds_sent s @ [(th, cmd)]\<rparr>)"

definition reply_to :: "reply_chan \<Rightarrow> daemon_reply \<Rightarrow> daemon_state \<Rightarrow> daemon_state" where
  "reply_to ch v s = s\<lparr>ds_replies := ds_replies s @ [(ch, v)]\<rparr>"

section \<open>Eviction and teardown of clients\<close>

definition remove_client_from_sessions :: "u64 \<Rightarrow> daemon_state \<Rightarrow> daemon_state" where
  "remove_client_from_sessions client_id s =
     (case map_of (ds_client_subscribed_sessions s) client_id of
        None \<Rightarrow> s
      | Some sessions \<Rightarrow>
          fold (\<lambda>sid. send_session sid (RemoveSubscriber client_id)) sessions
            (s\<lparr>ds_client_subscribed_sessions := AList.delete client_id (ds_client_subscribed_sessions s)\<rparr>))"

definition handle_evict_client :: "u64 \<Rightarrow> daemon_state \<Rightarrow> daemon_state" where
  "handle_evict_client client_id s =
     (case map_of (ds_client_writers s) client_id of
        None \<Rightarrow> s
      | Some sink \<Rightarrow>
          let s1 = s\<lparr>ds_net := fst (send_unchecked sink Evicted (ds_net s))\<rparr>;
              s2 = s1\<lparr>ds_summary_subscribers := AList.delete client_id (ds_summary_subscribers s1)\<rparr>;
              s3 = s2\<lparr>ds_activity_subscribers := AList.delete client_id (ds_activity_subscribers s2)\<rparr>;
              s4 = remove_client_from_sessions client_id s3
          in s4\<lparr>ds_client_writers := AList.delete client_id (ds_client_writers s4)\<rparr>)"

fun most_lagging :: "net \<Rightarrow> (u64, sink) hmap \<Rightarrow> (u64 \<times> usize) option \<Rightarrow> (u64 \<times> usize) option" where
  "most_lagging n [] best = best"
| "most_lagging n ((c, k) # ws) best =
     (let bytes = bytes_in_flight (chans n k)
      in most_lagging n ws
           (if bytes > 0 \<and> (case best of None \<Rightarrow> True | Some (_, b) \<Rightarrow> bytes > b)
            then Some (c, bytes) else best))"

definition handle_evict_largest_lagging :: "daemon_state \<Rightarrow> daemon_state" where
  "handle_evict_largest_lagging s =
     (case most_lagging (ds_net s) (ds_client_writers s) None of
        None \<Rightarrow> s
      | Some (client_id, _) \<Rightarrow> handle_evict_client client_id s)"

definition finish_evictions :: "u64 list \<Rightarrow> bool \<Rightarrow> daemon_state \<Rightarrow> daemon_state" where
  "finish_evictions evict_clients evict_largest s =
     (let s1 = fold handle_evict_client evict_clients s
      in if evict_largest then handle_evict_largest_lagging s1 else s1)"

section \<open>Fan-outs\<close>

definition violates_broadcast_origin_contract :: "u64 option \<Rightarrow> daemon_message \<Rightarrow> bool" where
  "violates_broadcast_origin_contract session_id msg =
     (case msg of
        Session envelope_id _ \<Rightarrow>
          (case (session_id, envelope_id) of
             (Some origin, Some inner) \<Rightarrow> origin \<noteq> inner
           | (None, None) \<Rightarrow> False
           | _ \<Rightarrow> True)
      | _ \<Rightarrow> session_id \<noteq> None)"

definition fan_out_activity ::
  "daemon_message \<Rightarrow> (u64 \<Rightarrow> bool) \<Rightarrow> daemon_state \<Rightarrow> daemon_state" where
  "fan_out_activity msg skip s =
     (case fan_out_evicting (ds_activity_subscribers s) msg (ds_lag_limits s) skip (ds_net s) of
        (subs', ev, lg, n') \<Rightarrow>
          finish_evictions ev lg (s\<lparr>ds_activity_subscribers := subs', ds_net := n'\<rparr>))"

definition fan_out_summary ::
  "daemon_message \<Rightarrow> (u64 \<Rightarrow> bool) \<Rightarrow> daemon_state \<Rightarrow> daemon_state" where
  "fan_out_summary msg skip s =
     (case fan_out_evicting (ds_summary_subscribers s) msg (ds_lag_limits s) skip (ds_net s) of
        (subs', ev, lg, n') \<Rightarrow>
          finish_evictions ev lg (s\<lparr>ds_summary_subscribers := subs', ds_net := n'\<rparr>))"

text \<open>\<^verbatim>\<open>DaemonState::broadcast\<close>: the lifecycle events, to both buses.\<close>

definition daemon_broadcast :: "daemon_message \<Rightarrow> daemon_state \<Rightarrow> daemon_state" where
  "daemon_broadcast msg s =
     (let s1 = fan_out_activity msg (\<lambda>_. False) s
      in fan_out_summary msg (\<lambda>c. map_of (ds_activity_subscribers s1) c \<noteq> None) s1)"

definition subscribed_to :: "daemon_state \<Rightarrow> u64 \<Rightarrow> u64 \<Rightarrow> bool" where
  "subscribed_to s client_id session_id =
     (case map_of (ds_client_subscribed_sessions s) client_id of
        None \<Rightarrow> False | Some sessions \<Rightarrow> session_id \<in> set sessions)"

definition handle_broadcast_activity ::
  "u64 option \<Rightarrow> daemon_message \<Rightarrow> daemon_state \<Rightarrow> daemon_state" where
  "handle_broadcast_activity session_id msg s =
     fan_out_activity msg
       (\<lambda>c. case session_id of None \<Rightarrow> False | Some sid \<Rightarrow> subscribed_to s c sid) s"

definition handle_broadcast_session_status :: "u64 \<Rightarrow> session_status \<Rightarrow> daemon_state \<Rightarrow> daemon_state" where
  "handle_broadcast_session_status session_id status s =
     (case map_of (ds_session_metadata s) session_id of
        None \<Rightarrow> s
      | Some meta \<Rightarrow>
          let s1 = s\<lparr>ds_session_metadata :=
                map_at session_id (\<lambda>m. m\<lparr>meta_status := status\<rparr>) (ds_session_metadata s)\<rparr>;
              msg = Session (Some session_id) (SessionStatusChanged status (meta_last_modified meta))
          in fan_out_summary msg
               (\<lambda>c. subscribed_to s1 c session_id \<or> map_of (ds_activity_subscribers s1) c \<noteq> None) s1)"

section \<open>Registration\<close>

definition handle_register_summary_subscriber :: "u64 \<Rightarrow> sink \<Rightarrow> daemon_state \<Rightarrow> daemon_state" where
  "handle_register_summary_subscriber c k s =
     s\<lparr>ds_summary_subscribers := AList.update c k (ds_summary_subscribers s)\<rparr>"

definition handle_unregister_summary_subscriber :: "u64 \<Rightarrow> daemon_state \<Rightarrow> daemon_state" where
  "handle_unregister_summary_subscriber c s =
     s\<lparr>ds_summary_subscribers := AList.delete c (ds_summary_subscribers s)\<rparr>"

definition current_lock_message :: "daemon_state \<Rightarrow> daemon_message" where
  "current_lock_message s = (if ds_locked s then Locked else Unlocked)"

definition handle_register_activity_subscriber ::
  "daemon_ctx \<Rightarrow> u64 \<Rightarrow> sink \<Rightarrow> daemon_state \<Rightarrow> daemon_state" where
  "handle_register_activity_subscriber ctx c k s =
     (let s1 = s\<lparr>ds_activity_subscribers := AList.update c k (ds_activity_subscribers s)\<rparr>;
          n1 = fst (enqueue k (CatalogUpdated (dx_catalog ctx)) (ds_lag_limits s1) (ds_net s1));
          n2 = fst (enqueue k (current_lock_message s1) (ds_lag_limits s1) n1)
      in s1\<lparr>ds_net := n2\<rparr>)"

definition handle_unregister_activity_subscriber :: "u64 \<Rightarrow> daemon_state \<Rightarrow> daemon_state" where
  "handle_unregister_activity_subscriber c s =
     s\<lparr>ds_activity_subscribers := AList.delete c (ds_activity_subscribers s)\<rparr>"

definition broadcast_lock_state :: "daemon_state \<Rightarrow> daemon_state" where
  "broadcast_lock_state s = handle_broadcast_activity None (current_lock_message s) s"

definition handle_register_client_writer :: "u64 \<Rightarrow> sink \<Rightarrow> daemon_state \<Rightarrow> daemon_state" where
  "handle_register_client_writer c k s =
     s\<lparr>ds_client_writers := AList.update c k (ds_client_writers s)\<rparr>"

fun notify_writers :: "(u64, sink) hmap \<Rightarrow> net \<Rightarrow> (u64, sink) hmap \<times> net" where
  "notify_writers [] n = ([], n)"
| "notify_writers ((c, k) # ws) n =
     (case send_unchecked k ShuttingDown n of
        (n1, ok) \<Rightarrow>
          (case notify_writers ws n1 of
             (ws', n') \<Rightarrow> (if ok then (c, k) # ws' else ws', n')))"

definition handle_broadcast_shutting_down :: "daemon_state \<Rightarrow> daemon_state" where
  "handle_broadcast_shutting_down s =
     (case notify_writers (ds_client_writers s) (ds_net s) of
        (ws', n') \<Rightarrow> s\<lparr>ds_client_writers := ws', ds_net := n'\<rparr>)"

definition handle_client_disconnected :: "u64 \<Rightarrow> daemon_state \<Rightarrow> daemon_state" where
  "handle_client_disconnected c s =
     (let s1 = s\<lparr>ds_summary_subscribers := AList.delete c (ds_summary_subscribers s)\<rparr>;
          s2 = s1\<lparr>ds_activity_subscribers := AList.delete c (ds_activity_subscribers s1)\<rparr>;
          s3 = remove_client_from_sessions c s2
      in s3\<lparr>ds_client_writers := AList.delete c (ds_client_writers s3)\<rparr>)"

definition handle_track_session_subscription :: "u64 \<Rightarrow> u64 \<Rightarrow> daemon_state \<Rightarrow> daemon_state" where
  "handle_track_session_subscription c sid s =
     (let old = (case map_of (ds_client_subscribed_sessions s) c of None \<Rightarrow> [] | Some l \<Rightarrow> l);
          new = (if sid \<in> set old then old else old @ [sid])
      in s\<lparr>ds_client_subscribed_sessions := AList.update c new (ds_client_subscribed_sessions s)\<rparr>)"

definition handle_untrack_session_subscription :: "u64 \<Rightarrow> u64 \<Rightarrow> daemon_state \<Rightarrow> daemon_state" where
  "handle_untrack_session_subscription c sid s =
     (case map_of (ds_client_subscribed_sessions s) c of
        None \<Rightarrow> s
      | Some l \<Rightarrow>
          let l' = filter (\<lambda>x. x \<noteq> sid) l
          in s\<lparr>ds_client_subscribed_sessions :=
               (if l' = [] then AList.delete c (ds_client_subscribed_sessions s)
                else AList.update c l' (ds_client_subscribed_sessions s))\<rparr>)"

end
