(* ===== verification/Daemon_Fanout.thy ===== *)
theory Daemon_Fanout
  imports Daemon_State
begin

text \<open>
  Delivery by the daemon: what evictions do to the subscriber maps and the queues, and that
  the fan-outs over the activity and the summary bus, with their duplicate suppression,
  reach every client once.
\<close>

section \<open>Evictions\<close>

definition without :: "u64 set \<Rightarrow> (u64, 'v) hmap \<Rightarrow> (u64, 'v) hmap" where
  "without E m = filter (\<lambda>(c, _). c \<notin> E) m"

lemma without_simps [simp]:
  "without {} m = m"
  "without E (without F m) = without (F \<union> E) m"
  by (auto simp: without_def conj_commute intro: filter_cong)

lemma delete_without: "AList.delete c m = without {c} m"
  by (auto simp: without_def AList.delete_eq intro: filter_cong)

lemma map_of_without: "map_of (without E m) c = (if c \<in> E then None else map_of m c)"
  by (induction m) (auto simp: without_def)

text \<open>
  \<open>evicts E s s'\<close>: the clients of \<open>E\<close> are gone from the three maps of sinks, queues have
  only grown by \<^verbatim>\<open>Evicted\<close> notices on registered writers, and only commands to session threads
  and the subscription table differ besides.
\<close>

definition evicts :: "u64 set \<Rightarrow> daemon_state \<Rightarrow> daemon_state \<Rightarrow> bool" where
  "evicts E s s' \<longleftrightarrow>
     (\<exists>d n' subs' sent'. delivers (ds_net s) n' d \<and> (\<forall>k. set (d k) \<subseteq> {Evicted})
        \<and> {k. d k \<noteq> []} \<subseteq> snd ` set (ds_client_writers s)
        \<and> E \<subseteq> fst ` set (ds_client_writers s)
        \<and> s' = s\<lparr>ds_net := n', ds_summary_subscribers := without E (ds_summary_subscribers s),
               ds_activity_subscribers := without E (ds_activity_subscribers s),
               ds_client_writers := without E (ds_client_writers s),
               ds_client_subscribed_sessions := subs', ds_sent := sent'\<rparr>
        \<and> subs' = without E (ds_client_subscribed_sessions s))"

lemma evicts_refl: "evicts {} s s"
  unfolding evicts_def
  by (intro exI [of _ "\<lambda>_. []"] exI [of _ "ds_net s"] exI [of _ "ds_client_subscribed_sessions s"]
      exI [of _ "ds_sent s"]) (simp add: delivers_refl)

lemma evicts_trans:
  assumes "evicts E s s'" and "evicts F s' s''"
  shows "evicts (E \<union> F) s s''"
proof -
  from assms(1) obtain d n1 sent1 where d: "delivers (ds_net s) n1 d" "\<forall>k. set (d k) \<subseteq> {Evicted}"
      "{k. d k \<noteq> []} \<subseteq> snd ` set (ds_client_writers s)" "E \<subseteq> fst ` set (ds_client_writers s)"
    and s': "s' = s\<lparr>ds_net := n1, ds_summary_subscribers := without E (ds_summary_subscribers s),
               ds_activity_subscribers := without E (ds_activity_subscribers s),
               ds_client_writers := without E (ds_client_writers s),
               ds_client_subscribed_sessions := without E (ds_client_subscribed_sessions s), ds_sent := sent1\<rparr>"
    unfolding evicts_def by blast
  from assms(2) obtain e n2 sent2 where e: "delivers (ds_net s') n2 e" "\<forall>k. set (e k) \<subseteq> {Evicted}"
      "{k. e k \<noteq> []} \<subseteq> snd ` set (ds_client_writers s')" "F \<subseteq> fst ` set (ds_client_writers s')"
    and s'': "s'' = s'\<lparr>ds_net := n2, ds_summary_subscribers := without F (ds_summary_subscribers s'),
               ds_activity_subscribers := without F (ds_activity_subscribers s'),
               ds_client_writers := without F (ds_client_writers s'),
               ds_client_subscribed_sessions := without F (ds_client_subscribed_sessions s'), ds_sent := sent2\<rparr>"
    unfolding evicts_def by blast
  have sub: "set (ds_client_writers s') \<subseteq> set (ds_client_writers s)" by (auto simp: s' without_def)
  show ?thesis
    unfolding evicts_def
  proof (intro exI conjI)
    show "delivers (ds_net s) n2 (\<lambda>k. d k @ e k)"
      using delivers_trans [OF d(1)] e(1) by (simp add: s')
    show "\<forall>k. set (d k @ e k) \<subseteq> {Evicted}" using d(2) e(2) by auto
    show "{k. d k @ e k \<noteq> []} \<subseteq> snd ` set (ds_client_writers s)" using d(3) e(3) sub by blast
    show "E \<union> F \<subseteq> fst ` set (ds_client_writers s)" using d(4) e(4) sub by blast
    show "s'' = s\<lparr>ds_net := n2, ds_summary_subscribers := without (E \<union> F) (ds_summary_subscribers s),
               ds_activity_subscribers := without (E \<union> F) (ds_activity_subscribers s),
               ds_client_writers := without (E \<union> F) (ds_client_writers s),
               ds_client_subscribed_sessions := without (E \<union> F) (ds_client_subscribed_sessions s),
               ds_sent := sent2\<rparr>"
      by (simp add: s'' s')
  qed simp
qed

lemma fold_send_session:
  "\<exists>sent. fold (\<lambda>sid. send_session sid cmd) sids s = s\<lparr>ds_sent := sent\<rparr>"
proof (induction sids arbitrary: s)
  case Nil
  show ?case by (intro exI [of _ "ds_sent s"]) simp
next
  case (Cons sid sids)
  have "\<exists>sent. send_session sid cmd s = s\<lparr>ds_sent := sent\<rparr>"
    by (cases "map_of (ds_active_sessions s) sid")
       (auto simp: send_session_def intro: exI [of _ "ds_sent s"])
  then obtain sent where "send_session sid cmd s = s\<lparr>ds_sent := sent\<rparr>" by blast
  with Cons.IH [of "send_session sid cmd s"] show ?case by auto
qed

lemma remove_client_from_sessions_eq:
  "\<exists>sent. remove_client_from_sessions c s =
     s\<lparr>ds_client_subscribed_sessions := without {c} (ds_client_subscribed_sessions s), ds_sent := sent\<rparr>"
proof (cases "map_of (ds_client_subscribed_sessions s) c")
  case None
  then have "without {c} (ds_client_subscribed_sessions s) = ds_client_subscribed_sessions s"
    unfolding without_def by (intro filter_True) (force simp: map_of_eq_None_iff)
  then show ?thesis
    using None by (intro exI [of _ "ds_sent s"]) (simp add: remove_client_from_sessions_def)
next
  case (Some sids)
  then show ?thesis
    using fold_send_session [of "RemoveSubscriber c" sids
        "s\<lparr>ds_client_subscribed_sessions := without {c} (ds_client_subscribed_sessions s)\<rparr>"]
    by (auto simp: remove_client_from_sessions_def delete_without)
qed

lemma handle_evict_client_evicts:
  "evicts (if map_of (ds_client_writers s) c = None then {} else {c}) s (handle_evict_client c s)"
proof (cases "map_of (ds_client_writers s) c")
  case None
  then show ?thesis by (simp add: handle_evict_client_def evicts_refl)
next
  case (Some k)
  let ?n = "fst (send_unchecked k Evicted (ds_net s))"
  let ?s3 = "s\<lparr>ds_net := ?n, ds_summary_subscribers := without {c} (ds_summary_subscribers s),
     ds_activity_subscribers := without {c} (ds_activity_subscribers s)\<rparr>"
  obtain sent where r: "remove_client_from_sessions c ?s3 =
      ?s3\<lparr>ds_client_subscribed_sessions := without {c} (ds_client_subscribed_sessions s), ds_sent := sent\<rparr>"
    using remove_client_from_sessions_eq [of c ?s3] by auto
  have "evicts {c} s (handle_evict_client c s)"
    unfolding evicts_def
  proof (intro exI conjI)
    show "delivers (ds_net s) ?n (one k Evicted)" by (rule raw.send_delivers)
    show "\<forall>k'. set (one k Evicted k') \<subseteq> {Evicted}" by (auto simp: one_def)
    show "{k'. one k Evicted k' \<noteq> []} \<subseteq> snd ` set (ds_client_writers s)"
      using map_of_SomeD [OF Some] by (auto simp: one_def split: if_splits intro: rev_image_eqI)
    show "{c} \<subseteq> fst ` set (ds_client_writers s)" using map_of_SomeD [OF Some] by force
    show "handle_evict_client c s =
        s\<lparr>ds_net := ?n, ds_summary_subscribers := without {c} (ds_summary_subscribers s),
               ds_activity_subscribers := without {c} (ds_activity_subscribers s),
               ds_client_writers := without {c} (ds_client_writers s),
               ds_client_subscribed_sessions := without {c} (ds_client_subscribed_sessions s), ds_sent := sent\<rparr>"
      using r by (simp add: handle_evict_client_def Some Let_def delete_without del: send_unchecked_net)
  qed simp
  then show ?thesis using Some by simp
qed

lemma fold_evict_evicts: "\<exists>E. evicts E s (fold handle_evict_client cs s)"
proof (induction cs arbitrary: s)
  case Nil
  show ?case using evicts_refl by auto
next
  case (Cons c cs)
  obtain E where "evicts E (handle_evict_client c s) (fold handle_evict_client cs (handle_evict_client c s))"
    using Cons.IH by blast
  from evicts_trans [OF handle_evict_client_evicts this] show ?case by auto
qed

lemma finish_evictions_evicts: "\<exists>E. evicts E s (finish_evictions cs lg s)"
proof -
  obtain E where E: "evicts E s (fold handle_evict_client cs s)" using fold_evict_evicts by blast
  let ?s1 = "fold handle_evict_client cs s"
  have "\<exists>F. evicts F ?s1 (handle_evict_largest_lagging ?s1)"
  proof (cases "most_lagging (ds_net ?s1) (ds_client_writers ?s1) None")
    case None
    then show ?thesis using evicts_refl by (auto simp: handle_evict_largest_lagging_def)
  next
    case (Some cb)
    then show ?thesis
      using handle_evict_client_evicts [of ?s1 "fst cb"]
      by (auto simp: handle_evict_largest_lagging_def case_prod_unfold)
  qed
  then obtain F where "evicts F ?s1 (handle_evict_largest_lagging ?s1)" by blast
  from evicts_trans [OF E this] E show ?thesis by (auto simp: finish_evictions_def Let_def)
qed

section \<open>One sink per client\<close>

text \<open>
  Every map that lists a client lists the same sink for it, the one of its connection, and
  different connections have different sinks.
\<close>

definition sinks_of :: "(u64 \<Rightarrow> sink) \<Rightarrow> (u64, sink) hmap \<Rightarrow> bool" where
  "sinks_of f m \<longleftrightarrow> hm_wf m \<and> (\<forall>(c, k) \<in> set m. k = f c)"

definition one_sink_per_client :: "(u64 \<Rightarrow> sink) \<Rightarrow> daemon_state \<Rightarrow> bool" where
  "one_sink_per_client f s \<longleftrightarrow> inj f \<and> sinks_of f (ds_summary_subscribers s)
     \<and> sinks_of f (ds_activity_subscribers s) \<and> sinks_of f (ds_client_writers s)"

lemma sinks_of_filter: "sinks_of f m \<Longrightarrow> sinks_of f (filter P m)"
  by (auto simp: sinks_of_def hm_wf_def distinct_map_filter)

lemma sinks_of_without: "sinks_of f m \<Longrightarrow> sinks_of f (without E m)"
  by (simp add: without_def sinks_of_filter)

lemma sinks_of_distinct: "inj f \<Longrightarrow> sinks_of f m \<Longrightarrow> distinct (map snd m)"
proof -
  assume "inj f" "sinks_of f m"
  then have "map snd m = map f (keys m)" by (induction m) (auto simp: sinks_of_def hm_wf_def)
  then show ?thesis
    using \<open>inj f\<close> \<open>sinks_of f m\<close> by (simp add: distinct_map sinks_of_def hm_wf_def inj_on_def)
qed

lemma copies_client:
  assumes "inj f" and "sinks_of f m"
  shows "copies m skip msg (f c) = (if map_of m c \<noteq> None \<and> \<not> skip c then [msg] else [])"
proof (cases "map_of m c \<noteq> None \<and> \<not> skip c")
  case True
  then obtain k where "(c, k) \<in> set m" by (auto dest: map_of_SomeD)
  moreover from this have "k = f c" using assms(2) by (auto simp: sinks_of_def)
  ultimately show ?thesis
    using copies_once [OF sinks_of_distinct [OF assms], of c "f c" skip msg] True by simp
next
  case False
  have "skip c'" if "(c', f c) \<in> set m" for c'
  proof -
    from that assms have "c' = c" by (auto simp: sinks_of_def inj_def)
    moreover from this that have "map_of m c \<noteq> None" by (auto simp: map_of_eq_None_iff intro: rev_image_eqI)
    ultimately show "skip c'" using False by simp
  qed
  then show ?thesis using False copies_none [of "f c" m skip msg] by auto
qed

text \<open>What a list of deliveries holds besides eviction notices.\<close>

definition news :: "daemon_message list \<Rightarrow> daemon_message list" where
  "news ms = filter (\<lambda>m. m \<noteq> Evicted) ms"

lemma news_simps [simp]: "news [] = []" "news (ms @ ms') = news ms @ news ms'"
  "m \<noteq> Evicted \<Longrightarrow> news [m] = [m]"
  by (simp_all add: news_def)

lemma news_evicted: "set ms \<subseteq> {Evicted} \<Longrightarrow> news ms = []"
  by (auto simp: news_def filter_empty_conv)

section \<open>Fan-out over one bus\<close>

text \<open>
  A fan-out over one bus followed by its evictions: the bus loses its dead, unskipped
  members and every map the evicted clients \<open>E\<close>; each client's queue gets the message if it
  is a member and not skipped.
\<close>

definition bus_fan_out ::
  "(u64 \<Rightarrow> sink) \<Rightarrow> (u64, sink) hmap \<Rightarrow> daemon_message \<Rightarrow> (u64 \<Rightarrow> bool) \<Rightarrow> u64 set \<Rightarrow> daemon_state \<Rightarrow> daemon_state
   \<Rightarrow> (sink \<Rightarrow> daemon_message list) \<Rightarrow> bool" where
  "bus_fan_out f bus msg skip E s s' d \<longleftrightarrow>
     delivers (ds_net s) (ds_net s') d
     \<and> (\<forall>c. news (d (f c)) = (if map_of bus c \<noteq> None \<and> \<not> skip c then [msg] else []))
     \<and> {k. d k \<noteq> []} \<subseteq> snd ` set bus \<union> snd ` set (ds_client_writers s)
     \<and> E \<subseteq> fst ` set (ds_client_writers s)
     \<and> ds_client_writers s' = without E (ds_client_writers s)
     \<and> ds_client_subscribed_sessions s' = without E (ds_client_subscribed_sessions s)
     \<and> ds_session_metadata s' = ds_session_metadata s \<and> ds_lag_limits s' = ds_lag_limits s
     \<and> ds_active_sessions s' = ds_active_sessions s \<and> ds_deleted_sessions s' = ds_deleted_sessions s
     \<and> ds_children s' = ds_children s \<and> ds_db s' = ds_db s
     \<and> ds_next_session_id s' = ds_next_session_id s \<and> ds_next_thread s' = ds_next_thread s
     \<and> ds_spawned s' = ds_spawned s \<and> ds_finalizers s' = ds_finalizers s \<and> ds_locked s' = ds_locked s
     \<and> ds_replies s' = ds_replies s"

lemma fan_out_activity_bus:
  assumes agree: "one_sink_per_client f s" and msg: "msg \<noteq> Evicted"
  obtains E d where "bus_fan_out f (ds_activity_subscribers s) msg skip E s (fan_out_activity msg skip s) d"
    and "ds_activity_subscribers (fan_out_activity msg skip s) =
      without E (filter (\<lambda>(c, k). skip c \<or> receiver_alive (chans (ds_net s) k)) (ds_activity_subscribers s))"
    and "ds_summary_subscribers (fan_out_activity msg skip s) = without E (ds_summary_subscribers s)"
proof -
  let ?bus = "ds_activity_subscribers s"
  obtain subs' ev lg n' where fo: "fan_out_evicting ?bus msg (ds_lag_limits s) skip (ds_net s) = (subs', ev, lg, n')"
    by (cases "fan_out_evicting ?bus msg (ds_lag_limits s) skip (ds_net s)")
  let ?s1 = "s\<lparr>ds_activity_subscribers := subs', ds_net := n'\<rparr>"
  have s': "fan_out_activity msg skip s = finish_evictions ev lg ?s1" by (simp add: fan_out_activity_def fo)
  have del: "delivers (ds_net s) n' (copies ?bus skip msg)"
    using fan_out_delivers [of "ds_net s" ?bus msg "ds_lag_limits s" skip] fo by simp
  have subs': "subs' = filter (\<lambda>(c, k). skip c \<or> receiver_alive (chans (ds_net s) k)) ?bus"
    using fan_out_retains [of ?bus msg "ds_lag_limits s" skip "ds_net s"] fo by simp
  obtain E where "evicts E ?s1 (finish_evictions ev lg ?s1)" using finish_evictions_evicts by blast
  then obtain e n2 sent where e: "delivers n' n2 e" "\<forall>k. set (e k) \<subseteq> {Evicted}"
      "{k. e k \<noteq> []} \<subseteq> snd ` set (ds_client_writers s)" "E \<subseteq> fst ` set (ds_client_writers s)"
    and s2: "finish_evictions ev lg ?s1 = ?s1\<lparr>ds_net := n2,
        ds_summary_subscribers := without E (ds_summary_subscribers s),
        ds_activity_subscribers := without E subs', ds_client_writers := without E (ds_client_writers s),
        ds_client_subscribed_sessions := without E (ds_client_subscribed_sessions s), ds_sent := sent\<rparr>"
    unfolding evicts_def by auto
  let ?d = "\<lambda>k. copies ?bus skip msg k @ e k"
  have "news (?d (f c)) = (if map_of ?bus c \<noteq> None \<and> \<not> skip c then [msg] else [])" for c
  proof -
    have "news (e (f c)) = []" using e(2) by (intro news_evicted) blast
    then show ?thesis
      using agree msg by (simp add: one_sink_per_client_def copies_client)
  qed
  moreover have "{k. ?d k \<noteq> []} \<subseteq> snd ` set ?bus \<union> snd ` set (ds_client_writers s)"
    using copies_support [of ?bus skip msg] e(3) by blast
  moreover have "delivers (ds_net s) n2 ?d" by (rule delivers_trans [OF del e(1)])
  ultimately have "bus_fan_out f ?bus msg skip E s (fan_out_activity msg skip s) ?d"
    using e(4) by (simp add: bus_fan_out_def s' s2)
  then show thesis by (rule that) (simp_all only: s' s2, simp_all add: subs')
qed

lemma fan_out_summary_bus:
  assumes agree: "one_sink_per_client f s" and msg: "msg \<noteq> Evicted"
  obtains E d where "bus_fan_out f (ds_summary_subscribers s) msg skip E s (fan_out_summary msg skip s) d"
    and "ds_summary_subscribers (fan_out_summary msg skip s) =
      without E (filter (\<lambda>(c, k). skip c \<or> receiver_alive (chans (ds_net s) k)) (ds_summary_subscribers s))"
    and "ds_activity_subscribers (fan_out_summary msg skip s) = without E (ds_activity_subscribers s)"
proof -
  let ?bus = "ds_summary_subscribers s"
  obtain subs' ev lg n' where fo: "fan_out_evicting ?bus msg (ds_lag_limits s) skip (ds_net s) = (subs', ev, lg, n')"
    by (cases "fan_out_evicting ?bus msg (ds_lag_limits s) skip (ds_net s)")
  let ?s1 = "s\<lparr>ds_summary_subscribers := subs', ds_net := n'\<rparr>"
  have s': "fan_out_summary msg skip s = finish_evictions ev lg ?s1" by (simp add: fan_out_summary_def fo)
  have del: "delivers (ds_net s) n' (copies ?bus skip msg)"
    using fan_out_delivers [of "ds_net s" ?bus msg "ds_lag_limits s" skip] fo by simp
  have subs': "subs' = filter (\<lambda>(c, k). skip c \<or> receiver_alive (chans (ds_net s) k)) ?bus"
    using fan_out_retains [of ?bus msg "ds_lag_limits s" skip "ds_net s"] fo by simp
  obtain E where "evicts E ?s1 (finish_evictions ev lg ?s1)" using finish_evictions_evicts by blast
  then obtain e n2 sent where e: "delivers n' n2 e" "\<forall>k. set (e k) \<subseteq> {Evicted}"
      "{k. e k \<noteq> []} \<subseteq> snd ` set (ds_client_writers s)" "E \<subseteq> fst ` set (ds_client_writers s)"
    and s2: "finish_evictions ev lg ?s1 = ?s1\<lparr>ds_net := n2,
        ds_summary_subscribers := without E subs',
        ds_activity_subscribers := without E (ds_activity_subscribers s),
        ds_client_writers := without E (ds_client_writers s),
        ds_client_subscribed_sessions := without E (ds_client_subscribed_sessions s), ds_sent := sent\<rparr>"
    unfolding evicts_def by auto
  let ?d = "\<lambda>k. copies ?bus skip msg k @ e k"
  have "news (?d (f c)) = (if map_of ?bus c \<noteq> None \<and> \<not> skip c then [msg] else [])" for c
  proof -
    have "news (e (f c)) = []" using e(2) by (intro news_evicted) blast
    then show ?thesis
      using agree msg by (simp add: one_sink_per_client_def copies_client)
  qed
  moreover have "{k. ?d k \<noteq> []} \<subseteq> snd ` set ?bus \<union> snd ` set (ds_client_writers s)"
    using copies_support [of ?bus skip msg] e(3) by blast
  moreover have "delivers (ds_net s) n2 ?d" by (rule delivers_trans [OF del e(1)])
  ultimately have "bus_fan_out f ?bus msg skip E s (fan_out_summary msg skip s) ?d"
    using e(4) by (simp add: bus_fan_out_def s' s2)
  then show thesis by (rule that) (simp_all only: s' s2, simp_all add: subs')
qed

text \<open>A bus fan-out keeps the agreement of the maps.\<close>

lemma fan_out_agree:
  assumes "one_sink_per_client f s" and "msg \<noteq> Evicted"
  shows "one_sink_per_client f (fan_out_activity msg skip s)"
    and "one_sink_per_client f (fan_out_summary msg skip s)"
proof -
  obtain E d where "bus_fan_out f (ds_activity_subscribers s) msg skip E s (fan_out_activity msg skip s) d"
    "ds_activity_subscribers (fan_out_activity msg skip s) =
      without E (filter (\<lambda>(c, k). skip c \<or> receiver_alive (chans (ds_net s) k)) (ds_activity_subscribers s))"
    "ds_summary_subscribers (fan_out_activity msg skip s) = without E (ds_summary_subscribers s)"
    using assms by (rule fan_out_activity_bus)
  then show "one_sink_per_client f (fan_out_activity msg skip s)"
    using assms(1) by (simp add: one_sink_per_client_def bus_fan_out_def sinks_of_without sinks_of_filter)
  obtain E d where "bus_fan_out f (ds_summary_subscribers s) msg skip E s (fan_out_summary msg skip s) d"
    "ds_summary_subscribers (fan_out_summary msg skip s) =
      without E (filter (\<lambda>(c, k). skip c \<or> receiver_alive (chans (ds_net s) k)) (ds_summary_subscribers s))"
    "ds_activity_subscribers (fan_out_summary msg skip s) = without E (ds_activity_subscribers s)"
    using assms by (rule fan_out_summary_bus)
  then show "one_sink_per_client f (fan_out_summary msg skip s)"
    using assms(1) by (simp add: one_sink_per_client_def bus_fan_out_def sinks_of_without sinks_of_filter)
qed

lemma map_of_alive_filter:
  assumes "sinks_of f m" and "receiver_alive (chans n (f c))"
  shows "map_of (filter (\<lambda>(c, k). skip c \<or> receiver_alive (chans n k)) m) c = map_of m c"
  using assms
proof (induction m)
  case (Cons ck m)
  obtain c' k where ck: "ck = (c', k)" by (cases ck)
  have k: "k = f c'" and sm: "sinks_of f m" using Cons.prems(1) ck by (auto simp: sinks_of_def hm_wf_def)
  then show ?case using Cons.IH [OF sm Cons.prems(2)] Cons.prems(2) ck by auto
qed simp

section \<open>Lifecycle events\<close>

text \<open>
  A lifecycle event (created, deleted, asleep) reaches every subscribed client with a
  live connection exactly once, also when it is subscribed to both the activity and the
  summary bus. The only client that can miss it is one evicted while the event is fanned
  out; no client gets it twice.
\<close>

lemma lifecycle_event_exactly_once:
  assumes "one_sink_per_client f s" and "msg \<noteq> Evicted"
    and "map_of (ds_activity_subscribers s) c \<noteq> None \<or> map_of (ds_summary_subscribers s) c \<noteq> None"
    and "receiver_alive (chans (ds_net s) (f c))"
  shows "\<exists>new. queue (chans (ds_net (daemon_broadcast msg s)) (f c)) = queue (chans (ds_net s) (f c)) @ new
    \<and> (filter (\<lambda>m. m \<noteq> Evicted) new = [msg]
       \<or> filter (\<lambda>m. m \<noteq> Evicted) new = [] \<and> map_of (ds_client_writers s) c \<noteq> None
         \<and> map_of (ds_client_writers (daemon_broadcast msg s)) c = None)"
proof -
  define s1 where "s1 = fan_out_activity msg (\<lambda>_. False) s"
  let ?skip = "\<lambda>c. map_of (ds_activity_subscribers s1) c \<noteq> None"
  have s2: "daemon_broadcast msg s = fan_out_summary msg ?skip s1"
    by (simp add: daemon_broadcast_def s1_def Let_def)
  obtain E d where b1: "bus_fan_out f (ds_activity_subscribers s) msg (\<lambda>_. False) E s s1 d"
    and act: "ds_activity_subscribers s1 =
      without E (filter (\<lambda>(c, k). False \<or> receiver_alive (chans (ds_net s) k)) (ds_activity_subscribers s))"
    and sum: "ds_summary_subscribers s1 = without E (ds_summary_subscribers s)"
    using assms(1,2) unfolding s1_def by (rule fan_out_activity_bus)
  have agree1: "one_sink_per_client f s1" unfolding s1_def by (rule fan_out_agree(1) [OF assms(1,2)])
  obtain F e where b2: "bus_fan_out f (ds_summary_subscribers s1) msg ?skip F s1 (fan_out_summary msg ?skip s1) e"
    using agree1 assms(2) by (rule fan_out_summary_bus)
  have in_act: "map_of (ds_activity_subscribers s1) c =
      (if c \<in> E then None else map_of (ds_activity_subscribers s) c)"
    using map_of_alive_filter [where f = f and c = c and n = "ds_net s" and m = "ds_activity_subscribers s"
        and skip = "\<lambda>_. False"] assms(1,4)
    by (simp add: act map_of_without one_sink_per_client_def)
  have "news (d (f c) @ e (f c)) =
      (if map_of (ds_activity_subscribers s) c \<noteq> None then [msg] else if c \<in> E then [] else [msg])"
    using b1 b2 assms(3) by (auto simp: bus_fan_out_def in_act sum map_of_without split: if_splits)
  moreover have "delivers (ds_net s) (ds_net (daemon_broadcast msg s)) (\<lambda>k. d k @ e k)"
    using b1 b2 delivers_trans unfolding bus_fan_out_def s2 by blast
  then have "queue (chans (ds_net (daemon_broadcast msg s)) (f c)) =
      queue (chans (ds_net s) (f c)) @ (d (f c) @ e (f c))"
    using delivers_queue assms(4) by blast
  moreover have "c \<in> E \<Longrightarrow> map_of (ds_client_writers s) c \<noteq> None
      \<and> map_of (ds_client_writers (daemon_broadcast msg s)) c = None"
    using b1 b2 by (auto simp: bus_fan_out_def s2 map_of_without map_of_eq_None_iff)
  ultimately show ?thesis
    by (intro exI [of _ "d (f c) @ e (f c)"]) (auto simp: news_def split: if_splits)
qed

text \<open>A daemon with two connected clients, one of them on both buses.\<close>

definition demo_daemon :: daemon_state where
  "demo_daemon = \<lparr>ds_next_session_id = 8, ds_active_sessions = [(7, 0)],
     ds_session_metadata = [(7, metadata_of_config session_config_default)],
     ds_deleted_sessions = {}, ds_children = [], ds_accounts = [], ds_providers = [], ds_locked = True,
     ds_db = \<lparr>db_sessions = (\<lambda>_. None), db_turns = (\<lambda>_. None), db_tombstones = {}, db_faults = []\<rparr>,
     ds_summary_subscribers = [(1, 1), (2, 2)], ds_client_writers = [(1, 1), (2, 2)],
     ds_activity_subscribers = [(1, 1)], ds_client_subscribed_sessions = [(2, [7])],
     ds_lag_limits = lag_limits_default, ds_model_cache = [], ds_model_prefetch_in_flight = [],
     ds_net = net_new, ds_next_thread = 1, ds_spawned = [], ds_sent = [], ds_replies = [], ds_answers = [],
     ds_finalizers = [], ds_prefetchers = []\<rparr>"

lemma demo_daemon_agrees: "one_sink_per_client unat demo_daemon"
  by (simp add: one_sink_per_client_def demo_daemon_def sinks_of_def hm_wf_def inj_def word_unat_eq_iff)

lemma lifecycle_event_exactly_once_witness:
  "\<exists>new. queue (chans (ds_net (daemon_broadcast (Session (Some 7) SessionDeleted) demo_daemon)) 1) = new
    \<and> (filter (\<lambda>m. m \<noteq> Evicted) new = [Session (Some 7) SessionDeleted] \<or> filter (\<lambda>m. m \<noteq> Evicted) new = [])"
proof -
  let ?m = "Session (Some 7) SessionDeleted"
  have "map_of (ds_activity_subscribers demo_daemon) 1 \<noteq> None" "receiver_alive (chans (ds_net demo_daemon) (unat (1::u64)))"
    by (simp_all add: demo_daemon_def net_new_def chan_new_def)
  with lifecycle_event_exactly_once [OF demo_daemon_agrees, of ?m 1]
  show ?thesis by (auto simp: demo_daemon_def net_new_def chan_new_def)
qed

section \<open>Status changes\<close>

text \<open>
  A status change of a session travels on three paths: the session thread's own fan-out to
  its subscribers, the activity bus (as \<^verbatim>\<open>BroadcastActivity\<close>) and the summary bus (as
  \<^verbatim>\<open>BroadcastSessionStatus\<close>). The thread stamps the message with its own modification time,
  the summary path with the one of the index.
\<close>

definition status_message :: "u64 \<Rightarrow> session_status \<Rightarrow> i64 \<Rightarrow> daemon_message" where
  "status_message sid status t = Session (Some sid) (SessionStatusChanged status t)"

definition status_notices :: "u64 \<Rightarrow> session_status \<Rightarrow> daemon_message list \<Rightarrow> daemon_message list" where
  "status_notices sid status ms = filter (\<lambda>m. \<exists>t. m = status_message sid status t) ms"

lemma status_notices_news: "status_notices sid status (news ms) = status_notices sid status ms"
  by (auto simp: status_notices_def news_def status_message_def intro: filter_cong)

lemma status_notices_append [simp]:
  "status_notices sid status (ms @ ms') = status_notices sid status ms @ status_notices sid status ms'"
  by (simp add: status_notices_def)

lemma status_notices_one [simp]: "status_notices sid status [status_message sid status t] = [status_message sid status t]"
  "status_notices sid status [] = []"
  by (auto simp: status_notices_def)

definition status_change_delivered ::
  "(u64, sink) hmap \<Rightarrow> u64 \<Rightarrow> session_status \<Rightarrow> i64 \<Rightarrow> daemon_state \<Rightarrow> daemon_state" where
  "status_change_delivered subs sid status t s =
     (let n1 = snd (snd (snd (fan_out_evicting subs (status_message sid status t) (ds_lag_limits s) (\<lambda>_. False) (ds_net s))));
          s1 = handle_broadcast_activity (Some sid) (status_message sid status t) (s\<lparr>ds_net := n1\<rparr>)
      in handle_broadcast_session_status sid status s1)"

text \<open>
  A client learns of a status change of a session once, however it is subscribed. If the
  daemon's table of direct subscriptions agrees with the session's subscribers, then over
  the three paths together a connected client that is subscribed to the session, to all
  activity or to the session list receives exactly one notice of the change; only a client
  evicted meanwhile can miss it.
\<close>

lemma status_change_exactly_once:
  assumes "one_sink_per_client f s" and "sinks_of f subs"
    and "\<forall>x. subscribed_to s x sid \<longleftrightarrow> map_of subs x \<noteq> None"
    and "map_of (ds_session_metadata s) sid \<noteq> None" and "receiver_alive (chans (ds_net s) (f c))"
    and "map_of subs c \<noteq> None \<or> map_of (ds_activity_subscribers s) c \<noteq> None
       \<or> map_of (ds_summary_subscribers s) c \<noteq> None"
    and "s' = status_change_delivered subs sid status t s"
  shows "\<exists>new. queue (chans (ds_net s') (f c)) = queue (chans (ds_net s) (f c)) @ new
    \<and> (length (status_notices sid status new) = 1
       \<or> status_notices sid status new = [] \<and> map_of (ds_client_writers s) c \<noteq> None
         \<and> map_of (ds_client_writers s') c = None)"
proof -
  let ?m = "status_message sid status t"
  have ne: "status_message sid status u \<noteq> Evicted" for u by (simp add: status_message_def)
  have inj: "inj f" using assms(1) by (simp add: one_sink_per_client_def)
  define n1 where "n1 = snd (snd (snd (fan_out_evicting subs ?m (ds_lag_limits s) (\<lambda>_. False) (ds_net s))))"
  define s0 where "s0 = s\<lparr>ds_net := n1\<rparr>"
  let ?skip1 = "\<lambda>c. subscribed_to s0 c sid"
  define s1 where "s1 = fan_out_activity ?m ?skip1 s0"
  have d0: "delivers (ds_net s) n1 (copies subs (\<lambda>_. False) ?m)"
    unfolding n1_def by (rule fan_out_delivers)
  have agree0: "one_sink_per_client f s0" using assms(1) by (simp add: s0_def one_sink_per_client_def)
  have sub0: "subscribed_to s0 x sid \<longleftrightarrow> map_of subs x \<noteq> None" for x
    using assms(3) by (simp add: s0_def subscribed_to_def)
  have alive0: "receiver_alive (chans (ds_net s0) (f c))"
    using delivers_alive [OF d0, of "f c"] assms(5) by (simp add: s0_def)
  obtain E d where b1: "bus_fan_out f (ds_activity_subscribers s0) ?m ?skip1 E s0 s1 d"
    and act: "ds_activity_subscribers s1 =
      without E (filter (\<lambda>(c, k). ?skip1 c \<or> receiver_alive (chans (ds_net s0) k)) (ds_activity_subscribers s0))"
    and sum: "ds_summary_subscribers s1 = without E (ds_summary_subscribers s0)"
    using agree0 ne unfolding s1_def by (rule fan_out_activity_bus)
  have agree1: "one_sink_per_client f s1" unfolding s1_def by (rule fan_out_agree(1) [OF agree0 ne])
  from assms(4) obtain meta where meta: "map_of (ds_session_metadata s1) sid = Some meta"
    using b1 by (auto simp: bus_fan_out_def s0_def)
  define s1' where "s1' = s1\<lparr>ds_session_metadata := map_at sid (\<lambda>m. m\<lparr>meta_status := status\<rparr>) (ds_session_metadata s1)\<rparr>"
  let ?m2 = "status_message sid status (meta_last_modified meta)"
  let ?skip2 = "\<lambda>c. subscribed_to s1' c sid \<or> map_of (ds_activity_subscribers s1') c \<noteq> None"
  have agree1': "one_sink_per_client f s1'" using agree1 by (simp add: s1'_def one_sink_per_client_def)
  have s': "s' = fan_out_summary ?m2 ?skip2 s1'"
    using meta
    by (simp add: assms(7) status_change_delivered_def Let_def handle_broadcast_activity_def
        handle_broadcast_session_status_def status_message_def s1'_def s1_def s0_def n1_def)
  obtain F e where b2: "bus_fan_out f (ds_summary_subscribers s1') ?m2 ?skip2 F s1' s' e"
    using agree1' ne unfolding s' by (rule fan_out_summary_bus)
  let ?new = "copies subs (\<lambda>_. False) ?m (f c) @ d (f c) @ e (f c)"
  have in_act: "map_of (ds_activity_subscribers s1) c = (if c \<in> E then None else map_of (ds_activity_subscribers s) c)"
    using map_of_alive_filter [where f = f and c = c and n = "ds_net s0" and m = "ds_activity_subscribers s0"
        and skip = ?skip1] agree0 alive0
    by (simp add: act map_of_without one_sink_per_client_def s0_def)
  have sub1: "subscribed_to s1' c sid \<longleftrightarrow> c \<notin> E \<and> map_of subs c \<noteq> None"
    using b1 sub0 [of c] by (simp add: subscribed_to_def bus_fan_out_def s1'_def map_of_without)
  have cp: "status_notices sid status (copies subs (\<lambda>_. False) ?m (f c)) = (if map_of subs c \<noteq> None then [?m] else [])"
    using copies_client [OF inj assms(2), of "\<lambda>_. False" ?m c] by simp
  have cd: "status_notices sid status (d (f c)) =
      (if map_of (ds_activity_subscribers s) c \<noteq> None \<and> map_of subs c = None then [?m] else [])"
    using b1 sub0 [of c] status_notices_news [of sid status "d (f c)"]
    by (auto simp: bus_fan_out_def s0_def split: if_splits)
  have ce: "status_notices sid status (e (f c)) =
      (if c \<notin> E \<and> map_of (ds_summary_subscribers s) c \<noteq> None \<and> map_of subs c = None
          \<and> map_of (ds_activity_subscribers s) c = None then [?m2] else [])"
    using b2 status_notices_news [of sid status "e (f c)"] in_act sub1
    by (auto simp: bus_fan_out_def s1'_def sum s0_def map_of_without split: if_splits)
  have ev: "c \<in> E \<Longrightarrow> map_of (ds_client_writers s) c \<noteq> None \<and> map_of (ds_client_writers s') c = None"
    using b1 b2 by (auto simp: bus_fan_out_def s1'_def s0_def map_of_without map_of_eq_None_iff)
  have "delivers (ds_net s) (ds_net s') (\<lambda>k. copies subs (\<lambda>_. False) ?m k @ d k @ e k)"
  proof (rule delivers_trans [OF d0 delivers_trans])
    show "delivers n1 (ds_net s1) d" using b1 by (simp add: bus_fan_out_def s0_def)
    show "delivers (ds_net s1) (ds_net s') e" using b2 by (simp add: bus_fan_out_def s1'_def)
  qed
  from delivers_queue [OF this assms(5)]
  have "queue (chans (ds_net s') (f c)) = queue (chans (ds_net s) (f c)) @ ?new" .
  moreover have "length (status_notices sid status ?new) = 1
       \<or> status_notices sid status ?new = [] \<and> c \<in> E"
    using assms(6) by (auto simp: cp cd ce)
  ultimately show ?thesis using ev by blast
qed

lemma status_change_exactly_once_witness:
  "\<exists>new. queue (chans (ds_net (status_change_delivered [(2, 2)] 7 Inference 5 demo_daemon)) 2) = new
    \<and> (length (status_notices 7 Inference new) = 1 \<or> status_notices 7 Inference new = [])"
proof -
  have "subscribed_to demo_daemon x 7 \<longleftrightarrow> map_of [(2, 2)] x \<noteq> (None :: nat option)" for x
    by (simp add: subscribed_to_def demo_daemon_def)
  moreover have "sinks_of unat [(2, 2)]" by (simp add: sinks_of_def hm_wf_def)
  moreover have "map_of (ds_session_metadata demo_daemon) 7 \<noteq> None"
    "receiver_alive (chans (ds_net demo_daemon) (unat (2::u64)))"
    by (simp_all add: demo_daemon_def net_new_def chan_new_def)
  ultimately show ?thesis
    using status_change_exactly_once [OF demo_daemon_agrees, of "[(2, 2)]" 7 2 _ Inference 5]
    by (auto simp: demo_daemon_def net_new_def chan_new_def)
qed

section \<open>Teardown of a client\<close>

lemma most_lagging_spec:
  "most_lagging n ws best = Some (c, b) \<Longrightarrow>
     (best = Some (c, b) \<or> (\<exists>k. (c, k) \<in> set ws \<and> b = bytes_in_flight (chans n k)))
     \<and> (\<forall>(c', k') \<in> set ws. bytes_in_flight (chans n k') \<le> b)
     \<and> (\<forall>c' b'. best = Some (c', b') \<longrightarrow> b' \<le> b)"
proof (induction ws arbitrary: best)
  case Nil
  then show ?case by simp
next
  case (Cons ck ws)
  obtain c0 k0 where ck: "ck = (c0, k0)" by (cases ck)
  let ?b0 = "bytes_in_flight (chans n k0)"
  let ?best = "if ?b0 > 0 \<and> (case best of None \<Rightarrow> True | Some (_, b) \<Rightarrow> ?b0 > b) then Some (c0, ?b0) else best"
  have "most_lagging n ws ?best = Some (c, b)" using Cons.prems by (simp add: ck Let_def)
  note ih = Cons.IH [OF this]
  have "?b0 \<le> b"
  proof (cases "?b0 > 0 \<and> (case best of None \<Rightarrow> True | Some (_, b) \<Rightarrow> ?b0 > b)")
    case True
    then show ?thesis using ih by auto
  next
    case False
    then consider "?b0 = 0" | c' b' where "best = Some (c', b')" "?b0 \<le> b'"
      by (auto split: option.splits simp: word_neq_0_conv [symmetric] not_less)
    then show ?thesis using ih False by cases auto
  qed
  moreover have "\<forall>c' b'. best = Some (c', b') \<longrightarrow> b' \<le> b"
    using ih by (auto split: option.splits if_splits intro: less_imp_le order_trans)
  ultimately show ?case using ih by (auto simp: ck split: if_splits)
qed

lemma most_lagging_None:
  "most_lagging n ws None = None \<Longrightarrow> \<forall>(c, k) \<in> set ws. bytes_in_flight (chans n k) = 0"
proof (induction ws)
  case (Cons ck ws)
  obtain c k where ck: "ck = (c, k)" by (cases ck)
  have keep: "most_lagging n ws (Some x) \<noteq> None" for ws x
    by (induction ws arbitrary: x) (auto simp: Let_def split: prod.splits)
  show ?case
  proof (cases "bytes_in_flight (chans n k) > 0")
    case True
    then show ?thesis using Cons.prems keep by (simp add: ck Let_def)
  next
    case False
    then show ?thesis using Cons by (auto simp: ck Let_def word_gt_0)
  qed
qed simp

text \<open>
  Relief of the daemon-wide budget. \<^verbatim>\<open>EvictLargestLagging\<close> tears down a client whose
  backlog is maximal among all connected ones: it is told, it is removed from every map of
  the daemon, and every other client stays. It does nothing only if no connected client has
  any backlog.
\<close>

lemma evict_largest_lagging_spec:
  assumes "hm_wf (ds_client_writers s)"
  shows "(\<forall>(c, k) \<in> set (ds_client_writers s). bytes_in_flight (chans (ds_net s) k) = 0)
       \<and> handle_evict_largest_lagging s = s
     \<or> (\<exists>c k. (c, k) \<in> set (ds_client_writers s)
          \<and> (\<forall>(c', k') \<in> set (ds_client_writers s).
               bytes_in_flight (chans (ds_net s) k') \<le> bytes_in_flight (chans (ds_net s) k))
          \<and> evicts {c} s (handle_evict_largest_lagging s)
          \<and> chans (ds_net (handle_evict_largest_lagging s)) k = chan_deliver [Evicted] (chans (ds_net s) k))"
proof (cases "most_lagging (ds_net s) (ds_client_writers s) None")
  case None
  then show ?thesis
    using most_lagging_None [OF None] by (simp add: handle_evict_largest_lagging_def)
next
  case (Some cb)
  obtain c b where cb: "cb = (c, b)" by (cases cb)
  from most_lagging_spec [of "ds_net s" "ds_client_writers s" None c b] Some cb
  obtain k where k: "(c, k) \<in> set (ds_client_writers s)" "b = bytes_in_flight (chans (ds_net s) k)"
    and mx: "\<forall>(c', k') \<in> set (ds_client_writers s). bytes_in_flight (chans (ds_net s) k') \<le> b"
    by auto
  have look: "map_of (ds_client_writers s) c = Some k" using k(1) assms by (simp add: hm_wf_def)
  have h: "handle_evict_largest_lagging s = handle_evict_client c s"
    using Some cb by (simp add: handle_evict_largest_lagging_def)
  have "ds_net (handle_evict_client c s) = fst (send_unchecked k Evicted (ds_net s))"
  proof -
    obtain sent where "remove_client_from_sessions c (s\<lparr>ds_net := fst (send_unchecked k Evicted (ds_net s)),
        ds_summary_subscribers := without {c} (ds_summary_subscribers s),
        ds_activity_subscribers := without {c} (ds_activity_subscribers s)\<rparr>) =
      s\<lparr>ds_net := fst (send_unchecked k Evicted (ds_net s)),
        ds_summary_subscribers := without {c} (ds_summary_subscribers s),
        ds_activity_subscribers := without {c} (ds_activity_subscribers s),
        ds_client_subscribed_sessions := without {c} (ds_client_subscribed_sessions s), ds_sent := sent\<rparr>"
      using remove_client_from_sessions_eq [of c "s\<lparr>ds_net := fst (send_unchecked k Evicted (ds_net s)),
        ds_summary_subscribers := without {c} (ds_summary_subscribers s),
        ds_activity_subscribers := without {c} (ds_activity_subscribers s)\<rparr>"] by auto
    then show ?thesis by (simp add: handle_evict_client_def look Let_def delete_without del: send_unchecked_net)
  qed
  then have "chans (ds_net (handle_evict_client c s)) k = chan_deliver [Evicted] (chans (ds_net s) k)"
    using raw.send_delivers [of "ds_net s" k Evicted] by (simp add: delivers_def one_def)
  moreover have "evicts {c} s (handle_evict_client c s)"
    using handle_evict_client_evicts [of s c] look by simp
  ultimately show ?thesis using k mx h by auto
qed

lemma evict_largest_lagging_spec_witness:
  "map_of (ds_client_writers (handle_evict_largest_lagging
     (demo_daemon\<lparr>ds_net := upd_chan 2 (\<lambda>c. c\<lparr>bytes_in_flight := 96\<rparr>) net_new\<rparr>))) 2 = None"
proof -
  let ?s = "demo_daemon\<lparr>ds_net := upd_chan 2 (\<lambda>c. c\<lparr>bytes_in_flight := 96\<rparr>) net_new\<rparr>"
  have w: "ds_client_writers ?s = [(1, 1), (2, 2)]" and hw: "hm_wf (ds_client_writers ?s)"
    by (simp_all add: demo_daemon_def hm_wf_def)
  have b: "bytes_in_flight (chans (ds_net ?s) 2) = 96" "bytes_in_flight (chans (ds_net ?s) 1) = 0"
    by (simp_all add: upd_chan_def net_new_def chan_new_def)
  from evict_largest_lagging_spec [OF hw] obtain c k where "(c, k) \<in> set (ds_client_writers ?s)"
    and "\<forall>(c', k') \<in> set (ds_client_writers ?s).
      bytes_in_flight (chans (ds_net ?s) k') \<le> bytes_in_flight (chans (ds_net ?s) k)"
    and e: "evicts {c} ?s (handle_evict_largest_lagging ?s)"
    using b by (auto simp: w)
  then have "c = 2" using b by (auto simp: w)
  with e show ?thesis by (auto simp: evicts_def w map_of_without)
qed

text \<open>
  Nothing of a disconnected client stays behind: it is in none of the daemon's four
  tables, every session thread it was subscribed to and that is still active is told to drop
  it, and all other clients are untouched.
\<close>

lemma disconnect_leaves_no_trace:
  "map_of (ds_summary_subscribers (handle_client_disconnected c s)) =
     (map_of (ds_summary_subscribers s))(c := None)
   \<and> map_of (ds_activity_subscribers (handle_client_disconnected c s)) =
     (map_of (ds_activity_subscribers s))(c := None)
   \<and> map_of (ds_client_writers (handle_client_disconnected c s)) =
     (map_of (ds_client_writers s))(c := None)
   \<and> map_of (ds_client_subscribed_sessions (handle_client_disconnected c s)) =
     (map_of (ds_client_subscribed_sessions s))(c := None)
   \<and> ds_sent (handle_client_disconnected c s) = ds_sent s
     @ List.map_filter (\<lambda>sid. map_option (\<lambda>th. (th, RemoveSubscriber c)) (map_of (ds_active_sessions s) sid))
         (case map_of (ds_client_subscribed_sessions s) c of None \<Rightarrow> [] | Some sids \<Rightarrow> sids)
   \<and> ds_net (handle_client_disconnected c s) = ds_net s"
proof -
  let ?s2 = "s\<lparr>ds_summary_subscribers := without {c} (ds_summary_subscribers s),
     ds_activity_subscribers := without {c} (ds_activity_subscribers s)\<rparr>"
  have snt: "ds_sent (fold (\<lambda>sid. send_session sid cmd) sids u) =
      ds_sent u @ List.map_filter (\<lambda>sid. map_option (\<lambda>th. (th, cmd)) (map_of (ds_active_sessions u) sid)) sids"
    for cmd sids u
  proof (induction sids arbitrary: u)
    case Nil
    show ?case by (simp add: List.map_filter_simps)
  next
    case (Cons sid sids)
    have "ds_active_sessions (send_session sid cmd u) = ds_active_sessions u"
      by (simp add: send_session_def split: option.splits)
    then show ?case
      using Cons.IH [of "send_session sid cmd u"]
      by (simp add: List.map_filter_simps) (simp add: send_session_def split: option.splits)
  qed
  obtain sent where r: "remove_client_from_sessions c ?s2 =
      ?s2\<lparr>ds_client_subscribed_sessions := without {c} (ds_client_subscribed_sessions s), ds_sent := sent\<rparr>"
    using remove_client_from_sessions_eq [of c ?s2] by auto
  have h: "handle_client_disconnected c s =
      ?s2\<lparr>ds_client_subscribed_sessions := without {c} (ds_client_subscribed_sessions s), ds_sent := sent,
         ds_client_writers := without {c} (ds_client_writers s)\<rparr>"
    using r by (simp add: handle_client_disconnected_def Let_def delete_without)
  have "sent = ds_sent (remove_client_from_sessions c ?s2)" by (simp add: r)
  also have "\<dots> = ds_sent s
     @ List.map_filter (\<lambda>sid. map_option (\<lambda>th. (th, RemoveSubscriber c)) (map_of (ds_active_sessions s) sid))
         (case map_of (ds_client_subscribed_sessions s) c of None \<Rightarrow> [] | Some sids \<Rightarrow> sids)"
    by (cases "map_of (ds_client_subscribed_sessions s) c")
       (simp_all add: remove_client_from_sessions_def snt List.map_filter_simps)
  finally show ?thesis by (simp add: h fun_eq_iff map_of_without)
qed

end
