(* ===== verification/Daemon_Sessions.thy ===== *)
theory Daemon_Sessions
  imports Daemon_Fanout
begin

text \<open>
  The daemon's command loop, second part (\<^verbatim>\<open>choreo-daemon/src/daemon.rs\<close>): creating, attaching,
  listing and deleting sessions, the metadata index, parents and children, model-list
  prefetching, and the dispatcher. The build without the optional \<^verbatim>\<open>content\<close> feature is
  modelled.
\<close>

section \<open>Model lists\<close>

definition MODEL_CACHE_TTL :: nat where
  "MODEL_CACHE_TTL = 300 * 1000"

definition should_prefetch_models :: "daemon_ctx \<Rightarrow> string \<Rightarrow> daemon_state \<Rightarrow> bool" where
  "should_prefetch_models ctx account s =
     (if map_of (ds_providers s) account = None \<or> account \<in> set (ds_model_prefetch_in_flight s) then False
      else case map_of (ds_model_cache s) account of
             Some (_, cached_at) \<Rightarrow> dx_instant ctx - cached_at \<ge> MODEL_CACHE_TTL
           | None \<Rightarrow> True)"

definition maybe_spawn_model_prefetch :: "daemon_ctx \<Rightarrow> string \<Rightarrow> daemon_state \<Rightarrow> daemon_state" where
  "maybe_spawn_model_prefetch ctx account s =
     (if \<not> should_prefetch_models ctx account s then s
      else
        let s1 = s\<lparr>ds_model_prefetch_in_flight := hset_insert account (ds_model_prefetch_in_flight s)\<rparr>
        in if map_of (ds_providers s1) account \<noteq> None \<and> dx_prefetch_spawns ctx account
           then s1\<lparr>ds_prefetchers := ds_prefetchers s1 @ [account]\<rparr>
           else s1\<lparr>ds_model_prefetch_in_flight := hset_remove account (ds_model_prefetch_in_flight s1)\<rparr>)"

definition handle_model_prefetch_result ::
  "daemon_ctx \<Rightarrow> string \<Rightarrow> string + string list \<Rightarrow> daemon_state \<Rightarrow> daemon_state" where
  "handle_model_prefetch_result ctx account result s =
     (let s1 = s\<lparr>ds_model_prefetch_in_flight := hset_remove account (ds_model_prefetch_in_flight s)\<rparr>
      in case result of
           Inr models \<Rightarrow>
             if map_of (ds_providers s1) account = None then s1
             else s1\<lparr>ds_model_cache := AList.update account (models, dx_instant ctx) (ds_model_cache s1)\<rparr>
         | Inl _ \<Rightarrow> s1)"

definition session_account :: "u64 \<Rightarrow> daemon_state \<Rightarrow> string option" where
  "session_account sid s = Option.bind (map_of (ds_session_metadata s) sid) meta_account_name"

definition handle_list_models_inner ::
  "daemon_ctx \<Rightarrow> u64 option \<Rightarrow> daemon_state \<Rightarrow> daemon_state \<times> (string + (string list \<times> string option))" where
  "handle_list_models_inner ctx session_id s =
     (let account = (case Option.bind session_id (\<lambda>sid. session_account sid s) of Some a \<Rightarrow> a | None \<Rightarrow> []);
          selected = Option.bind (Option.bind session_id (map_of (ds_session_metadata s))) meta_selected_model
      in if map_of (ds_providers s) account = None
         then (s, Inl (if ds_accounts s = [] then ''no accounts configured''
                       else ''no credential stored for account '' @ [CHR 0x27] @ account @ [CHR 0x27]))
         else case map_of (ds_model_cache s) account of
                Some (models, cached_at) \<Rightarrow>
                  if dx_instant ctx - cached_at < MODEL_CACHE_TTL then (s, Inr (models, selected))
                  else (maybe_spawn_model_prefetch ctx account s, Inr (models, selected))
              | None \<Rightarrow>
                  (maybe_spawn_model_prefetch ctx account s,
                   Inl (''model list for account '' @ [CHR 0x27] @ account @ [CHR 0x27]
                        @ '' is warming in the background; retry in a moment'')))"

definition handle_list_models :: "daemon_ctx \<Rightarrow> u64 option \<Rightarrow> reply_chan \<Rightarrow> daemon_state \<Rightarrow> daemon_state" where
  "handle_list_models ctx session_id reply s =
     (case handle_list_models_inner ctx session_id s of (s', r) \<Rightarrow> reply_to reply (ModelsReply r) s')"

definition handle_validate_model :: "daemon_ctx \<Rightarrow> u64 \<Rightarrow> string \<Rightarrow> daemon_state \<Rightarrow> string + unit" where
  "handle_validate_model ctx session_id model s =
     (case session_account session_id s of
        None \<Rightarrow> Inr ()
      | Some account \<Rightarrow>
          if map_of (ds_providers s) account = None
          then Inl (''daemon is locked or no credential configured for account ''
                    @ [CHR 0x27] @ account @ [CHR 0x27])
          else case map_of (ds_model_cache s) account of
                 Some (cached, _) \<Rightarrow>
                   if cached = [] then Inr ()
                   else if model \<in> set cached then Inr ()
                   else Inl (''model '' @ [CHR 0x27] @ model @ [CHR 0x27] @ '' not found. Available: ''
                             @ dx_list_fmt ctx cached)
               | None \<Rightarrow> Inr ())"

definition handle_resolve_provider :: "string \<Rightarrow> daemon_state \<Rightarrow> inference_provider option" where
  "handle_resolve_provider account s = map_of (ds_providers s) account"

section \<open>Creating and attaching\<close>

definition spawn_session ::
  "u64 \<Rightarrow> session_record \<Rightarrow> session_metadata \<Rightarrow> daemon_state \<Rightarrow> daemon_state \<times> nat" where
  "spawn_session session_id record metadata s =
     (let th = ds_next_thread s;
          prov = Option.bind (meta_account_name metadata) (map_of (ds_providers s))
      in (s\<lparr>ds_next_thread := th + 1,
            ds_spawned := ds_spawned s @ [(th, session_id, record, prov)],
            ds_active_sessions := AList.update session_id th (ds_active_sessions s),
            ds_session_metadata := AList.update session_id metadata (ds_session_metadata s)\<rparr>, th))"

definition default_groups :: "string list" where
  "default_groups = [''core'', ''git'', ''shell'']"

definition created_record ::
  "daemon_ctx \<Rightarrow> string option \<Rightarrow> u64 option \<Rightarrow> string option \<Rightarrow> string option \<Rightarrow> string option
   \<Rightarrow> context_config option \<Rightarrow> string option \<Rightarrow> string list \<Rightarrow> session_record" where
  "created_record ctx title parent working_dir effort model context_cfg account groups =
     \<lparr>rec_title = title, rec_selected_model = model, rec_parent_session_id = parent,
      rec_working_dir = map_option path_display working_dir, rec_turn_count = 0,
      rec_created_at = dx_now ctx, rec_last_modified = dx_now ctx,
      rec_active_tool_groups = (if groups = [] then default_groups else groups),
      rec_context_config = (case context_cfg of Some c \<Rightarrow> c | None \<Rightarrow> context_config_default),
      rec_account_name = account, rec_reasoning_effort = effort, rec_last_response_id = None,
      rec_last_response_id_producer = None\<rparr>"

definition created_metadata :: "session_record \<Rightarrow> u32 option \<Rightarrow> session_metadata" where
  "created_metadata r window =
     \<lparr>meta_title = rec_title r, meta_selected_model = rec_selected_model r,
      meta_reasoning_effort = rec_reasoning_effort r,
      meta_parent_session_id = rec_parent_session_id r, meta_working_dir = rec_working_dir r,
      meta_created_at = rec_created_at r, meta_last_modified = rec_last_modified r,
      meta_turn_count = 0, meta_status = Inactive,
      meta_active_tool_groups = rec_active_tool_groups r, meta_account_name = rec_account_name r,
      meta_accumulated_usage = token_usage_default, meta_context_window = window,
      meta_last_prompt_tokens = None\<rparr>"

definition warm_models :: "daemon_ctx \<Rightarrow> string option \<Rightarrow> daemon_state \<Rightarrow> daemon_state" where
  "warm_models ctx account s =
     (case account of None \<Rightarrow> s | Some name \<Rightarrow> maybe_spawn_model_prefetch ctx name s)"

definition add_child :: "u64 option \<Rightarrow> u64 \<Rightarrow> daemon_state \<Rightarrow> daemon_state" where
  "add_child parent sid s =
     (case parent of
        None \<Rightarrow> s
      | Some p \<Rightarrow>
          let old = (case map_of (ds_children s) p of None \<Rightarrow> [] | Some l \<Rightarrow> l)
          in s\<lparr>ds_children := AList.update p (old @ [sid]) (ds_children s)\<rparr>)"

definition handle_create_session ::
  "daemon_ctx \<Rightarrow> string option \<Rightarrow> u64 option \<Rightarrow> string option \<Rightarrow> string option \<Rightarrow> string option
   \<Rightarrow> context_config option \<Rightarrow> string option \<Rightarrow> string list \<Rightarrow> reply_chan \<Rightarrow> daemon_state \<Rightarrow> daemon_state" where
  "handle_create_session ctx title parent working_dir effort model context_cfg account groups reply s =
     (let sid = ds_next_session_id s;
          s1 = s\<lparr>ds_next_session_id := sid + 1\<rparr>;
          window = Option.bind account (\<lambda>name. Option.bind (map_of (ds_accounts s1) name)
                     (\<lambda>prov. Option.bind model (dx_context_window ctx prov)));
          record = created_record ctx title parent working_dir effort model context_cfg account groups;
          s2 = s1\<lparr>ds_db := fst (write_session sid record (ds_db s1))\<rparr>;
          metadata = created_metadata record window
      in case spawn_session sid record metadata s2 of
           (s3, th) \<Rightarrow>
             let s4 = warm_models ctx account s3;
                 s5 = add_child parent sid s4;
                 s6 = reply_to reply (CreatedReply sid th) s5;
                 created_msg = Session (Some sid) (SessionCreated title parent
                   (map_option path_display working_dir) account model effort);
                 status_msg = Session (Some sid) (SessionStatusChanged Inactive (rec_created_at record))
             in daemon_broadcast status_msg (daemon_broadcast created_msg s6))"

definition handle_attach_session :: "daemon_ctx \<Rightarrow> u64 \<Rightarrow> reply_chan \<Rightarrow> daemon_state \<Rightarrow> daemon_state" where
  "handle_attach_session ctx session_id reply s =
     (if session_id \<in> ds_deleted_sessions s
      then reply_to reply (AttachReply (Inl SessionNotFound)) s
      else case map_of (ds_active_sessions s) session_id of
        Some th \<Rightarrow>
          reply_to reply (AttachReply (Inr th)) (warm_models ctx (session_account session_id s) s)
      | None \<Rightarrow>
          (case read_session session_id (ds_db s) of
             (d', None) \<Rightarrow> reply_to reply (AttachReply (Inl DatabaseError)) (s\<lparr>ds_db := d'\<rparr>)
           | (d', Some None) \<Rightarrow> reply_to reply (AttachReply (Inl SessionNotFound)) (s\<lparr>ds_db := d'\<rparr>)
           | (d', Some (Some record)) \<Rightarrow>
               (case spawn_session session_id record
                       ((metadata_of_record record)\<lparr>meta_status := Inactive\<rparr>) (s\<lparr>ds_db := d'\<rparr>) of
                  (s2, th) \<Rightarrow>
                    reply_to reply (AttachReply (Inr th)) (warm_models ctx (session_account session_id s2) s2))))"

section \<open>The index\<close>

text \<open>Most recently modified first, larger ids first among equals.\<close>

definition list_sessions :: "(u64, session_metadata) hmap \<Rightarrow> session_summary list" where
  "list_sessions m =
     sort_key (\<lambda>x. - sum_last_modified x)
       (sort_key (\<lambda>x. - uint (sum_session_id x)) (map (\<lambda>(i, meta). to_summary meta i) m))"

definition handle_list_sessions :: "reply_chan \<Rightarrow> daemon_state \<Rightarrow> daemon_state" where
  "handle_list_sessions reply s = reply_to reply (ListReply (list_sessions (ds_session_metadata s))) s"

definition handle_get_session :: "u64 \<Rightarrow> reply_chan \<Rightarrow> daemon_state \<Rightarrow> daemon_state" where
  "handle_get_session session_id reply s =
     reply_to reply (GetReply (map_option (\<lambda>m. to_summary m session_id)
       (map_of (ds_session_metadata s) session_id))) s"

definition handle_update_metadata :: "daemon_ctx \<Rightarrow> u64 \<Rightarrow> session_metadata \<Rightarrow> daemon_state \<Rightarrow> daemon_state" where
  "handle_update_metadata ctx session_id metadata s =
     (if session_id \<in> ds_deleted_sessions s then s
      else
        let existing = map_of (ds_session_metadata s) session_id;
            m1 = (case existing of
                    None \<Rightarrow> metadata
                  | Some e \<Rightarrow> metadata\<lparr>meta_last_modified := max (meta_last_modified metadata) (meta_last_modified e)\<rparr>);
            m2 = (case existing of
                    None \<Rightarrow> m1
                  | Some e \<Rightarrow> if meta_status e = Sleeping then m1\<lparr>meta_status := Sleeping\<rparr> else m1);
            old_account = session_account session_id s;
            new_account = meta_account_name m2;
            s1 = s\<lparr>ds_session_metadata := AList.update session_id m2 (ds_session_metadata s)\<rparr>
        in if new_account \<noteq> None \<and> new_account \<noteq> old_account then warm_models ctx new_account s1 else s1)"

section \<open>Parents and children\<close>

definition remove_child_from_all_parents :: "u64 \<Rightarrow> daemon_state \<Rightarrow> daemon_state" where
  "remove_child_from_all_parents child_id s =
     s\<lparr>ds_children := filter (\<lambda>(_, v). v \<noteq> []) (map (\<lambda>(p, v). (p, filter (\<lambda>c. c \<noteq> child_id) v)) (ds_children s))\<rparr>"

definition cancel_and_shutdown_child :: "u64 \<Rightarrow> daemon_state \<Rightarrow> daemon_state" where
  "cancel_and_shutdown_child child_id s =
     send_session child_id Shutdown (send_session child_id (Cancel 0) s)"

definition cancel_children_of :: "u64 \<Rightarrow> daemon_state \<Rightarrow> daemon_state" where
  "cancel_children_of parent_id s =
     (if map_of (ds_active_sessions s) parent_id = None \<and> map_of (ds_session_metadata s) parent_id = None
      then s
      else case map_of (ds_children s) parent_id of
             None \<Rightarrow> s
           | Some children \<Rightarrow> fold (\<lambda>c. send_session c (Cancel 0)) children s)"

definition handle_cancel_request :: "u64 \<Rightarrow> u32 \<Rightarrow> daemon_state \<Rightarrow> daemon_state" where
  "handle_cancel_request session_id request_id s =
     cancel_children_of session_id (send_session session_id (Cancel request_id) s)"

section \<open>Exit and deletion\<close>

definition sleep_session :: "u64 \<Rightarrow> daemon_state \<Rightarrow> daemon_state" where
  "sleep_session session_id s =
     (case map_of (ds_session_metadata s) session_id of
        None \<Rightarrow> s
      | Some meta \<Rightarrow>
          daemon_broadcast
            (Session (Some session_id) (SessionStatusChanged Sleeping (meta_last_modified meta)))
            (s\<lparr>ds_session_metadata :=
                 map_at session_id (\<lambda>m. m\<lparr>meta_status := Sleeping\<rparr>) (ds_session_metadata s)\<rparr>))"

definition handle_session_exited :: "u64 \<Rightarrow> daemon_state \<Rightarrow> daemon_state" where
  "handle_session_exited session_id s =
     (let s1 = s\<lparr>ds_active_sessions := AList.delete session_id (ds_active_sessions s)\<rparr>;
          s2 = (case map_of (ds_children s1) session_id of
                  None \<Rightarrow> s1
                | Some children \<Rightarrow>
                    fold (\<lambda>c s. cancel_and_shutdown_child c (remove_child_from_all_parents c s)) children
                      (s1\<lparr>ds_children := AList.delete session_id (ds_children s1)\<rparr>));
          s3 = sleep_session session_id s2
      in if session_id \<in> ds_deleted_sessions s3
         then s3\<lparr>ds_finalizers := ds_finalizers s3 @ [session_id]\<rparr> else s3)"

definition handle_session_delete_finalized :: "u64 \<Rightarrow> daemon_state \<Rightarrow> daemon_state" where
  "handle_session_delete_finalized session_id s =
     s\<lparr>ds_deleted_sessions := ds_deleted_sessions s - {session_id}\<rparr>"

text \<open>The body of a finalizer thread, and the command it sends on success.\<close>

definition finalize_session_delete :: "u64 \<Rightarrow> db \<Rightarrow> db \<times> daemon_command option" where
  "finalize_session_delete session_id d =
     (case delete_session session_id d of
        (d1, True) \<Rightarrow> (fst (clear_session_tombstone session_id d1), Some (D_SessionDeleteFinalized session_id))
      | (d1, False) \<Rightarrow> (d1, None))"

definition announce_deleted :: "u64 \<Rightarrow> daemon_state \<Rightarrow> daemon_state" where
  "announce_deleted session_id s =
     daemon_broadcast (Session (Some session_id) SessionDeleted)
       (s\<lparr>ds_session_metadata := AList.delete session_id (ds_session_metadata s)\<rparr>)"

definition delete_finished_session :: "u64 \<Rightarrow> daemon_state \<Rightarrow> daemon_state \<times> bool" where
  "delete_finished_session session_id s =
     (let s1 = s\<lparr>ds_deleted_sessions := insert session_id (ds_deleted_sessions s)\<rparr>
      in case delete_session session_id (ds_db s1) of
           (d1, False) \<Rightarrow> (s1\<lparr>ds_db := d1\<rparr>, False)
         | (d1, True) \<Rightarrow>
             (announce_deleted session_id (s1\<lparr>ds_db := fst (clear_session_tombstone session_id d1)\<rparr>), True))"

definition delete_session_inner :: "daemon_ctx \<Rightarrow> u64 \<Rightarrow> daemon_state \<Rightarrow> daemon_state \<times> bool" where
  "delete_session_inner ctx session_id s =
     (case map_of (ds_active_sessions s) session_id of
        Some th \<Rightarrow>
          let s1 = s\<lparr>ds_active_sessions := AList.delete session_id (ds_active_sessions s)\<rparr>
          in if dx_is_finished ctx th then delete_finished_session session_id s1
             else
               let s2 = s1\<lparr>ds_deleted_sessions := insert session_id (ds_deleted_sessions s1)\<rparr>;
                   s3 = s2\<lparr>ds_db := fst (mark_session_deleted session_id (ds_db s2))\<rparr>;
                   s4 = s3\<lparr>ds_sent := ds_sent s3 @ [(th, Cancel 0), (th, Shutdown)]\<rparr>
               in (announce_deleted session_id s4, True)
      | None \<Rightarrow>
          (case delete_session session_id (ds_db s) of
             (d1, False) \<Rightarrow> (s\<lparr>ds_db := d1\<rparr>, False)
           | (d1, True) \<Rightarrow>
               let s1 = s\<lparr>ds_db := (if session_id \<in> ds_deleted_sessions s then d1
                                   else fst (clear_session_tombstone session_id d1))\<rparr>
               in (announce_deleted session_id s1, True)))"

definition handle_delete_session :: "daemon_ctx \<Rightarrow> u64 \<Rightarrow> reply_chan \<Rightarrow> daemon_state \<Rightarrow> daemon_state" where
  "handle_delete_session ctx session_id reply s =
     (let s1 = (case map_of (ds_children s) session_id of
                  None \<Rightarrow> s
                | Some children \<Rightarrow>
                    fold (\<lambda>c s. fst (delete_session_inner ctx c (remove_child_from_all_parents c s))) children
                      (s\<lparr>ds_children := AList.delete session_id (ds_children s)\<rparr>));
          s2 = remove_child_from_all_parents session_id s1
      in case delete_session_inner ctx session_id s2 of (s3, ok) \<Rightarrow> reply_to reply (DeleteReply ok) s3)"

section \<open>Forwarding, locking and the dispatcher\<close>

definition forward_or_refuse ::
  "u64 \<Rightarrow> session_command \<Rightarrow> reply_chan \<Rightarrow> daemon_state \<Rightarrow> daemon_state" where
  "forward_or_refuse session_id cmd reply s =
     (if map_of (ds_active_sessions s) session_id = None
      then reply_to reply (TextReplyD (Inl ''session is not active'')) s
      else send_session session_id cmd s)"

definition daemon_handle_set_working_dir :: "u64 \<Rightarrow> string \<Rightarrow> reply_chan \<Rightarrow> daemon_state \<Rightarrow> daemon_state" where
  "daemon_handle_set_working_dir session_id path reply =
     forward_or_refuse session_id (SetWorkingDir path reply) reply"

definition daemon_handle_load_tools :: "u64 \<Rightarrow> string list \<Rightarrow> reply_chan \<Rightarrow> daemon_state \<Rightarrow> daemon_state" where
  "daemon_handle_load_tools session_id groups reply =
     forward_or_refuse session_id (LoadTools groups reply) reply"

definition daemon_handle_unload_tools :: "u64 \<Rightarrow> string list \<Rightarrow> reply_chan \<Rightarrow> daemon_state \<Rightarrow> daemon_state" where
  "daemon_handle_unload_tools session_id groups reply =
     forward_or_refuse session_id (UnloadTools groups reply) reply"

definition handle_set_session_title :: "u64 \<Rightarrow> string \<Rightarrow> daemon_state \<Rightarrow> daemon_state" where
  "handle_set_session_title session_id title = send_session session_id (SetTitle title)"

definition handle_lock :: "reply_chan \<Rightarrow> daemon_state \<Rightarrow> daemon_state" where
  "handle_lock reply s =
     (let was_locked = ds_locked s;
          s1 = s\<lparr>ds_providers := [], ds_locked := True\<rparr>;
          s2 = (if \<not> was_locked then broadcast_lock_state s1 else s1)
      in reply_to reply LockReply s2)"

fun handle_command :: "daemon_ctx \<Rightarrow> daemon_command \<Rightarrow> daemon_state \<Rightarrow> daemon_state" where
  "handle_command ctx (D_CreateSession title parent wd effort model cc account groups reply) s =
     handle_create_session ctx title parent wd effort model cc account groups reply s"
| "handle_command ctx (D_AttachSession sid reply) s = handle_attach_session ctx sid reply s"
| "handle_command ctx (D_ListSessions reply) s = handle_list_sessions reply s"
| "handle_command ctx (D_GetSession sid reply) s = handle_get_session sid reply s"
| "handle_command ctx (D_UpdateMetadata sid m) s = handle_update_metadata ctx sid m s"
| "handle_command ctx (D_SessionExited sid) s = handle_session_exited sid s"
| "handle_command ctx (D_SessionDeleteFinalized sid) s = handle_session_delete_finalized sid s"
| "handle_command ctx (D_RegisterSummarySubscriber c k) s = handle_register_summary_subscriber c k s"
| "handle_command ctx (D_UnregisterSummarySubscriber c) s = handle_unregister_summary_subscriber c s"
| "handle_command ctx (D_RegisterActivitySubscriber c k) s = handle_register_activity_subscriber ctx c k s"
| "handle_command ctx (D_UnregisterActivitySubscriber c) s = handle_unregister_activity_subscriber c s"
| "handle_command ctx (D_TrackSessionSubscription c sid) s = handle_track_session_subscription c sid s"
| "handle_command ctx (D_UntrackSessionSubscription c sid) s = handle_untrack_session_subscription c sid s"
| "handle_command ctx (D_ClientDisconnected c) s = handle_client_disconnected c s"
| "handle_command ctx (D_RegisterClientWriter c k) s = handle_register_client_writer c k s"
| "handle_command ctx (D_EvictClient c) s = handle_evict_client c s"
| "handle_command ctx D_EvictLargestLagging s = handle_evict_largest_lagging s"
| "handle_command ctx D_BroadcastShuttingDown s = handle_broadcast_shutting_down s"
| "handle_command ctx (D_BroadcastActivity sid msg) s = handle_broadcast_activity sid msg s"
| "handle_command ctx (D_BroadcastSessionStatus sid status) s = handle_broadcast_session_status sid status s"
| "handle_command ctx (D_DeleteSession sid reply) s = handle_delete_session ctx sid reply s"
| "handle_command ctx (D_ResolveProviderCmd name) s =
     s\<lparr>ds_answers := ds_answers s @ [ProviderAnswer (handle_resolve_provider name s)]\<rparr>"
| "handle_command ctx (D_ValidateModel sid model) s =
     s\<lparr>ds_answers := ds_answers s @ [ModelAnswer (handle_validate_model ctx sid model s)]\<rparr>"
| "handle_command ctx (D_CancelRequest sid rid) s = handle_cancel_request sid rid s"
| "handle_command ctx (D_SetSessionTitle sid title) s = handle_set_session_title sid title s"
| "handle_command ctx (D_SetWorkingDir sid path reply) s = daemon_handle_set_working_dir sid path reply s"
| "handle_command ctx (D_LoadTools sid gs reply) s = daemon_handle_load_tools sid gs reply s"
| "handle_command ctx (D_UnloadTools sid gs reply) s = daemon_handle_unload_tools sid gs reply s"
| "handle_command ctx (D_Lock reply) s = handle_lock reply s"
| "handle_command ctx (D_ListModels sid reply) s = handle_list_models ctx sid reply s"
| "handle_command ctx (D_ModelPrefetchResult account r) s = handle_model_prefetch_result ctx account r s"
| "handle_command ctx (D_AccountExists name reply) s =
     reply_to reply (BoolReply (map_of (ds_accounts s) name \<noteq> None)) s"

end
