(* ===== verification/Daemon_Lifecycle.thy ===== *)
theory Daemon_Lifecycle
  imports Daemon_Sessions
begin

text \<open>
  The life of sessions: the daemon's command loop together with the session threads it
  spawned and the finalizer threads of deleted sessions, all running concurrently. A
  session thread may write its record until it has done its final write; its exit message
  is handled some time later; a finalizer deletes the record and confirms.

  The invariant says that a session has at most one thread, that a deleted session is
  neither listed nor active, and that as long as its record can come back a tombstone is on
  disk. It gives that deletions are permanent, also across a crash. The database accepts
  writes here.
\<close>

section \<open>Frame of the subscriber handlers\<close>

definition life_core ::
  "daemon_state \<Rightarrow> u64 \<times> (u64, nat) hmap \<times> u64 set \<times> u64 set \<times> db
     \<times> (nat \<times> u64 \<times> session_record \<times> inference_provider option) list \<times> u64 list \<times> nat" where
  "life_core s = (ds_next_session_id s, ds_active_sessions s, fst ` set (ds_session_metadata s),
     ds_deleted_sessions s, ds_db s, ds_spawned s, ds_finalizers s, ds_next_thread s)"

lemma evicts_core: "evicts E s s' \<Longrightarrow> life_core s' = life_core s"
  by (auto simp: evicts_def life_core_def)

lemma evicts_fields:
  "evicts E s s' \<Longrightarrow> ds_children s' = ds_children s \<and> ds_session_metadata s' = ds_session_metadata s
     \<and> ds_replies s' = ds_replies s"
  by (auto simp: evicts_def)

lemma finish_evictions_core [simp]: "life_core (finish_evictions ev lg s) = life_core s"
  using finish_evictions_evicts evicts_core by metis

lemma finish_evictions_fields [simp]:
  "ds_children (finish_evictions ev lg s) = ds_children s"
  "ds_session_metadata (finish_evictions ev lg s) = ds_session_metadata s"
  "ds_replies (finish_evictions ev lg s) = ds_replies s"
  using finish_evictions_evicts evicts_fields by metis+

lemma fan_out_core [simp]:
  "life_core (fan_out_activity m skip s) = life_core s"
  "life_core (fan_out_summary m skip s) = life_core s"
  "ds_children (fan_out_activity m skip s) = ds_children s"
  "ds_children (fan_out_summary m skip s) = ds_children s"
  "ds_replies (fan_out_activity m skip s) = ds_replies s"
  "ds_replies (fan_out_summary m skip s) = ds_replies s"
  by (simp_all add: fan_out_activity_def fan_out_summary_def case_prod_unfold)
     (simp_all add: life_core_def)

lemma daemon_broadcast_core [simp]:
  "life_core (daemon_broadcast m s) = life_core s"
  "ds_children (daemon_broadcast m s) = ds_children s"
  "ds_replies (daemon_broadcast m s) = ds_replies s"
  by (simp_all add: daemon_broadcast_def Let_def)

lemma send_session_core [simp]:
  "life_core (send_session sid cmd s) = life_core s"
  "life_core (fold (\<lambda>sid. send_session sid cmd) sids s) = life_core s"
proof -
  show c: "life_core (send_session sid cmd s) = life_core s" for sid s
    by (simp add: send_session_def life_core_def split: option.splits)
  show "life_core (fold (\<lambda>sid. send_session sid cmd) sids s) = life_core s"
    by (induction sids arbitrary: s) (simp_all add: c)
qed

lemma small_core [simp]:
  "life_core (reply_to ch v s) = life_core s"
  "life_core (remove_child_from_all_parents c s) = life_core s"
  "life_core (cancel_and_shutdown_child c s) = life_core s"
  "life_core (add_child p c s) = life_core s"
  "life_core (remove_client_from_sessions c s) = life_core s"
  "life_core (maybe_spawn_model_prefetch ctx a s) = life_core s"
  "life_core (warm_models ctx acc s) = life_core s"
  by (simp_all add: reply_to_def remove_child_from_all_parents_def cancel_and_shutdown_child_def
      add_child_def remove_client_from_sessions_def maybe_spawn_model_prefetch_def Let_def
      warm_models_def split: option.splits)
     (simp_all add: life_core_def)

text \<open>Commands that leave the life of sessions alone.\<close>

fun is_lifecycle :: "daemon_command \<Rightarrow> bool" where
  "is_lifecycle (D_CreateSession _ _ _ _ _ _ _ _ _) = True"
| "is_lifecycle (D_AttachSession _ _) = True"
| "is_lifecycle (D_UpdateMetadata _ _) = True"
| "is_lifecycle (D_SessionExited _) = True"
| "is_lifecycle (D_SessionDeleteFinalized _) = True"
| "is_lifecycle (D_DeleteSession _ _) = True"
| "is_lifecycle _ = False"

lemma map_at_domain [simp]: "fst ` set (map_at k f m) = fst ` set m"
  by (metis keys_map_at set_map)

lemma evict_client_core [simp]: "life_core (handle_evict_client c s) = life_core s"
  by (rule evicts_core [OF handle_evict_client_evicts])

lemma other_command_core:
  "\<not> is_lifecycle cmd \<Longrightarrow> life_core (handle_command ctx cmd s) = life_core s"
proof (cases cmd)
  case (D_BroadcastSessionStatus sid status)
  have "life_core (s\<lparr>ds_session_metadata := map_at sid f (ds_session_metadata s)\<rparr>) = life_core s" for f
    by (simp add: life_core_def)
  then show ?thesis
    using D_BroadcastSessionStatus
    by (simp add: handle_broadcast_session_status_def Let_def split: option.splits)
next
  case D_EvictLargestLagging
  then show ?thesis by (simp add: handle_evict_largest_lagging_def case_prod_unfold split: option.splits)
next
  case (D_ClientDisconnected c)
  obtain sent where "remove_client_from_sessions c (s\<lparr>ds_summary_subscribers := AList.delete c (ds_summary_subscribers s),
      ds_activity_subscribers := AList.delete c (ds_activity_subscribers s)\<rparr>) =
    s\<lparr>ds_summary_subscribers := AList.delete c (ds_summary_subscribers s),
      ds_activity_subscribers := AList.delete c (ds_activity_subscribers s),
      ds_client_subscribed_sessions := without {c} (ds_client_subscribed_sessions s), ds_sent := sent\<rparr>"
    using remove_client_from_sessions_eq [of c "s\<lparr>ds_summary_subscribers := AList.delete c (ds_summary_subscribers s),
      ds_activity_subscribers := AList.delete c (ds_activity_subscribers s)\<rparr>"] by auto
  then show ?thesis using D_ClientDisconnected by (simp add: handle_client_disconnected_def Let_def life_core_def)
next
  case (D_BroadcastActivity sid m)
  then show ?thesis by (simp add: handle_broadcast_activity_def)
next
  case (D_CancelRequest sid rid)
  then show ?thesis
    by (simp add: handle_cancel_request_def cancel_children_of_def split: option.splits)
next
  case (D_Lock reply)
  have "life_core (broadcast_lock_state u) = life_core u" for u
    by (simp add: broadcast_lock_state_def handle_broadcast_activity_def)
  then show ?thesis using D_Lock by (simp add: handle_lock_def Let_def) (simp add: life_core_def)
next
  case (D_ListModels sid reply)
  have "life_core (fst (handle_list_models_inner ctx sid s)) = life_core s"
    by (simp add: handle_list_models_inner_def Let_def split: option.splits)
  then show ?thesis using D_ListModels by (simp add: handle_list_models_def case_prod_unfold)
next
  case (D_BroadcastShuttingDown)
  then show ?thesis by (simp add: handle_broadcast_shutting_down_def case_prod_unfold life_core_def)
qed (simp_all add: handle_list_sessions_def handle_get_session_def handle_set_session_title_def
      daemon_handle_set_working_dir_def daemon_handle_load_tools_def daemon_handle_unload_tools_def
      forward_or_refuse_def,
     simp_all add: life_core_def handle_register_summary_subscriber_def
      handle_unregister_summary_subscriber_def handle_register_activity_subscriber_def Let_def
      handle_unregister_activity_subscriber_def handle_track_session_subscription_def
      handle_untrack_session_subscription_def handle_register_client_writer_def
      handle_model_prefetch_result_def split: option.splits sum.splits)

section \<open>The invariant\<close>

text \<open>
  What holds of one session: its entry in the active table, the threads whose exit has not
  been handled, whether it is listed, marked deleted, has a record, has a tombstone, how
  often it is waiting for a finalizer and for a confirmation, the threads that have done
  their last write, and whether its id is below the id counter.
\<close>

definition session_ok ::
  "nat option \<Rightarrow> nat list \<Rightarrow> bool \<Rightarrow> bool \<Rightarrow> bool \<Rightarrow> bool \<Rightarrow> nat \<Rightarrow> nat \<Rightarrow> nat set \<Rightarrow> bool \<Rightarrow> bool" where
  "session_ok act ts listed deleted recorded tomb fin conf ex bounded \<longleftrightarrow>
     (case act of
        Some th \<Rightarrow> ts = [th] \<and> listed \<and> \<not> deleted
      | None \<Rightarrow> ts = [] \<or> (length ts = 1 \<and> deleted))
   \<and> (deleted \<longrightarrow> \<not> listed \<and> bounded \<and> (tomb \<or> (\<not> recorded \<and> set ts \<subseteq> ex)))
   \<and> (\<not> deleted \<longrightarrow> recorded = listed) \<and> (listed \<longrightarrow> bounded) \<and> (tomb \<longrightarrow> deleted)
   \<and> fin + conf \<le> 1 \<and> (fin + conf = 1 \<longrightarrow> deleted \<and> ts = []) \<and> (conf = 1 \<longrightarrow> \<not> recorded \<and> \<not> tomb)"

definition threads_of :: "u64 \<Rightarrow> (nat \<times> u64) list \<Rightarrow> nat list" where
  "threads_of sid ths = map fst (filter (\<lambda>p. snd p = sid) ths)"

lemma threads_of_simps [simp]:
  "threads_of sid [] = []"
  "threads_of sid (ths @ ths') = threads_of sid ths @ threads_of sid ths'"
  "threads_of sid ((th, sid') # ths) = (if sid' = sid then th # threads_of sid ths else threads_of sid ths)"
  by (auto simp: threads_of_def)

lemma threads_of_member: "(th, sid) \<in> set ths \<longleftrightarrow> th \<in> set (threads_of sid ths)"
  by (force simp: threads_of_def)

lemma threads_of_removed:
  "threads_of sid' (filter (\<lambda>p. p \<noteq> (th, sid)) ths) =
     (if sid' = sid then filter (\<lambda>t. t \<noteq> th) (threads_of sid ths) else threads_of sid' ths)"
  by (induction ths) (auto simp: threads_of_def)

definition life_ok ::
  "u64 \<Rightarrow> (u64 \<Rightarrow> nat option) \<Rightarrow> u64 set \<Rightarrow> u64 set \<Rightarrow> db
   \<Rightarrow> (nat \<times> u64) list \<Rightarrow> nat set \<Rightarrow> u64 list \<Rightarrow> u64 list \<Rightarrow> bool" where
  "life_ok nx act L D d ths ex fin conf \<longleftrightarrow> db_faults d = []
     \<and> (\<forall>sid. session_ok (act sid) (threads_of sid ths) (sid \<in> L) (sid \<in> D) (db_sessions d sid \<noteq> None)
          (sid \<in> db_tombstones d) (count_list fin sid) (count_list conf sid) ex (sid < nx))"

lemma life_okD:
  "life_ok nx act L D d ths ex fin conf \<Longrightarrow>
   session_ok (act sid) (threads_of sid ths) (sid \<in> L) (sid \<in> D) (db_sessions d sid \<noteq> None)
     (sid \<in> db_tombstones d) (count_list fin sid) (count_list conf sid) ex (sid < nx)"
  by (simp add: life_ok_def)

lemma life_ok_faults: "life_ok nx act L D d ths ex fin conf \<Longrightarrow> db_faults d = []"
  by (simp add: life_ok_def)

text \<open>A change at one session keeps the invariant if the session is fine afterwards.\<close>

lemma life_ok_at:
  assumes "life_ok nx act L D d ths ex fin conf" and "db_faults d' = []"
    and "\<And>i. i \<noteq> sid \<Longrightarrow> act' i = act i \<and> threads_of i ths' = threads_of i ths \<and> (i \<in> L' \<longleftrightarrow> i \<in> L)
           \<and> (i \<in> D' \<longleftrightarrow> i \<in> D) \<and> db_sessions d' i = db_sessions d i \<and> (i \<in> db_tombstones d' \<longleftrightarrow> i \<in> db_tombstones d)
           \<and> count_list fin' i = count_list fin i \<and> count_list conf' i = count_list conf i \<and> (i < nx \<longrightarrow> i < nx')"
    and "ex \<subseteq> ex'"
    and "session_ok (act' sid) (threads_of sid ths') (sid \<in> L') (sid \<in> D') (db_sessions d' sid \<noteq> None)
           (sid \<in> db_tombstones d') (count_list fin' sid) (count_list conf' sid) ex' (sid < nx')"
  shows "life_ok nx' act' L' D' d' ths' ex' fin' conf'"
  unfolding life_ok_def
proof (intro conjI allI)
  show "session_ok (act' i) (threads_of i ths') (i \<in> L') (i \<in> D') (db_sessions d' i \<noteq> None)
          (i \<in> db_tombstones d') (count_list fin' i) (count_list conf' i) ex' (i < nx')" for i
  proof (cases "i = sid")
    case False
    then show ?thesis
      using life_okD [OF assms(1), of i] assms(3) [of i] assms(4)
      by (auto simp: session_ok_def split: option.splits)
  next
    case True
    then show ?thesis using assms(5) by (simp only: simp_thms)
  qed
qed (rule assms(2))

lemma word_self_less_succ: "(nx :: u64) \<noteq> - 1 \<Longrightarrow> nx < nx + 1"
  by (metis add.commute eq_neg_iff_add_eq_0 lessI unatSuc word_less_nat_alt)

lemma word_less_succ: "(nx :: u64) \<noteq> - 1 \<Longrightarrow> sid < nx \<Longrightarrow> sid < nx + 1"
  using word_self_less_succ less_trans by blast

lemma put_session_fields [simp]:
  "db_tombstones (put_session sid r d) = db_tombstones d" "db_faults (put_session sid r d) = db_faults d"
  "db_sessions (put_session sid r d) = (db_sessions d)(sid \<mapsto> r)"
  by (simp_all add: put_session_def)

lemma remove_session_rows_fields [simp]:
  "db_tombstones (remove_session_rows sid d) = db_tombstones d"
  "db_faults (remove_session_rows sid d) = db_faults d"
  "db_sessions (remove_session_rows sid d) = (db_sessions d)(sid := None)"
  by (simp_all add: remove_session_rows_def)

lemma count_list_remove1: "x \<in> set xs \<Longrightarrow> Suc (count_list (remove1 x xs) x) = count_list xs x"
  "y \<noteq> x \<Longrightarrow> count_list (remove1 x xs) y = count_list xs y"
  by (induction xs) auto

lemma life_ok_create:
  assumes ok: "life_ok nx act L D d ths ex fin conf" and nx: "nx \<noteq> - 1"
  shows "life_ok (nx + 1) (act(nx \<mapsto> nt)) (insert nx L) D (put_session nx r d) (ths @ [(nt, nx)]) ex fin conf"
  using life_okD [OF ok, of nx] life_ok_faults [OF ok] word_self_less_succ [OF nx]
  by (intro life_ok_at [OF ok, where sid = nx])
     (auto simp: session_ok_def word_less_succ [OF nx] split: option.splits)

lemma life_ok_attach:
  assumes ok: "life_ok nx act L D d ths ex fin conf" and new: "sid \<notin> D" "act sid = None" "db_sessions d sid \<noteq> None"
  shows "life_ok nx (act(sid \<mapsto> nt)) (insert sid L) D d (ths @ [(nt, sid)]) ex fin conf"
  using life_okD [OF ok, of sid] life_ok_faults [OF ok] new
  by (intro life_ok_at [OF ok, where sid = sid]) (auto simp: session_ok_def)

lemma life_ok_listed:
  assumes ok: "life_ok nx act L D d ths ex fin conf" and "sid \<notin> D" "(th, sid) \<in> set ths"
  shows "insert sid L = L"
  using life_okD [OF ok, of sid] assms(2,3)
  by (auto simp: session_ok_def threads_of_member split: option.splits)

lemma life_ok_delete_running:
  assumes ok: "life_ok nx act L D d ths ex fin conf" and act: "act sid = Some th"
  shows "life_ok nx (act(sid := None)) (L - {sid}) (insert sid D)
           (d\<lparr>db_tombstones := insert sid (db_tombstones d)\<rparr>) ths ex fin conf"
  using life_okD [OF ok, of sid] life_ok_faults [OF ok] act
  by (intro life_ok_at [OF ok, where sid = sid]) (auto simp: session_ok_def)

lemma life_ok_delete_exiting:
  assumes ok: "life_ok nx act L D d ths ex fin conf" and act: "act sid = Some th" "th \<in> ex"
  shows "life_ok nx (act(sid := None)) (L - {sid}) (insert sid D)
           ((remove_session_rows sid d)\<lparr>db_tombstones := db_tombstones d - {sid}\<rparr>) ths ex fin conf"
  using life_okD [OF ok, of sid] life_ok_faults [OF ok] act
  by (intro life_ok_at [OF ok, where sid = sid]) (auto simp: session_ok_def)

lemma life_ok_delete_inactive:
  assumes ok: "life_ok nx act L D d ths ex fin conf" and act: "act sid = None"
  shows "life_ok nx act (L - {sid}) D
           (if sid \<in> D then remove_session_rows sid d
            else (remove_session_rows sid d)\<lparr>db_tombstones := db_tombstones d - {sid}\<rparr>) ths ex fin conf"
  using life_okD [OF ok, of sid] life_ok_faults [OF ok] act
  by (intro life_ok_at [OF ok, where sid = sid]) (auto simp: session_ok_def)

lemma life_ok_persist:
  assumes ok: "life_ok nx act L D d ths ex fin conf" and th: "(th, sid) \<in> set ths" "th \<notin> ex"
  shows "life_ok nx act L D (put_session sid r d) ths ex fin conf"
  using life_okD [OF ok, of sid] life_ok_faults [OF ok] th
  by (intro life_ok_at [OF ok, where sid = sid])
     (auto simp: session_ok_def threads_of_member split: option.splits)

lemma life_ok_exiting:
  assumes ok: "life_ok nx act L D d ths ex fin conf"
  shows "life_ok nx act L D d ths (insert th ex) fin conf"
  using life_okD [OF ok, of 0] life_ok_faults [OF ok]
  by (intro life_ok_at [OF ok, where sid = 0]) (auto simp: session_ok_def split: option.splits)

lemma life_ok_exited:
  assumes ok: "life_ok nx act L D d ths ex fin conf" and th: "(th, sid) \<in> set ths" "th \<in> ex"
  shows "life_ok nx (act(sid := None)) L D d (filter (\<lambda>p. p \<noteq> (th, sid)) ths) ex
           (fin @ (if sid \<in> D then [sid] else [])) conf"
  using life_okD [OF ok, of sid] life_ok_faults [OF ok] th
  by (intro life_ok_at [OF ok, where sid = sid])
     (auto simp: session_ok_def threads_of_member threads_of_removed length_Suc_conv split: option.splits)

lemma life_ok_finalize:
  assumes ok: "life_ok nx act L D d ths ex fin conf" and sid: "sid \<in> set fin"
  shows "life_ok nx act L D ((remove_session_rows sid d)\<lparr>db_tombstones := db_tombstones d - {sid}\<rparr>)
           ths ex (remove1 sid fin) (conf @ [sid])"
  using life_okD [OF ok, of sid] life_ok_faults [OF ok] count_list_remove1(1) [OF sid]
  by (intro life_ok_at [OF ok, where sid = sid])
     (auto simp: session_ok_def count_list_remove1(2) split: option.splits)

lemma life_ok_confirm:
  assumes ok: "life_ok nx act L D d ths ex fin conf" and sid: "sid \<in> set conf"
  shows "life_ok nx act L (D - {sid}) d ths ex fin (remove1 sid conf)"
  using life_okD [OF ok, of sid] life_ok_faults [OF ok] count_list_remove1(1) [OF sid]
  by (intro life_ok_at [OF ok, where sid = sid])
     (auto simp: session_ok_def count_list_remove1(2) split: option.splits)

end
