(* ===== verification/Daemon_System.thy ===== *)
theory Daemon_System
  imports Daemon_Lifecycle
begin

text \<open>
  The daemon process as a transition system over \<open>handle_command\<close>: the command loop, the
  session threads it spawned, the finalizer threads of deleted sessions, startup and crash.

  A thread stays in \<open>lf_threads\<close> until its exit message is handled and is in \<open>lf_exiting\<close>
  once it has done its last write and sent that message. Messages of one thread arrive in
  order, so a metadata update of a session arrives while its thread is still known. The
  loop sees a thread as finished only after that thread sent its exit message. Ids are not
  exhausted, and the database accepts writes.
\<close>

section \<open>Startup\<close>

definition load_index :: "(u64 \<times> session_record) list option \<Rightarrow> (u64, session_metadata) hmap" where
  "load_index r = (case r of None \<Rightarrow> [] | Some rs \<Rightarrow> map (\<lambda>(i, rc). (i, metadata_of_record rc)) rs)"

definition first_session_id :: "(u64, session_metadata) hmap \<Rightarrow> u64" where
  "first_session_id m = (if m = [] then 1 else Max (fst ` set m) + 1)"

text \<open>The state handed to the server, from the configured accounts and the opened database.\<close>

definition start_daemon :: "(string, string) hmap \<Rightarrow> db \<Rightarrow> daemon_state" where
  "start_daemon accounts d =
     (case read_all_sessions (fst (purge_tombstoned_sessions d)) of
        (d', r) \<Rightarrow>
          \<lparr>ds_next_session_id = first_session_id (load_index r), ds_active_sessions = [],
           ds_session_metadata = load_index r, ds_deleted_sessions = {}, ds_children = [],
           ds_accounts = accounts, ds_providers = [], ds_locked = True, ds_db = d',
           ds_summary_subscribers = [], ds_client_writers = [], ds_activity_subscribers = [],
           ds_client_subscribed_sessions = [], ds_lag_limits = lag_limits_default,
           ds_model_cache = [], ds_model_prefetch_in_flight = [], ds_net = net_new,
           ds_next_thread = 0, ds_spawned = [], ds_sent = [], ds_replies = [], ds_answers = [],
           ds_finalizers = [], ds_prefetchers = []\<rparr>)"

section \<open>The system\<close>

record life =
  lf_daemon :: daemon_state
  lf_threads :: "(nat \<times> u64) list"
  lf_exiting :: "nat set"
  lf_finalizing :: "u64 list"
  lf_confirmed :: "u64 list"

definition life_start :: "(string, string) hmap \<Rightarrow> db \<Rightarrow> life" where
  "life_start accounts d =
     \<lparr>lf_daemon = start_daemon accounts d, lf_threads = [], lf_exiting = {}, lf_finalizing = [], lf_confirmed = []\<rparr>"

definition new_threads :: "daemon_state \<Rightarrow> daemon_state \<Rightarrow> (nat \<times> u64) list" where
  "new_threads s s' = map (\<lambda>(th, sid, _). (th, sid)) (drop (length (ds_spawned s)) (ds_spawned s'))"

definition finished_ok :: "daemon_ctx \<Rightarrow> life \<Rightarrow> bool" where
  "finished_ok ctx y = list_all (\<lambda>(th, _). dx_is_finished ctx th \<longrightarrow> th \<in> lf_exiting y) (lf_threads y)"

fun client_or_session_command :: "daemon_ctx \<Rightarrow> daemon_command \<Rightarrow> life \<Rightarrow> bool" where
  "client_or_session_command ctx (D_SessionExited _) y = False"
| "client_or_session_command ctx (D_SessionDeleteFinalized _) y = False"
| "client_or_session_command ctx (D_UpdateMetadata sid _) y = (sid \<in> snd ` set (lf_threads y))"
| "client_or_session_command ctx (D_CreateSession _ _ _ _ _ _ _ _ _) y =
     (ds_next_session_id (lf_daemon y) \<noteq> - 1)"
| "client_or_session_command ctx (D_DeleteSession _ _) y = finished_ok ctx y"
| "client_or_session_command ctx _ y = True"

definition do_command :: "daemon_ctx \<Rightarrow> daemon_command \<Rightarrow> life \<Rightarrow> life" where
  "do_command ctx cmd y =
     (let s' = handle_command ctx cmd (lf_daemon y)
      in y\<lparr>lf_daemon := s', lf_threads := lf_threads y @ new_threads (lf_daemon y) s'\<rparr>)"

definition do_persist :: "u64 \<Rightarrow> session_record \<Rightarrow> life \<Rightarrow> life" where
  "do_persist sid r y =
     y\<lparr>lf_daemon := (lf_daemon y)\<lparr>ds_db := fst (write_session_retry sid r (ds_db (lf_daemon y)))\<rparr>\<rparr>"

definition do_exited :: "daemon_ctx \<Rightarrow> nat \<Rightarrow> u64 \<Rightarrow> life \<Rightarrow> life" where
  "do_exited ctx th sid y =
     (let s' = handle_command ctx (D_SessionExited sid) (lf_daemon y)
      in y\<lparr>lf_daemon := s', lf_threads := filter (\<lambda>p. p \<noteq> (th, sid)) (lf_threads y),
           lf_finalizing := lf_finalizing y @ drop (length (ds_finalizers (lf_daemon y))) (ds_finalizers s')\<rparr>)"

definition do_finalize :: "u64 \<Rightarrow> life \<Rightarrow> life" where
  "do_finalize sid y =
     (case finalize_session_delete sid (ds_db (lf_daemon y)) of
        (d', msg) \<Rightarrow>
          y\<lparr>lf_daemon := (lf_daemon y)\<lparr>ds_db := d'\<rparr>, lf_finalizing := remove1 sid (lf_finalizing y),
            lf_confirmed := lf_confirmed y @ (if msg = None then [] else [sid])\<rparr>)"

definition do_confirm :: "daemon_ctx \<Rightarrow> u64 \<Rightarrow> life \<Rightarrow> life" where
  "do_confirm ctx sid y =
     y\<lparr>lf_daemon := handle_command ctx (D_SessionDeleteFinalized sid) (lf_daemon y),
       lf_confirmed := remove1 sid (lf_confirmed y)\<rparr>"

inductive life_step :: "life \<Rightarrow> life \<Rightarrow> bool" where
  life_command: "client_or_session_command ctx cmd y \<Longrightarrow> life_step y (do_command ctx cmd y)"
| life_persist: "(th, sid) \<in> set (lf_threads y) \<Longrightarrow> th \<notin> lf_exiting y \<Longrightarrow> life_step y (do_persist sid r y)"
| life_exiting: "(th, sid) \<in> set (lf_threads y) \<Longrightarrow> life_step y (y\<lparr>lf_exiting := insert th (lf_exiting y)\<rparr>)"
| life_exited: "(th, sid) \<in> set (lf_threads y) \<Longrightarrow> th \<in> lf_exiting y \<Longrightarrow> life_step y (do_exited ctx th sid y)"
| life_finalize: "sid \<in> set (lf_finalizing y) \<Longrightarrow> life_step y (do_finalize sid y)"
| life_confirm: "sid \<in> set (lf_confirmed y) \<Longrightarrow> life_step y (do_confirm ctx sid y)"

text \<open>The daemon can crash at any point and start again on the database it left.\<close>

inductive life_reachable :: "life \<Rightarrow> bool" where
  reach_start: "db_faults d = [] \<Longrightarrow> db_sessions d (- 1) = None \<Longrightarrow> life_reachable (life_start accounts d)"
| reach_step: "life_reachable y \<Longrightarrow> life_step y y' \<Longrightarrow> life_reachable y'"
| reach_crash: "life_reachable y \<Longrightarrow> life_reachable (life_start accounts (ds_db (lf_daemon y)))"

section \<open>Effect of the lifecycle commands\<close>

definition listed :: "daemon_state \<Rightarrow> u64 set" where
  "listed s = fst ` set (ds_session_metadata s)"

definition life_inv :: "life \<Rightarrow> bool" where
  "life_inv y =
     life_ok (ds_next_session_id (lf_daemon y)) (map_of (ds_active_sessions (lf_daemon y)))
       (listed (lf_daemon y)) (ds_deleted_sessions (lf_daemon y)) (ds_db (lf_daemon y))
       (lf_threads y) (lf_exiting y) (lf_finalizing y) (lf_confirmed y)"

lemma life_core_eqD:
  assumes "life_core s' = life_core s"
  shows "ds_next_session_id s' = ds_next_session_id s" "ds_active_sessions s' = ds_active_sessions s"
    "listed s' = listed s" "ds_deleted_sessions s' = ds_deleted_sessions s" "ds_db s' = ds_db s"
    "ds_spawned s' = ds_spawned s" "ds_finalizers s' = ds_finalizers s" "ds_next_thread s' = ds_next_thread s"
  using assms by (simp_all add: life_core_def listed_def)

lemma fold_core: "(\<And>x s. life_core (f x s) = life_core s) \<Longrightarrow> life_core (fold f xs s) = life_core s"
  by (induction xs arbitrary: s) simp_all

lemma attempt_ok [simp]: "db_faults d = [] \<Longrightarrow> attempt_write w d = (w d, True)"
  by (simp add: attempt_write_def)

lemma retry_ok [simp]: "db_faults d = [] \<Longrightarrow> retry_write n w d = (w d, True)"
  by (subst retry_write.simps) simp

lemma listed_update [simp]:
  "fst ` set (AList.update k v m) = insert k (fst ` set m)" "fst ` set (AList.delete k m) = fst ` set m - {k}"
  by (simp_all add: dom_update) (metis delete_keys set_map set_removeAll)

lemma listed_frame [simp]:
  "listed (s\<lparr>ds_next_session_id := nx\<rparr>) = listed s" "listed (s\<lparr>ds_db := d\<rparr>) = listed s"
  "listed (s\<lparr>ds_next_thread := nt\<rparr>) = listed s" "listed (s\<lparr>ds_spawned := sp\<rparr>) = listed s"
  "listed (s\<lparr>ds_active_sessions := act\<rparr>) = listed s" "listed (s\<lparr>ds_finalizers := fi\<rparr>) = listed s"
  "listed (s\<lparr>ds_deleted_sessions := del\<rparr>) = listed s"
  "listed (s\<lparr>ds_session_metadata := AList.update k v (ds_session_metadata s')\<rparr>) = insert k (listed s')"
  "listed (s\<lparr>ds_session_metadata := AList.delete k (ds_session_metadata s')\<rparr>) = listed s' - {k}"
  by (simp_all add: listed_def)

lemma create_core:
  assumes "db_faults (ds_db s) = []"
  shows "\<exists>r pr m. life_core (handle_create_session ctx title parent wd effort model cc account groups reply s) =
    life_core (s\<lparr>ds_next_session_id := ds_next_session_id s + 1,
      ds_db := put_session (ds_next_session_id s) r (ds_db s), ds_next_thread := ds_next_thread s + 1,
      ds_spawned := ds_spawned s @ [(ds_next_thread s, ds_next_session_id s, r, pr)],
      ds_active_sessions := AList.update (ds_next_session_id s) (ds_next_thread s) (ds_active_sessions s),
      ds_session_metadata := AList.update (ds_next_session_id s) m (ds_session_metadata s)\<rparr>)"
  using assms
  by (simp add: handle_create_session_def Let_def spawn_session_def write_session_def) (force simp: life_core_def)

lemma attach_core:
  assumes "db_faults (ds_db s) = []" "sid \<notin> ds_deleted_sessions s" "map_of (ds_active_sessions s) sid = None"
    "db_sessions (ds_db s) sid = Some r"
  shows "\<exists>pr m. life_core (handle_attach_session ctx sid reply s) =
    life_core (s\<lparr>ds_next_thread := ds_next_thread s + 1,
      ds_spawned := ds_spawned s @ [(ds_next_thread s, sid, r, pr)],
      ds_active_sessions := AList.update sid (ds_next_thread s) (ds_active_sessions s),
      ds_session_metadata := AList.update sid m (ds_session_metadata s)\<rparr>)"
  using assms
  by (simp add: handle_attach_session_def Let_def spawn_session_def read_session_def) (force simp: life_core_def)

lemma attach_core_none:
  assumes "db_faults (ds_db s) = []"
    "sid \<in> ds_deleted_sessions s \<or> map_of (ds_active_sessions s) sid \<noteq> None \<or> db_sessions (ds_db s) sid = None"
  shows "life_core (handle_attach_session ctx sid reply s) = life_core s"
  using assms
  by (auto simp: handle_attach_session_def read_session_def split: option.splits)

lemma update_metadata_core:
  "\<exists>m. life_core (handle_update_metadata ctx sid meta s) =
     life_core (if sid \<in> ds_deleted_sessions s then s
                else s\<lparr>ds_session_metadata := AList.update sid m (ds_session_metadata s)\<rparr>)"
  by (simp add: handle_update_metadata_def Let_def) (auto simp: life_core_def)

lemma announce_core:
  "life_core (announce_deleted sid s) =
     life_core (s\<lparr>ds_session_metadata := AList.delete sid (ds_session_metadata s)\<rparr>)"
  by (simp add: announce_deleted_def)

definition after_delete :: "daemon_ctx \<Rightarrow> u64 \<Rightarrow> daemon_state \<Rightarrow> daemon_state" where
  "after_delete ctx sid s =
     (let s' = s\<lparr>ds_session_metadata := AList.delete sid (ds_session_metadata s)\<rparr>;
          d = ds_db s; wiped = remove_session_rows sid d; cleared = wiped\<lparr>db_tombstones := db_tombstones d - {sid}\<rparr>
      in case map_of (ds_active_sessions s) sid of
           Some th \<Rightarrow>
             s'\<lparr>ds_active_sessions := AList.delete sid (ds_active_sessions s),
               ds_deleted_sessions := insert sid (ds_deleted_sessions s),
               ds_db := (if dx_is_finished ctx th then cleared
                         else d\<lparr>db_tombstones := insert sid (db_tombstones d)\<rparr>)\<rparr>
         | None \<Rightarrow> s'\<lparr>ds_db := (if sid \<in> ds_deleted_sessions s then wiped else cleared)\<rparr>)"

lemma delete_inner_core:
  assumes f: "db_faults (ds_db s) = []"
  shows "life_core (fst (delete_session_inner ctx sid s)) = life_core (after_delete ctx sid s)
         \<and> snd (delete_session_inner ctx sid s)"
proof (cases "map_of (ds_active_sessions s) sid")
  case None
  with f show ?thesis
    by (simp add: delete_session_inner_def delete_session_def clear_session_tombstone_def Let_def announce_core)
       (simp add: after_delete_def life_core_def Let_def)
next
  case (Some th)
  with f show ?thesis
    by (simp add: delete_session_inner_def delete_finished_session_def delete_session_def
          mark_session_deleted_def clear_session_tombstone_def Let_def announce_core)
       (simp add: after_delete_def life_core_def Let_def)
qed

lemma sleep_core [simp]: "life_core (sleep_session sid s) = life_core s"
proof -
  have "life_core (s\<lparr>ds_session_metadata := map_at sid f (ds_session_metadata s)\<rparr>) = life_core s" for f
    by (simp add: life_core_def)
  then show ?thesis by (simp add: sleep_session_def split: option.splits)
qed

lemma exited_core:
  "life_core (handle_session_exited sid s) =
     life_core (s\<lparr>ds_active_sessions := AList.delete sid (ds_active_sessions s),
       ds_finalizers := ds_finalizers s @ (if sid \<in> ds_deleted_sessions s then [sid] else [])\<rparr>)"
proof -
  let ?k = "\<lambda>u. case map_of (ds_children u) sid of None \<Rightarrow> u
      | Some children \<Rightarrow> fold (\<lambda>c s. cancel_and_shutdown_child c (remove_child_from_all_parents c s)) children
          (u\<lparr>ds_children := AList.delete sid (ds_children u)\<rparr>)"
  let ?s1 = "s\<lparr>ds_active_sessions := AList.delete sid (ds_active_sessions s)\<rparr>"
  define w where "w = sleep_session sid (?k ?s1)"
  have "life_core w = life_core ?s1"
    by (auto simp: w_def fold_core split: option.splits) (simp add: life_core_def)
  moreover have "handle_session_exited sid s =
      (if sid \<in> ds_deleted_sessions w then w\<lparr>ds_finalizers := ds_finalizers w @ [sid]\<rparr> else w)"
    by (simp only: handle_session_exited_def Let_def w_def)
  ultimately show ?thesis by (simp add: life_core_def)
qed

section \<open>The steps keep the invariant\<close>

lemma do_command_unchanged:
  assumes "life_core (handle_command ctx cmd (lf_daemon y)) = life_core (lf_daemon y)"
  shows "life_inv (do_command ctx cmd y) = life_inv y"
    and "listed (lf_daemon (do_command ctx cmd y)) = listed (lf_daemon y)"
    and "ds_next_session_id (lf_daemon (do_command ctx cmd y)) = ds_next_session_id (lf_daemon y)"
  using life_core_eqD [OF assms] by (simp_all add: do_command_def life_inv_def Let_def new_threads_def)

lemma life_inv_faults: "life_inv y \<Longrightarrow> db_faults (ds_db (lf_daemon y)) = []"
  by (auto simp: life_inv_def dest: life_ok_faults)

lemma after_delete_inv:
  assumes "life_inv (y\<lparr>lf_daemon := s\<rparr>)" "finished_ok ctx y"
  shows "life_inv (y\<lparr>lf_daemon := after_delete ctx sid s\<rparr>)"
proof (cases "map_of (ds_active_sessions s) sid")
  case None
  show ?thesis
    using life_ok_delete_inactive [OF assms(1) [unfolded life_inv_def], of sid] None
    by (cases "sid \<in> ds_deleted_sessions s")
       (simp_all add: life_inv_def after_delete_def Let_def listed_def)
next
  case (Some th)
  have "(th, sid) \<in> set (lf_threads y)"
    using life_okD [OF assms(1) [unfolded life_inv_def], of sid] Some
    by (simp add: session_ok_def threads_of_member)
  with assms(2) have "dx_is_finished ctx th \<Longrightarrow> th \<in> lf_exiting y"
    by (auto simp: finished_ok_def list_all_iff)
  then show ?thesis
    using life_ok_delete_running [OF assms(1) [unfolded life_inv_def], of sid th]
      life_ok_delete_exiting [OF assms(1) [unfolded life_inv_def], of sid th] Some
    by (simp add: life_inv_def after_delete_def Let_def listed_def delete_conv')
qed

lemma delete_inner_inv:
  assumes "life_inv (y\<lparr>lf_daemon := s\<rparr>)" "finished_ok ctx y"
  shows "life_inv (y\<lparr>lf_daemon := fst (delete_session_inner ctx sid s)\<rparr>)"
    and "listed (fst (delete_session_inner ctx sid s)) = listed s - {sid}"
    and "ds_next_session_id (fst (delete_session_inner ctx sid s)) = ds_next_session_id s"
    and "ds_spawned (fst (delete_session_inner ctx sid s)) = ds_spawned s"
    and "snd (delete_session_inner ctx sid s)"
proof -
  have f: "db_faults (ds_db s) = []" using life_inv_faults [OF assms(1)] by simp
  note core = delete_inner_core [OF f, of ctx sid]
  note eq = core [THEN conjunct1, THEN life_core_eqD(1)] core [THEN conjunct1, THEN life_core_eqD(2)]
    core [THEN conjunct1, THEN life_core_eqD(3)] core [THEN conjunct1, THEN life_core_eqD(4)]
    core [THEN conjunct1, THEN life_core_eqD(5)] core [THEN conjunct1, THEN life_core_eqD(6)]
  show "life_inv (y\<lparr>lf_daemon := fst (delete_session_inner ctx sid s)\<rparr>)"
    using after_delete_inv [OF assms, of sid] by (simp add: life_inv_def eq)
  show "listed (fst (delete_session_inner ctx sid s)) = listed s - {sid}"
    unfolding eq by (simp add: after_delete_def listed_def Let_def split: option.splits)
  show "ds_next_session_id (fst (delete_session_inner ctx sid s)) = ds_next_session_id s"
    and "ds_spawned (fst (delete_session_inner ctx sid s)) = ds_spawned s"
    unfolding eq by (simp_all add: after_delete_def Let_def split: option.splits)
  show "snd (delete_session_inner ctx sid s)" using core by simp
qed

lemma life_same [simp]: "y\<lparr>lf_daemon := lf_daemon y\<rparr> = y"
  by simp

lemma life_inv_core:
  assumes "life_core s' = life_core s"
  shows "life_inv (y\<lparr>lf_daemon := s'\<rparr>) = life_inv (y\<lparr>lf_daemon := s\<rparr>)"
  by (simp add: life_inv_def life_core_eqD [OF assms])

lemma delete_children_inv:
  assumes "life_inv (y\<lparr>lf_daemon := s\<rparr>)" "finished_ok ctx y"
    and "s' = fold (\<lambda>c s. fst (delete_session_inner ctx c (remove_child_from_all_parents c s))) cs s"
  shows "life_inv (y\<lparr>lf_daemon := s'\<rparr>) \<and> listed s' = listed s - set cs
    \<and> ds_next_session_id s' = ds_next_session_id s \<and> ds_spawned s' = ds_spawned s"
  using assms(1,3)
proof (induction cs arbitrary: s)
  case (Cons c cs)
  have r: "life_core (remove_child_from_all_parents c s) = life_core s" by simp
  then have "life_inv (y\<lparr>lf_daemon := remove_child_from_all_parents c s\<rparr>)"
    using life_inv_core Cons.prems(1) by blast
  note inner = delete_inner_inv [OF this assms(2), of c]
  show ?case
    using Cons.IH [OF inner(1)] Cons.prems(2) inner(2,3,4) life_core_eqD [OF r] by auto
qed simp

lemma delete_command:
  assumes "life_inv y" "finished_ok ctx y"
    and "s' = handle_delete_session ctx sid reply (lf_daemon y)"
    and "kids = (case map_of (ds_children (lf_daemon y)) sid of None \<Rightarrow> [] | Some cs \<Rightarrow> cs)"
  shows "life_inv (y\<lparr>lf_daemon := s'\<rparr>) \<and> listed s' = listed (lf_daemon y) - set kids - {sid}
    \<and> ds_next_session_id s' = ds_next_session_id (lf_daemon y) \<and> ds_spawned s' = ds_spawned (lf_daemon y)
    \<and> last (ds_replies s') = (reply, DeleteReply True)"
proof -
  define s0 where "s0 = (case map_of (ds_children (lf_daemon y)) sid of None \<Rightarrow> lf_daemon y
     | Some cs \<Rightarrow> (lf_daemon y)\<lparr>ds_children := AList.delete sid (ds_children (lf_daemon y))\<rparr>)"
  let ?s1 = "fold (\<lambda>c s. fst (delete_session_inner ctx c (remove_child_from_all_parents c s))) kids s0"
  let ?s2 = "remove_child_from_all_parents sid ?s1"
  have c0: "life_core s0 = life_core (lf_daemon y)" by (auto simp: s0_def life_core_def split: option.splits)
  have "life_inv (y\<lparr>lf_daemon := s0\<rparr>) = life_inv (y\<lparr>lf_daemon := lf_daemon y\<rparr>)"
    by (rule life_inv_core [OF c0])
  with assms(1) have i0: "life_inv (y\<lparr>lf_daemon := s0\<rparr>)" by simp
  note k = delete_children_inv [OF i0 assms(2) refl, of kids]
  have c2: "life_core ?s2 = life_core ?s1" by simp
  have i2: "life_inv (y\<lparr>lf_daemon := ?s2\<rparr>)" using k life_inv_core [OF c2] by blast
  note d = delete_inner_inv [OF i2 assms(2), of sid]
  have s': "s' = reply_to reply (DeleteReply (snd (delete_session_inner ctx sid ?s2)))
      (fst (delete_session_inner ctx sid ?s2))"
    unfolding assms(3,4) s0_def handle_delete_session_def Let_def by (simp add: case_prod_unfold split: option.split)
  have c3: "life_core s' = life_core (fst (delete_session_inner ctx sid ?s2))" by (simp add: s')
  have "last (ds_replies s') = (reply, DeleteReply True)"
    unfolding s' using d(5) by (simp add: reply_to_def)
  moreover have "life_inv (y\<lparr>lf_daemon := s'\<rparr>)" by (rule iffD2 [OF life_inv_core [OF c3] d(1)])
  ultimately show ?thesis
    using d(2,3,4) k life_core_eqD(1,3,6) [OF c3] life_core_eqD(1,3,6) [OF c2] life_core_eqD(1,3,6) [OF c0]
    by presburger
qed

text \<open>What every step gives: the invariant, and no id below the counter becomes listed.\<close>

definition life_good :: "life \<Rightarrow> life \<Rightarrow> bool" where
  "life_good y y' \<longleftrightarrow> life_inv y'
     \<and> ds_next_session_id (lf_daemon y) \<le> ds_next_session_id (lf_daemon y')
     \<and> (\<forall>sid. sid \<in> listed (lf_daemon y') \<longrightarrow> sid < ds_next_session_id (lf_daemon y) \<longrightarrow> sid \<in> listed (lf_daemon y))"

lemma create_good:
  assumes inv: "life_inv y" and nx: "ds_next_session_id (lf_daemon y) \<noteq> - 1"
  shows "life_good y (do_command ctx (D_CreateSession title parent wd effort model cc account groups reply) y)"
proof -
  let ?s = "lf_daemon y"
  obtain r pr m where c: "life_core (handle_create_session ctx title parent wd effort model cc account groups reply ?s) =
    life_core (?s\<lparr>ds_next_session_id := ds_next_session_id ?s + 1,
      ds_db := put_session (ds_next_session_id ?s) r (ds_db ?s), ds_next_thread := ds_next_thread ?s + 1,
      ds_spawned := ds_spawned ?s @ [(ds_next_thread ?s, ds_next_session_id ?s, r, pr)],
      ds_active_sessions := AList.update (ds_next_session_id ?s) (ds_next_thread ?s) (ds_active_sessions ?s),
      ds_session_metadata := AList.update (ds_next_session_id ?s) m (ds_session_metadata ?s)\<rparr>)"
    using create_core [OF life_inv_faults [OF inv]] by blast
  show ?thesis
    using life_ok_create [OF inv [unfolded life_inv_def] nx] word_self_less_succ [OF nx]
    by (auto simp: life_good_def do_command_def Let_def life_inv_def new_threads_def life_core_eqD [OF c]
        update_conv')
qed

lemma attach_good:
  assumes inv: "life_inv y"
  shows "life_good y (do_command ctx (D_AttachSession sid reply) y)"
proof (cases "sid \<in> ds_deleted_sessions (lf_daemon y) \<or> map_of (ds_active_sessions (lf_daemon y)) sid \<noteq> None
    \<or> db_sessions (ds_db (lf_daemon y)) sid = None")
  case True
  have "life_core (handle_command ctx (D_AttachSession sid reply) (lf_daemon y)) = life_core (lf_daemon y)"
    by (simp add: attach_core_none [OF life_inv_faults [OF inv] True])
  from do_command_unchanged [OF this] inv show ?thesis by (simp add: life_good_def)
next
  case False
  let ?s = "lf_daemon y"
  obtain r where r: "db_sessions (ds_db ?s) sid = Some r" using False by blast
  obtain pr m where c: "life_core (handle_attach_session ctx sid reply ?s) =
    life_core (?s\<lparr>ds_next_thread := ds_next_thread ?s + 1,
      ds_spawned := ds_spawned ?s @ [(ds_next_thread ?s, sid, r, pr)],
      ds_active_sessions := AList.update sid (ds_next_thread ?s) (ds_active_sessions ?s),
      ds_session_metadata := AList.update sid m (ds_session_metadata ?s)\<rparr>)"
    using attach_core [OF life_inv_faults [OF inv] _ _ r] False by blast
  have "sid \<in> listed ?s"
    using life_okD [OF inv [unfolded life_inv_def], of sid] False by (auto simp: session_ok_def)
  then show ?thesis
    using life_ok_attach [OF inv [unfolded life_inv_def], of sid "ds_next_thread ?s"] False
    by (auto simp: life_good_def do_command_def Let_def life_inv_def new_threads_def life_core_eqD [OF c]
        update_conv')
qed

lemma update_metadata_good:
  assumes inv: "life_inv y" and th: "sid \<in> snd ` set (lf_threads y)"
  shows "life_good y (do_command ctx (D_UpdateMetadata sid meta) y)"
proof -
  let ?s = "lf_daemon y"
  obtain m where c: "life_core (handle_update_metadata ctx sid meta ?s) =
     life_core (if sid \<in> ds_deleted_sessions ?s then ?s
                else ?s\<lparr>ds_session_metadata := AList.update sid m (ds_session_metadata ?s)\<rparr>)"
    using update_metadata_core by blast
  have "sid \<notin> ds_deleted_sessions ?s \<Longrightarrow> insert sid (listed ?s) = listed ?s"
    using life_ok_listed [OF inv [unfolded life_inv_def], of sid] th by (metis imageE prod.collapse)
  then have "life_core (handle_command ctx (D_UpdateMetadata sid meta) ?s) = life_core ?s"
    using c by (auto simp: life_core_def listed_def)
  from do_command_unchanged [OF this] inv show ?thesis by (simp add: life_good_def)
qed

lemma delete_good:
  assumes inv: "life_inv y" and fin: "finished_ok ctx y"
  shows "life_good y (do_command ctx (D_DeleteSession sid reply) y)"
  using delete_command [OF inv fin refl refl, of sid reply]
  by (simp add: life_good_def do_command_def Let_def new_threads_def)

lemma command_good:
  assumes inv: "life_inv y" and ok: "client_or_session_command ctx cmd y"
  shows "life_good y (do_command ctx cmd y)"
proof (cases "is_lifecycle cmd")
  case False
  from do_command_unchanged [OF other_command_core [OF this]] inv show ?thesis by (simp add: life_good_def)
next
  case True
  then show ?thesis
    using inv ok create_good attach_good update_metadata_good delete_good by (cases cmd) simp_all
qed

lemma exited_good:
  assumes inv: "life_inv y" and th: "(th, sid) \<in> set (lf_threads y)" "th \<in> lf_exiting y"
  shows "life_good y (do_exited ctx th sid y)"
  using life_ok_exited [OF inv [unfolded life_inv_def] th] life_core_eqD [OF exited_core [of sid "lf_daemon y"]]
  by (simp add: life_good_def do_exited_def Let_def life_inv_def delete_conv')

lemma finalize_good:
  assumes inv: "life_inv y" and sid: "sid \<in> set (lf_finalizing y)"
  shows "life_good y (do_finalize sid y)"
  using life_ok_finalize [OF inv [unfolded life_inv_def] sid] life_inv_faults [OF inv]
  by (simp add: life_good_def do_finalize_def finalize_session_delete_def delete_session_def
      clear_session_tombstone_def life_inv_def)

lemma step_good: "life_step y y' \<Longrightarrow> life_inv y \<Longrightarrow> life_good y y'"
proof (induction rule: life_step.induct)
  case (life_command ctx cmd y)
  then show ?case by (rule command_good [rotated])
next
  case (life_persist th sid y r)
  then show ?case
    using life_ok_persist [OF life_persist.prems [unfolded life_inv_def] life_persist.hyps]
      life_inv_faults [OF life_persist.prems]
    by (simp add: life_good_def do_persist_def write_session_retry_def life_inv_def)
next
  case (life_exiting th sid y)
  then show ?case
    using life_ok_exiting [OF life_exiting.prems [unfolded life_inv_def]]
    by (simp add: life_good_def life_inv_def)
next
  case (life_exited th sid y ctx)
  then show ?case by (intro exited_good)
next
  case (life_finalize sid y)
  then show ?case by (intro finalize_good)
next
  case (life_confirm sid y ctx)
  then show ?case
    using life_ok_confirm [OF life_confirm.prems [unfolded life_inv_def] life_confirm.hyps]
    by (simp add: life_good_def do_confirm_def life_inv_def handle_session_delete_finalized_def)
qed

end
