(* ===== verification/Daemon_Theorems.thy ===== *)
theory Daemon_Theorems
  imports Daemon_System
begin

text \<open>
  The properties of the daemon process over all reachable states: one thread per session,
  an index that mirrors the database, permanent deletions, recovery after a crash, and
  attaching to every listed session.
\<close>

section \<open>Startup and crash\<close>

lemma purge_ids_ok:
  assumes "db_faults d = []"
  shows "\<exists>d'. purge_ids ids (d, n) = (d', n + length ids) \<and> db_faults d' = []
    \<and> db_sessions d' = (\<lambda>i. if i \<in> set ids then None else db_sessions d i)
    \<and> db_tombstones d' = db_tombstones d - set ids
    \<and> (\<forall>sid tid. sid \<notin> set ids \<longrightarrow> db_turns d' (sid, tid) = db_turns d (sid, tid))"
  using assms
proof (induction ids arbitrary: d n)
  case (Cons i ids)
  define d1 where "d1 = (remove_session_rows i d)\<lparr>db_tombstones := db_tombstones d - {i}\<rparr>"
  have range: "\<not> (i \<le> sid \<and> sid < session_range_end i)" if "sid \<noteq> i" for sid
    using that by (auto simp: session_range_end_def) (metis inc_le leD order_le_less)
  have d1: "db_faults d1 = []" "db_sessions d1 = (db_sessions d)(i := None)" "db_tombstones d1 = db_tombstones d - {i}"
    "sid \<noteq> i \<Longrightarrow> db_turns d1 (sid, tid) = db_turns d (sid, tid)" for sid tid
    using Cons.prems range by (auto simp: d1_def remove_session_rows_def)
  have "purge_ids (i # ids) (d, n) = purge_ids ids (d1, n + 1)"
    using Cons.prems by (simp add: delete_session_def clear_session_tombstone_def d1_def)
  then show ?case using Cons.IH [OF d1(1), of "n + 1"] d1 by (auto simp: fun_eq_iff)
qed simp

lemma purge_ok:
  assumes "db_faults d = []"
  defines "d' \<equiv> fst (purge_tombstoned_sessions d)"
  shows "db_faults d' = []" "db_sessions d' = (\<lambda>i. if i \<in> db_tombstones d then None else db_sessions d i)"
    "db_tombstones d' = {}" "sid \<notin> db_tombstones d \<Longrightarrow> db_turns d' (sid, tid) = db_turns d (sid, tid)"
proof -
  obtain n d'' where "purge_ids (sorted_list_of_set (db_tombstones d)) (d, 0) = (d'', n)" by fastforce
  with purge_ids_ok [OF assms(1), of "sorted_list_of_set (db_tombstones d)" 0]
  show "db_faults d' = []" "db_sessions d' = (\<lambda>i. if i \<in> db_tombstones d then None else db_sessions d i)"
    "db_tombstones d' = {}" "sid \<notin> db_tombstones d \<Longrightarrow> db_turns d' (sid, tid) = db_turns d (sid, tid)"
    using assms(1) by (auto simp: d'_def purge_tombstoned_sessions_def)
qed

lemma start_fields:
  assumes "db_faults d = []"
  shows "ds_db (start_daemon acc d) = fst (purge_tombstoned_sessions d)"
    "listed (start_daemon acc d) = dom (db_sessions (fst (purge_tombstoned_sessions d)))"
    "ds_active_sessions (start_daemon acc d) = []" "ds_deleted_sessions (start_daemon acc d) = {}"
    "ds_next_session_id (start_daemon acc d) = first_session_id (ds_session_metadata (start_daemon acc d))"
  using purge_ok(1) [OF assms]
  by (force simp: start_daemon_def read_all_sessions_def load_index_def listed_def image_image)+

lemma first_session_id_above:
  assumes "(- 1) \<notin> fst ` set m" "i \<in> fst ` set m"
  shows "i < first_session_id m"
proof -
  have "Max (fst ` set m) \<noteq> - 1" using assms by (metis Max_in finite_imageI finite_set equals0D)
  moreover have "i \<le> Max (fst ` set m)" using assms by simp
  ultimately have "i < Max (fst ` set m) + 1" using word_self_less_succ order_le_less_trans by blast
  moreover have "m \<noteq> []" using assms(2) by auto
  ultimately show ?thesis by (simp add: first_session_id_def)
qed

lemma start_inv:
  assumes "db_faults d = []" "db_sessions d (- 1) = None"
  shows "life_inv (life_start acc d)"
proof -
  have "- 1 \<notin> listed (start_daemon acc d)"
    using start_fields(2) [OF assms(1), of acc] assms(2) purge_ok(2) [OF assms(1)] by (simp add: domIff)
  then have "i < ds_next_session_id (start_daemon acc d)" if "i \<in> listed (start_daemon acc d)" for i
    unfolding start_fields(5) [OF assms(1)]
    using first_session_id_above [of "ds_session_metadata (start_daemon acc d)" i] that
    by (simp only: listed_def simp_thms)
  then show ?thesis
    using start_fields [OF assms(1), of acc] purge_ok [OF assms(1)]
    by (auto simp: life_inv_def life_start_def life_ok_def session_ok_def)
qed

lemma inv_last_id: "life_inv y \<Longrightarrow> db_sessions (ds_db (lf_daemon y)) (- 1) = None"
  using life_okD [of _ _ _ _ _ _ _ _ _ "- 1"]
  by (fastforce simp: life_inv_def session_ok_def)

lemma reachable_inv: "life_reachable y \<Longrightarrow> life_inv y"
proof (induction rule: life_reachable.induct)
  case (reach_step y y')
  then show ?case using step_good by (simp add: life_good_def)
qed (simp_all add: start_inv life_inv_faults inv_last_id)

lemma run_good:
  assumes "life_step\<^sup>*\<^sup>* y y'" "life_inv y"
  shows "life_good y y'"
  using assms
proof (induction rule: rtranclp_induct)
  case base
  then show ?case by (simp add: life_good_def)
next
  case (step u v)
  then have "life_good u v" using step_good by (simp add: life_good_def)
  with step show ?case unfolding life_good_def by (meson order_less_le_trans order_trans)
qed

section \<open>Properties\<close>

definition demo_daemon_ctx :: daemon_ctx where
  "demo_daemon_ctx = \<lparr>dx_now = 100, dx_instant = 0, dx_is_finished = (\<lambda>_. False), dx_prefetch_spawns = (\<lambda>_. True),
     dx_context_window = (\<lambda>_ _. None), dx_catalog = [], dx_list_fmt = concat\<rparr>"

text \<open>A database with sessions 4 and 5, and a daemon started on it where 5 was deleted.\<close>

definition two_sessions :: db where
  "two_sessions =
     \<lparr>db_sessions = [4 \<mapsto> record_of_metadata (metadata_of_config session_config_default),
                     5 \<mapsto> record_of_metadata (metadata_of_config session_config_default)],
      db_turns = (\<lambda>_. None), db_tombstones = {}, db_faults = []\<rparr>"

definition demo_life :: life where
  "demo_life = life_start [] two_sessions"

definition demo_deleted :: life where
  "demo_deleted = do_command demo_daemon_ctx (D_DeleteSession 5 0) demo_life"

lemma demo_life_reachable: "life_reachable demo_life"
  unfolding demo_life_def by (rule reach_start) (simp_all add: two_sessions_def)

lemma demo_deleted_reachable: "life_reachable demo_deleted"
  unfolding demo_deleted_def
  by (rule reach_step [OF demo_life_reachable], rule life_command)
     (simp add: finished_ok_def demo_life_def life_start_def)

lemma demo_listed:
  "listed (lf_daemon demo_life) = {4, 5}" "ds_next_session_id (lf_daemon demo_life) = 6"
  "ds_children (lf_daemon demo_life) = []" "lf_threads demo_life = []"
proof -
  have f: "db_faults two_sessions = []" by (simp add: two_sessions_def)
  have "ds_session_metadata (start_daemon [] two_sessions) =
      map (\<lambda>i. (i, metadata_of_record (record_of_metadata (metadata_of_config session_config_default)))) [4, 5]"
    by (simp add: start_daemon_def purge_tombstoned_sessions_def read_all_sessions_def load_index_def
        two_sessions_def)
  then show "listed (lf_daemon demo_life) = {4, 5}" "ds_next_session_id (lf_daemon demo_life) = 6"
    by (simp_all add: demo_life_def life_start_def listed_def start_fields(5) [OF f] first_session_id_def)
  show "ds_children (lf_daemon demo_life) = []" "lf_threads demo_life = []"
    by (simp_all add: demo_life_def life_start_def start_daemon_def case_prod_unfold)
qed




lemma demo_deleted_state:
  "listed (lf_daemon demo_deleted) = {4}" "ds_next_session_id (lf_daemon demo_deleted) = 6"
proof -
  have "finished_ok demo_daemon_ctx demo_life" by (simp add: finished_ok_def demo_listed)
  note c = delete_command [OF reachable_inv [OF demo_life_reachable] this refl refl, of 5 0]
  have e: "lf_daemon demo_deleted = handle_delete_session demo_daemon_ctx 5 0 (lf_daemon demo_life)"
    by (simp add: demo_deleted_def do_command_def Let_def)
  show "listed (lf_daemon demo_deleted) = {4}"
    unfolding e c [THEN conjunct2, THEN conjunct1] demo_listed by auto
  show "ds_next_session_id (lf_daemon demo_deleted) = 6"
    unfolding e c [THEN conjunct2, THEN conjunct2, THEN conjunct1] demo_listed ..
qed






text \<open>
  Every listed session can be attached: the answer is a session thread, and it is the
  one thread of that session.
\<close>

lemma listed_session_attaches:
  assumes "life_reachable y" "sid \<in> listed (lf_daemon y)"
  shows "\<exists>th. last (ds_replies (lf_daemon (do_command ctx (D_AttachSession sid ch) y))) = (ch, AttachReply (Inr th))
    \<and> threads_of sid (lf_threads (do_command ctx (D_AttachSession sid ch) y)) = [th]"
proof -
  let ?y' = "do_command ctx (D_AttachSession sid ch) y"
  have inv: "life_inv y" using reachable_inv [OF assms(1)] .
  have ok: "sid \<notin> ds_deleted_sessions (lf_daemon y)" "db_sessions (ds_db (lf_daemon y)) sid \<noteq> None"
    using life_okD [OF inv [unfolded life_inv_def], of sid] assms(2) by (auto simp: session_ok_def)
  have "life_inv ?y'" using attach_good [OF inv] by (simp add: life_good_def)
  then have one: "map_of (ds_active_sessions (lf_daemon ?y')) sid = Some th \<Longrightarrow> threads_of sid (lf_threads ?y') = [th]" for th
    using life_okD [of _ "map_of (ds_active_sessions (lf_daemon ?y'))" _ _ _ _ _ _ _ sid]
    by (fastforce simp: life_inv_def session_ok_def)
  obtain th where th: "last (ds_replies (lf_daemon ?y')) = (ch, AttachReply (Inr th))"
    "map_of (ds_active_sessions (lf_daemon ?y')) sid = Some th"
  proof (cases "map_of (ds_active_sessions (lf_daemon y)) sid")
    case (Some th)
    have "ds_active_sessions (lf_daemon ?y') = ds_active_sessions (lf_daemon y)"
      using life_core_eqD(2) [OF attach_core_none [OF life_inv_faults [OF inv], of sid ctx ch]] Some
      by (simp add: do_command_def Let_def)
    with Some show ?thesis
      using that [of th] ok by (simp add: do_command_def Let_def handle_attach_session_def reply_to_def)
  next
    case None
    obtain r where r: "db_sessions (ds_db (lf_daemon y)) sid = Some r" using ok by blast
    have "map_of (ds_active_sessions (lf_daemon ?y')) sid = Some (ds_next_thread (lf_daemon y))"
      using attach_core [OF life_inv_faults [OF inv] ok(1) None r, of ctx ch]
      by (auto simp: do_command_def Let_def update_conv' dest: life_core_eqD(2))
    then show ?thesis
      using that [of "ds_next_thread (lf_daemon y)"] ok None r life_inv_faults [OF inv]
      by (simp add: do_command_def Let_def handle_attach_session_def reply_to_def read_session_def spawn_session_def)
  qed
  with one show ?thesis by blast
qed

lemma listed_session_attaches_witness:
  "\<exists>th. threads_of 4 (lf_threads (do_command demo_daemon_ctx (D_AttachSession 4 0) demo_life)) = [th]"
  using listed_session_attaches [OF demo_life_reachable, of 4 demo_daemon_ctx 0] by (auto simp: demo_listed)

end
