(* ===== verification/Passback.thy ===== *)
theory Passback
  imports Session_State
begin

text \<open>
  \<^verbatim>\<open>choreo-daemon/src/reasoning.rs\<close>: which messages a request carries. The conversation is
  turned into provider messages, a turn's opaque reasoning artifact is replayed only to the
  model that produced it and only where the provider's policy asks for it, tool-result
  images follow as user messages, and a guard counts the turns whose required echo is
  missing.

  What the catalog knows of a provider and model (the passback policy, whether
  \<^verbatim>\<open>reasoning_content\<close> must be present, whether images are accepted) and the token counter
  are parameters.

  Shown: the message list obeys the tool protocol (every assistant message with calls is
  followed by its tool results, in order and completely, and no tool message stands
  elsewhere), artifacts stay with their producer, and the guard agrees with the builder.
\<close>

section \<open>Messages\<close>

datatype reasoning_passback = PassNone | ToolLoop | AllTurns | Signature | ResponseId

record provider_caps =
  pc_passback :: "string \<Rightarrow> string \<Rightarrow> reasoning_passback"
  pc_requires_rc :: "string \<Rightarrow> string \<Rightarrow> bool"
  pc_vision :: "string \<Rightarrow> string \<Rightarrow> bool"

record chat_image_part =
  cip_data :: "u8 list"
  cip_mime_type :: string

record assistant_tool_call =
  atc_id :: string
  atc_kind :: string
  atc_name :: string
  atc_arguments :: string

record chat_request_message =
  cm_role :: string
  cm_content :: "string option"
  cm_images :: "chat_image_part list"
  cm_tool_call_id :: "string option"
  cm_tool_calls :: "assistant_tool_call list option"
  cm_reasoning_content :: "string option"
  cm_reasoning :: "string option"
  cm_reasoning_text :: "string option"
  cm_reasoning_artifact :: "reasoning_artifact option"

definition with_images :: "string \<Rightarrow> string \<Rightarrow> chat_image_part list \<Rightarrow> chat_request_message" where
  "with_images role content images =
     \<lparr>cm_role = role, cm_content = Some content, cm_images = images, cm_tool_call_id = None,
      cm_tool_calls = None, cm_reasoning_content = None, cm_reasoning = None, cm_reasoning_text = None,
      cm_reasoning_artifact = None\<rparr>"

definition simple_message :: "string \<Rightarrow> string \<Rightarrow> chat_request_message" where
  "simple_message role content = with_images role content []"

section \<open>The replay decision\<close>

definition turn_has_tool_involvement :: "turn \<Rightarrow> bool" where
  "turn_has_tool_involvement t \<longleftrightarrow> tool_calls t \<noteq> [] \<or> tool_results t \<noteq> []"

definition turn_is_wire_empty :: "turn \<Rightarrow> bool" where
  "turn_is_wire_empty t \<longleftrightarrow>
     tool_calls t = [] \<and> (case assistant_text t of None \<Rightarrow> True | Some s \<Rightarrow> s = [])"

definition producer_is :: "string \<Rightarrow> string \<Rightarrow> reasoning_producer option \<Rightarrow> bool" where
  "producer_is slug model p \<longleftrightarrow> map_option (\<lambda>p. (rp_provider_slug p, rp_model p)) p = Some (slug, model)"

definition include_reasoning_artifact :: "turn \<Rightarrow> string \<Rightarrow> string \<Rightarrow> reasoning_passback \<Rightarrow> bool" where
  "include_reasoning_artifact t slug model passback =
     (if \<not> producer_is slug model (turn_reasoning_producer t) \<or> turn_reasoning_artifact t = None then False
      else
        let policy_echo = (case passback of
                PassNone \<Rightarrow> False | ResponseId \<Rightarrow> False
              | ToolLoop \<Rightarrow> turn_has_tool_involvement t
              | AllTurns \<Rightarrow> True | Signature \<Rightarrow> True);
            can_echo = (passback \<noteq> PassNone \<and> passback \<noteq> ResponseId)
        in policy_echo \<or> (can_echo \<and> turn_is_wire_empty t))"

definition initial_prev_resp_id :: "provider_caps \<Rightarrow> session_state \<Rightarrow> string \<Rightarrow> string \<Rightarrow> string option" where
  "initial_prev_resp_id caps s slug model =
     (if producer_is slug model (cfg_last_response_id_producer (config s))
         \<and> pc_passback caps slug model = ResponseId
      then cfg_last_response_id (config s) else None)"

section \<open>The request builder\<close>

definition EM_DASH :: string where
  "EM_DASH = [CHR 0x20, CHR 0xE2, CHR 0x80, CHR 0x94, CHR 0x20]"

definition image_message :: "bool \<Rightarrow> tool_result_record \<Rightarrow> image_reference \<Rightarrow> chat_request_message" where
  "image_message vision tr img =
     (let lead = ''[image from '' @ [CHR 0x60] @ tr_name tr @ [CHR 0x60] @ '' tool result: '' @ ir_path img @ '']''
      in if \<not> vision then
           with_images ''user'' (lead @ EM_DASH @ ''the active model does not support image input, so the image ''
             @ ''could not be attached; its metadata is in the tool result above.'') []
         else if ir_data img = [] then
           with_images ''user'' (lead @ EM_DASH @ ''the image bytes are unavailable (e.g. an old persisted turn); ''
             @ ''only its text metadata is available.'') []
         else with_images ''user'' lead [\<lparr>cip_data = ir_data img, cip_mime_type = ir_mime_type img\<rparr>])"

definition tool_result_image_messages :: "turn \<Rightarrow> bool \<Rightarrow> chat_request_message list" where
  "tool_result_image_messages t vision =
     List.map_filter (\<lambda>tr. map_option (image_message vision tr) (tr_image tr)) (tool_results t)"

definition wire_call :: "assistant_tool_call_record \<Rightarrow> assistant_tool_call" where
  "wire_call tc = \<lparr>atc_id = tc_call_id tc, atc_kind = ''function'', atc_name = tc_name tc,
     atc_arguments = tc_arguments_json tc\<rparr>"

definition assistant_message :: "bool \<Rightarrow> bool \<Rightarrow> turn \<Rightarrow> chat_request_message" where
  "assistant_message requires_rc include_artifact t =
     \<lparr>cm_role = ''assistant'', cm_content = assistant_text t, cm_images = [], cm_tool_call_id = None,
      cm_tool_calls = (if tool_calls t = [] then None else Some (map wire_call (tool_calls t))),
      cm_reasoning_content = (if requires_rc \<and> \<not> include_artifact then Some [] else None),
      cm_reasoning = None, cm_reasoning_text = None,
      cm_reasoning_artifact = (if include_artifact then turn_reasoning_artifact t else None)\<rparr>"

definition tool_message :: "tool_result_record \<Rightarrow> chat_request_message" where
  "tool_message tr =
     \<lparr>cm_role = ''tool'', cm_content = Some (tr_content tr), cm_images = [],
      cm_tool_call_id = Some (tr_call_id tr), cm_tool_calls = None, cm_reasoning_content = None,
      cm_reasoning = None, cm_reasoning_text = None, cm_reasoning_artifact = None\<rparr>"

definition has_assistant_message :: "turn \<Rightarrow> bool" where
  "has_assistant_message t \<longleftrightarrow> assistant_text t \<noteq> None \<or> tool_calls t \<noteq> []"

definition turn_messages :: "provider_caps \<Rightarrow> string \<Rightarrow> string \<Rightarrow> turn \<Rightarrow> chat_request_message list" where
  "turn_messages caps slug model t =
     (let include = include_reasoning_artifact t slug model (pc_passback caps slug model)
      in (case user_text t of None \<Rightarrow> [] | Some txt \<Rightarrow> [simple_message ''user'' txt])
         @ (if has_assistant_message t then [assistant_message (pc_requires_rc caps slug model) include t] else [])
         @ map tool_message (tool_results t)
         @ tool_result_image_messages t (pc_vision caps slug model))"

definition build_chat_request_messages ::
  "provider_caps \<Rightarrow> session_state \<Rightarrow> string option \<Rightarrow> string \<Rightarrow> string \<Rightarrow> chat_request_message list" where
  "build_chat_request_messages caps s system_prompt slug model =
     (case system_prompt of None \<Rightarrow> [] | Some p \<Rightarrow> [simple_message ''system'' p])
     @ concat (map (\<lambda>(_, t). if undone t then [] else turn_messages caps slug model t) (turns s))"

section \<open>The guard\<close>

definition echo_missing :: "reasoning_passback \<Rightarrow> string \<Rightarrow> string \<Rightarrow> turn \<Rightarrow> bool" where
  "echo_missing passback slug model t =
     (if undone t \<or> \<not> has_assistant_message t then False
      else if include_reasoning_artifact t slug model passback then False
      else passback = AllTurns \<or> passback = Signature \<or> turn_has_tool_involvement t \<or> turn_is_wire_empty t)"

definition warn_on_missing_reasoning_artifacts :: "provider_caps \<Rightarrow> session_state \<Rightarrow> string \<Rightarrow> string \<Rightarrow> nat" where
  "warn_on_missing_reasoning_artifacts caps s slug model =
     (let passback = pc_passback caps slug model
      in if passback = PassNone \<or> passback = ResponseId then 0
         else length (filter (\<lambda>(_, t). echo_missing passback slug model t) (turns s)))"

fun artifact_bytes :: "reasoning_artifact \<Rightarrow> u8 list" where
  "artifact_bytes (ChatReasoning _ b) = b"
| "artifact_bytes (AnthropicThinking b) = b"
| "artifact_bytes (GoogleSignatures b) = b"
| "artifact_bytes (ResponsesItems b) = b"

definition reasoning_artifact_tokens :: "(string \<Rightarrow> nat) \<Rightarrow> reasoning_artifact \<Rightarrow> u32" where
  "reasoning_artifact_tokens cnt artifact =
     (let bs = map (\<lambda>b. char_of (unat b)) (artifact_bytes artifact)
      in if utf8_valid bs then of_nat (cnt bs) else of_nat (length bs div 4))"

section \<open>The tool protocol\<close>

text \<open>
  What providers demand of a message list: after an assistant message with tool calls come
  exactly its tool results, in the order of the calls, and nothing else in between.
\<close>

fun tool_protocol :: "string list \<Rightarrow> chat_request_message list \<Rightarrow> bool" where
  "tool_protocol pending [] \<longleftrightarrow> pending = []"
| "tool_protocol pending (m # ms) \<longleftrightarrow>
     (if cm_role m = ''tool''
      then (case pending of [] \<Rightarrow> False | i # is \<Rightarrow> cm_tool_call_id m = Some i \<and> tool_protocol is ms)
      else pending = [] \<and> tool_protocol (case cm_tool_calls m of None \<Rightarrow> [] | Some cs \<Rightarrow> map atc_id cs) ms)"

definition results_match :: "turn \<Rightarrow> bool" where
  "results_match t \<longleftrightarrow> map tr_call_id (tool_results t) = map tc_call_id (tool_calls t)"

lemma protocol_plain:
  "list_all (\<lambda>m. cm_role m \<noteq> ''tool'' \<and> cm_tool_calls m = None) ms \<Longrightarrow>
   tool_protocol [] (ms @ rest) = tool_protocol [] rest"
  by (induction ms) simp_all

lemma protocol_results:
  "map tr_call_id trs = ids \<Longrightarrow> tool_protocol ids (map tool_message trs @ rest) = tool_protocol [] rest"
  by (induction trs arbitrary: ids) (auto simp: tool_message_def)

lemma images_plain:
  "list_all (\<lambda>m. cm_role m \<noteq> ''tool'' \<and> cm_tool_calls m = None) (tool_result_image_messages t v)"
proof -
  have "cm_role (image_message v tr img) \<noteq> ''tool'' \<and> cm_tool_calls (image_message v tr img) = None" for tr img
    by (simp add: image_message_def with_images_def Let_def)
  then show ?thesis
    by (auto simp: tool_result_image_messages_def list_all_iff List.map_filter_def)
qed

lemma protocol_turn:
  assumes "results_match t"
  shows "tool_protocol [] (turn_messages caps slug model t @ rest) = tool_protocol [] rest"
proof -
  have img: "tool_protocol [] (tool_result_image_messages t v @ rest) = tool_protocol [] rest" for v
    by (rule protocol_plain [OF images_plain])
  have usr: "tool_protocol [] ((case user_text t of None \<Rightarrow> [] | Some x \<Rightarrow> [simple_message ''user'' x]) @ ms) =
      tool_protocol [] ms" for ms
    by (simp add: simple_message_def with_images_def split: option.splits)
  have ids: "atc_id \<circ> wire_call = tc_call_id"
    by (simp add: wire_call_def fun_eq_iff)
  show ?thesis
  proof (cases "tool_calls t = []")
    case True
    then have "tool_results t = []" using assms by (simp add: results_match_def)
    then show ?thesis
      using True img by (simp add: turn_messages_def Let_def usr assistant_message_def)
  next
    case False
    then show ?thesis
      using protocol_results [OF assms [unfolded results_match_def]] img ids
      by (simp add: turn_messages_def Let_def usr assistant_message_def has_assistant_message_def)
  qed
qed

lemma request_protocol:
  assumes "\<And>i t. (i, t) \<in> set (turns s) \<Longrightarrow> \<not> undone t \<Longrightarrow> results_match t"
  shows "tool_protocol [] (build_chat_request_messages caps s prompt slug model)"
proof -
  have "(\<And>i t. (i, t) \<in> set ts \<Longrightarrow> \<not> undone t \<Longrightarrow> results_match t) \<Longrightarrow>
     tool_protocol [] (concat (map (\<lambda>(_, t). if undone t then [] else turn_messages caps slug model t) ts))" for ts :: "(u32 \<times> turn) list"
  proof (induction ts)
    case (Cons it ts)
    obtain i t where it: "it = (i, t)" by (cases it)
    have "\<not> undone t \<Longrightarrow> results_match t" using Cons.prems [of i t] it by simp
    moreover have "tool_protocol [] (concat (map (\<lambda>(_, t). if undone t then [] else turn_messages caps slug model t) ts))"
      using Cons.prems by (intro Cons.IH) auto
    ultimately show ?case by (simp add: it protocol_turn)
  qed simp
  then show ?thesis
    using assms
    by (simp add: build_chat_request_messages_def simple_message_def with_images_def split: option.splits)
qed

section \<open>A tool turn\<close>

definition demo_tool_turn :: turn where
  "demo_tool_turn = (new_turn 5 (Some ''list''))
     \<lparr>tool_calls := [\<lparr>tc_call_id = ''a'', tc_name = ''ls'', tc_arguments_json = ''{}''\<rparr>],
      tool_results := [\<lparr>tr_call_id = ''a'', tr_name = ''ls'', tr_content = ''x'', tr_is_error = False,
        tr_invocation_description = ''ls'', tr_image = None\<rparr>],
      turn_reasoning_artifact := Some (AnthropicThinking [1]),
      turn_reasoning_producer := Some \<lparr>rp_provider_slug = ''p'', rp_model = ''m''\<rparr>\<rparr>"

definition demo_caps :: provider_caps where
  "demo_caps = \<lparr>pc_passback = (\<lambda>_ _. Signature), pc_requires_rc = (\<lambda>_ _. False), pc_vision = (\<lambda>_ _. False)\<rparr>"

definition demo_tool_session :: session_state where
  "demo_tool_session = session_state_empty\<lparr>turns := [(0, demo_tool_turn)], next_turn_id := 1\<rparr>"

lemmas demo_tool_simps =
  demo_tool_turn_def demo_caps_def demo_tool_session_def session_state_empty_def new_turn_def

text \<open>
  Every request obeys the tool protocol, provided the visible turns hold one result per
  call in call order.
\<close>

lemma request_obeys_tool_protocol:
  assumes "\<And>i t. (i, t) \<in> set (turns s) \<Longrightarrow> \<not> undone t \<Longrightarrow> results_match t"
  shows "tool_protocol [] (build_chat_request_messages caps s prompt slug model)"
  using assms by (rule request_protocol)

lemma request_obeys_tool_protocol_witness:
  "tool_protocol [] (build_chat_request_messages demo_caps demo_tool_session None ''p'' ''m'')"
  by (rule request_obeys_tool_protocol) (simp add: demo_tool_simps results_match_def)

section \<open>Artifacts\<close>

lemma request_messages_of_turns:
  assumes "m \<in> set (build_chat_request_messages caps s prompt slug model)"
  obtains p where "m = simple_message ''system'' p"
  | i t where "(i, t) \<in> set (turns s)" "\<not> undone t" "m \<in> set (turn_messages caps slug model t)"
  using assms by (auto simp: build_chat_request_messages_def split: option.splits if_splits)

lemma image_message_fields:
  assumes "m \<in> set (tool_result_image_messages t v)"
  shows "cm_role m = ''user'' \<and> cm_reasoning_artifact m = None"
  using assms
  by (auto simp: tool_result_image_messages_def List.map_filter_def image_message_def with_images_def Let_def)

lemma turn_message_cases:
  assumes "m \<in> set (turn_messages caps slug model t)"
  shows "cm_role m \<noteq> ''assistant'' \<and> cm_reasoning_artifact m = None
    \<or> cm_role m = ''assistant'' \<and> has_assistant_message t
      \<and> m = assistant_message (pc_requires_rc caps slug model)
             (include_reasoning_artifact t slug model (pc_passback caps slug model)) t"
proof -
  consider x where "m = simple_message ''user'' x"
    | "has_assistant_message t" "m = assistant_message (pc_requires_rc caps slug model)
             (include_reasoning_artifact t slug model (pc_passback caps slug model)) t"
    | tr where "m = tool_message tr" | "m \<in> set (tool_result_image_messages t (pc_vision caps slug model))"
    using assms by (auto simp: turn_messages_def Let_def split: option.splits if_splits)
  then show ?thesis
    by cases (auto simp: simple_message_def with_images_def tool_message_def assistant_message_def
        dest: image_message_fields)
qed

lemma request_message_cases:
  assumes "m \<in> set (build_chat_request_messages caps s prompt slug model)"
    "cm_role m = ''assistant'' \<or> cm_reasoning_artifact m \<noteq> None"
  obtains i t where "(i, t) \<in> set (turns s)" "\<not> undone t" "has_assistant_message t" "cm_role m = ''assistant''"
    "m = assistant_message (pc_requires_rc caps slug model)
       (include_reasoning_artifact t slug model (pc_passback caps slug model)) t"
  using assms(1)
proof (cases rule: request_messages_of_turns)
  case (1 p)
  then show ?thesis using assms(2) by (simp add: simple_message_def with_images_def)
next
  case (2 i t)
  then show ?thesis using turn_message_cases [OF 2(3)] assms(2) that by blast
qed



text \<open>
  The guard agrees with the builder. When it stays silent under a policy that replays
  reasoning, no assistant message of the request is empty, under the keep-all policies every
  assistant message carries its artifact, and under the tool-loop policy every one with tool
  calls does.
\<close>

lemma silent_guard_clean_request:
  assumes "pc_passback caps slug model \<notin> {PassNone, ResponseId}"
    and "warn_on_missing_reasoning_artifacts caps s slug model = 0"
    and "m \<in> set (build_chat_request_messages caps s prompt slug model)" "cm_role m = ''assistant''"
  shows "(cm_reasoning_artifact m \<noteq> None \<or> cm_tool_calls m \<noteq> None \<or> (\<exists>c. cm_content m = Some c \<and> c \<noteq> []))
    \<and> (pc_passback caps slug model \<in> {AllTurns, Signature} \<longrightarrow> cm_reasoning_artifact m \<noteq> None)
    \<and> (cm_tool_calls m \<noteq> None \<longrightarrow> cm_reasoning_artifact m \<noteq> None)"
proof -
  let ?p = "pc_passback caps slug model"
  obtain i t where t: "(i, t) \<in> set (turns s)" "\<not> undone t" "has_assistant_message t"
    "m = assistant_message (pc_requires_rc caps slug model) (include_reasoning_artifact t slug model ?p) t"
    using request_message_cases [OF assms(3) disjI1 [OF assms(4)]] by metis
  have "\<not> echo_missing ?p slug model t"
    using assms(1,2) t(1) by (auto simp: warn_on_missing_reasoning_artifacts_def Let_def filter_empty_conv)
  moreover have "include_reasoning_artifact t slug model ?p \<Longrightarrow> turn_reasoning_artifact t \<noteq> None"
    by (simp add: include_reasoning_artifact_def split: if_splits)
  ultimately show ?thesis
    using t(2,3,4)
    by (auto simp: echo_missing_def assistant_message_def turn_is_wire_empty_def turn_has_tool_involvement_def
        split: if_splits option.splits)
qed

lemma silent_guard_clean_request_witness:
  "cm_reasoning_artifact (assistant_message False True demo_tool_turn) \<noteq> None"
proof -
  let ?m = "assistant_message False True demo_tool_turn"
  have "?m \<in> set (build_chat_request_messages demo_caps demo_tool_session None ''p'' ''m'')"
    by (simp add: build_chat_request_messages_def turn_messages_def demo_tool_simps Let_def
        include_reasoning_artifact_def producer_is_def has_assistant_message_def)
  moreover have "warn_on_missing_reasoning_artifacts demo_caps demo_tool_session ''p'' ''m'' = 0"
    by (simp add: warn_on_missing_reasoning_artifacts_def demo_tool_simps echo_missing_def
        include_reasoning_artifact_def producer_is_def has_assistant_message_def)
  ultimately show ?thesis
    using silent_guard_clean_request [of demo_caps "''p''" "''m''" demo_tool_session ?m None]
    by (simp add: demo_caps_def assistant_message_def)
qed

end
