(* ===== verification/Sanitize.thy ===== *)
theory Sanitize
  imports Text
begin

text \<open>
  The string-safety layer for tool output: the crate \<^verbatim>\<open>choreo-sanitize\<close> and
  \<^verbatim>\<open>choreo-daemon/src/tools/sanitize.rs\<close>. A string is the list of its UTF-8 bytes and
  \<open>chars\<close> splits it into characters. The Unicode tables are a parameter: \<open>cf\<close> says whether a
  code point has the general category Format.

  Shown: the escapers leave no control, separator or format character, the length
  estimate is exact, the transcript escaper is idempotent, cutting never splits a
  character, a reserved tail survives the final cap, and a streaming budget forwards
  exactly the first bytes with one marker.
\<close>

section \<open>Characters of a string\<close>

function chars :: "string \<Rightarrow> string list" where
  "chars bs =
     (if bs = [] then [] else take (snd (utf8_chunk bs)) bs # chars (drop (snd (utf8_chunk bs)) bs))"
  by pat_completeness auto
termination
  by (relation "measure length") (auto simp: utf8_chunk_pos)

declare chars.simps [simp del]

lemma chars_Nil [simp]: "chars [] = []"
  by (simp add: chars.simps)

lemma concat_chars [simp]: "concat (chars bs) = bs"
proof (induction bs rule: chars.induct)
  case (1 bs)
  then show ?case by (cases "bs = []") (simp_all add: chars.simps [of bs])
qed

definition uchar :: "string \<Rightarrow> bool" where
  "uchar c \<longleftrightarrow> c \<noteq> [] \<and> utf8_chunk c = (True, length c)"

lemma chunk_bound: "bs \<noteq> [] \<Longrightarrow> snd (utf8_chunk bs) \<le> length bs"
  by (auto simp: utf8_chunk_def Let_def cont_at_def Suc_le_eq numeral_eq_Suc split: if_splits)

lemma length_1to4: "uchar c \<Longrightarrow> \<exists>a b d e. c = [a] \<or> c = [a, b] \<or> c = [a, b, d] \<or> c = [a, b, d, e]"
proof -
  assume "uchar c"
  then have "length c \<noteq> 0" "length c \<le> 4"
    by (auto simp: uchar_def utf8_chunk_def Let_def split: if_splits)
  then have "length c = 1 \<or> length c = 2 \<or> length c = 3 \<or> length c = 4" by linarith
  then show ?thesis by (auto simp: length_Suc_conv numeral_eq_Suc)
qed

lemma chunk_append:
  assumes "uchar c"
  shows "utf8_chunk (c @ r) = (True, length c)"
proof -
  from length_1to4 [OF assms] obtain a b d e
    where "c = [a] \<or> c = [a, b] \<or> c = [a, b, d] \<or> c = [a, b, d, e]" by blast
  with assms show ?thesis
    by (elim disjE) (auto simp: uchar_def utf8_chunk_def Let_def cont_at_def split: if_splits)
qed

lemma chunk_take:
  assumes "bs \<noteq> []" "fst (utf8_chunk bs)"
  shows "uchar (take (snd (utf8_chunk bs)) bs)"
proof -
  let ?n = "snd (utf8_chunk bs)"
  have n: "0 < ?n" "?n \<le> length bs" using utf8_chunk_pos chunk_bound assms(1) by auto
  have hd: "hd (take ?n bs) = hd bs" using assms(1) n by (cases bs) (auto simp: gr0_conv_Suc)
  have "utf8_chunk (take ?n bs) = (True, ?n)"
    using assms n hd
    by (auto simp: utf8_chunk_def Let_def cont_at_def split: if_splits)
  then show ?thesis using n assms(1) by (auto simp: uchar_def)
qed

lemma chars_append: "uchar c \<Longrightarrow> chars (c @ r) = c # chars r"
  using chunk_append [of c r] by (subst chars.simps) (auto simp: uchar_def)

lemma chars_concat: "list_all uchar cs \<Longrightarrow> chars (concat cs) = cs"
  by (induction cs) (simp_all add: chars_append)

lemma valid_chars: "utf8_valid bs \<longleftrightarrow> list_all uchar (chars bs)"
proof (induction bs rule: chars.induct)
  case (1 bs)
  show ?case
  proof (cases "bs = []")
    case False
    let ?n = "snd (utf8_chunk bs)"
    have "uchar (take ?n bs) \<longleftrightarrow> fst (utf8_chunk bs)"
    proof
      assume "uchar (take ?n bs)"
      from chunk_append [OF this, of "drop ?n bs"] show "fst (utf8_chunk bs)" by (metis append_take_drop_id fst_conv)
    qed (rule chunk_take [OF False])
    then show ?thesis
      using "1.IH" [OF False] False by (simp add: chars.simps [of bs] utf8_valid.simps [of bs])
  qed (simp add: utf8_valid.simps)
qed

lemma valid_append: "utf8_valid a \<Longrightarrow> chars (a @ b) = chars a @ chars b"
proof -
  have "list_all uchar cs \<Longrightarrow> chars (concat cs @ b) = cs @ chars b" for cs
    by (induction cs) (simp_all add: chars_append)
  then show "utf8_valid a \<Longrightarrow> ?thesis" using concat_chars [of a] by (metis valid_chars)
qed

lemma valid_appendI: "utf8_valid a \<Longrightarrow> utf8_valid b \<Longrightarrow> utf8_valid (a @ b)"
  by (simp add: valid_chars [of "a @ b"] valid_append) (simp add: valid_chars)

lemma ascii_uchar: "byte b \<le> 0x7F \<Longrightarrow> uchar [b]"
  by (simp add: uchar_def utf8_chunk_def)

definition ascii :: "string \<Rightarrow> bool" where
  "ascii bs \<longleftrightarrow> list_all (\<lambda>b. byte b \<le> 0x7F) bs"

lemma chars_ascii: "ascii bs \<Longrightarrow> chars (bs @ r) = map (\<lambda>b. [b]) bs @ chars r"
proof (induction bs)
  case (Cons b bs)
  then show ?case using chars_append [OF ascii_uchar, of b "bs @ r"] by (simp add: ascii_def)
qed simp

lemma ascii_valid: "ascii bs \<Longrightarrow> utf8_valid bs"
  using chars_ascii [of bs "[]"] by (simp add: valid_chars ascii_def list_all_iff ascii_uchar)

text \<open>The code point of a character.\<close>

definition codepoint :: "string \<Rightarrow> nat" where
  "codepoint c =
     (case map byte c of
        [a] \<Rightarrow> a
      | [a, b] \<Rightarrow> (a - 0xC0) * 64 + (b - 0x80)
      | [a, b, d] \<Rightarrow> (a - 0xE0) * 4096 + (b - 0x80) * 64 + (d - 0x80)
      | [a, b, d, e] \<Rightarrow> (a - 0xF0) * 262144 + (b - 0x80) * 4096 + (d - 0x80) * 64 + (e - 0x80)
      | _ \<Rightarrow> 0)"

lemma codepoint_single [simp]: "codepoint [b] = byte b"
  by (simp add: codepoint_def)

section \<open>Escaping\<close>

definition hex_digit :: "nat \<Rightarrow> char" where
  "hex_digit d = (if d < 10 then char_of (48 + d) else char_of (87 + d))"

fun hex :: "nat \<Rightarrow> string" where
  "hex n = (if n < 16 then [hex_digit n] else hex (n div 16) @ [hex_digit (n mod 16)])"

declare hex.simps [simp del]

text \<open>\<^verbatim>\<open>char::escape_default\<close>.\<close>

definition escape_default :: "string \<Rightarrow> string" where
  "escape_default c =
     (let n = codepoint c; bs = CHR 0x5C
      in if n = 9 then [bs, CHR ''t''] else if n = 13 then [bs, CHR ''r''] else if n = 10 then [bs, CHR ''n'']
         else if n = 0x27 \<or> n = 0x22 \<or> n = 0x5C then bs # c
         else if 0x20 \<le> n \<and> n \<le> 0x7E then c
         else [bs, CHR ''u'', CHR 0x7B] @ hex n @ [CHR 0x7D])"

definition is_control :: "nat \<Rightarrow> bool" where
  "is_control n \<longleftrightarrow> n < 0x20 \<or> (0x7F \<le> n \<and> n \<le> 0x9F)"

definition is_non_joiner_format_char :: "(nat \<Rightarrow> bool) \<Rightarrow> nat \<Rightarrow> bool" where
  "is_non_joiner_format_char cf n \<longleftrightarrow> cf n \<and> n \<noteq> 0x200C \<and> n \<noteq> 0x200D"

definition is_unsafe_unicode :: "(nat \<Rightarrow> bool) \<Rightarrow> nat \<Rightarrow> bool" where
  "is_unsafe_unicode cf n \<longleftrightarrow> n = 0x2028 \<or> n = 0x2029 \<or> is_non_joiner_format_char cf n"

definition is_plain_ascii :: "string \<Rightarrow> bool \<Rightarrow> bool" where
  "is_plain_ascii txt keep_tabs =
     list_all (\<lambda>b. (byte b = 9 \<and> keep_tabs) \<or> (0x20 \<le> byte b \<and> byte b \<le> 0x7E)) txt"

definition sanitize_keeps :: "(nat \<Rightarrow> bool) \<Rightarrow> bool \<Rightarrow> string \<Rightarrow> bool" where
  "sanitize_keeps cf keep_tabs c =
     (let n = codepoint c
      in if n \<le> 0x7F then (n = 9 \<and> keep_tabs) \<or> (0x20 \<le> n \<and> n \<le> 0x7E)
         else \<not> is_control n \<and> \<not> is_unsafe_unicode cf n)"

definition sanitize_text :: "(nat \<Rightarrow> bool) \<Rightarrow> string \<Rightarrow> bool \<Rightarrow> string" where
  "sanitize_text cf txt keep_tabs =
     (if is_plain_ascii txt keep_tabs then txt
      else concat (map (\<lambda>c. if sanitize_keeps cf keep_tabs c then c else escape_default c) (chars txt)))"

definition sanitize_text_len :: "(nat \<Rightarrow> bool) \<Rightarrow> string \<Rightarrow> bool \<Rightarrow> nat" where
  "sanitize_text_len cf txt keep_tabs =
     (if is_plain_ascii txt keep_tabs then length txt
      else sum_list (map (\<lambda>c. if sanitize_keeps cf keep_tabs c then length c else length (escape_default c)) (chars txt)))"

definition sanitize_name :: "(nat \<Rightarrow> bool) \<Rightarrow> string \<Rightarrow> string" where
  "sanitize_name cf nm = sanitize_text cf nm False"

definition sanitize_content :: "(nat \<Rightarrow> bool) \<Rightarrow> string \<Rightarrow> string" where
  "sanitize_content cf content = sanitize_text cf content True"

definition sanitize_transcript :: "(nat \<Rightarrow> bool) \<Rightarrow> string \<Rightarrow> string" where
  "sanitize_transcript cf txt =
     (if list_all (\<lambda>b. byte b \<le> 0x7F \<and> (0x20 \<le> byte b \<or> byte b = 10 \<or> byte b = 9 \<or> byte b = 13)) txt then txt
      else concat (map (\<lambda>c. if is_non_joiner_format_char cf (codepoint c) then escape_default c else c) (chars txt)))"

text \<open>\<^verbatim>\<open>str::split\<close> at line feeds.\<close>

fun split_lines :: "string \<Rightarrow> string list" where
  "split_lines [] = [[]]"
| "split_lines (b # bs) =
     (if byte b = 10 then [] # split_lines bs
      else case split_lines bs of [] \<Rightarrow> [[b]] | l # ls \<Rightarrow> (b # l) # ls)"

definition strip_cr :: "string \<Rightarrow> string" where
  "strip_cr l = (if l \<noteq> [] \<and> byte (last l) = 13 then butlast l else l)"

definition sanitize_multiline :: "(nat \<Rightarrow> bool) \<Rightarrow> string \<Rightarrow> string" where
  "sanitize_multiline cf txt =
     join [CHR 0x0A] (map (\<lambda>l. sanitize_text cf (strip_cr l) True) (split_lines txt))"

section \<open>The byte budget\<close>

definition MAX_TOOL_OUTPUT_BYTES :: nat where
  "MAX_TOOL_OUTPUT_BYTES = 128 * 1024"

definition TRUNCATION_SUFFIX :: string where
  "TRUNCATION_SUFFIX = CHR 0x0A # ''...[truncated]''"

text \<open>\<^verbatim>\<open>str::floor_char_boundary\<close>.\<close>

fun floor_char_boundary :: "string \<Rightarrow> nat \<Rightarrow> nat" where
  "floor_char_boundary bs 0 = 0"
| "floor_char_boundary bs (Suc i) =
     (if length bs \<le> Suc i then length bs
      else if \<not> is_cont (bs ! Suc i) then Suc i
      else floor_char_boundary bs i)"

definition truncate_tool_output_at :: "string \<Rightarrow> nat \<Rightarrow> string" where
  "truncate_tool_output_at content cap =
     (if length content \<le> cap then content
      else take (floor_char_boundary content cap) content @ TRUNCATION_SUFFIX)"

definition truncate_tool_output :: "string \<Rightarrow> string" where
  "truncate_tool_output content = truncate_tool_output_at content MAX_TOOL_OUTPUT_BYTES"

definition finish_tool_output :: "string \<Rightarrow> string option \<Rightarrow> string" where
  "finish_tool_output body marker =
     (case marker of
        None \<Rightarrow> truncate_tool_output body
      | Some m \<Rightarrow>
          let tail = CHR 0x0A # m;
              body_cap = MAX_TOOL_OUTPUT_BYTES - (length tail + length TRUNCATION_SUFFIX)
          in truncate_tool_output_at body body_cap @ tail)"

definition finish_tool_output_sanitized :: "(nat \<Rightarrow> bool) \<Rightarrow> string \<Rightarrow> string option \<Rightarrow> string" where
  "finish_tool_output_sanitized cf body marker = finish_tool_output (sanitize_transcript cf body) marker"

definition truncation_marker :: "bool \<Rightarrow> nat \<Rightarrow> string \<Rightarrow> string option" where
  "truncation_marker truncated cap noun =
     (if truncated then Some (''...[truncated at '' @ decimal cap @ '' '' @ noun @ '']'') else None)"

record byte_budget =
  bb_limit :: nat
  bb_used :: nat
  bb_truncated :: bool
  bb_marker_sent :: bool

definition budget_new :: "nat \<Rightarrow> byte_budget" where
  "budget_new limit = \<lparr>bb_limit = limit, bb_used = 0, bb_truncated = False, bb_marker_sent = False\<rparr>"

definition fit :: "byte_budget \<Rightarrow> nat \<Rightarrow> byte_budget \<times> nat" where
  "fit b len =
     (if bb_limit b \<le> bb_used b then (b\<lparr>bb_truncated := True\<rparr>, 0)
      else
        let remaining = bb_limit b - bb_used b
        in if remaining < len then (b\<lparr>bb_used := bb_limit b, bb_truncated := True\<rparr>, remaining)
           else (b\<lparr>bb_used := bb_used b + len\<rparr>, len))"

definition take_marker :: "byte_budget \<Rightarrow> byte_budget \<times> string option" where
  "take_marker b =
     (if bb_truncated b \<and> \<not> bb_marker_sent b then (b\<lparr>bb_marker_sent := True\<rparr>, Some TRUNCATION_SUFFIX)
      else (b, None))"

text \<open>\<^verbatim>\<open>StreamByteCap\<close>: the chunks sent to the client and the recorded body. Whether the
  next send succeeds is decided by the environment.\<close>

record stream_cap =
  sc_budget :: byte_budget
  sc_sent :: "string list"
  sc_out :: string

definition stream_cap_new :: "nat \<Rightarrow> stream_cap" where
  "stream_cap_new limit = \<lparr>sc_budget = budget_new limit, sc_sent = [], sc_out = []\<rparr>"

definition forward :: "(nat \<Rightarrow> bool) \<Rightarrow> string \<Rightarrow> stream_cap \<Rightarrow> stream_cap \<times> bool" where
  "forward up bytes s =
     (if up (length (sc_sent s)) then (s\<lparr>sc_sent := sc_sent s @ [bytes]\<rparr>, True) else (s, False))"

definition record_bytes :: "string \<Rightarrow> stream_cap \<Rightarrow> stream_cap" where
  "record_bytes bytes s = s\<lparr>sc_out := sc_out s @ bytes\<rparr>"

definition push_marker :: "(nat \<Rightarrow> bool) \<Rightarrow> stream_cap \<Rightarrow> stream_cap \<times> bool" where
  "push_marker up s =
     (case take_marker (sc_budget s) of
        (b, None) \<Rightarrow> (s\<lparr>sc_budget := b\<rparr>, True)
      | (b, Some marker) \<Rightarrow>
          (case forward up marker (s\<lparr>sc_budget := b\<rparr>) of
             (s1, False) \<Rightarrow> (s1, False)
           | (s1, True) \<Rightarrow> (record_bytes marker s1, True)))"

definition push :: "(nat \<Rightarrow> bool) \<Rightarrow> string \<Rightarrow> stream_cap \<Rightarrow> stream_cap \<times> bool" where
  "push up chunk s =
     (case fit (sc_budget s) (length chunk) of
        (b, n) \<Rightarrow>
          let s0 = s\<lparr>sc_budget := b\<rparr>
          in if n = 0 then push_marker up s0
             else case forward up (take n chunk) s0 of
                    (s1, False) \<Rightarrow> (s1, False)
                  | (s1, True) \<Rightarrow> push_marker up (record_bytes (take n chunk) s1))"

text \<open>The reader loop: it stops at the first push that fails.\<close>

fun push_all :: "(nat \<Rightarrow> bool) \<Rightarrow> string list \<Rightarrow> stream_cap \<Rightarrow> stream_cap \<times> bool" where
  "push_all up [] s = (s, True)"
| "push_all up (c # cs) s = (case push up c s of (s1, ok) \<Rightarrow> if ok then push_all up cs s1 else (s1, False))"

section \<open>What escaping guarantees\<close>

lemma hex_ascii: "ascii (hex n)"
proof (induction n rule: hex.induct)
  case (1 n)
  then show ?case by (auto simp: hex.simps [of n] ascii_def hex_digit_def)
qed

lemma escape_ascii: "uchar c \<Longrightarrow> \<not> (0x20 \<le> codepoint c \<and> codepoint c \<le> 0x7E) \<Longrightarrow>
   list_all (\<lambda>b. 0x20 \<le> byte b \<and> byte b \<le> 0x7E) (escape_default c)"
proof -
  have "list_all (\<lambda>b. 0x20 \<le> byte b \<and> byte b \<le> 0x7E) (hex n)" for n
  proof (induction n rule: hex.induct)
    case (1 n)
    then show ?case by (auto simp: hex.simps [of n] hex_digit_def)
  qed
  then show "uchar c \<Longrightarrow> \<not> (0x20 \<le> codepoint c \<and> codepoint c \<le> 0x7E) \<Longrightarrow> ?thesis"
    by (auto simp: escape_default_def Let_def)
qed

lemma codepoint_ascii: "uchar c \<Longrightarrow> codepoint c \<le> 0x7F \<Longrightarrow> \<exists>b. c = [b] \<and> byte b \<le> 0x7F"
proof -
  assume c: "uchar c" and n: "codepoint c \<le> 0x7F"
  from length_1to4 [OF c] obtain a b d e
    where "c = [a] \<or> c = [a, b] \<or> c = [a, b, d] \<or> c = [a, b, d, e]" by blast
  then show ?thesis
    using c n
    by (elim disjE)
       (auto simp: uchar_def utf8_chunk_def Let_def cont_at_def codepoint_def is_cont_def second3_def second4_def
         split: if_splits)
qed

text \<open>A result glued from valid pieces, each with harmless characters only.\<close>

lemma pieces_all:
  "(\<And>c. c \<in> set cs \<Longrightarrow> utf8_valid (f c) \<and> list_all P (chars (f c))) \<Longrightarrow>
   utf8_valid (concat (map f cs)) \<and> list_all P (chars (concat (map f cs)))"
  by (induction cs) (simp_all add: valid_append valid_appendI ascii_valid ascii_def)

lemma uchar_valid: "uchar c \<Longrightarrow> utf8_valid c"
  using chars_append [of c "[]"] by (simp add: valid_chars)

lemma chars_uchar: "uchar c \<Longrightarrow> chars c = [c]"
  using chars_append [of c "[]"] by simp

text \<open>One escaped character: valid, printable, and harmless again.\<close>

definition printable :: "string \<Rightarrow> bool" where
  "printable bs \<longleftrightarrow> list_all (\<lambda>b. 0x20 \<le> byte b \<and> byte b \<le> 0x7E) bs"

lemma printable_facts:
  "printable bs \<Longrightarrow> utf8_valid bs"
  "printable bs \<Longrightarrow> chars bs = map (\<lambda>b. [b]) bs"
  "printable bs \<Longrightarrow> list_all (sanitize_keeps cf kt) (chars bs)"
proof -
  assume p: "printable bs"
  then have a: "ascii bs" by (auto simp: printable_def ascii_def list_all_iff)
  show "utf8_valid bs" using ascii_valid [OF a] .
  show c: "chars bs = map (\<lambda>b. [b]) bs" using chars_ascii [OF a, of "[]"] by simp
  show "list_all (sanitize_keeps cf kt) (chars bs)"
    using p by (auto simp: c printable_def list_all_iff sanitize_keeps_def)
qed

lemma piece_facts:
  assumes "uchar c" and p: "p = (if sanitize_keeps cf kt c then c else escape_default c)"
  shows "utf8_valid p \<and> list_all (sanitize_keeps cf kt) (chars p)"
proof (cases "sanitize_keeps cf kt c")
  case False
  then have "\<not> (0x20 \<le> codepoint c \<and> codepoint c \<le> 0x7E)" by (auto simp: sanitize_keeps_def Let_def)
  then have "printable (escape_default c)" using escape_ascii [OF assms(1)] by (simp add: printable_def)
  then show ?thesis using printable_facts False by (simp add: p)
qed (simp_all add: p uchar_valid chars_uchar assms(1))

lemma plain_ascii_facts:
  assumes "is_plain_ascii t kt"
  shows "ascii t" and "list_all (sanitize_keeps cf kt) (chars t)"
proof -
  show a: "ascii t" using assms by (auto simp: is_plain_ascii_def ascii_def list_all_iff)
  show "list_all (sanitize_keeps cf kt) (chars t)"
    using assms chars_ascii [OF a, of "[]"] by (auto simp: is_plain_ascii_def list_all_iff sanitize_keeps_def)
qed

text \<open>The fast path computes what the slow path does.\<close>

lemma sanitize_text_slow:
  "sanitize_text cf t kt = concat (map (\<lambda>c. if sanitize_keeps cf kt c then c else escape_default c) (chars t))"
proof (cases "is_plain_ascii t kt")
  case True
  then have "map (\<lambda>c. if sanitize_keeps cf kt c then c else escape_default c) (chars t) = chars t"
    using plain_ascii_facts(2) [of t kt cf] by (auto simp: list_all_iff map_idI)
  then show ?thesis using True by (simp add: sanitize_text_def)
qed (simp add: sanitize_text_def)

text \<open>
  Escaped text is inert. For every valid string the result is a valid string all of
  whose characters may pass: no control character (a tab only in line content), no line or
  paragraph separator, no format character but the joiners. The allocation-free length
  estimate is exact, and escaping again changes nothing.
\<close>

lemma sanitized_text_inert:
  assumes "utf8_valid t"
  shows "utf8_valid (sanitize_text cf t kt)
    \<and> list_all (sanitize_keeps cf kt) (chars (sanitize_text cf t kt))
    \<and> sanitize_text_len cf t kt = length (sanitize_text cf t kt)
    \<and> sanitize_text cf (sanitize_text cf t kt) kt = sanitize_text cf t kt"
proof -
  let ?f = "\<lambda>c. if sanitize_keeps cf kt c then c else escape_default c"
  have u: "list_all uchar (chars t)" using assms valid_chars by blast
  have pf: "utf8_valid (?f c) \<and> list_all (sanitize_keeps cf kt) (chars (?f c))" if "c \<in> set (chars t)" for c
    using u piece_facts [OF _ refl, of c cf kt] that unfolding list_all_iff by blast
  have "utf8_valid (sanitize_text cf t kt) \<and> list_all (sanitize_keeps cf kt) (chars (sanitize_text cf t kt))"
    unfolding sanitize_text_slow by (rule pieces_all) (rule pf)
  then have v: "utf8_valid (sanitize_text cf t kt)" and ok: "list_all (sanitize_keeps cf kt) (chars (sanitize_text cf t kt))"
    by blast+
  have len: "sanitize_text_len cf t kt = length (sanitize_text cf t kt)"
  proof (cases "is_plain_ascii t kt")
    case False
    have "map length (map ?f (chars t)) = map (\<lambda>c. if sanitize_keeps cf kt c then length c else length (escape_default c)) (chars t)"
      by simp
    then show ?thesis using False by (simp add: sanitize_text_len_def sanitize_text_def length_concat comp_def if_distrib)
  qed (simp add: sanitize_text_len_def sanitize_text_def)
  have "map ?f (chars (sanitize_text cf t kt)) = chars (sanitize_text cf t kt)"
    using ok by (auto simp: list_all_iff map_idI)
  then have "sanitize_text cf (sanitize_text cf t kt) kt = sanitize_text cf t kt"
    by (subst sanitize_text_slow) simp
  then show ?thesis using ok len v by blast
qed

lemma sanitized_text_inert_witness:
  "sanitize_name (\<lambda>n. n = 0x202E) [CHR ''a'', CHR 0x0A, CHR 0xE2, CHR 0x80, CHR 0xAE, CHR ''b''] =
     CHR ''a'' # CHR 0x5C # ''n'' @ CHR 0x5C # ''u'' @ CHR 0x7B # ''202e'' @ CHR 0x7D # ''b''
   \<and> list_all (sanitize_keeps (\<lambda>n. n = 0x202E) False)
       (chars (sanitize_name (\<lambda>n. n = 0x202E) [CHR ''a'', CHR 0x0A, CHR 0xE2, CHR 0x80, CHR 0xAE, CHR ''b'']))"
proof -
  let ?t = "[CHR ''a'', CHR 0x0A, CHR 0xE2, CHR 0x80, CHR 0xAE, CHR ''b'']"
  have "utf8_valid ?t"
    by (simp add: utf8_valid.simps utf8_chunk_def cont_at_def is_cont_def second3_def)
  from sanitized_text_inert [OF this, of "\<lambda>n. n = 0x202E" False]
  have "list_all (sanitize_keeps (\<lambda>n. n = 0x202E) False) (chars (sanitize_name (\<lambda>n. n = 0x202E) ?t))"
    by (simp add: sanitize_name_def)
  moreover have "sanitize_name (\<lambda>n. n = 0x202E) ?t =
     CHR ''a'' # CHR 0x5C # ''n'' @ CHR 0x5C # ''u'' @ CHR 0x7B # ''202e'' @ CHR 0x7D # ''b''"
    by (simp add: sanitize_name_def sanitize_text_def is_plain_ascii_def chars.simps utf8_chunk_def cont_at_def
        is_cont_def second3_def sanitize_keeps_def codepoint_def escape_default_def is_control_def
        is_unsafe_unicode_def is_non_joiner_format_char_def hex.simps hex_digit_def, code_simp)
  ultimately show ?thesis by blast
qed

lemma transcript_slow:
  assumes "\<And>n. n \<le> 0x7F \<Longrightarrow> \<not> cf n"
  shows "sanitize_transcript cf s =
    concat (map (\<lambda>c. if is_non_joiner_format_char cf (codepoint c) then escape_default c else c) (chars s))"
proof (cases "list_all (\<lambda>b. byte b \<le> 0x7F \<and> (0x20 \<le> byte b \<or> byte b = 10 \<or> byte b = 9 \<or> byte b = 13)) s")
  case True
  then have a: "ascii s" by (auto simp: ascii_def list_all_iff)
  let ?f = "\<lambda>c. if is_non_joiner_format_char cf (codepoint c) then escape_default c else c"
  have "chars s = map (\<lambda>b. [b]) s" using chars_ascii [OF a, of "[]"] by simp
  then have "map ?f (chars s) = chars s"
    using a assms by (auto simp: ascii_def list_all_iff is_non_joiner_format_char_def map_idI)
  then show ?thesis using True by (simp add: sanitize_transcript_def)
qed (simp add: sanitize_transcript_def)

definition no_format :: "(nat \<Rightarrow> bool) \<Rightarrow> string \<Rightarrow> bool" where
  "no_format cf s = list_all (\<lambda>c. \<not> is_non_joiner_format_char cf (codepoint c)) (chars s)"

lemma transcript_fixed: "(\<And>n. n \<le> 0x7F \<Longrightarrow> \<not> cf n) \<Longrightarrow> no_format cf s \<Longrightarrow> sanitize_transcript cf s = s"
  by (subst transcript_slow) (auto simp: no_format_def list_all_iff map_idI)

lemma transcript_good:
  assumes v: "utf8_valid t" and cf: "\<And>n. n \<le> 0x7F \<Longrightarrow> \<not> cf n"
  shows "utf8_valid (sanitize_transcript cf t)
    \<and> no_format cf (sanitize_transcript cf t)
    \<and> sanitize_transcript cf (sanitize_transcript cf t) = sanitize_transcript cf t"
proof -
  let ?bad = "\<lambda>c. is_non_joiner_format_char cf (codepoint c)"
  let ?f = "\<lambda>c. if ?bad c then escape_default c else c"
  have slow: "sanitize_transcript cf s = concat (map ?f (chars s))" for s
    by (rule transcript_slow) (rule cf)
  have u: "list_all uchar (chars t)" using v valid_chars by blast
  have pf: "utf8_valid (?f c) \<and> list_all (\<lambda>c. \<not> ?bad c) (chars (?f c))" if "c \<in> set (chars t)" for c
  proof (cases "?bad c")
    case True
    have c: "uchar c" using u that by (simp add: list_all_iff)
    have "\<not> codepoint c \<le> 0x7F" using True cf by (auto simp: is_non_joiner_format_char_def)
    then have pr: "printable (escape_default c)" using escape_ascii [OF c] by (simp add: printable_def)
    then have "list_all (\<lambda>c. \<not> ?bad c) (chars (escape_default c))"
      using cf unfolding printable_facts(2) [OF pr]
      by (auto simp: printable_def list_all_iff is_non_joiner_format_char_def)
    then show ?thesis using True printable_facts(1) [OF pr] by simp
  next
    case False
    then show ?thesis using u that by (simp add: list_all_iff uchar_valid chars_uchar)
  qed
  have "utf8_valid (sanitize_transcript cf t) \<and> list_all (\<lambda>c. \<not> ?bad c) (chars (sanitize_transcript cf t))"
    unfolding slow by (rule pieces_all) (rule pf)
  then have vs: "utf8_valid (sanitize_transcript cf t)" and ok: "list_all (\<lambda>c. \<not> ?bad c) (chars (sanitize_transcript cf t))"
    by blast+
  have "map ?f (chars (sanitize_transcript cf t)) = chars (sanitize_transcript cf t)"
    using ok by (auto simp: list_all_iff map_idI)
  then have "sanitize_transcript cf (sanitize_transcript cf t) = sanitize_transcript cf t"
    by (subst slow) simp
  then show ?thesis using ok vs by (simp add: no_format_def)
qed

text \<open>
  The transcript escaper. With the documented fact that no ASCII character has the
  category Format, the recorded text of a valid string is valid, has no format character
  but the joiners, and is a fixed point of the escaper.
\<close>

lemma transcript_escaped:
  assumes v: "utf8_valid t" and cf: "\<And>n. n \<le> 0x7F \<Longrightarrow> \<not> cf n"
  shows "utf8_valid (sanitize_transcript cf t)
    \<and> no_format cf (sanitize_transcript cf t)
    \<and> sanitize_transcript cf (sanitize_transcript cf t) = sanitize_transcript cf t"
  by (rule transcript_good [OF v]) (rule cf)

lemma transcript_escaped_witness:
  "utf8_valid (sanitize_transcript (\<lambda>n. n = 0x202E) [CHR ''a'', CHR 0xE2, CHR 0x80, CHR 0xAE])
   \<and> sanitize_transcript (\<lambda>n. n = 0x202E) [CHR ''a'', CHR 0xE2, CHR 0x80, CHR 0xAE] \<noteq>
       [CHR ''a'', CHR 0xE2, CHR 0x80, CHR 0xAE]"
proof -
  let ?t = "[CHR ''a'', CHR 0xE2, CHR 0x80, CHR 0xAE]"
  have "utf8_valid ?t" by (simp add: utf8_valid.simps utf8_chunk_def cont_at_def is_cont_def second3_def)
  from transcript_escaped [OF this, of "\<lambda>n. n = 0x202E"]
  have "utf8_valid (sanitize_transcript (\<lambda>n. n = 0x202E) ?t)" by simp
  moreover have "sanitize_transcript (\<lambda>n. n = 0x202E) ?t \<noteq> ?t"
    by (simp add: sanitize_transcript_def chars.simps utf8_chunk_def cont_at_def is_cont_def second3_def
        codepoint_def escape_default_def is_non_joiner_format_char_def)
  ultimately show ?thesis by blast
qed

section \<open>What the byte budget guarantees\<close>

lemma floor_le: "floor_char_boundary bs i \<le> i" "floor_char_boundary bs i \<le> length bs"
  by (induction i) auto

lemma floor_boundary:
  "floor_char_boundary bs i = 0 \<or> floor_char_boundary bs i = length bs
   \<or> floor_char_boundary bs i < length bs \<and> \<not> is_cont (bs ! floor_char_boundary bs i)"
  by (induction i) auto

lemma uchar_tail_cont: "uchar c \<Longrightarrow> 0 < i \<Longrightarrow> i < length c \<Longrightarrow> is_cont (c ! i)"
proof -
  assume c: "uchar c" and i: "0 < i" "i < length c"
  from length_1to4 [OF c] obtain a b d e
    where "c = [a] \<or> c = [a, b] \<or> c = [a, b, d] \<or> c = [a, b, d, e]" by blast
  moreover have "i = 1 \<or> i = 2 \<or> i = 3" using length_1to4 [OF c] i by auto
  ultimately show ?thesis
    using c i
    by (elim disjE)
       (auto simp: uchar_def utf8_chunk_def Let_def cont_at_def is_cont_def second3_def second4_def split: if_splits)
qed

lemma valid_take_boundary:
  assumes "utf8_valid bs" "i \<le> length bs" "i = 0 \<or> i = length bs \<or> \<not> is_cont (bs ! i)"
  shows "utf8_valid (take i bs)"
proof -
  have "list_all uchar cs \<Longrightarrow> i \<le> length (concat cs) \<Longrightarrow>
      i = 0 \<or> i = length (concat cs) \<or> \<not> is_cont (concat cs ! i) \<Longrightarrow> utf8_valid (take i (concat cs))" for cs i
  proof (induction cs arbitrary: i)
    case (Cons c cs)
    show ?case
    proof (cases "i < length c")
      case True
      have "i = 0"
      proof (rule ccontr)
        assume "i \<noteq> 0"
        then have "is_cont (concat (c # cs) ! i)"
          using True Cons.prems(1) uchar_tail_cont [of c i] by (simp add: nth_append)
        with Cons.prems(3) True \<open>i \<noteq> 0\<close> show False by auto
      qed
      then show ?thesis by (simp add: utf8_valid.simps)
    next
      case False
      have "utf8_valid (take (i - length c) (concat cs))"
        using Cons.IH [of "i - length c"] Cons.prems False by (auto simp: nth_append)
      then show ?thesis using False Cons.prems(1) by (simp add: valid_appendI uchar_valid)
    qed
  qed (simp add: utf8_valid.simps)
  from this [of "chars bs" i] assms show ?thesis by (simp add: valid_chars)
qed

lemma lead_nearby: "utf8_valid bs \<Longrightarrow> i < length bs \<Longrightarrow> \<exists>j \<le> i. i \<le> j + 3 \<and> \<not> is_cont (bs ! j)"
proof -
  have "list_all uchar cs \<Longrightarrow> i < length (concat cs) \<Longrightarrow> \<exists>j \<le> i. i \<le> j + 3 \<and> \<not> is_cont (concat cs ! j)" for cs i
  proof (induction cs arbitrary: i)
    case (Cons c cs)
    have c: "uchar c" using Cons.prems(1) by simp
    show ?case
    proof (cases "i < length c")
      case True
      have "length c \<le> 4" "c \<noteq> []" "\<not> is_cont (c ! 0)"
        using length_1to4 [OF c] c
        by (auto simp: uchar_def utf8_chunk_def Let_def is_cont_def hd_conv_nth split: if_splits)
      then show ?thesis using True by (intro exI [of _ 0]) (auto simp: nth_append)
    next
      case False
      then have "i - length c < length (concat cs)" using Cons.prems(2) by simp
      with Cons.IH [of "i - length c"] Cons.prems(1)
      obtain j where "j \<le> i - length c" "i - length c \<le> j + 3" "\<not> is_cont (concat cs ! j)" by auto
      then show ?thesis using False by (intro exI [of _ "j + length c"]) (auto simp: nth_append)
    qed
  qed simp
  from this [of "chars bs" i] show "utf8_valid bs \<Longrightarrow> i < length bs \<Longrightarrow> ?thesis" by (simp add: valid_chars)
qed

lemma floor_ge: "j \<le> i \<Longrightarrow> i < length bs \<Longrightarrow> \<not> is_cont (bs ! j) \<Longrightarrow> j \<le> floor_char_boundary bs i"
proof (induction i)
  case (Suc i)
  then show ?case by (cases "j = Suc i") auto
qed simp

lemma truncate_split:
  assumes "utf8_valid c" "cap < length c"
  obtains p where "truncate_tool_output_at c cap = p @ TRUNCATION_SUFFIX" "c = p @ drop (length p) c" "utf8_valid p"
    "length p \<le> cap" "cap \<le> length p + 3"
proof -
  let ?n = "floor_char_boundary c cap"
  obtain j where j: "j \<le> cap" "cap \<le> j + 3" "\<not> is_cont (c ! j)" using lead_nearby [OF assms] by blast
  have n: "?n \<le> cap" "?n \<le> length c" "cap \<le> ?n + 3"
    using floor_le floor_ge [OF j(1) assms(2) j(3)] j(2) by (auto intro: le_trans)
  have "utf8_valid (take ?n c)" using valid_take_boundary [OF assms(1) n(2)] floor_boundary by blast
  then show ?thesis
    using assms(2) n by (intro that [of "take ?n c"]) (auto simp: truncate_tool_output_at_def)
qed

lemma suffix_length: "length TRUNCATION_SUFFIX = 15"
  by (simp add: TRUNCATION_SUFFIX_def)

lemma suffix_ascii: "ascii TRUNCATION_SUFFIX"
  by (simp add: TRUNCATION_SUFFIX_def ascii_def)

text \<open>
  Capping. Output within the budget is untouched; longer output becomes the marker after
  a prefix that ends at a character and loses at most three bytes to that; the result is
  valid and at most the 15 bytes of the marker over the budget.
\<close>

lemma truncate_tool_output_spec:
  assumes "utf8_valid c"
  shows "utf8_valid (truncate_tool_output c)
    \<and> length (truncate_tool_output c) \<le> MAX_TOOL_OUTPUT_BYTES + 15
    \<and> (if length c \<le> MAX_TOOL_OUTPUT_BYTES then truncate_tool_output c = c
       else \<exists>p q. c = p @ q \<and> truncate_tool_output c = p @ TRUNCATION_SUFFIX \<and> utf8_valid p
              \<and> length p \<le> MAX_TOOL_OUTPUT_BYTES \<and> MAX_TOOL_OUTPUT_BYTES \<le> length p + 3)"
proof (cases "length c \<le> MAX_TOOL_OUTPUT_BYTES")
  case True
  then show ?thesis using assms by (simp add: truncate_tool_output_def truncate_tool_output_at_def)
next
  case False
  then have "MAX_TOOL_OUTPUT_BYTES < length c" by simp
  from truncate_split [OF assms this]
  obtain p where p: "truncate_tool_output c = p @ TRUNCATION_SUFFIX" "c = p @ drop (length p) c" "utf8_valid p"
    "length p \<le> MAX_TOOL_OUTPUT_BYTES" "MAX_TOOL_OUTPUT_BYTES \<le> length p + 3"
    by (auto simp: truncate_tool_output_def)
  then show ?thesis
    using False valid_appendI [OF p(3) ascii_valid [OF suffix_ascii]] suffix_length by auto
qed

lemma truncate_tool_output_spec_witness:
  "length (truncate_tool_output (replicate (131072 + 1) (CHR ''x''))) \<le> MAX_TOOL_OUTPUT_BYTES + 15"
proof -
  have "utf8_valid (replicate (131072 + 1) (CHR ''x''))" by (rule ascii_valid) (simp add: ascii_def list_all_iff)
  from truncate_tool_output_spec [OF this] show ?thesis by blast
qed

text \<open>
  A reserved tail survives. A body finished with a marker stays within the budget, and
  the escaper and the cap applied when the result is recorded leave it as it is, so the tail
  is never cut off. The marker itself must fit and be free of format characters.
\<close>

lemma reserved_tail_survives:
  assumes b: "utf8_valid body" and m: "utf8_valid m" "no_format cf m" "length m + 16 \<le> MAX_TOOL_OUTPUT_BYTES"
    and cf: "\<And>n. n \<le> 0x7F \<Longrightarrow> \<not> cf n"
  shows "length (finish_tool_output_sanitized cf body (Some m)) \<le> MAX_TOOL_OUTPUT_BYTES
    \<and> truncate_tool_output (sanitize_transcript cf (finish_tool_output_sanitized cf body (Some m))) =
        finish_tool_output_sanitized cf body (Some m)
    \<and> (\<exists>p. finish_tool_output_sanitized cf body (Some m) = p @ CHR 0x0A # m)"
proof -
  let ?s = "sanitize_transcript cf body"
  let ?cap = "MAX_TOOL_OUTPUT_BYTES - (Suc (length m) + 15)"
  let ?b = "truncate_tool_output_at ?s ?cap"
  have s: "utf8_valid ?s" "no_format cf ?s" using transcript_good [OF b, of cf] cf by auto
  have nf: "no_format cf (a @ c)" if "utf8_valid a" "no_format cf a" "no_format cf c" for a c
    using that by (simp add: no_format_def valid_append)
  have asc: "no_format cf a" if "ascii a" for a
    using that cf chars_ascii [OF that, of "[]"]
    by (auto simp: no_format_def ascii_def list_all_iff is_non_joiner_format_char_def)
  have body: "utf8_valid ?b \<and> no_format cf ?b \<and> length ?b \<le> ?cap + 15"
  proof (cases "length ?s \<le> ?cap")
    case True
    then show ?thesis using s by (simp add: truncate_tool_output_at_def)
  next
    case False
    then have "?cap < length ?s" by simp
    from truncate_split [OF s(1) this]
    obtain p where p: "?b = p @ TRUNCATION_SUFFIX" "?s = p @ drop (length p) ?s" "utf8_valid p" "length p \<le> ?cap" by blast
    have "no_format cf p"
      using s(2) p(2) valid_append [OF p(3), of "drop (length p) ?s"] by (auto simp: no_format_def)
    then show ?thesis
      using p valid_appendI [OF p(3) ascii_valid [OF suffix_ascii]] nf [OF p(3) _ asc [OF suffix_ascii]] suffix_length
      by auto
  qed
  have out: "finish_tool_output_sanitized cf body (Some m) = ?b @ ([CHR 0x0A] @ m)"
    by (simp add: finish_tool_output_sanitized_def finish_tool_output_def Let_def suffix_length)
  have "no_format cf ([CHR 0x0A] @ m)" by (intro nf ascii_valid asc m(2)) (simp_all add: ascii_def)
  then have "no_format cf (finish_tool_output_sanitized cf body (Some m))" unfolding out using body nf by blast
  then have "sanitize_transcript cf (finish_tool_output_sanitized cf body (Some m)) =
      finish_tool_output_sanitized cf body (Some m)"
    by (rule transcript_fixed [rotated]) (rule cf)
  moreover have len: "length (finish_tool_output_sanitized cf body (Some m)) \<le> MAX_TOOL_OUTPUT_BYTES"
  proof -
    have "length ?b \<le> ?cap + 15" using body by blast
    then show ?thesis unfolding out using m(3) by (simp only: length_append list.size)
  qed
  ultimately show ?thesis
    using len out by (simp add: truncate_tool_output_def truncate_tool_output_at_def)
qed

lemma reserved_tail_survives_witness:
  "length (finish_tool_output_sanitized (\<lambda>_. False) (replicate 200000 (CHR ''x'')) (Some ''[exit 0]'')) \<le> MAX_TOOL_OUTPUT_BYTES"
proof -
  have "utf8_valid (replicate 200000 (CHR ''x''))" by (rule ascii_valid) (simp add: ascii_def list_all_iff)
  moreover have "utf8_valid ''[exit 0]''" by (rule ascii_valid) (simp add: ascii_def)
  moreover have "no_format (\<lambda>_. False) ''[exit 0]''" by (simp add: no_format_def is_non_joiner_format_char_def list_all_iff)
  moreover have "length ''[exit 0]'' + 16 \<le> MAX_TOOL_OUTPUT_BYTES" by (simp add: MAX_TOOL_OUTPUT_BYTES_def)
  ultimately show ?thesis using reserved_tail_survives [of _ _ "\<lambda>_. False"] by blast
qed

text \<open>The recorded body is what the client saw, whether or not sends fail.\<close>

lemma push_all_recorded:
  "concat (sc_sent s) = sc_out s \<Longrightarrow> concat (sc_sent (fst (push_all up cs s))) = sc_out (fst (push_all up cs s))"
proof (induction cs arbitrary: s)
  case (Cons c cs)
  have "concat (sc_sent (fst (push up c s))) = sc_out (fst (push up c s))"
    using Cons.prems
    by (auto simp: push_def push_marker_def forward_def record_bytes_def Let_def split: prod.splits option.splits)
  with Cons.IH show ?case by (auto split: prod.splits)
qed simp

definition stream_inv :: "nat \<Rightarrow> string \<Rightarrow> stream_cap \<Rightarrow> bool" where
  "stream_inv limit seen s \<longleftrightarrow>
     sc_budget s = \<lparr>bb_limit = limit, bb_used = min limit (length seen), bb_truncated = (limit < length seen),
       bb_marker_sent = (limit < length seen)\<rparr>
   \<and> sc_out s = take limit seen @ (if limit < length seen then TRUNCATION_SUFFIX else [])"

lemma push_inv:
  assumes "stream_inv limit seen s" "c \<noteq> []"
  shows "stream_inv limit (seen @ c) (fst (push (\<lambda>_. True) c s)) \<and> snd (push (\<lambda>_. True) c s)"
proof -
  have c: "0 < length c" using assms(2) by simp
  consider "limit < length seen" | "limit = length seen" | "length seen < limit" "limit < length seen + length c"
    | "length seen + length c \<le> limit" by linarith
  then show ?thesis
    using assms(1) c
    by cases
       (auto simp: stream_inv_def push_def fit_def push_marker_def take_marker_def forward_def record_bytes_def Let_def min_def)
qed

text \<open>
  Streaming. While the client keeps up, it sees exactly the first bytes of the output up
  to the limit, followed by one truncation marker if and only if something was dropped; and
  the recorded body is what was sent, even when a send fails.
\<close>

lemma streamed_output_exact:
  assumes "list_all (\<lambda>c. c \<noteq> []) cs"
  shows "sc_out (fst (push_all (\<lambda>_. True) cs (stream_cap_new limit))) =
      take limit (concat cs) @ (if limit < length (concat cs) then TRUNCATION_SUFFIX else [])
    \<and> (\<forall>up. concat (sc_sent (fst (push_all up cs (stream_cap_new limit)))) =
         sc_out (fst (push_all up cs (stream_cap_new limit))))"
proof -
  have "stream_inv limit seen s \<Longrightarrow> list_all (\<lambda>c. c \<noteq> []) cs \<Longrightarrow>
      stream_inv limit (seen @ concat cs) (fst (push_all (\<lambda>_. True) cs s))" for seen s cs
  proof (induction cs arbitrary: seen s)
    case (Cons c cs)
    then show ?case using push_inv [OF Cons.prems(1), of c] Cons.IH [of "seen @ c"] by (auto split: prod.splits)
  qed simp
  from this [of "[]" "stream_cap_new limit" cs] assms
  have "stream_inv limit (concat cs) (fst (push_all (\<lambda>_. True) cs (stream_cap_new limit)))"
    by (simp add: stream_inv_def stream_cap_new_def budget_new_def)
  moreover have "concat (sc_sent (stream_cap_new limit)) = sc_out (stream_cap_new limit)"
    by (simp add: stream_cap_new_def)
  ultimately show ?thesis using push_all_recorded by (simp add: stream_inv_def)
qed

lemma streamed_output_exact_witness:
  "sc_out (fst (push_all (\<lambda>_. True) [''abc'', ''def'', ''g''] (stream_cap_new 4))) = ''abcd'' @ TRUNCATION_SUFFIX"
  using streamed_output_exact [of "[''abc'', ''def'', ''g'']" 4] by simp

end
