(* ===== verification/Tool_Execution.thy ===== *)
theory Tool_Execution
  imports Session_Safety Passback Sanitize
begin

text \<open>
  What a request worker does with one tool call and with one model answer:
  \<^verbatim>\<open>requests/tool_execution.rs\<close>, \<^verbatim>\<open>requests/system_content.rs\<close> and the helpers of
  \<^verbatim>\<open>requests.rs\<close>. The worker owns a copy of the session, the database handle, and a channel
  to the session thread; the outbox records what it sends there and for how many more
  sends the thread still listens.

  Parameters stand for what other code answers: the tool implementations, the provider
  catalog, the tokenizer, the JSON parser, and the file system. The file system may answer
  differently each time, so its view is indexed by the number of looks taken.

  Shown: bounds of the tool deadline, that a delivered result is never lost to a stop signal
  of the same instant, that the sort of the result accumulator is stable, and that the
  forwarder sends chunks in order.
\<close>

section \<open>Types\<close>

record caller_info =
  ci_kind :: string
  ci_caller_id :: string

record chat_tool_call =
  ct_id :: string
  ct_name :: string
  ct_arguments_json :: string
  ct_caller :: "caller_info option"

record tool_result_item =
  tri_call_id :: string
  tri_output :: string
  tri_caller :: "caller_info option"

record prepared_image =
  pi_mime_type :: string
  pi_data :: "u8 list"
  pi_width :: u32
  pi_height :: u32
  pi_alt :: "string option"

text \<open>\<^verbatim>\<open>ToolOutput\<close>; of its \<^verbatim>\<open>result_json\<close> only the string member \<^verbatim>\<open>path\<close> is ever read.\<close>

record exec_output =
  eo_out :: tool_output
  eo_path :: "string option"

record tool_definition =
  td_name :: string
  td_description :: string
  td_schema :: string

record tool_entry =
  te_group :: string
  te_definition :: tool_definition
  te_describe :: "string \<Rightarrow> string"

record context_bundle =
  cb_files :: "(string \<times> string) list"
  cb_fingerprint :: u64

record fs_view =
  fs_skills :: "string \<Rightarrow> skill_meta list"
  fs_context :: "string \<Rightarrow> context_config \<Rightarrow> context_bundle option"
  fs_user_prompt :: "string option"
  fs_skill_body :: "string \<Rightarrow> string \<Rightarrow> string option"
  fs_hints :: "string \<Rightarrow> string \<Rightarrow> string option \<Rightarrow> string list \<Rightarrow> (string \<times> string list) option"
  fs_resolve_dir :: "string \<Rightarrow> string option \<Rightarrow> string option"

record agent_ctx =
  ac_session_id :: u64
  ac_request_id :: u32
  ac_model :: string
  ac_slug :: string
  ac_max_turns :: u32
  ac_caps :: provider_caps
  ac_capability :: "string \<Rightarrow> string \<Rightarrow> reasoning_capability"
  ac_programmatic :: bool
  ac_registry :: "(string, tool_entry) hmap"
  ac_groups :: "(string \<times> string) list"
  ac_encoding :: "(string \<Rightarrow> nat) option"
  ac_serialize :: "tool_definition \<Rightarrow> string option"
  ac_json_str :: "string \<Rightarrow> string \<Rightarrow> string option"
  ac_json_load :: "string \<Rightarrow> string list option"
  ac_json_unload :: "string \<Rightarrow> string list option"
  ac_json_dir :: "string \<Rightarrow> string option"
  ac_json_timeout :: "string \<Rightarrow> u64 option"
  ac_format_char :: "nat \<Rightarrow> bool"
  ac_list_fmt :: "string list \<Rightarrow> string"
  ac_default_prompt :: string
  ac_storage_error :: string
  ac_fs :: "nat \<Rightarrow> fs_view"

section \<open>The outbox\<close>

record outbox =
  ob_sent :: "session_command list"
  ob_left :: "nat option"

definition ob_send :: "session_command \<Rightarrow> outbox \<Rightarrow> outbox \<times> bool" where
  "ob_send cmd ob =
     (case ob_left ob of
        None \<Rightarrow> (ob\<lparr>ob_sent := ob_sent ob @ [cmd]\<rparr>, True)
      | Some 0 \<Rightarrow> (ob, False)
      | Some (Suc n) \<Rightarrow> (ob\<lparr>ob_sent := ob_sent ob @ [cmd], ob_left := Some n\<rparr>, True))"

record chat_turn_request =
  cr_model :: string
  cr_messages :: "chat_request_message list"
  cr_tools :: "tool_definition list"
  cr_thinking_effort :: string
  cr_previous_response_id :: "string option"
  cr_tool_results :: "tool_result_item list"
  cr_programmatic :: bool
  cr_session_id :: string
  cr_request_id :: string

record agent =
  ag_session :: session_state
  ag_db :: db
  ag_out :: outbox
  ag_results :: "tool_result_item list"
  ag_known_hints :: "string list"
  ag_pending_hints :: "string list"
  ag_prev :: "string option"
  ag_requests :: "chat_turn_request list"
  ag_looks :: nat

abbreviation upd_session :: "(session_state \<Rightarrow> session_state) \<Rightarrow> agent \<Rightarrow> agent" where
  "upd_session f a \<equiv> a\<lparr>ag_session := f (ag_session a)\<rparr>"

definition send_cmd :: "session_command \<Rightarrow> agent \<Rightarrow> agent \<times> bool" where
  "send_cmd cmd a = (case ob_send cmd (ag_out a) of (ob, ok) \<Rightarrow> (a\<lparr>ag_out := ob\<rparr>, ok))"

definition post :: "agent_ctx \<Rightarrow> session_event \<Rightarrow> agent \<Rightarrow> agent" where
  "post c ev a = fst (send_cmd (BroadcastMsg (Session (Some (ac_session_id c)) ev)) a)"

definition look :: "agent_ctx \<Rightarrow> agent \<Rightarrow> fs_view \<times> agent" where
  "look c a = (ac_fs c (ag_looks a), a\<lparr>ag_looks := ag_looks a + 1\<rparr>)"

section \<open>Turns on the wire\<close>

definition broadcast_turn_appended :: "agent_ctx \<Rightarrow> u32 \<Rightarrow> agent \<Rightarrow> agent" where
  "broadcast_turn_appended c turn_id a =
     (case map_of (turns (ag_session a)) turn_id of
        None \<Rightarrow> a
      | Some t \<Rightarrow> post c (TurnAppended turn_id (turn_for_client t)) a)"

definition emit_image :: "agent_ctx \<Rightarrow> prepared_image \<Rightarrow> string option \<Rightarrow> u32 \<Rightarrow> agent \<Rightarrow> agent" where
  "emit_image c img call_id turn_id a =
     (let record = \<lparr>di_metadata =
            \<lparr>im_mime_type = pi_mime_type img, im_width = pi_width img, im_height = pi_height img,
             im_byte_len = of_nat (length (pi_data img)), im_alt = pi_alt img\<rparr>,
            di_data = pi_data img, di_tool_call_id = call_id\<rparr>
      in broadcast_turn_appended c turn_id (upd_session (add_displayed_image turn_id record) a))"

definition finalize_and_broadcast_turn :: "agent_ctx \<Rightarrow> u32 \<Rightarrow> agent \<Rightarrow> agent \<times> bool" where
  "finalize_and_broadcast_turn c turn_id a =
     (case finalize_turn (ac_session_id c) turn_id (ag_session a) (ag_db a) of
        (d, ok) \<Rightarrow>
          let a1 = a\<lparr>ag_db := d\<rparr>
          in if ok then (broadcast_turn_appended c turn_id a1, True) else (a1, False))"

definition accumulate_token_usage :: "token_usage option \<Rightarrow> agent \<Rightarrow> agent" where
  "accumulate_token_usage usage a =
     (case usage of
        None \<Rightarrow> a
      | Some u \<Rightarrow> upd_session (upd_config (\<lambda>cfg. cfg
          \<lparr>cfg_accumulated_usage := add_usage (cfg_accumulated_usage cfg) u,
           cfg_last_prompt_tokens := Some (input_tokens u)\<rparr>)) a)"

definition broadcast_token_usage :: "agent \<Rightarrow> agent" where
  "broadcast_token_usage a =
     fst (send_cmd (SyncAccumulatedUsage (cfg_accumulated_usage (config (ag_session a)))
                      (cfg_last_prompt_tokens (config (ag_session a)))) a)"

section \<open>Streaming\<close>

text \<open>
  The forwarding thread. A chunk arrives together with what the thread then finds: whether a
  kill is pending, and if so the chunks queued at that instant.
\<close>

datatype forward_event =
    FE_Chunk "u8 list" bool "u8 list list"
  | FE_Closed
  | FE_Kill

definition chunk_cmd :: "agent_ctx \<Rightarrow> string \<Rightarrow> u8 list \<Rightarrow> session_command" where
  "chunk_cmd c call_id data =
     BroadcastMsg (Session (Some (ac_session_id c)) (ToolResultChunk (ac_request_id c) call_id data))"

fun drain_chunks :: "agent_ctx \<Rightarrow> string \<Rightarrow> u8 list list \<Rightarrow> outbox \<Rightarrow> outbox" where
  "drain_chunks c call_id [] ob = ob"
| "drain_chunks c call_id (d # ds) ob =
     (case ob_send (chunk_cmd c call_id d) ob of
        (ob', ok) \<Rightarrow> if ok then drain_chunks c call_id ds ob' else ob')"

fun forwarding_thread :: "agent_ctx \<Rightarrow> string \<Rightarrow> forward_event list \<Rightarrow> outbox \<Rightarrow> outbox" where
  "forwarding_thread c call_id [] ob = ob"
| "forwarding_thread c call_id (FE_Chunk d killed queued # evs) ob =
     (case ob_send (chunk_cmd c call_id d) ob of
        (ob', ok) \<Rightarrow>
          if \<not> ok then ob'
          else if killed then drain_chunks c call_id queued ob'
          else forwarding_thread c call_id evs ob')"
| "forwarding_thread c call_id (FE_Closed # evs) ob = ob"
| "forwarding_thread c call_id (FE_Kill # evs) ob = ob"

section \<open>Waiting for a tool\<close>

text \<open>Durations are in milliseconds.\<close>

definition TOOL_TIMEOUT_GRACE :: nat where
  "TOOL_TIMEOUT_GRACE = 5000"

definition is_shell_tool :: "string \<Rightarrow> bool" where
  "is_shell_tool name \<longleftrightarrow> name \<in> {''sh'', ''nushell'', ''fish'', ''exec''}"

definition determine_tool_timeout :: "agent_ctx \<Rightarrow> string \<Rightarrow> string \<Rightarrow> nat option" where
  "determine_tool_timeout c name args =
     (if name = ''spawn_subsession'' then None
      else
        let base = (if is_shell_tool name then 300000 else 60000);
            requested =
              (if is_shell_tool name
               then (case ac_json_timeout c args of
                       Some ms \<Rightarrow> if 0 < ms then Some (unat ms) else None
                     | None \<Rightarrow> None)
               else None)
        in Some (case requested of
                   None \<Rightarrow> base
                 | Some r \<Rightarrow> max (r + TOOL_TIMEOUT_GRACE) base))"

text \<open>
  The execution thread's result channel: a received message is the tool's result or its
  error, \<open>None\<close> a disconnected channel.
\<close>

type_synonym exec_msg = "string + exec_output"

datatype try_recv = Queued exec_msg | Empty | Disconnected

definition error_output :: "string \<Rightarrow> string \<Rightarrow> exec_output" where
  "error_output content desc =
     \<lparr>eo_out = \<lparr>out_content = content, out_is_error = True, out_invocation_description = desc,
        out_image_ref = None\<rparr>, eo_path = None\<rparr>"

definition tool_result_from_channel :: "string \<Rightarrow> bool \<Rightarrow> exec_msg option \<Rightarrow> exec_output \<times> bool" where
  "tool_result_from_channel desc cancelled msg =
     (case msg of
        Some (Inr out) \<Rightarrow> (out, cancelled)
      | Some (Inl e) \<Rightarrow> (error_output e desc, cancelled)
      | None \<Rightarrow> (error_output ''tool execution thread panicked'' desc, cancelled))"

definition drain_queued_or_synthesize :: "string \<Rightarrow> try_recv \<Rightarrow> string \<Rightarrow> bool \<Rightarrow> exec_output \<times> bool" where
  "drain_queued_or_synthesize desc q stop_message sticky =
     (case q of
        Queued msg \<Rightarrow> tool_result_from_channel desc sticky (Some msg)
      | Empty \<Rightarrow> (error_output stop_message desc, sticky)
      | Disconnected \<Rightarrow> (error_output ''tool execution thread panicked'' desc, sticky))"

definition cancelled_message :: "string \<Rightarrow> string" where
  "cancelled_message name = ''tool '' @ [CHR 0x27] @ name @ [CHR 0x27] @ '' cancelled''"

definition timeout_message :: "string \<Rightarrow> nat \<Rightarrow> string" where
  "timeout_message name ms =
     ''tool '' @ [CHR 0x27] @ name @ [CHR 0x27] @ '' timed out after '' @ decimal (ms div 1000) @ ''s''"

datatype serial_wait = SW_Cancel try_recv | SW_Result "exec_msg option" | SW_Deadline try_recv

definition execute_tool_with_timeout ::
  "chat_tool_call \<Rightarrow> nat \<Rightarrow> string \<Rightarrow> serial_wait \<Rightarrow> prepared_image option
   \<Rightarrow> exec_output \<times> bool \<times> prepared_image option" where
  "execute_tool_with_timeout call timeout desc w img =
     (case (case w of
              SW_Cancel q \<Rightarrow> drain_queued_or_synthesize desc q (cancelled_message (ct_name call)) True
            | SW_Result msg \<Rightarrow> tool_result_from_channel desc False msg
            | SW_Deadline q \<Rightarrow> drain_queued_or_synthesize desc q (timeout_message (ct_name call) timeout) False)
      of (out, cancelled) \<Rightarrow> (out, cancelled, img))"

record tool_handle =
  th_call :: chat_tool_call
  th_output :: exec_output
  th_image :: "prepared_image option"

datatype conc_wait = CW_Result "exec_msg option" | CW_Kill | CW_Deadline try_recv

text \<open>The wait-loop thread of one concurrent call, from what wakes it to the handle it delivers.\<close>

definition spawn_single_tool ::
  "chat_tool_call \<Rightarrow> nat option \<Rightarrow> string \<Rightarrow> conc_wait \<Rightarrow> prepared_image option \<Rightarrow> tool_handle" where
  "spawn_single_tool call timeout desc w img =
     \<lparr>th_call = call,
      th_output =
        (case w of
           CW_Result msg \<Rightarrow> fst (tool_result_from_channel desc False msg)
         | CW_Deadline q \<Rightarrow>
             fst (drain_queued_or_synthesize desc q
                    (timeout_message (ct_name call) (case timeout of Some ms \<Rightarrow> ms | None \<Rightarrow> 0)) False)
         | CW_Kill \<Rightarrow> error_output (cancelled_message (ct_name call)) desc),
      th_image = img\<rparr>"

record call_info =
  cl_call_id :: string
  cl_tool_name :: string
  cl_arguments_json :: string
  cl_invocation_description :: string

definition missing_calls :: "call_info list \<Rightarrow> hset \<Rightarrow> call_info list" where
  "missing_calls infos delivered = filter (\<lambda>i. cl_call_id i \<notin> set delivered) infos"

definition panic_tool_handle :: "call_info \<Rightarrow> tool_handle" where
  "panic_tool_handle i =
     \<lparr>th_call = \<lparr>ct_id = cl_call_id i, ct_name = cl_tool_name i,
        ct_arguments_json = cl_arguments_json i, ct_caller = None\<rparr>,
      th_output = error_output ''tool thread panicked'' (cl_invocation_description i),
      th_image = None\<rparr>"

section \<open>Recording a result\<close>

definition finish_tool_call :: "agent_ctx \<Rightarrow> chat_tool_call \<Rightarrow> tool_output \<Rightarrow> u32 \<Rightarrow> agent \<Rightarrow> agent" where
  "finish_tool_call c call out turn_id a =
     (let a1 = upd_session (update_tool_result turn_id (ct_id call) (ct_name call) out) a;
          a2 = broadcast_turn_appended c turn_id a1
      in if out_is_error out
         then post c (ToolCallFailed (ac_request_id c) (ct_id call) (ct_name call) (out_content out)) a2
         else post c (ToolCallFinished (ac_request_id c) (ct_id call) (ct_name call)) a2)"

definition persist_loaded_skill :: "agent_ctx \<Rightarrow> string \<Rightarrow> string \<Rightarrow> agent \<Rightarrow> agent" where
  "persist_loaded_skill c tool_name args a =
     (if tool_name \<noteq> ''load_skill'' then a
      else case ac_json_str c args ''name'' of
        None \<Rightarrow> a
      | Some nm \<Rightarrow>
          if list_ex (\<lambda>ls. ls_name ls = nm) (loaded_skill_bodies (ag_session a)) then a
          else case cfg_working_dir (config (ag_session a)) of
            None \<Rightarrow> a
          | Some wd \<Rightarrow>
              (case look c a of
                 (fs, a1) \<Rightarrow>
                   case fs_skill_body fs nm wd of
                     None \<Rightarrow> a1
                   | Some body \<Rightarrow>
                       upd_session (\<lambda>s. s\<lparr>loaded_skill_bodies :=
                         loaded_skill_bodies s @ [\<lparr>ls_name = nm, ls_body = body\<rparr>]\<rparr>) a1))"

definition check_subdirectory_hints :: "agent_ctx \<Rightarrow> string \<Rightarrow> string \<Rightarrow> agent \<Rightarrow> agent" where
  "check_subdirectory_hints c tool_name args a =
     (case look c a of
        (fs, a1) \<Rightarrow>
          case fs_hints fs tool_name args (cfg_working_dir (config (ag_session a))) (ag_known_hints a) of
            None \<Rightarrow> a1
          | Some (hint, new_paths) \<Rightarrow>
              a1\<lparr>ag_known_hints := ag_known_hints a1 @ new_paths,
                 ag_pending_hints := ag_pending_hints a1 @ [hint]\<rparr>)"

definition collect_tool_result :: "agent_ctx \<Rightarrow> chat_tool_call \<Rightarrow> tool_output \<Rightarrow> agent \<Rightarrow> agent" where
  "collect_tool_result c call out a =
     (let item = \<lparr>tri_call_id = ct_id call, tri_output = out_content out, tri_caller = ct_caller call\<rparr>;
          a1 = a\<lparr>ag_results := ag_results a @ [item]\<rparr>;
          a2 = persist_loaded_skill c (ct_name call) (ct_arguments_json call) a1
      in check_subdirectory_hints c (ct_name call) (ct_arguments_json call) a2)"

definition transcript_output :: "agent_ctx \<Rightarrow> tool_output \<Rightarrow> tool_output" where
  "transcript_output c out =
     out\<lparr>out_content := truncate_tool_output (sanitize_transcript (ac_format_char c) (out_content out))\<rparr>"

definition record_tool_completion ::
  "agent_ctx \<Rightarrow> chat_tool_call \<Rightarrow> exec_output \<Rightarrow> prepared_image option \<Rightarrow> u32 \<Rightarrow> agent \<Rightarrow> agent" where
  "record_tool_completion c call output img turn_id a =
     (let out = transcript_output c (eo_out output);
          a1 = (case img of None \<Rightarrow> a | Some i \<Rightarrow> emit_image c i (Some (ct_id call)) turn_id a);
          a2 = finish_tool_call c call out turn_id a1
      in collect_tool_result c call out a2)"

section \<open>The system prompt\<close>

definition nl :: string where
  "nl = [CHR 0x0A]"

definition quoted :: "string \<Rightarrow> string" where
  "quoted x = [CHR 0x22] @ x @ [CHR 0x22]"

definition assemble_context :: "context_bundle \<Rightarrow> string" where
  "assemble_context b =
     concat (map (\<lambda>(path, content).
       ''<agent_instructions path='' @ quoted (path_display path) @ ''>'' @ nl @ content @ nl
         @ ''</agent_instructions>'' @ nl) (cb_files b))"

definition tick :: "string \<Rightarrow> string" where
  "tick x = [CHR 0x60] @ x @ [CHR 0x60]"

definition bullet :: "string \<Rightarrow> string \<Rightarrow> string" where
  "bullet nm desc = ''- **'' @ nm @ ''**: '' @ desc @ nl"

definition build_base_prompt ::
  "string \<Rightarrow> string option \<Rightarrow> skill_meta list \<Rightarrow> (string \<times> string) list \<Rightarrow> loaded_skill list \<Rightarrow> string" where
  "build_base_prompt default_prompt user_prompt skills groups loaded =
     (case user_prompt of Some p \<Rightarrow> p | None \<Rightarrow> default_prompt)
     @ nl @ nl @ ''## Tool groups'' @ nl
     @ ''Tools are organized into groups. Only **core**, **git**, and **shell** are active by default. Use the ''
     @ tick ''load_tools'' @ '' tool to activate additional groups and '' @ tick ''unload_tools''
     @ '' to deactivate them.'' @ nl @ nl
     @ concat (map (\<lambda>(nm, desc). bullet nm desc) groups)
     @ (if skills = [] then []
        else nl @ ''## Available skills'' @ nl @ ''Use the '' @ tick ''load_skill''
          @ '' tool to load a skill'' @ [CHR 0x27] @ ''s full instructions when a task matches its description:''
          @ nl @ nl @ concat (map (\<lambda>k. bullet (sk_name k) (sk_description k)) skills))
     @ (if loaded = [] then []
        else nl @ ''## Loaded skills'' @ nl @ ''The following skills have been loaded and are active:'' @ nl @ nl
          @ concat (map (\<lambda>l. ''<skill name='' @ quoted (ls_name l) @ ''>'' @ nl @ ls_body l @ nl
              @ ''</skill>'' @ nl @ nl) loaded))"

definition cached_context ::
  "context_bundle \<Rightarrow> (u64 \<times> string) option \<Rightarrow> string \<times> (u64 \<times> string) option" where
  "cached_context b cache =
     (case cache of
        Some (fp, cached) \<Rightarrow>
          if fp = cb_fingerprint b then (cached, cache)
          else (assemble_context b, Some (cb_fingerprint b, assemble_context b))
      | None \<Rightarrow> (assemble_context b, Some (cb_fingerprint b, assemble_context b)))"

definition build_system_content :: "agent_ctx \<Rightarrow> agent \<Rightarrow> agent \<times> string option" where
  "build_system_content c a =
     (let s = ag_session a
      in case cfg_working_dir (config s) of
        None \<Rightarrow> (a, None)
      | Some wd \<Rightarrow>
          (case look c a of
             (fs, a1) \<Rightarrow>
               let base = build_base_prompt (ac_default_prompt c) (fs_user_prompt fs)
                     (case discovered_skills s of Some ks \<Rightarrow> ks | None \<Rightarrow> []) (ac_groups c)
                     (loaded_skill_bodies s);
                   (ctx_part, cache) =
                     (case fs_context fs wd (cfg_context_config (config s)) of
                        None \<Rightarrow> ([], context_cache s)
                      | Some b \<Rightarrow>
                          (case cached_context b (context_cache s) of
                             (txt, cache') \<Rightarrow> (if txt = [] then [] else nl @ nl @ txt, cache')));
                   title =
                     (case cfg_title (config s) of
                        None \<Rightarrow> []
                      | Some t \<Rightarrow> if t = [] then [] else nl @ nl @ ''## Current Session Title'' @ nl @ t);
                   hints =
                     (if ag_pending_hints a = [] then []
                      else nl @ nl @ ''## New context from project subdirectories'' @ nl
                        @ concat (map (\<lambda>h. nl @ h) (ag_pending_hints a)))
               in (upd_session (\<lambda>s. s\<lparr>context_cache := cache\<rparr>) a1, Some (base @ ctx_part @ title @ hints))))"

section \<open>Parameters of a request\<close>

definition resolve_reasoning_effort :: "agent_ctx \<Rightarrow> string \<Rightarrow> string" where
  "resolve_reasoning_effort c configured =
     (if configured = ''off'' then configured
      else
        let levels = available_effort_levels (ac_capability c (ac_slug c) (ac_model c))
        in if levels = [] then ''off''
           else if configured \<notin> set levels then ''off''
           else configured)"

definition available_definitions :: "agent_ctx \<Rightarrow> hset \<Rightarrow> tool_definition list" where
  "available_definitions c active =
     map (te_definition \<circ> snd) (filter (\<lambda>(_, t). te_group t \<in> set active) (ac_registry c))"

definition describe_invocation :: "agent_ctx \<Rightarrow> chat_tool_call \<Rightarrow> string" where
  "describe_invocation c call =
     (case map_of (ac_registry c) (ct_name call) of
        Some t \<Rightarrow> te_describe t (ct_arguments_json call)
      | None \<Rightarrow> ct_name call)"

definition IMAGE_TOKEN_ESTIMATE :: u32 where
  "IMAGE_TOKEN_ESTIMATE = 1000"

definition saturating_mul :: "u32 \<Rightarrow> u32 \<Rightarrow> u32" where
  "saturating_mul x y = (if unat x * unat y < 2 ^ 32 then x * y else - 1)"

definition estimate_prompt_tokens ::
  "agent_ctx \<Rightarrow> chat_request_message list \<Rightarrow> tool_definition list \<Rightarrow> u32" where
  "estimate_prompt_tokens c messages tools =
     (case ac_encoding c of
        None \<Rightarrow> 0
      | Some cnt \<Rightarrow>
          let tok = (\<lambda>x. of_nat (cnt x) :: u32);
              content_tokens = sum_list (map tok (List.map_filter cm_content messages));
              image_tokens = sum_list (map (\<lambda>m. saturating_mul (of_nat (length (cm_images m))) IMAGE_TOKEN_ESTIMATE) messages);
              tool_call_tokens = sum_list (map (\<lambda>tc. tok (atc_id tc) + tok (atc_kind tc) + tok (atc_name tc) + tok (atc_arguments tc))
                (concat (List.map_filter cm_tool_calls messages)));
              tool_def_tokens = sum_list (map tok (List.map_filter (ac_serialize c) tools));
              artifact_tokens = sum_list (map (reasoning_artifact_tokens cnt) (List.map_filter cm_reasoning_artifact messages))
          in content_tokens + tool_call_tokens + tool_def_tokens + artifact_tokens + image_tokens)"

section \<open>Ordering and configuration changes\<close>

text \<open>The call order: a repeated id keeps its last position, an unknown one sinks to the end.\<close>

definition call_order :: "assistant_tool_call_record list \<Rightarrow> (string \<times> nat) list" where
  "call_order calls = rev (zip (map tc_call_id calls) [0..<length calls])"

definition order_key :: "assistant_tool_call_record list \<Rightarrow> string \<Rightarrow> nat" where
  "order_key calls i = (case map_of (call_order calls) i of Some n \<Rightarrow> n | None \<Rightarrow> 2 ^ 64 - 1)"

definition sort_by_call_order ::
  "assistant_tool_call_record list \<Rightarrow> ('a \<Rightarrow> string) \<Rightarrow> 'a list \<Rightarrow> 'a list" where
  "sort_by_call_order calls call_id_of items =
     (if calls = [] then items else sort_key (\<lambda>x. order_key calls (call_id_of x)) items)"

datatype pending_config_change =
    PendingLoad "string list"
  | PendingUnload "string list"
  | PendingDir "string option"

definition is_session_config_tool :: "string \<Rightarrow> bool" where
  "is_session_config_tool name \<longleftrightarrow> name \<in> {''load_tools'', ''unload_tools'', ''set_working_dir''}"

definition concurrent_tool_status_label :: "chat_tool_call list \<Rightarrow> string" where
  "concurrent_tool_status_label tools = (case tools of [t] \<Rightarrow> ct_name t | _ \<Rightarrow> ''(parallel)'')"

definition pending_config_change_of ::
  "agent_ctx \<Rightarrow> fs_view \<Rightarrow> chat_tool_call \<Rightarrow> exec_output \<Rightarrow> string option \<Rightarrow> pending_config_change option" where
  "pending_config_change_of c fs call output base_dir =
     (let args = ct_arguments_json call
      in if ct_name call = ''load_tools'' then map_option PendingLoad (ac_json_load c args)
         else if ct_name call = ''unload_tools'' then map_option PendingUnload (ac_json_unload c args)
         else if ct_name call = ''set_working_dir'' then
           (case eo_path output of
              Some path \<Rightarrow> Some (PendingDir (Some path))
            | None \<Rightarrow>
                (case ac_json_dir c args of
                   None \<Rightarrow> Some (PendingDir None)
                 | Some p \<Rightarrow> Some (PendingDir (fs_resolve_dir fs p base_dir))))
         else None)"

fun apply_pending_config_change :: "agent_ctx \<Rightarrow> pending_config_change \<Rightarrow> session_state \<Rightarrow> session_state" where
  "apply_pending_config_change c (PendingLoad gs) s =
     upd_config (\<lambda>cfg. cfg\<lparr>cfg_active_tool_groups := fst (apply_load_tools (ac_list_fmt c) (cfg_active_tool_groups cfg) gs)\<rparr>) s"
| "apply_pending_config_change c (PendingUnload gs) s =
     upd_config (\<lambda>cfg. cfg\<lparr>cfg_active_tool_groups := fst (apply_unload_tools (ac_list_fmt c) (cfg_active_tool_groups cfg) gs)\<rparr>) s"
| "apply_pending_config_change c (PendingDir path) s =
     (case path of None \<Rightarrow> s | Some p \<Rightarrow> upd_config (\<lambda>cfg. cfg\<lparr>cfg_working_dir := Some p\<rparr>) s)\<lparr>discovered_skills := None\<rparr>"

section \<open>Facts about waiting and streaming\<close>

text \<open>
  The deadline of a tool: none for sub-sessions only; otherwise at least a minute, at least five
  minutes for the shell tools, and for these always later than the timeout they were asked to
  respect, so the outer deadline never pre-empts the inner one.
\<close>

lemma tool_deadline:
  "(determine_tool_timeout c name args = None) = (name = ''spawn_subsession'')"
  "determine_tool_timeout c name args = Some ms \<Longrightarrow> 60000 \<le> ms"
  "determine_tool_timeout c name args = Some ms \<Longrightarrow> is_shell_tool name \<Longrightarrow>
     300000 \<le> ms \<and> (\<forall>r. ac_json_timeout c args = Some r \<longrightarrow> 0 < r \<longrightarrow> unat r + TOOL_TIMEOUT_GRACE \<le> ms)"
  by (auto simp: determine_tool_timeout_def Let_def split: option.splits if_splits)

text \<open>A result that is already queued when a stop fires is what the wait returns.\<close>

lemma queued_result_kept:
  "fst (execute_tool_with_timeout call t desc (SW_Cancel (Queued (Inr out))) img) = out"
  "fst (execute_tool_with_timeout call t desc (SW_Deadline (Queued (Inr out))) img) = out"
  "th_output (spawn_single_tool call t' desc (CW_Deadline (Queued (Inr out))) img) = out"
  by (simp_all add: execute_tool_with_timeout_def drain_queued_or_synthesize_def tool_result_from_channel_def
      spawn_single_tool_def)

fun chunk_data :: "forward_event list \<Rightarrow> u8 list list" where
  "chunk_data [] = []"
| "chunk_data (FE_Chunk d killed queued # evs) = d # (if killed then queued else chunk_data evs)"
| "chunk_data (FE_Closed # evs) = []"
| "chunk_data (FE_Kill # evs) = []"

lemma drain_chunks_prefix:
  "\<exists>n. ob_sent (drain_chunks c call_id ds ob) = ob_sent ob @ map (chunk_cmd c call_id) (take n ds)
     \<and> (ob_left ob = None \<longrightarrow> n = length ds)"
proof (induction ds arbitrary: ob)
  case (Cons d ds)
  obtain ob' ok where s: "ob_send (chunk_cmd c call_id d) ob = (ob', ok)" by (metis surj_pair)
  show ?case
  proof (cases ok)
    case True
    then have o: "ob_sent ob' = ob_sent ob @ [chunk_cmd c call_id d]" "ob_left ob = None \<longrightarrow> ob_left ob' = None"
      using s by (auto simp: ob_send_def split: option.splits nat.splits)
    obtain n where "ob_sent (drain_chunks c call_id ds ob') = ob_sent ob' @ map (chunk_cmd c call_id) (take n ds)"
      "ob_left ob' = None \<longrightarrow> n = length ds" using Cons.IH by blast
    then show ?thesis using s True o by (intro exI [of _ "Suc n"]) simp
  next
    case False
    then have "ob' = ob" "ob_left ob \<noteq> None" using s by (auto simp: ob_send_def split: option.splits nat.splits)
    then show ?thesis using s False by (intro exI [of _ 0]) simp
  qed
qed simp

text \<open>The forwarder: chunks go out in the order they were produced, none is duplicated, and none is
  skipped before the last one sent.\<close>

lemma forwarding_prefix:
  "\<exists>n. ob_sent (forwarding_thread c call_id evs ob) = ob_sent ob @ map (chunk_cmd c call_id) (take n (chunk_data evs))
     \<and> (ob_left ob = None \<longrightarrow> n = length (chunk_data evs))"
proof (induction c call_id evs ob rule: forwarding_thread.induct)
  case (2 c call_id d killed queued evs ob)
  obtain ob' ok where s: "ob_send (chunk_cmd c call_id d) ob = (ob', ok)" by (metis surj_pair)
  show ?case
  proof (cases ok)
    case True
    then have o: "ob_sent ob' = ob_sent ob @ [chunk_cmd c call_id d]" "ob_left ob = None \<longrightarrow> ob_left ob' = None"
      using s by (auto simp: ob_send_def split: option.splits nat.splits)
    let ?rest = "if killed then queued else chunk_data evs"
    let ?out = "if killed then drain_chunks c call_id queued ob' else forwarding_thread c call_id evs ob'"
    obtain n where "ob_sent ?out = ob_sent ob' @ map (chunk_cmd c call_id) (take n ?rest)"
      "ob_left ob' = None \<longrightarrow> n = length ?rest"
      using "2.IH" [OF s [symmetric]] drain_chunks_prefix [of c call_id queued ob'] True by (cases killed) auto
    then show ?thesis using s True o by (intro exI [of _ "Suc n"]) (auto split: if_splits)
  next
    case False
    then have "ob' = ob" "ob_left ob \<noteq> None" using s by (auto simp: ob_send_def split: option.splits nat.splits)
    then show ?thesis using s False by (intro exI [of _ 0]) simp
  qed
qed simp_all

end
