(* ===== verification/Agent_Loop.thy ===== *)
theory Agent_Loop
  imports Tool_Execution
begin

text \<open>
  \<^verbatim>\<open>run_agent_loop\<close> of \<^verbatim>\<open>choreo-daemon/src/requests.rs\<close>: the loop of a request worker. Each
  iteration opens a turn, asks the model, and either ends with its text or runs the tools it
  called: first the session-config tools one by one, then all others at once, collected as
  they finish; then the configuration changes are mirrored on the worker's copy, and the
  next iteration sends the results back.

  The environment of an iteration is explicit: whether a cancel waits at its head, the clock,
  the stream of the model's answer with its outcome, what wakes each serial wait, and the
  events of the concurrent batch in the order the collector receives them. A batch event
  list that ends stands for the channel closing because the remaining threads died.
\<close>

section \<open>The environment\<close>

datatype stream_event =
    SE_Answer string
  | SE_Reasoning string
  | SE_Other
  | SE_Retry u32 u32 u64

record final_text =
  ft_content :: string
  ft_reasoning :: "string option"
  ft_usage :: "token_usage option"
  ft_response_id :: "string option"
  ft_artifact :: "reasoning_artifact option"

record tool_use =
  tu_content :: "string option"
  tu_calls :: "chat_tool_call list"
  tu_reasoning :: "string option"
  tu_usage :: "token_usage option"
  tu_response_id :: "string option"
  tu_artifact :: "reasoning_artifact option"

datatype turn_outcome =
    FinalText final_text
  | ToolUse tool_use
  | UnknownResult
  | InferenceCancelled
  | TruncatedToolCall string
  | InferenceFailed string

record serial_env =
  se_cancel :: bool
  se_wait :: serial_wait
  se_image :: "prepared_image option"

text \<open>
  A cancel comes with the number of handles already queued at that instant; a completion
  names the dispatched call, what woke its wait loop, and the image it emitted.
\<close>

datatype batch_wake =
    BW_Cancel nat
  | BW_Done nat conc_wait "prepared_image option"

datatype batch_event =
    BE_Cancel nat
  | BE_Done tool_handle

record iter_env =
  ie_cancel :: bool
  ie_now :: i64
  ie_stream :: "stream_event list"
  ie_outcome :: turn_outcome
  ie_serial :: "nat \<Rightarrow> serial_env"
  ie_batch :: "batch_wake list"

section \<open>The answer stream\<close>

definition string_bytes :: "string \<Rightarrow> u8 list" where
  "string_bytes t = map (\<lambda>ch. of_nat (of_char ch)) t"

definition count_tokens :: "agent_ctx \<Rightarrow> string \<Rightarrow> u32" where
  "count_tokens c t = (case ac_encoding c of None \<Rightarrow> 0 | Some cnt \<Rightarrow> of_nat (cnt t))"

definition stream_chunk :: "agent_ctx \<Rightarrow> output_stream \<Rightarrow> string \<Rightarrow> u32 \<times> agent \<Rightarrow> u32 \<times> agent" where
  "stream_chunk c strm t = (\<lambda>(n, a).
     let n' = n + count_tokens c t;
         a1 = post c (OutputChunk (ac_request_id c) strm (string_bytes t)) a
     in (n', post c (LiveOutputTokenCount (ac_request_id c) n') a1))"

fun stream_step :: "agent_ctx \<Rightarrow> stream_event \<Rightarrow> u32 \<times> agent \<Rightarrow> u32 \<times> agent" where
  "stream_step c (SE_Answer t) na = stream_chunk c Answer t na"
| "stream_step c (SE_Reasoning t) na = stream_chunk c ReasoningStream t na"
| "stream_step c SE_Other na = na"
| "stream_step c (SE_Retry n m d) (k, a) = (k, fst (send_cmd (StatusChanged (Retrying n m d)) a))"

definition stream_answer :: "agent_ctx \<Rightarrow> stream_event list \<Rightarrow> agent \<Rightarrow> agent" where
  "stream_answer c evs a = snd (fold (stream_step c) evs (0, a))"

section \<open>Phase 1: session-config tools\<close>

record phase =
  ph_executed :: hset
  ph_changes :: "pending_config_change list"
  ph_cancelled :: bool

definition call_record :: "chat_tool_call \<Rightarrow> assistant_tool_call_record" where
  "call_record tc = \<lparr>tc_call_id = ct_id tc, tc_name = ct_name tc, tc_arguments_json = ct_arguments_json tc\<rparr>"

definition description_by_call :: "agent_ctx \<Rightarrow> chat_tool_call list \<Rightarrow> string \<Rightarrow> string" where
  "description_by_call c calls i =
     (case map_of (rev (map (\<lambda>tc. (ct_id tc, describe_invocation c tc)) calls)) i of
        Some d \<Rightarrow> d | None \<Rightarrow> [])"

definition announce_call :: "agent_ctx \<Rightarrow> (string \<Rightarrow> string) \<Rightarrow> chat_tool_call \<Rightarrow> agent \<Rightarrow> agent" where
  "announce_call c desc call a =
     post c (ToolCallStarted (ac_request_id c) (ct_id call) (ct_name call) (ct_arguments_json call)
               (desc (ct_id call))) a"

text \<open>One serial tool. \<open>None\<close> is the early return when the session thread is gone.\<close>

definition serial_tool ::
  "agent_ctx \<Rightarrow> (string \<Rightarrow> string) \<Rightarrow> u32 \<Rightarrow> string option \<Rightarrow> serial_env \<Rightarrow> chat_tool_call
   \<Rightarrow> phase \<Rightarrow> agent \<Rightarrow> agent \<times> phase option" where
  "serial_tool c desc turn_id base_dir e call ph a =
     (let a1 = announce_call c desc call a;
          timeout = (case determine_tool_timeout c (ct_name call) (ct_arguments_json call) of
                       Some ms \<Rightarrow> ms | None \<Rightarrow> 60000)
      in case send_cmd (StatusChanged (ToolCall (ct_name call))) a1 of
           (a2, ok) \<Rightarrow>
             if \<not> ok then (a2, None)
             else
               (case execute_tool_with_timeout call timeout (desc (ct_id call)) (se_wait e) (se_image e) of
                  (output, cancelled, img) \<Rightarrow>
                    (case look c (record_tool_completion c call output img turn_id a2) of
                       (fs, a3) \<Rightarrow>
                         let change = (if out_is_error (eo_out output) then None
                                       else pending_config_change_of c fs call output base_dir)
                         in (a3, Some (ph\<lparr>ph_executed := hset_insert (ct_id call) (ph_executed ph),
                               ph_changes := ph_changes ph @ (case change of None \<Rightarrow> [] | Some x \<Rightarrow> [x]),
                               ph_cancelled := ph_cancelled ph \<or> cancelled\<rparr>)))))"

fun serial_phase ::
  "agent_ctx \<Rightarrow> (string \<Rightarrow> string) \<Rightarrow> u32 \<Rightarrow> string option \<Rightarrow> (nat \<Rightarrow> serial_env) \<Rightarrow> nat
   \<Rightarrow> chat_tool_call list \<Rightarrow> phase \<Rightarrow> agent \<Rightarrow> agent \<times> phase option" where
  "serial_phase c desc turn_id base_dir env k [] ph a = (a, Some ph)"
| "serial_phase c desc turn_id base_dir env k (call # calls) ph a =
     (if se_cancel (env k) then (a, Some (ph\<lparr>ph_cancelled := True\<rparr>))
      else case serial_tool c desc turn_id base_dir (env k) call ph a of
             (a1, None) \<Rightarrow> (a1, None)
           | (a1, Some ph1) \<Rightarrow>
               if ph_cancelled ph1 then (a1, Some ph1)
               else serial_phase c desc turn_id base_dir env (k + 1) calls ph1 a1)"

section \<open>Phase 2: concurrent tools\<close>

definition process_tool_handle ::
  "agent_ctx \<Rightarrow> u32 \<Rightarrow> tool_handle \<Rightarrow> hset \<times> agent \<Rightarrow> hset \<times> agent" where
  "process_tool_handle c turn_id h = (\<lambda>(executed, a).
     (hset_insert (ct_id (th_call h)) executed,
      record_tool_completion c (th_call h) (th_output h) (th_image h) turn_id a))"

definition synthesize_missing ::
  "agent_ctx \<Rightarrow> u32 \<Rightarrow> call_info list \<Rightarrow> hset \<Rightarrow> hset \<times> agent \<Rightarrow> hset \<times> agent" where
  "synthesize_missing c turn_id infos delivered x =
     fold (process_tool_handle c turn_id \<circ> panic_tool_handle) (missing_calls infos delivered) x"

fun drain_batch ::
  "agent_ctx \<Rightarrow> u32 \<Rightarrow> call_info list \<Rightarrow> tool_handle list \<Rightarrow> hset \<Rightarrow> hset \<times> agent \<Rightarrow> hset \<times> agent" where
  "drain_batch c turn_id infos hs delivered x =
     (if length delivered < length infos then
        (case hs of
           [] \<Rightarrow> synthesize_missing c turn_id infos delivered x
         | h # hs' \<Rightarrow>
             drain_batch c turn_id infos hs' (hset_insert (ct_id (th_call h)) delivered)
               (process_tool_handle c turn_id h x))
      else x)"

fun handle_of :: "batch_event \<Rightarrow> tool_handle option" where
  "handle_of (BE_Done h) = Some h"
| "handle_of (BE_Cancel _) = None"

definition deliver :: "agent_ctx \<Rightarrow> u32 \<Rightarrow> tool_handle \<Rightarrow> hset \<times> hset \<times> agent \<Rightarrow> hset \<times> hset \<times> agent" where
  "deliver c turn_id h = (\<lambda>(delivered, x).
     (hset_insert (ct_id (th_call h)) delivered, process_tool_handle c turn_id h x))"

text \<open>The receive loop; its result is whether it was cancelled, the executed calls, the state.\<close>

fun collect_batch ::
  "agent_ctx \<Rightarrow> u32 \<Rightarrow> call_info list \<Rightarrow> batch_event list \<Rightarrow> hset \<Rightarrow> hset \<times> agent \<Rightarrow> bool \<times> hset \<times> agent" where
  "collect_batch c turn_id infos evs delivered x =
     (if length delivered < length infos then
        (case evs of
           [] \<Rightarrow> (False, synthesize_missing c turn_id infos delivered x)
         | BE_Done h # evs' \<Rightarrow>
             collect_batch c turn_id infos evs' (hset_insert (ct_id (th_call h)) delivered)
               (process_tool_handle c turn_id h x)
         | BE_Cancel n # evs' \<Rightarrow>
             let hs = List.map_filter handle_of evs';
                 (delivered', x') = fold (deliver c turn_id) (take n hs) (delivered, x)
             in (True, drain_batch c turn_id infos (drop n hs) delivered' x'))
      else (False, x))"

declare drain_batch.simps [simp del] collect_batch.simps [simp del]

definition info_of :: "(string \<Rightarrow> string) \<Rightarrow> chat_tool_call \<Rightarrow> call_info" where
  "info_of desc call =
     \<lparr>cl_call_id = ct_id call, cl_tool_name = ct_name call, cl_arguments_json = ct_arguments_json call,
      cl_invocation_description = desc (ct_id call)\<rparr>"

fun batch_event_of ::
  "agent_ctx \<Rightarrow> (string \<Rightarrow> string) \<Rightarrow> chat_tool_call list \<Rightarrow> batch_wake \<Rightarrow> batch_event option" where
  "batch_event_of c desc calls (BW_Cancel n) = Some (BE_Cancel n)"
| "batch_event_of c desc calls (BW_Done i w img) =
     (if i < length calls
      then let call = calls ! i
           in Some (BE_Done (spawn_single_tool call
                (determine_tool_timeout c (ct_name call) (ct_arguments_json call)) (desc (ct_id call)) w img))
      else None)"

definition concurrent_phase ::
  "agent_ctx \<Rightarrow> (string \<Rightarrow> string) \<Rightarrow> u32 \<Rightarrow> assistant_tool_call_record list \<Rightarrow> batch_wake list
   \<Rightarrow> chat_tool_call list \<Rightarrow> phase \<Rightarrow> agent \<Rightarrow> agent \<times> phase option" where
  "concurrent_phase c desc turn_id records wakes calls ph a =
     (if ph_cancelled ph \<or> calls = [] then (a, Some ph)
      else
        let a1 = fold (announce_call c desc) calls a
        in case send_cmd (StatusChanged (ToolCall (concurrent_tool_status_label calls))) a1 of
             (a2, ok) \<Rightarrow>
               if \<not> ok then (a2, None)
               else
                 (case collect_batch c turn_id (map (info_of desc) calls)
                         (List.map_filter (batch_event_of c desc calls) wakes) [] (ph_executed ph, a2) of
                    (cancelled, executed, a3) \<Rightarrow>
                      (a3\<lparr>ag_results := sort_by_call_order records tri_call_id (ag_results a3)\<rparr>,
                       Some (ph\<lparr>ph_executed := executed, ph_cancelled := cancelled\<rparr>))))"

section \<open>A tool-use answer\<close>

definition producer_of :: "agent_ctx \<Rightarrow> reasoning_producer" where
  "producer_of c = \<lparr>rp_provider_slug = ac_slug c, rp_model = ac_model c\<rparr>"

definition set_response_id :: "agent_ctx \<Rightarrow> string option \<Rightarrow> agent \<Rightarrow> agent" where
  "set_response_id c rid a =
     upd_session (upd_config (\<lambda>cfg. cfg
       \<lparr>cfg_last_response_id := rid, cfg_last_response_id_producer := Some (producer_of c)\<rparr>)) a"

text \<open>Everything before the tools run: usage, the answer, one placeholder per call.\<close>

definition open_tool_turn :: "agent_ctx \<Rightarrow> u32 \<Rightarrow> tool_use \<Rightarrow> agent \<Rightarrow> agent" where
  "open_tool_turn c turn_id tu a =
     (let a1 = broadcast_token_usage (accumulate_token_usage (tu_usage tu) a);
          records = map call_record (tu_calls tu);
          descs = map (description_by_call c (tu_calls tu) \<circ> tc_call_id) records;
          a2 = upd_session (set_assistant_response turn_id
                 \<lparr>resp_text = tu_content tu, resp_reasoning = tu_reasoning tu, resp_tool_calls = records,
                  resp_token_usage = tu_usage tu, resp_reasoning_artifact = tu_artifact tu,
                  resp_reasoning_producer = Some (producer_of c)\<rparr>) a1;
          a3 = upd_session (seed_tool_results turn_id records descs) a2;
          a4 = broadcast_turn_appended c turn_id a3
      in set_response_id c (tu_response_id tu) (a4\<lparr>ag_prev := tu_response_id tu, ag_results := []\<rparr>))"

definition close_tool_turn :: "agent_ctx \<Rightarrow> u32 \<Rightarrow> phase \<Rightarrow> agent \<Rightarrow> agent \<times> loop_result option" where
  "close_tool_turn c turn_id ph a =
     (let a1 = upd_session (fold (apply_pending_config_change c) (ph_changes ph)) a
      in if ph_cancelled ph
         then (broadcast_turn_appended c turn_id
                 (upd_session (mark_unexecuted_tool_results turn_id (ph_executed ph)) a1),
               Some (LoopOk True))
         else (a1, None))"

definition run_tools :: "agent_ctx \<Rightarrow> iter_env \<Rightarrow> u32 \<Rightarrow> tool_use \<Rightarrow> agent \<Rightarrow> agent \<times> loop_result option" where
  "run_tools c env turn_id tu a =
     (let calls = tu_calls tu;
          desc = description_by_call c calls;
          a1 = open_tool_turn c turn_id tu a;
          mutators = filter (\<lambda>tc. is_session_config_tool (ct_name tc)) calls;
          concurrent = filter (\<lambda>tc. \<not> is_session_config_tool (ct_name tc)) calls;
          base_dir = cfg_working_dir (config (ag_session a1))
      in case serial_phase c desc turn_id base_dir (ie_serial env) 0 mutators
                \<lparr>ph_executed = [], ph_changes = [], ph_cancelled = False\<rparr> a1 of
           (a2, None) \<Rightarrow> (a2, Some (LoopOk False))
         | (a2, Some ph) \<Rightarrow>
             (case concurrent_phase c desc turn_id (map call_record calls) (ie_batch env) concurrent ph a2 of
                (a3, None) \<Rightarrow> (a3, Some (LoopOk False))
              | (a3, Some ph') \<Rightarrow> close_tool_turn c turn_id ph' a3))"

section \<open>The other answers\<close>

definition plain_response :: "string \<Rightarrow> assistant_response" where
  "plain_response t =
     \<lparr>resp_text = Some t, resp_reasoning = None, resp_tool_calls = [], resp_token_usage = None,
      resp_reasoning_artifact = None, resp_reasoning_producer = None\<rparr>"

definition end_turn :: "agent_ctx \<Rightarrow> u32 \<Rightarrow> agent \<Rightarrow> agent \<times> loop_result option" where
  "end_turn c turn_id a =
     (case finalize_and_broadcast_turn c turn_id a of
        (a1, True) \<Rightarrow> (a1\<lparr>ag_results := []\<rparr>, Some (LoopOk False))
      | (a1, False) \<Rightarrow> (a1, Some (LoopErr (ac_storage_error c))))"

definition final_answer :: "agent_ctx \<Rightarrow> u32 \<Rightarrow> final_text \<Rightarrow> agent \<Rightarrow> agent \<times> loop_result option" where
  "final_answer c turn_id ft a =
     (let a1 = broadcast_token_usage (accumulate_token_usage (ft_usage ft) a);
          a2 = upd_session (set_assistant_response turn_id
                 ((plain_response (ft_content ft))
                    \<lparr>resp_reasoning := ft_reasoning ft, resp_token_usage := ft_usage ft,
                     resp_reasoning_artifact := ft_artifact ft,
                     resp_reasoning_producer := Some (producer_of c)\<rparr>)) a1
      in end_turn c turn_id (set_response_id c (ft_response_id ft) a2))"

definition truncated_call :: "agent_ctx \<Rightarrow> u32 \<Rightarrow> string \<Rightarrow> agent \<Rightarrow> agent \<times> loop_result option" where
  "truncated_call c turn_id e a =
     end_turn c turn_id
       (upd_session (set_assistant_response turn_id (plain_response (''[tool call truncated: '' @ e @ '']''))) a)"

definition inference_failed :: "agent_ctx \<Rightarrow> u32 \<Rightarrow> string \<Rightarrow> agent \<Rightarrow> agent \<times> loop_result option" where
  "inference_failed c turn_id e a =
     (fst (finalize_and_broadcast_turn c turn_id (upd_session (set_turn_error turn_id e) a)), Some (LoopErr e))"

fun handle_outcome ::
  "agent_ctx \<Rightarrow> iter_env \<Rightarrow> u32 \<Rightarrow> turn_outcome \<Rightarrow> agent \<Rightarrow> agent \<times> loop_result option" where
  "handle_outcome c env turn_id (FinalText ft) a = final_answer c turn_id ft a"
| "handle_outcome c env turn_id (ToolUse tu) a = run_tools c env turn_id tu a"
| "handle_outcome c env turn_id UnknownResult a =
     (a, Some (LoopErr ''provider returned an unhandled turn result variant''))"
| "handle_outcome c env turn_id InferenceCancelled a = (a, Some (LoopOk True))"
| "handle_outcome c env turn_id (TruncatedToolCall e) a = truncated_call c turn_id e a"
| "handle_outcome c env turn_id (InferenceFailed e) a = inference_failed c turn_id e a"

section \<open>The loop\<close>

definition prepare_request :: "agent_ctx \<Rightarrow> u32 \<Rightarrow> tool_definition list \<Rightarrow> string \<Rightarrow> agent \<Rightarrow> agent" where
  "prepare_request c turn_id tools effort a =
     (case build_system_content c a of
        (a1, system_content) \<Rightarrow>
          let a2 = a1\<lparr>ag_pending_hints := []\<rparr>;
              messages = build_chat_request_messages (ac_caps c) (ag_session a2) system_content (ac_slug c) (ac_model c);
              a3 = post c (Started (ac_request_id c) turn_id (estimate_prompt_tokens c messages tools)) a2
          in a3\<lparr>ag_requests := ag_requests a3 @
               [\<lparr>cr_model = ac_model c, cr_messages = messages, cr_tools = tools, cr_thinking_effort = effort,
                 cr_previous_response_id = ag_prev a3, cr_tool_results = ag_results a3,
                 cr_programmatic = ac_programmatic c, cr_session_id = decimal (unat (ac_session_id c)),
                 cr_request_id = decimal (unat (ac_request_id c))\<rparr>]\<rparr>)"

definition agent_turn ::
  "agent_ctx \<Rightarrow> string option \<Rightarrow> u32 \<Rightarrow> iter_env \<Rightarrow> agent \<Rightarrow> agent \<times> loop_result option" where
  "agent_turn c prompt turn_iter env a =
     (let cfg = config (ag_session a);
          effort = resolve_reasoning_effort c
            (case cfg_reasoning_effort cfg of Some e \<Rightarrow> e | None \<Rightarrow> ''off'');
          tools = available_definitions c (cfg_active_tool_groups cfg)
      in if ie_cancel env then (a, Some (LoopOk True))
         else
           (case start_turn (ie_now env) (if turn_iter = 0 then prompt else None) (ag_session a) of
              (s1, turn_id, _) \<Rightarrow>
                let a1 = broadcast_turn_appended c turn_id (a\<lparr>ag_session := s1\<rparr>)
                in case send_cmd (StatusChanged Inference) a1 of
                     (a2, ok) \<Rightarrow>
                       if \<not> ok then (a2, Some (LoopOk False))
                       else
                         let a3 = prepare_request c turn_id tools effort a2;
                             a4 = stream_answer c (ie_stream env) a3
                         in handle_outcome c env turn_id (ie_outcome env) a4))"

definition limit_error :: "agent_ctx \<Rightarrow> string" where
  "limit_error c = ''tool loop exceeded '' @ decimal (unat (ac_max_turns c)) @ '' iterations''"

fun agent_loop ::
  "nat \<Rightarrow> agent_ctx \<Rightarrow> string option \<Rightarrow> (nat \<Rightarrow> iter_env) \<Rightarrow> nat \<Rightarrow> u32 \<Rightarrow> agent \<Rightarrow> (agent \<times> loop_result) option" where
  "agent_loop 0 c prompt env k turn_iter a = None"
| "agent_loop (Suc fuel) c prompt env k turn_iter a =
     (if 0 < ac_max_turns c \<and> ac_max_turns c \<le> turn_iter then Some (a, LoopErr (limit_error c))
      else case agent_turn c prompt turn_iter (env k) a of
             (a1, Some r) \<Rightarrow> Some (a1, r)
           | (a1, None) \<Rightarrow> agent_loop fuel c prompt env (k + 1) (turn_iter + 1) a1)"

definition agent_start :: "agent_ctx \<Rightarrow> session_state \<Rightarrow> db \<Rightarrow> outbox \<Rightarrow> agent" where
  "agent_start c s d ob =
     (let s1 = (case (discovered_skills s, cfg_working_dir (config s)) of
                  (None, Some wd) \<Rightarrow> s\<lparr>discovered_skills := Some (fs_skills (ac_fs c 0) wd)\<rparr>
                | _ \<Rightarrow> s)
      in \<lparr>ag_session = s1, ag_db = d, ag_out = ob, ag_results = [], ag_known_hints = [],
          ag_pending_hints = [], ag_prev = initial_prev_resp_id (ac_caps c) s (ac_slug c) (ac_model c),
          ag_requests = [], ag_looks = 1\<rparr>)"

definition run_agent_loop ::
  "nat \<Rightarrow> agent_ctx \<Rightarrow> string option \<Rightarrow> (nat \<Rightarrow> iter_env) \<Rightarrow> session_state \<Rightarrow> db \<Rightarrow> outbox
   \<Rightarrow> (agent \<times> loop_result) option" where
  "run_agent_loop fuel c prompt env s d ob = agent_loop fuel c prompt env 0 0 (agent_start c s d ob)"

section \<open>A small run\<close>

text \<open>
  A context without catalog, tools or files, and two scripts: a model that answers at once, and
  one that calls a config tool and a concurrent tool first.
\<close>

definition demo_fs :: fs_view where
  "demo_fs = \<lparr>fs_skills = (\<lambda>_. []), fs_context = (\<lambda>_ _. None), fs_user_prompt = None,
     fs_skill_body = (\<lambda>_ _. None), fs_hints = (\<lambda>_ _ _ _. None), fs_resolve_dir = (\<lambda>_ _. None)\<rparr>"

definition demo_agent :: agent_ctx where
  "demo_agent = \<lparr>ac_session_id = 1, ac_request_id = 3, ac_model = ''m'', ac_slug = ''p'', ac_max_turns = 2,
     ac_caps = demo_caps, ac_capability = (\<lambda>_ _. \<lparr>available_effort_levels = []\<rparr>), ac_programmatic = False,
     ac_registry = [], ac_groups = [], ac_encoding = None, ac_serialize = (\<lambda>_. None),
     ac_json_str = (\<lambda>_ _. None), ac_json_load = (\<lambda>_. Some [''git'']), ac_json_unload = (\<lambda>_. None),
     ac_json_dir = (\<lambda>_. None), ac_json_timeout = (\<lambda>_. None), ac_format_char = (\<lambda>_. False),
     ac_list_fmt = concat, ac_default_prompt = [], ac_storage_error = ''storage'', ac_fs = (\<lambda>_. demo_fs)\<rparr>"

definition demo_output :: "string \<Rightarrow> exec_output" where
  "demo_output t = \<lparr>eo_out = \<lparr>out_content = t, out_is_error = False, out_invocation_description = [],
     out_image_ref = None\<rparr>, eo_path = None\<rparr>"

definition demo_calls :: "chat_tool_call list" where
  "demo_calls = [\<lparr>ct_id = ''b'', ct_name = ''ls'', ct_arguments_json = ''{}'', ct_caller = None\<rparr>,
     \<lparr>ct_id = ''a'', ct_name = ''load_tools'', ct_arguments_json = ''{}'', ct_caller = None\<rparr>]"

definition demo_tool_use :: tool_use where
  "demo_tool_use = \<lparr>tu_content = None, tu_calls = demo_calls, tu_reasoning = None, tu_usage = None,
     tu_response_id = None, tu_artifact = None\<rparr>"

definition demo_answer :: turn_outcome where
  "demo_answer = FinalText \<lparr>ft_content = ''hi'', ft_reasoning = None, ft_usage = None, ft_response_id = None,
     ft_artifact = None\<rparr>"

definition demo_env :: "turn_outcome \<Rightarrow> iter_env" where
  "demo_env out = \<lparr>ie_cancel = False, ie_now = 5, ie_stream = [SE_Answer ''hi''], ie_outcome = out,
     ie_serial = (\<lambda>_. \<lparr>se_cancel = False, se_wait = SW_Result (Some (Inr (demo_output ''ok''))), se_image = None\<rparr>),
     ie_batch = [BW_Done 0 (CW_Result (Some (Inr (demo_output ''x'')))) None]\<rparr>"

definition demo_script :: "nat \<Rightarrow> iter_env" where
  "demo_script k = demo_env (if k = 0 then ToolUse demo_tool_use else demo_answer)"

definition demo_outbox :: outbox where
  "demo_outbox = \<lparr>ob_sent = [], ob_left = None\<rparr>"

definition demo_no_db :: db where
  "demo_no_db = \<lparr>db_sessions = (\<lambda>_. None), db_turns = (\<lambda>_. None), db_tombstones = {}, db_faults = []\<rparr>"

end
