(* ===== verification/Agent_Steps.thy ===== *)
theory Agent_Steps
  imports Agent_Loop Session_Requests
begin

text \<open>
  What every part of the agent loop has in common. All of it is composed of a few kinds of
  steps: a message to the session thread, an edit of the worker's copy of the session, a
  note in the loop's own variables, a database write, a provider request. A relation between
  the states before and after that holds for each kind of step and composes, holds for every
  operation of the loop: the locales state this once, for the operations that run while
  tools execute and for all of them.

  The interpretations: the worker edits its copy only by the edits the session thread's
  system allows, and it sends only messages that clients may see.
\<close>

section \<open>Kinds of steps\<close>

inductive quiet_edit :: "session_state \<Rightarrow> session_state \<Rightarrow> bool" where
  qe_config: "quiet_edit s (upd_config f s)"
| qe_skills: "quiet_edit s (s\<lparr>loaded_skill_bodies := b, context_cache := cc, discovered_skills := ds\<rparr>)"

inductive tool_edit :: "session_state \<Rightarrow> session_state \<Rightarrow> bool" where
  te_result: "tool_edit s (update_tool_result i cid nm out s)"
| te_mark: "tool_edit s (mark_unexecuted_tool_results i ex s)"
| te_image: "tool_edit s (add_displayed_image i img s)"

fun worker_message :: "agent_ctx \<Rightarrow> session_command \<Rightarrow> bool" where
  "worker_message c (BroadcastMsg (Session sid ev)) \<longleftrightarrow> sid = Some (ac_session_id c) \<and> message_safe (Session sid ev)"
| "worker_message c (StatusChanged _) = True"
| "worker_message c (SyncAccumulatedUsage _ _) = True"
| "worker_message c _ = False"

definition take_notes ::
  "tool_result_item list \<Rightarrow> string list \<Rightarrow> string list \<Rightarrow> string option \<Rightarrow> nat \<Rightarrow> agent \<Rightarrow> agent" where
  "take_notes rs kh phs pv n a =
     a\<lparr>ag_results := rs, ag_known_hints := kh, ag_pending_hints := phs, ag_prev := pv, ag_looks := n\<rparr>"

section \<open>Operations that leave the turns alone\<close>

locale send_steps =
  fixes c :: agent_ctx and R :: "agent \<Rightarrow> agent \<Rightarrow> bool"
  assumes R_refl: "R a a"
    and R_trans: "R a b \<Longrightarrow> R b d \<Longrightarrow> R a d"
    and R_send: "worker_message c cmd \<Longrightarrow> R a (fst (send_cmd cmd a))"
    and R_quiet: "quiet_edit (ag_session a) s' \<Longrightarrow> R a (a\<lparr>ag_session := s'\<rparr>)"
    and R_notes: "R a (take_notes rs kh phs pv n a)"
begin

lemma R_compose:
  assumes "R a b" and "\<And>x. R x (f x)"
  shows "R a (f b)"
  using R_trans [OF assms(1) assms(2)] .

lemma R_post: "message_safe (Session (Some (ac_session_id c)) ev) \<Longrightarrow> R a (post c ev a)"
  unfolding post_def by (rule R_send) simp

lemma R_results: "R a (a\<lparr>ag_results := rs\<rparr>)"
  using R_notes [of a rs "ag_known_hints a" "ag_pending_hints a" "ag_prev a" "ag_looks a"]
  by (cases a) (simp add: take_notes_def)

lemma R_pending: "R a (a\<lparr>ag_pending_hints := ps\<rparr>)"
  using R_notes [of a "ag_results a" "ag_known_hints a" ps "ag_prev a" "ag_looks a"]
  by (cases a) (simp add: take_notes_def)

lemma R_prev_results: "R a (a\<lparr>ag_prev := pv, ag_results := rs\<rparr>)"
  using R_notes [of a rs "ag_known_hints a" "ag_pending_hints a" pv "ag_looks a"]
  by (cases a) (simp add: take_notes_def)

lemma R_look: "R a (snd (look c a))"
  using R_notes [of a "ag_results a" "ag_known_hints a" "ag_pending_hints a" "ag_prev a" "ag_looks a + 1"]
  by (cases a) (simp add: take_notes_def look_def)

lemma R_config: "R a (upd_session (upd_config f) a)"
  by (rule R_quiet) (rule qe_config)

lemma R_turn: "R a (broadcast_turn_appended c i a)"
  by (auto simp: broadcast_turn_appended_def R_refl turn_for_client_safe intro!: R_post split: option.splits)

lemma R_bodies: "R a (upd_session (\<lambda>s. s\<lparr>loaded_skill_bodies := f s\<rparr>) a)"
proof -
  let ?s = "ag_session a"
  have "?s\<lparr>loaded_skill_bodies := f ?s\<rparr> = ?s\<lparr>loaded_skill_bodies := f ?s, context_cache := context_cache ?s,
      discovered_skills := discovered_skills ?s\<rparr>"
    by (cases ?s) simp
  then show ?thesis by (metis R_quiet qe_skills)
qed

lemma R_cache: "R a (upd_session (\<lambda>s. s\<lparr>context_cache := x\<rparr>) a)"
proof -
  let ?s = "ag_session a"
  have "?s\<lparr>context_cache := x\<rparr> = ?s\<lparr>loaded_skill_bodies := loaded_skill_bodies ?s, context_cache := x,
      discovered_skills := discovered_skills ?s\<rparr>"
    by (cases ?s) simp
  then show ?thesis by (metis R_quiet qe_skills)
qed

lemma R_forget_skills: "R a (upd_session (\<lambda>s. s\<lparr>discovered_skills := None\<rparr>) a)"
proof -
  let ?s = "ag_session a"
  have "?s\<lparr>discovered_skills := None\<rparr> = ?s\<lparr>loaded_skill_bodies := loaded_skill_bodies ?s,
      context_cache := context_cache ?s, discovered_skills := None\<rparr>"
    by (cases ?s) simp
  then show ?thesis by (metis R_quiet qe_skills)
qed

lemma R_skill: "R a (persist_loaded_skill c nm args a)"
  unfolding persist_loaded_skill_def case_prod_unfold
  by (auto simp: R_refl R_look intro: R_trans [OF R_look R_bodies] split: option.splits)

lemma R_hints: "R a (check_subdirectory_hints c nm args a)"
proof -
  have "R a (x\<lparr>ag_known_hints := kh, ag_pending_hints := ps\<rparr>)" if "R a x" for x kh ps
    using R_trans [OF that R_notes [of x "ag_results x" kh ps "ag_prev x" "ag_looks x"]]
    by (cases x) (simp add: take_notes_def)
  then show ?thesis
    unfolding check_subdirectory_hints_def case_prod_unfold by (auto simp: R_look split: option.splits)
qed

lemma R_announce: "R a (announce_call c desc call a)"
  unfolding announce_call_def by (rule R_post) simp

lemma R_fold_by:
  assumes "\<And>x y. R (p y) (p (f x y))"
  shows "R (p y) (p (fold f xs y))"
proof (induction xs arbitrary: y)
  case (Cons x xs)
  show ?case using R_trans [OF assms Cons.IH] by simp
qed (simp add: R_refl)

lemma R_fold: "(\<And>x a. R a (f x a)) \<Longrightarrow> R a (fold f xs a)"
  by (rule R_fold_by)

lemma R_send_pair: "send_cmd cmd a = (a', ok) \<Longrightarrow> worker_message c cmd \<Longrightarrow> R a a'"
  using R_send [of cmd a] by simp

lemma R_change: "R a (upd_session (apply_pending_config_change c ch) a)"
proof (cases ch)
  case (PendingDir path)
  show ?thesis
  proof (cases path)
    case None
    then show ?thesis using PendingDir R_forget_skills by simp
  next
    case (Some p)
    then show ?thesis
      using PendingDir R_trans [OF R_config [of a "\<lambda>cfg. cfg\<lparr>cfg_working_dir := Some p\<rparr>"] R_forget_skills] by simp
  qed
qed (simp_all add: R_config)

lemma R_changes: "R a (upd_session (fold (apply_pending_config_change c) chs) a)"
proof (induction chs arbitrary: a)
  case (Cons ch chs)
  from R_trans [OF R_change [of a ch] Cons.IH] show ?case by simp
qed (cases a, simp add: R_refl)

lemma R_stream: "R a (stream_answer c evs a)"
proof -
  have "R (snd na) (snd (stream_step c ev na))" for ev na
    by (cases na; cases ev)
       (auto simp: R_refl stream_chunk_def Let_def intro!: R_send R_trans [OF R_post R_post])
  then have "R (snd na) (snd (fold (stream_step c) evs na))" for na
    by (rule R_fold_by)
  from this [of "(0, a)"] show ?thesis by (simp add: stream_answer_def)
qed

lemma R_usage: "R a (broadcast_token_usage (accumulate_token_usage u a))"
proof -
  have "R a (accumulate_token_usage u a)"
    using R_config by (auto simp: accumulate_token_usage_def R_refl split: option.splits)
  then show ?thesis unfolding broadcast_token_usage_def by (rule R_compose) (rule R_send, simp)
qed

lemma R_system_content: "R a (fst (build_system_content c a))"
proof -
  have "R a (upd_session (\<lambda>s. s\<lparr>context_cache := x\<rparr>) (snd (look c a)))" for x
    by (rule R_trans [OF R_look R_cache])
  then show ?thesis
    unfolding build_system_content_def Let_def case_prod_unfold by (simp add: R_refl split: option.splits)
qed

end

section \<open>Operations while tools run\<close>

locale tool_steps = send_steps +
  assumes R_edit: "tool_edit (ag_session a) s' \<Longrightarrow> R a (a\<lparr>ag_session := s'\<rparr>)"
begin

lemma R_emit_image: "R a (emit_image c img cid i a)"
  unfolding emit_image_def Let_def
  by (rule R_trans [OF R_edit [OF te_image] R_turn])

lemma R_finish: "R a (finish_tool_call c call out i a)"
proof -
  have "R a (broadcast_turn_appended c i (upd_session (update_tool_result i (ct_id call) (ct_name call) out) a))"
    by (rule R_trans [OF R_edit [OF te_result] R_turn])
  then show ?thesis
    unfolding finish_tool_call_def Let_def
    by (auto intro!: R_trans [OF _ R_post])
qed

lemma R_record: "R a (record_tool_completion c call output img i a)"
proof -
  have "R a (case img of None \<Rightarrow> a | Some im \<Rightarrow> emit_image c im (Some (ct_id call)) i a)"
    by (simp add: R_refl R_emit_image split: option.splits)
  moreover have "R x (collect_tool_result c call out x)" for x out
    unfolding collect_tool_result_def Let_def
    by (rule R_compose [OF R_trans [OF R_results R_skill] R_hints])
  ultimately show ?thesis
    unfolding record_tool_completion_def Let_def by (meson R_finish R_trans)
qed

lemma R_serial_tool: "R a (fst (serial_tool c desc i base e call ph a))"
proof -
  let ?a1 = "announce_call c desc call a"
  let ?a2 = "fst (send_cmd (StatusChanged (ToolCall (ct_name call))) ?a1)"
  have a2: "R a ?a2" by (rule R_trans [OF R_announce R_send]) simp
  have "R a (snd (look c (record_tool_completion c call out img i ?a2)))" for out img
    by (rule R_trans [OF R_trans [OF a2 R_record] R_look])
  then show ?thesis
    using a2 unfolding serial_tool_def Let_def case_prod_unfold by simp
qed

lemma R_serial_phase: "R a (fst (serial_phase c desc i base env k calls ph a))"
proof (induction calls arbitrary: k ph a)
  case (Cons call calls)
  have "R a a1 \<Longrightarrow> R a (fst (serial_phase c desc i base env (k + 1) calls ph1 a1))" for a1 ph1
    using Cons.IH R_trans by blast
  then show ?case
    using R_serial_tool [of a desc i base "env k" call ph] by (auto simp: R_refl split: prod.splits option.splits)
qed (simp add: R_refl)

lemma R_handle: "R (snd x) (snd (process_tool_handle c i h x))"
  by (simp add: process_tool_handle_def case_prod_unfold R_record)

lemma R_synthesize: "R (snd x) (snd (synthesize_missing c i infos d x))"
  unfolding synthesize_missing_def by (rule R_fold_by) (simp add: R_handle)

lemma R_drain: "R (snd x) (snd (drain_batch c i infos hs d x))"
proof (induction hs arbitrary: d x)
  case Nil
  then show ?case by (simp add: drain_batch.simps R_refl R_synthesize)
next
  case (Cons h hs)
  then show ?case using R_trans [OF R_handle Cons.IH] by (subst drain_batch.simps) (simp add: R_refl)
qed

lemma R_deliver: "R (snd (snd y)) (snd (snd (fold (deliver c i) hs y)))"
  by (rule R_fold_by [where p = "\<lambda>y. snd (snd y)"]) (simp add: deliver_def case_prod_unfold R_handle)

lemma R_collect: "R (snd x) (snd (snd (collect_batch c i infos evs d x)))"
proof (induction evs arbitrary: d x)
  case Nil
  then show ?case by (simp add: collect_batch.simps R_refl R_synthesize)
next
  case (Cons e evs)
  show ?case
  proof (cases e)
    case (BE_Done h)
    then show ?thesis using R_trans [OF R_handle Cons.IH] by (subst collect_batch.simps) (simp add: R_refl)
  next
    case (BE_Cancel n)
    have "R (snd x) (snd (drain_batch c i infos hs d' (snd (fold (deliver c i) hs' (d, x)))))" for hs hs' d'
      using R_trans [OF R_deliver [where y = "(d, x)"] R_drain] by simp
    then show ?thesis using BE_Cancel
      by (subst collect_batch.simps) (simp add: R_refl Let_def case_prod_unfold)
  qed
qed

lemma R_concurrent: "R a (fst (concurrent_phase c desc i recs wakes calls ph a))"
proof -
  let ?a1 = "fold (announce_call c desc) calls a"
  let ?a2 = "fst (send_cmd (StatusChanged (ToolCall (concurrent_tool_status_label calls))) ?a1)"
  have a2: "R a ?a2" by (rule R_trans [OF R_fold [of "announce_call c desc", OF R_announce] R_send]) simp
  have "R a (snd (snd (collect_batch c i infos evs d (ex, ?a2))))" for infos evs d ex
    using R_trans [OF a2 R_collect [where x = "(ex, ?a2)", simplified]] .
  then show ?thesis
    using a2 unfolding concurrent_phase_def Let_def case_prod_unfold
    by (auto simp: R_refl intro: R_trans [OF _ R_results])
qed

lemma R_close: "R a (fst (close_tool_turn c i ph a))"
proof -
  have "R a (broadcast_turn_appended c i (upd_session (mark_unexecuted_tool_results i (ph_executed ph))
      (upd_session (fold (apply_pending_config_change c) (ph_changes ph)) a)))"
    by (rule R_trans [OF R_trans [OF R_changes R_edit [OF te_mark]] R_turn])
  then show ?thesis using R_changes unfolding close_tool_turn_def Let_def by simp
qed

end

section \<open>Operations on an answer\<close>

locale answer_steps = tool_steps +
  assumes R_respond: "R a (upd_session (set_assistant_response i r) a)"
    and R_seed: "R a (upd_session (seed_tool_results i calls descs) a)"
    and R_error: "R a (upd_session (set_turn_error i e) a)"
    and R_write: "R a (a\<lparr>ag_db := fst (finalize_turn (ac_session_id c) i (ag_session a) (ag_db a))\<rparr>)"
    and R_request: "R a (a\<lparr>ag_requests := ag_requests a @ [q]\<rparr>)"
begin

lemma R_response_id: "R a (set_response_id c rid a)"
  unfolding set_response_id_def by (rule R_config)

lemma R_finalize: "R a (fst (finalize_and_broadcast_turn c i a))"
  using R_write [of a i] R_trans [OF R_write [of a i] R_turn]
  unfolding finalize_and_broadcast_turn_def Let_def case_prod_unfold by simp

lemma R_open: "R a (open_tool_turn c i tu a)"
  unfolding open_tool_turn_def Let_def
  by (rule R_trans [OF _ R_response_id], rule R_trans [OF _ R_prev_results], rule R_trans [OF _ R_turn],
      rule R_trans [OF _ R_seed], rule R_trans [OF R_usage R_respond])

lemma R_tools: "R a (fst (run_tools c env i tu a))"
proof -
  have "R a (fst (serial_phase c desc i base env' k calls ph (open_tool_turn c i tu a)))" for desc base env' k calls ph
    by (rule R_trans [OF R_open R_serial_phase])
  note serial = this
  have conc: "R a (fst (concurrent_phase c desc i recs wakes calls ph b))" if "R a b" for desc recs wakes calls ph b
    by (rule R_trans [OF that R_concurrent])
  have close: "R a (fst (close_tool_turn c i ph b))" if "R a b" for ph b
    by (rule R_trans [OF that R_close])
  show ?thesis
    unfolding run_tools_def Let_def
    by (auto split: prod.split option.split)
       (metis serial conc close fst_conv)+
qed

lemma R_end_turn: "R a (fst (end_turn c i a))"
  using R_finalize [of a i] by (auto simp: end_turn_def split: prod.splits bool.splits intro: R_trans [OF _ R_results])

lemma R_outcome: "R a (fst (handle_outcome c env i out a))"
proof (cases out)
  case (FinalText ft)
  have "R a (set_response_id c (ft_response_id ft) (upd_session (set_assistant_response i r)
      (broadcast_token_usage (accumulate_token_usage (ft_usage ft) a))))" for r
    by (rule R_trans [OF R_trans [OF R_usage R_respond] R_response_id])
  then show ?thesis using FinalText R_trans [OF _ R_end_turn] by (simp add: final_answer_def Let_def)
next
  case (TruncatedToolCall e)
  then show ?thesis using R_trans [OF R_respond R_end_turn] by (simp add: truncated_call_def)
next
  case (InferenceFailed e)
  then show ?thesis using R_trans [OF R_error R_finalize] by (simp add: inference_failed_def)
qed (simp_all add: R_tools R_refl)

lemma R_prepare: "R a (prepare_request c i tools effort a)"
proof -
  have "R a ((fst (build_system_content c a))\<lparr>ag_pending_hints := []\<rparr>)"
    by (rule R_trans [OF R_system_content R_pending])
  then have "R a (post c (Started r i n) ((fst (build_system_content c a))\<lparr>ag_pending_hints := []\<rparr>))" for r n
    by (rule R_compose) (simp add: R_post)
  then show ?thesis
    unfolding prepare_request_def Let_def case_prod_unfold by (rule R_trans [OF _ R_request])
qed

end

section \<open>Numbering\<close>

lemma session_edit_simps [simp]:
  "next_turn_id (update_tool_result i cid nm out s) = next_turn_id s"
  "next_turn_id (mark_unexecuted_tool_results i ex s) = next_turn_id s"
  "next_turn_id (add_displayed_image i img s) = next_turn_id s"
  "next_turn_id (set_assistant_response i r s) = next_turn_id s"
  "next_turn_id (seed_tool_results i calls descs s) = next_turn_id s"
  "next_turn_id (set_turn_error i e s) = next_turn_id s"
  by (simp_all add: update_tool_result_def mark_unexecuted_tool_results_def add_displayed_image_def
      set_assistant_response_def seed_tool_results_def set_turn_error_def upd_turn_def)

lemma send_cmd_fields [simp]:
  "ag_session (fst (send_cmd cmd a)) = ag_session a" "ag_db (fst (send_cmd cmd a)) = ag_db a"
  "ag_results (fst (send_cmd cmd a)) = ag_results a" "ag_requests (fst (send_cmd cmd a)) = ag_requests a"
  "ag_pending_hints (fst (send_cmd cmd a)) = ag_pending_hints a"
  "ag_prev (fst (send_cmd cmd a)) = ag_prev a"
  by (simp_all add: send_cmd_def case_prod_unfold)

lemma take_notes_fields [simp]:
  "ag_session (take_notes rs kh phs pv n a) = ag_session a" "ag_db (take_notes rs kh phs pv n a) = ag_db a"
  "ag_out (take_notes rs kh phs pv n a) = ag_out a" "ag_requests (take_notes rs kh phs pv n a) = ag_requests a"
  by (simp_all add: take_notes_def)

inductive_simps tool_edit_iff: "tool_edit s s'"

inductive_simps quiet_edit_iff: "quiet_edit s s'"

definition same_next :: "agent \<Rightarrow> agent \<Rightarrow> bool" where
  "same_next a b \<longleftrightarrow> next_turn_id (ag_session b) = next_turn_id (ag_session a)"

interpretation num: answer_steps c same_next for c
  by unfold_locales (auto simp: same_next_def tool_edit_iff quiet_edit_iff)

section \<open>The whole loop\<close>

locale agent_steps = answer_steps +
  assumes R_start: "next_turn_id (ag_session a) \<noteq> - 1 \<Longrightarrow>
      R a (a\<lparr>ag_session := fst (start_turn now txt (ag_session a))\<rparr>)"
begin

lemma R_agent_turn:
  assumes "next_turn_id (ag_session a) \<noteq> - 1"
  shows "R a (fst (agent_turn c prompt it env a))"
proof -
  let ?tid = "fst (snd (start_turn (ie_now env) (if it = 0 then prompt else None) (ag_session a)))"
  let ?a0 = "a\<lparr>ag_session := fst (start_turn (ie_now env) (if it = 0 then prompt else None) (ag_session a))\<rparr>"
  let ?a2 = "fst (send_cmd (StatusChanged Inference) (broadcast_turn_appended c ?tid ?a0))"
  have a2: "R a ?a2"
    by (rule R_trans [OF R_trans [OF R_start [OF assms] R_turn] R_send]) simp
  have "R a (fst (handle_outcome c env i out (stream_answer c evs (prepare_request c i tools eff ?a2))))"
    for i out evs tools eff
    by (rule R_trans [OF R_trans [OF R_trans [OF a2 R_prepare] R_stream] R_outcome])
  then show ?thesis
    using a2 unfolding agent_turn_def Let_def case_prod_unfold by (simp add: R_refl)
qed

end

lemma agent_turn_next:
  assumes "agent_turn c prompt it env a = (a', None)"
  shows "next_turn_id (ag_session a') = next_turn_id (ag_session a) + 1"
proof -
  let ?st = "start_turn (ie_now env) (if it = 0 then prompt else None) (ag_session a)"
  let ?a2 = "fst (send_cmd (StatusChanged Inference)
      (broadcast_turn_appended c (fst (snd ?st)) (a\<lparr>ag_session := fst ?st\<rparr>)))"
  from assms have "\<exists>i out evs tools eff. a' = fst (handle_outcome c env i out (stream_answer c evs (prepare_request c i tools eff ?a2)))"
    unfolding agent_turn_def Let_def case_prod_unfold
    by (auto split: if_splits) (metis fst_conv)+
  then have "same_next ?a2 a'"
    using num.R_trans [OF num.R_trans [OF num.R_prepare num.R_stream] num.R_outcome] by metis
  moreover have "same_next (a\<lparr>ag_session := fst ?st\<rparr>) ?a2"
    by (rule num.R_trans [OF num.R_turn num.R_send]) simp
  ultimately show ?thesis by (simp add: same_next_def start_turn_def Let_def)
qed

context agent_steps
begin

lemma R_loop:
  assumes "agent_loop fuel c prompt env k it a = Some (a', r)"
    and "unat (next_turn_id (ag_session a)) + fuel < 2 ^ 32"
  shows "R a a'"
  using assms
proof (induction fuel arbitrary: k it a)
  case (Suc fuel)
  have room: "next_turn_id (ag_session a) \<noteq> - 1"
    using Suc.prems(2) by (auto simp: unsigned_minus_1_eq_mask mask_eq_exp_minus_1)
  note turn = R_agent_turn [OF room, of prompt it "env k"]
  show ?case
  proof (cases "agent_turn c prompt it (env k) a")
    case (Pair a1 res)
    show ?thesis
    proof (cases res)
      case None
      from agent_turn_next Pair None have nx: "next_turn_id (ag_session a1) = next_turn_id (ag_session a) + 1" by blast
      have "unat (next_turn_id (ag_session a) + 1) = Suc (unat (next_turn_id (ag_session a)))"
        using room unatSuc [of "next_turn_id (ag_session a)"] by (simp add: eq_neg_iff_add_eq_0 add.commute)
      then have "0 < ac_max_turns c \<and> ac_max_turns c \<le> it \<or> R a1 a'"
        using Suc.IH [of "k + 1" "it + 1" a1] Suc.prems Pair None nx by (auto split: if_splits)
      then show ?thesis using Suc.prems(1) turn Pair R_trans by (auto simp: R_refl split: if_splits)
    next
      case (Some r1)
      then show ?thesis using Suc.prems(1) turn Pair by (auto simp: R_refl split: if_splits)
    qed
  qed
qed simp

end

end
