(* ===== verification/Agent_Theorems.thy ===== *)
theory Agent_Theorems
  imports Agent_Steps Session_Theorems
begin

text \<open>
  Properties of the agent loop: a run of it is a run of a worker of the session system, it
  sends only messages that clients may see, it writes only turns of its own session, every
  request it makes obeys the tool protocol, every tool call is answered, the results return
  to the provider in call order, and a limited loop ends.
\<close>

section \<open>Edits, messages, rows\<close>

definition edits :: "agent \<Rightarrow> agent \<Rightarrow> bool" where
  "edits a b \<longleftrightarrow> worker_edit\<^sup>*\<^sup>* (ag_session a) (ag_session b)"

lemma tool_edit_worker_edit: "tool_edit s s' \<Longrightarrow> worker_edit s s'"
  by (auto simp: tool_edit_iff intro: worker_edit.intros)

lemma quiet_edit_worker_edit: "quiet_edit s s' \<Longrightarrow> worker_edit s s'"
  by (auto simp: quiet_edit_iff intro: worker_edit.intros)

interpretation edit: agent_steps c edits for c
proof unfold_locales
  show "edits a b \<Longrightarrow> edits b d \<Longrightarrow> edits a d" for a b d by (auto simp: edits_def)
qed (auto simp: edits_def intro: r_into_rtranclp tool_edit_worker_edit quiet_edit_worker_edit worker_edit.intros)

definition sends :: "agent_ctx \<Rightarrow> agent \<Rightarrow> agent \<Rightarrow> bool" where
  "sends c a b \<longleftrightarrow>
     (\<exists>cmds. ob_sent (ag_out b) = ob_sent (ag_out a) @ cmds \<and> list_all (worker_message c) cmds)"

lemma sends_refl: "ag_out b = ag_out a \<Longrightarrow> sends c a b"
  by (simp add: sends_def)

lemma sends_send: "worker_message c cmd \<Longrightarrow> sends c a (fst (send_cmd cmd a))"
  by (auto simp: sends_def send_cmd_def ob_send_def split: option.splits nat.splits)

interpretation out: agent_steps c "sends c" for c
proof unfold_locales
  show "sends c a b \<Longrightarrow> sends c b d \<Longrightarrow> sends c a d" for a b d
    unfolding sends_def by fastforce
qed (auto intro: sends_refl sends_send)

definition own_rows :: "agent_ctx \<Rightarrow> agent \<Rightarrow> agent \<Rightarrow> bool" where
  "own_rows c a b \<longleftrightarrow> db_sessions (ag_db b) = db_sessions (ag_db a)
     \<and> db_tombstones (ag_db b) = db_tombstones (ag_db a)
     \<and> (\<forall>sid i. sid \<noteq> ac_session_id c \<longrightarrow> db_turns (ag_db b) (sid, i) = db_turns (ag_db a) (sid, i))"

lemma finalize_own_rows: "own_rows c a (a\<lparr>ag_db := fst (finalize_turn (ac_session_id c) i s (ag_db a))\<rparr>)"
proof -
  have "db_tombstones (fst (write_turn_retry sid i t d)) = db_tombstones d" for sid t d
    by (auto simp: write_turn_retry_def retry_write_effect Let_def put_turn_def)
  then show ?thesis
    by (auto simp: own_rows_def finalize_turn_def write_turn_retry_db split: option.splits)
qed

interpretation rows: agent_steps c "own_rows c" for c
proof unfold_locales
  show "own_rows c a (a\<lparr>ag_db := fst (finalize_turn (ac_session_id c) i (ag_session a) (ag_db a))\<rparr>)" for a i
    by (rule finalize_own_rows)
qed (auto simp: own_rows_def)

lemma agent_start_edit: "worker_edit s (ag_session (agent_start c s d ob))"
proof -
  have "s\<lparr>discovered_skills := x\<rparr> = s\<lparr>loaded_skill_bodies := loaded_skill_bodies s,
      context_cache := context_cache s, discovered_skills := x\<rparr>" for x
    by (cases s) simp
  then have e: "worker_edit s (s\<lparr>discovered_skills := x\<rparr>)" for x by (metis edit_skills)
  moreover have "s\<lparr>discovered_skills := discovered_skills s\<rparr> = s" by simp
  ultimately have "worker_edit s s" by metis
  with e show ?thesis unfolding agent_start_def Let_def by (simp split: option.splits)
qed

lemma agent_start_fields [simp]:
  "next_turn_id (ag_session (agent_start c s d ob)) = next_turn_id s"
  "turns (ag_session (agent_start c s d ob)) = turns s"
  "ag_db (agent_start c s d ob) = d" "ag_out (agent_start c s d ob) = ob"
  "ag_requests (agent_start c s d ob) = []" "ag_results (agent_start c s d ob) = []"
  by (auto simp: agent_start_def Let_def split: option.splits)

text \<open>
  C4. The loop is a worker. Replacing the running worker of a reachable system by the state
  in which its loop returns gives a reachable system again: everything proved about workers
  and the session thread holds for this loop.
\<close>

theorem agent_run_is_worker_run:
  assumes "reachable sys_init sys_step y" and "sy_running y = r1 @ (wk, s) # r2"
    and "run_agent_loop fuel c prompt env s d ob = Some (a, res)"
    and "unat (next_turn_id s) + fuel < 2 ^ 32"
  shows "reachable sys_init sys_step (y\<lparr>sy_running := r1 @ (wk, ag_session a) # r2\<rparr>)"
proof -
  have "edits (agent_start c s d ob) a"
    using assms(3,4) edit.R_loop [of fuel c prompt env 0 0 "agent_start c s d ob" a res]
    by (simp add: run_agent_loop_def)
  then have "worker_edit\<^sup>*\<^sup>* s (ag_session a)"
    using agent_start_edit [of s c d ob] by (simp add: edits_def)
  then show ?thesis
  proof (induction rule: rtranclp_induct)
    case base
    have "y\<lparr>sy_running := r1 @ (wk, s) # r2\<rparr> = y" using assms(2) by (cases y) simp
    then show ?case using assms(1) by simp
  next
    case (step s1 s2)
    let ?y = "y\<lparr>sy_running := r1 @ (wk, s1) # r2\<rparr>"
    have "sys_step ?y (?y\<lparr>sy_running := r1 @ (wk, s2) # r2\<rparr>)"
      by (rule sys_edit [OF _ step.hyps(2)]) simp
    from reachable_step [OF step.IH this] show ?case by simp
  qed
qed

text \<open>
  C7. What the loop lets out. While it runs, it only reports its status, its token usage and
  broadcasts of its own session that carry no reasoning artifact, producer or tool image, so
  each of its commands satisfies what the session thread demands of forwarded broadcasts;
  and it changes no row of another session, no session record and no tombstone.
\<close>

theorem agent_output_confined:
  assumes "run_agent_loop fuel c prompt env s d ob = Some (a, res)"
    and "unat (next_turn_id s) + fuel < 2 ^ 32"
  shows "(\<exists>cmds. ob_sent (ag_out a) = ob_sent ob @ cmds
           \<and> (\<forall>cmd \<in> set cmds. worker_message c cmd \<and> (\<forall>K. command_ok K cmd)))
    \<and> db_sessions (ag_db a) = db_sessions d \<and> db_tombstones (ag_db a) = db_tombstones d
    \<and> (\<forall>sid i. sid \<noteq> ac_session_id c \<longrightarrow> db_turns (ag_db a) (sid, i) = db_turns d (sid, i))"
proof -
  have ok: "worker_message c cmd \<Longrightarrow> command_ok K cmd" for cmd K
    by (induction c cmd rule: worker_message.induct) simp_all
  have "sends c (agent_start c s d ob) a" and "own_rows c (agent_start c s d ob) a"
    using assms out.R_loop [of fuel c prompt env 0 0 "agent_start c s d ob" a res]
      rows.R_loop [of fuel c prompt env 0 0 "agent_start c s d ob" a res]
    by (simp_all add: run_agent_loop_def)
  then show ?thesis
    by (auto simp: sends_def own_rows_def list_all_iff ok)
qed

section \<open>The conversation\<close>

definition matched :: "(u32, turn) btmap \<Rightarrow> bool" where
  "matched ts \<longleftrightarrow> bt_wf ts \<and> (\<forall>i t. map_of ts i = Some t \<longrightarrow> \<not> undone t \<longrightarrow> results_match t)"

definition blank_turn :: "u32 \<Rightarrow> (u32, turn) btmap \<Rightarrow> bool" where
  "blank_turn i ts \<longleftrightarrow> (\<forall>t. map_of ts i = Some t \<longrightarrow> tool_calls t = [] \<and> tool_results t = [])"

lemma matched_upd:
  assumes "matched ts" and "\<And>t. map_of ts i = Some t \<Longrightarrow> (\<not> undone t \<Longrightarrow> results_match t) \<Longrightarrow>
      \<not> undone (f t) \<Longrightarrow> results_match (f t)"
  shows "matched (map_at i f ts)"
  using assms by (auto simp: matched_def)

lemma matched_protocol:
  "matched (turns s) \<Longrightarrow> tool_protocol [] (build_chat_request_messages caps s prompt slug model)"
  by (rule request_protocol) (auto simp: matched_def bt_wf_def strict_sorted_iff)

lemma upd_first_ids:
  "(\<And>r. tr_call_id (f r) = tr_call_id r) \<Longrightarrow> map tr_call_id (upd_first P f rs) = map tr_call_id rs"
  by (induction rs) auto

lemma tool_edit_turns:
  assumes "tool_edit s s'"
  obtains i f where "turns s' = map_at i f (turns s)"
    "\<And>t. tool_calls (f t) = tool_calls t" "\<And>t. undone (f t) = undone t"
    "\<And>t. map tr_call_id (tool_results (f t)) = map tr_call_id (tool_results t)"
  using assms
proof cases
  case (te_result i cid nm out)
  show thesis
    by (rule that [of i "\<lambda>t. t\<lparr>tool_results :=
       upd_first (\<lambda>r. tr_call_id r = cid)
         (\<lambda>r. r\<lparr>tr_name := nm, tr_content := out_content out, tr_is_error := out_is_error out,
                tr_invocation_description := out_invocation_description out,
                tr_image := out_image_ref out\<rparr>) (tool_results t)\<rparr>"])
       (simp_all add: te_result update_tool_result_def upd_turn_def upd_first_ids)
next
  case (te_mark i ex)
  show thesis
    by (rule that [of i "\<lambda>t. t\<lparr>tool_results :=
       map (\<lambda>r. if tr_call_id r \<notin> set ex
                then r\<lparr>tr_content := CANCELLED_MARK, tr_is_error := True\<rparr> else r)
         (tool_results t)\<rparr>"])
       (simp_all add: te_mark mark_unexecuted_tool_results_def upd_turn_def)
next
  case (te_image i img)
  show thesis
    by (rule that [of i "\<lambda>t. t\<lparr>displayed_images := displayed_images t @ [img]\<rparr>"])
       (simp_all add: te_image add_displayed_image_def upd_turn_def)
qed

lemma tool_edit_matched: "tool_edit s s' \<Longrightarrow> matched (turns s) \<Longrightarrow> matched (turns s')"
  by (erule tool_edit_turns) (auto simp: results_match_def intro!: matched_upd)

lemma quiet_edit_turns: "quiet_edit s s' \<Longrightarrow> turns s' = turns s"
  by (auto simp: quiet_edit_iff)

definition same_turns :: "agent \<Rightarrow> agent \<Rightarrow> bool" where
  "same_turns a b \<longleftrightarrow> turns (ag_session b) = turns (ag_session a) \<and> ag_requests b = ag_requests a"

interpretation calm: send_steps c same_turns for c
  by unfold_locales (auto simp: same_turns_def quiet_edit_turns)

definition stays_matched :: "agent \<Rightarrow> agent \<Rightarrow> bool" where
  "stays_matched a b \<longleftrightarrow> ag_requests b = ag_requests a
     \<and> (matched (turns (ag_session a)) \<longrightarrow> matched (turns (ag_session b)))"

interpretation tools: tool_steps c stays_matched for c
  by unfold_locales (auto simp: stays_matched_def tool_edit_matched quiet_edit_turns)

lemma open_tool_turn_turns:
  "turns (ag_session (open_tool_turn c i tu a)) = map_at i (\<lambda>t. t
     \<lparr>assistant_text := tu_content tu, assistant_reasoning := tu_reasoning tu,
      tool_calls := map call_record (tu_calls tu), turn_token_usage := tu_usage tu,
      turn_reasoning_artifact := tu_artifact tu, turn_reasoning_producer := Some (producer_of c),
      tool_results := map (\<lambda>tc. placeholder (call_record tc) (description_by_call c (tu_calls tu) (ct_id tc)))
        (tu_calls tu)\<rparr>) (turns (ag_session a))"
  "ag_requests (open_tool_turn c i tu a) = ag_requests a"
proof -
  let ?u = "broadcast_token_usage (accumulate_token_usage (tu_usage tu) a)"
  have u: "same_turns a ?u" by (rule calm.R_usage)
  have b: "same_turns x (broadcast_turn_appended c i x)" for x by (rule calm.R_turn)
  show "ag_requests (open_tool_turn c i tu a) = ag_requests a"
    using u b by (simp add: open_tool_turn_def Let_def set_response_id_def same_turns_def)
  show "turns (ag_session (open_tool_turn c i tu a)) = map_at i (\<lambda>t. t
     \<lparr>assistant_text := tu_content tu, assistant_reasoning := tu_reasoning tu,
      tool_calls := map call_record (tu_calls tu), turn_token_usage := tu_usage tu,
      turn_reasoning_artifact := tu_artifact tu, turn_reasoning_producer := Some (producer_of c),
      tool_results := map (\<lambda>tc. placeholder (call_record tc) (description_by_call c (tu_calls tu) (ct_id tc)))
        (tu_calls tu)\<rparr>) (turns (ag_session a))"
    using u b
    by (simp add: open_tool_turn_def Let_def set_response_id_def same_turns_def set_assistant_response_def
        seed_tool_results_def upd_turn_def map_at_def zip_map_map zip_same_conv_map call_record_def
        case_prod_unfold)
qed

lemma open_tool_turn_matched: "stays_matched a (open_tool_turn c i tu a)"
  by (auto simp: stays_matched_def open_tool_turn_turns results_match_def placeholder_def intro!: matched_upd)

lemma same_turns_upd [simp]:
  "same_turns a (b\<lparr>ag_db := d\<rparr>) = same_turns a b" "same_turns a (b\<lparr>ag_results := rs\<rparr>) = same_turns a b"
  by (simp_all add: same_turns_def)

lemma finalize_same_turns: "same_turns a (fst (finalize_and_broadcast_turn c i a))"
  using calm.R_turn [of "a\<lparr>ag_db := d\<rparr>" c i for d]
  by (simp add: finalize_and_broadcast_turn_def Let_def case_prod_unfold same_turns_def)

lemma end_turn_same_turns: "same_turns a (fst (end_turn c i a))"
  using finalize_same_turns [of a c i] by (auto simp: end_turn_def split: prod.splits bool.splits)

lemma answered_matched:
  assumes "matched (turns (ag_session a))" and "blank_turn i (turns (ag_session a))"
    and "resp_tool_calls r = []"
  shows "matched (turns (set_assistant_response i r (ag_session a)))"
  using assms by (auto simp: set_assistant_response_def upd_turn_def blank_turn_def results_match_def intro!: matched_upd)

lemma run_tools_matched: "stays_matched a (fst (run_tools c env i tu a))"
proof -
  let ?a1 = "open_tool_turn c i tu a"
  have s: "stays_matched a (fst (serial_phase c desc i base senv k calls ph ?a1))" for desc base senv k calls ph
    by (rule tools.R_trans [OF open_tool_turn_matched tools.R_serial_phase])
  have co: "stays_matched a b \<Longrightarrow> stays_matched a (fst (concurrent_phase c desc i recs wakes calls ph b))"
    for desc recs wakes calls ph b by (rule tools.R_trans [OF _ tools.R_concurrent])
  have cl: "stays_matched a b \<Longrightarrow> stays_matched a (fst (close_tool_turn c i ph b))" for ph b
    by (rule tools.R_trans [OF _ tools.R_close])
  show ?thesis
    unfolding run_tools_def Let_def by (auto split: prod.split option.split) (metis s co cl fst_conv)+
qed

lemma outcome_matched:
  assumes "matched (turns (ag_session a))" and "blank_turn i (turns (ag_session a))"
  shows "matched (turns (ag_session (fst (handle_outcome c env i out a))))
    \<and> ag_requests (fst (handle_outcome c env i out a)) = ag_requests a"
proof (cases out)
  case (FinalText ft)
  let ?a1 = "broadcast_token_usage (accumulate_token_usage (ft_usage ft) a)"
  have u: "same_turns a ?a1" by (rule calm.R_usage)
  then have "matched (turns (set_assistant_response i r (ag_session ?a1)))" if "resp_tool_calls r = []" for r
    using assms that by (intro answered_matched) (simp_all add: same_turns_def)
  then show ?thesis
    using FinalText u end_turn_same_turns
    by (simp add: final_answer_def Let_def same_turns_def set_response_id_def plain_response_def)
next
  case (ToolUse tu)
  then show ?thesis using run_tools_matched [of a c env i tu] assms by (simp add: stays_matched_def)
next
  case (TruncatedToolCall e)
  then show ?thesis
    using answered_matched [OF assms] end_turn_same_turns
    by (simp add: truncated_call_def same_turns_def plain_response_def)
next
  case (InferenceFailed e)
  have "matched (turns (set_turn_error i e (ag_session a)))"
    using assms(1) by (auto simp: set_turn_error_def upd_turn_def results_match_def intro!: matched_upd)
  then show ?thesis
    using InferenceFailed finalize_same_turns by (simp add: inference_failed_def same_turns_def)
qed (use assms in simp_all)

definition requests_fine :: "agent \<Rightarrow> bool" where
  "requests_fine a \<longleftrightarrow> matched (turns (ag_session a))
     \<and> (\<forall>q \<in> set (ag_requests a). tool_protocol [] (cr_messages q))"

lemma prepare_request_turns:
  "turns (ag_session (prepare_request c i tools eff a)) = turns (ag_session a)"
  "\<exists>s sys q. turns s = turns (ag_session a)
     \<and> cr_messages q = build_chat_request_messages (ac_caps c) s sys (ac_slug c) (ac_model c)
     \<and> ag_requests (prepare_request c i tools eff a) = ag_requests a @ [q]"
proof -
  have b: "same_turns a (fst (build_system_content c a))" by (rule calm.R_system_content)
  then show "turns (ag_session (prepare_request c i tools eff a)) = turns (ag_session a)"
    by (simp add: prepare_request_def Let_def case_prod_unfold same_turns_def post_def)
  let ?s = "ag_session (fst (build_system_content c a))"
  show "\<exists>s sys q. turns s = turns (ag_session a)
     \<and> cr_messages q = build_chat_request_messages (ac_caps c) s sys (ac_slug c) (ac_model c)
     \<and> ag_requests (prepare_request c i tools eff a) = ag_requests a @ [q]"
    using b
    by (intro exI [of _ ?s] exI [of _ "snd (build_system_content c a)"])
       (simp add: prepare_request_def Let_def case_prod_unfold same_turns_def post_def)
qed

lemma agent_turn_fine:
  assumes "requests_fine a"
  shows "requests_fine (fst (agent_turn c prompt it env a))"
proof -
  let ?st = "start_turn (ie_now env) (if it = 0 then prompt else None) (ag_session a)"
  let ?i = "fst (snd ?st)"
  let ?a0 = "a\<lparr>ag_session := fst ?st\<rparr>"
  let ?a2 = "fst (send_cmd (StatusChanged Inference) (broadcast_turn_appended c ?i ?a0))"
  have "same_turns ?a0 ?a2" by (rule calm.R_trans [OF calm.R_turn calm.R_send]) simp
  then have t2: "turns (ag_session ?a2) = bt_insert ?i (snd (snd ?st)) (turns (ag_session a))"
    and r2: "ag_requests ?a2 = ag_requests a"
    by (auto simp: same_turns_def start_turn_def Let_def)
  have m2: "matched (turns (ag_session ?a2))" and bl2: "blank_turn ?i (turns (ag_session ?a2))"
    using assms unfolding t2
    by (auto simp: requests_fine_def matched_def blank_turn_def bt_wf_insert results_match_def start_turn_def
        Let_def new_turn_def split: if_splits)
  have fine2: "requests_fine ?a2" using assms m2 r2 by (simp add: requests_fine_def)
  have "requests_fine (fst (handle_outcome c env ?i out (stream_answer c evs (prepare_request c ?i tools eff ?a2))))"
    for out evs tools eff
  proof -
    let ?a3 = "prepare_request c ?i tools eff ?a2"
    let ?a4 = "stream_answer c evs ?a3"
    have "\<forall>q \<in> set (ag_requests ?a3). tool_protocol [] (cr_messages q)"
      using prepare_request_turns(2) [of ?a2 c ?i tools eff] fine2 m2 matched_protocol
      by (fastforce simp: requests_fine_def)
    moreover have "same_turns ?a3 ?a4" by (rule calm.R_stream)
    ultimately show ?thesis
      using outcome_matched [of ?a4 ?i c env out] m2 bl2
      by (simp add: requests_fine_def same_turns_def prepare_request_turns(1))
  qed
  then show ?thesis
    using assms fine2 unfolding agent_turn_def Let_def case_prod_unfold by simp
qed

lemma agent_loop_fine:
  "agent_loop fuel c prompt env k it a = Some (a', r) \<Longrightarrow> requests_fine a \<Longrightarrow> requests_fine a'"
proof (induction fuel arbitrary: k it a)
  case (Suc fuel)
  then show ?case
    using agent_turn_fine [of a c prompt it "env k"] by (auto split: if_splits prod.splits option.splits)
qed simp

text \<open>
  C5. Every request of a run obeys the tool protocol. If the worker's copy starts with one
  result per call in every visible turn, then so does the message list of every request the
  loop sends, whatever the tools and the user do, and the copy it hands back again has one
  result per call in every visible turn.
\<close>

theorem every_request_obeys_protocol:
  assumes "bt_wf (turns s)"
    and "\<And>i t. map_of (turns s) i = Some t \<Longrightarrow> \<not> undone t \<Longrightarrow> results_match t"
    and "run_agent_loop fuel c prompt env s d ob = Some (a, res)"
  shows "(\<forall>q \<in> set (ag_requests a). tool_protocol [] (cr_messages q))
    \<and> (\<forall>i t. map_of (turns (ag_session a)) i = Some t \<longrightarrow> \<not> undone t \<longrightarrow> results_match t)"
proof -
  have "requests_fine (agent_start c s d ob)"
    using assms(1,2) by (simp add: requests_fine_def matched_def)
  with assms(3) have "requests_fine a"
    unfolding run_agent_loop_def by (rule agent_loop_fine)
  then show ?thesis by (simp add: requests_fine_def matched_def)
qed

section \<open>The limit\<close>

lemma outcome_requests: "ag_requests (fst (handle_outcome c env i out a)) = ag_requests a"
proof (cases out)
  case (FinalText ft)
  then show ?thesis
    using calm.R_usage [of a "ft_usage ft"] end_turn_same_turns
    by (simp add: final_answer_def Let_def same_turns_def set_response_id_def)
next
  case (ToolUse tu)
  then show ?thesis using run_tools_matched [of a c env i tu] by (simp add: stays_matched_def)
next
  case (TruncatedToolCall e)
  then show ?thesis using end_turn_same_turns by (simp add: truncated_call_def same_turns_def)
next
  case (InferenceFailed e)
  then show ?thesis using finalize_same_turns by (simp add: inference_failed_def same_turns_def)
qed simp_all

lemma agent_turn_requests: "length (ag_requests (fst (agent_turn c prompt it env a))) \<le> Suc (length (ag_requests a))"
proof -
  let ?st = "start_turn (ie_now env) (if it = 0 then prompt else None) (ag_session a)"
  let ?a2 = "fst (send_cmd (StatusChanged Inference)
      (broadcast_turn_appended c (fst (snd ?st)) (a\<lparr>ag_session := fst ?st\<rparr>)))"
  have r2: "ag_requests ?a2 = ag_requests a"
    using calm.R_turn [of "a\<lparr>ag_session := fst ?st\<rparr>" c "fst (snd ?st)"] by (simp add: same_turns_def)
  have "length (ag_requests (fst (handle_outcome c env i out (stream_answer c evs (prepare_request c i tools eff ?a2)))))
      = Suc (length (ag_requests a))" for i out evs tools eff
    using prepare_request_turns(2) [of ?a2 c i tools eff] calm.R_stream [of "prepare_request c i tools eff ?a2" c evs] r2
    by (auto simp: outcome_requests same_turns_def)
  then show ?thesis using r2 unfolding agent_turn_def Let_def case_prod_unfold by simp
qed

lemma limited_ends:
  assumes "0 < ac_max_turns c" and "it \<le> ac_max_turns c"
  shows "\<exists>a' r. (\<forall>fuel. unat (ac_max_turns c) - unat it < fuel \<longrightarrow> agent_loop fuel c prompt env k it a = Some (a', r))
    \<and> length (ag_requests a') \<le> length (ag_requests a) + (unat (ac_max_turns c) - unat it)"
  using assms(2)
proof (induction "unat (ac_max_turns c) - unat it" arbitrary: k it a)
  case 0
  then have "ac_max_turns c \<le> it" by (simp add: word_le_nat_alt)
  then have "agent_loop fuel c prompt env k it a = Some (a, LoopErr (limit_error c))" if "0 < fuel" for fuel
    using assms(1) that by (cases fuel) simp_all
  then show ?case using 0 by (intro exI [of _ a] exI [of _ "LoopErr (limit_error c)"]) simp
next
  case (Suc n)
  then have lt: "it < ac_max_turns c" by (simp add: word_less_nat_alt word_le_nat_alt)
  then have nl: "\<not> ac_max_turns c \<le> it" by simp
  have "it \<noteq> - 1" using lt word_order.extremum [of "ac_max_turns c"] by auto
  then have u: "unat (it + 1) = Suc (unat it)"
    using unatSuc [of it] by (simp add: eq_neg_iff_add_eq_0 add.commute)
  obtain a1 res where t: "agent_turn c prompt it (env k) a = (a1, res)" by (metis surj_pair)
  have len: "length (ag_requests a1) \<le> Suc (length (ag_requests a))"
    using agent_turn_requests [of c prompt it "env k" a] t by simp
  show ?case
  proof (cases res)
    case (Some r)
    have "agent_loop fuel c prompt env k it a = Some (a1, r)" if "0 < fuel" for fuel
      using that t Some nl by (cases fuel) simp_all
    then show ?thesis using len Suc.hyps(2) by (intro exI [of _ a1] exI [of _ r]) auto
  next
    case None
    have "n = unat (ac_max_turns c) - unat (it + 1)" and "it + 1 \<le> ac_max_turns c"
      using Suc.hyps(2) u lt by (simp_all add: word_le_nat_alt word_less_nat_alt)
    from Suc.hyps(1) [OF this, of "k + 1" a1] obtain a' r where
      IH: "\<And>fuel. unat (ac_max_turns c) - unat (it + 1) < fuel \<Longrightarrow> agent_loop fuel c prompt env (k + 1) (it + 1) a1 = Some (a', r)"
      "length (ag_requests a') \<le> length (ag_requests a1) + (unat (ac_max_turns c) - unat (it + 1))" by blast
    have "agent_loop fuel c prompt env k it a = Some (a', r)" if "unat (ac_max_turns c) - unat it < fuel" for fuel
      using that t None nl IH(1) u Suc.hyps(2) by (cases fuel) simp_all
    then show ?thesis using len IH(2) u Suc.hyps(2) by (intro exI [of _ a'] exI [of _ r]) auto
  qed
qed

text \<open>
  C6. A limited loop ends. With a limit of n iterations the loop returns whatever the model,
  the tools and the user do: n + 1 rounds of the model are enough and more change nothing, and
  at most n requests reach the provider.
\<close>

theorem limited_loop_ends:
  assumes "0 < ac_max_turns c"
  shows "\<exists>a res. (\<forall>fuel > unat (ac_max_turns c). run_agent_loop fuel c prompt env s d ob = Some (a, res))
    \<and> length (ag_requests a) \<le> unat (ac_max_turns c)"
  using limited_ends [OF assms, of 0 prompt env 0 "agent_start c s d ob"]
  by (simp add: run_agent_loop_def)

section \<open>Failed inference\<close>

definition same_db :: "agent \<Rightarrow> agent \<Rightarrow> bool" where
  "same_db a b \<longleftrightarrow> ag_db b = ag_db a"

interpretation dbs: send_steps c same_db for c
  by unfold_locales (simp_all add: same_db_def)

definition listening :: "agent \<Rightarrow> agent \<Rightarrow> bool" where
  "listening a b \<longleftrightarrow> (ob_left (ag_out a) = None \<longrightarrow> ob_left (ag_out b) = None)"

interpretation live: answer_steps c listening for c
proof unfold_locales
  show "listening a (fst (send_cmd cmd a))" for cmd a
    by (auto simp: listening_def send_cmd_def ob_send_def split: option.splits nat.splits)
qed (auto simp: listening_def)

lemma failed_turn:
  assumes "map_of (turns (ag_session a)) i = Some t0" and "ob_left (ag_out a) = None"
    and "inference_failed c i e a = (b, r)"
  shows "r = Some (LoopErr e) \<and> map_of (turns (ag_session b)) i = Some (t0\<lparr>turn_error := Some e\<rparr>)
    \<and> (write_lands (ag_db a) \<longrightarrow> db_turns (ag_db b) (ac_session_id c, i) = Some (t0\<lparr>turn_error := Some e\<rparr>)
        \<and> last (ob_sent (ag_out b)) =
            BroadcastMsg (Session (Some (ac_session_id c)) (TurnAppended i (turn_for_client (t0\<lparr>turn_error := Some e\<rparr>)))))"
proof -
  let ?t = "t0\<lparr>turn_error := Some e\<rparr>"
  let ?a1 = "upd_session (set_turn_error i e) a"
  let ?d = "fst (write_turn_retry (ac_session_id c) i ?t (ag_db a))"
  have t: "map_of (turns (ag_session ?a1)) i = Some ?t"
    using assms(1) by (simp add: set_turn_error_def upd_turn_def)
  have b: "b = (if write_lands (ag_db a) then broadcast_turn_appended c i (?a1\<lparr>ag_db := ?d\<rparr>) else ?a1\<lparr>ag_db := ?d\<rparr>)"
    and r: "r = Some (LoopErr e)"
    using assms(3) t
    by (auto simp: inference_failed_def finalize_and_broadcast_turn_def finalize_turn_def Let_def case_prod_unfold
        write_turn_retry_db(3))
  have "broadcast_turn_appended c i (?a1\<lparr>ag_db := ?d\<rparr>) = post c (TurnAppended i (turn_for_client ?t)) (?a1\<lparr>ag_db := ?d\<rparr>)"
    using t by (simp add: broadcast_turn_appended_def)
  then show ?thesis
    using b r t assms(2) by (auto simp: post_def send_cmd_def ob_send_def write_turn_retry_db)
qed

text \<open>
  C8. A failed inference leaves its mark. If the provider fails and the session thread
  listens, the loop returns the error, the turn it opened holds the user's text and the error,
  and unless the write fails four times this very turn is in the database and the last thing
  the clients are sent.
\<close>

theorem failed_inference_recorded:
  assumes "\<not> ie_cancel env" and "ie_outcome env = InferenceFailed e" and "ob_left (ag_out a) = None"
    and "agent_turn c prompt it env a = (b, r)"
  shows "r = Some (LoopErr e)
    \<and> (\<exists>t. map_of (turns (ag_session b)) (next_turn_id (ag_session a)) = Some t
          \<and> turn_error t = Some e \<and> user_text t = (if it = 0 then prompt else None)
          \<and> (write_lands (ag_db a) \<longrightarrow>
               db_turns (ag_db b) (ac_session_id c, next_turn_id (ag_session a)) = Some t
               \<and> last (ob_sent (ag_out b)) = BroadcastMsg (Session (Some (ac_session_id c))
                    (TurnAppended (next_turn_id (ag_session a)) (turn_for_client t)))))"
proof -
  let ?txt = "if it = 0 then prompt else None"
  let ?i = "next_turn_id (ag_session a)"
  let ?st = "start_turn (ie_now env) ?txt (ag_session a)"
  let ?a0 = "a\<lparr>ag_session := fst ?st\<rparr>"
  let ?a1 = "broadcast_turn_appended c ?i ?a0"
  let ?a2 = "fst (send_cmd (StatusChanged Inference) ?a1)"
  have st: "snd ?st = (?i, new_turn (ie_now env) ?txt)"
    "map_of (turns (fst ?st)) ?i = Some (new_turn (ie_now env) ?txt)"
    by (auto simp: start_turn_def Let_def)
  have l1: "ob_left (ag_out ?a1) = None" using live.R_turn [of ?a0 c ?i] assms(3) by (simp add: listening_def)
  then have ok: "snd (send_cmd (StatusChanged Inference) ?a1)" by (simp add: send_cmd_def ob_send_def)
  have l2: "ob_left (ag_out ?a2) = None"
    using l1 by (simp add: send_cmd_def ob_send_def)
  define a4 where "a4 = stream_answer c (ie_stream env) (prepare_request c ?i
      (available_definitions c (cfg_active_tool_groups (config (ag_session a))))
      (resolve_reasoning_effort c (case cfg_reasoning_effort (config (ag_session a)) of Some e \<Rightarrow> e | None \<Rightarrow> ''off'')) ?a2)"
  have run: "inference_failed c ?i e a4 = (b, r)"
    using assms ok st(1) unfolding agent_turn_def Let_def case_prod_unfold a4_def by simp
  have prep: "same_db x (prepare_request c i tools eff x)" "listening x (prepare_request c i tools eff x)" for x i tools eff
    using dbs.R_system_content [of x c] live.R_system_content [of x c] live.R_post [of c "Started r i n" for r n]
    by (auto simp: prepare_request_def Let_def case_prod_unfold same_db_def listening_def post_def)
  have turns4: "turns (ag_session a4) = turns (fst ?st)"
    using calm.R_turn [of ?a0 c ?i] calm.R_stream [of "prepare_request c ?i tools eff ?a2" c "ie_stream env" for tools eff]
    by (simp add: a4_def same_turns_def prepare_request_turns(1))
  have db4: "ag_db a4 = ag_db a"
    using dbs.R_turn [of ?a0 c ?i] dbs.R_stream [of "prepare_request c ?i tools eff ?a2" c "ie_stream env" for tools eff] prep(1)
    by (simp add: a4_def same_db_def)
  have l4: "ob_left (ag_out a4) = None"
    using live.R_stream [of "prepare_request c ?i tools eff ?a2" c "ie_stream env" for tools eff] prep(2) l2
    by (simp add: a4_def listening_def)
  have "map_of (turns (ag_session a4)) ?i = Some (new_turn (ie_now env) ?txt)" using st(2) turns4 by simp
  from failed_turn [OF this l4 run] show ?thesis by (simp add: db4 new_turn_def)
qed

theorem failed_inference_recorded_witness:
  "snd (agent_turn demo_agent (Some ''go'') 0 (demo_env (InferenceFailed ''429''))
          (agent_start demo_agent session_state_empty demo_no_db demo_outbox)) = Some (LoopErr ''429'')"
proof -
  let ?a = "agent_start demo_agent session_state_empty demo_no_db demo_outbox"
  obtain b r where run: "agent_turn demo_agent (Some ''go'') 0 (demo_env (InferenceFailed ''429'')) ?a = (b, r)"
    by (metis surj_pair)
  have "ob_left (ag_out ?a) = None" by (simp add: demo_outbox_def)
  from failed_inference_recorded [OF _ _ this run, of "''429''"] run show ?thesis by (simp add: demo_env_def)
qed

lemma demo_run:
  "\<exists>a res. run_agent_loop 3 demo_agent prompt env s d ob = Some (a, res)"
proof -
  have "\<exists>a' r. (\<forall>fuel. unat (ac_max_turns demo_agent) - unat (0 :: u32) < fuel \<longrightarrow>
      agent_loop fuel demo_agent prompt env 0 0 (agent_start demo_agent s d ob) = Some (a', r))
    \<and> length (ag_requests a') \<le> length (ag_requests (agent_start demo_agent s d ob))
        + (unat (ac_max_turns demo_agent) - unat (0 :: u32))"
    by (rule limited_ends) (simp_all add: demo_agent_def)
  then show ?thesis unfolding run_agent_loop_def by (auto simp: demo_agent_def)
qed

theorem agent_run_is_worker_run_witness:
  "\<exists>a res. run_agent_loop 3 demo_agent (Some ''go'') demo_script (w_session demo_worker) demo_no_db demo_outbox = Some (a, res)
    \<and> reachable sys_init sys_step (demo_busy_sys\<lparr>sy_running := [(demo_worker, ag_session a)]\<rparr>)"
proof -
  obtain a res where run: "run_agent_loop 3 demo_agent (Some ''go'') demo_script (w_session demo_worker) demo_no_db demo_outbox
      = Some (a, res)" using demo_run by blast
  have "sy_running demo_busy_sys = [] @ (demo_worker, w_session demo_worker) # []" by (simp add: demo_busy_sys_def)
  moreover have "unat (next_turn_id (w_session demo_worker)) + 3 < 2 ^ 32"
    by (simp add: demo_worker_def request_worker_def from_snapshot_def snapshot_def demo_start_simps)
  ultimately have "reachable sys_init sys_step (demo_busy_sys\<lparr>sy_running := [] @ (demo_worker, ag_session a) # []\<rparr>)"
    by (rule agent_run_is_worker_run [OF demo_busy_reachable _ run])
  with run show ?thesis by auto
qed

theorem agent_output_confined_witness:
  "\<exists>a res. run_agent_loop 3 demo_agent (Some ''go'') demo_script session_state_empty demo_no_db demo_outbox = Some (a, res)
    \<and> (\<forall>cmd \<in> set (ob_sent (ag_out a)). worker_message demo_agent cmd)"
proof -
  obtain a res where run: "run_agent_loop 3 demo_agent (Some ''go'') demo_script session_state_empty demo_no_db demo_outbox
      = Some (a, res)" using demo_run by blast
  from agent_output_confined [OF run] run show ?thesis
    by (auto simp: session_state_empty_def demo_outbox_def)
qed

theorem every_request_obeys_protocol_witness:
  "\<exists>a res. run_agent_loop 3 demo_agent None demo_script demo_tool_session demo_no_db demo_outbox = Some (a, res)
    \<and> (\<forall>q \<in> set (ag_requests a). tool_protocol [] (cr_messages q))"
proof -
  obtain a res where run: "run_agent_loop 3 demo_agent None demo_script demo_tool_session demo_no_db demo_outbox = Some (a, res)"
    using demo_run by blast
  have wf: "bt_wf (turns demo_tool_session)" by (simp add: demo_tool_session_def bt_wf_Cons)
  have "\<And>i t. map_of (turns demo_tool_session) i = Some t \<Longrightarrow> \<not> undone t \<Longrightarrow> results_match t"
    by (simp add: demo_tool_session_def demo_tool_turn_def results_match_def split: if_splits) auto
  then have "\<forall>q \<in> set (ag_requests a). tool_protocol [] (cr_messages q)"
    using every_request_obeys_protocol [OF wf _ run] by blast
  with run show ?thesis by blast
qed

theorem limited_loop_ends_witness:
  "\<exists>a res. run_agent_loop 3 demo_agent (Some ''go'') demo_script session_state_empty demo_no_db demo_outbox = Some (a, res)
    \<and> length (ag_requests a) \<le> 2"
  using limited_loop_ends [of demo_agent "Some ''go''" demo_script session_state_empty demo_no_db demo_outbox]
  by (auto simp: demo_agent_def)

end
