(* ===== verification/Tool_Answers.thy ===== *)
theory Tool_Answers
  imports Agent_Theorems
begin

text \<open>
  What a tool-use answer leaves behind, against a reference that runs no threads: the serial
  tools answer one after the other until a cancel, each concurrent tool answers with what
  its own wait loop delivered or as panicked, and a call without an answer is marked as
  cancelled. The transcript holds these answers in the order of the calls, and the results
  sent back to the provider are the same answers in the same order, no matter in which order
  the tools finished and whether a cancel came in between.
\<close>

section \<open>The reference\<close>

definition call_timeout :: "agent_ctx \<Rightarrow> chat_tool_call \<Rightarrow> nat option" where
  "call_timeout c call = determine_tool_timeout c (ct_name call) (ct_arguments_json call)"

fun serial_answers ::
  "agent_ctx \<Rightarrow> (string \<Rightarrow> string) \<Rightarrow> (nat \<Rightarrow> serial_env) \<Rightarrow> nat \<Rightarrow> chat_tool_call list
   \<Rightarrow> (chat_tool_call \<times> exec_output) list \<times> bool" where
  "serial_answers c desc env k [] = ([], False)"
| "serial_answers c desc env k (call # calls) =
     (if se_cancel (env k) then ([], True)
      else case execute_tool_with_timeout call (case call_timeout c call of Some ms \<Rightarrow> ms | None \<Rightarrow> 60000)
                  (desc (ct_id call)) (se_wait (env k)) (se_image (env k)) of
             (out, cancelled, _) \<Rightarrow>
               if cancelled then ([(call, out)], True)
               else case serial_answers c desc env (k + 1) calls of (ps, b) \<Rightarrow> ((call, out) # ps, b))"

fun done_at :: "nat \<Rightarrow> batch_wake \<Rightarrow> bool" where
  "done_at k (BW_Done i _ _) = (i = k)"
| "done_at k (BW_Cancel _) = False"

definition concurrent_answer ::
  "agent_ctx \<Rightarrow> (string \<Rightarrow> string) \<Rightarrow> batch_wake list \<Rightarrow> nat \<Rightarrow> chat_tool_call \<Rightarrow> chat_tool_call \<times> exec_output" where
  "concurrent_answer c desc wakes k call =
     (case find (done_at k) wakes of
        Some (BW_Done _ w img) \<Rightarrow>
          (call, th_output (spawn_single_tool call (call_timeout c call) (desc (ct_id call)) w img))
      | _ \<Rightarrow> (call\<lparr>ct_caller := None\<rparr>, error_output ''tool thread panicked'' (desc (ct_id call))))"

definition conc_answers :: "agent_ctx \<Rightarrow> (string \<Rightarrow> string) \<Rightarrow> batch_wake list \<Rightarrow> chat_tool_call list
    \<Rightarrow> (chat_tool_call \<times> exec_output) list" where
  "conc_answers c desc wakes calls =
     map (\<lambda>(k, call). concurrent_answer c desc wakes k call) (zip [0..<length calls] calls)"

definition tool_answers :: "agent_ctx \<Rightarrow> iter_env \<Rightarrow> chat_tool_call list \<Rightarrow> (chat_tool_call \<times> exec_output) list" where
  "tool_answers c env calls =
     (let desc = description_by_call c calls;
          (serial, cancelled) = serial_answers c desc (ie_serial env) 0
            (filter (\<lambda>tc. is_session_config_tool (ct_name tc)) calls);
          concurrent = filter (\<lambda>tc. \<not> is_session_config_tool (ct_name tc)) calls
      in serial @ (if cancelled then []
                   else conc_answers c desc (ie_batch env) concurrent))"

definition answer_for :: "(chat_tool_call \<times> exec_output) list \<Rightarrow> string \<Rightarrow> (chat_tool_call \<times> exec_output) option" where
  "answer_for ps i = find (\<lambda>(call, _). ct_id call = i) ps"

definition filled :: "agent_ctx \<Rightarrow> string \<Rightarrow> exec_output \<Rightarrow> tool_result_record \<Rightarrow> tool_result_record" where
  "filled c nm out = record_output nm (transcript_output c (eo_out out))"

definition result_item :: "agent_ctx \<Rightarrow> chat_tool_call \<times> exec_output \<Rightarrow> tool_result_item" where
  "result_item c = (\<lambda>(call, out).
     \<lparr>tri_call_id = ct_id call, tri_output = out_content (transcript_output c (eo_out out)), tri_caller = ct_caller call\<rparr>)"

section \<open>What the operations do to results\<close>

definition turn_results :: "u32 \<Rightarrow> agent \<Rightarrow> tool_result_record list option" where
  "turn_results i a = map_option tool_results (map_of (turns (ag_session a)) i)"

definition fill :: "agent_ctx \<Rightarrow> chat_tool_call \<times> exec_output \<Rightarrow> tool_result_record list \<Rightarrow> tool_result_record list" where
  "fill c = (\<lambda>(call, out). upd_first (\<lambda>r. tr_call_id r = ct_id call) (filled c (ct_name call) out))"

definition answered :: "agent_ctx \<Rightarrow> u32 \<Rightarrow> (chat_tool_call \<times> exec_output) list \<Rightarrow> agent \<Rightarrow> agent \<Rightarrow> bool" where
  "answered c i ps a b \<longleftrightarrow> turn_results i b = map_option (fold (fill c) ps) (turn_results i a)
     \<and> ag_results b = ag_results a @ map (result_item c) ps"

lemma answered_Nil: "turn_results i b = turn_results i a \<Longrightarrow> ag_results b = ag_results a \<Longrightarrow> answered c i [] a b"
  by (simp add: answered_def option.map_ident_strong)

lemma answered_append: "answered c i ps a b \<Longrightarrow> answered c i qs b d \<Longrightarrow> answered c i (ps @ qs) a d"
  by (simp add: answered_def option.map_comp comp_def)

lemma answered_eq:
  "answered c i ps a b \<Longrightarrow> turn_results i d = turn_results i b \<Longrightarrow> ag_results d = ag_results b \<Longrightarrow> answered c i ps a d"
  "answered c i ps b d \<Longrightarrow> turn_results i b = turn_results i a \<Longrightarrow> ag_results b = ag_results a \<Longrightarrow> answered c i ps a d"
  by (simp_all add: answered_def)

text \<open>Messages and notes leave both alone.\<close>

lemma same_turns_results: "same_turns a b \<Longrightarrow> turn_results i b = turn_results i a"
  by (simp add: same_turns_def turn_results_def)

lemma results_of_steps [simp]:
  "ag_results (post c ev a) = ag_results a"
  "ag_results (broadcast_turn_appended c i a) = ag_results a"
  "ag_results (emit_image c img cid i a) = ag_results a"
  "ag_results (finish_tool_call c call out i a) = ag_results a"
  "ag_results (snd (look c a)) = ag_results a"
  "ag_results (persist_loaded_skill c nm args a) = ag_results a"
  "ag_results (check_subdirectory_hints c nm args a) = ag_results a"
  "ag_results (announce_call c desc call a) = ag_results a"
proof -
  show p: "ag_results (post c ev a) = ag_results a" for a ev by (simp add: post_def)
  show b: "ag_results (broadcast_turn_appended c i a) = ag_results a" for a
    by (simp add: broadcast_turn_appended_def p split: option.splits)
  show "ag_results (emit_image c img cid i a) = ag_results a" by (simp add: emit_image_def Let_def b)
  show "ag_results (finish_tool_call c call out i a) = ag_results a"
    by (simp add: finish_tool_call_def Let_def b p)
  show l: "ag_results (snd (look c a)) = ag_results a" by (simp add: look_def)
  show "ag_results (persist_loaded_skill c nm args a) = ag_results a"
    by (simp add: persist_loaded_skill_def case_prod_unfold l split: option.splits)
  show "ag_results (check_subdirectory_hints c nm args a) = ag_results a"
    by (simp add: check_subdirectory_hints_def case_prod_unfold l split: option.splits)
  show "ag_results (announce_call c desc call a) = ag_results a" by (simp add: announce_call_def p)
qed

lemma results_same_turn [simp]:
  "turn_results i (broadcast_turn_appended c j a) = turn_results i a"
  "turn_results i (post c ev a) = turn_results i a"
  "turn_results i (fst (send_cmd cmd a)) = turn_results i a"
  "turn_results i (snd (look c a)) = turn_results i a"
  "turn_results i (persist_loaded_skill c nm args a) = turn_results i a"
  "turn_results i (check_subdirectory_hints c nm args a) = turn_results i a"
  "turn_results i (a\<lparr>ag_results := rs\<rparr>) = turn_results i a"
  "turn_results i (announce_call c desc call a) = turn_results i a"
  by (auto simp: post_def announce_call_def turn_results_def
      intro: same_turns_results [OF calm.R_turn, unfolded turn_results_def]
        same_turns_results [OF calm.R_look, unfolded turn_results_def]
        same_turns_results [OF calm.R_skill, unfolded turn_results_def]
        same_turns_results [OF calm.R_hints, unfolded turn_results_def])

lemma record_answered: "answered c i [(call, out)] a (record_tool_completion c call out img i a)"
proof -
  have im: "turn_results i (emit_image c im cid i a) = turn_results i a" for im cid a
    by (simp add: emit_image_def Let_def) (auto simp: turn_results_def add_displayed_image_def upd_turn_def option.map_comp comp_def)
  have fin: "turn_results i (finish_tool_call c call o1 i a) =
      map_option (upd_first (\<lambda>r. tr_call_id r = ct_id call) (record_output (ct_name call) o1)) (turn_results i a)"
    for o1 a
    by (simp add: finish_tool_call_def Let_def)
       (auto simp: turn_results_def update_tool_result_def upd_turn_def option.map_comp comp_def)
  show ?thesis
    by (auto simp: answered_def record_tool_completion_def collect_tool_result_def Let_def fin im fill_def filled_def
        result_item_def split: option.splits)
qed

section \<open>The serial phase\<close>

definition answer_ids :: "(chat_tool_call \<times> exec_output) list \<Rightarrow> string list" where
  "answer_ids ps = map (\<lambda>(call, _). ct_id call) ps"

lemma serial_tool_answered:
  assumes "serial_tool c desc i base e call ph a = (b, Some ph')"
    and "execute_tool_with_timeout call (case call_timeout c call of Some ms \<Rightarrow> ms | None \<Rightarrow> 60000)
        (desc (ct_id call)) (se_wait e) (se_image e) = (out, cancelled, img)"
  shows "answered c i [(call, out)] a b" "ph_cancelled ph' = (ph_cancelled ph \<or> cancelled)"
    "set (ph_executed ph') = insert (ct_id call) (set (ph_executed ph))"
proof -
  let ?a2 = "fst (send_cmd (StatusChanged (ToolCall (ct_name call))) (announce_call c desc call a))"
  have "b = snd (look c (record_tool_completion c call out img i ?a2))"
    "ph_cancelled ph' = (ph_cancelled ph \<or> cancelled)"
    "set (ph_executed ph') = insert (ct_id call) (set (ph_executed ph))"
    using assms
    by (auto simp: serial_tool_def Let_def call_timeout_def case_prod_unfold split: if_splits)
  moreover have "answered c i [(call, out)] ?a2 (record_tool_completion c call out img i ?a2)"
    by (rule record_answered)
  ultimately show "answered c i [(call, out)] a b" "ph_cancelled ph' = (ph_cancelled ph \<or> cancelled)"
    "set (ph_executed ph') = insert (ct_id call) (set (ph_executed ph))"
    by (auto intro: answered_eq(1) [OF answered_eq(2)])
qed

lemma serial_phase_answered:
  assumes "serial_phase c desc i base env k calls ph a = (b, Some ph')" and "\<not> ph_cancelled ph"
    and "serial_answers c desc env k calls = (ps, cancelled)"
  shows "answered c i ps a b \<and> ph_cancelled ph' = cancelled
    \<and> set (ph_executed ph') = set (ph_executed ph) \<union> set (answer_ids ps)"
  using assms
proof (induction calls arbitrary: k ph a ps cancelled)
  case Nil
  then show ?case by (auto simp: answered_Nil answer_ids_def)
next
  case (Cons call calls)
  show ?case
  proof (cases "se_cancel (env k)")
    case True
    then show ?thesis using Cons.prems by (auto simp: answered_Nil answer_ids_def)
  next
    case False
    obtain out canc img where ex: "execute_tool_with_timeout call
        (case call_timeout c call of Some ms \<Rightarrow> ms | None \<Rightarrow> 60000) (desc (ct_id call)) (se_wait (env k)) (se_image (env k))
        = (out, canc, img)" by (metis prod_cases3)
    obtain a1 ph1 where st: "serial_tool c desc i base (env k) call ph a = (a1, Some ph1)"
    proof (cases "serial_tool c desc i base (env k) call ph a")
      case (Pair a1 r)
      then show thesis using Cons.prems(1) False that by (cases r) simp_all
    qed
    note one = serial_tool_answered [OF st ex]
    show ?thesis
    proof (cases canc)
      case True
      have "b = a1" "ph' = ph1" using Cons.prems(1) False st one(2) True by simp_all
      moreover have "ps = [(call, out)]" "cancelled" using Cons.prems(3) False ex True by simp_all
      ultimately show ?thesis using one True by (simp add: answer_ids_def)
    next
      case nc: False
      obtain qs b1 where qs: "serial_answers c desc env (k + 1) calls = (qs, b1)" by (metis surj_pair)
      then have ps: "ps = [(call, out)] @ qs" "cancelled = b1"
        using Cons.prems(3) False ex nc by auto
      have "\<not> ph_cancelled ph1" using one(2) nc Cons.prems(2) by simp
      then have "answered c i qs a1 b \<and> ph_cancelled ph' = b1
          \<and> set (ph_executed ph') = set (ph_executed ph1) \<union> set (answer_ids qs)"
        using Cons.prems(1) False st by (intro Cons.IH [OF _ _ qs]) simp_all
      then show ?thesis
        using answered_append [OF one(1)] one(3) ps by (auto simp: answer_ids_def)
    qed
  qed
qed

section \<open>The concurrent phase\<close>

definition handle_answer :: "tool_handle \<Rightarrow> chat_tool_call \<times> exec_output" where
  "handle_answer h = (th_call h, th_output h)"

definition handle_id :: "tool_handle \<Rightarrow> string" where
  "handle_id h = ct_id (th_call h)"

lemma handles_answered:
  "answered c i (map handle_answer hs) (snd x) (snd (fold (process_tool_handle c i) hs x))"
  "set (fst (fold (process_tool_handle c i) hs x)) = set (fst x) \<union> handle_id ` set hs"
proof (induction hs arbitrary: x)
  case Nil
  {
    case 1
    show ?case by (simp add: answered_Nil)
  next
    case 2
    show ?case by simp
  }
next
  case (Cons h hs)
  {
    case 1
    have "answered c i [handle_answer h] (snd x) (snd (process_tool_handle c i h x))"
      by (simp add: process_tool_handle_def case_prod_unfold handle_answer_def record_answered)
    from answered_append [OF this Cons.IH(1)] show ?case by simp
  next
    case 2
    show ?case
      by (simp add: Cons.IH(2)) (auto simp: process_tool_handle_def case_prod_unfold handle_id_def)
  }
qed

text \<open>
  All handles that arrive are processed in order of arrival, then the calls that delivered
  none are processed as panicked, with or without a cancel.
\<close>

abbreviation ids_of :: "call_info list \<Rightarrow> string list" where
  "ids_of infos \<equiv> map cl_call_id infos"

lemma missing_none:
  assumes "distinct (ids_of infos)" "distinct d" "set d \<subseteq> set (ids_of infos)" "length infos \<le> length d"
  shows "set d = set (ids_of infos)" "missing_calls infos d = []"
proof -
  have "card (set d) = length d" "card (set (ids_of infos)) = length infos"
    using assms(1,2) distinct_card [of "ids_of infos"] distinct_card [of d] by simp_all
  then show "set d = set (ids_of infos)"
    using assms(3,4) by (intro card_seteq) auto
  then show "missing_calls infos d = []" by (auto simp: missing_calls_def filter_empty_conv)
qed

lemma missing_cong: "set d = set d' \<Longrightarrow> missing_calls infos d = missing_calls infos d'"
  by (simp add: missing_calls_def)

definition batch_order :: "call_info list \<Rightarrow> hset \<Rightarrow> tool_handle list \<Rightarrow> tool_handle list" where
  "batch_order infos d hs = hs @ map panic_tool_handle (missing_calls infos (d @ map handle_id hs))"

definition batch_ok :: "call_info list \<Rightarrow> hset \<Rightarrow> tool_handle list \<Rightarrow> bool" where
  "batch_ok infos d hs \<longleftrightarrow> distinct (ids_of infos) \<and> distinct (d @ map handle_id hs)
     \<and> set (d @ map handle_id hs) \<subseteq> set (ids_of infos)"

lemma batch_ok_Cons:
  assumes "batch_ok infos d (h # hs)"
  shows "batch_ok infos (hset_insert (ct_id (th_call h)) d) hs" "length d < length infos"
    "set (hset_insert (ct_id (th_call h)) d @ map handle_id hs) = set (d @ map handle_id (h # hs))"
proof -
  show "length d < length infos"
  proof (rule ccontr)
    assume "\<not> length d < length infos"
    then have "set d = set (ids_of infos)"
      using assms missing_none(1) [of infos d] by (auto simp: batch_ok_def)
    then show False using assms by (auto simp: batch_ok_def handle_id_def)
  qed
qed (use assms in \<open>auto simp: batch_ok_def handle_id_def\<close>)

lemma synthesize_order: "synthesize_missing c i infos d x = fold (process_tool_handle c i) (batch_order infos d []) x"
  by (simp add: synthesize_missing_def batch_order_def fold_map)

lemma batch_order_Cons:
  "batch_ok infos d (h # hs) \<Longrightarrow>
   fold (process_tool_handle c i) (batch_order infos d (h # hs)) x =
   fold (process_tool_handle c i) (batch_order infos (hset_insert (ct_id (th_call h)) d) hs) (process_tool_handle c i h x)"
  using missing_cong [OF batch_ok_Cons(3)] by (simp add: batch_order_def del: set_append)

lemma drain_batch_order:
  "batch_ok infos d hs \<Longrightarrow> drain_batch c i infos hs d x = fold (process_tool_handle c i) (batch_order infos d hs) x"
proof (induction hs arbitrary: d x)
  case Nil
  then show ?case
    using missing_none(2) [of infos d]
    by (auto simp: drain_batch.simps synthesize_order batch_order_def batch_ok_def not_less)
next
  case (Cons h hs)
  then show ?case using batch_ok_Cons [OF Cons.prems] batch_order_Cons [OF Cons.prems]
    by (subst drain_batch.simps) simp
qed

lemma batch_order_distinct: "batch_ok infos [] hs \<Longrightarrow> distinct (map handle_id (batch_order infos [] hs))"
proof -
  assume ok: "batch_ok infos [] hs"
  have "handle_id \<circ> panic_tool_handle = cl_call_id" by (simp add: handle_id_def panic_tool_handle_def fun_eq_iff)
  moreover have "distinct (map cl_call_id (missing_calls infos d))" for d
    using ok by (simp add: batch_ok_def missing_calls_def distinct_map_filter)
  moreover have "set (map cl_call_id (missing_calls infos d)) \<inter> set d = {}" for d
    by (auto simp: missing_calls_def)
  from this [of "map handle_id hs"] have "set (map handle_id hs) \<inter> set (map cl_call_id (missing_calls infos (map handle_id hs))) = {}"
    by blast
  ultimately show ?thesis
    using ok by (simp add: batch_order_def batch_ok_def)
qed

lemma answer_ids_handles: "answer_ids (map handle_answer hs) = map handle_id hs"
  by (simp add: answer_ids_def handle_answer_def handle_id_def)

lemma deliver_order:
  assumes "batch_ok infos d (hs @ gs)" and "fold (deliver c i) hs (d, x) = (d', x')"
  shows "batch_ok infos d' gs
    \<and> fold (process_tool_handle c i) (batch_order infos d (hs @ gs)) x =
      fold (process_tool_handle c i) (batch_order infos d' gs) x'"
  using assms
proof (induction hs arbitrary: d x)
  case (Cons h hs)
  have ok: "batch_ok infos d (h # hs @ gs)" using Cons.prems(1) by simp
  show ?case
    using Cons.IH [OF batch_ok_Cons(1) [OF ok]] Cons.prems(2) batch_order_Cons [OF ok, of c i x]
    by (simp add: deliver_def)
qed simp

abbreviation handles :: "batch_event list \<Rightarrow> tool_handle list" where
  "handles evs \<equiv> List.map_filter handle_of evs"

lemma collect_batch_order:
  "batch_ok infos d (handles evs) \<Longrightarrow>
   snd (collect_batch c i infos evs d x) = fold (process_tool_handle c i) (batch_order infos d (handles evs)) x"
proof (induction evs arbitrary: d x)
  case Nil
  then show ?case
    using missing_none(2) [of infos d]
    by (auto simp: collect_batch.simps synthesize_order batch_order_def batch_ok_def not_less)
next
  case (Cons e evs)
  show ?case
  proof (cases e)
    case (BE_Done h)
    then have ok: "batch_ok infos d (h # handles evs)" using Cons.prems by simp
    show ?thesis
      using BE_Done batch_ok_Cons [OF ok] batch_order_Cons [OF ok] Cons.IH [OF batch_ok_Cons(1) [OF ok]]
      by (subst collect_batch.simps) simp
  next
    case (BE_Cancel n)
    then have ok: "batch_ok infos d (handles evs)" using Cons.prems by simp
    obtain d' x' where f: "fold (deliver c i) (take n (handles evs)) (d, x) = (d', x')" by (metis surj_pair)
    have ok': "batch_ok infos d (take n (handles evs) @ drop n (handles evs))" using ok by simp
    note del = deliver_order [OF ok' f]
    show ?thesis
    proof (cases "length d < length infos")
      case True
      then show ?thesis
        using BE_Cancel f del drain_batch_order [of infos d' "drop n (handles evs)" c i x']
        by (subst collect_batch.simps) (simp add: Let_def)
    next
      case False
      then have all: "set d = set (ids_of infos)" "missing_calls infos d = []"
        using missing_none [of infos d] ok by (auto simp: batch_ok_def)
      then have "handles evs = []" using ok by (cases "handles evs") (auto simp: batch_ok_def)
      then show ?thesis
        using BE_Cancel False all by (subst collect_batch.simps) (simp add: batch_order_def)
    qed
  qed
qed

text \<open>The handles a script of wake-ups produces, and the answers they stand for.\<close>

definition script_ok :: "batch_wake list \<Rightarrow> bool" where
  "script_ok wakes \<longleftrightarrow> (\<forall>k. length (filter (done_at k) wakes) \<le> 1)"

lemma script_ok_Cons: "script_ok (w # wakes) \<Longrightarrow> script_ok wakes"
  unfolding script_ok_def
proof
  fix k
  assume "\<forall>k. length (filter (done_at k) (w # wakes)) \<le> 1"
  then have "length (filter (done_at k) (w # wakes)) \<le> 1" by blast
  then show "length (filter (done_at k) wakes) \<le> 1" by (simp split: if_splits)
qed

lemma script_find:
  "script_ok wakes \<Longrightarrow> BW_Done k w img \<in> set wakes \<Longrightarrow> find (done_at k) wakes = Some (BW_Done k w img)"
proof (induction wakes)
  case (Cons x wakes)
  show ?case
  proof (cases "done_at k x")
    case True
    then have "length (filter (done_at k) wakes) = 0"
      using Cons.prems(1) unfolding script_ok_def by (elim allE [of _ k]) simp
    then have "BW_Done k w img \<notin> set wakes" by (auto simp: filter_empty_conv)
    then show ?thesis using Cons.prems(2) True by auto
  next
    case False
    then show ?thesis using Cons.IH [OF script_ok_Cons [OF Cons.prems(1)]] Cons.prems(2) by auto
  qed
qed simp

definition script_handles :: "agent_ctx \<Rightarrow> (string \<Rightarrow> string) \<Rightarrow> chat_tool_call list \<Rightarrow> batch_wake list \<Rightarrow> tool_handle list" where
  "script_handles c desc calls wakes = handles (List.map_filter (batch_event_of c desc calls) wakes)"

lemma script_handles_Cons [simp]:
  "script_handles c desc calls [] = []"
  "script_handles c desc calls (BW_Cancel n # wakes) = script_handles c desc calls wakes"
  "script_handles c desc calls (BW_Done k w img # wakes) =
     (if k < length calls
      then [spawn_single_tool (calls ! k) (call_timeout c (calls ! k)) (desc (ct_id (calls ! k))) w img] else [])
     @ script_handles c desc calls wakes"
  by (simp_all add: script_handles_def Let_def call_timeout_def)

lemma script_handles_set:
  "h \<in> set (script_handles c desc calls wakes) \<longleftrightarrow>
     (\<exists>k w img. BW_Done k w img \<in> set wakes \<and> k < length calls
        \<and> h = spawn_single_tool (calls ! k) (call_timeout c (calls ! k)) (desc (ct_id (calls ! k))) w img)"
proof (induction wakes)
  case (Cons x wakes)
  then show ?case by (cases x) auto
qed simp

lemma handle_id_spawn [simp]: "handle_id (spawn_single_tool call t d w img) = ct_id call"
  by (simp add: handle_id_def spawn_single_tool_def)

lemma script_batch_ok:
  assumes "distinct (map ct_id calls)" and "script_ok wakes"
  shows "batch_ok (map (info_of desc) calls) [] (script_handles c desc calls wakes)"
proof -
  have ids: "cl_call_id \<circ> info_of desc = ct_id" by (simp add: info_of_def fun_eq_iff)
  have "distinct (map handle_id (script_handles c desc calls wakes))"
    using assms(2)
  proof (induction wakes)
    case (Cons x wakes)
    note IH = Cons.IH [OF script_ok_Cons [OF Cons.prems]]
    show ?case
    proof (cases x)
      case (BW_Done k w img)
      have "ct_id (calls ! k) \<notin> handle_id ` set (script_handles c desc calls wakes)" if k: "k < length calls"
      proof
        assume "ct_id (calls ! k) \<in> handle_id ` set (script_handles c desc calls wakes)"
        then obtain k' w' img' where b: "BW_Done k' w' img' \<in> set wakes" "k' < length calls"
          "ct_id (calls ! k) = ct_id (calls ! k')"
          by (auto simp: script_handles_set)
        then have "k = k'" using assms(1) k by (simp add: distinct_conv_nth) (metis)
        then have "filter (done_at k) wakes \<noteq> []"
          using b(1) by (auto simp: filter_empty_conv intro!: bexI [of _ "BW_Done k' w' img'"])
        then show False
          using Cons.prems BW_Done unfolding script_ok_def by (elim allE [of _ k]) simp
      qed
      then show ?thesis using IH BW_Done by auto
    qed (use IH in simp)
  qed simp
  then show ?thesis
    using assms(1) by (auto simp: batch_ok_def ids script_handles_set info_of_def)
qed

lemma conc_answers_set:
  "set (conc_answers c desc wakes calls) = {concurrent_answer c desc wakes k (calls ! k) | k. k < length calls}"
  by (force simp: conc_answers_def set_zip)

lemma concurrent_answer_id [simp]: "ct_id (fst (concurrent_answer c desc wakes k call)) = ct_id call"
  by (simp add: concurrent_answer_def split: option.splits batch_wake.splits)

lemma conc_answers_ids: "answer_ids (conc_answers c desc wakes calls) = map ct_id calls"
proof (rule nth_equalityI)
  show "length (answer_ids (conc_answers c desc wakes calls)) = length (map ct_id calls)"
    by (simp add: answer_ids_def conc_answers_def)
next
  fix k
  assume "k < length (answer_ids (conc_answers c desc wakes calls))"
  then show "answer_ids (conc_answers c desc wakes calls) ! k = map ct_id calls ! k"
    by (simp add: answer_ids_def conc_answers_def case_prod_unfold)
qed

lemma concurrent_answer_cases:
  assumes "script_ok wakes"
  shows "(\<exists>w img. BW_Done k w img \<in> set wakes
      \<and> concurrent_answer c desc wakes k call =
          handle_answer (spawn_single_tool call (call_timeout c call) (desc (ct_id call)) w img))
    \<or> (\<forall>w img. BW_Done k w img \<notin> set wakes)
      \<and> concurrent_answer c desc wakes k call = handle_answer (panic_tool_handle (info_of desc call))"
proof (cases "\<exists>w img. BW_Done k w img \<in> set wakes")
  case True
  then obtain w img where b: "BW_Done k w img \<in> set wakes" by blast
  then show ?thesis
    using script_find [OF assms b]
    by (auto simp: concurrent_answer_def handle_answer_def spawn_single_tool_def intro!: exI)
next
  case False
  then have "find (done_at k) wakes = None"
    unfolding find_None_iff by (metis batch_wake.exhaust done_at.simps)
  moreover have "call\<lparr>ct_caller := None\<rparr> = \<lparr>ct_id = ct_id call, ct_name = ct_name call,
      ct_arguments_json = ct_arguments_json call, ct_caller = None\<rparr>" by (cases call) simp
  ultimately show ?thesis
    using False by (simp add: concurrent_answer_def handle_answer_def panic_tool_handle_def info_of_def)
qed

lemma batch_answers:
  assumes "distinct (map ct_id calls)" and "script_ok wakes"
  shows "set (map handle_answer (batch_order (map (info_of desc) calls) [] (script_handles c desc calls wakes)))
    = set (conc_answers c desc wakes calls)" (is "?L = ?R")
proof
  let ?hs = "script_handles c desc calls wakes"
  have sh: "handle_id ` set ?hs = {ct_id (calls ! k) | k. k < length calls \<and> (\<exists>w img. BW_Done k w img \<in> set wakes)}"
    by (force simp: script_handles_set image_def)
  have inj: "k = k'" if "ct_id (calls ! k) = ct_id (calls ! k')" "k < length calls" "k' < length calls" for k k'
    using that assms(1) by (simp add: distinct_conv_nth) metis
  show "?L \<subseteq> ?R"
  proof
    fix p
    assume "p \<in> ?L"
    then consider (spawn) k w img where "BW_Done k w img \<in> set wakes" "k < length calls"
        "p = handle_answer (spawn_single_tool (calls ! k) (call_timeout c (calls ! k)) (desc (ct_id (calls ! k))) w img)"
      | (panic) k where "k < length calls" "ct_id (calls ! k) \<notin> handle_id ` set ?hs"
        "p = handle_answer (panic_tool_handle (info_of desc (calls ! k)))"
      by (auto simp: batch_order_def script_handles_set missing_calls_def in_set_conv_nth [of _ calls] info_of_def)
    then show "p \<in> ?R"
    proof cases
      case spawn
      have "p = concurrent_answer c desc wakes k (calls ! k)"
        using script_find [OF assms(2) spawn(1)] spawn(3)
        by (simp add: concurrent_answer_def handle_answer_def spawn_single_tool_def)
      then show ?thesis using spawn(2) unfolding conc_answers_set by blast
    next
      case panic
      then have "p = concurrent_answer c desc wakes k (calls ! k)"
        using concurrent_answer_cases [OF assms(2), of k c desc "calls ! k"] sh by auto
      then show ?thesis using panic(1) unfolding conc_answers_set by blast
    qed
  qed
  show "?R \<subseteq> ?L"
  proof
    fix p
    assume "p \<in> ?R"
    then obtain k where k: "k < length calls" "p = concurrent_answer c desc wakes k (calls ! k)"
      unfolding conc_answers_set by blast
    from concurrent_answer_cases [OF assms(2), of k c desc "calls ! k"] show "p \<in> ?L"
    proof
      assume "\<exists>w img. BW_Done k w img \<in> set wakes
      \<and> concurrent_answer c desc wakes k (calls ! k) =
          handle_answer (spawn_single_tool (calls ! k) (call_timeout c (calls ! k)) (desc (ct_id (calls ! k))) w img)"
      then obtain w img where w: "BW_Done k w img \<in> set wakes"
        "p = handle_answer (spawn_single_tool (calls ! k) (call_timeout c (calls ! k)) (desc (ct_id (calls ! k))) w img)"
        using k(2) by blast
      have "spawn_single_tool (calls ! k) (call_timeout c (calls ! k)) (desc (ct_id (calls ! k))) w img \<in> set ?hs"
        using w(1) k(1) unfolding script_handles_set by blast
      then show ?thesis unfolding w(2) batch_order_def by simp
    next
      assume pn: "(\<forall>w img. BW_Done k w img \<notin> set wakes)
      \<and> concurrent_answer c desc wakes k (calls ! k) = handle_answer (panic_tool_handle (info_of desc (calls ! k)))"
      then have "ct_id (calls ! k) \<notin> handle_id ` set ?hs" using sh inj k(1) by blast
      then have "info_of desc (calls ! k) \<in> set (missing_calls (map (info_of desc) calls) (map handle_id ?hs))"
        using k(1) by (auto simp: missing_calls_def info_of_def)
      then show ?thesis using k pn by (auto simp: batch_order_def)
    qed
  qed
qed

section \<open>Results by call\<close>

definition answer_result :: "agent_ctx \<Rightarrow> (chat_tool_call \<times> exec_output) list \<Rightarrow> tool_result_record \<Rightarrow> tool_result_record" where
  "answer_result c ps r =
     (case answer_for ps (tr_call_id r) of None \<Rightarrow> r | Some (call, out) \<Rightarrow> filled c (ct_name call) out r)"

lemma upd_first_map:
  "distinct (map tr_call_id rs) \<Longrightarrow>
   upd_first (\<lambda>r. tr_call_id r = i) f rs = map (\<lambda>r. if tr_call_id r = i then f r else r) rs"
proof (induction rs)
  case (Cons r rs)
  then have "tr_call_id r \<notin> tr_call_id ` set rs" by simp
  then have "r' \<in> set rs \<Longrightarrow> tr_call_id r' \<noteq> tr_call_id r" for r' by (metis imageI)
  then have "map (\<lambda>r'. if tr_call_id r' = tr_call_id r then f r' else r') rs = rs"
    by (intro map_idI) auto
  then show ?case using Cons by auto
qed simp

lemma fold_fill:
  "distinct (answer_ids ps) \<Longrightarrow> distinct (map tr_call_id rs) \<Longrightarrow>
   fold (fill c) ps rs = map (answer_result c ps) rs"
proof (induction ps arbitrary: rs)
  case Nil
  then show ?case by (simp add: answer_result_def answer_for_def)
next
  case (Cons p ps)
  obtain call out where p: "p = (call, out)" by (cases p)
  let ?f = "\<lambda>r. if tr_call_id r = ct_id call then filled c (ct_name call) out r else r"
  have ids: "tr_call_id (?f r) = tr_call_id r" for r by (simp add: filled_def)
  have "fill c p rs = map ?f rs" using Cons.prems(2) by (simp add: fill_def p upd_first_map)
  moreover have "fold (fill c) ps (map ?f rs) = map (answer_result c ps) (map ?f rs)"
  proof (rule Cons.IH)
    show "distinct (answer_ids ps)" using Cons.prems(1) by (simp add: answer_ids_def)
    have "map tr_call_id (map ?f rs) = map tr_call_id rs" using ids by simp
    then show "distinct (map tr_call_id (map ?f rs))" using Cons.prems(2) by metis
  qed
  moreover have "answer_result c ps (?f r) = answer_result c (p # ps) r" for r
  proof (cases "tr_call_id r = ct_id call")
    case True
    have "answer_for ps (ct_id call) = None"
      using Cons.prems(1) by (force simp: answer_for_def answer_ids_def find_None_iff p)
    then show ?thesis using True by (simp add: answer_result_def filled_def) (simp add: answer_for_def p filled_def)
  next
    case False
    then show ?thesis by (simp add: answer_result_def answer_for_def p)
  qed
  ultimately show ?case by simp
qed

lemma answer_for_Some:
  "distinct (answer_ids ps) \<Longrightarrow> answer_for ps i = Some p \<longleftrightarrow> p \<in> set ps \<and> ct_id (fst p) = i"
proof (induction ps)
  case (Cons q ps)
  then show ?case
    by (cases q; cases p) (auto simp: answer_for_def answer_ids_def)
qed (simp add: answer_for_def)

lemma answer_for_cong:
  assumes "distinct (answer_ids ps)" "distinct (answer_ids qs)" "set ps = set qs"
  shows "answer_for ps = answer_for qs"
proof
  fix i
  show "answer_for ps i = answer_for qs i"
  proof (cases "answer_for ps i")
    case None
    then show ?thesis
      using answer_for_Some [OF assms(1)] answer_for_Some [OF assms(2)] assms(3)
      by (metis option.exhaust option.distinct(1))
  next
    case (Some p)
    then show ?thesis using answer_for_Some [OF assms(1)] answer_for_Some [OF assms(2)] assms(3) by metis
  qed
qed

text \<open>The two phases together: some order of the reference answers has been recorded.\<close>

lemma concurrent_phase_answered:
  assumes "concurrent_phase c desc i recs wakes calls ph a = (b, Some ph')" and "\<not> ph_cancelled ph"
    and "distinct (map ct_id calls)" and "script_ok wakes"
  obtains qs b1 where "answered c i qs a b1" "set qs = set (conc_answers c desc wakes calls)"
    "distinct (answer_ids qs)" "turn_results i b = turn_results i b1"
    "ag_results b = (if calls = [] then ag_results b1 else sort_by_call_order recs tri_call_id (ag_results b1))"
    "set (ph_executed ph') = set (ph_executed ph) \<union> set (map ct_id calls)"
    "ph_changes ph' = ph_changes ph"
proof (cases "calls = []")
  case True
  then have "b = a" "ph' = ph" using assms(1) by (simp_all add: concurrent_phase_def)
  then show thesis
    using True by (intro that [of "[]" a]) (simp_all add: answered_Nil conc_answers_def answer_ids_def)
next
  case False
  let ?a2 = "fst (send_cmd (StatusChanged (ToolCall (concurrent_tool_status_label calls))) (fold (announce_call c desc) calls a))"
  let ?infos = "map (info_of desc) calls"
  let ?evs = "List.map_filter (batch_event_of c desc calls) wakes"
  let ?hs = "script_handles c desc calls wakes"
  let ?r = "collect_batch c i ?infos ?evs [] (ph_executed ph, ?a2)"
  have b: "b = (snd (snd ?r))\<lparr>ag_results := sort_by_call_order recs tri_call_id (ag_results (snd (snd ?r)))\<rparr>"
    and ex: "ph_executed ph' = fst (snd ?r)" and ch: "ph_changes ph' = ph_changes ph"
    using assms(1,2) False by (auto simp: concurrent_phase_def Let_def case_prod_unfold split: if_splits)
  have ok: "batch_ok ?infos [] ?hs" by (rule script_batch_ok [OF assms(3,4)])
  let ?order = "batch_order ?infos [] ?hs"
  have r: "snd ?r = fold (process_tool_handle c i) ?order (ph_executed ph, ?a2)"
    using collect_batch_order [of ?infos "[]" ?evs c i] ok by (simp add: script_handles_def)
  have ann: "turn_results i (fold (announce_call c desc) cs a) = turn_results i a
      \<and> ag_results (fold (announce_call c desc) cs a) = ag_results a" for cs
    by (induction cs arbitrary: a) simp_all
  have "answered c i (map handle_answer ?order) ?a2 (snd (snd ?r))"
    using handles_answered(1) [of c i ?order "(ph_executed ph, ?a2)"] r by simp
  then have ans: "answered c i (map handle_answer ?order) a (snd (snd ?r))"
    using ann by (auto intro: answered_eq(2))
  have sets: "set (map handle_answer ?order) = set (conc_answers c desc wakes calls)"
    by (rule batch_answers [OF assms(3,4)])
  have dist: "distinct (answer_ids (map handle_answer ?order))"
    using batch_order_distinct [OF ok] by (simp add: answer_ids_handles)
  have "set (answer_ids (map handle_answer ?order)) = set (answer_ids (conc_answers c desc wakes calls))"
    using sets unfolding answer_ids_def by (metis set_map)
  then have idset: "handle_id ` set ?order = set (map ct_id calls)"
    by (simp add: conc_answers_ids answer_ids_handles)
  show thesis
  proof (rule that [OF ans sets dist])
    show "set (ph_executed ph') = set (ph_executed ph) \<union> set (map ct_id calls)"
      using handles_answered(2) [of c i ?order "(ph_executed ph, ?a2)"] r ex idset by simp
  qed (simp_all add: b ch False)
qed

section \<open>Call order\<close>

lemma order_key_nth:
  assumes "distinct (map tc_call_id calls)" and "k < length calls"
  shows "order_key calls (tc_call_id (calls ! k)) = k"
proof -
  let ?z = "zip (map tc_call_id calls) [0..<length calls]"
  have d: "distinct (map fst (call_order calls))"
    using assms(1) by (simp add: call_order_def rev_map [symmetric])
  have "(map tc_call_id calls ! k, [0..<length calls] ! k) \<in> set ?z"
    using assms(2) by (auto simp: set_zip intro!: exI [of _ k])
  then have "(tc_call_id (calls ! k), k) \<in> set (call_order calls)"
    using assms(2) by (simp add: call_order_def)
  then have "map_of (call_order calls) (tc_call_id (calls ! k)) = Some k" using d by simp
  then show ?thesis by (simp add: order_key_def)
qed

lemma items_in_call_order:
  assumes "distinct (map ct_id calls)" and "distinct (answer_ids ps)" and "set (answer_ids ps) = set (map ct_id calls)"
  shows "sort_by_call_order (map call_record calls) tri_call_id (map (result_item c) ps) =
    map (\<lambda>tc. result_item c (the (answer_for ps (ct_id tc)))) calls" (is "_ = ?ys")
proof (cases "calls = []")
  case True
  then show ?thesis using assms(3) by (simp add: sort_by_call_order_def answer_ids_def)
next
  case False
  let ?recs = "map call_record calls"
  let ?key = "\<lambda>x. order_key ?recs (tri_call_id x)"
  have rec: "tc_call_id (call_record tc) = ct_id tc" for tc by (simp add: call_record_def)
  have dr: "distinct (map tc_call_id ?recs)" using assms(1) by (simp add: comp_def rec)
  have ex: "\<exists>p. answer_for ps (ct_id tc) = Some p" if "tc \<in> set calls" for tc
  proof -
    have "ct_id tc \<in> set (answer_ids ps)" using that assms(3) by simp
    then obtain p where "p \<in> set ps" "ct_id (fst p) = ct_id tc" by (auto simp: answer_ids_def)
    then show ?thesis using answer_for_Some [OF assms(2)] by blast
  qed
  have id_item: "tri_call_id (result_item c p) = ct_id (fst p)" for p by (simp add: result_item_def case_prod_unfold)
  have id_y: "tri_call_id (result_item c (the (answer_for ps (ct_id tc)))) = ct_id tc" if "tc \<in> set calls" for tc
    using ex [OF that] answer_for_Some [OF assms(2)] by (metis id_item option.sel)
  have keys: "map ?key ?ys = [0..<length calls]"
  proof (rule nth_equalityI)
    fix k
    assume "k < length (map ?key ?ys)"
    then have k: "k < length calls" by simp
    have "?key (?ys ! k) = order_key ?recs (ct_id (calls ! k))" using id_y k by simp
    also have "\<dots> = k" using order_key_nth [OF dr, of k] k rec by simp
    finally show "map ?key ?ys ! k = [0..<length calls] ! k" using k by simp
  qed simp
  have "map tri_call_id (map (result_item c) ps) = answer_ids ps"
    by (simp add: answer_ids_def id_item case_prod_unfold)
  then have d1: "distinct (map (result_item c) ps)" using assms(2) by (metis distinct_map)
  have d2: "distinct ?ys" using keys by (metis distinct_map distinct_upt)
  have sets: "set (map (result_item c) ps) = set ?ys"
  proof
    show "set (map (result_item c) ps) \<subseteq> set ?ys"
    proof
      fix x
      assume "x \<in> set (map (result_item c) ps)"
      then obtain p where p: "p \<in> set ps" "x = result_item c p" by auto
      then have "ct_id (fst p) \<in> set (answer_ids ps)"
        by (auto simp: answer_ids_def case_prod_unfold)
      then obtain tc where tc: "tc \<in> set calls" "ct_id tc = ct_id (fst p)" using assms(3) by auto
      then have "answer_for ps (ct_id tc) = Some p" using answer_for_Some [OF assms(2)] p(1) by simp
      then show "x \<in> set ?ys" using tc(1) p(2) by (auto intro!: image_eqI [of _ _ tc])
    qed
    show "set ?ys \<subseteq> set (map (result_item c) ps)"
    proof
      fix x
      assume "x \<in> set ?ys"
      then obtain tc where tc: "tc \<in> set calls" "x = result_item c (the (answer_for ps (ct_id tc)))" by auto
      then obtain p where p: "answer_for ps (ct_id tc) = Some p" using ex by blast
      then have "p \<in> set ps" using answer_for_Some [OF assms(2), of "ct_id tc" p] by simp
      then show "x \<in> set (map (result_item c) ps)" using tc(2) p by simp
    qed
  qed
  have "sort_key ?key (map (result_item c) ps) = ?ys"
  proof (rule sort_key_inj_key_eq)
    show "mset (map (result_item c) ps) = mset ?ys"
      using d1 d2 sets by (simp only: set_eq_iff_mset_eq_distinct [symmetric])
    show "sorted (map ?key ?ys)" unfolding keys by simp
    show "inj_on ?key (set (map (result_item c) ps))"
      unfolding sets using keys by (metis distinct_map distinct_upt)
  qed
  then show ?thesis using False by (simp add: sort_by_call_order_def)
qed

section \<open>Who is answered\<close>

lemma answers_in_order:
  assumes "answer_ids ps = map ct_id calls" and "distinct (answer_ids ps)"
  shows "map (result_item c) ps = map (\<lambda>tc. result_item c (the (answer_for ps (ct_id tc)))) calls"
proof (rule nth_equalityI)
  have len: "length ps = length calls" using assms(1) unfolding answer_ids_def by (metis length_map)
  then show "length (map (result_item c) ps) = length (map (\<lambda>tc. result_item c (the (answer_for ps (ct_id tc)))) calls)"
    by simp
  fix k
  assume k: "k < length (map (result_item c) ps)"
  then have "ct_id (fst (ps ! k)) = ct_id (calls ! k)"
    using arg_cong [OF assms(1), of "\<lambda>l. l ! k"] len by (simp add: answer_ids_def case_prod_unfold)
  then have "answer_for ps (ct_id (calls ! k)) = Some (ps ! k)"
    using answer_for_Some [OF assms(2)] k by simp
  then show "map (result_item c) ps ! k = map (\<lambda>tc. result_item c (the (answer_for ps (ct_id tc)))) calls ! k"
    using k len by simp
qed

lemma serial_answer_ids:
  "serial_answers c desc env k calls = (ps, cancelled) \<Longrightarrow>
   (\<exists>rest. map ct_id calls = answer_ids ps @ rest) \<and> (\<not> cancelled \<longrightarrow> answer_ids ps = map ct_id calls)"
proof (induction calls arbitrary: k ps cancelled)
  case (Cons call calls)
  obtain qs b where qs: "serial_answers c desc env (k + 1) calls = (qs, b)" by (metis surj_pair)
  from Cons.IH [OF qs] Cons.prems qs show ?case
    by (auto simp: answer_ids_def split: if_splits prod.splits)
qed (simp add: answer_ids_def)

definition unanswered :: "tool_result_record \<Rightarrow> tool_result_record" where
  "unanswered r = r\<lparr>tr_content := CANCELLED_MARK, tr_is_error := True\<rparr>"

definition seeded :: "agent_ctx \<Rightarrow> tool_use \<Rightarrow> chat_tool_call \<Rightarrow> tool_result_record" where
  "seeded c tu tc = placeholder (call_record tc) (description_by_call c (tu_calls tu) (ct_id tc))"

lemma seeded_id [simp]: "tr_call_id (seeded c tu tc) = ct_id tc"
  by (simp add: seeded_def placeholder_def call_record_def)

lemma open_results:
  assumes "map_of (turns (ag_session a)) i = Some t"
  shows "turn_results i (open_tool_turn c i tu a) = Some (map (seeded c tu) (tu_calls tu))"
    "ag_results (open_tool_turn c i tu a) = []"
  using assms
  by (auto simp: turn_results_def open_tool_turn_turns seeded_def)
     (simp add: open_tool_turn_def Let_def set_response_id_def)

lemma changes_keep_results [simp]:
  "turn_results i (upd_session (fold (apply_pending_config_change c) chs) a) = turn_results i a"
  using calm.R_changes [of a c chs] by (simp add: same_turns_results)

lemma close_results:
  assumes "close_tool_turn c i ph a = (b, r)"
  shows "turn_results i b = map_option (map (\<lambda>x. if ph_cancelled ph \<and> tr_call_id x \<notin> set (ph_executed ph)
      then unanswered x else x)) (turn_results i a)"
    "ag_results b = ag_results a" "r = (if ph_cancelled ph then Some (LoopOk True) else None)"
proof -
  have m: "turn_results i (upd_session (mark_unexecuted_tool_results i ex) x) =
      map_option (map (\<lambda>r. if tr_call_id r \<notin> set ex then unanswered r else r)) (turn_results i x)" for ex x
    by (auto simp: turn_results_def mark_unexecuted_tool_results_def upd_turn_def unanswered_def
        option.map_comp comp_def cong: if_cong)
  show "turn_results i b = map_option (map (\<lambda>x. if ph_cancelled ph \<and> tr_call_id x \<notin> set (ph_executed ph)
      then unanswered x else x)) (turn_results i a)"
    using assms m [of "ph_executed ph" "upd_session (fold (apply_pending_config_change c) (ph_changes ph)) a"]
    by (auto simp: close_tool_turn_def Let_def option.map_ident split: if_splits)
  show "ag_results b = ag_results a" "r = (if ph_cancelled ph then Some (LoopOk True) else None)"
    using assms by (auto simp: close_tool_turn_def Let_def split: if_splits)
qed

text \<open>Both phases: the recorded answers are the reference answers in some order.\<close>

lemma phases_answered:
  assumes d: "distinct (map ct_id calls)" and ok: "script_ok (ie_batch env)"
    and desc: "desc = description_by_call c calls"
    and ser: "serial_phase c desc i base (ie_serial env) 0 (filter (\<lambda>tc. is_session_config_tool (ct_name tc)) calls)
      \<lparr>ph_executed = [], ph_changes = [], ph_cancelled = False\<rparr> a = (a2, Some ph)"
    and con: "concurrent_phase c desc i (map call_record calls) (ie_batch env)
      (filter (\<lambda>tc. \<not> is_session_config_tool (ct_name tc)) calls) ph a2 = (a3, Some ph')"
    and empty: "ag_results a = []"
  obtains ps where "distinct (answer_ids ps)" "answer_for ps = answer_for (tool_answers c env calls)"
    "turn_results i a3 = map_option (fold (fill c) ps) (turn_results i a)"
    "set (ph_executed ph') = set (answer_ids ps)"
    "\<not> ph_cancelled ph' \<longrightarrow> set (answer_ids ps) = set (map ct_id calls)
       \<and> ag_results a3 = map (\<lambda>tc. result_item c (the (answer_for ps (ct_id tc)))) calls"
proof -
  let ?m = "filter (\<lambda>tc. is_session_config_tool (ct_name tc)) calls"
  let ?n = "filter (\<lambda>tc. \<not> is_session_config_tool (ct_name tc)) calls"
  obtain ss canc where ss: "serial_answers c desc (ie_serial env) 0 ?m = (ss, canc)" by (metis surj_pair)
  have s: "answered c i ss a a2" "ph_cancelled ph = canc" "set (ph_executed ph) = set (answer_ids ss)"
    using serial_phase_answered [OF ser _ ss] by simp_all
  have ids: "\<exists>rest. map ct_id ?m = answer_ids ss @ rest" "\<not> canc \<longrightarrow> answer_ids ss = map ct_id ?m"
    using serial_answer_ids [OF ss] by blast+
  have dm: "distinct (map ct_id ?m)" and dn: "distinct (map ct_id ?n)"
    using d by (simp_all add: distinct_map_filter)
  then have dss: "distinct (answer_ids ss)" using ids(1) by (metis distinct_append)
  show thesis
  proof (cases canc)
    case True
    then have e: "a3 = a2" "ph' = ph" using con s(2) by (simp_all add: concurrent_phase_def)
    have "tool_answers c env calls = ss" using ss True by (simp add: tool_answers_def desc)
    then show thesis
      using dss s e True by (intro that [of ss]) (simp_all add: answered_def)
  next
    case False
    obtain qs b1 where q: "answered c i qs a2 b1" "set qs = set (conc_answers c desc (ie_batch env) ?n)"
      "distinct (answer_ids qs)" "turn_results i a3 = turn_results i b1"
      "ag_results a3 = (if ?n = [] then ag_results b1
         else sort_by_call_order (map call_record calls) tri_call_id (ag_results b1))"
      "set (ph_executed ph') = set (ph_executed ph) \<union> set (map ct_id ?n)"
      by (rule concurrent_phase_answered [OF con _ dn ok]) (use False s(2) in simp_all)
    let ?ps = "ss @ qs"
    have idq: "set (answer_ids qs) = set (map ct_id ?n)"
      using arg_cong [OF q(2), of "image (\<lambda>(call, _). ct_id call)"] conc_answers_ids [of c desc "ie_batch env" ?n]
      unfolding answer_ids_def by (metis set_map)
    have idm: "answer_ids ss = map ct_id ?m" using ids(2) False by simp
    have "set (map ct_id ?m) \<inter> set (map ct_id ?n) = {}"
      using d by (auto simp: distinct_map inj_on_def)
    then have dps: "distinct (answer_ids ?ps)" using dss q(3) idq idm by (simp add: answer_ids_def)
    have all: "set (answer_ids ?ps) = set (map ct_id calls)" using idq idm by (auto simp: answer_ids_def)
    have ref: "tool_answers c env calls = ss @ conc_answers c desc (ie_batch env) ?n"
      using ss False by (simp add: tool_answers_def desc)
    have "distinct (answer_ids (tool_answers c env calls))"
      using dps idq dn idm conc_answers_ids [of c desc "ie_batch env" ?n] unfolding ref answer_ids_def by auto
    then have af: "answer_for ?ps = answer_for (tool_answers c env calls)"
      by (intro answer_for_cong [OF dps]) (simp_all add: ref q(2))
    have ans: "answered c i ?ps a b1" by (rule answered_append [OF s(1) q(1)])
    have sorted: "sort_by_call_order (map call_record calls) tri_call_id (map (result_item c) ?ps) =
        map (\<lambda>tc. result_item c (the (answer_for ?ps (ct_id tc)))) calls"
      by (rule items_in_call_order [OF d dps all])
    have "ag_results a3 = map (\<lambda>tc. result_item c (the (answer_for ?ps (ct_id tc)))) calls"
    proof (cases "?n = []")
      case True
      then have "?m = calls" by (simp add: filter_empty_conv filter_id_conv)
      moreover have "qs = []" using True q(2) by (simp add: conc_answers_def)
      moreover have "ag_results b1 = map (result_item c) ?ps" using ans empty by (simp add: answered_def)
      ultimately show ?thesis using True q(5) answers_in_order [OF idm dss] by simp
    next
      case False
      then show ?thesis using q(5) ans sorted empty by (simp add: answered_def)
    qed
    then show thesis
      using ans q(4,6) s(3) idq all by (intro that [OF dps af]) (auto simp: answered_def answer_ids_def)
  qed
qed

lemma answer_result_seeded:
  "answer_result c ps (seeded c tu tc) =
     (case answer_for ps (ct_id tc) of None \<Rightarrow> seeded c tu tc
      | Some (call, out) \<Rightarrow> filled c (ct_name call) out (seeded c tu tc))"
  by (simp add: answer_result_def)


lemma serial_listening:
  "ob_left (ag_out a) = None \<Longrightarrow> snd (serial_phase c desc i base env k calls ph a) \<noteq> None"
proof (induction calls arbitrary: k ph a)
  case (Cons call calls)
  have l1: "ob_left (ag_out (announce_call c desc call a)) = None"
    using live.R_announce [of a c desc call] Cons.prems by (simp add: listening_def)
  then have "snd (serial_tool c desc i base (env k) call ph a) \<noteq> None"
    by (simp add: serial_tool_def Let_def case_prod_unfold) (simp add: send_cmd_def ob_send_def)
  then obtain a1 ph1 where st: "serial_tool c desc i base (env k) call ph a = (a1, Some ph1)"
    by (metis not_None_eq prod.collapse)
  have "ob_left (ag_out a1) = None"
    using live.R_serial_tool [of a c desc i base "env k" call ph] Cons.prems st by (simp add: listening_def)
  from Cons.IH [OF this] show ?case using st by simp
qed simp

lemma concurrent_listening:
  assumes "ob_left (ag_out a) = None"
  shows "snd (concurrent_phase c desc i recs wakes calls ph a) \<noteq> None"
proof -
  have "ob_left (ag_out (fold (announce_call c desc) calls a)) = None"
    using live.R_fold [of "announce_call c desc" a calls, OF live.R_announce] assms by (simp add: listening_def)
  then show ?thesis
    by (simp add: concurrent_phase_def Let_def case_prod_unfold) (simp add: send_cmd_def ob_send_def)
qed

text \<open>While the session thread listens, no tool run is cut short.\<close>

lemma run_tools_listening:
  assumes "ob_left (ag_out a) = None"
  shows "snd (run_tools c env i tu a) \<noteq> Some (LoopOk False)"
proof -
  let ?a1 = "open_tool_turn c i tu a"
  have l1: "ob_left (ag_out ?a1) = None" using live.R_open [of a c i tu] assms by (simp add: listening_def)
  let ?calls = "tu_calls tu"
  let ?desc = "description_by_call c ?calls"
  let ?ser = "serial_phase c ?desc i (cfg_working_dir (config (ag_session ?a1))) (ie_serial env) 0
      (filter (\<lambda>tc. is_session_config_tool (ct_name tc)) ?calls)
      \<lparr>ph_executed = [], ph_changes = [], ph_cancelled = False\<rparr> ?a1"
  obtain a2 ph where ser: "?ser = (a2, Some ph)"
    using serial_listening [OF l1] by (metis not_None_eq prod.collapse)
  then have "ob_left (ag_out a2) = None"
    using live.R_serial_phase [of ?a1 c ?desc i "cfg_working_dir (config (ag_session ?a1))" "ie_serial env" 0] l1
    by (metis fst_conv listening_def)
  let ?con = "concurrent_phase c ?desc i (map call_record ?calls) (ie_batch env)
      (filter (\<lambda>tc. \<not> is_session_config_tool (ct_name tc)) ?calls) ph a2"
  obtain a3 ph' where con: "?con = (a3, Some ph')"
    using concurrent_listening [OF \<open>ob_left (ag_out a2) = None\<close>] by (metis not_None_eq prod.collapse)
  have "run_tools c env i tu a = close_tool_turn c i ph' a3"
    using ser con by (simp add: run_tools_def Let_def)
  then show ?thesis by (simp add: close_tool_turn_def Let_def)
qed


end
