(* ===== verification/Turn_Store.thy ===== *)
theory Turn_Store
  imports Storage "HOL-Library.Product_Lexorder" "HOL-Library.List_Lexorder" "HOL-Library.Char_ord"
begin

text \<open>
  The tables of the database (\<^verbatim>\<open>choreo-daemon/src/db/mod.rs\<close>, \<^verbatim>\<open>db/codec.rs\<close>) and the
  transactions on them, below the view of \<open>Storage\<close>. A \<^verbatim>\<open>redb\<close> table is a map ordered by its key
  that does not exist before the first write; tuples are ordered lexicographically and strings by
  their bytes. A turn is stored as one compressed blob without its image bytes, and one raw row
  per image. The serializer and the compressor are libraries: they are the fields of a \<open>codec\<close>,
  and what the code relies on is the predicate \<open>codec_carries\<close>.

  Every definition is the effect of a committed transaction; that an attempt may fail and then
  changes nothing is the business of \<open>Storage.attempt_write\<close>, to which \<open>store_db\<close> relates the
  tables.
\<close>

section \<open>Tables\<close>

type_synonym bytes = "u8 list"

type_synonym ('k, 'v) table = "('k, 'v) btmap option"

definition rows :: "('k, 'v) table \<Rightarrow> ('k, 'v) btmap" where
  "rows t = (case t of None \<Rightarrow> [] | Some m \<Rightarrow> m)"

definition tab_insert :: "'k::linorder \<Rightarrow> 'v \<Rightarrow> ('k, 'v) table \<Rightarrow> ('k, 'v) table" where
  "tab_insert k v t = Some (bt_insert k v (rows t))"

definition tab_insert_all :: "('k::linorder \<times> 'v) list \<Rightarrow> ('k, 'v) table \<Rightarrow> ('k, 'v) table" where
  "tab_insert_all kvs t = Some (fold (\<lambda>(k, v). bt_insert k v) kvs (rows t))"

definition tab_remove :: "'k \<Rightarrow> ('k, 'v) table \<Rightarrow> ('k, 'v) table" where
  "tab_remove k t = Some (AList.delete k (rows t))"

definition key_range :: "'k::linorder \<Rightarrow> 'k \<Rightarrow> ('k, 'v) btmap \<Rightarrow> ('k, 'v) btmap" where
  "key_range lo hi m = filter (\<lambda>(k, _). lo \<le> k \<and> k < hi) m"

text \<open>The two-pass removal the code uses everywhere: collect the keys of a range, remove each.\<close>

definition remove_range :: "'k::linorder \<Rightarrow> 'k \<Rightarrow> ('k, 'v) table \<Rightarrow> ('k, 'v) table" where
  "remove_range lo hi t = Some (fold AList.delete (keys (key_range lo hi (rows t))) (rows t))"

definition tab_wf :: "('k::linorder, 'v) table \<Rightarrow> bool" where
  "tab_wf t \<longleftrightarrow> bt_wf (rows t)"

record store =
  sto_sessions :: "(u64, bytes) table"
  sto_turns :: "(u64 \<times> u32, bytes) table"
  sto_attachments :: "(u64 \<times> u32 \<times> string, bytes) table"
  sto_kv :: "(u64 \<times> string, bytes) table"
  sto_deleted :: "(u64, unit) table"
  sto_meta :: "(string, u64) table"
  sto_credentials :: "(string, bytes) table"
  sto_catalog_state :: "(string, bytes) table"
  sto_keystore :: "(string, bytes) table"

definition store_wf :: "store \<Rightarrow> bool" where
  "store_wf st \<longleftrightarrow> tab_wf (sto_sessions st) \<and> tab_wf (sto_turns st) \<and> tab_wf (sto_attachments st)
     \<and> tab_wf (sto_kv st) \<and> tab_wf (sto_deleted st) \<and> tab_wf (sto_meta st)
     \<and> tab_wf (sto_credentials st) \<and> tab_wf (sto_catalog_state st) \<and> tab_wf (sto_keystore st)"

section \<open>The codec\<close>

text \<open>
  What a streaming decompressor yields: the bytes it produces, whether it then stops with an error,
  and how far it has read when it stops.
\<close>

record zstream =
  zs_output :: bytes
  zs_error :: bool
  zs_position :: nat

record codec =
  enc_turn :: "turn \<Rightarrow> bytes option"
  dec_turn :: "bytes \<Rightarrow> turn option"
  enc_session :: "session_record \<Rightarrow> bytes option"
  dec_session :: "bytes \<Rightarrow> session_record option"
  zstd_encode :: "bytes \<Rightarrow> bytes"
  zstd_stream :: "bytes \<Rightarrow> zstream option"

definition MAX_TURN_DECODED_BYTES :: nat where
  "MAX_TURN_DECODED_BYTES = 256 * 1024 * 1024"

definition ZSTD_FRAME_MAGIC :: bytes where
  "ZSTD_FRAME_MAGIC = [0x28, 0xB5, 0x2F, 0xFD]"

datatype zstd_error = ZInit | ZDecode | ZPastLimit | ZTrailing nat

definition zstd_decode_with_limit :: "codec \<Rightarrow> bytes \<Rightarrow> nat \<Rightarrow> zstd_error + bytes" where
  "zstd_decode_with_limit c blob limit =
     (case zstd_stream c blob of
        None \<Rightarrow> Inl ZInit
      | Some z \<Rightarrow>
          let buf = take (limit + 1) (zs_output z)
          in if limit < length buf then Inl ZPastLimit
             else if zs_error z then Inl ZDecode
             else if zs_position z \<noteq> length blob then Inl (ZTrailing (length blob - zs_position z))
             else Inr buf)"

definition zstd_decode :: "codec \<Rightarrow> bytes \<Rightarrow> zstd_error + bytes" where
  "zstd_decode c blob = zstd_decode_with_limit c blob MAX_TURN_DECODED_BYTES"

section \<open>Sessions and tombstones\<close>

definition store_write_session :: "codec \<Rightarrow> u64 \<Rightarrow> session_record \<Rightarrow> store \<Rightarrow> store option" where
  "store_write_session c sid r st =
     (case enc_session c r of
        None \<Rightarrow> None
      | Some payload \<Rightarrow> Some (st\<lparr>sto_sessions := tab_insert sid payload (sto_sessions st)\<rparr>))"

text \<open>\<open>None\<close> is the error of a table that does not exist; an undecodable record is absent.\<close>

definition store_read_session :: "codec \<Rightarrow> u64 \<Rightarrow> store \<Rightarrow> session_record option option" where
  "store_read_session c sid st =
     map_option (\<lambda>m. Option.bind (map_of m sid) (dec_session c)) (sto_sessions st)"

definition store_read_all_sessions :: "codec \<Rightarrow> store \<Rightarrow> (u64 \<times> session_record) list" where
  "store_read_all_sessions c st =
     sort_key fst (List.map_filter (\<lambda>(k, v). map_option (Pair k) (dec_session c v)) (rows (sto_sessions st)))"

definition store_mark_session_deleted :: "u64 \<Rightarrow> store \<Rightarrow> store" where
  "store_mark_session_deleted sid st = st\<lparr>sto_deleted := tab_insert sid () (sto_deleted st)\<rparr>"

definition store_clear_session_tombstone :: "u64 \<Rightarrow> store \<Rightarrow> store" where
  "store_clear_session_tombstone sid st = st\<lparr>sto_deleted := tab_remove sid (sto_deleted st)\<rparr>"

section \<open>Turns\<close>

definition d_slot :: "nat \<Rightarrow> string" where
  "d_slot i = ''d'' @ decimal i"

definition r_slot :: "string \<Rightarrow> string" where
  "r_slot call_id = ''r'' @ call_id"

definition storage_view :: "turn \<Rightarrow> turn" where
  "storage_view t =
     t\<lparr>displayed_images := map (\<lambda>img. img\<lparr>di_data := []\<rparr>) (displayed_images t),
       tool_results := map (\<lambda>r. r\<lparr>tr_image := map_option (\<lambda>im. im\<lparr>ir_data := []\<rparr>) (tr_image r)\<rparr>)
         (tool_results t)\<rparr>"

definition turn_range_end :: "u32 \<Rightarrow> u32" where
  "turn_range_end tid = (if tid = - 1 then tid else tid + 1)"

definition delete_turn_attachments :: "u64 \<Rightarrow> u32 \<Rightarrow> store \<Rightarrow> store" where
  "delete_turn_attachments sid tid st =
     st\<lparr>sto_attachments :=
         remove_range (sid, tid, []) (sid, turn_range_end tid, []) (sto_attachments st)\<rparr>"

definition delete_session_attachments :: "u64 \<Rightarrow> store \<Rightarrow> store" where
  "delete_session_attachments sid st =
     st\<lparr>sto_attachments :=
         remove_range (sid, 0, []) (session_range_end sid, 0, []) (sto_attachments st)\<rparr>"

definition display_rows :: "u64 \<Rightarrow> u32 \<Rightarrow> displayed_image_record list \<Rightarrow> ((u64 \<times> u32 \<times> string) \<times> bytes) list" where
  "display_rows sid tid imgs =
     map (\<lambda>(i, img). ((sid, tid, d_slot i), di_data img))
       (filter (\<lambda>(i, img). di_data img \<noteq> []) (enumerate 0 imgs))"

definition result_images :: "tool_result_record list \<Rightarrow> (string \<times> image_reference) list" where
  "result_images rs = List.map_filter (\<lambda>r. map_option (Pair (tr_call_id r)) (tr_image r)) rs"

definition result_rows :: "u64 \<Rightarrow> u32 \<Rightarrow> tool_result_record list \<Rightarrow> ((u64 \<times> u32 \<times> string) \<times> bytes) list" where
  "result_rows sid tid rs =
     map (\<lambda>(cid, im). ((sid, tid, r_slot cid), ir_data im))
       (filter (\<lambda>(cid, im). ir_data im \<noteq> []) (result_images rs))"

definition write_turn :: "codec \<Rightarrow> u64 \<Rightarrow> u32 \<Rightarrow> turn \<Rightarrow> store \<Rightarrow> store option" where
  "write_turn c sid tid t st =
     (case enc_turn c (storage_view t) of
        None \<Rightarrow> None
      | Some payload \<Rightarrow>
          let compressed = zstd_encode c payload;
              st1 = delete_turn_attachments sid tid st;
              att2 = tab_insert_all (display_rows sid tid (displayed_images t)) (sto_attachments st1);
              att3 = tab_insert_all (result_rows sid tid (tool_results t)) att2
          in Some (st1\<lparr>sto_attachments := att3, sto_turns := tab_insert (sid, tid) compressed (sto_turns st1)\<rparr>))"

definition fill_data :: "(u64 \<times> u32 \<times> string, bytes) btmap \<Rightarrow> u64 \<times> u32 \<times> string \<Rightarrow> bytes \<Rightarrow> bytes" where
  "fill_data att k d = (if d = [] then (case map_of att k of Some b \<Rightarrow> b | None \<Rightarrow> d) else d)"

definition reattach :: "(u64 \<times> u32 \<times> string, bytes) btmap \<Rightarrow> u64 \<Rightarrow> u32 \<Rightarrow> turn \<Rightarrow> turn" where
  "reattach att sid idx t =
     t\<lparr>displayed_images :=
         map (\<lambda>(i, img). img\<lparr>di_data := fill_data att (sid, idx, d_slot i) (di_data img)\<rparr>)
           (enumerate 0 (displayed_images t)),
       tool_results :=
         map (\<lambda>r. r\<lparr>tr_image := map_option
               (\<lambda>im. im\<lparr>ir_data := fill_data att (sid, idx, r_slot (tr_call_id r)) (ir_data im)\<rparr>) (tr_image r)\<rparr>)
           (tool_results t)\<rparr>"

definition decode_row :: "codec \<Rightarrow> bytes \<Rightarrow> turn option" where
  "decode_row c blob = (case zstd_decode c blob of Inl _ \<Rightarrow> None | Inr buf \<Rightarrow> dec_turn c buf)"

definition read_turns :: "codec \<Rightarrow> u64 \<Rightarrow> store \<Rightarrow> (u32, turn) btmap option" where
  "read_turns c sid st =
     map_option (\<lambda>m. List.map_filter
         (\<lambda>((_, idx), blob).
            map_option (\<lambda>t. (idx, reattach (rows (sto_attachments st)) sid idx t)) (decode_row c blob))
         (key_range (sid, 0) (session_range_end sid, 0) m))
       (sto_turns st)"

text \<open>The deletion of all turns scans the whole table and compares the session id.\<close>

definition delete_session_turns :: "u64 \<Rightarrow> store \<Rightarrow> store" where
  "delete_session_turns sid st =
     delete_session_attachments sid
       (st\<lparr>sto_turns :=
          Some (fold AList.delete (filter (\<lambda>k. fst k = sid) (keys (rows (sto_turns st)))) (rows (sto_turns st)))\<rparr>)"

definition store_delete_session :: "u64 \<Rightarrow> store \<Rightarrow> store" where
  "store_delete_session sid st =
     delete_session_attachments sid
       (st\<lparr>sto_sessions := tab_remove sid (sto_sessions st),
           sto_turns := remove_range (sid, 0) (session_range_end sid, 0) (sto_turns st),
           sto_kv := remove_range (sid, []) (session_range_end sid, []) (sto_kv st)\<rparr>)"

section \<open>What the rest of the daemon sees\<close>

definition stored_turn :: "codec \<Rightarrow> store \<Rightarrow> u64 \<times> u32 \<Rightarrow> turn option" where
  "stored_turn c st k =
     Option.bind (map_of (rows (sto_turns st)) k)
       (\<lambda>blob. map_option (reattach (rows (sto_attachments st)) (fst k) (snd k)) (decode_row c blob))"

definition store_db :: "codec \<Rightarrow> store \<Rightarrow> bool list \<Rightarrow> db" where
  "store_db c st fs =
     \<lparr>db_sessions = (\<lambda>s. Option.bind (map_of (rows (sto_sessions st)) s) (dec_session c)),
      db_turns = stored_turn c st,
      db_tombstones = set (keys (rows (sto_deleted st))),
      db_faults = fs\<rparr>"

text \<open>
  What the code relies on of the serializer and the compressor for one turn: it is serialized, its
  blob decompresses to the serialization in one complete frame within the size limit, and that
  deserializes to the turn.
\<close>

definition codec_carries :: "codec \<Rightarrow> turn \<Rightarrow> bool" where
  "codec_carries c t \<longleftrightarrow>
     (case enc_turn c t of
        None \<Rightarrow> False
      | Some p \<Rightarrow>
          length p \<le> MAX_TURN_DECODED_BYTES \<and> dec_turn c p = Some t
          \<and> zstd_stream c (zstd_encode c p) =
              Some \<lparr>zs_output = p, zs_error = False, zs_position = length (zstd_encode c p)\<rparr>)"

section \<open>Table lemmas\<close>

lemma rows_simps [simp]:
  "rows None = []"
  "rows (Some m) = m"
  by (simp_all add: rows_def)

lemma rows_tab [simp]:
  "rows (tab_insert k v t) = bt_insert k v (rows t)"
  "rows (tab_remove k t) = AList.delete k (rows t)"
  "rows (tab_insert_all kvs t) = fold (\<lambda>(k, v). bt_insert k v) kvs (rows t)"
  by (simp_all add: tab_insert_def tab_remove_def tab_insert_all_def)

lemma fold_delete: "fold AList.delete ks m = filter (\<lambda>(k, _). k \<notin> set ks) m"
  by (induction ks arbitrary: m) (auto simp: AList.delete_eq case_prod_unfold intro: filter_cong)

lemma rows_remove_range [simp]:
  "rows (remove_range lo hi t) = filter (\<lambda>(k, _). \<not> (lo \<le> k \<and> k < hi)) (rows t)"
  by (force simp: remove_range_def fold_delete key_range_def intro!: filter_cong)

lemma map_of_filter_key: "map_of (filter (\<lambda>(k, _). P k) m) k = (if P k then map_of m k else None)"
  by (induction m) auto

lemma map_of_remove_range [simp]:
  "map_of (rows (remove_range lo hi t)) k = (if lo \<le> k \<and> k < hi then None else map_of (rows t) k)"
  using map_of_filter_key [of "\<lambda>k. \<not> (lo \<le> k \<and> k < hi)" "rows t" k] by auto

lemma tab_wf_simps [simp]:
  "tab_wf t \<Longrightarrow> tab_wf (tab_insert k v t)"
  "tab_wf t \<Longrightarrow> tab_wf (tab_remove k t)"
  "tab_wf t \<Longrightarrow> tab_wf (tab_insert_all kvs t)"
  "tab_wf t \<Longrightarrow> tab_wf (remove_range lo hi t)"
  using bt.wf_put_all [of "rows t" kvs]
  by (simp_all add: tab_wf_def bt_wf_insert bt_wf_delete bt_wf_filter bt.put_all_def)

lemma map_of_tab_insert_all:
  "tab_wf t \<Longrightarrow> distinct (map fst kvs) \<Longrightarrow>
   map_of (rows (tab_insert_all kvs t)) k =
     (case map_of kvs k of Some v \<Rightarrow> Some v | None \<Rightarrow> map_of (rows t) k)"
  using bt.get_put_all [of "rows t" kvs k] by (simp add: tab_wf_def bt.put_all_def)

text \<open>Two ordered maps with the same lookups are equal.\<close>

lemma bt_wf_ext:
  fixes m m' :: "('k::linorder, 'v) btmap"
  assumes "bt_wf m" and "bt_wf m'" and "map_of m = map_of m'"
  shows "m = m'"
proof (rule bt_wf_eqI)
  have "set (keys m) = set (keys m')" using assms(3) by (metis dom_map_of_conv_image_fst set_map)
  then show "keys m = keys m'"
    using assms(1,2) by (auto simp: bt_wf_def strict_sorted_iff intro: sorted_distinct_set_unique)
qed (use assms in simp_all)

lemma word_range_iff:
  fixes w s :: "'a::len word"
  assumes "w \<noteq> - 1"
  shows "w \<le> s \<and> s < w + 1 \<longleftrightarrow> s = w"
  using unat_succ [OF assms] by (auto simp: word_le_nat_alt word_less_nat_alt word_unat_eq_iff)

lemma session_range_iff:
  "sid \<noteq> - 1 \<Longrightarrow> sid \<le> s \<and> s < session_range_end sid \<longleftrightarrow> s = sid"
  by (simp add: session_range_end_def word_range_iff)

text \<open>The ranges of one session and of one turn, for the largest id excepted.\<close>

lemma range_iffs:
  "sid \<noteq> - 1 \<Longrightarrow> (sid, 0) \<le> k \<and> k < (session_range_end sid, 0 :: u32) \<longleftrightarrow> fst k = sid"
  "sid \<noteq> - 1 \<Longrightarrow> (sid, []) \<le> kk \<and> kk < (session_range_end sid, [] :: string) \<longleftrightarrow> fst kk = sid"
  "sid \<noteq> - 1 \<Longrightarrow> (sid, 0, []) \<le> ka \<and> ka < (session_range_end sid, 0 :: u32, [] :: string) \<longleftrightarrow> fst ka = sid"
  "tid \<noteq> - 1 \<Longrightarrow> (sid, tid, []) \<le> ka \<and> ka < (sid, turn_range_end tid, []) \<longleftrightarrow> fst ka = sid \<and> fst (snd ka) = tid"
  using session_range_iff [of sid "fst k"] session_range_iff [of sid "fst kk"]
    session_range_iff [of sid "fst ka"] word_range_iff [of tid "fst (snd ka)"]
  by (auto simp: less_eq_prod_def less_prod_def turn_range_end_def)

section \<open>Reading turns\<close>

lemma map_of_read:
  assumes "bt_wf m"
  shows "map_of (List.map_filter (\<lambda>((s, i), b). map_option (Pair i) (f i b)) (filter (\<lambda>(k, _). fst k = sid) m)) i
    = Option.bind (map_of m (sid, i)) (f i)"
  using assms
proof (induction m)
  case Nil
  show ?case by (simp add: List.map_filter_simps)
next
  case (Cons kb m)
  obtain s j b where kb: "kb = ((s, j), b)" by (metis prod.collapse)
  from Cons.prems kb have wf: "bt_wf m" and lt: "\<And>k. k \<in> set (keys m) \<Longrightarrow> (s, j) < k"
    by (auto simp: bt_wf_Cons)
  from lt have "map_of m (s, j) = None" by (metis less_irrefl map_of_eq_None_iff set_map)
  with Cons.IH [OF wf] kb show ?case
    by (auto simp: List.map_filter_simps split: option.splits)
qed

lemma bt_wf_read:
  fixes f :: "u32 \<Rightarrow> 'b \<Rightarrow> 'v option" and m :: "(u64 \<times> u32, 'b) btmap"
  assumes "bt_wf m"
  shows "bt_wf (List.map_filter (\<lambda>((s, i), b). map_option (Pair i) (f i b)) (filter (\<lambda>(k, _). fst k = sid) m))"
  using assms
proof (induction m)
  case Nil
  show ?case by (simp add: List.map_filter_simps)
next
  case (Cons kb m)
  obtain s j b where kb: "kb = ((s, j), b)" by (metis prod.collapse)
  from Cons.prems kb have wf: "bt_wf m" and lt: "\<And>s' i' b'. ((s', i'), b') \<in> set m \<Longrightarrow> (s, j) < (s', i')"
    by (force simp: bt_wf_Cons)+
  have "j < i'" if "((s, i'), b') \<in> set m" for i' b'
    using lt [OF that] by simp
  with Cons.IH [OF wf] kb show ?case
    by (auto simp: List.map_filter_simps bt_wf_Cons List.map_filter_def split: option.splits)
qed

lemma read_turns_Some:
  assumes "store_wf st" and "sid \<noteq> - 1" and "sto_turns st \<noteq> None"
  shows "\<exists>ts. read_turns c sid st = Some ts \<and> bt_wf ts \<and> map_of ts = (\<lambda>i. stored_turn c st (sid, i))"
proof -
  obtain m where m: "sto_turns st = Some m" and wf: "bt_wf m"
    using assms(1,3) by (auto simp: store_wf_def tab_wf_def)
  define f where "f = (\<lambda>i b. map_option (reattach (rows (sto_attachments st)) sid i) (decode_row c b))"
  let ?ts = "List.map_filter (\<lambda>((s, i), b). map_option (Pair i) (f i b)) (filter (\<lambda>(k, _). fst k = sid) m)"
  have "read_turns c sid st = Some ?ts"
    using assms(2) m range_iffs(1)
    by (simp add: read_turns_def key_range_def f_def option.map_comp comp_def case_prod_unfold)
  moreover have "map_of ?ts = (\<lambda>i. stored_turn c st (sid, i))"
    using m wf by (simp add: fun_eq_iff map_of_read stored_turn_def f_def)
  ultimately show ?thesis using bt_wf_read [OF wf] by blast
qed

section \<open>Writing a turn\<close>

lemma slot_simps [simp]:
  "d_slot i = d_slot j \<longleftrightarrow> i = j"
  "r_slot x = r_slot y \<longleftrightarrow> x = y"
  "d_slot i \<noteq> r_slot x"
  "r_slot x \<noteq> d_slot i"
  by (simp_all add: d_slot_def r_slot_def)

lemma display_rows_lookup_from:
  "map_of (map (\<lambda>(i, img). ((sid, tid, d_slot i), di_data img))
       (filter (\<lambda>(i, img). di_data img \<noteq> []) (enumerate n imgs))) (sid, tid, d_slot j) =
   (if n \<le> j \<and> j - n < length imgs \<and> di_data (imgs ! (j - n)) \<noteq> []
    then Some (di_data (imgs ! (j - n))) else None)"
proof (induction imgs arbitrary: n)
  case Nil
  show ?case by simp
next
  case (Cons img imgs)
  show ?case
  proof (cases "j = n")
    case True
    then show ?thesis using Cons [of "Suc n"] by simp
  next
    case False
    then have "n \<le> j \<longleftrightarrow> Suc n \<le> j" and "Suc n \<le> j \<Longrightarrow> j - n = Suc (j - Suc n)" by linarith+
    then show ?thesis using False Cons [of "Suc n"] by auto
  qed
qed

lemma display_rows_lookup:
  "j < length imgs \<Longrightarrow>
   map_of (display_rows sid tid imgs) (sid, tid, d_slot j) =
     (if di_data (imgs ! j) = [] then None else Some (di_data (imgs ! j)))"
  using display_rows_lookup_from [of sid tid 0 imgs j] by (simp add: display_rows_def)

lemma result_rows_lookup:
  assumes "distinct (map fst (result_images rs))" and "(cid, im) \<in> set (result_images rs)"
  shows "map_of (result_rows sid tid rs) (sid, tid, r_slot cid) =
    (if ir_data im = [] then None else Some (ir_data im))"
proof -
  have "map_of (map (\<lambda>(cid, im). ((sid, tid, r_slot cid), ir_data im))
       (filter (\<lambda>(cid, im). ir_data im \<noteq> []) ims)) (sid, tid, r_slot cid) =
    (if ir_data im = [] then None else Some (ir_data im))"
    if "distinct (map fst ims)" and "(cid, im) \<in> set ims" for ims
    using that by (induction ims) (force simp: map_of_eq_None_iff)+
  then show ?thesis using assms by (simp add: result_rows_def)
qed

lemma rows_disjoint:
  "k \<in> set (keys (display_rows sid tid imgs)) \<Longrightarrow> \<exists>i. k = (sid, tid, d_slot i)"
  "k \<in> set (keys (result_rows sid tid rs)) \<Longrightarrow> \<exists>x. k = (sid, tid, r_slot x)"
  by (auto simp: display_rows_def result_rows_def)

lemma rows_none:
  "map_of (result_rows sid tid rs) (s, i, d_slot j) = None"
  "map_of (display_rows sid tid imgs) (s, i, r_slot x) = None"
  by (auto simp: map_of_eq_None_iff result_rows_def display_rows_def)

lemma distinct_map_inj: "inj f \<Longrightarrow> distinct xs \<Longrightarrow> distinct (map f xs)"
  by (auto simp: distinct_map intro: inj_on_subset)

lemma rows_distinct:
  "distinct (keys (display_rows sid tid imgs))"
  "distinct (map fst (result_images rs)) \<Longrightarrow> distinct (keys (result_rows sid tid rs))"
proof -
  have "map fst (display_rows sid tid imgs) =
      map (\<lambda>i. (sid, tid, d_slot i)) (map fst (filter (\<lambda>(i, img). di_data img \<noteq> []) (enumerate 0 imgs)))"
    by (simp add: display_rows_def comp_def case_prod_unfold)
  then show "distinct (keys (display_rows sid tid imgs))"
    by (simp only:) (rule distinct_map_inj; (rule distinct_map_filter)?; simp add: inj_on_def)
  have "map fst (result_rows sid tid rs) =
      map (\<lambda>x. (sid, tid, r_slot x)) (map fst (filter (\<lambda>(cid, im). ir_data im \<noteq> []) (result_images rs)))"
    by (simp add: result_rows_def comp_def case_prod_unfold)
  moreover assume "distinct (map fst (result_images rs))"
  ultimately show "distinct (keys (result_rows sid tid rs))"
    by (simp only:) (rule distinct_map_inj; (rule distinct_map_filter)?; simp add: inj_on_def)
qed

lemma write_turn_attachments:
  assumes "store_wf st" and "tid \<noteq> - 1" and "distinct (map fst (result_images (tool_results t)))"
    and w: "write_turn c sid tid t st = Some st'"
  shows "map_of (rows (sto_attachments st')) k =
    (if fst k = sid \<and> fst (snd k) = tid
     then case map_of (result_rows sid tid (tool_results t)) k of
            Some b \<Rightarrow> Some b | None \<Rightarrow> map_of (display_rows sid tid (displayed_images t)) k
     else map_of (rows (sto_attachments st)) k)"
proof -
  let ?a1 = "remove_range (sid, tid, []) (sid, turn_range_end tid, []) (sto_attachments st)"
  let ?a2 = "tab_insert_all (display_rows sid tid (displayed_images t)) ?a1"
  have wf: "tab_wf ?a1" and wf2: "tab_wf ?a2" using assms(1) by (simp_all add: store_wf_def)
  have "sto_attachments st' = tab_insert_all (result_rows sid tid (tool_results t)) ?a2"
    using w by (auto simp: write_turn_def delete_turn_attachments_def Let_def split: option.splits)
  then have "map_of (rows (sto_attachments st')) k =
      (case map_of (result_rows sid tid (tool_results t)) k of Some b \<Rightarrow> Some b | None \<Rightarrow>
        (case map_of (display_rows sid tid (displayed_images t)) k of Some b \<Rightarrow> Some b
         | None \<Rightarrow> map_of (rows ?a1) k))"
    using map_of_tab_insert_all [OF wf2 rows_distinct(2) [OF assms(3)]]
      map_of_tab_insert_all [OF wf rows_distinct(1)] by (simp only:)
  moreover have "map_of (rows ?a1) k =
      (if fst k = sid \<and> fst (snd k) = tid then None else map_of (rows (sto_attachments st)) k)"
    unfolding map_of_remove_range range_iffs(4) [OF assms(2)] by (rule refl)
  moreover have "map_of (result_rows sid tid (tool_results t)) k = None
      \<and> map_of (display_rows sid tid (displayed_images t)) k = None"
    if "\<not> (fst k = sid \<and> fst (snd k) = tid)"
    using that by (metis fst_conv map_of_eq_None_iff rows_disjoint set_map snd_conv)
  ultimately show ?thesis by (auto split: option.splits)
qed

lemma zstd_decode_carries:
  "codec_carries c t \<Longrightarrow> enc_turn c t = Some p \<Longrightarrow> decode_row c (zstd_encode c p) = Some t"
  by (simp add: codec_carries_def decode_row_def zstd_decode_def zstd_decode_with_limit_def)

text \<open>Attaching the stored bytes to the stripped turn gives the turn back.\<close>

lemma reattach_storage_view:
  assumes d: "\<And>j. j < length (displayed_images t) \<Longrightarrow>
      map_of att (sid, tid, d_slot j) =
        (let b = di_data (displayed_images t ! j) in if b = [] then None else Some b)"
    and r: "\<And>cid im. (cid, im) \<in> set (result_images (tool_results t)) \<Longrightarrow>
      map_of att (sid, tid, r_slot cid) = (if ir_data im = [] then None else Some (ir_data im))"
  shows "reattach att sid tid (storage_view t) = t"
proof -
  have "map (\<lambda>(i, img). img\<lparr>di_data := fill_data att (sid, tid, d_slot i) (di_data img)\<rparr>)
      (enumerate 0 (map (\<lambda>img. img\<lparr>di_data := []\<rparr>) (displayed_images t))) = displayed_images t"
    by (rule nth_equalityI) (auto simp: nth_enumerate_eq fill_data_def d Let_def)
  moreover have "x\<lparr>tr_image := map_option (\<lambda>im. im\<lparr>ir_data :=
        fill_data att (sid, tid, r_slot (tr_call_id x)) (ir_data im)\<rparr>)
      (map_option (\<lambda>im. im\<lparr>ir_data := []\<rparr>) (tr_image x))\<rparr> = x" if "x \<in> set (tool_results t)" for x
  proof (cases "tr_image x")
    case None
    then show ?thesis by (cases x) simp
  next
    case (Some im)
    with that have "(tr_call_id x, im) \<in> set (result_images (tool_results t))"
      by (force simp: result_images_def List.map_filter_def)
    from r [OF this] Some show ?thesis by (cases x) (simp add: fill_data_def)
  qed
  then have "map (\<lambda>r. r\<lparr>tr_image := map_option (\<lambda>im. im\<lparr>ir_data :=
        fill_data att (sid, tid, r_slot (tr_call_id r)) (ir_data im)\<rparr>) (tr_image r)\<rparr>)
      (map (\<lambda>r. r\<lparr>tr_image := map_option (\<lambda>im. im\<lparr>ir_data := []\<rparr>) (tr_image r)\<rparr>) (tool_results t))
      = tool_results t"
    by (auto simp: comp_def intro: map_idI)
  ultimately show ?thesis by (simp add: reattach_def storage_view_def)
qed

lemma reattach_cong:
  assumes "\<And>x. map_of att (sid, tid, x) = map_of att' (sid, tid, x)"
  shows "reattach att sid tid t = reattach att' sid tid t"
proof -
  have "fill_data att (sid, tid, x) = fill_data att' (sid, tid, x)" for x
    using assms by (simp add: fill_data_def fun_eq_iff)
  then show ?thesis by (simp add: reattach_def)
qed

lemma write_turn_tables:
  assumes "write_turn c sid tid t st = Some st'"
  shows "\<exists>p. enc_turn c (storage_view t) = Some p
    \<and> rows (sto_turns st') = bt_insert (sid, tid) (zstd_encode c p) (rows (sto_turns st))"
    "sto_sessions st' = sto_sessions st" "sto_deleted st' = sto_deleted st" "sto_kv st' = sto_kv st"
    "sto_turns st' \<noteq> None" "store_wf st \<Longrightarrow> store_wf st'"
proof -
  obtain p where p: "enc_turn c (storage_view t) = Some p"
    using assms by (auto simp: write_turn_def split: option.splits)
  with assms have st': "st' = st\<lparr>sto_attachments :=
      tab_insert_all (result_rows sid tid (tool_results t))
        (tab_insert_all (display_rows sid tid (displayed_images t))
          (remove_range (sid, tid, []) (sid, turn_range_end tid, []) (sto_attachments st))),
      sto_turns := tab_insert (sid, tid) (zstd_encode c p) (sto_turns st)\<rparr>"
    by (simp add: write_turn_def delete_turn_attachments_def Let_def)
  show "\<exists>p. enc_turn c (storage_view t) = Some p
      \<and> rows (sto_turns st') = bt_insert (sid, tid) (zstd_encode c p) (rows (sto_turns st))"
    using p st' by simp
  show "sto_sessions st' = sto_sessions st" "sto_deleted st' = sto_deleted st" "sto_kv st' = sto_kv st"
    "sto_turns st' \<noteq> None" "store_wf st \<Longrightarrow> store_wf st'"
    using st' by (simp_all add: tab_insert_def [of "(sid, tid)"] store_wf_def) (simp add: tab_wf_def bt_wf_insert)
qed

lemma write_turn_stored:
  assumes "store_wf st" and "tid \<noteq> - 1" and "distinct (map fst (result_images (tool_results t)))"
    and "codec_carries c (storage_view t)" and w: "write_turn c sid tid t st = Some st'"
  shows "stored_turn c st' = (stored_turn c st)((sid, tid) \<mapsto> t)"
proof
  fix k :: "u64 \<times> u32"
  note att = write_turn_attachments [OF assms(1-3) w]
  obtain p where p: "enc_turn c (storage_view t) = Some p"
    and rows: "rows (sto_turns st') = bt_insert (sid, tid) (zstd_encode c p) (rows (sto_turns st))"
    using write_turn_tables(1) [OF w] by blast
  show "stored_turn c st' k = ((stored_turn c st)((sid, tid) \<mapsto> t)) k"
  proof (cases "k = (sid, tid)")
    case True
    have "reattach (rows (sto_attachments st')) sid tid (storage_view t) = t"
      by (rule reattach_storage_view)
        (simp_all add: att rows_none display_rows_lookup result_rows_lookup [OF assms(3)] Let_def split: option.splits)
    then show ?thesis using True rows zstd_decode_carries [OF assms(4) p]
      by (simp add: stored_turn_def)
  next
    case False
    then have "reattach (rows (sto_attachments st')) (fst k) (snd k) = reattach (rows (sto_attachments st)) (fst k) (snd k)"
      by (intro ext reattach_cong) (auto simp: att prod_eq_iff)
    with False rows show ?thesis by (simp add: stored_turn_def)
  qed
qed

text \<open>What a caller gets from a read, a missing table being no turns.\<close>

definition turns_of :: "codec \<Rightarrow> u64 \<Rightarrow> store \<Rightarrow> (u32, turn) btmap" where
  "turns_of c sid st = (case read_turns c sid st of None \<Rightarrow> [] | Some ts \<Rightarrow> ts)"

lemma turns_of_stored:
  assumes "store_wf st" and "sid \<noteq> - 1"
  shows "bt_wf (turns_of c sid st)" and "map_of (turns_of c sid st) = (\<lambda>i. stored_turn c st (sid, i))"
proof -
  have "bt_wf (turns_of c sid st) \<and> map_of (turns_of c sid st) = (\<lambda>i. stored_turn c st (sid, i))"
  proof (cases "sto_turns st")
    case None
    then show ?thesis by (simp add: turns_of_def read_turns_def stored_turn_def fun_eq_iff)
  next
    case (Some m)
    then show ?thesis using read_turns_Some [OF assms, of c] by (auto simp: turns_of_def)
  qed
  then show "bt_wf (turns_of c sid st)" and "map_of (turns_of c sid st) = (\<lambda>i. stored_turn c st (sid, i))"
    by simp_all
qed

lemma turns_of_max: "turns_of c (- 1) st = []"
proof -
  have "key_range (- 1, 0 :: u32) (session_range_end (- 1), 0) m = []" for m :: "(u64 \<times> u32, bytes) btmap"
    by (auto simp: key_range_def session_range_end_def filter_empty_conv less_eq_prod_def less_prod_def)
  then show ?thesis by (simp add: turns_of_def read_turns_def List.map_filter_simps split: option.splits)
qed

lemma turns_of_cong:
  assumes "store_wf st" and "store_wf st'" and "\<And>i. stored_turn c st' (s, i) = stored_turn c st (s, i)"
  shows "turns_of c s st' = turns_of c s st"
proof (cases "s = - 1")
  case False
  show ?thesis
    by (rule bt_wf_ext) (use turns_of_stored [OF assms(1) False] turns_of_stored [OF assms(2) False] assms(3) in simp_all)
qed (simp add: turns_of_max)

lemma write_turn_read:
  assumes "store_wf st" and "sid \<noteq> - 1" and "tid \<noteq> - 1" and "distinct (map fst (result_images (tool_results t)))"
    and "codec_carries c (storage_view t)" and w: "write_turn c sid tid t st = Some st'"
  shows "turns_of c sid st' = bt_insert tid t (turns_of c sid st)"
proof -
  note wf = write_turn_tables(6) [OF w assms(1)]
  note st = write_turn_stored [OF assms(1,3,4,5) w]
  show ?thesis
  proof (rule bt_wf_ext)
    show "bt_wf (turns_of c sid st')" by (rule turns_of_stored(1) [OF wf assms(2)])
    show "bt_wf (bt_insert tid t (turns_of c sid st))"
      by (rule bt_wf_insert, rule turns_of_stored(1) [OF assms(1,2)])
    show "map_of (turns_of c sid st') = map_of (bt_insert tid t (turns_of c sid st))"
      by (simp add: turns_of_stored(2) [OF wf assms(2)] turns_of_stored(2) [OF assms(1,2)] st fun_eq_iff)
  qed
qed

lemma delete_session_tables:
  assumes "sid \<noteq> - 1"
  shows "rows (sto_turns (store_delete_session sid st)) = filter (\<lambda>(k, _). fst k \<noteq> sid) (rows (sto_turns st))"
    "rows (sto_kv (store_delete_session sid st)) = filter (\<lambda>(k, _). fst k \<noteq> sid) (rows (sto_kv st))"
    "rows (sto_attachments (store_delete_session sid st)) = filter (\<lambda>(k, _). fst k \<noteq> sid) (rows (sto_attachments st))"
    "rows (sto_sessions (store_delete_session sid st)) = AList.delete sid (rows (sto_sessions st))"
    "sto_deleted (store_delete_session sid st) = sto_deleted st"
    "store_wf st \<Longrightarrow> store_wf (store_delete_session sid st)"
  using range_iffs(1-3) [OF assms]
  by (simp_all add: store_delete_session_def delete_session_attachments_def store_wf_def)

lemma delete_session_turns_tables:
  assumes "sid \<noteq> - 1"
  shows "rows (sto_turns (delete_session_turns sid st)) = filter (\<lambda>(k, _). fst k \<noteq> sid) (rows (sto_turns st))"
    "rows (sto_attachments (delete_session_turns sid st)) = filter (\<lambda>(k, _). fst k \<noteq> sid) (rows (sto_attachments st))"
  using range_iffs(3) [OF assms]
  by (force simp: delete_session_turns_def delete_session_attachments_def fold_delete intro!: filter_cong)+

lemma delete_session_stored:
  assumes "sid \<noteq> - 1"
  shows "stored_turn c (store_delete_session sid st) (s, i) = (if s = sid then None else stored_turn c st (s, i))"
proof -
  have "reattach (filter (\<lambda>(k, _). fst k \<noteq> sid) att) s i = reattach att s i" if "s \<noteq> sid" for att
    using that by (intro ext reattach_cong) (simp add: map_of_filter_key [of "\<lambda>k. fst k \<noteq> sid"])
  then show ?thesis
    by (simp add: stored_turn_def delete_session_tables [OF assms] map_of_filter_key [of "\<lambda>k. fst k \<noteq> sid"])
qed

section \<open>A small store\<close>

text \<open>A turn with a displayed image and a tool result with an image, and a codec for it: the
  serialization is one byte, the compressor adds the frame marker.\<close>

definition demo_image_turn :: turn where
  "demo_image_turn = (new_turn 5 (Some ''look''))
     \<lparr>displayed_images := [\<lparr>di_metadata = \<lparr>im_mime_type = ''image/png'', im_width = 1, im_height = 1,
          im_byte_len = 2, im_alt = None\<rparr>, di_data = [1, 2], di_tool_call_id = None\<rparr>],
      tool_results := [\<lparr>tr_call_id = ''0'', tr_name = ''view'', tr_content = ''ok'', tr_is_error = False,
          tr_invocation_description = [], tr_image = Some \<lparr>ir_path = ''a.png'', ir_mime_type = ''image/png'',
            ir_width = 1, ir_height = 1, ir_data = [7]\<rparr>\<rparr>]\<rparr>"

definition demo_codec :: codec where
  "demo_codec = \<lparr>enc_turn = (\<lambda>t. if t = storage_view demo_image_turn then Some [0x8D] else None),
     dec_turn = (\<lambda>b. if b = [0x8D] then Some (storage_view demo_image_turn) else None),
     enc_session = (\<lambda>_. None), dec_session = (\<lambda>_. None),
     zstd_encode = (\<lambda>p. ZSTD_FRAME_MAGIC @ p),
     zstd_stream = (\<lambda>b. if take 4 b = ZSTD_FRAME_MAGIC
        then Some \<lparr>zs_output = drop 4 b, zs_error = False, zs_position = length b\<rparr> else None)\<rparr>"

definition empty_store :: store where
  "empty_store = \<lparr>sto_sessions = None, sto_turns = None, sto_attachments = None, sto_kv = None,
     sto_deleted = None, sto_meta = None, sto_credentials = None, sto_catalog_state = None, sto_keystore = None\<rparr>"

lemma demo_store_facts:
  "store_wf empty_store"
  "codec_carries demo_codec (storage_view demo_image_turn)"
  "distinct (map fst (result_images (tool_results demo_image_turn)))"
  by (simp_all add: store_wf_def tab_wf_def empty_store_def codec_carries_def demo_codec_def
      ZSTD_FRAME_MAGIC_def MAX_TURN_DECODED_BYTES_def demo_image_turn_def result_images_def
      List.map_filter_def)

section \<open>Properties\<close>



text \<open>
  Deleting a session leaves nothing of it. In the abstract database the transaction is the
  removal of the session's record and turns (\<^const>\<open>remove_session_rows\<close>); in the tables exactly
  the turn, key-value and attachment rows of the session go, and all others stay as they are; the
  separate deletion of all turns, which scans the table instead of a range, removes the same turns
  and attachments.
\<close>

lemma session_delete_refines:
  assumes "store_wf st" and "sid \<noteq> - 1"
  shows "store_db c (store_delete_session sid st) fs = remove_session_rows sid (store_db c st fs)
    \<and> store_wf (store_delete_session sid st)
    \<and> rows (sto_kv (store_delete_session sid st)) = filter (\<lambda>(k, _). fst k \<noteq> sid) (rows (sto_kv st))
    \<and> rows (sto_attachments (store_delete_session sid st)) =
        filter (\<lambda>(k, _). fst k \<noteq> sid) (rows (sto_attachments st))
    \<and> rows (sto_turns (delete_session_turns sid st)) = rows (sto_turns (store_delete_session sid st))
    \<and> rows (sto_attachments (delete_session_turns sid st)) = rows (sto_attachments (store_delete_session sid st))"
proof -
  have "stored_turn c (store_delete_session sid st) =
      (\<lambda>(s, i). if sid \<le> s \<and> s < session_range_end sid then None else stored_turn c st (s, i))"
    by (simp add: fun_eq_iff delete_session_stored [OF assms(2)] session_range_iff [OF assms(2)])
  moreover have "(\<lambda>s. Option.bind (map_of (rows (sto_sessions (store_delete_session sid st))) s) (dec_session c)) =
      (\<lambda>s. Option.bind (map_of (rows (sto_sessions st)) s) (dec_session c))(sid := None)"
    by (simp add: fun_eq_iff delete_session_tables [OF assms(2)] delete_conv' restrict_map_def)
  ultimately have "store_db c (store_delete_session sid st) fs = remove_session_rows sid (store_db c st fs)"
    by (simp add: store_db_def remove_session_rows_def delete_session_tables [OF assms(2)] cong: if_cong)
  then show ?thesis
    using delete_session_tables [OF assms(2)] delete_session_turns_tables [OF assms(2)] assms(1) by simp
qed

lemma session_delete_refines_witness:
  "sto_kv (store_delete_session 1 (empty_store\<lparr>sto_kv := Some [((1, ''k''), [3]), ((2, ''k''), [4])]\<rparr>))
    = Some [((2, ''k''), [4])]"
proof -
  let ?st = "empty_store\<lparr>sto_kv := Some [((1, ''k''), [3]), ((2, ''k''), [4])]\<rparr>"
  have "store_wf ?st" by (simp add: store_wf_def tab_wf_def bt_wf_def empty_store_def)
  from session_delete_refines [OF this, of 1 demo_codec "[]"]
  have "rows (sto_kv (store_delete_session 1 ?st)) = [((2, ''k''), [4])]" by simp
  then show ?thesis
    by (simp add: store_delete_session_def delete_session_attachments_def remove_range_def)
qed

end
