(* ===== verification/Migration.thy ===== *)
theory Migration
  imports Turn_Store
begin

text \<open>
  Opening the database file and bringing its schema up to date
  (\<^verbatim>\<open>choreo-daemon/src/db/mod.rs\<close>, \<^verbatim>\<open>cli.rs\<close>). The state is what is on disk: the database
  file and its backups. \<open>fs_faults\<close> lists the outcomes of the coming accesses to the disk as in
  \<open>Storage\<close>; since the startup sequence ends at the first failure, a fault at an access also stands
  for a crash of the daemon at that point, and every theorem holds for all lists of outcomes.
\<close>

section \<open>Files\<close>

datatype db_file =
    NoFile
  | EmptyFile
  | FutureFormat nat \<comment> \<open>a redb file format this binary cannot read\<close>
  | Unopenable \<comment> \<open>any other failure to open the file\<close>
  | Redb store

record files =
  fs_db :: db_file
  fs_backups :: "u64 \<Rightarrow> db_file option"
  fs_faults :: "bool list"

datatype startup_error =
    DiskError
  | FormatTooNew nat
  | CannotOpen
  | NewerSchema u64 u64
  | NoSchemaVersion
  | NotContiguous "u64 list" "u64 list"
  | TurnVanished "u64 \<times> u32"

text \<open>An access to the disk: \<open>ok\<close> is its effect, \<open>bad\<close> what a failure leaves behind.\<close>

definition disk :: "(files \<Rightarrow> files) \<Rightarrow> (files \<Rightarrow> files) \<Rightarrow> files \<Rightarrow> files \<times> bool" where
  "disk ok bad f =
     (case fs_faults f of
        True # fs \<Rightarrow> (bad (f\<lparr>fs_faults := fs\<rparr>), False)
      | False # fs \<Rightarrow> (ok (f\<lparr>fs_faults := fs\<rparr>), True)
      | [] \<Rightarrow> (ok f, True))"

abbreviation access :: "(files \<Rightarrow> files) \<Rightarrow> files \<Rightarrow> files \<times> bool" where
  "access ok \<equiv> disk ok (\<lambda>f. f)"

text \<open>The store of an open database.\<close>

definition store_of :: "files \<Rightarrow> store" where
  "store_of f = (case fs_db f of Redb st \<Rightarrow> st | _ \<Rightarrow> empty_store)"

section \<open>Schema versions\<close>

definition SCHEMA_VERSION :: u64 where
  "SCHEMA_VERSION = 2"

definition INITIAL_SCHEMA_VERSION :: u64 where
  "INITIAL_SCHEMA_VERSION = 1"

definition SCHEMA_VERSION_KEY :: string where
  "SCHEMA_VERSION_KEY = ''schema_version''"

definition schema_version :: "store \<Rightarrow> u64" where
  "schema_version st =
     (case map_of (rows (sto_meta st)) SCHEMA_VERSION_KEY of None \<Rightarrow> 0 | Some v \<Rightarrow> v)"

definition current_schema_version :: "files \<Rightarrow> files \<times> u64 option" where
  "current_schema_version f =
     (case access (\<lambda>f. f) f of (f', ok) \<Rightarrow> (f', if ok then Some (schema_version (store_of f)) else None))"

definition stamped :: "u64 \<Rightarrow> store \<Rightarrow> store" where
  "stamped v st = st\<lparr>sto_meta := tab_insert SCHEMA_VERSION_KEY v (sto_meta st)\<rparr>"

definition stamp_schema_version :: "u64 \<Rightarrow> files \<Rightarrow> files \<times> bool" where
  "stamp_schema_version v f = access (\<lambda>f. f\<lparr>fs_db := Redb (stamped v (store_of f))\<rparr>) f"

section \<open>Opening\<close>

text \<open>
  Creating the file and stamping the initial version are two steps: an interrupted creation leaves
  an empty file, an interrupted stamp a database without a version.
\<close>

definition create_db :: "files \<Rightarrow> files \<times> startup_error option" where
  "create_db f =
     (case disk (\<lambda>f. f\<lparr>fs_db := Redb empty_store\<rparr>) (\<lambda>f. f\<lparr>fs_db := EmptyFile\<rparr>) f of
        (f1, False) \<Rightarrow> (f1, Some DiskError)
      | (f1, True) \<Rightarrow>
          (case stamp_schema_version INITIAL_SCHEMA_VERSION f1 of
             (f2, ok) \<Rightarrow> (f2, if ok then None else Some DiskError)))"

definition open_db :: "files \<Rightarrow> files \<times> startup_error option" where
  "open_db f =
     (case access (\<lambda>f. f) f of
        (f1, False) \<Rightarrow> (f1, Some DiskError)
      | (f1, True) \<Rightarrow>
          (case fs_db f1 of
             NoFile \<Rightarrow> create_db f1
           | EmptyFile \<Rightarrow> create_db f1
           | FutureFormat n \<Rightarrow> (f1, Some (FormatTooNew n))
           | Unopenable \<Rightarrow> (f1, Some CannotOpen)
           | Redb _ \<Rightarrow> (f1, None)))"

section \<open>The migration from version 1 to 2\<close>

fun reencode :: "codec \<Rightarrow> (u64 \<times> u32) list \<Rightarrow> (u64 \<times> u32, bytes) btmap \<Rightarrow> (u64 \<times> u32) + (u64 \<times> u32, bytes) btmap" where
  "reencode c [] m = Inr m"
| "reencode c (k # ks) m =
     (case map_of m k of
        None \<Rightarrow> Inl k
      | Some raw \<Rightarrow> reencode c ks (bt_insert k (zstd_encode c raw) m))"

definition is_frame :: "bytes \<Rightarrow> bool" where
  "is_frame b \<longleftrightarrow> take 4 b = ZSTD_FRAME_MAGIC"

definition migrate_turn_values_to_zstd :: "codec \<Rightarrow> files \<Rightarrow> files \<times> startup_error option" where
  "migrate_turn_values_to_zstd c f =
     (case access (\<lambda>f. f) f of
        (f1, False) \<Rightarrow> (f1, Some DiskError)
      | (f1, True) \<Rightarrow>
          (case sto_turns (store_of f1) of
             None \<Rightarrow> (f1, None)
           | Some m \<Rightarrow>
               let ks = keys (filter (\<lambda>(_, b). \<not> is_frame b) m)
               in if ks = [] then (f1, None)
                  else
                    (case reencode c ks m of
                       Inl k \<Rightarrow> (f1, Some (TurnVanished k))
                     | Inr m' \<Rightarrow>
                         (case access (\<lambda>f. f\<lparr>fs_db := Redb ((store_of f)\<lparr>sto_turns := Some m'\<rparr>)\<rparr>) f1 of
                            (f2, ok) \<Rightarrow> (f2, if ok then None else Some DiskError)))))"

section \<open>The runner\<close>

record migration =
  mig_from :: u64
  mig_run :: "files \<Rightarrow> files \<times> startup_error option"

definition MIGRATIONS :: "codec \<Rightarrow> migration list" where
  "MIGRATIONS c = [\<lparr>mig_from = 1, mig_run = migrate_turn_values_to_zstd c\<rparr>]"

definition chain_expected :: "u64 \<Rightarrow> u64 list" where
  "chain_expected target = map of_nat [1..<unat target]"

definition backup_db_file :: "u64 \<Rightarrow> files \<Rightarrow> files \<times> bool" where
  "backup_db_file from f =
     (if fs_backups f from \<noteq> None then (f, True)
      else access (\<lambda>f. f\<lparr>fs_backups := (fs_backups f)(from \<mapsto> fs_db f)\<rparr>) f)"

definition backup_database :: "u64 \<Rightarrow> files \<Rightarrow> files \<times> bool" where
  "backup_database from f = access (\<lambda>f. f\<lparr>fs_backups := (fs_backups f)(from \<mapsto> fs_db f)\<rparr>) f"

fun apply_migrations :: "migration list \<Rightarrow> files \<Rightarrow> files \<times> startup_error option" where
  "apply_migrations [] f = (f, None)"
| "apply_migrations (m # ms) f =
     (case mig_run m f of (f1, Some e) \<Rightarrow> (f1, Some e) | (f1, None) \<Rightarrow> apply_migrations ms f1)"

definition run_migrations_to :: "u64 \<Rightarrow> migration list \<Rightarrow> files \<Rightarrow> files \<times> startup_error option" where
  "run_migrations_to target migrations f =
     (case current_schema_version f of
        (f1, None) \<Rightarrow> (f1, Some DiskError)
      | (f1, Some current) \<Rightarrow>
          if target < current then (f1, Some (NewerSchema current target))
          else if current = 0 \<and> 1 < target then (f1, Some NoSchemaVersion)
          else if current = target then (f1, None)
          else if map mig_from migrations \<noteq> chain_expected target
          then (f1, Some (NotContiguous (map mig_from migrations) (chain_expected target)))
          else
            (case (if migrations = [] then (f1, True) else backup_db_file current f1) of
               (f2, False) \<Rightarrow> (f2, Some DiskError)
             | (f2, True) \<Rightarrow>
                 (case apply_migrations (filter (\<lambda>m. current \<le> mig_from m) migrations) f2 of
                    (f3, Some e) \<Rightarrow> (f3, Some e)
                  | (f3, None) \<Rightarrow>
                      (case stamp_schema_version target f3 of
                         (f4, ok) \<Rightarrow> (f4, if ok then None else Some DiskError)))))"

definition run_migrations :: "codec \<Rightarrow> files \<Rightarrow> files \<times> startup_error option" where
  "run_migrations c f = run_migrations_to SCHEMA_VERSION (MIGRATIONS c) f"

definition migration_backup_version :: "codec \<Rightarrow> files \<Rightarrow> files \<times> u64 option option" where
  "migration_backup_version c f =
     (case current_schema_version f of
        (f1, None) \<Rightarrow> (f1, None)
      | (f1, Some current) \<Rightarrow>
          (f1, Some (if current = 0 \<or> SCHEMA_VERSION \<le> current \<or> MIGRATIONS c = [] then None
                     else if map mig_from (MIGRATIONS c) \<noteq> chain_expected SCHEMA_VERSION then None
                     else Some current)))"

text \<open>The start of the daemon up to the migrated database.\<close>

definition start_database :: "codec \<Rightarrow> files \<Rightarrow> files \<times> startup_error option" where
  "start_database c f =
     (case open_db f of
        (f1, Some e) \<Rightarrow> (f1, Some e)
      | (f1, None) \<Rightarrow>
          (case migration_backup_version c f1 of
             (f2, None) \<Rightarrow> (f2, Some DiskError)
           | (f2, Some None) \<Rightarrow> run_migrations c f2
           | (f2, Some (Some version)) \<Rightarrow>
               (case backup_database version f2 of
                  (f3, False) \<Rightarrow> (f3, Some DiskError)
                | (f3, True) \<Rightarrow>
                    (case open_db f3 of
                       (f4, Some e) \<Rightarrow> (f4, Some e)
                     | (f4, None) \<Rightarrow> run_migrations c f4))))"

section \<open>What the migration does\<close>

text \<open>
  The rewrite of the turn rows seen as a function of the store, and the store a migrated database
  ends with.
\<close>

definition recode :: "codec \<Rightarrow> bytes \<Rightarrow> bytes" where
  "recode c b = (if is_frame b then b else zstd_encode c b)"

definition recompressed :: "codec \<Rightarrow> store \<Rightarrow> store" where
  "recompressed c st = st\<lparr>sto_turns :=
     map_option (map (\<lambda>(k, b). (k, recode c b))) (sto_turns st)\<rparr>"

definition migrated :: "codec \<Rightarrow> store \<Rightarrow> store" where
  "migrated c st = stamped SCHEMA_VERSION (recompressed c st)"

abbreviation at :: "store \<Rightarrow> files \<Rightarrow> bool" where
  "at st f \<equiv> fs_db f = Redb st"

lemma bt_insert_present:
  "bt_wf m \<Longrightarrow> map_of m k = Some r \<Longrightarrow> bt_insert k v m = map (\<lambda>(k', b). (k', if k' = k then v else b)) m"
proof (induction m)
  case Nil
  then show ?case by simp
next
  case (Cons kb m)
  obtain k' b where kb: "kb = (k', b)" by (cases kb)
  from Cons.prems(1) kb have wf: "bt_wf m" and lt: "\<And>x. x \<in> set (keys m) \<Longrightarrow> k' < x"
    by (auto simp: bt_wf_Cons)
  show ?case
  proof (cases "k' = k")
    case True
    then have "map (\<lambda>(k', b). (k', if k' = k then v else b)) m = m"
      using lt by (intro map_idI) force
    then show ?thesis using True kb by simp
  next
    case False
    with Cons.prems(2) kb have m: "map_of m k = Some r" by simp
    then have "k' < k" using lt by (metis map_of_eq_None_iff option.distinct(1) set_map)
    then show ?thesis using False kb Cons.IH [OF wf m] by auto
  qed
qed

lemma reencode_eq:
  "bt_wf m \<Longrightarrow> distinct ks \<Longrightarrow> set ks \<subseteq> set (keys m) \<Longrightarrow>
   reencode c ks m = Inr (map (\<lambda>(k, b). (k, if k \<in> set ks then zstd_encode c b else b)) m)"
proof (induction ks arbitrary: m)
  case Nil
  then show ?case by (simp add: case_prod_unfold)
next
  case (Cons k ks)
  then obtain raw where raw: "map_of m k = Some raw"
    by (cases "map_of m k") (auto simp: map_of_eq_None_iff)
  let ?m = "bt_insert k (zstd_encode c raw) m"
  have "reencode c ks ?m = Inr (map (\<lambda>(k, b). (k, if k \<in> set ks then zstd_encode c b else b)) ?m)"
  proof (intro Cons.IH bt_wf_insert)
    show "set ks \<subseteq> set (keys ?m)" using Cons.prems(3) unfolding keys_bt_insert by auto
  qed (use Cons.prems in auto)
  moreover have "b = raw" if "(k, b) \<in> set m" for b
    using that raw Cons.prems(1) by (simp add: bt_wf_def strict_sorted_iff)
  ultimately show ?case
    using raw Cons.prems(1,2) by (auto simp: bt_insert_present)
qed

lemma reencode_raw_rows:
  assumes "bt_wf m"
  shows "reencode c (keys (filter (\<lambda>(_, b). \<not> is_frame b) m)) m =
    Inr (map (\<lambda>(k, b). (k, recode c b)) m)"
proof -
  have d: "distinct (keys m)" using assms by (simp add: bt_wf_def strict_sorted_iff)
  then have "distinct (keys (filter (\<lambda>(_, b). \<not> is_frame b) m))" by (rule distinct_map_filter)
  then have "reencode c (keys (filter (\<lambda>(_, b). \<not> is_frame b) m)) m =
      Inr (map (\<lambda>(k, b). (k, if k \<in> set (keys (filter (\<lambda>(_, b). \<not> is_frame b) m)) then zstd_encode c b else b)) m)"
    by (intro reencode_eq assms) auto
  moreover have "k \<in> set (keys (filter (\<lambda>(_, b). \<not> is_frame b) m)) \<longleftrightarrow> \<not> is_frame b"
    if "(k, b) \<in> set m" for k b
    using that d by (auto dest: eq_key_imp_eq_value intro: rev_image_eqI)
  ultimately show ?thesis by (auto simp: recode_def)
qed

lemma schema_version_simps [simp]:
  "schema_version (stamped v st) = v"
  "schema_version (recompressed c st) = schema_version st"
  by (simp_all add: schema_version_def stamped_def recompressed_def)

lemma recompressed_idem:
  assumes "\<And>b. is_frame (zstd_encode c b)"
  shows "recompressed c (recompressed c st) = recompressed c st"
proof -
  have "recode c (recode c b) = recode c b" for b using assms by (simp add: recode_def)
  then show ?thesis by (simp add: recompressed_def option.map_comp comp_def case_prod_unfold)
qed

lemma recompressed_none_raw:
  "sto_turns st = Some m \<Longrightarrow> filter (\<lambda>(_, b). \<not> is_frame b) m = [] \<Longrightarrow> recompressed c st = st"
  by (cases st) (auto simp: recompressed_def recode_def filter_empty_conv intro!: map_idI)

section \<open>The steps of the startup sequence\<close>

text \<open>
  What each step does to a database that can be opened; without faults each succeeds. The facts are
  collected for the proof about the whole sequence.
\<close>

lemma disk_cases:
  obtains fs where "disk ok bad f = (ok (f\<lparr>fs_faults := fs\<rparr>), True)" "fs_faults f = [] \<Longrightarrow> fs = []"
  | fs where "disk ok bad f = (bad (f\<lparr>fs_faults := fs\<rparr>), False)" "fs_faults f \<noteq> []"
proof (cases "fs_faults f")
  case Nil
  then have "f\<lparr>fs_faults := []\<rparr> = f" by (cases f) simp
  then have "ok (f\<lparr>fs_faults := []\<rparr>) = ok f" by (rule arg_cong)
  then show thesis using Nil that(1) [of "[]"] by (simp add: disk_def)
next
  case (Cons b fs)
  then show thesis using that(1,2) [of fs] by (cases b) (simp_all add: disk_def)
qed

lemma store_of_at [simp]: "at st f \<Longrightarrow> store_of f = st"
  by (simp add: store_of_def)

lemma open_db_at:
  assumes "at st f"
  obtains f1 e where "open_db f = (f1, e)" "at st f1" "fs_backups f1 = fs_backups f"
    "fs_faults f = [] \<Longrightarrow> e = None \<and> fs_faults f1 = []"
  by (rule disk_cases [of "\<lambda>f. f" "\<lambda>f. f" f]) (use assms that in \<open>auto simp: open_db_def\<close>)

lemma version_at:
  assumes "at st f"
  obtains f1 v where "current_schema_version f = (f1, v)" "at st f1" "v = None \<or> v = Some (schema_version st)"
    "fs_backups f1 = fs_backups f" "fs_faults f = [] \<Longrightarrow> v \<noteq> None \<and> fs_faults f1 = []"
  by (rule disk_cases [of "\<lambda>f. f" "\<lambda>f. f" f]) (use assms that in \<open>auto simp: current_schema_version_def\<close>)

lemma stamp_at:
  assumes "at st f"
  obtains f1 ok where "stamp_schema_version v f = (f1, ok)" "at (if ok then stamped v st else st) f1"
    "fs_faults f = [] \<Longrightarrow> ok \<and> fs_faults f1 = []"
  by (rule disk_cases [of "\<lambda>f. f\<lparr>fs_db := Redb (stamped v (store_of f))\<rparr>" "\<lambda>f. f" f])
    (use assms that in \<open>auto simp: stamp_schema_version_def\<close>)

lemma backup_at:
  assumes "at st f"
  obtains f1 ok where "backup_database v f = (f1, ok)" "at st f1" "fs_faults f = [] \<Longrightarrow> ok \<and> fs_faults f1 = []"
  by (rule disk_cases [of "\<lambda>f. f\<lparr>fs_backups := (fs_backups f)(v \<mapsto> fs_db f)\<rparr>" "\<lambda>f. f" f])
    (use assms that in \<open>auto simp: backup_database_def\<close>)

lemma runner_backup_at:
  assumes "at st f"
  obtains f1 ok where "backup_db_file v f = (f1, ok)" "at st f1" "fs_faults f = [] \<Longrightarrow> ok \<and> fs_faults f1 = []"
proof (cases "fs_backups f v")
  case None
  then show thesis using backup_at [OF assms, of v] that
    by (metis backup_database_def backup_db_file_def)
next
  case (Some b)
  then show thesis using that assms by (simp add: backup_db_file_def)
qed

lemma migrate_at:
  assumes "at st f" and "store_wf st"
  obtains f1 e where "migrate_turn_values_to_zstd c f = (f1, e)"
    "at (if e = None then recompressed c st else st) f1" "fs_faults f = [] \<Longrightarrow> e = None \<and> fs_faults f1 = []"
proof (cases rule: disk_cases [of "\<lambda>f. f" "\<lambda>f. f" f])
  case (2 fs)
  then show thesis using that [of "f\<lparr>fs_faults := fs\<rparr>" "Some DiskError"] assms
    by (simp add: migrate_turn_values_to_zstd_def)
next
  case (1 fs)
  let ?f1 = "f\<lparr>fs_faults := fs\<rparr>"
  show thesis
  proof (cases "sto_turns st")
    case None
    then have "recompressed c st = st" by (cases st) (simp add: recompressed_def)
    then show thesis using 1 None that [of ?f1 None] assms by (simp add: migrate_turn_values_to_zstd_def)
  next
    case (Some m)
    then have wf: "bt_wf m" using assms(2) by (simp add: store_wf_def tab_wf_def)
    show thesis
    proof (cases "filter (\<lambda>(_, b). \<not> is_frame b) m = []")
      case True
      then show thesis using 1 Some that [of ?f1 None] assms recompressed_none_raw [OF Some True]
        by (simp add: migrate_turn_values_to_zstd_def)
    next
      case False
      let ?w = "\<lambda>f. f\<lparr>fs_db := Redb ((store_of f)\<lparr>sto_turns := Some (map (\<lambda>(k, b). (k, recode c b)) m)\<rparr>)\<rparr>"
      have "migrate_turn_values_to_zstd c f =
          (case access ?w ?f1 of (f2, ok) \<Rightarrow> (f2, if ok then None else Some DiskError))"
        using 1 Some False assms(1) reencode_raw_rows [OF wf, of c]
        by (simp add: migrate_turn_values_to_zstd_def Let_def)
      moreover have "recompressed c st = st\<lparr>sto_turns := Some (map (\<lambda>(k, b). (k, recode c b)) m)\<rparr>"
        using Some by (simp add: recompressed_def)
      ultimately show thesis
        using 1 assms(1) that
        by (cases rule: disk_cases [of ?w "\<lambda>f. f" ?f1]) auto
    qed
  qed
qed

lemma chain_ok [simp]:
  "map mig_from (MIGRATIONS c) = chain_expected SCHEMA_VERSION"
  "MIGRATIONS c \<noteq> []"
  "filter (\<lambda>m. 1 \<le> mig_from m) (MIGRATIONS c) = MIGRATIONS c"
  by (simp_all add: MIGRATIONS_def chain_expected_def SCHEMA_VERSION_def upt_conv_Cons)

lemma apply_MIGRATIONS [simp]: "apply_migrations (MIGRATIONS c) f = migrate_turn_values_to_zstd c f"
  by (simp add: MIGRATIONS_def split: prod.splits option.splits)

lemma version_order [simp]:
  "SCHEMA_VERSION \<noteq> 0" "\<not> SCHEMA_VERSION < 1" "1 < SCHEMA_VERSION" "1 \<noteq> SCHEMA_VERSION"
  by (simp_all add: SCHEMA_VERSION_def)

text \<open>The stores a database of version 1 can be left with when the sequence is cut short.\<close>

definition stages :: "codec \<Rightarrow> store \<Rightarrow> store set" where
  "stages c st = {st, recompressed c st, migrated c st}"

lemma run_migrations_at:
  assumes "at st f" and "store_wf st" and "schema_version st = 1"
  shows "\<exists>f1 e s. run_migrations c f = (f1, e) \<and> at s f1 \<and> s \<in> stages c st
    \<and> (fs_faults f = [] \<longrightarrow> e = None \<and> s = migrated c st)"
proof -
  obtain f1 v where v: "current_schema_version f = (f1, v)" "at st f1" "v = None \<or> v = Some 1"
    "fs_faults f = [] \<Longrightarrow> v \<noteq> None \<and> fs_faults f1 = []"
    using version_at [OF assms(1)] assms(3) by metis
  obtain f2 ok2 where b: "backup_db_file 1 f1 = (f2, ok2)" "at st f2" "fs_faults f1 = [] \<Longrightarrow> ok2 \<and> fs_faults f2 = []"
    using runner_backup_at [OF v(2)] by metis
  obtain f3 e where m: "migrate_turn_values_to_zstd c f2 = (f3, e)"
    "at (if e = None then recompressed c st else st) f3" "fs_faults f2 = [] \<Longrightarrow> e = None \<and> fs_faults f3 = []"
    using migrate_at [OF b(2) assms(2)] by metis
  obtain f4 ok4 where s: "stamp_schema_version SCHEMA_VERSION f3 = (f4, ok4)"
    "at (if ok4 then stamped SCHEMA_VERSION (if e = None then recompressed c st else st)
         else if e = None then recompressed c st else st) f4" "fs_faults f3 = [] \<Longrightarrow> ok4 \<and> fs_faults f4 = []"
    using stamp_at [OF m(2)] by metis
  have run: "run_migrations c f = (if v = None then (f1, Some DiskError) else if \<not> ok2 then (f2, Some DiskError)
      else if e \<noteq> None then (f3, e) else (f4, if ok4 then None else Some DiskError))"
    using v(1,3) b(1) m(1) s(1) by (cases v; cases ok2; cases e) (simp_all add: run_migrations_def run_migrations_to_def)
  show ?thesis unfolding run
    by (cases "v = None"; cases ok2; cases e; cases ok4)
      (use v b m s in \<open>auto simp: stages_def migrated_def\<close>)
qed

lemma run_migrations_done:
  assumes "at st f" and "schema_version st = SCHEMA_VERSION"
  shows "\<exists>f1 e. run_migrations c f = (f1, e) \<and> at st f1 \<and> (fs_faults f = [] \<longrightarrow> e = None)"
proof -
  obtain f1 v where "current_schema_version f = (f1, v)" "at st f1" "v = None \<or> v = Some SCHEMA_VERSION"
    "fs_faults f = [] \<Longrightarrow> v \<noteq> None"
    using version_at [OF assms(1)] assms(2) by metis
  then show ?thesis by (auto simp: run_migrations_def run_migrations_to_def SCHEMA_VERSION_def)
qed

lemma backup_version_at:
  assumes "at st f"
  shows "\<exists>f1 r. migration_backup_version c f = (f1, r) \<and> at st f1 \<and> fs_backups f1 = fs_backups f
    \<and> (r = None \<or> r = Some (if schema_version st = 1 then Some 1 else None))
    \<and> (fs_faults f = [] \<longrightarrow> r \<noteq> None \<and> fs_faults f1 = [])"
proof -
  obtain f1 v where v: "current_schema_version f = (f1, v)" "at st f1" "v = None \<or> v = Some (schema_version st)"
    "fs_backups f1 = fs_backups f" "fs_faults f = [] \<Longrightarrow> v \<noteq> None \<and> fs_faults f1 = []"
    using version_at [OF assms(1)] by metis
  have "w = 0 \<or> 2 \<le> w \<longleftrightarrow> w \<noteq> 1" for w :: u64
    by (auto simp: word_le_nat_alt word_unat_eq_iff)
  then show ?thesis using v by (auto simp: migration_backup_version_def SCHEMA_VERSION_def)
qed

text \<open>The whole sequence, from a database of version 1 or one that is up to date.\<close>

lemma start_database_old:
  assumes "at st f" and "store_wf st" and "schema_version st = 1"
  shows "\<exists>f1 e s. start_database c f = (f1, e) \<and> at s f1 \<and> s \<in> stages c st
    \<and> (fs_faults f = [] \<longrightarrow> e = None \<and> s = migrated c st)"
proof -
  obtain f1 e1 where o: "open_db f = (f1, e1)" "at st f1" "fs_faults f = [] \<Longrightarrow> e1 = None \<and> fs_faults f1 = []"
    using open_db_at [OF assms(1)] by metis
  obtain f2 r where v: "migration_backup_version c f1 = (f2, r)" "at st f2" "r = None \<or> r = Some (Some 1)"
    "fs_faults f1 = [] \<Longrightarrow> r \<noteq> None \<and> fs_faults f2 = []"
    using backup_version_at [OF o(2), of c] assms(3) by auto
  obtain f3 ok where b: "backup_database 1 f2 = (f3, ok)" "at st f3" "fs_faults f2 = [] \<Longrightarrow> ok \<and> fs_faults f3 = []"
    using backup_at [OF v(2)] by metis
  obtain f4 e4 where p: "open_db f3 = (f4, e4)" "at st f4" "fs_faults f3 = [] \<Longrightarrow> e4 = None \<and> fs_faults f4 = []"
    using open_db_at [OF b(2)] by metis
  obtain f5 e5 s where m: "run_migrations c f4 = (f5, e5)" "at s f5" "s \<in> stages c st"
    "fs_faults f4 = [] \<longrightarrow> e5 = None \<and> s = migrated c st"
    using run_migrations_at [OF p(2) assms(2,3)] by metis
  have "start_database c f = (if e1 \<noteq> None then (f1, e1) else if r = None then (f2, Some DiskError)
      else if \<not> ok then (f3, Some DiskError) else if e4 \<noteq> None then (f4, e4) else (f5, e5))"
    using o(1) v(1,3) b(1) p(1) m(1) by (auto simp: start_database_def)
  moreover have "st \<in> stages c st" by (simp add: stages_def)
  ultimately show ?thesis
    by (cases e1; cases "r = None"; cases ok; cases e4) (use o v b p m in auto)
qed

lemma start_database_done:
  assumes "at st f" and "schema_version st = SCHEMA_VERSION"
  shows "\<exists>f1 e. start_database c f = (f1, e) \<and> at st f1 \<and> (fs_faults f = [] \<longrightarrow> e = None)"
proof -
  obtain f1 e1 where o: "open_db f = (f1, e1)" "at st f1" "fs_faults f = [] \<Longrightarrow> e1 = None \<and> fs_faults f1 = []"
    using open_db_at [OF assms(1)] by metis
  obtain f2 r where v: "migration_backup_version c f1 = (f2, r)" "at st f2" "r = None \<or> r = Some None"
    "fs_faults f1 = [] \<Longrightarrow> r \<noteq> None \<and> fs_faults f2 = []"
    using backup_version_at [OF o(2), of c] assms(2) by (auto simp: SCHEMA_VERSION_def)
  obtain f5 e5 where m: "run_migrations c f2 = (f5, e5)" "at st f5" "fs_faults f2 = [] \<longrightarrow> e5 = None"
    using run_migrations_done [OF v(2) assms(2)] by metis
  have "start_database c f = (if e1 \<noteq> None then (f1, e1) else if r = None then (f2, Some DiskError) else (f5, e5))"
    using o(1) v(1,3) m(1) by (auto simp: start_database_def)
  then show ?thesis by (cases e1; cases "r = None") (use o v m in auto)
qed

lemma migrated_stages:
  assumes "\<And>b. is_frame (zstd_encode c b)" and "s \<in> {st, recompressed c st}"
  shows "migrated c s = migrated c st"
  using assms by (auto simp: migrated_def recompressed_idem)

lemma store_wf_recompressed: "store_wf st \<Longrightarrow> store_wf (recompressed c st)"
  by (auto simp: store_wf_def recompressed_def tab_wf_def bt_wf_def rows_def comp_def case_prod_unfold split: option.splits)

lemma start_database_finishes:
  assumes "\<And>b. is_frame (zstd_encode c b)" and "s \<in> stages c st" and "at s f" and "fs_faults f = []"
    and "store_wf st" and "schema_version st = 1"
  shows "\<exists>f1. start_database c f = (f1, None) \<and> at (migrated c st) f1"
proof (cases "s = migrated c st")
  case True
  then show ?thesis using start_database_done [of f s c] assms(3,4) by (auto simp: migrated_def)
next
  case False
  with assms(2) have s: "s \<in> {st, recompressed c st}" by (simp add: stages_def)
  then have "store_wf s" and "schema_version s = 1" using assms(5,6) store_wf_recompressed by auto
  then show ?thesis using start_database_old [OF assms(3)] migrated_stages [OF assms(1) s] assms(4) by metis
qed

section \<open>Refusals and interruptions\<close>

lemma start_unopenable:
  assumes "fs_db f = Unopenable \<or> fs_db f = FutureFormat n"
  shows "snd (start_database c f) \<noteq> None \<and> fs_db (fst (start_database c f)) = fs_db f
    \<and> fs_backups (fst (start_database c f)) = fs_backups f"
  by (cases rule: disk_cases [of "\<lambda>f. f" "\<lambda>f. f" f]) (use assms in \<open>auto simp: start_database_def open_db_def\<close>)

lemma start_refused:
  assumes "at st f" and "schema_version st = 0 \<or> SCHEMA_VERSION < schema_version st"
  shows "snd (start_database c f) \<noteq> None \<and> at st (fst (start_database c f))
    \<and> fs_backups (fst (start_database c f)) = fs_backups f"
proof -
  have n1: "schema_version st \<noteq> 1" "schema_version st \<noteq> SCHEMA_VERSION"
    using assms(2) by (auto simp: SCHEMA_VERSION_def)
  obtain f1 e1 where o: "open_db f = (f1, e1)" "at st f1" "fs_backups f1 = fs_backups f"
    using open_db_at [OF assms(1)] by metis
  obtain f2 r where v: "migration_backup_version c f1 = (f2, r)" "at st f2" "r = None \<or> r = Some None"
    "fs_backups f2 = fs_backups f1"
    using backup_version_at [OF o(2), of c] n1(1) by auto
  obtain f3 w where m: "current_schema_version f2 = (f3, w)" "at st f3" "w = None \<or> w = Some (schema_version st)"
    "fs_backups f3 = fs_backups f2"
    using version_at [OF v(2)] by metis
  have "\<exists>e. run_migrations c f2 = (f3, Some e)"
    using m(1,3) assms(2) by (auto simp: run_migrations_def run_migrations_to_def SCHEMA_VERSION_def)
  with o v m show ?thesis by (cases e1) (auto simp: start_database_def)
qed

text \<open>A new database, undisturbed.\<close>

lemma fresh_start:
  assumes "fs_db f = NoFile \<or> fs_db f = EmptyFile" and "fs_faults f = []"
  shows "\<exists>f1. start_database c f = (f1, None) \<and> at (migrated c (stamped INITIAL_SCHEMA_VERSION empty_store)) f1"
proof -
  let ?st = "stamped INITIAL_SCHEMA_VERSION empty_store"
  let ?f = "f\<lparr>fs_db := Redb ?st\<rparr>"
  have "open_db f = (?f, None)" and "open_db ?f = (?f, None)"
    using assms by (auto simp: open_db_def create_db_def stamp_schema_version_def disk_def store_of_def)
  then have "start_database c f = start_database c ?f" by (simp add: start_database_def)
  moreover have "store_wf ?st" and "schema_version ?st = 1"
    by (simp_all add: store_wf_def stamped_def empty_store_def tab_wf_def bt_wf_def INITIAL_SCHEMA_VERSION_def
        schema_version_def)
  ultimately show ?thesis
    using start_database_old [of ?f ?st c] assms(2) by auto
qed

text \<open>
  Creating the file and stamping it are two steps. A crash between them leaves a database
  without a version, which every later start refuses, although it holds no data.
\<close>

lemma interrupted_create_refused:
  assumes "fs_db f = NoFile" and "fs_faults f = [False, False, True]"
  shows "at empty_store (fst (start_database c f))"
    and "snd (start_database c ((fst (start_database c f))\<lparr>fs_faults := fs\<rparr>)) \<noteq> None"
proof -
  show a: "at empty_store (fst (start_database c f))"
    using assms by (simp add: start_database_def open_db_def create_db_def stamp_schema_version_def disk_def)
  show "snd (start_database c ((fst (start_database c f))\<lparr>fs_faults := fs\<rparr>)) \<noteq> None"
    using start_refused [of "(fst (start_database c f))\<lparr>fs_faults := fs\<rparr>" empty_store c] a
    by (simp add: schema_version_def empty_store_def)
qed

text \<open>
  The copy before the lock replaces an existing backup. After an upgrade that was cut between the
  rewrite and the stamp the file still says version 1, so the next start overwrites the backup of the
  original rows with the rewritten ones.
\<close>

lemma backup_follows_file:
  assumes "at st f" and "schema_version st = 1" and "fs_faults f = []"
  shows "fs_backups (fst (start_database c f)) 1 = Some (Redb st)"
proof -
  let ?f = "f\<lparr>fs_backups := (fs_backups f)(1 \<mapsto> Redb st)\<rparr>"
  have "start_database c f = run_migrations c ?f"
    using assms by (auto simp: start_database_def open_db_def disk_def migration_backup_version_def
        current_schema_version_def backup_database_def SCHEMA_VERSION_def word_le_nat_alt)
  moreover obtain f3 e where m: "migrate_turn_values_to_zstd c ?f = (f3, e)"
    by (cases "migrate_turn_values_to_zstd c ?f")
  moreover have "fs_backups (fst (migrate_turn_values_to_zstd c ?f)) = fs_backups ?f"
    and "fs_faults (fst (migrate_turn_values_to_zstd c ?f)) = []"
    using assms by (auto simp: migrate_turn_values_to_zstd_def disk_def Let_def split: option.splits sum.splits)
  then have k: "fs_backups f3 = fs_backups ?f" and n: "fs_faults f3 = []"
    using m by simp_all
  have "fs_backups (fst (run_migrations c ?f)) = fs_backups f3"
    using assms m n
    by (cases e) (simp_all add: run_migrations_def run_migrations_to_def current_schema_version_def disk_def
        SCHEMA_VERSION_def MIGRATIONS_def chain_expected_def upt_conv_Cons backup_db_file_def stamp_schema_version_def)
  with k have "fs_backups (fst (run_migrations c ?f)) = fs_backups ?f" by simp
  ultimately show ?thesis by simp
qed

section \<open>Properties\<close>

text \<open>
  C35. An interrupted upgrade is finished by the next start. Start the daemon on a version-1
  database and let the disk fail, or the process die, at any access of the startup sequence: the
  file is then left at the old state, or with the turn rows rewritten but not stamped, or done, and
  the next undisturbed start succeeds and ends with the database an undisturbed upgrade gives: the
  turn rows compressed once and only once, version 2, all else as it was; a further start changes
  nothing. A row that was readable as a bare serialization then decodes to the same turn. The
  compressor is assumed to start each frame with the zstd marker.
\<close>

theorem migration_recovers:
  assumes "\<And>b. is_frame (zstd_encode c b)"
    and "fs_db f = Redb st" and "store_wf st" and "schema_version st = 1"
  shows "\<exists>f2. start_database c ((fst (start_database c f))\<lparr>fs_faults := []\<rparr>) = (f2, None)
    \<and> fs_db f2 = Redb (migrated c st)
    \<and> fs_db (fst (start_database c (f2\<lparr>fs_faults := fs\<rparr>))) = Redb (migrated c st)
    \<and> (\<forall>k raw. map_of (rows (sto_turns st)) k = Some raw \<longrightarrow> \<not> is_frame raw
         \<longrightarrow> zstd_decode c (zstd_encode c raw) = Inr raw
         \<longrightarrow> Option.bind (map_of (rows (sto_turns (migrated c st))) k) (decode_row c) = dec_turn c raw)"
proof -
  obtain f1 e s where f1: "start_database c f = (f1, e)" "at s f1" "s \<in> stages c st"
    using start_database_old [OF assms(2-4)] by blast
  then obtain f2 where f2: "start_database c (f1\<lparr>fs_faults := []\<rparr>) = (f2, None)" "at (migrated c st) f2"
    using start_database_finishes [OF assms(1) f1(3) _ _ assms(3,4), of "f1\<lparr>fs_faults := []\<rparr>"] by auto
  have "fs_db (fst (start_database c (f2\<lparr>fs_faults := fs\<rparr>))) = Redb (migrated c st)"
    using start_database_done [of "f2\<lparr>fs_faults := fs\<rparr>" "migrated c st" c] f2(2)
    by (auto simp: migrated_def)
  moreover have "map_of (rows (sto_turns (migrated c st))) k = map_option (recode c) (map_of (rows (sto_turns st)) k)" for k
    by (cases "sto_turns st") (simp_all add: migrated_def stamped_def recompressed_def map_of_map)
  ultimately show ?thesis using f1 f2 by (simp add: recode_def decode_row_def)
qed

text \<open>A version-1 database with one bare row, a disk whose fifth access fails, and the marker codec.\<close>

definition demo_v1_store :: store where
  "demo_v1_store = empty_store
     \<lparr>sto_turns := Some [((1, 0), [0x8D])], sto_meta := Some [(SCHEMA_VERSION_KEY, 1)]\<rparr>"

definition demo_v1 :: "bool list \<Rightarrow> files" where
  "demo_v1 fs = \<lparr>fs_db = Redb demo_v1_store, fs_backups = (\<lambda>_. None), fs_faults = fs\<rparr>"

lemma demo_v1_facts:
  "is_frame (zstd_encode demo_codec b)"
  "store_wf demo_v1_store" "schema_version demo_v1_store = 1"
  "zstd_decode demo_codec (zstd_encode demo_codec [0x8D]) = Inr [0x8D]"
  "\<not> is_frame [0x8D]" "dec_turn demo_codec [0x8D] = Some (storage_view demo_image_turn)"
  by (simp_all add: is_frame_def demo_codec_def ZSTD_FRAME_MAGIC_def demo_v1_store_def store_wf_def tab_wf_def
      empty_store_def bt_wf_def schema_version_def zstd_decode_def zstd_decode_with_limit_def
      MAX_TURN_DECODED_BYTES_def)

theorem migration_recovers_witness:
  "\<exists>f2. start_database demo_codec ((fst (start_database demo_codec
        (demo_v1 [False, False, False, False, False, False, False, False, True])))\<lparr>fs_faults := []\<rparr>) = (f2, None)
    \<and> fs_db f2 = Redb (migrated demo_codec demo_v1_store)
    \<and> Option.bind (map_of (rows (sto_turns (migrated demo_codec demo_v1_store))) (1, 0)) (decode_row demo_codec)
        = Some (storage_view demo_image_turn)"
proof -
  have "map_of (rows (sto_turns demo_v1_store)) (1, 0) = Some [0x8D]"
    by (simp add: demo_v1_store_def)
  then show ?thesis
    using migration_recovers [of demo_codec
        "demo_v1 [False, False, False, False, False, False, False, False, True]" demo_v1_store "[]"]
      demo_v1_facts by (auto simp: demo_v1_def)
qed

text \<open>
  C36. A database this binary must not touch is left as it is. With a file that cannot be opened, a
  newer file format, a schema version above 2 or none at all, the start fails and neither the
  file nor any backup is changed, whatever the disk does.
\<close>

theorem refused_database_untouched:
  assumes "case fs_db f of
      NoFile \<Rightarrow> False | EmptyFile \<Rightarrow> False | FutureFormat _ \<Rightarrow> True | Unopenable \<Rightarrow> True
    | Redb st \<Rightarrow> schema_version st = 0 \<or> SCHEMA_VERSION < schema_version st"
  shows "snd (start_database c f) \<noteq> None
    \<and> fs_db (fst (start_database c f)) = fs_db f \<and> fs_backups (fst (start_database c f)) = fs_backups f"
proof (cases "fs_db f")
  case (FutureFormat n)
  then show ?thesis using start_unopenable [of f n c] by simp
next
  case Unopenable
  then show ?thesis using start_unopenable [of f 0 c] by simp
next
  case (Redb st)
  then show ?thesis using start_refused [of f st c] assms by simp
qed (use assms in simp_all)

theorem refused_database_untouched_witness:
  "fs_db (fst (start_database demo_codec
     \<lparr>fs_db = Redb empty_store, fs_backups = (\<lambda>_. None), fs_faults = [False, True]\<rparr>)) = Redb empty_store"
  using refused_database_untouched [of "\<lparr>fs_db = Redb empty_store, fs_backups = (\<lambda>_. None), fs_faults = [False, True]\<rparr>"]
  by (simp add: schema_version_def empty_store_def)

end
