(* ===== verification/Retry.thy ===== *)
theory Retry
  imports Text
begin

text \<open>
  \<^verbatim>\<open>choreo-ai-protocols/src/retry.rs\<close>: the loop that sends a provider request again after a
  transient failure. Delays are in milliseconds. What an attempt meets is the environment of that
  attempt: a pending cancellation, the answer of the server, the random jitter, the clock against
  which an HTTP date is measured (the signed distance in seconds, for a value that is a date). The
  JSON parser of the error body is a parameter.
\<close>

section \<open>Configuration and backoff\<close>

definition MAX_BACKOFF_MS :: u64 where
  "MAX_BACKOFF_MS = 3600000"

record retry_config =
  rc_max_attempts :: u32
  rc_initial_backoff_ms :: u64
  rc_max_backoff_ms :: u64

definition retry_config_new :: "u32 \<Rightarrow> u64 \<Rightarrow> u64 \<Rightarrow> retry_config" where
  "retry_config_new max_attempts initial_backoff_ms max_backoff_ms =
     (let initial = min initial_backoff_ms MAX_BACKOFF_MS;
          mx = max (min max_backoff_ms MAX_BACKOFF_MS) initial
      in \<lparr>rc_max_attempts = max_attempts, rc_initial_backoff_ms = initial, rc_max_backoff_ms = mx\<rparr>)"

definition u64_max :: nat where
  "u64_max = 2 ^ 64 - 1"

definition saturating_mul :: "u64 \<Rightarrow> u64 \<Rightarrow> u64" where
  "saturating_mul a b = of_nat (min (unat a * unat b) u64_max)"

definition saturating_pow2 :: "u32 \<Rightarrow> u64" where
  "saturating_pow2 n = of_nat (min (2 ^ unat n) u64_max)"

definition backoff_duration :: "(nat \<Rightarrow> nat) \<Rightarrow> u32 \<Rightarrow> retry_config \<Rightarrow> nat" where
  "backoff_duration jitter retry_number config =
     (let multiplier = saturating_pow2 (if retry_number = 0 then 0 else retry_number - 1);
          base = saturating_mul (rc_initial_backoff_ms config) multiplier;
          capped = min base (rc_max_backoff_ms config)
      in jitter (unat capped))"

section \<open>Which answers are tried again\<close>

definition is_retryable_status :: "u16 \<Rightarrow> bool" where
  "is_retryable_status status \<longleftrightarrow> status \<in> {429, 500, 502, 503, 504}"

definition retry_decision :: "(nat \<Rightarrow> nat) \<Rightarrow> u16 \<Rightarrow> nat option \<Rightarrow> u32 \<Rightarrow> retry_config \<Rightarrow> nat option" where
  "retry_decision jitter status retry_after_secs attempt retry =
     (if status \<notin> {429, 503} then Some (backoff_duration jitter attempt retry)
      else
        case retry_after_secs of
          None \<Rightarrow> Some (backoff_duration jitter attempt retry)
        | Some secs \<Rightarrow>
            let wait = secs * 1000; ceiling = unat (min (rc_max_backoff_ms retry) MAX_BACKOFF_MS)
            in if wait \<le> ceiling then Some wait else None)"

text \<open>\<^verbatim>\<open>str::parse::<u64>\<close>: an optional plus sign and at least one digit, within the width.\<close>

definition is_digit :: "char \<Rightarrow> bool" where
  "is_digit c \<longleftrightarrow> 48 \<le> byte c \<and> byte c \<le> 57"

definition parse_u64 :: "string \<Rightarrow> nat option" where
  "parse_u64 s =
     (let ds = (if s \<noteq> [] \<and> hd s = CHR 0x2B then tl s else s)
      in if ds \<noteq> [] \<and> list_all is_digit ds \<and> undecimal ds \<le> u64_max then Some (undecimal ds) else None)"

definition parse_retry_after_secs :: "(string \<Rightarrow> int option) \<Rightarrow> string option \<Rightarrow> nat option" where
  "parse_retry_after_secs date_delta value =
     (case value of
        None \<Rightarrow> None
      | Some v \<Rightarrow>
          let v = trim v
          in if v = [] then None
             else case parse_u64 v of
                    Some secs \<Rightarrow> Some secs
                  | None \<Rightarrow> map_option (\<lambda>d. nat (max d 0)) (date_delta v))"

section \<open>Errors\<close>

datatype provider_http_error =
    Unauthorized u16 string
  | RateLimited u16 "nat option" string
  | ServerError u16 string
  | ClientError u16 string
  | EmptyResponse
  | Cancelled
  | Io string

definition status_to_error :: "u16 \<Rightarrow> string \<Rightarrow> nat option \<Rightarrow> provider_http_error" where
  "status_to_error status detail retry_after_secs =
     (if status \<in> {401, 403} then Unauthorized status detail
      else if status = 429 then RateLimited status retry_after_secs detail
      else if 500 \<le> status \<and> status < 600 then ServerError status detail
      else if 400 \<le> status \<and> status < 500 then ClientError status detail
      else Io detail)"

datatype json = JObject "(string \<times> json) list" | JArray "json list" | JString string | JLiteral string

definition json_get :: "string \<Rightarrow> json \<Rightarrow> json option" where
  "json_get k v = (case v of JObject m \<Rightarrow> map_of m k | _ \<Rightarrow> None)"

definition json_str :: "json \<Rightarrow> string option" where
  "json_str v = (case v of JString s \<Rightarrow> Some s | _ \<Rightarrow> None)"

definition extract_error_message :: "(string \<Rightarrow> json option) \<Rightarrow> string \<Rightarrow> string option" where
  "extract_error_message parse body =
     (case parse body of
        None \<Rightarrow> None
      | Some value \<Rightarrow>
          let inner = (case json_get ''error'' value of
                  Some (JObject m) \<Rightarrow> Option.bind (map_of m ''message'') json_str
                | Some (JString s) \<Rightarrow> Some s
                | _ \<Rightarrow> None);
              message = (case inner of Some s \<Rightarrow> Some s | None \<Rightarrow> Option.bind (json_get ''message'' value) json_str)
          in case map_option trim message of
               None \<Rightarrow> None
             | Some m \<Rightarrow> if m = [] then None else Some m)"

definition error_detail :: "(string \<Rightarrow> json option) \<Rightarrow> u16 \<Rightarrow> string \<Rightarrow> string" where
  "error_detail parse status body =
     (let trimmed = trim body; failed = ''request failed with status '' @ decimal (unat status)
      in if trimmed = [] then failed
         else case extract_error_message parse trimmed of
                Some message \<Rightarrow> message
              | None \<Rightarrow> failed @ '': '' @ trimmed)"

section \<open>The loop\<close>

record http_response =
  hr_status :: u16
  hr_retry_after :: "string option"
  hr_body :: string

record attempt_env =
  ae_cancelled :: bool \<comment> \<open>a cancellation is pending before the request is sent\<close>
  ae_answer :: "string + http_response" \<comment> \<open>a transport error or a response\<close>
  ae_jitter :: "nat \<Rightarrow> nat"
  ae_date_delta :: "string \<Rightarrow> int option"
  ae_wait_cancelled :: bool \<comment> \<open>a cancellation arrives during the wait\<close>

text \<open>The wait: the callback is told of the capped delay; \<open>True\<close> is a cancellation.\<close>

definition wait_before_retry :: "attempt_env \<Rightarrow> u32 \<Rightarrow> nat \<Rightarrow> (u32 \<times> nat) list \<Rightarrow> (u32 \<times> nat) list \<times> bool" where
  "wait_before_retry env attempt delay calls =
     (calls @ [(attempt, min delay (unat MAX_BACKOFF_MS))], ae_wait_cancelled env)"

definition answer_retry_after :: "attempt_env \<Rightarrow> http_response \<Rightarrow> nat option" where
  "answer_retry_after env r = parse_retry_after_secs (ae_date_delta env) (hr_retry_after r)"

text \<open>One attempt: either its outcome, or the delay after which it is repeated.\<close>

definition attempt_step ::
  "(string \<Rightarrow> json option) \<Rightarrow> retry_config \<Rightarrow> u32 \<Rightarrow> attempt_env \<Rightarrow> (provider_http_error + http_response) + nat" where
  "attempt_step parse retry attempt env =
     (case ae_answer env of
        Inl err \<Rightarrow>
          if attempt < rc_max_attempts retry
          then Inr (backoff_duration (ae_jitter env) attempt retry)
          else Inl (Inl (Io err))
      | Inr r \<Rightarrow>
          let status = hr_status r; after = answer_retry_after env r;
              failure = Inl (Inl (status_to_error status (error_detail parse status (hr_body r)) after))
          in if 200 \<le> status \<and> status < 300 then Inl (Inr r)
             else if is_retryable_status status \<and> attempt < rc_max_attempts retry
             then (case retry_decision (ae_jitter env) status after attempt retry of
                     Some delay \<Rightarrow> Inr delay
                   | None \<Rightarrow> failure)
             else failure)"

lemma attempt_step_again:
  "attempt_step parse retry attempt env = Inr delay \<Longrightarrow> attempt < rc_max_attempts retry"
  by (auto simp: attempt_step_def Let_def split: sum.splits if_splits option.splits)

function retry_loop ::
  "(string \<Rightarrow> json option) \<Rightarrow> retry_config \<Rightarrow> (u32 \<Rightarrow> attempt_env) \<Rightarrow> u32 \<Rightarrow> (u32 \<times> nat) list
   \<Rightarrow> (provider_http_error + http_response) \<times> (u32 \<times> nat) list" where
  "retry_loop parse retry env n calls =
     (let attempt = n + 1; e = env attempt
      in if ae_cancelled e then (Inl Cancelled, calls)
         else case attempt_step parse retry attempt e of
                Inl out \<Rightarrow> (out, calls)
              | Inr delay \<Rightarrow>
                  (case wait_before_retry e attempt delay calls of
                     (calls', True) \<Rightarrow> (Inl Cancelled, calls')
                   | (calls', False) \<Rightarrow> retry_loop parse retry env attempt calls'))"
  by pat_completeness auto

termination
proof (relation "measure (\<lambda>(_, retry, _, n, _). if n = - 1 then 2 ^ 32 else unat (rc_max_attempts retry) - unat n)")
  fix parse retry env n calls attempt e delay calls' x y
  assume "attempt = n + 1" and "attempt_step parse retry attempt e = Inr delay"
  moreover have "unat (rc_max_attempts retry) < 2 ^ 32"
    using unsigned_less [of "rc_max_attempts retry"] by simp
  ultimately have "((parse, retry, env, attempt, calls'), (parse, retry, env, n, calls))
      \<in> measure (\<lambda>(_, retry, _, n, _). if n = - 1 then 2 ^ 32 else unat (rc_max_attempts retry) - unat n)"
    using attempt_step_again [of parse retry attempt e delay] word_less_not_max [of attempt] unat_succ [of n]
    by (auto simp: word_less_nat_alt)
  then show "((parse, retry, env, attempt, calls'), (parse, retry, env, n, calls))
      \<in> measure (\<lambda>(_, retry, _, n, _). if n = - 1 then 2 ^ 32 else unat (rc_max_attempts retry) - unat n)" .
qed simp

declare retry_loop.simps [simp del]

section \<open>What the loop does\<close>

text \<open>
  The failures after which another attempt can help: a transport error, an overloaded or unreachable
  server, and a rate limit whose stated cooldown fits the budget.
\<close>

definition transient :: "retry_config \<Rightarrow> attempt_env \<Rightarrow> bool" where
  "transient retry env \<longleftrightarrow>
     (case ae_answer env of
        Inl _ \<Rightarrow> True
      | Inr r \<Rightarrow>
          is_retryable_status (hr_status r)
          \<and> (hr_status r \<in> {429, 503} \<longrightarrow>
               (case answer_retry_after env r of
                  None \<Rightarrow> True
                | Some s \<Rightarrow> s * 1000 \<le> unat (min (rc_max_backoff_ms retry) MAX_BACKOFF_MS))))"

lemma retryable_not_success: "is_retryable_status status \<Longrightarrow> \<not> (200 \<le> status \<and> status < 300)"
  by (auto simp: is_retryable_status_def)

lemma attempt_step_Inr:
  "(\<exists>delay. attempt_step parse retry attempt env = Inr delay)
   \<longleftrightarrow> transient retry env \<and> attempt < rc_max_attempts retry"
proof (cases "ae_answer env")
  case (Inl e)
  then show ?thesis by (auto simp: attempt_step_def transient_def)
next
  case (Inr r)
  then show ?thesis using retryable_not_success [of "hr_status r"]
    by (auto simp: attempt_step_def transient_def retry_decision_def Let_def split: if_splits option.splits)
qed

text \<open>The outcome of an attempt that is not repeated.\<close>

definition last_outcome ::
  "(string \<Rightarrow> json option) \<Rightarrow> retry_config \<Rightarrow> (u32 \<Rightarrow> attempt_env) \<Rightarrow> u32 \<Rightarrow> provider_http_error + http_response" where
  "last_outcome parse retry env attempt =
     (if ae_cancelled (env attempt) then Inl Cancelled
      else case attempt_step parse retry attempt (env attempt) of Inl out \<Rightarrow> out | Inr _ \<Rightarrow> Inl Cancelled)"

definition loop_trace ::
  "(string \<Rightarrow> json option) \<Rightarrow> retry_config \<Rightarrow> (u32 \<Rightarrow> attempt_env) \<Rightarrow> u32 \<Rightarrow> (u32 \<times> nat) list
   \<Rightarrow> provider_http_error + http_response \<Rightarrow> bool" where
  "loop_trace parse retry env n waits out \<longleftrightarrow>
     map fst waits = map (\<lambda>i. n + of_nat i) [1..<Suc (length waits)]
     \<and> unat n + length waits < max 1 (unat (rc_max_attempts retry))
     \<and> (\<forall>(a, d) \<in> set waits. d \<le> unat MAX_BACKOFF_MS \<and> transient retry (env a) \<and> \<not> ae_cancelled (env a))
     \<and> (if waits \<noteq> [] \<and> ae_wait_cancelled (env (n + of_nat (length waits))) then out = Inl Cancelled
        else out = last_outcome parse retry env (n + of_nat (length waits) + 1)
          \<and> (ae_cancelled (env (n + of_nat (length waits) + 1))
             \<or> \<not> (transient retry (env (n + of_nat (length waits) + 1))
                 \<and> n + of_nat (length waits) + 1 < rc_max_attempts retry)))"

lemma loop_trace_Cons:
  assumes "loop_trace parse retry env (n + 1) waits out" and "n + 1 < rc_max_attempts retry" and "n \<noteq> - 1"
    and "transient retry (env (n + 1))" and "\<not> ae_cancelled (env (n + 1))" and "\<not> ae_wait_cancelled (env (n + 1))"
    and "d \<le> unat MAX_BACKOFF_MS"
  shows "loop_trace parse retry env n ((n + 1, d) # waits) out"
proof -
  define last where "last = n + 1 + of_nat (length waits)"
  have "map (\<lambda>i. n + of_nat i) [1..<Suc (Suc k)] = (n + 1) # map (\<lambda>i. n + 1 + of_nat i) [1..<Suc k]" for k
    by (rule nth_equalityI) (auto simp: nth_Cons' simp del: upt_Suc)
  moreover have "unat (n + 1) = Suc (unat n)" using assms(3) by (rule unat_succ)
  moreover have len: "n + of_nat (length ((n + 1, d) # waits)) = last" by (simp add: last_def)
  moreover have "waits = [] \<Longrightarrow> \<not> ae_wait_cancelled (env last)"
    using assms(6) by (simp add: last_def)
  ultimately show ?thesis
    using assms(1) [unfolded loop_trace_def, folded last_def] assms(4,5,7) unfolding loop_trace_def len
    by (cases "waits = []") (auto split: if_splits simp del: upt_Suc)
qed

lemma retry_loop_trace:
  assumes "retry_loop parse retry env n calls = (out, calls')" and "n = 0 \<or> n < rc_max_attempts retry"
  shows "\<exists>waits. calls' = calls @ waits \<and> loop_trace parse retry env n waits out"
  using assms
proof (induction parse retry env n calls rule: retry_loop.induct)
  case (1 parse retry env n calls)
  let ?a = "n + 1" and ?e = "env (n + 1)"
  have n: "n \<noteq> - 1" using "1.prems"(2) word_less_not_max [of n] by auto
  have base: "loop_trace parse retry env n [] out"
    if "out = last_outcome parse retry env ?a"
      and "ae_cancelled ?e \<or> \<not> (transient retry ?e \<and> ?a < rc_max_attempts retry)"
    using that "1.prems"(2) by (auto simp: loop_trace_def word_less_nat_alt)
  show ?case
  proof (cases "ae_cancelled ?e")
    case True
    then show ?thesis using "1.prems"(1) base by (simp add: retry_loop.simps [of parse retry env n] last_outcome_def)
  next
    case False
    show ?thesis
    proof (cases "attempt_step parse retry ?a ?e")
      case (Inl o1)
      then have "\<not> (transient retry ?e \<and> ?a < rc_max_attempts retry)"
        using attempt_step_Inr [of parse retry ?a ?e] by auto
      with Inl False show ?thesis using "1.prems"(1) base
        by (simp add: retry_loop.simps [of parse retry env n] last_outcome_def)
    next
      case (Inr delay)
      then have tr: "transient retry ?e" and lt: "?a < rc_max_attempts retry"
        using attempt_step_Inr [of parse retry ?a ?e] by auto
      let ?d = "min delay (unat MAX_BACKOFF_MS)"
      show ?thesis
      proof (cases "ae_wait_cancelled ?e")
        case True
        then have "calls' = calls @ [(?a, ?d)]" and "out = Inl Cancelled"
          using "1.prems"(1) False Inr by (simp_all add: retry_loop.simps [of parse retry env n] wait_before_retry_def)
        moreover have "loop_trace parse retry env n [(?a, ?d)] (Inl Cancelled)"
          using True tr lt False unat_succ [OF n] by (auto simp: loop_trace_def word_less_nat_alt)
        ultimately show ?thesis by blast
      next
        case nw: False
        then have "retry_loop parse retry env ?a (calls @ [(?a, ?d)]) = (out, calls')"
          using "1.prems"(1) False Inr by (simp add: retry_loop.simps [of parse retry env n] wait_before_retry_def Let_def)
        with "1.IH" [OF refl refl False Inr, of "calls @ [(?a, ?d)]" False] nw lt
        obtain waits where "calls' = calls @ (?a, ?d) # waits" "loop_trace parse retry env ?a waits out"
          by (auto simp: wait_before_retry_def)
        then show ?thesis using loop_trace_Cons [of parse retry env n waits out ?d] lt n tr False nw by auto
      qed
    qed
  qed
qed

section \<open>Properties\<close>

text \<open>
  The retry loop. It always ends, after at most the configured number of attempts (one when none
  is configured). Every attempt but the last failed in a way that can pass: a transport error, one
  of the statuses 500, 502, 504, or 429 and 503 with no stated cooldown or one within the budget;
  no wait is longer than one hour, and the attempts are reported to the callback one by one. The
  result is the outcome of the last attempt, which succeeded, failed for good, or was the last
  one allowed; or it is \<open>Cancelled\<close>, when a cancellation was seen before an attempt or during a wait.
\<close>

lemma retry_loop_spec:
  "case retry_loop parse retry env 0 [] of (out, waits) \<Rightarrow>
     map fst waits = map of_nat [1..<Suc (length waits)]
     \<and> length waits < max 1 (unat (rc_max_attempts retry))
     \<and> (\<forall>(a, d) \<in> set waits. d \<le> unat MAX_BACKOFF_MS \<and> transient retry (env a) \<and> \<not> ae_cancelled (env a))
     \<and> (if waits \<noteq> [] \<and> ae_wait_cancelled (env (of_nat (length waits))) then out = Inl Cancelled
        else out = last_outcome parse retry env (of_nat (length waits) + 1)
          \<and> (ae_cancelled (env (of_nat (length waits) + 1))
             \<or> \<not> (transient retry (env (of_nat (length waits) + 1))
                 \<and> of_nat (length waits) + 1 < rc_max_attempts retry)))"
proof (cases "retry_loop parse retry env 0 []")
  case (Pair out waits)
  from retry_loop_trace [OF Pair] have "loop_trace parse retry env 0 waits out" by simp
  then show ?thesis using Pair by (simp add: loop_trace_def del: upt_Suc cong: if_cong)
qed

definition demo_attempts :: "u32 \<Rightarrow> attempt_env" where
  "demo_attempts a = \<lparr>ae_cancelled = False,
     ae_answer = Inr \<lparr>hr_status = (if a = 1 then 429 else 200), hr_retry_after = Some ''2'', hr_body = []\<rparr>,
     ae_jitter = (\<lambda>n. n), ae_date_delta = (\<lambda>_. None), ae_wait_cancelled = False\<rparr>"

definition demo_retry :: retry_config where
  "demo_retry = retry_config_new 3 500 30000"

lemma parse_two: "parse_retry_after_secs d (Some ''2'') = Some 2"
  by (simp add: parse_retry_after_secs_def trim_def trim_start.simps trim_end.simps ws_len_def ws_suffix_len_def
      parse_u64_def is_digit_def undecimal_def u64_max_def)

lemma demo_retry_run: "retry_loop (\<lambda>_. None) demo_retry demo_attempts 0 [] =
    (Inr \<lparr>hr_status = 200, hr_retry_after = Some ''2'', hr_body = []\<rparr>, [(1, 2000)])"
  by (simp add: retry_loop.simps demo_attempts_def demo_retry_def retry_config_new_def attempt_step_def
      is_retryable_status_def retry_decision_def answer_retry_after_def parse_two MAX_BACKOFF_MS_def
      wait_before_retry_def Let_def)

lemma retry_loop_spec_witness:
  "transient demo_retry (demo_attempts 1) \<and> last_outcome (\<lambda>_. None) demo_retry demo_attempts 2 =
     Inr \<lparr>hr_status = 200, hr_retry_after = Some ''2'', hr_body = []\<rparr>"
  using retry_loop_spec [where parse = "\<lambda>_. None" and retry = demo_retry and env = demo_attempts]
  by (simp add: demo_retry_run) (simp add: demo_attempts_def)

end
