(* ===== verification/Accounts.thy ===== *)
theory Accounts
  imports Retry Proto "HOL-Library.List_Lexorder" "HOL-Library.Char_ord"
begin

text \<open>
  \<^verbatim>\<open>choreo-daemon/src/accounts/mod.rs\<close>: the inference accounts, their validation, and the manager
  that keeps them in memory and in \<^verbatim>\<open>accounts.toml\<close>; and the context-window overrides of
  \<^verbatim>\<open>choreo-ai-protocols/src/context_window.rs\<close>. The TOML library is a parameter (\<open>toml\<close>). The
  per-model tables of a configuration are only compared and looked up, so they are kept in a
  canonical order.
\<close>

section \<open>Configurations\<close>

datatype request_format = Responses | ChatCompletions

datatype max_tokens_field = MaxTokens | MaxCompletionTokens

record account_config =
  acc_name :: string
  acc_provider :: string
  acc_base_url :: "string option"
  acc_streaming :: "bool option"
  acc_stream_options :: "bool option"
  acc_retry_max_attempts :: "u32 option"
  acc_connect_timeout_secs :: "u64 option"
  acc_request_timeout_secs :: "u64 option"
  acc_total_timeout_secs :: "u64 option"
  acc_model_list_path :: "string option"
  acc_responses_path :: "string option"
  acc_chat_completions_path :: "string option"
  acc_default_request_format :: "request_format option"
  acc_chat_completions_max_tokens :: "u32 option"
  acc_model_max_tokens :: "(string, u32) btmap option"
  acc_chat_completions_max_tokens_field :: "max_tokens_field option"
  acc_responses_max_output_tokens :: "u32 option"
  acc_model_responses_max_output_tokens :: "(string, u32) btmap option"
  acc_programmatic_tool_calling :: "bool option"
  acc_model_max_tokens_fields :: "(string, max_tokens_field) btmap option"
  acc_context_window :: "u32 option"
  acc_model_context_windows :: "(string, u32) btmap option"
  acc_retry_initial_backoff_ms :: "u64 option"
  acc_retry_max_backoff_ms :: "u64 option"

definition account_simple :: "string \<Rightarrow> string \<Rightarrow> account_config" where
  "account_simple name provider =
     \<lparr>acc_name = name, acc_provider = provider, acc_base_url = None, acc_streaming = None,
      acc_stream_options = None, acc_retry_max_attempts = None, acc_connect_timeout_secs = None,
      acc_request_timeout_secs = None, acc_total_timeout_secs = None, acc_model_list_path = None,
      acc_responses_path = None, acc_chat_completions_path = None, acc_default_request_format = None,
      acc_chat_completions_max_tokens = None, acc_model_max_tokens = None,
      acc_chat_completions_max_tokens_field = None, acc_responses_max_output_tokens = None,
      acc_model_responses_max_output_tokens = None, acc_programmatic_tool_calling = None,
      acc_model_max_tokens_fields = None, acc_context_window = None, acc_model_context_windows = None,
      acc_retry_initial_backoff_ms = None, acc_retry_max_backoff_ms = None\<rparr>"

definition account_prefix :: "account_config \<Rightarrow> string" where
  "account_prefix c = ''account '' @ [CHR 0x27] @ acc_name c @ [CHR 0x27] @ '': ''"

definition over_ceiling :: "account_config \<Rightarrow> string \<Rightarrow> u64 \<Rightarrow> string" where
  "over_ceiling c field ms =
     account_prefix c @ field @ '' ('' @ decimal (unat ms) @ '' ms) exceeds the maximum supported retry delay (''
     @ decimal (unat MAX_BACKOFF_MS) @ '' ms); lower it or leave it unset to use the default''"

text \<open>\<open>None\<close> is a valid configuration, \<open>Some\<close> the error.\<close>

definition account_validate :: "account_config \<Rightarrow> string option" where
  "account_validate c =
     (case acc_retry_initial_backoff_ms c of
        Some initial \<Rightarrow>
          if MAX_BACKOFF_MS < initial then Some (over_ceiling c ''retry_initial_backoff_ms'' initial)
          else (case acc_retry_max_backoff_ms c of
                  None \<Rightarrow> None
                | Some mx \<Rightarrow>
                    if MAX_BACKOFF_MS < mx then Some (over_ceiling c ''retry_max_backoff_ms'' mx)
                    else if mx < initial then
                      Some (account_prefix c @ ''retry_initial_backoff_ms ('' @ decimal (unat initial)
                        @ '' ms) must not exceed retry_max_backoff_ms ('' @ decimal (unat mx) @ '' ms)'')
                    else None)
      | None \<Rightarrow>
          (case acc_retry_max_backoff_ms c of
             None \<Rightarrow> None
           | Some mx \<Rightarrow>
               if MAX_BACKOFF_MS < mx then Some (over_ceiling c ''retry_max_backoff_ms'' mx) else None))"

definition to_info :: "bool \<Rightarrow> account_config \<Rightarrow> account_info" where
  "to_info has_credential c = \<lparr>ai_name = acc_name c, ai_provider = acc_provider c, ai_has_credential = has_credential\<rparr>"

record context_window_config =
  cw_context_window :: "u32 option"
  cw_per_model :: "(string, u32) btmap"

definition context_window_for_model :: "context_window_config \<Rightarrow> string \<Rightarrow> u32 option" where
  "context_window_for_model c model =
     (case map_of (cw_per_model c) model of Some w \<Rightarrow> Some w | None \<Rightarrow> cw_context_window c)"

definition cw_apply_overrides ::
  "u32 option \<Rightarrow> (string, u32) btmap option \<Rightarrow> context_window_config \<Rightarrow> context_window_config" where
  "cw_apply_overrides window per_model c =
     (let c1 = (case window of Some w \<Rightarrow> c\<lparr>cw_context_window := Some w\<rparr> | None \<Rightarrow> c)
      in case per_model of Some m \<Rightarrow> c1\<lparr>cw_per_model := m\<rparr> | None \<Rightarrow> c1)"

section \<open>The account manager\<close>

datatype text_file = MissingFile | UnreadableFile | TextFile string

record toml =
  toml_parse :: "string \<Rightarrow> account_config list option"
  toml_print :: "account_config list \<Rightarrow> string option"

record account_manager =
  am_path :: string
  am_accounts :: "(string, account_config) hmap"

definition am_empty :: account_manager where
  "am_empty = \<lparr>am_path = [], am_accounts = []\<rparr>"

definition am_load :: "toml \<Rightarrow> string \<Rightarrow> text_file \<Rightarrow> account_manager option" where
  "am_load t path file =
     (case file of
        MissingFile \<Rightarrow> Some \<lparr>am_path = path, am_accounts = []\<rparr>
      | UnreadableFile \<Rightarrow> None
      | TextFile raw \<Rightarrow>
          (case toml_parse t raw of
             None \<Rightarrow> None
           | Some cfgs \<Rightarrow>
               if list_all (\<lambda>c. account_validate c = None) cfgs
               then Some \<lparr>am_path = path, am_accounts = fold (\<lambda>c. AList.update (acc_name c) c) cfgs []\<rparr>
               else None))"

definition all_configs :: "account_manager \<Rightarrow> account_config list" where
  "all_configs m = sort_key acc_name (map snd (am_accounts m))"

text \<open>The new content of the file; \<open>writable\<close> says whether the atomic write goes through.\<close>

definition am_save :: "toml \<Rightarrow> bool \<Rightarrow> account_manager \<Rightarrow> text_file option" where
  "am_save t writable m =
     (case toml_print t (all_configs m) of
        None \<Rightarrow> None
      | Some s \<Rightarrow> if writable then Some (TextFile s) else None)"

datatype account_error = InvalidAccount string | AccountExists string | AccountMissing string | SaveFailed

definition am_store :: "toml \<Rightarrow> bool \<Rightarrow> text_file \<Rightarrow> account_manager \<Rightarrow> account_manager \<times> text_file \<times> account_error option" where
  "am_store t writable file m =
     (case am_save t writable m of
        None \<Rightarrow> (m, file, Some SaveFailed)
      | Some file' \<Rightarrow> (m, file', None))"

definition am_add ::
  "toml \<Rightarrow> bool \<Rightarrow> account_config \<Rightarrow> account_manager \<times> text_file \<Rightarrow> account_manager \<times> text_file \<times> account_error option" where
  "am_add t writable config mf =
     (case account_validate config of
        Some e \<Rightarrow> (fst mf, snd mf, Some (InvalidAccount e))
      | None \<Rightarrow>
          if map_of (am_accounts (fst mf)) (acc_name config) \<noteq> None
          then (fst mf, snd mf, Some (AccountExists (acc_name config)))
          else am_store t writable (snd mf)
                 ((fst mf)\<lparr>am_accounts := AList.update (acc_name config) config (am_accounts (fst mf))\<rparr>))"

definition am_remove ::
  "toml \<Rightarrow> bool \<Rightarrow> string \<Rightarrow> account_manager \<times> text_file \<Rightarrow> account_manager \<times> text_file \<times> account_error option" where
  "am_remove t writable name mf =
     (if map_of (am_accounts (fst mf)) name = None then (fst mf, snd mf, Some (AccountMissing name))
      else am_store t writable (snd mf) ((fst mf)\<lparr>am_accounts := AList.delete name (am_accounts (fst mf))\<rparr>))"

definition am_list :: "string set \<Rightarrow> account_manager \<Rightarrow> account_info list" where
  "am_list credentialed m =
     sort_key ai_name (map (\<lambda>(_, c). to_info (acc_name c \<in> credentialed) c) (am_accounts m))"

definition am_names :: "account_manager \<Rightarrow> string list" where
  "am_names m = sort (keys (am_accounts m))"

definition am_first :: "account_manager \<Rightarrow> account_config option" where
  "am_first m = (case sort (keys (am_accounts m)) of [] \<Rightarrow> None | k # _ \<Rightarrow> map_of (am_accounts m) k)"

section \<open>Well-formed managers\<close>

text \<open>Each account is filed under its name, once, and is valid.\<close>

definition am_wf :: "account_manager \<Rightarrow> bool" where
  "am_wf m \<longleftrightarrow> hm_wf (am_accounts m)
     \<and> (\<forall>(k, c) \<in> set (am_accounts m). acc_name c = k \<and> account_validate c = None)"

lemma am_wf_lookup:
  "am_wf m \<Longrightarrow> map_of (am_accounts m) k = Some c \<Longrightarrow> acc_name c = k \<and> account_validate c = None"
  by (auto simp: am_wf_def dest: map_of_SomeD)

lemma set_sub_update: "set (AList.update k v al) \<subseteq> insert (k, v) (set al)"
  by (induction al) auto

lemma am_wf_update:
  "am_wf m \<Longrightarrow> account_validate c = None \<Longrightarrow> am_wf (m\<lparr>am_accounts := AList.update (acc_name c) c (am_accounts m)\<rparr>)"
  using set_sub_update [of "acc_name c" c "am_accounts m"] by (auto simp: am_wf_def hm_wf_update)

lemma am_wf_delete: "am_wf m \<Longrightarrow> am_wf (m\<lparr>am_accounts := AList.delete k (am_accounts m)\<rparr>)"
proof -
  have "set (AList.delete k al) \<subseteq> set al" for al :: "(string \<times> account_config) list"
    by (auto simp: AList.delete_eq)
  then show "am_wf m \<Longrightarrow> am_wf (m\<lparr>am_accounts := AList.delete k (am_accounts m)\<rparr>)"
    by (fastforce simp: am_wf_def intro: hm_wf_delete)
qed

lemma am_wf_store: "am_wf m \<Longrightarrow> am_wf (fst (am_store t w file m))"
  by (simp add: am_store_def split: option.splits)

lemma am_wf_add: "am_wf (fst mf) \<Longrightarrow> am_wf (fst (am_add t w c mf))"
  by (auto simp: am_add_def intro: am_wf_store am_wf_update split: option.splits)

lemma am_wf_remove: "am_wf (fst mf) \<Longrightarrow> am_wf (fst (am_remove t w name mf))"
  by (auto simp: am_remove_def intro: am_wf_store am_wf_delete)

lemma am_wf_filed:
  assumes "list_all (\<lambda>c. account_validate c = None) cfgs" and "am_wf m"
  shows "am_wf (m\<lparr>am_accounts := fold (\<lambda>c. AList.update (acc_name c) c) cfgs (am_accounts m)\<rparr>)"
  using assms
proof (induction cfgs arbitrary: m)
  case (Cons c cfgs)
  then show ?case using Cons.IH [of "m\<lparr>am_accounts := AList.update (acc_name c) c (am_accounts m)\<rparr>"]
    by (simp add: am_wf_update)
qed simp

lemma am_wf_load: "am_load t p file = Some m \<Longrightarrow> am_wf m"
proof -
  have e: "am_wf \<lparr>am_path = p, am_accounts = []\<rparr>" by (simp add: am_wf_def)
  show "am_load t p file = Some m \<Longrightarrow> am_wf m"
    using e am_wf_filed [OF _ e] by (auto simp: am_load_def split: text_file.splits option.splits if_splits)
qed

text \<open>The sorted configurations depend only on what is filed, not on the order of the map.\<close>

lemma all_configs_set:
  assumes "am_wf m"
  shows "set (all_configs m) = {c. map_of (am_accounts m) (acc_name c) = Some c}"
    and "distinct (map acc_name (all_configs m))" and "sorted (map acc_name (all_configs m))"
proof -
  have name: "map acc_name (map snd (am_accounts m)) = keys (am_accounts m)"
    using assms by (auto simp: am_wf_def)
  have d: "distinct (keys (am_accounts m))" using assms by (simp add: am_wf_def hm_wf_def)
  show "set (all_configs m) = {c. map_of (am_accounts m) (acc_name c) = Some c}"
    using assms d by (force simp: all_configs_def am_wf_def)
  have "distinct (map acc_name (map snd (am_accounts m)))" using d by (simp only: name)
  then show "distinct (map acc_name (all_configs m))"
    unfolding all_configs_def by (subst (asm) distinct_map) (simp add: distinct_map)
  show "sorted (map acc_name (all_configs m))" by (simp add: all_configs_def)
qed

lemma sorted_by_name_unique:
  assumes "set xs = set ys" and "distinct (map acc_name xs)" and "sorted (map acc_name xs)"
    and "distinct (map acc_name ys)" and "sorted (map acc_name ys)"
  shows "xs = ys"
  using assms map_sorted_distinct_set_unique [of acc_name xs ys] by (auto simp: distinct_map)

lemma all_configs_cong:
  "am_wf m \<Longrightarrow> am_wf m' \<Longrightarrow> map_of (am_accounts m) = map_of (am_accounts m') \<Longrightarrow> all_configs m = all_configs m'"
  by (rule sorted_by_name_unique) (simp_all add: all_configs_set)

lemma all_configs_valid: "am_wf m \<Longrightarrow> list_all (\<lambda>c. account_validate c = None) (all_configs m)"
  by (auto simp: list_all_iff all_configs_set dest: am_wf_lookup)

lemma map_of_filed:
  "distinct (map acc_name cfgs) \<Longrightarrow>
   map_of (fold (\<lambda>c. AList.update (acc_name c) c) cfgs ac) k =
     (case find (\<lambda>c. acc_name c = k) cfgs of Some c \<Rightarrow> Some c | None \<Rightarrow> map_of ac k)"
proof (induction cfgs arbitrary: ac)
  case (Cons c cfgs)
  have "find (\<lambda>d. acc_name d = acc_name c) cfgs = None"
    using Cons.prems unfolding find_None_iff by (auto simp: image_iff)
  then show ?case using Cons by (auto simp: update_conv' split: option.splits)
qed simp

lemma load_saved:
  assumes "am_wf m" and "am_save t True m = Some file" and "\<And>s. toml_print t (all_configs m) = Some s \<Longrightarrow> toml_parse t s = Some (all_configs m)"
  shows "\<exists>m'. am_load t p file = Some m' \<and> am_path m' = p \<and> map_of (am_accounts m') = map_of (am_accounts m)
    \<and> all_configs m' = all_configs m"
proof -
  from assms(2) obtain s where s: "toml_print t (all_configs m) = Some s" "file = TextFile s"
    by (auto simp: am_save_def split: option.splits)
  let ?m = "\<lparr>am_path = p, am_accounts = fold (\<lambda>c. AList.update (acc_name c) c) (all_configs m) []\<rparr>"
  have l: "am_load t p file = Some ?m"
    using s assms(3) [OF s(1)] all_configs_valid [OF assms(1)] by (simp add: am_load_def)
  have "map_of (am_accounts ?m) k = map_of (am_accounts m) k" for k
  proof (cases "find (\<lambda>c. acc_name c = k) (all_configs m)")
    case None
    then have "acc_name c \<noteq> k" if "map_of (am_accounts m) (acc_name c) = Some c" for c
      using that unfolding find_None_iff all_configs_set(1) [OF assms(1)] by blast
    then have "map_of (am_accounts m) k \<noteq> Some c" for c
      using am_wf_lookup [OF assms(1), of k c] by blast
    then have "map_of (am_accounts m) k = None" by (cases "map_of (am_accounts m) k") auto
    then show ?thesis using None all_configs_set(2) [OF assms(1)] by (simp add: map_of_filed)
  next
    case (Some c)
    then have "map_of (am_accounts m) k = Some c"
      using all_configs_set(1) [OF assms(1)] by (auto simp: find_Some_iff)
    then show ?thesis using Some all_configs_set(2) [OF assms(1)] by (simp add: map_of_filed)
  qed
  then have "map_of (am_accounts ?m) = map_of (am_accounts m)" by (rule ext)
  with l show ?thesis using all_configs_cong [OF am_wf_load [OF l] assms(1)] by auto
qed

end
