(* ===== verification/Session_Kv.thy ===== *)
theory Session_Kv
  imports Turn_Store Sanitize
begin

text \<open>
  The small tables of the database (\<^verbatim>\<open>choreo-daemon/src/db/mod.rs\<close>): the key-value store that tools
  use on behalf of a session, the credential blobs, the state of the catalog refresh and the
  keystore binding. A read of the key-value table before its first write is an error (\<open>None\<close>); the
  other tables read as empty before they exist.
\<close>

section \<open>Bytes and strings\<close>

definition string_of_bytes :: "bytes \<Rightarrow> string" where
  "string_of_bytes bs = map (\<lambda>b. char_of (unat b)) bs"

definition bytes_of_string :: "string \<Rightarrow> bytes" where
  "bytes_of_string s = map (\<lambda>c. of_nat (byte c)) s"

definition to_le_bytes :: "u64 \<Rightarrow> bytes" where
  "to_le_bytes w = map (\<lambda>i. ucast (drop_bit (8 * i) w)) [0..<8]"

definition from_le_bytes :: "bytes \<Rightarrow> u64" where
  "from_le_bytes bs = foldr (\<lambda>b w. ucast b + push_bit 8 w) bs 0"

section \<open>The key-value table\<close>

definition kv_set :: "u64 \<Rightarrow> string \<Rightarrow> bytes \<Rightarrow> store \<Rightarrow> store" where
  "kv_set sid key v st = st\<lparr>sto_kv := tab_insert (sid, key) v (sto_kv st)\<rparr>"

definition kv_get :: "u64 \<Rightarrow> string \<Rightarrow> store \<Rightarrow> bytes option option" where
  "kv_get sid key st = map_option (\<lambda>m. map_of m (sid, key)) (sto_kv st)"

definition kv_delete :: "u64 \<Rightarrow> string \<Rightarrow> store \<Rightarrow> store \<times> bool" where
  "kv_delete sid key st =
     (st\<lparr>sto_kv := tab_remove (sid, key) (sto_kv st)\<rparr>, map_of (rows (sto_kv st)) (sid, key) \<noteq> None)"

text \<open>The bounds of a range: without an end it goes on to the end of the session's keys.\<close>

definition kv_end :: "u64 \<Rightarrow> string option \<Rightarrow> u64 \<times> string" where
  "kv_end sid e = (case e of Some k \<Rightarrow> (sid, k) | None \<Rightarrow> (session_range_end sid, []))"

definition kv_start :: "u64 \<Rightarrow> string option \<Rightarrow> u64 \<times> string" where
  "kv_start sid s = (case s of Some k \<Rightarrow> (sid, k) | None \<Rightarrow> (sid, []))"

definition kv_delete_range :: "u64 \<Rightarrow> string \<Rightarrow> string option \<Rightarrow> store \<Rightarrow> store \<times> u64" where
  "kv_delete_range sid s e st =
     (st\<lparr>sto_kv := remove_range (sid, s) (kv_end sid e) (sto_kv st)\<rparr>,
      of_nat (length (key_range (sid, s) (kv_end sid e) (rows (sto_kv st)))))"

definition kv_get_range :: "u64 \<Rightarrow> string \<Rightarrow> string option \<Rightarrow> store \<Rightarrow> (string \<times> bytes) list option" where
  "kv_get_range sid s e st =
     map_option (\<lambda>m. map (\<lambda>(k, v). (snd k, v)) (key_range (sid, s) (kv_end sid e) m)) (sto_kv st)"

definition kv_list :: "u64 \<Rightarrow> string option \<Rightarrow> string option \<Rightarrow> store \<Rightarrow> string list option" where
  "kv_list sid s e st =
     map_option (\<lambda>m. map (\<lambda>(k, v). snd k) (key_range (kv_start sid s) (kv_end sid e) m)) (sto_kv st)"

definition kv_count :: "u64 \<Rightarrow> string option \<Rightarrow> store \<Rightarrow> u64 option" where
  "kv_count sid prefix st =
     map_option (\<lambda>m. of_nat (length (case prefix of
         Some p \<Rightarrow> key_range (sid, p) (sid, from_utf8_lossy (p @ [CHR 0xFF])) m
       | None \<Rightarrow> key_range (sid, []) (session_range_end sid, []) m))) (sto_kv st)"

section \<open>Credentials, catalog state and keystore binding\<close>

definition set_credential_blob :: "string \<Rightarrow> bytes \<Rightarrow> store \<Rightarrow> store" where
  "set_credential_blob service blob st = st\<lparr>sto_credentials := tab_insert service blob (sto_credentials st)\<rparr>"

definition get_all_credential_blobs :: "store \<Rightarrow> (string, bytes) hmap" where
  "get_all_credential_blobs st = fold (\<lambda>(k, v). AList.update k v) (rows (sto_credentials st)) []"

definition remove_credential_blob :: "string \<Rightarrow> store \<Rightarrow> store" where
  "remove_credential_blob service st = st\<lparr>sto_credentials := tab_remove service (sto_credentials st)\<rparr>"

definition CATALOG_LAST_ATTEMPT_KEY :: string where
  "CATALOG_LAST_ATTEMPT_KEY = ''last_attempt_ms''"

definition CATALOG_ETAG_KEY :: string where
  "CATALOG_ETAG_KEY = ''etag''"

definition catalog_state_get :: "string \<Rightarrow> store \<Rightarrow> bytes option" where
  "catalog_state_get key st = map_of (rows (sto_catalog_state st)) key"

definition catalog_state_write :: "string \<Rightarrow> bytes option \<Rightarrow> store \<Rightarrow> store" where
  "catalog_state_write key v st = st\<lparr>sto_catalog_state :=
     (case v of Some b \<Rightarrow> tab_insert key b (sto_catalog_state st) | None \<Rightarrow> tab_remove key (sto_catalog_state st))\<rparr>"

definition set_catalog_last_attempt_ms :: "u64 \<Rightarrow> store \<Rightarrow> store" where
  "set_catalog_last_attempt_ms ms st = catalog_state_write CATALOG_LAST_ATTEMPT_KEY (Some (to_le_bytes ms)) st"

definition get_catalog_last_attempt_ms :: "store \<Rightarrow> u64 option" where
  "get_catalog_last_attempt_ms st =
     (case catalog_state_get CATALOG_LAST_ATTEMPT_KEY st of
        None \<Rightarrow> None
      | Some b \<Rightarrow> if length b = 8 then Some (from_le_bytes b) else None)"

definition set_catalog_etag :: "string option \<Rightarrow> store \<Rightarrow> store" where
  "set_catalog_etag etag st = catalog_state_write CATALOG_ETAG_KEY (map_option bytes_of_string etag) st"

definition get_catalog_etag :: "store \<Rightarrow> string option" where
  "get_catalog_etag st =
     (case catalog_state_get CATALOG_ETAG_KEY st of
        None \<Rightarrow> None
      | Some b \<Rightarrow>
          let trimmed = trim (from_utf8_lossy (string_of_bytes b))
          in if trimmed = [] then None else Some trimmed)"

definition KEYSTORE_BINDING_KEY :: string where
  "KEYSTORE_BINDING_KEY = ''binding''"

definition get_keystore_binding :: "store \<Rightarrow> bytes option" where
  "get_keystore_binding st =
     (case map_of (rows (sto_keystore st)) KEYSTORE_BINDING_KEY of
        None \<Rightarrow> None
      | Some b \<Rightarrow> if length b = 32 then Some b else None)"

definition set_keystore_binding :: "bytes \<Rightarrow> store \<Rightarrow> store" where
  "set_keystore_binding public_key st =
     st\<lparr>sto_keystore := tab_insert KEYSTORE_BINDING_KEY public_key (sto_keystore st)\<rparr>"

section \<open>Byte lemmas\<close>

lemma string_bytes [simp]:
  "string_of_bytes (bytes_of_string s) = s"
  "bytes_of_string (string_of_bytes b) = b"
proof -
  have "unat (of_nat (byte c) :: u8) = byte c" for c
    by (simp add: unat_of_nat take_bit_eq_mod)
  then show "string_of_bytes (bytes_of_string s) = s"
    by (simp add: string_of_bytes_def bytes_of_string_def comp_def)
  have "unat (w :: u8) < 256" for w using unsigned_less [of w] by simp
  then show "bytes_of_string (string_of_bytes b) = b"
    by (simp add: string_of_bytes_def bytes_of_string_def comp_def)
qed

lemma le_bytes_roundtrip [simp]: "from_le_bytes (to_le_bytes w) = w"
proof -
  have step: "ucast (ucast x :: u8) + push_bit 8 (drop_bit 8 x) = x" for x :: u64
  proof -
    have "ucast (ucast x :: u8) = (take_bit 8 x :: u64)" by (simp add: unsigned_ucast_eq)
    then show ?thesis using bits_ident [of 8 x] by (simp add: add.commute)
  qed
  have "drop_bit 64 w = 0" by (rule bit_eqI) (simp add: bit_simps)
  moreover have "drop_bit (8 + n) w = drop_bit 8 (drop_bit n w)" for n by (simp add: add.commute)
  ultimately show ?thesis
    using step [of w] step [of "drop_bit 8 w"] step [of "drop_bit 16 w"] step [of "drop_bit 24 w"]
      step [of "drop_bit 32 w"] step [of "drop_bit 40 w"] step [of "drop_bit 48 w"] step [of "drop_bit 56 w"]
    by (simp add: to_le_bytes_def from_le_bytes_def upt_conv_Cons)
qed

section \<open>The contracts of the small tables\<close>

text \<open>
  The key-value table and the credential table are keyed stores: a read sees the last write of its
  key, and no other key is touched.
\<close>

lemma store_wf_small [simp]:
  "store_wf st \<Longrightarrow> store_wf (kv_set sid key v st)"
  "store_wf st \<Longrightarrow> store_wf (fst (kv_delete sid key st))"
  "store_wf st \<Longrightarrow> store_wf (fst (kv_delete_range sid s e st))"
  "store_wf st \<Longrightarrow> store_wf (set_credential_blob service blob st)"
  "store_wf st \<Longrightarrow> store_wf (remove_credential_blob service st)"
  "store_wf st \<Longrightarrow> store_wf (catalog_state_write key w st)"
  "store_wf st \<Longrightarrow> store_wf (set_catalog_last_attempt_ms ms st)"
  "store_wf st \<Longrightarrow> store_wf (set_catalog_etag etag st)"
  "store_wf st \<Longrightarrow> store_wf (set_keystore_binding pk st)"
  "store_wf st \<Longrightarrow> store_wf (store_mark_session_deleted sid st)"
  "store_wf st \<Longrightarrow> store_wf (store_clear_session_tombstone sid st)"
  by (auto simp: store_wf_def kv_set_def kv_delete_def kv_delete_range_def set_credential_blob_def
      remove_credential_blob_def catalog_state_write_def set_catalog_last_attempt_ms_def
      set_catalog_etag_def set_keystore_binding_def store_mark_session_deleted_def
      store_clear_session_tombstone_def split: option.splits)

definition kv_lookup :: "store \<Rightarrow> u64 \<times> string \<Rightarrow> bytes option" where
  "kv_lookup st k = Option.bind (kv_get (fst k) (snd k) st) (\<lambda>v. v)"

lemma kv_lookup_rows: "kv_lookup st k = map_of (rows (sto_kv st)) k"
  by (cases "sto_kv st") (simp_all add: kv_lookup_def kv_get_def)

interpretation kv: keyed_store kv_lookup "\<lambda>k. kv_set (fst k) (snd k)" "\<lambda>k st. fst (kv_delete (fst k) (snd k) st)" store_wf
  by unfold_locales
    (simp_all add: kv_lookup_rows kv_set_def kv_delete_def delete_conv' restrict_map_def, simp_all add: store_wf_def)

interpretation cred: keyed_store "\<lambda>st k. map_of (rows (sto_credentials st)) k" set_credential_blob remove_credential_blob store_wf
  by unfold_locales
    (simp_all add: set_credential_blob_def remove_credential_blob_def delete_conv' restrict_map_def, simp_all add: store_wf_def)

text \<open>Before the first write every read of the key-value table is an error.\<close>

lemma kv_read_before_write:
  "sto_kv st = None \<Longrightarrow> kv_get sid key st = None \<and> kv_list sid s e st = None \<and> kv_count sid prefix st = None
     \<and> kv_get_range sid k e st = None"
  by (simp add: kv_get_def kv_list_def kv_count_def kv_get_range_def)

lemma get_all_credential_blobs_lookup:
  assumes "store_wf st"
  shows "map_of (get_all_credential_blobs st) = map_of (rows (sto_credentials st))"
    "hm_wf (get_all_credential_blobs st)"
proof -
  have d: "distinct (map fst (rows (sto_credentials st)))"
    using assms by (simp add: store_wf_def tab_wf_def bt_wf_def strict_sorted_iff)
  show "map_of (get_all_credential_blobs st) = map_of (rows (sto_credentials st))"
    using hm.get_put_all [OF hm_wf_Nil d]
    by (auto simp: fun_eq_iff get_all_credential_blobs_def hm.put_all_def split: option.splits)
  show "hm_wf (get_all_credential_blobs st)"
    using hm.wf_put_all [OF hm_wf_Nil] by (simp add: get_all_credential_blobs_def hm.put_all_def)
qed

text \<open>The advisory catalog state reads back, and the keystore binding when it has its length.\<close>

lemma catalog_roundtrip:
  "get_catalog_last_attempt_ms (set_catalog_last_attempt_ms ms st) = Some ms"
  "get_catalog_last_attempt_ms (set_catalog_etag etag st) = get_catalog_last_attempt_ms st"
  "get_catalog_etag (set_catalog_etag None st) = None"
  by (auto simp: get_catalog_last_attempt_ms_def set_catalog_last_attempt_ms_def catalog_state_get_def
      catalog_state_write_def set_catalog_etag_def get_catalog_etag_def CATALOG_LAST_ATTEMPT_KEY_def CATALOG_ETAG_KEY_def
      delete_conv' restrict_map_def to_le_bytes_def [THEN arg_cong, of length] split: option.splits)

lemma keystore_binding_roundtrip:
  "length pk = 32 \<Longrightarrow> get_keystore_binding (set_keystore_binding pk st) = Some pk"
  by (simp add: get_keystore_binding_def set_keystore_binding_def)

section \<open>Prefix counts\<close>

lemma from_utf8_lossy_append:
  assumes "utf8_valid p"
  shows "from_utf8_lossy (p @ r) = p @ from_utf8_lossy r"
proof -
  have "from_utf8_lossy (concat cs @ r) = concat cs @ from_utf8_lossy r" if "list_all uchar cs" for cs
    using that
  proof (induction cs)
    case (Cons c cs)
    then have c: "utf8_chunk (c @ concat cs @ r) = (True, length c)" by (simp add: chunk_append)
    have "c \<noteq> []" using Cons.prems by (auto simp: uchar_def)
    with c Cons show ?case by (simp add: from_utf8_lossy.simps [of "c @ concat cs @ r"])
  qed simp
  then show ?thesis using assms concat_chars [of p] by (metis valid_chars)
qed

lemma prefix_range_iff:
  fixes p k b :: string
  shows "p \<le> k \<and> k < p @ b \<longleftrightarrow> (\<exists>r. k = p @ r \<and> r < b)"
proof (induction p arbitrary: k)
  case (Cons a p)
  then show ?case by (cases k) auto
qed simp

lemma lossy_bound: "utf8_valid p \<Longrightarrow> from_utf8_lossy (p @ [CHR 0xFF]) = p @ REPLACEMENT"
  by (simp add: from_utf8_lossy_append from_utf8_lossy.simps [of "[CHR 0xFF]"] utf8_chunk_def)

section \<open>Properties\<close>

text \<open>
  What a count of keys counts. Without a prefix it is the number of keys of the session. With a
  prefix it is the number of keys of the session that continue the prefix by a rest whose bytes come
  before those of U+FFFD, the character that ends the range: keys that continue it by a character
  from U+FFFD on, such as every character of four bytes, are not counted, although they have
  the prefix. Before the first write of any key the answer is an error.
\<close>

lemma kv_count_spec:
  assumes "sid \<noteq> - 1" and "utf8_valid p"
  shows "kv_count sid None st =
      map_option (\<lambda>m. of_nat (length (filter (\<lambda>(k, _). fst k = sid) m))) (sto_kv st)
    \<and> kv_count sid (Some p) st =
      map_option (\<lambda>m. of_nat (length (filter (\<lambda>(k, _). fst k = sid \<and> (\<exists>r. snd k = p @ r \<and> r < REPLACEMENT)) m)))
        (sto_kv st)"
proof -
  have "(sid, p) \<le> k \<and> k < (sid, p @ REPLACEMENT) \<longleftrightarrow> fst k = sid \<and> (\<exists>r. snd k = p @ r \<and> r < REPLACEMENT)" for k
    unfolding prefix_range_iff [symmetric] by (cases k) auto
  then show ?thesis
    by (simp add: kv_count_def key_range_def lossy_bound [OF assms(2)] range_iffs(2) [OF assms(1)])
qed

lemma kv_count_spec_witness:
  "kv_count 1 (Some ''a'') (empty_store\<lparr>sto_kv :=
     Some [((1, ''ax''), []), ((1, [CHR 0x61, CHR 0xF0, CHR 0x9F, CHR 0x98, CHR 0x80]), [])]\<rparr>) = Some 1"
proof -
  let ?st = "empty_store\<lparr>sto_kv :=
     Some [((1, ''ax''), []), ((1, [CHR 0x61, CHR 0xF0, CHR 0x9F, CHR 0x98, CHR 0x80]), [])]\<rparr>"
  have "utf8_valid ''a''" by (simp add: utf8_valid.simps utf8_chunk_def)
  from kv_count_spec [OF _ this, of 1 ?st] show ?thesis
    by (simp add: REPLACEMENT_def less_char_def)
qed

end
