(* ===== verification/Keystore.thy ===== *)
theory Keystore
  imports Daemon_Theorems Accounts Session_Kv
begin

text \<open>
  The keystore side of the command loop (\<^verbatim>\<open>choreo-daemon/src/daemon.rs\<close>): unlocking, the
  trust-on-first-use binding, saving and removing encrypted credentials, the inference accounts, and
  the client ACL of \<^verbatim>\<open>choreo-daemon/src/server/acl.rs\<close>. The state \<open>vault\<close> extends the daemon state
  with the database, the decrypted credentials, the account manager and the two configuration files.

  Outside the sources, and so parameters (\<open>vault_lib\<close>): the X25519 derivation, the decryption, the
  postcard decoder, the construction of a provider, TOML and base64. What may go wrong in one command
  (a database error, a file that cannot be written) is its \<open>vault_io\<close>.
\<close>

section \<open>State\<close>

datatype service_credential =
    ApiKey string
  | XCredential string string string string "string option"
  | Substrate string string bytes bytes

datatype keystore_op_error = Unbound | OtherError string

definition unbound_text :: string where
  "unbound_text = ''keystore not initialized '' @ [CHR 0xE2, CHR 0x80, CHR 0x94]
     @ '' no key is bound to this daemon yet; it will be bound automatically on next client connect''"

datatype vault_reply =
    DoneReply
  | ResultReply "string + unit"
  | KeyReply "string option"
  | AccountReply "account_error option"
  | AccountsReply "account_info list"
  | CountReply "string + usize"

record vault =
  va_daemon :: daemon_state
  va_store :: store
  va_credentials :: "(string, service_credential) hmap"
  va_x_credentials :: "service_credential option"
  va_accounts :: account_manager
  va_accounts_file :: text_file
  va_acl :: "bytes list option"
  va_acl_file :: text_file
  va_replies :: "vault_reply list"

record vault_lib =
  vl_public :: "bytes \<Rightarrow> bytes"
  vl_decrypt :: "bytes \<Rightarrow> bytes \<Rightarrow> string + bytes"
  vl_decode :: "bytes \<Rightarrow> string + service_credential"
  vl_provider :: "account_config \<Rightarrow> string option \<Rightarrow> inference_provider option"
  vl_toml :: toml
  vl_base64_decode :: "string \<Rightarrow> string + bytes"
  vl_base64_encode :: "bytes \<Rightarrow> string"
  vl_acl_toml :: "string \<Rightarrow> string list option"

record vault_io =
  io_read_binding :: "string option"
  io_write_binding :: "string option"
  io_read_blobs :: "string option"
  io_write_blob :: "string option"
  io_remove_blob :: "string option"
  io_accounts_path :: "string + string"
  io_load_error :: string
  io_accounts_writable :: bool
  io_acl_append :: "(string \<times> text_file) option"

definition vault_daemon :: "(daemon_state \<Rightarrow> daemon_state) \<Rightarrow> vault \<Rightarrow> vault" where
  "vault_daemon f v = v\<lparr>va_daemon := f (va_daemon v)\<rparr>"

definition vault_reply_with :: "vault_reply \<Rightarrow> vault \<Rightarrow> vault" where
  "vault_reply_with r v = v\<lparr>va_replies := va_replies v @ [r]\<rparr>"

definition send_targeted :: "sink option \<Rightarrow> daemon_message \<Rightarrow> vault \<Rightarrow> vault" where
  "send_targeted writer msg v =
     (case writer of
        Some w \<Rightarrow> vault_daemon (\<lambda>s. s\<lparr>ds_net := fst (send_accounted w msg (ds_net s))\<rparr>) v
      | None \<Rightarrow> v)"

text \<open>The daemon state keeps of each account what sessions read: its provider slug.\<close>

definition set_accounts :: "account_manager \<Rightarrow> vault \<Rightarrow> vault" where
  "set_accounts m v =
     vault_daemon (\<lambda>s. s\<lparr>ds_accounts := map (\<lambda>(k, c). (k, acc_provider c)) (am_accounts m)\<rparr>)
       (v\<lparr>va_accounts := m\<rparr>)"

definition api_key_of :: "vault \<Rightarrow> string \<Rightarrow> string option" where
  "api_key_of v name =
     (case map_of (va_credentials v) name of Some (ApiKey key) \<Rightarrow> Some key | _ \<Rightarrow> None)"

definition resolve_account_provider :: "vault_lib \<Rightarrow> string \<Rightarrow> string option \<Rightarrow> vault \<Rightarrow> vault" where
  "resolve_account_provider lib name api_key v =
     (case map_of (am_accounts (va_accounts v)) name of
        None \<Rightarrow> v
      | Some cfg \<Rightarrow>
          (case vl_provider lib cfg api_key of
             None \<Rightarrow> v
           | Some p \<Rightarrow> vault_daemon (\<lambda>s. s\<lparr>ds_providers := AList.update name p (ds_providers s)\<rparr>) v))"

section \<open>Binding and unlocking\<close>

definition zeroized_key_or_wipe :: "bytes \<Rightarrow> keystore_op_error + bytes" where
  "zeroized_key_or_wipe key =
     (if length key = 32 then Inr key else Inl (OtherError ''invalid key: expected exactly 32 bytes''))"

definition read_binding :: "vault_io \<Rightarrow> vault \<Rightarrow> keystore_op_error + bytes option" where
  "read_binding io v =
     (case io_read_binding io of
        Some e \<Rightarrow> Inl (OtherError (''failed to read keystore binding: '' @ e))
      | None \<Rightarrow> Inr (get_keystore_binding (va_store v)))"

definition bind_keystore :: "vault_lib \<Rightarrow> vault_io \<Rightarrow> bytes \<Rightarrow> vault \<Rightarrow> vault \<times> keystore_op_error option" where
  "bind_keystore lib io key v =
     (case read_binding io v of
        Inl e \<Rightarrow> (v, Some e)
      | Inr None \<Rightarrow>
          (case io_write_binding io of
             Some e \<Rightarrow> (v, Some (OtherError (''failed to persist keystore binding: '' @ e)))
           | None \<Rightarrow> (v\<lparr>va_store := set_keystore_binding (vl_public lib key) (va_store v)\<rparr>, None))
      | Inr (Some stored) \<Rightarrow>
          if stored = vl_public lib key then (v, None)
          else (v, Some (OtherError
            ''keystore is already bound and the presented key does not match; refusing to overwrite the binding'')))"

definition verify_keystore_binding :: "vault_lib \<Rightarrow> vault_io \<Rightarrow> bytes \<Rightarrow> vault \<Rightarrow> keystore_op_error option" where
  "verify_keystore_binding lib io key v =
     (case read_binding io v of
        Inl e \<Rightarrow> Some e
      | Inr None \<Rightarrow> Some Unbound
      | Inr (Some stored) \<Rightarrow>
          if stored = vl_public lib key then None
          else Some (OtherError ''unlock key does not match the daemon's keystore binding''))"

definition open_credential :: "vault_lib \<Rightarrow> bytes \<Rightarrow> bytes \<Rightarrow> service_credential option" where
  "open_credential lib key blob =
     (case vl_decrypt lib key blob of
        Inl _ \<Rightarrow> None
      | Inr plaintext \<Rightarrow> (case vl_decode lib plaintext of Inl _ \<Rightarrow> None | Inr cred \<Rightarrow> Some cred))"

definition decrypt_all :: "vault_lib \<Rightarrow> bytes \<Rightarrow> (string, bytes) hmap \<Rightarrow> (string, service_credential) hmap" where
  "decrypt_all lib key blobs =
     fold (\<lambda>(service, blob) m.
         case open_credential lib key blob of Some cred \<Rightarrow> AList.update service cred m | None \<Rightarrow> m) blobs []"

fun is_x :: "service_credential \<Rightarrow> bool" where
  "is_x (XCredential _ _ _ _ _) = True"
| "is_x _ = False"

definition resolve_all :: "vault_lib \<Rightarrow> vault \<Rightarrow> vault" where
  "resolve_all lib v =
     fold (\<lambda>cfg u. resolve_account_provider lib (acc_name cfg) (api_key_of u (acc_name cfg)) u)
       (all_configs (va_accounts v)) (vault_daemon (\<lambda>s. s\<lparr>ds_providers := []\<rparr>) v)"

definition vault_add_account :: "vault_lib \<Rightarrow> vault_io \<Rightarrow> account_config \<Rightarrow> vault \<Rightarrow> vault \<times> account_error option" where
  "vault_add_account lib io cfg v =
     (case am_add (vl_toml lib) (io_accounts_writable io) cfg (va_accounts v, va_accounts_file v) of
        (m, file, r) \<Rightarrow> (set_accounts m (v\<lparr>va_accounts_file := file\<rparr>), r))"

definition unlock_tail :: "vault_lib \<Rightarrow> vault_io \<Rightarrow> bytes \<Rightarrow> vault \<Rightarrow> vault \<times> string option" where
  "unlock_tail lib io key v =
     (case io_read_blobs io of
        Some e \<Rightarrow> (v, Some (''failed to read credentials from database: '' @ e))
      | None \<Rightarrow>
          let credentials = decrypt_all lib key (get_all_credential_blobs (va_store v));
              v1 = (case map_of credentials ''twitter'' of
                      Some c \<Rightarrow> if is_x c then v\<lparr>va_x_credentials := Some c\<rparr> else v
                    | None \<Rightarrow> v);
              v2 = v1\<lparr>va_credentials := credentials\<rparr>
          in (case io_accounts_path io of
                Inl e \<Rightarrow> (v2, Some (''failed to get accounts config path: '' @ e))
              | Inr path \<Rightarrow>
                  (case am_load (vl_toml lib) path (va_accounts_file v2) of
                     None \<Rightarrow> (v2, Some (''failed to load accounts: '' @ io_load_error io))
                   | Some m \<Rightarrow>
                       let v3 = set_accounts m v2;
                           v4 = (if am_accounts m = [] \<and> map_of credentials ''openai'' \<noteq> None
                                 then fst (vault_add_account lib io (account_simple ''default'' ''openai'') v3)
                                 else v3)
                       in (vault_daemon (\<lambda>s. s\<lparr>ds_locked := False\<rparr>) (resolve_all lib v4), None))))"

definition tail_result :: "vault \<times> string option \<Rightarrow> vault \<times> keystore_op_error option" where
  "tail_result r = (fst r, map_option OtherError (snd r))"

definition handle_unlock_inner :: "vault_lib \<Rightarrow> vault_io \<Rightarrow> bytes \<Rightarrow> vault \<Rightarrow> vault \<times> keystore_op_error option" where
  "handle_unlock_inner lib io private_key v =
     (case zeroized_key_or_wipe private_key of
        Inl e \<Rightarrow> (v, Some e)
      | Inr key \<Rightarrow>
          (case verify_keystore_binding lib io key v of
             Some e \<Rightarrow> (v, Some e)
           | None \<Rightarrow> tail_result (unlock_tail lib io key v)))"

definition handle_bind_keystore_inner :: "vault_lib \<Rightarrow> vault_io \<Rightarrow> bytes \<Rightarrow> vault \<Rightarrow> vault \<times> keystore_op_error option" where
  "handle_bind_keystore_inner lib io key v =
     (case zeroized_key_or_wipe key of
        Inl e \<Rightarrow> (v, Some e)
      | Inr key \<Rightarrow>
          (case bind_keystore lib io key v of
             (v1, Some e) \<Rightarrow> (v1, Some e)
           | (v1, None) \<Rightarrow> tail_result (unlock_tail lib io key v1)))"

fun keystore_reply :: "daemon_message \<Rightarrow> keystore_op_error option \<Rightarrow> daemon_message" where
  "keystore_reply success None = success"
| "keystore_reply success (Some Unbound) = KeystoreUnbound unbound_text"
| "keystore_reply success (Some (OtherError e)) = LockedError e"

text \<open>Both handlers answer the acting client first and announce the lock state after that.\<close>

definition answer_then_announce ::
  "daemon_message \<Rightarrow> sink option \<Rightarrow> bool \<Rightarrow> vault \<times> keystore_op_error option \<Rightarrow> vault" where
  "answer_then_announce success client_writer was_locked r =
     (let v1 = vault_reply_with DoneReply (send_targeted client_writer (keystore_reply success (snd r)) (fst r))
      in if snd r = None \<and> was_locked then vault_daemon broadcast_lock_state v1 else v1)"

definition handle_unlock :: "vault_lib \<Rightarrow> vault_io \<Rightarrow> bytes \<Rightarrow> sink option \<Rightarrow> vault \<Rightarrow> vault" where
  "handle_unlock lib io private_key client_writer v =
     answer_then_announce Unlocked client_writer (ds_locked (va_daemon v)) (handle_unlock_inner lib io private_key v)"

definition handle_bind_keystore :: "vault_lib \<Rightarrow> vault_io \<Rightarrow> bytes \<Rightarrow> sink option \<Rightarrow> vault \<Rightarrow> vault" where
  "handle_bind_keystore lib io key client_writer v =
     answer_then_announce Bound client_writer (ds_locked (va_daemon v)) (handle_bind_keystore_inner lib io key v)"

definition vault_handle_lock :: "reply_chan \<Rightarrow> vault \<Rightarrow> vault" where
  "vault_handle_lock reply v =
     vault_daemon (handle_lock reply) (v\<lparr>va_credentials := [], va_x_credentials := None\<rparr>)"

section \<open>Credentials\<close>

text \<open>\<open>fail_save\<close> is the shared ending of the error paths: the targeted message, then the handoff.\<close>

definition fail_save :: "sink option \<Rightarrow> daemon_message \<Rightarrow> vault \<Rightarrow> vault" where
  "fail_save writer msg v = vault_reply_with DoneReply (send_targeted writer msg v)"

definition save_credential_tail ::
  "vault_lib \<Rightarrow> vault_io \<Rightarrow> string \<Rightarrow> service_credential \<Rightarrow> bytes \<Rightarrow> sink option \<Rightarrow> bool \<Rightarrow> vault \<Rightarrow> vault" where
  "save_credential_tail lib io service cred key writer was_locked v =
     (let v1 = (if is_x cred \<and> service = ''twitter'' then v\<lparr>va_x_credentials := Some cred\<rparr> else v);
          v2 = (case cred of ApiKey api_key \<Rightarrow> resolve_account_provider lib service (Some api_key) v1 | _ \<Rightarrow> v1)
      in (case unlock_tail lib io key v2 of
            (v3, Some e) \<Rightarrow>
              fail_save writer (CredentialAddFailed service (''credential saved but unlock failed: '' @ e)) v3
          | (v3, None) \<Rightarrow>
              let v4 = vault_reply_with DoneReply
                         (send_targeted writer (CredentialAdded service) (send_targeted writer Unlocked v3))
              in if was_locked \<and> \<not> ds_locked (va_daemon v4) then vault_daemon broadcast_lock_state v4 else v4))"

definition handle_save_credential ::
  "vault_lib \<Rightarrow> vault_io \<Rightarrow> string \<Rightarrow> bytes \<Rightarrow> bytes \<Rightarrow> sink option \<Rightarrow> vault \<Rightarrow> vault" where
  "handle_save_credential lib io service blob unlock_key writer v =
     (if length unlock_key \<noteq> 32
      then fail_save writer (CredentialAddFailed service ''invalid unlock_key: expected exactly 32 bytes'') v
      else case verify_keystore_binding lib io unlock_key v of
        Some Unbound \<Rightarrow> fail_save writer (KeystoreUnbound unbound_text) v
      | Some (OtherError e) \<Rightarrow> fail_save writer (CredentialAddFailed service e) v
      | None \<Rightarrow>
          (case vl_decrypt lib unlock_key blob of
             Inl e \<Rightarrow> fail_save writer (CredentialAddFailed service
                 (''credential blob failed to decrypt with the provided unlock key: '' @ e)) v
           | Inr plaintext \<Rightarrow>
               (case vl_decode lib plaintext of
                  Inl e \<Rightarrow> fail_save writer (CredentialAddFailed service
                      (''credential payload is not a valid ServiceCredential: '' @ e)) v
                | Inr cred \<Rightarrow>
                    (case io_write_blob io of
                       Some e \<Rightarrow> fail_save writer (CredentialAddFailed service (''failed to save credential: '' @ e)) v
                     | None \<Rightarrow>
                         save_credential_tail lib io service cred unlock_key writer (ds_locked (va_daemon v))
                           (v\<lparr>va_store := set_credential_blob service blob (va_store v)\<rparr>)))))"

definition handle_remove_credential :: "vault_io \<Rightarrow> string \<Rightarrow> vault \<Rightarrow> vault" where
  "handle_remove_credential io service v =
     (case io_remove_blob io of
        Some e \<Rightarrow> vault_reply_with (ResultReply (Inl (''failed to remove credential: '' @ e))) v
      | None \<Rightarrow>
          let v1 = v\<lparr>va_store := remove_credential_blob service (va_store v),
                     va_credentials := AList.delete service (va_credentials v)\<rparr>;
              v2 = vault_daemon (\<lambda>s. s\<lparr>ds_providers := AList.delete service (ds_providers s)\<rparr>) v1;
              v3 = (if service = ''twitter'' then v2\<lparr>va_x_credentials := None\<rparr> else v2)
          in vault_reply_with (ResultReply (Inr ())) v3)"

definition handle_get_credential :: "string \<Rightarrow> vault \<Rightarrow> vault" where
  "handle_get_credential service v = vault_reply_with (KeyReply (api_key_of v service)) v"

section \<open>Accounts\<close>

definition handle_add_account ::
  "vault_lib \<Rightarrow> vault_io \<Rightarrow> string \<Rightarrow> string \<Rightarrow> string option \<Rightarrow> bool option \<Rightarrow> u32 option
   \<Rightarrow> u64 option \<Rightarrow> u64 option \<Rightarrow> u64 option \<Rightarrow> vault \<Rightarrow> vault" where
  "handle_add_account lib io name prov base_url streaming retry_max_attempts
     connect_timeout_secs request_timeout_secs total_timeout_secs v =
     (let cfg = (account_simple name prov)\<lparr>acc_base_url := base_url, acc_streaming := streaming,
            acc_retry_max_attempts := retry_max_attempts, acc_connect_timeout_secs := connect_timeout_secs,
            acc_request_timeout_secs := request_timeout_secs, acc_total_timeout_secs := total_timeout_secs\<rparr>
      in case vault_add_account lib io cfg v of
           (v1, r) \<Rightarrow>
             let v2 = (case (r, map_of (va_credentials v1) name) of
                         (None, Some (ApiKey key)) \<Rightarrow> resolve_account_provider lib name (Some key) v1
                       | _ \<Rightarrow> v1)
             in vault_reply_with (AccountReply r) v2)"

definition handle_remove_account :: "vault_lib \<Rightarrow> vault_io \<Rightarrow> string \<Rightarrow> vault \<Rightarrow> vault" where
  "handle_remove_account lib io name v =
     (case am_remove (vl_toml lib) (io_accounts_writable io) name (va_accounts v, va_accounts_file v) of
        (m, file, r) \<Rightarrow>
          let v1 = set_accounts m (v\<lparr>va_accounts_file := file\<rparr>);
              v2 = (if r = None then vault_daemon (\<lambda>s. s\<lparr>ds_providers := AList.delete name (ds_providers s)\<rparr>) v1 else v1)
          in vault_reply_with (AccountReply r) v2)"

definition account_infos :: "vault_io \<Rightarrow> vault \<Rightarrow> account_info list" where
  "account_infos io v =
     am_list (set (keys (va_credentials v))
       \<union> (case io_read_blobs io of None \<Rightarrow> set (keys (get_all_credential_blobs (va_store v))) | Some _ \<Rightarrow> {}))
       (va_accounts v)"

definition handle_list_accounts :: "vault_io \<Rightarrow> vault \<Rightarrow> vault" where
  "handle_list_accounts io v = vault_reply_with (AccountsReply (account_infos io v)) v"

definition drop_provider :: "string \<Rightarrow> vault \<Rightarrow> vault" where
  "drop_provider name = vault_daemon (\<lambda>s. s\<lparr>ds_providers := AList.delete name (ds_providers s)\<rparr>)"

definition removed_accounts :: "account_manager \<Rightarrow> account_manager \<Rightarrow> string list" where
  "removed_accounts old fresh =
     map fst (filter (\<lambda>(name, _). map_of (am_accounts fresh) name = None) (am_accounts old))"

definition changed_accounts :: "account_manager \<Rightarrow> account_manager \<Rightarrow> string list" where
  "changed_accounts old fresh =
     map fst (filter (\<lambda>(name, old_cfg).
         case map_of (am_accounts fresh) name of Some new_cfg \<Rightarrow> new_cfg \<noteq> old_cfg | None \<Rightarrow> False) (am_accounts old))"

definition handle_accounts_reload :: "vault_lib \<Rightarrow> vault_io \<Rightarrow> vault \<Rightarrow> vault" where
  "handle_accounts_reload lib io v =
     (let path = am_path (va_accounts v)
      in if path = [] then v
         else case am_load (vl_toml lib) path (va_accounts_file v) of
           None \<Rightarrow> v
         | Some fresh \<Rightarrow>
             if all_configs fresh = all_configs (va_accounts v) then v
             else
               let old = va_accounts v;
                   v1 = fold drop_provider (removed_accounts old fresh) v;
                   v2 = set_accounts fresh v1;
                   v3 = fold (\<lambda>name u. resolve_account_provider lib name (api_key_of u name) (drop_provider name u))
                          (changed_accounts old fresh) v2
               in vault_daemon (handle_broadcast_activity None (Accounts (account_infos io v3))) v3)"

section \<open>The client ACL\<close>

definition acl_parse :: "vault_lib \<Rightarrow> string \<Rightarrow> bytes list option" where
  "acl_parse lib text =
     map_option (List.map_filter (\<lambda>pubkey.
         case vl_base64_decode lib pubkey of
           Inr b \<Rightarrow> if length b = 32 then Some b else None
         | Inl _ \<Rightarrow> None)) (vl_acl_toml lib text)"

definition acl_load :: "vault_lib \<Rightarrow> text_file \<Rightarrow> bytes list" where
  "acl_load lib file =
     (case file of
        MissingFile \<Rightarrow> []
      | UnreadableFile \<Rightarrow> []
      | TextFile text \<Rightarrow> (case acl_parse lib text of Some acl \<Rightarrow> acl | None \<Rightarrow> []))"

definition acl_reload :: "vault_lib \<Rightarrow> text_file \<Rightarrow> bytes list \<Rightarrow> bytes list" where
  "acl_reload lib file previous =
     (case file of
        TextFile text \<Rightarrow>
          (case acl_parse lib text of
             Some fresh \<Rightarrow> if previous = fresh then previous else fresh
           | None \<Rightarrow> previous)
      | _ \<Rightarrow> previous)"

definition acl_entry :: "vault_lib \<Rightarrow> bytes \<Rightarrow> string" where
  "acl_entry lib key =
     ''[[client]]'' @ [CHR 0x0A] @ ''pubkey = '' @ [CHR 0x22] @ vl_base64_encode lib key @ [CHR 0x22, CHR 0x0A]"

definition append_key_locked :: "vault_lib \<Rightarrow> vault_io \<Rightarrow> bytes \<Rightarrow> text_file \<Rightarrow> text_file \<times> string option" where
  "append_key_locked lib io key file =
     (case io_acl_append io of
        Some (e, file') \<Rightarrow> (file', Some e)
      | None \<Rightarrow>
          (case file of
             MissingFile \<Rightarrow> TextFile (acl_entry lib key)
           | UnreadableFile \<Rightarrow> UnreadableFile
           | TextFile text \<Rightarrow> TextFile (text @ acl_entry lib key), None))"

definition acl_add_inner :: "vault_lib \<Rightarrow> vault_io \<Rightarrow> string \<Rightarrow> vault \<Rightarrow> vault \<times> (string + usize)" where
  "acl_add_inner lib io pubkey v =
     (case va_acl v of
        None \<Rightarrow> (v, Inl ''no ACL is loaded (unit-test state)'')
      | Some acl \<Rightarrow>
          (case vl_base64_decode lib (trim pubkey) of
             Inl e \<Rightarrow> (v, Inl (''invalid pubkey: not valid base64: '' @ e))
           | Inr key \<Rightarrow>
               if length key \<noteq> 32 then (v, Inl ''invalid pubkey: must decode to exactly 32 bytes'')
               else if key \<in> set acl then (v, Inr (of_nat (length acl)))
               else (case append_key_locked lib io key (va_acl_file v) of
                       (file, Some e) \<Rightarrow> (v\<lparr>va_acl_file := file\<rparr>, Inl e)
                     | (file, None) \<Rightarrow>
                         let acl' = acl_reload lib file acl
                         in (v\<lparr>va_acl_file := file, va_acl := Some acl'\<rparr>, Inr (of_nat (length acl'))))))"

definition handle_acl_add :: "vault_lib \<Rightarrow> vault_io \<Rightarrow> string \<Rightarrow> vault \<Rightarrow> vault" where
  "handle_acl_add lib io pubkey v =
     (case acl_add_inner lib io pubkey v of
        (v1, r) \<Rightarrow>
          vault_reply_with (CountReply r)
            (case r of
               Inr clients \<Rightarrow> vault_daemon (handle_broadcast_activity None (AclUpdated clients)) v1
             | Inl _ \<Rightarrow> v1))"

definition handle_acl_reload :: "vault_lib \<Rightarrow> vault \<Rightarrow> vault" where
  "handle_acl_reload lib v =
     (case va_acl v of
        Some acl \<Rightarrow> v\<lparr>va_acl := Some (acl_reload lib (va_acl_file v) acl)\<rparr>
      | None \<Rightarrow> v)"

section \<open>The commands\<close>

text \<open>
  \<open>V_Other\<close> is a command of the rest of the loop; the last two commands are edits of the configuration
  files by somebody else.
\<close>

datatype vault_command =
    V_Unlock bytes "sink option"
  | V_BindKeystore bytes "sink option"
  | V_SaveCredential string bytes bytes "sink option"
  | V_RemoveCredential string
  | V_GetCredential string
  | V_AddAccount string string "string option" "bool option" "u32 option" "u64 option" "u64 option" "u64 option"
  | V_RemoveAccount string
  | V_ListAccounts
  | V_AccountsReload
  | V_AclAdd string
  | V_AclReload
  | V_Other daemon_ctx daemon_command
  | V_AccountsEdited text_file
  | V_AclEdited text_file

fun vault_step :: "vault_lib \<Rightarrow> vault_io \<Rightarrow> vault_command \<Rightarrow> vault \<Rightarrow> vault" where
  "vault_step lib io (V_Unlock key w) v = handle_unlock lib io key w v"
| "vault_step lib io (V_BindKeystore key w) v = handle_bind_keystore lib io key w v"
| "vault_step lib io (V_SaveCredential service blob key w) v = handle_save_credential lib io service blob key w v"
| "vault_step lib io (V_RemoveCredential service) v = handle_remove_credential io service v"
| "vault_step lib io (V_GetCredential service) v = handle_get_credential service v"
| "vault_step lib io (V_AddAccount name prov url streaming attempts connect_s request_s total_s) v =
     handle_add_account lib io name prov url streaming attempts connect_s request_s total_s v"
| "vault_step lib io (V_RemoveAccount name) v = handle_remove_account lib io name v"
| "vault_step lib io V_ListAccounts v = handle_list_accounts io v"
| "vault_step lib io V_AccountsReload v = handle_accounts_reload lib io v"
| "vault_step lib io (V_AclAdd pubkey) v = handle_acl_add lib io pubkey v"
| "vault_step lib io V_AclReload v = handle_acl_reload lib v"
| "vault_step lib io (V_Other ctx (D_Lock reply)) v = vault_handle_lock reply v"
| "vault_step lib io (V_Other ctx cmd) v = vault_daemon (handle_command ctx cmd) v"
| "vault_step lib io (V_AccountsEdited file) v = v\<lparr>va_accounts_file := file\<rparr>"
| "vault_step lib io (V_AclEdited file) v = v\<lparr>va_acl_file := file\<rparr>"

definition vault_run :: "vault_lib \<Rightarrow> (vault_io \<times> vault_command) list \<Rightarrow> vault \<Rightarrow> vault" where
  "vault_run lib = fold (\<lambda>(io, cmd). vault_step lib io cmd)"

end
