(* ===== verification/Keystore_Theorems.thy ===== *)
theory Keystore_Theorems
  imports Keystore
begin

text \<open>
  What the keystore promises: the rest of the command loop never touches the lock, the accounts or
  the providers; the binding is permanent; nothing but a key that matches it unlocks the daemon; every
  stored blob opens under it; what was saved is there again after a lock and an unlock; and the acting
  client hears its own answer before everybody hears of the new lock state.
\<close>

section \<open>The rest of the loop leaves the keystore alone\<close>

definition key_core :: "daemon_state \<Rightarrow> bool \<times> (string, inference_provider) hmap \<times> (string, string) hmap" where
  "key_core s = (ds_locked s, ds_providers s, ds_accounts s)"

named_theorems key_frame \<open>operations that keep the key core\<close>

lemma evicts_key_core: "evicts E s s' \<Longrightarrow> key_core s' = key_core s"
  by (auto simp: evicts_def key_core_def)

lemma finish_evictions_key_core [key_frame]: "key_core (finish_evictions ev lg s) = key_core s"
  using finish_evictions_evicts evicts_key_core by metis

lemma fan_out_key_core [key_frame]:
  "key_core (fan_out_activity m skip s) = key_core s"
  "key_core (fan_out_summary m skip s) = key_core s"
  by (simp_all add: fan_out_activity_def fan_out_summary_def case_prod_unfold key_frame)
     (simp_all add: key_core_def)

lemma broadcast_key_core [key_frame]:
  "key_core (daemon_broadcast m s) = key_core s"
  "key_core (handle_broadcast_activity origin m s) = key_core s"
  "key_core (broadcast_lock_state s) = key_core s"
  by (simp_all add: daemon_broadcast_def Let_def handle_broadcast_activity_def broadcast_lock_state_def key_frame)

lemma fold_key_core: "(\<And>x s. key_core (f x s) = key_core s) \<Longrightarrow> key_core (fold f xs s) = key_core s"
  by (induction xs arbitrary: s) simp_all

lemma small_key_core [key_frame]:
  "key_core (send_session sid cmd s) = key_core s"
  "key_core (reply_to ch r s) = key_core s"
  "key_core (remove_child_from_all_parents c s) = key_core s"
  "key_core (add_child p c s) = key_core s"
  "key_core (maybe_spawn_model_prefetch ctx a s) = key_core s"
  "key_core (fst (spawn_session sid rec md s)) = key_core s"
  by (simp_all add: send_session_def reply_to_def remove_child_from_all_parents_def add_child_def
      maybe_spawn_model_prefetch_def spawn_session_def Let_def key_core_def split: option.splits)

lemma plain_key_core [key_frame]:
  "key_core (s\<lparr>ds_db := d\<rparr>) = key_core s"
  "key_core (s\<lparr>ds_session_metadata := md\<rparr>) = key_core s"
  "key_core (s\<lparr>ds_next_session_id := i\<rparr>) = key_core s"
  "key_core (s\<lparr>ds_active_sessions := act\<rparr>) = key_core s"
  "key_core (s\<lparr>ds_deleted_sessions := D\<rparr>) = key_core s"
  "key_core (s\<lparr>ds_children := ch\<rparr>) = key_core s"
  "key_core (s\<lparr>ds_sent := snt\<rparr>) = key_core s"
  "key_core (s\<lparr>ds_finalizers := fz\<rparr>) = key_core s"
  "key_core (s\<lparr>ds_answers := an\<rparr>) = key_core s"
  "key_core (s\<lparr>ds_net := n\<rparr>) = key_core s"
  "key_core (s\<lparr>ds_client_subscribed_sessions := cs\<rparr>) = key_core s"
  "key_core (s\<lparr>ds_summary_subscribers := ss\<rparr>) = key_core s"
  "key_core (s\<lparr>ds_activity_subscribers := sa\<rparr>) = key_core s"
  "key_core (s\<lparr>ds_client_writers := sw\<rparr>) = key_core s"
  "key_core (s\<lparr>ds_model_prefetch_in_flight := mp\<rparr>) = key_core s"
  "key_core (s\<lparr>ds_model_cache := mc\<rparr>) = key_core s"
  by (simp_all add: key_core_def)

lemma session_key_core [key_frame]:
  "key_core (warm_models ctx account s) = key_core s"
  "key_core (cancel_and_shutdown_child c s) = key_core s"
  "key_core (sleep_session sid s) = key_core s"
  "key_core (announce_deleted sid s) = key_core s"
  "key_core (fst (delete_finished_session sid s)) = key_core s"
  "key_core (fst (handle_list_models_inner ctx origin s)) = key_core s"
  "key_core (remove_client_from_sessions c s) = key_core s"
  "key_core (handle_evict_client c s) = key_core s"
  by (simp_all add: warm_models_def cancel_and_shutdown_child_def sleep_session_def announce_deleted_def
      delete_finished_session_def handle_list_models_inner_def remove_client_from_sessions_def
      handle_evict_client_def Let_def key_frame fold_key_core case_prod_unfold split: option.splits prod.splits bool.splits)

lemma delete_inner_key_core [key_frame]: "key_core (fst (delete_session_inner ctx sid s)) = key_core s"
  by (simp add: delete_session_inner_def Let_def key_frame split: option.splits prod.splits bool.splits)

text \<open>Only locking and the keystore's own handlers change the lock, the accounts and the providers.\<close>

lemma command_key_core:
  assumes "\<forall>reply. cmd \<noteq> D_Lock reply"
  shows "key_core (handle_command ctx cmd s) = key_core s"
  using assms
  by (cases cmd)
    (simp_all add: handle_create_session_def handle_attach_session_def handle_list_sessions_def handle_get_session_def
      handle_update_metadata_def handle_session_exited_def handle_session_delete_finalized_def
      handle_register_summary_subscriber_def handle_unregister_summary_subscriber_def
      handle_register_activity_subscriber_def handle_unregister_activity_subscriber_def
      handle_track_session_subscription_def handle_untrack_session_subscription_def handle_client_disconnected_def
      handle_register_client_writer_def handle_evict_largest_lagging_def handle_broadcast_shutting_down_def
      handle_broadcast_session_status_def handle_delete_session_def handle_cancel_request_def cancel_children_of_def
      handle_set_session_title_def daemon_handle_set_working_dir_def daemon_handle_load_tools_def
      daemon_handle_unload_tools_def forward_or_refuse_def handle_list_models_def handle_model_prefetch_result_def
      Let_def case_prod_unfold key_frame fold_key_core split: option.splits sum.splits)


section \<open>What each operation leaves alone\<close>

abbreviation binding :: "vault \<Rightarrow> bytes option" where
  "binding v \<equiv> get_keystore_binding (va_store v)"

abbreviation vault_locked :: "vault \<Rightarrow> bool" where
  "vault_locked v \<equiv> ds_locked (va_daemon v)"

text \<open>The queues and the three maps of sinks.\<close>

definition comm_core :: "daemon_state \<Rightarrow> net \<times> (u64, sink) hmap \<times> (u64, sink) hmap \<times> (u64, sink) hmap" where
  "comm_core s = (ds_net s, ds_summary_subscribers s, ds_activity_subscribers s, ds_client_writers s)"

lemma comm_core_simps [simp]:
  "comm_core (s\<lparr>ds_providers := ps\<rparr>) = comm_core s"
  "comm_core (s\<lparr>ds_accounts := as\<rparr>) = comm_core s"
  "comm_core (s\<lparr>ds_locked := l\<rparr>) = comm_core s"
  by (simp_all add: comm_core_def)

abbreviation stored_blob :: "vault \<Rightarrow> string \<Rightarrow> bytes option" where
  "stored_blob v \<equiv> map_of (rows (sto_credentials (va_store v)))"

lemma vault_daemon_simps [simp]:
  "va_daemon (vault_daemon f v) = f (va_daemon v)"
  "va_store (vault_daemon f v) = va_store v"
  "va_credentials (vault_daemon f v) = va_credentials v"
  "va_x_credentials (vault_daemon f v) = va_x_credentials v"
  "va_accounts (vault_daemon f v) = va_accounts v"
  "va_accounts_file (vault_daemon f v) = va_accounts_file v"
  "va_acl (vault_daemon f v) = va_acl v"
  "va_acl_file (vault_daemon f v) = va_acl_file v"
  by (simp_all add: vault_daemon_def)

lemma vault_reply_simps [simp]:
  "va_daemon (vault_reply_with r v) = va_daemon v"
  "va_store (vault_reply_with r v) = va_store v"
  "va_credentials (vault_reply_with r v) = va_credentials v"
  "va_accounts (vault_reply_with r v) = va_accounts v"
  "va_accounts_file (vault_reply_with r v) = va_accounts_file v"
  by (simp_all add: vault_reply_with_def)

lemma send_targeted_simps [simp]:
  "va_store (send_targeted w m v) = va_store v"
  "va_credentials (send_targeted w m v) = va_credentials v"
  "va_accounts (send_targeted w m v) = va_accounts v"
  "vault_locked (send_targeted w m v) = vault_locked v"
  by (simp_all add: send_targeted_def split: option.splits)

lemma set_accounts_simps [simp]:
  "va_store (set_accounts m v) = va_store v"
  "va_credentials (set_accounts m v) = va_credentials v"
  "va_accounts (set_accounts m v) = m"
  "va_accounts_file (set_accounts m v) = va_accounts_file v"
  "vault_locked (set_accounts m v) = vault_locked v"
  "ds_providers (va_daemon (set_accounts m v)) = ds_providers (va_daemon v)"
  "comm_core (va_daemon (set_accounts m v)) = comm_core (va_daemon v)"
  by (simp_all add: set_accounts_def)

lemma resolve_simps [simp]:
  "va_store (resolve_account_provider lib name k v) = va_store v"
  "va_credentials (resolve_account_provider lib name k v) = va_credentials v"
  "va_accounts (resolve_account_provider lib name k v) = va_accounts v"
  "va_accounts_file (resolve_account_provider lib name k v) = va_accounts_file v"
  "vault_locked (resolve_account_provider lib name k v) = vault_locked v"
  "comm_core (va_daemon (resolve_account_provider lib name k v)) = comm_core (va_daemon v)"
  by (simp_all add: resolve_account_provider_def split: option.splits)

lemma drop_provider_simps [simp]:
  "va_store (drop_provider name v) = va_store v"
  "va_credentials (drop_provider name v) = va_credentials v"
  "va_accounts (drop_provider name v) = va_accounts v"
  "vault_locked (drop_provider name v) = vault_locked v"
  by (simp_all add: drop_provider_def)

text \<open>A fold of operations that keep a part of the state keeps it.\<close>

lemma fold_keeps: "(\<And>x u. f (g x u) = f u) \<Longrightarrow> f (fold g xs v) = f v"
  by (induction xs arbitrary: v) simp_all

lemma resolve_all_simps [simp]:
  "va_store (resolve_all lib v) = va_store v"
  "va_credentials (resolve_all lib v) = va_credentials v"
  "va_accounts (resolve_all lib v) = va_accounts v"
  "va_accounts_file (resolve_all lib v) = va_accounts_file v"
  "comm_core (va_daemon (resolve_all lib v)) = comm_core (va_daemon v)"
  by (simp_all add: resolve_all_def fold_keeps [where f = va_store] fold_keeps [where f = va_credentials]
      fold_keeps [where f = va_accounts] fold_keeps [where f = va_accounts_file]
      fold_keeps [where f = "\<lambda>u. comm_core (va_daemon u)"])

lemma add_account_simps [simp]:
  "va_store (fst (vault_add_account lib io cfg v)) = va_store v"
  "va_credentials (fst (vault_add_account lib io cfg v)) = va_credentials v"
  "vault_locked (fst (vault_add_account lib io cfg v)) = vault_locked v"
  "comm_core (va_daemon (fst (vault_add_account lib io cfg v))) = comm_core (va_daemon v)"
  by (simp_all add: vault_add_account_def split: prod.splits)

lemma unlock_tail_store [simp]: "va_store (fst (unlock_tail lib io key v)) = va_store v"
  by (simp add: unlock_tail_def Let_def split: option.splits sum.splits)

lemma unlock_tail_comm [simp]: "comm_core (va_daemon (fst (unlock_tail lib io key v))) = comm_core (va_daemon v)"
  by (simp add: unlock_tail_def Let_def split: option.splits sum.splits)

lemma unlock_tail_locked:
  "vault_locked (fst (unlock_tail lib io key v)) = (if snd (unlock_tail lib io key v) = None then False else vault_locked v)"
  by (simp add: unlock_tail_def Let_def split: option.splits sum.splits)

text \<open>The tail fails only when the blobs cannot be read or the accounts file cannot be loaded.\<close>

lemma unlock_tail_ok:
  "snd (unlock_tail lib io key v) = None \<longleftrightarrow> io_read_blobs io = None
     \<and> (\<exists>path. io_accounts_path io = Inr path \<and> am_load (vl_toml lib) path (va_accounts_file v) \<noteq> None)"
  by (auto simp: unlock_tail_def Let_def split: option.splits sum.splits if_splits)

lemma unlock_tail_credentials:
  "snd (unlock_tail lib io key v) = None \<Longrightarrow>
   va_credentials (fst (unlock_tail lib io key v)) = decrypt_all lib key (get_all_credential_blobs (va_store v))"
  by (simp add: unlock_tail_def Let_def split: option.splits sum.splits)

lemma tail_result_simps [simp]: "fst (tail_result r) = fst r" "snd (tail_result r) = None \<longleftrightarrow> snd r = None"
  by (simp_all add: tail_result_def)

text \<open>Lookup in the decrypted map: exactly the blobs that open.\<close>

lemma decrypt_all_lookup:
  assumes "hm_wf blobs"
  shows "map_of (decrypt_all lib key blobs) service = Option.bind (map_of blobs service) (open_credential lib key)"
proof -
  have "map_of (fold (\<lambda>(service, blob) m.
         case open_credential lib key blob of Some cred \<Rightarrow> AList.update service cred m | None \<Rightarrow> m) blobs acc) service
      = (case Option.bind (map_of blobs service) (open_credential lib key) of
           Some c \<Rightarrow> Some c | None \<Rightarrow> map_of acc service)" for acc
    using assms
  proof (induction blobs arbitrary: acc)
    case (Cons p blobs)
    obtain k b where p: "p = (k, b)" by force
    have "hm_wf blobs" "map_of blobs k = None" using Cons.prems p by (auto simp: hm_wf_def map_of_eq_None_iff)
    then show ?case using Cons.IH by (auto simp: p update_conv' split: option.splits)
  qed simp
  from this [of "[]"] show ?thesis by (simp add: decrypt_all_def split: option.splits)
qed

section \<open>What each command does to the database and the lock\<close>

definition binds :: "vault_io \<Rightarrow> bytes \<Rightarrow> vault \<Rightarrow> bool" where
  "binds io key v \<longleftrightarrow> length key = 32 \<and> io_read_binding io = None \<and> binding v = None \<and> io_write_binding io = None"

definition matches :: "vault_lib \<Rightarrow> vault_io \<Rightarrow> bytes \<Rightarrow> vault \<Rightarrow> bool" where
  "matches lib io key v \<longleftrightarrow> length key = 32 \<and> io_read_binding io = None \<and> binding v = Some (vl_public lib key)"

definition saves :: "vault_lib \<Rightarrow> vault_io \<Rightarrow> bytes \<Rightarrow> bytes \<Rightarrow> vault \<Rightarrow> bool" where
  "saves lib io blob key v \<longleftrightarrow>
     matches lib io key v \<and> open_credential lib key blob \<noteq> None \<and> io_write_blob io = None"

lemma verify_matches:
  "length key = 32 \<Longrightarrow> verify_keystore_binding lib io key v = None \<longleftrightarrow> matches lib io key v"
  by (auto simp: verify_keystore_binding_def read_binding_def matches_def split: option.splits if_splits)

lemma bind_keystore_cases:
  assumes "length key = 32"
  shows "snd (bind_keystore lib io key v) = None \<longleftrightarrow> binds io key v \<or> matches lib io key v"
    and "fst (bind_keystore lib io key v) =
      (if binds io key v then v\<lparr>va_store := set_keystore_binding (vl_public lib key) (va_store v)\<rparr> else v)"
  using assms
  by (auto simp: bind_keystore_def read_binding_def matches_def binds_def split: option.splits sum.splits if_splits)

text \<open>The inner functions: what state they leave and when they succeed.\<close>

lemma unlock_inner_cases:
  "fst (handle_unlock_inner lib io key v) = (if matches lib io key v then fst (unlock_tail lib io key v) else v)"
  "snd (handle_unlock_inner lib io key v) = None \<longleftrightarrow> matches lib io key v \<and> snd (unlock_tail lib io key v) = None"
proof -
  have "\<not> matches lib io key v" if "length key \<noteq> 32" using that by (simp add: matches_def)
  then show "fst (handle_unlock_inner lib io key v) = (if matches lib io key v then fst (unlock_tail lib io key v) else v)"
    and "snd (handle_unlock_inner lib io key v) = None \<longleftrightarrow> matches lib io key v \<and> snd (unlock_tail lib io key v) = None"
    using verify_matches [of key lib io v]
    by (cases "length key = 32"; auto simp: handle_unlock_inner_def zeroized_key_or_wipe_def split: option.splits)+
qed

definition bound_with :: "vault_lib \<Rightarrow> vault_io \<Rightarrow> bytes \<Rightarrow> vault \<Rightarrow> vault" where
  "bound_with lib io key v =
     (if binds io key v then v\<lparr>va_store := set_keystore_binding (vl_public lib key) (va_store v)\<rparr> else v)"

lemma bind_inner_cases:
  "fst (handle_bind_keystore_inner lib io key v) =
     (if binds io key v \<or> matches lib io key v then fst (unlock_tail lib io key (bound_with lib io key v)) else v)"
  "snd (handle_bind_keystore_inner lib io key v) = None \<longleftrightarrow>
     (binds io key v \<or> matches lib io key v) \<and> snd (unlock_tail lib io key (bound_with lib io key v)) = None"
proof -
  have "\<not> matches lib io key v \<and> \<not> binds io key v" if "length key \<noteq> 32" using that by (simp add: matches_def binds_def)
  then show "fst (handle_bind_keystore_inner lib io key v) =
     (if binds io key v \<or> matches lib io key v then fst (unlock_tail lib io key (bound_with lib io key v)) else v)"
    and "snd (handle_bind_keystore_inner lib io key v) = None \<longleftrightarrow>
     (binds io key v \<or> matches lib io key v) \<and> snd (unlock_tail lib io key (bound_with lib io key v)) = None"
    using bind_keystore_cases [of key lib io v]
    by (cases "length key = 32"; auto simp: handle_bind_keystore_inner_def zeroized_key_or_wipe_def bound_with_def
        split: option.splits prod.splits)+
qed

lemma answer_simps [simp]:
  "va_store (answer_then_announce m w l r) = va_store (fst r)"
  "va_credentials (answer_then_announce m w l r) = va_credentials (fst r)"
  "va_accounts (answer_then_announce m w l r) = va_accounts (fst r)"
  "vault_locked (answer_then_announce m w l r) = vault_locked (fst r)"
  using broadcast_key_core(3) by (simp_all add: answer_then_announce_def Let_def key_core_def)

lemma fail_save_simps [simp]:
  "va_store (fail_save w m v) = va_store v"
  "va_credentials (fail_save w m v) = va_credentials v"
  "va_accounts (fail_save w m v) = va_accounts v"
  "vault_locked (fail_save w m v) = vault_locked v"
  by (simp_all add: fail_save_def)

lemma save_tail_store [simp]: "va_store (save_credential_tail lib io service cred key w l v) = va_store v"
proof -
  have tail: "va_store (fst r) = va_store u" if "r = unlock_tail lib io key u" for r u using that by simp
  show ?thesis
    by (auto simp: save_credential_tail_def Let_def split: prod.splits option.splits dest!: tail [OF sym]
        split: service_credential.splits)
qed

text \<open>What a save answers: the two messages of success, or one error message.\<close>

definition save_answer :: "string \<Rightarrow> daemon_message list \<Rightarrow> bool" where
  "save_answer service ms \<longleftrightarrow> ms = [Unlocked, CredentialAdded service]
     \<or> (\<exists>e. ms = [CredentialAddFailed service e]) \<or> ms = [KeystoreUnbound unbound_text]"

lemma save_cases:
  "saves lib io blob key v \<Longrightarrow> handle_save_credential lib io service blob key w v =
     save_credential_tail lib io service (the (open_credential lib key blob)) key w (vault_locked v)
       (v\<lparr>va_store := set_credential_blob service blob (va_store v)\<rparr>)"
  "\<not> saves lib io blob key v \<Longrightarrow>
   \<exists>m. save_answer service [m] \<and> handle_save_credential lib io service blob key w v = fail_save w m v"
proof -
  have "\<not> matches lib io key v" if "length key \<noteq> 32" using that by (simp add: matches_def)
  then show "saves lib io blob key v \<Longrightarrow> handle_save_credential lib io service blob key w v =
     save_credential_tail lib io service (the (open_credential lib key blob)) key w (vault_locked v)
       (v\<lparr>va_store := set_credential_blob service blob (va_store v)\<rparr>)"
    and "\<not> saves lib io blob key v \<Longrightarrow>
      \<exists>m. save_answer service [m] \<and> handle_save_credential lib io service blob key w v = fail_save w m v"
    using verify_matches [of key lib io v]
    by (cases "length key = 32";
        auto simp: handle_save_credential_def saves_def open_credential_def save_answer_def
          split: option.splits sum.splits keystore_op_error.splits)+
qed

text \<open>The database after a command.\<close>

lemma step_store:
  "va_store (vault_step lib io cmd v) =
     (case cmd of
        V_BindKeystore key _ \<Rightarrow>
          if binds io key v then set_keystore_binding (vl_public lib key) (va_store v) else va_store v
      | V_SaveCredential service blob key _ \<Rightarrow>
          if saves lib io blob key v then set_credential_blob service blob (va_store v) else va_store v
      | V_RemoveCredential service \<Rightarrow>
          if io_remove_blob io = None then remove_credential_blob service (va_store v) else va_store v
      | _ \<Rightarrow> va_store v)"
proof (cases cmd)
  case (V_Unlock key w)
  then show ?thesis by (simp add: handle_unlock_def unlock_inner_cases)
next
  case (V_BindKeystore key w)
  then show ?thesis by (simp add: handle_bind_keystore_def bind_inner_cases bound_with_def)
next
  case (V_SaveCredential service blob key w)
  then show ?thesis
    using save_cases [where lib = lib and io = io and service = service and blob = blob and key = key and w = w and v = v]
    by (cases "saves lib io blob key v") auto
next
  case (V_Other ctx c)
  then show ?thesis by (cases c) (simp_all add: vault_handle_lock_def)
next
  case V_AddAccount
  then show ?thesis
    by (simp add: handle_add_account_def Let_def case_prod_unfold split: option.splits service_credential.splits)
qed (simp_all add: handle_remove_credential_def handle_get_credential_def handle_remove_account_def
      handle_list_accounts_def handle_accounts_reload_def handle_acl_add_def acl_add_inner_def handle_acl_reload_def
      Let_def fold_keeps [where f = va_store] split: option.splits prod.splits sum.splits)


text \<open>The lock after a command: it opens only for a key that matches the binding.\<close>

fun presented_key :: "vault_command \<Rightarrow> bytes option" where
  "presented_key (V_Unlock key _) = Some key"
| "presented_key (V_BindKeystore key _) = Some key"
| "presented_key (V_SaveCredential _ _ key _) = Some key"
| "presented_key _ = None"

lemma add_account_locked: "vault_locked (handle_add_account lib io name prov url streaming attempts cs rs ts v) = vault_locked v"
  by (simp add: handle_add_account_def Let_def case_prod_unfold split: option.splits service_credential.splits)

lemma acl_add_locked: "vault_locked (handle_acl_add lib io pubkey v) = vault_locked v"
proof -
  have "vault_locked (fst (acl_add_inner lib io pubkey v)) = vault_locked v"
    by (simp add: acl_add_inner_def Let_def split: option.splits sum.splits prod.splits)
  then show ?thesis
    using broadcast_key_core(2) by (simp add: handle_acl_add_def key_core_def case_prod_unfold split: sum.splits)
qed

lemma reload_locked: "vault_locked (handle_accounts_reload lib io v) = vault_locked v"
  using broadcast_key_core(2)
  by (simp add: handle_accounts_reload_def Let_def key_core_def fold_keeps [where f = vault_locked] split: option.splits)

lemma step_locked:
  assumes "vault_locked v" and "\<not> vault_locked (vault_step lib io cmd v)"
  obtains key where "presented_key cmd = Some key" and "length key = 32"
    and "binding v = Some (vl_public lib key) \<or> binding v = None \<and> (\<exists>w. cmd = V_BindKeystore key w)
      \<and> va_store (vault_step lib io cmd v) = set_keystore_binding (vl_public lib key) (va_store v)"
  using assms
proof (cases cmd)
  case (V_Unlock key w)
  then have "matches lib io key v" using assms by (auto simp: handle_unlock_def unlock_inner_cases split: if_splits)
  then show thesis using that [of key] V_Unlock by (simp add: matches_def)
next
  case (V_BindKeystore key w)
  then have "binds io key v \<or> matches lib io key v"
    using assms by (auto simp: handle_bind_keystore_def bind_inner_cases split: if_splits)
  then show thesis using that [of key] V_BindKeystore step_store [of lib io cmd v] by (auto simp: matches_def binds_def)
next
  case (V_SaveCredential service blob key w)
  have "saves lib io blob key v"
  proof (rule ccontr)
    assume "\<not> saves lib io blob key v"
    from save_cases(2) [OF this] obtain m where "handle_save_credential lib io service blob key w v = fail_save w m v"
      by blast
    then show False using assms V_SaveCredential by simp
  qed
  then show thesis using that [of key] V_SaveCredential by (auto simp: saves_def matches_def)
next
  case (V_Other ctx c)
  have "vault_locked (vault_daemon (handle_lock reply) u)" for reply u
    using broadcast_key_core(3) by (simp add: handle_lock_def Let_def reply_to_def key_core_def)
  then show thesis
    using assms V_Other command_key_core [of c ctx "va_daemon v"] by (cases c) (auto simp: vault_handle_lock_def key_core_def)
qed (simp_all add: handle_remove_credential_def handle_get_credential_def handle_remove_account_def
      handle_list_accounts_def add_account_locked acl_add_locked reload_locked handle_acl_reload_def
      Let_def split: option.splits prod.splits if_splits)

section \<open>Runs\<close>

lemma vault_run_simps [simp]:
  "vault_run lib [] v = v"
  "vault_run lib ((io, cmd) # es) v = vault_run lib es (vault_step lib io cmd v)"
  by (simp_all add: vault_run_def)

lemma vault_run_append [simp]: "vault_run lib (es @ es') v = vault_run lib es' (vault_run lib es v)"
  by (simp add: vault_run_def)

text \<open>What every step keeps, every run keeps.\<close>

lemma vault_run_invariant:
  assumes "\<And>io cmd u. P u \<Longrightarrow> Q cmd \<Longrightarrow> P (vault_step lib io cmd u)"
  shows "P v \<Longrightarrow> list_all (\<lambda>(_, cmd). Q cmd) es \<Longrightarrow> P (vault_run lib es v)"
  by (induction es arbitrary: v) (auto simp: assms)

lemma binding_credentials [simp]:
  "get_keystore_binding (set_credential_blob service blob st) = get_keystore_binding st"
  "get_keystore_binding (remove_credential_blob service st) = get_keystore_binding st"
  by (simp_all add: get_keystore_binding_def set_credential_blob_def remove_credential_blob_def)

lemma blobs_binding [simp]: "sto_credentials (set_keystore_binding pk st) = sto_credentials st"
  by (simp add: set_keystore_binding_def)

lemma step_binding: "binding v = Some pk \<Longrightarrow> binding (vault_step lib io cmd v) = Some pk"
  by (simp add: step_store binds_def split: vault_command.splits)

lemma run_binding: "binding v = Some pk \<Longrightarrow> binding (vault_run lib es v) = Some pk"
  using vault_run_invariant [where P = "\<lambda>u. binding u = Some pk" and Q = "\<lambda>_. True" and es = es]
  by (simp add: step_binding list_all_iff)

lemma unbound_step:
  assumes "\<And>key. length (vl_public lib key) = 32"
  shows "binding v = None \<Longrightarrow> binding (vault_step lib io cmd v) = Some pk \<Longrightarrow>
   \<exists>key w. cmd = V_BindKeystore key w \<and> length key = 32 \<and> vl_public lib key = pk"
  using assms by (auto simp: step_store binds_def keystore_binding_roundtrip split: vault_command.splits if_splits)

lemma step_unlocks:
  assumes "\<And>key. length (vl_public lib key) = 32"
    and "vault_locked v" and "\<not> vault_locked (vault_step lib io cmd v)"
  shows "\<exists>key. presented_key cmd = Some key \<and> length key = 32
    \<and> binding (vault_step lib io cmd v) = Some (vl_public lib key)"
  using step_locked [OF assms(2,3)] step_binding [of v _ lib io cmd] keystore_binding_roundtrip [OF assms(1)] by metis

lemma run_bound_by:
  assumes "\<And>key. length (vl_public lib key) = 32"
  shows "binding v = None \<Longrightarrow> binding (vault_run lib es v) = Some pk \<Longrightarrow>
    \<exists>io key w. (io, V_BindKeystore key w) \<in> set es \<and> length key = 32 \<and> vl_public lib key = pk"
proof (induction es arbitrary: v)
  case (Cons e es)
  obtain io cmd where e: "e = (io, cmd)" by force
  show ?case
  proof (cases "binding (vault_step lib io cmd v)")
    case None
    then show ?thesis using Cons.IH [OF None] Cons.prems(2) e by auto
  next
    case (Some pk')
    then have "pk' = pk" using Cons.prems(2) e run_binding [of "vault_step lib io cmd v" pk' lib es] by simp
    then show ?thesis using unbound_step [OF assms Cons.prems(1) Some] e by auto
  qed
qed simp

lemma run_unlocked_by:
  assumes "\<And>key. length (vl_public lib key) = 32"
  shows "vault_locked v \<Longrightarrow> \<not> vault_locked (vault_run lib es v) \<Longrightarrow>
    \<exists>io cmd key. (io, cmd) \<in> set es \<and> presented_key cmd = Some key \<and> length key = 32
      \<and> binding (vault_run lib es v) = Some (vl_public lib key)"
proof (induction es arbitrary: v)
  case (Cons e es)
  obtain io cmd where e: "e = (io, cmd)" by force
  show ?case
  proof (cases "vault_locked (vault_step lib io cmd v)")
    case True
    then show ?thesis using Cons.IH [OF True] Cons.prems(2) e by auto
  next
    case False
    from step_unlocks [OF assms Cons.prems(1) False] obtain key where
      key: "presented_key cmd = Some key" "length key = 32" "binding (vault_step lib io cmd v) = Some (vl_public lib key)"
      by blast
    then have "binding (vault_run lib (e # es) v) = Some (vl_public lib key)" using e run_binding by simp
    then show ?thesis using key e by (intro exI [of _ io] exI [of _ cmd] exI [of _ key]) simp
  qed
qed simp

section \<open>An example\<close>

text \<open>
  A library for the examples: the public key is the key padded to its length, a blob carries its key
  in front and the rest is the text of an API key.
\<close>

definition pad32 :: "bytes \<Rightarrow> bytes" where
  "pad32 b = take 32 (b @ replicate 32 0)"

definition demo_lib :: vault_lib where
  "demo_lib = \<lparr>vl_public = pad32,
     vl_decrypt = (\<lambda>key blob. if take 32 blob = pad32 key then Inr (drop 32 blob) else Inl ''decrypt''),
     vl_decode = (\<lambda>b. Inr (ApiKey (string_of_bytes b))),
     vl_provider = (\<lambda>cfg key. Some \<lparr>provider_slug = acc_provider cfg, resolve_context_window = (\<lambda>_. None)\<rparr>),
     vl_toml = \<lparr>toml_parse = (\<lambda>_. Some []), toml_print = (\<lambda>_. Some [])\<rparr>,
     vl_base64_decode = (\<lambda>s. Inr (bytes_of_string s)), vl_base64_encode = string_of_bytes,
     vl_acl_toml = (\<lambda>_. None)\<rparr>"

definition demo_io :: vault_io where
  "demo_io = \<lparr>io_read_binding = None, io_write_binding = None, io_read_blobs = None, io_write_blob = None,
     io_remove_blob = None, io_accounts_path = Inr ''accounts.toml'', io_load_error = [],
     io_accounts_writable = True, io_acl_append = None\<rparr>"

definition demo_vault :: vault where
  "demo_vault = \<lparr>va_daemon = demo_daemon, va_store = empty_store, va_credentials = [], va_x_credentials = None,
     va_accounts = am_empty, va_accounts_file = MissingFile, va_acl = None, va_acl_file = MissingFile,
     va_replies = []\<rparr>"

definition demo_key :: bytes where
  "demo_key = replicate 32 7"

lemma demo_key_simps [simp]: "length demo_key = 32" "length (vl_public demo_lib key) = 32"
  "vl_public demo_lib demo_key = demo_key"
  by (simp_all add: demo_key_def demo_lib_def pad32_def)

lemma demo_bound:
  "binding demo_vault = None" "vault_locked demo_vault"
  "binding (vault_run demo_lib [(demo_io, V_BindKeystore demo_key None)] demo_vault) = Some demo_key"
  "\<not> vault_locked (vault_run demo_lib [(demo_io, V_BindKeystore demo_key None)] demo_vault)"
proof -
  show b: "binding demo_vault = None" and "vault_locked demo_vault"
    by (simp_all add: demo_vault_def get_keystore_binding_def empty_store_def demo_daemon_def)
  have m: "binds demo_io demo_key demo_vault" using b by (simp add: binds_def demo_io_def)
  then show "binding (vault_run demo_lib [(demo_io, V_BindKeystore demo_key None)] demo_vault) = Some demo_key"
    by (simp only: vault_run_simps step_store vault_command.case if_True) (simp add: keystore_binding_roundtrip)
  show "\<not> vault_locked (vault_run demo_lib [(demo_io, V_BindKeystore demo_key None)] demo_vault)"
    using m by (simp add: handle_bind_keystore_def bind_inner_cases unlock_tail_locked unlock_tail_ok)
      (simp add: demo_io_def bound_with_def am_load_def demo_vault_def)
qed

section \<open>The binding\<close>

text \<open>
  C11. The keystore belongs to the first key bound to it. Over any run of the command loop, with any
  database errors and edits of the configuration files between: once the keystore has a binding it never
  changes; a binding that appears was presented to \<^verbatim>\<open>BindKeystore\<close>; and if the daemon is
  locked before and unlocked after, some command of the run presented a key of 32 bytes whose public
  key is the binding.
\<close>

theorem keystore_binding_permanent:
  assumes "\<And>key. length (vl_public lib key) = 32"
  shows "(binding v = Some pk \<longrightarrow> binding (vault_run lib es v) = Some pk)
    \<and> (binding v = None \<longrightarrow> binding (vault_run lib es v) = Some pk \<longrightarrow>
         (\<exists>io key w. (io, V_BindKeystore key w) \<in> set es \<and> length key = 32 \<and> vl_public lib key = pk))
    \<and> (vault_locked v \<longrightarrow> \<not> vault_locked (vault_run lib es v) \<longrightarrow>
         (\<exists>io cmd key. (io, cmd) \<in> set es \<and> presented_key cmd = Some key \<and> length key = 32
            \<and> binding (vault_run lib es v) = Some (vl_public lib key)))"
  using run_binding [of v pk lib es] run_bound_by [OF assms, of v es pk] run_unlocked_by [OF assms, of v es] by blast

theorem keystore_binding_permanent_witness:
  "\<exists>io key w. (io, V_BindKeystore key w) \<in> set [(demo_io, V_BindKeystore demo_key None)]
     \<and> length key = 32 \<and> vl_public demo_lib key = demo_key"
  using keystore_binding_permanent [of demo_lib demo_vault demo_key "[(demo_io, V_BindKeystore demo_key None)]"] demo_bound
  by simp

section \<open>The stored credentials\<close>

text \<open>Every stored blob opens under a key that matches the binding.\<close>

definition blobs_open :: "vault_lib \<Rightarrow> vault \<Rightarrow> bool" where
  "blobs_open lib v \<longleftrightarrow> (\<forall>service blob. stored_blob v service = Some blob \<longrightarrow>
     (\<exists>key. length key = 32 \<and> binding v = Some (vl_public lib key) \<and> open_credential lib key blob \<noteq> None))"

lemma stored_simps [simp]:
  "map_of (rows (sto_credentials (set_credential_blob service blob st))) =
     (map_of (rows (sto_credentials st)))(service \<mapsto> blob)"
  "map_of (rows (sto_credentials (remove_credential_blob service st))) =
     (map_of (rows (sto_credentials st)))(service := None)"
  by (auto simp: set_credential_blob_def remove_credential_blob_def delete_conv' restrict_map_def fun_eq_iff)

lemma blobs_open_step:
  assumes "blobs_open lib v"
  shows "blobs_open lib (vault_step lib io cmd v)"
proof (cases cmd)
  case (V_BindKeystore key w)
  have "stored_blob v service = None" if "binding v = None" for service
    using assms that by (cases "stored_blob v service") (auto simp: blobs_open_def)
  then show ?thesis using assms V_BindKeystore step_store [of lib io cmd v] by (auto simp: blobs_open_def binds_def)
next
  case (V_SaveCredential service blob key w)
  then show ?thesis
    using assms step_store [of lib io cmd v] by (auto simp: blobs_open_def saves_def matches_def split: if_splits)
next
  case (V_RemoveCredential service)
  then show ?thesis using assms step_store [of lib io cmd v] by (auto simp: blobs_open_def split: if_splits)
qed (use assms step_store [of lib io cmd v] in \<open>auto simp: blobs_open_def\<close>)

lemma store_wf_step: "store_wf (va_store v) \<Longrightarrow> store_wf (va_store (vault_step lib io cmd v))"
  by (simp add: step_store split: vault_command.splits)

lemma run_store_wf: "store_wf (va_store v) \<Longrightarrow> store_wf (va_store (vault_run lib es v))"
  using vault_run_invariant [where P = "\<lambda>u. store_wf (va_store u)" and Q = "\<lambda>_. True" and es = es]
  by (simp add: store_wf_step list_all_iff)

lemma run_blobs_open: "blobs_open lib v \<Longrightarrow> blobs_open lib (vault_run lib es v)"
  using vault_run_invariant [where P = "blobs_open lib" and Q = "\<lambda>_. True" and es = es]
  by (simp add: blobs_open_step list_all_iff)

text \<open>Commands that do not save or remove a service leave its blob alone.\<close>

fun writes_service :: "string \<Rightarrow> vault_command \<Rightarrow> bool" where
  "writes_service service (V_SaveCredential s _ _ _) = (s = service)"
| "writes_service service (V_RemoveCredential s) = (s = service)"
| "writes_service service _ = False"

lemma run_keeps_blob:
  assumes "stored_blob v service = Some blob" and "list_all (\<lambda>(_, cmd). \<not> writes_service service cmd) es"
  shows "stored_blob (vault_run lib es v) service = Some blob"
proof -
  have "stored_blob (vault_step lib io cmd u) service = Some blob"
    if "stored_blob u service = Some blob" "\<not> writes_service service cmd" for io cmd u
    using that unfolding step_store by (cases cmd) auto
  then show ?thesis
    using assms by (rule vault_run_invariant [where P = "\<lambda>u. stored_blob u service = Some blob"
          and Q = "\<lambda>cmd. \<not> writes_service service cmd"])
qed

text \<open>A successful unlock holds in memory what the stored blobs open to.\<close>

lemma unlock_credentials:
  assumes "store_wf (va_store v)" and "snd (handle_unlock_inner lib io key v) = None"
  shows "map_of (va_credentials (handle_unlock lib io key w v)) service =
    Option.bind (stored_blob v service) (open_credential lib key)"
proof -
  from assms(2) have u: "matches lib io key v" "snd (unlock_tail lib io key v) = None"
    by (simp_all add: unlock_inner_cases)
  then have "va_credentials (handle_unlock lib io key w v) = decrypt_all lib key (get_all_credential_blobs (va_store v))"
    by (simp add: handle_unlock_def unlock_inner_cases unlock_tail_credentials)
  then show ?thesis
    using get_all_credential_blobs_lookup [OF assms(1)] by (simp add: decrypt_all_lookup)
qed

lemma open_credential_public:
  assumes "\<And>k k' b. vl_public lib k = vl_public lib k' \<Longrightarrow> vl_decrypt lib k b = vl_decrypt lib k' b"
    and "vl_public lib k = vl_public lib k'"
  shows "open_credential lib k blob = open_credential lib k' blob"
  using assms(1) [OF assms(2)] by (simp add: open_credential_def)

text \<open>
  No unreadable credential is ever stored, and an unlock brings them all back. Starting from a
  database whose blobs all open under a key that matches the binding (an empty one, for instance), after
  any run of the loop this still holds, and if the daemon is then unlocked, the services with a
  credential in memory are exactly the services with a stored blob, each with what its blob decrypts to.
\<close>

lemma unlock_restores_stored:
  assumes "\<And>k k' b. vl_public lib k = vl_public lib k' \<Longrightarrow> vl_decrypt lib k b = vl_decrypt lib k' b"
    and "store_wf (va_store v)" and "blobs_open lib v"
    and "snd (handle_unlock_inner lib io key (vault_run lib es v)) = None"
  shows "blobs_open lib (vault_run lib es v)
    \<and> (\<forall>service. map_of (va_credentials (handle_unlock lib io key w (vault_run lib es v))) service =
         map_option (\<lambda>blob. the (open_credential lib key blob)) (stored_blob (vault_run lib es v) service))"
proof -
  let ?u = "vault_run lib es v"
  have b: "blobs_open lib ?u" using assms(3) by (rule run_blobs_open)
  have m: "binding ?u = Some (vl_public lib key)" using assms(4) by (simp add: unlock_inner_cases matches_def)
  have "open_credential lib key blob \<noteq> None" if blob: "stored_blob ?u service = Some blob" for service blob
  proof -
    from b blob obtain k where k: "binding ?u = Some (vl_public lib k)" "open_credential lib k blob \<noteq> None"
      unfolding blobs_open_def by blast
    then have "vl_public lib k = vl_public lib key" using m by simp
    with k(2) show ?thesis using open_credential_public [OF assms(1), of k key blob] by simp
  qed
  then have "map_of (va_credentials (handle_unlock lib io key w ?u)) service =
      map_option (\<lambda>blob. the (open_credential lib key blob)) (stored_blob ?u service)" for service
    using unlock_credentials [OF run_store_wf [OF assms(2)] assms(4)] by (cases "stored_blob ?u service") auto
  with b show ?thesis by blast
qed

text \<open>
  C12. A saved credential survives. Once a blob that opens to a credential was accepted for a service,
  then after any run in which nobody saves or removes that service (locking, other services, failed
  commands, edits of the configuration files, and all the rest of the loop included), a successful unlock
  has exactly that credential in memory, whatever the key presented.
\<close>

theorem saved_credential_survives:
  assumes "\<And>k k' b. vl_public lib k = vl_public lib k' \<Longrightarrow> vl_decrypt lib k b = vl_decrypt lib k' b"
    and "store_wf (va_store v)" and "saves lib io blob key v"
    and "list_all (\<lambda>(_, cmd). \<not> writes_service service cmd) es"
    and "u = vault_run lib ((io, V_SaveCredential service blob key w) # es) v"
    and "snd (handle_unlock_inner lib io' key' u) = None"
  shows "map_of (va_credentials (handle_unlock lib io' key' w' u)) service = open_credential lib key blob"
proof -
  let ?v1 = "vault_step lib io (V_SaveCredential service blob key w) v"
  have "stored_blob ?v1 service = Some blob" using assms(3) by (simp only: step_store) simp
  then have blob: "stored_blob u service = Some blob" using run_keeps_blob assms(4,5) by simp
  have "binding ?v1 = Some (vl_public lib key)" using assms(3) by (simp only: step_store) (simp add: saves_def matches_def)
  then have "binding u = Some (vl_public lib key)" using run_binding assms(5) by simp
  moreover have "binding u = Some (vl_public lib key')" using assms(6) by (simp add: unlock_inner_cases matches_def)
  ultimately have "vl_public lib key' = vl_public lib key" by simp
  then have "open_credential lib key' blob = open_credential lib key blob"
    using open_credential_public [OF assms(1), of key' key blob] by simp
  moreover have "store_wf (va_store u)" using assms(5) run_store_wf [OF assms(2)] by blast
  ultimately show ?thesis using unlock_credentials [OF _ assms(6)] blob by simp
qed

text \<open>Bound, saved, locked and unlocked again.\<close>

definition demo_blob :: bytes where
  "demo_blob = demo_key @ bytes_of_string ''secret''"

definition demo_bound_vault :: vault where
  "demo_bound_vault = vault_run demo_lib [(demo_io, V_BindKeystore demo_key None)] demo_vault"

lemma demo_store: "va_store demo_bound_vault = set_keystore_binding demo_key empty_store"
  using demo_bound(1)
  by (simp only: demo_bound_vault_def vault_run_simps step_store vault_command.case)
    (simp add: binds_def demo_io_def, simp add: demo_vault_def)

lemma demo_opens [simp]: "open_credential demo_lib demo_key demo_blob = Some (ApiKey ''secret'')"
  by (simp add: open_credential_def demo_lib_def demo_blob_def demo_key_def pad32_def)

lemma demo_public: "vl_public demo_lib k = vl_public demo_lib k' \<Longrightarrow> vl_decrypt demo_lib k b = vl_decrypt demo_lib k' b"
  by (simp add: demo_lib_def)

lemma demo_saves: "saves demo_lib demo_io demo_blob demo_key demo_bound_vault"
  by (simp add: saves_def matches_def demo_store keystore_binding_roundtrip) (simp add: demo_io_def)

definition demo_ctx :: daemon_ctx where
  "demo_ctx = \<lparr>dx_now = 0, dx_instant = 0, dx_is_finished = (\<lambda>_. False), dx_prefetch_spawns = (\<lambda>_. True),
     dx_context_window = (\<lambda>_ _. None), dx_catalog = [], dx_list_fmt = concat\<rparr>"

definition demo_es :: "(vault_io \<times> vault_command) list" where
  "demo_es = [(demo_io, V_Other demo_ctx (D_Lock 0)), (demo_io, V_RemoveCredential ''other''),
     (demo_io, V_AccountsEdited MissingFile)]"

definition demo_run :: "(vault_io \<times> vault_command) list" where
  "demo_run = (demo_io, V_SaveCredential ''work'' demo_blob demo_key None) # demo_es"

lemma demo_unlocks: "snd (handle_unlock_inner demo_lib demo_io demo_key (vault_run demo_lib demo_run demo_bound_vault)) = None"
proof -
  let ?u = "vault_run demo_lib demo_run demo_bound_vault"
  have "binding demo_bound_vault = Some demo_key" by (simp add: demo_store keystore_binding_roundtrip)
  then have "binding ?u = Some demo_key" by (rule run_binding)
  moreover have "va_accounts_file ?u = MissingFile" by (simp add: demo_run_def demo_es_def)
  ultimately show ?thesis
    by (simp add: unlock_inner_cases matches_def unlock_tail_ok) (simp add: demo_io_def am_load_def)
qed

lemma demo_wf: "store_wf (va_store demo_bound_vault)" "blobs_open demo_lib demo_bound_vault"
  by (simp_all add: demo_store blobs_open_def store_wf_def tab_wf_def bt_wf_def empty_store_def set_keystore_binding_def)

lemma unlock_restores_stored_witness:
  "map_of (va_credentials (handle_unlock demo_lib demo_io demo_key None (vault_run demo_lib demo_run demo_bound_vault)))
     ''other'' = None"
proof -
  have "stored_blob (vault_run demo_lib demo_run demo_bound_vault) ''other'' = None"
    unfolding demo_run_def demo_es_def vault_run_simps step_store by (simp add: demo_io_def)
  then show ?thesis
    using unlock_restores_stored [OF demo_public demo_wf demo_unlocks, of None] by simp
qed

theorem saved_credential_survives_witness:
  "map_of (va_credentials (handle_unlock demo_lib demo_io demo_key None (vault_run demo_lib demo_run demo_bound_vault)))
     ''work'' = Some (ApiKey ''secret'')"
proof -
  have "list_all (\<lambda>(_, cmd). \<not> writes_service ''work'' cmd) demo_es" by (simp add: demo_es_def)
  from saved_credential_survives [OF demo_public demo_wf(1) demo_saves this refl
      demo_unlocks [unfolded demo_run_def], of None]
  show ?thesis by (simp add: demo_run_def)
qed

section \<open>The acting client is answered first\<close>

text \<open>
  \<open>answered_first f c ms v v'\<close>: the queue of client \<open>c\<close> got the answer \<open>ms\<close>, and after it, apart from
  eviction notices, the announcement of the new lock state if the lock opened and the client subscribes
  to activity, and nothing else.
\<close>

definition answered_first :: "(u64 \<Rightarrow> sink) \<Rightarrow> u64 \<Rightarrow> daemon_message list \<Rightarrow> vault \<Rightarrow> vault \<Rightarrow> bool" where
  "answered_first f c ms v v' \<longleftrightarrow>
     (\<exists>rest. queue (chans (ds_net (va_daemon v')) (f c)) = queue (chans (ds_net (va_daemon v)) (f c)) @ ms @ rest
        \<and> news rest = (if vault_locked v \<and> \<not> vault_locked v' \<and> map_of (ds_activity_subscribers (va_daemon v)) c \<noteq> None
                      then [Unlocked] else []))"

lemma comm_core_agree: "comm_core s = comm_core s' \<Longrightarrow> one_sink_per_client f s = one_sink_per_client f s'"
  by (simp add: comm_core_def one_sink_per_client_def)

lemma send_targeted_queue:
  assumes "receiver_alive (chans (ds_net (va_daemon v)) k)"
  shows "queue (chans (ds_net (va_daemon (send_targeted (Some k) m v))) k) = queue (chans (ds_net (va_daemon v)) k) @ [m]"
    and "receiver_alive (chans (ds_net (va_daemon (send_targeted (Some k) m v))) k)"
    and "ds_activity_subscribers (va_daemon (send_targeted (Some k) m v)) = ds_activity_subscribers (va_daemon v)"
    and "one_sink_per_client f (va_daemon (send_targeted (Some k) m v)) = one_sink_per_client f (va_daemon v)"
  using assms delivers_queue [OF send_accounted_delivers assms] delivers_alive [OF send_accounted_delivers]
  by (simp_all add: send_targeted_def one_def one_sink_per_client_def)

lemma announce_queue:
  assumes "one_sink_per_client f s" and "receiver_alive (chans (ds_net s) (f c))"
  shows "\<exists>rest. queue (chans (ds_net (broadcast_lock_state s)) (f c)) = queue (chans (ds_net s) (f c)) @ rest
    \<and> news rest = (if map_of (ds_activity_subscribers s) c \<noteq> None then [current_lock_message s] else [])"
proof -
  have "current_lock_message s \<noteq> Evicted" by (simp add: current_lock_message_def)
  from fan_out_activity_bus [OF assms(1) this, of "\<lambda>_. False"] obtain E d where
    "bus_fan_out f (ds_activity_subscribers s) (current_lock_message s) (\<lambda>_. False) E s
       (fan_out_activity (current_lock_message s) (\<lambda>_. False) s) d" by blast
  then show ?thesis
    using delivers_queue [OF _ assms(2)]
    by (auto simp: bus_fan_out_def broadcast_lock_state_def handle_broadcast_activity_def)
qed

text \<open>A list of targeted messages, then the announcement when the lock opened.\<close>

lemma answered_firstI:
  assumes agree: "one_sink_per_client f (va_daemon v)" and alive: "receiver_alive (chans (ds_net (va_daemon v)) (f c))"
    and comm: "comm_core (va_daemon u) = comm_core (va_daemon v)"
    and opens: "opens \<longleftrightarrow> vault_locked v \<and> \<not> vault_locked u"
    and t: "t = fold (send_targeted (Some (f c))) ms u"
    and v': "v' = (if opens then vault_daemon broadcast_lock_state (vault_reply_with r t) else vault_reply_with r t)"
  shows "answered_first f c ms v v'"
proof -
  have step: "queue (chans (ds_net (va_daemon (fold (send_targeted (Some (f c))) ms x))) (f c))
        = queue (chans (ds_net (va_daemon x)) (f c)) @ ms
      \<and> receiver_alive (chans (ds_net (va_daemon (fold (send_targeted (Some (f c))) ms x))) (f c))
      \<and> ds_activity_subscribers (va_daemon (fold (send_targeted (Some (f c))) ms x)) = ds_activity_subscribers (va_daemon x)
      \<and> one_sink_per_client f (va_daemon (fold (send_targeted (Some (f c))) ms x)) = one_sink_per_client f (va_daemon x)
      \<and> vault_locked (fold (send_targeted (Some (f c))) ms x) = vault_locked x"
    if "receiver_alive (chans (ds_net (va_daemon x)) (f c))" for x
    using that by (induction ms arbitrary: x) (simp_all add: send_targeted_queue)
  have u: "ds_net (va_daemon u) = ds_net (va_daemon v)"
    "ds_activity_subscribers (va_daemon u) = ds_activity_subscribers (va_daemon v)"
    using comm by (simp_all add: comm_core_def)
  have a: "one_sink_per_client f (va_daemon u)" using comm_core_agree [OF comm] agree by simp
  note t' = step [of u, folded t, unfolded u, OF alive]
  show ?thesis
  proof (cases opens)
    case True
    have l: "current_lock_message (va_daemon t) = Unlocked" "\<not> vault_locked v'"
      using True opens t' v' broadcast_key_core(3) by (auto simp: current_lock_message_def key_core_def)
    have "\<exists>rest. queue (chans (ds_net (va_daemon v')) (f c)) = queue (chans (ds_net (va_daemon t)) (f c)) @ rest
        \<and> news rest = (if map_of (ds_activity_subscribers (va_daemon t)) c \<noteq> None then [Unlocked] else [])"
      using announce_queue [of f "va_daemon t" c] t' a l v' True by (auto split: if_splits)
    then show ?thesis using t' opens True l by (auto simp: answered_first_def)
  next
    case False
    then show ?thesis using t' opens v' by (auto simp: answered_first_def intro: exI [of _ "[]"])
  qed
qed

lemma answer_answered:
  assumes "one_sink_per_client f (va_daemon v)" and "receiver_alive (chans (ds_net (va_daemon v)) (f c))"
    and "comm_core (va_daemon (fst r)) = comm_core (va_daemon v)"
    and "vault_locked (fst r) = (if snd r = None then False else vault_locked v)"
  shows "answered_first f c [keystore_reply m (snd r)] v (answer_then_announce m (Some (f c)) (vault_locked v) r)"
  by (rule answered_firstI [OF assms(1-3), where opens = "snd r = None \<and> vault_locked v"
        and t = "send_targeted (Some (f c)) (keystore_reply m (snd r)) (fst r)" and r = DoneReply])
    (simp_all add: assms(4) answer_then_announce_def Let_def)

lemma bound_with_simps [simp]: "va_daemon (bound_with lib io key v) = va_daemon v"
  by (simp add: bound_with_def)

lemma fail_answered:
  assumes "one_sink_per_client f (va_daemon v)" and "receiver_alive (chans (ds_net (va_daemon v)) (f c))"
    and "comm_core (va_daemon u) = comm_core (va_daemon v)" and "vault_locked u = vault_locked v"
  shows "answered_first f c [m] v (fail_save (Some (f c)) m u)"
  by (rule answered_firstI [OF assms(1-3), where opens = False and t = "send_targeted (Some (f c)) m u" and r = DoneReply])
    (simp_all add: assms(4) fail_save_def)

lemma save_tail_answered:
  assumes "one_sink_per_client f (va_daemon v)" and "receiver_alive (chans (ds_net (va_daemon v)) (f c))"
    and "va_daemon u = va_daemon v"
  shows "\<exists>ms. save_answer service ms \<and>
    answered_first f c ms v (save_credential_tail lib io service cred key (Some (f c)) (vault_locked v) u)"
proof -
  define u1 where "u1 = (if is_x cred \<and> service = ''twitter'' then u\<lparr>va_x_credentials := Some cred\<rparr> else u)"
  define u2 where "u2 = (case cred of ApiKey k \<Rightarrow> resolve_account_provider lib service (Some k) u1 | _ \<Rightarrow> u1)"
  have "va_daemon u1 = va_daemon v" by (simp add: u1_def assms(3))
  then have u2: "comm_core (va_daemon u2) = comm_core (va_daemon v)" "vault_locked u2 = vault_locked v"
    by (simp_all add: u2_def split: service_credential.splits)
  obtain u3 r where t: "unlock_tail lib io key u2 = (u3, r)" by force
  have u3: "comm_core (va_daemon u3) = comm_core (va_daemon v)" "vault_locked u3 = (if r = None then False else vault_locked v)"
    using unlock_tail_comm [of lib io key u2] unlock_tail_locked [of lib io key u2] t u2 by simp_all
  have eq: "save_credential_tail lib io service cred key (Some (f c)) (vault_locked v) u =
      (case r of Some e \<Rightarrow> fail_save (Some (f c)) (CredentialAddFailed service (''credential saved but unlock failed: '' @ e)) u3
       | None \<Rightarrow> let v4 = vault_reply_with DoneReply
                         (send_targeted (Some (f c)) (CredentialAdded service) (send_targeted (Some (f c)) Unlocked u3))
              in if vault_locked v \<and> \<not> vault_locked v4 then vault_daemon broadcast_lock_state v4 else v4)"
    unfolding save_credential_tail_def Let_def u1_def [symmetric] u2_def [symmetric] t prod.case ..
  show ?thesis
  proof (cases r)
    case None
    have "answered_first f c [Unlocked, CredentialAdded service] v
        (save_credential_tail lib io service cred key (Some (f c)) (vault_locked v) u)"
      by (rule answered_firstI [OF assms(1,2) u3(1), where opens = "vault_locked v" and r = DoneReply
            and t = "send_targeted (Some (f c)) (CredentialAdded service) (send_targeted (Some (f c)) Unlocked u3)"])
        (simp_all add: None u3 eq Let_def)
    then show ?thesis by (auto simp: save_answer_def)
  next
    case (Some e)
    then show ?thesis
      using fail_answered [OF assms(1,2) u3(1)] u3(2) by (auto simp: save_answer_def eq)
  qed
qed

text \<open>
  The acting client is answered before anybody hears of the new lock state. When a client that is
  connected sends an unlock, a bind or a save, its queue gets the answer to its command first; after it
  comes the announcement \<^verbatim>\<open>Unlocked\<close> exactly when the daemon was locked, is now unlocked, and the client
  subscribes to activity; and apart from eviction notices nothing else.
\<close>

lemma acting_client_answered_first:
  assumes "one_sink_per_client f (va_daemon v)" and "receiver_alive (chans (ds_net (va_daemon v)) (f c))"
  shows "answered_first f c [keystore_reply Unlocked (snd (handle_unlock_inner lib io key v))] v
      (handle_unlock lib io key (Some (f c)) v)
    \<and> answered_first f c [keystore_reply Bound (snd (handle_bind_keystore_inner lib io key v))] v
      (handle_bind_keystore lib io key (Some (f c)) v)
    \<and> (\<exists>ms. save_answer service ms \<and>
        answered_first f c ms v (handle_save_credential lib io service blob key (Some (f c)) v))"
proof (intro conjI)
  show "answered_first f c [keystore_reply Unlocked (snd (handle_unlock_inner lib io key v))] v
      (handle_unlock lib io key (Some (f c)) v)"
    unfolding handle_unlock_def
    by (rule answer_answered [OF assms]) (auto simp: unlock_inner_cases unlock_tail_locked)
  show "answered_first f c [keystore_reply Bound (snd (handle_bind_keystore_inner lib io key v))] v
      (handle_bind_keystore lib io key (Some (f c)) v)"
    unfolding handle_bind_keystore_def
    by (rule answer_answered [OF assms]) (auto simp: bind_inner_cases unlock_tail_locked)
  show "\<exists>ms. save_answer service ms \<and>
      answered_first f c ms v (handle_save_credential lib io service blob key (Some (f c)) v)"
  proof (cases "saves lib io blob key v")
    case True
    show ?thesis unfolding save_cases(1) [OF True] by (intro save_tail_answered [OF assms]) simp
  next
    case False
    from save_cases(2) [OF this] obtain m where
      "save_answer service [m]" "handle_save_credential lib io service blob key (Some (f c)) v = fail_save (Some (f c)) m v"
      by blast
    then show ?thesis using fail_answered [OF assms refl refl] by auto
  qed
qed

lemma acting_client_answered_first_witness:
  "answered_first unat 1 [keystore_reply Bound (snd (handle_bind_keystore_inner demo_lib demo_io demo_key demo_vault))]
     demo_vault (handle_bind_keystore demo_lib demo_io demo_key (Some (unat (1 :: u64))) demo_vault)"
proof -
  have "one_sink_per_client unat (va_daemon demo_vault)" using demo_daemon_agrees by (simp add: demo_vault_def)
  moreover have "receiver_alive (chans (ds_net (va_daemon demo_vault)) (unat (1 :: u64)))"
    by (simp add: demo_vault_def demo_daemon_def net_new_def chan_new_def)
  ultimately show ?thesis
    using acting_client_answered_first [of unat demo_vault 1 demo_lib demo_io demo_key] by blast
qed

end
