(* ===== verification/Keystore_Accounts.thy ===== *)
theory Keystore_Accounts
  imports Keystore_Theorems
begin

text \<open>
  The accounts in the running daemon: what a reload of \<^verbatim>\<open>accounts.toml\<close> does to the accounts and to the
  cached providers, and that the daemon's own writes of the file are never taken for an edit.
\<close>

section \<open>Cached providers\<close>

abbreviation provider_of :: "vault \<Rightarrow> string \<Rightarrow> inference_provider option" where
  "provider_of v \<equiv> map_of (ds_providers (va_daemon v))"

abbreviation account_of :: "vault \<Rightarrow> string \<Rightarrow> account_config option" where
  "account_of v \<equiv> map_of (am_accounts (va_accounts v))"

lemma provider_of_drop: "provider_of (drop_provider name v) n = (if n = name then None else provider_of v n)"
  by (simp add: drop_provider_def delete_conv' restrict_map_def)

lemma provider_of_dropped: "provider_of (fold drop_provider names v) n = (if n \<in> set names then None else provider_of v n)"
  by (induction names arbitrary: v) (auto simp: provider_of_drop)

lemma provider_of_resolve:
  "provider_of (resolve_account_provider lib name k v) n =
     (case Option.bind (account_of v name) (\<lambda>c. vl_provider lib c k) of
        Some p \<Rightarrow> if n = name then Some p else provider_of v n
      | None \<Rightarrow> provider_of v n)"
  by (auto simp: resolve_account_provider_def update_conv' split: option.splits)

lemma api_key_frame: "va_credentials u = va_credentials v \<Longrightarrow> api_key_of u = api_key_of v"
  by (simp add: api_key_of_def fun_eq_iff)

definition rebuild :: "vault_lib \<Rightarrow> string \<Rightarrow> vault \<Rightarrow> vault" where
  "rebuild lib name u = resolve_account_provider lib name (api_key_of u name) (drop_provider name u)"

lemma rebuild_simps [simp]:
  "va_credentials (rebuild lib name v) = va_credentials v"
  "va_accounts (rebuild lib name v) = va_accounts v"
  "va_store (rebuild lib name v) = va_store v"
  by (simp_all add: rebuild_def)

lemma provider_of_rebuilt:
  "provider_of (fold (rebuild lib) names v) n =
     (if n \<in> set names then Option.bind (account_of v n) (\<lambda>c. vl_provider lib c (api_key_of v n)) else provider_of v n)"
proof (induction names arbitrary: v)
  case (Cons name names)
  have "provider_of (rebuild lib name v) n =
      (if n = name then Option.bind (account_of v n) (\<lambda>c. vl_provider lib c (api_key_of v n)) else provider_of v n)"
    by (auto simp: rebuild_def provider_of_resolve provider_of_drop split: option.splits)
  moreover have "api_key_of (rebuild lib name v) = api_key_of v" by (rule api_key_frame) simp
  ultimately show ?case using Cons.IH [of "rebuild lib name v"] by (cases "n = name") auto
qed simp

section \<open>Which accounts were removed or changed\<close>

lemma removed_set:
  "n \<in> set (removed_accounts old fresh) \<longleftrightarrow> map_of (am_accounts old) n \<noteq> None \<and> map_of (am_accounts fresh) n = None"
  by (force simp: removed_accounts_def map_of_eq_None_iff)

lemma changed_set:
  assumes "am_wf old"
  shows "n \<in> set (changed_accounts old fresh) \<longleftrightarrow>
    (\<exists>c c'. map_of (am_accounts old) n = Some c \<and> map_of (am_accounts fresh) n = Some c' \<and> c' \<noteq> c)"
proof -
  have "distinct (map fst (am_accounts old))" using assms by (simp add: am_wf_def hm_wf_def)
  then show ?thesis by (auto simp: changed_accounts_def image_iff split: option.splits)
qed

lemma same_configs:
  assumes "am_wf m" and "am_wf m'" and "all_configs m = all_configs m'"
  shows "map_of (am_accounts m) = map_of (am_accounts m')"
proof (rule ext)
  fix n
  have eq: "map_of (am_accounts m) (acc_name c) = Some c \<longleftrightarrow> map_of (am_accounts m') (acc_name c) = Some c" for c
  proof -
    have "c \<in> set (all_configs m) \<longleftrightarrow> map_of (am_accounts m) (acc_name c) = Some c"
      unfolding all_configs_set(1) [OF assms(1)] by simp
    moreover have "c \<in> set (all_configs m') \<longleftrightarrow> map_of (am_accounts m') (acc_name c) = Some c"
      unfolding all_configs_set(1) [OF assms(2)] by simp
    ultimately show ?thesis unfolding assms(3) by (rule trans [OF sym])
  qed
  show "map_of (am_accounts m) n = map_of (am_accounts m') n"
  proof (cases "map_of (am_accounts m) n")
    case None
    then have "map_of (am_accounts m') n \<noteq> Some c" for c using eq [of c] am_wf_lookup [OF assms(2), of n c] by auto
    with None show ?thesis by (cases "map_of (am_accounts m') n") auto
  next
    case (Some c)
    then show ?thesis using eq [of c] am_wf_lookup [OF assms(1) Some] by simp
  qed
qed

section \<open>Properties\<close>

text \<open>
  What a reload of the accounts does. With a readable file the daemon then has exactly the accounts
  of the file; an account that is gone has lost its cached provider, one whose configuration changed
  has the provider built from the new configuration and the credential still held, or none if that
  fails, and every other cached provider is the same; credentials and database are untouched.
\<close>

lemma accounts_reload_spec:
  assumes "am_wf (va_accounts v)" and "am_path (va_accounts v) \<noteq> []"
    and "am_load (vl_toml lib) (am_path (va_accounts v)) (va_accounts_file v) = Some fresh"
    and "v' = handle_accounts_reload lib io v"
  shows "all_configs (va_accounts v') = all_configs fresh
    \<and> (\<forall>n. provider_of v' n =
         (case (account_of v n, map_of (am_accounts fresh) n) of
            (Some c, None) \<Rightarrow> None
          | (Some c, Some c') \<Rightarrow> if c' = c then provider_of v n else vl_provider lib c' (api_key_of v n)
          | (None, _) \<Rightarrow> provider_of v n))
    \<and> va_credentials v' = va_credentials v \<and> va_store v' = va_store v"
proof (cases "all_configs fresh = all_configs (va_accounts v)")
  case True
  have "map_of (am_accounts fresh) = map_of (am_accounts (va_accounts v))"
    using same_configs [OF am_wf_load [OF assms(3)] assms(1) True] .
  with True assms show ?thesis by (auto simp: handle_accounts_reload_def split: option.splits)
next
  case False
  let ?v2 = "set_accounts fresh (fold drop_provider (removed_accounts (va_accounts v) fresh) v)"
  let ?v3 = "fold (rebuild lib) (changed_accounts (va_accounts v) fresh) ?v2"
  have v': "v' = vault_daemon (handle_broadcast_activity None (Accounts (account_infos io ?v3))) ?v3"
    using assms False by (simp add: handle_accounts_reload_def Let_def rebuild_def [abs_def])
  have keep: "va_credentials ?v3 = va_credentials v" "va_store ?v3 = va_store v" "va_accounts ?v3 = fresh"
    by (simp_all add: fold_keeps [where f = va_credentials] fold_keeps [where f = va_store] fold_keeps [where f = va_accounts])
  have k: "api_key_of ?v2 = api_key_of v"
    by (rule api_key_frame) (simp add: fold_keeps [where f = va_credentials])
  have p: "provider_of v' n = provider_of ?v3 n" for n
    using broadcast_key_core(2) by (simp add: v' key_core_def)
  have "provider_of v' n =
         (case (account_of v n, map_of (am_accounts fresh) n) of
            (Some c, None) \<Rightarrow> None
          | (Some c, Some c') \<Rightarrow> if c' = c then provider_of v n else vl_provider lib c' (api_key_of v n)
          | (None, _) \<Rightarrow> provider_of v n)" for n
    unfolding p provider_of_rebuilt k changed_set [OF assms(1)]
    by (auto simp: provider_of_dropped removed_set split: option.splits)
  then show ?thesis using v' keep by simp
qed

text \<open>An account that was emptied out of the file by hand.\<close>

definition demo_edited :: vault where
  "demo_edited = demo_vault\<lparr>
     va_accounts := \<lparr>am_path = ''accounts.toml'', am_accounts = [(''a'', account_simple ''a'' ''openai'')]\<rparr>,
     va_accounts_file := TextFile [],
     va_daemon := demo_daemon\<lparr>ds_providers := [(''a'', \<lparr>provider_slug = ''openai'', resolve_context_window = (\<lambda>_. None)\<rparr>)]\<rparr>\<rparr>"

lemma accounts_reload_spec_witness:
  "provider_of demo_edited ''a'' \<noteq> None \<and> provider_of (handle_accounts_reload demo_lib demo_io demo_edited) ''a'' = None"
proof -
  have l: "am_load (vl_toml demo_lib) (am_path (va_accounts demo_edited)) (va_accounts_file demo_edited) =
      Some \<lparr>am_path = ''accounts.toml'', am_accounts = []\<rparr>"
    by (simp add: demo_edited_def demo_lib_def am_load_def)
  have w: "am_wf (va_accounts demo_edited)" "am_path (va_accounts demo_edited) \<noteq> []"
    by (simp_all add: demo_edited_def am_wf_def hm_wf_def account_simple_def account_validate_def)
  from accounts_reload_spec [OF w l refl, of demo_io] show ?thesis by (simp add: demo_edited_def)
qed

text \<open>The accounts and their file after a successful addition or removal.\<close>

lemma store_ok:
  assumes "am_store t writable file m = (m', file', None)"
  shows "m' = m" and "am_save t True m = Some file'"
  using assms by (auto simp: am_store_def am_save_def split: option.splits if_splits)

lemma add_ok:
  assumes "am_add t writable cfg mf = (m', file', None)" and "am_wf (fst mf)"
  shows "am_wf m' \<and> am_save t True m' = Some file' \<and> am_path m' = am_path (fst mf)"
  using assms am_wf_add [OF assms(2), of t writable cfg]
  by (auto simp: am_add_def split: option.splits if_splits dest: store_ok)

lemma remove_ok:
  assumes "am_remove t writable name mf = (m', file', None)" and "am_wf (fst mf)"
  shows "am_wf m' \<and> am_save t True m' = Some file' \<and> am_path m' = am_path (fst mf)"
  using assms am_wf_remove [OF assms(2), of t writable name]
  by (auto simp: am_remove_def split: if_splits dest: store_ok)

lemma replies_simps [simp]:
  "va_replies (vault_daemon f v) = va_replies v"
  "va_replies (vault_reply_with r v) = va_replies v @ [r]"
  "va_replies (set_accounts m v) = va_replies v"
  "va_replies (resolve_account_provider lib name k v) = va_replies v"
  by (simp_all add: vault_daemon_def vault_reply_with_def set_accounts_def resolve_account_provider_def split: option.splits)

lemma remove_account_saved:
  assumes "va_replies (handle_remove_account lib io name v) = va_replies v @ [AccountReply None]" and "am_wf (va_accounts v)"
    and "v' = handle_remove_account lib io name v"
  shows "am_wf (va_accounts v') \<and> am_save (vl_toml lib) True (va_accounts v') = Some (va_accounts_file v')"
proof -
  obtain m fl r where a: "am_remove (vl_toml lib) (io_accounts_writable io) name (va_accounts v, va_accounts_file v) = (m, fl, r)"
    by (cases "am_remove (vl_toml lib) (io_accounts_writable io) name (va_accounts v, va_accounts_file v)")
  have "r = None" using assms(1) a by (simp add: handle_remove_account_def Let_def split: if_splits)
  then show ?thesis using a remove_ok [OF a [unfolded \<open>r = None\<close>]] assms(2,3) by (simp add: handle_remove_account_def)
qed

lemma add_account_saved:
  assumes "va_replies (handle_add_account lib io name prov url streaming attempts cs rs ts v) = va_replies v @ [AccountReply None]"
    and "am_wf (va_accounts v)" and "v' = handle_add_account lib io name prov url streaming attempts cs rs ts v"
  shows "am_wf (va_accounts v') \<and> am_save (vl_toml lib) True (va_accounts v') = Some (va_accounts_file v')"
proof -
  define cfg where "cfg = (account_simple name prov)\<lparr>acc_base_url := url, acc_streaming := streaming,
            acc_retry_max_attempts := attempts, acc_connect_timeout_secs := cs,
            acc_request_timeout_secs := rs, acc_total_timeout_secs := ts\<rparr>"
  obtain m fl r where a: "am_add (vl_toml lib) (io_accounts_writable io) cfg (va_accounts v, va_accounts_file v) = (m, fl, r)"
    by (cases "am_add (vl_toml lib) (io_accounts_writable io) cfg (va_accounts v, va_accounts_file v)")
  let ?u = "set_accounts m (v\<lparr>va_accounts_file := fl\<rparr>)"
  let ?k = "case (r, map_of (va_credentials ?u) name) of
      (None, Some (ApiKey key)) \<Rightarrow> resolve_account_provider lib name (Some key) ?u | _ \<Rightarrow> ?u"
  have v': "v' = vault_reply_with (AccountReply r) ?k"
    unfolding assms(3) handle_add_account_def vault_add_account_def Let_def cfg_def [symmetric] a prod.case ..
  have k: "va_accounts ?k = m" "va_accounts_file ?k = fl" "va_replies ?k = va_replies v"
    by (simp_all split: option.splits service_credential.splits)
  have "r = None" using assms(1) [folded assms(3)] k(3) by (simp only: v' replies_simps) simp
  then show ?thesis using add_ok [OF a [unfolded \<open>r = None\<close>]] assms(2) k(1,2) by (simp only: v' vault_reply_simps) simp
qed

lemma reload_saved:
  assumes "am_wf (va_accounts v)" and "am_save (vl_toml lib) True (va_accounts v) = Some (va_accounts_file v)"
    and "\<And>cfgs s. toml_print (vl_toml lib) cfgs = Some s \<Longrightarrow> toml_parse (vl_toml lib) s = Some cfgs"
  shows "handle_accounts_reload lib io v = v"
proof -
  from load_saved [OF assms(1,2) assms(3), of "am_path (va_accounts v)"] obtain m where
    "am_load (vl_toml lib) (am_path (va_accounts v)) (va_accounts_file v) = Some m" "all_configs m = all_configs (va_accounts v)"
    by blast
  then show ?thesis by (simp add: handle_accounts_reload_def Let_def)
qed

text \<open>
  The daemon's own writes are not taken for edits. When an account was added or removed with
  success, the reload that the file watcher then asks for changes nothing and broadcasts nothing,
  whatever the order in which the accounts are kept in memory; and the file holds them, so a daemon that
  loads it has the same accounts.
\<close>

lemma own_save_reload_is_noop:
  assumes "\<And>cfgs s. toml_print (vl_toml lib) cfgs = Some s \<Longrightarrow> toml_parse (vl_toml lib) s = Some cfgs"
    and "am_wf (va_accounts v)"
    and "v' = handle_add_account lib io name prov url streaming attempts cs rs ts v \<or> v' = handle_remove_account lib io name v"
    and "va_replies v' = va_replies v @ [AccountReply None]"
  shows "handle_accounts_reload lib io' v' = v'
    \<and> (\<exists>m. am_load (vl_toml lib) path (va_accounts_file v') = Some m \<and> map_of (am_accounts m) = account_of v')"
proof -
  have "am_wf (va_accounts v') \<and> am_save (vl_toml lib) True (va_accounts v') = Some (va_accounts_file v')"
    using assms(2-4) add_account_saved remove_account_saved by blast
  then show ?thesis
    using reload_saved [OF _ _ assms(1), of v' io'] load_saved [OF _ _ assms(1), of "va_accounts v'" "va_accounts_file v'" path]
    by blast
qed

definition demo_toml_lib :: vault_lib where
  "demo_toml_lib = demo_lib\<lparr>vl_toml := \<lparr>
     toml_parse = (\<lambda>s. if s = [] then Some [] else if s = ''a'' then Some [account_simple ''a'' ''openai''] else None),
     toml_print = (\<lambda>cfgs. if cfgs = [] then Some [] else if cfgs = [account_simple ''a'' ''openai''] then Some ''a'' else None)\<rparr>\<rparr>"

definition demo_added :: vault where
  "demo_added = handle_add_account demo_toml_lib demo_io ''a'' ''openai'' None None None None None None
     (demo_vault\<lparr>va_accounts := \<lparr>am_path = ''accounts.toml'', am_accounts = []\<rparr>\<rparr>)"

lemma demo_added_eval:
  "va_replies demo_added = [AccountReply None]" "account_of demo_added ''a'' = Some (account_simple ''a'' ''openai'')"
  by (simp_all add: demo_added_def handle_add_account_def vault_add_account_def am_add_def am_store_def am_save_def
      all_configs_def demo_toml_lib_def demo_io_def demo_vault_def account_validate_def account_simple_def Let_def
      vault_reply_with_def set_accounts_def vault_daemon_def)

lemma own_save_reload_is_noop_witness:
  "handle_accounts_reload demo_toml_lib demo_io demo_added = demo_added
   \<and> (\<exists>m. am_load (vl_toml demo_toml_lib) ''accounts.toml'' (va_accounts_file demo_added) = Some m
        \<and> map_of (am_accounts m) ''a'' = Some (account_simple ''a'' ''openai''))"
proof -
  let ?v = "demo_vault\<lparr>va_accounts := \<lparr>am_path = ''accounts.toml'', am_accounts = []\<rparr>\<rparr>"
  have p: "toml_print (vl_toml demo_toml_lib) cfgs = Some s \<Longrightarrow> toml_parse (vl_toml demo_toml_lib) s = Some cfgs" for cfgs s
    by (auto simp: demo_toml_lib_def split: if_splits)
  have w: "am_wf (va_accounts ?v)" by (simp add: am_wf_def hm_wf_def)
  have r: "va_replies demo_added = va_replies ?v @ [AccountReply None]" by (simp add: demo_added_eval demo_vault_def)
  from own_save_reload_is_noop [OF p w disjI1 [OF demo_added_def] r, of demo_io "''accounts.toml''"]
  show ?thesis using demo_added_eval(2) by auto
qed

end
