(* ===== verification/Keystore_Types.thy ===== *)
theory Keystore_Types
  imports Keystore_Accounts
begin

text \<open>
  The types of the keystore's state that its records do not express, kept by every command of the loop;
  and what enrolling a client key does.
\<close>

section \<open>The typing invariant\<close>

text \<open>
  Tables are ordered, maps have each key once, every account is filed under its name and valid, the
  daemon state mirrors the accounts, what is kept as the X credential is one, and every authorized client
  key has 32 bytes.
\<close>

definition accounts_mirrored :: "vault \<Rightarrow> bool" where
  "accounts_mirrored v \<longleftrightarrow>
     ds_accounts (va_daemon v) = map (\<lambda>(k, c). (k, acc_provider c)) (am_accounts (va_accounts v))"

definition vault_wf :: "vault \<Rightarrow> bool" where
  "vault_wf v \<longleftrightarrow> store_wf (va_store v) \<and> am_wf (va_accounts v) \<and> hm_wf (va_credentials v)
     \<and> hm_wf (ds_providers (va_daemon v)) \<and> accounts_mirrored v
     \<and> (\<forall>c. va_x_credentials v = Some c \<longrightarrow> is_x c)
     \<and> (\<forall>acl. va_acl v = Some acl \<longrightarrow> (\<forall>key \<in> set acl. length key = 32))"

text \<open>The parts of the state the invariant reads.\<close>

definition typed_core ::
  "vault \<Rightarrow> store \<times> account_manager \<times> (string, service_credential) hmap \<times> (string, inference_provider) hmap
     \<times> (string, string) hmap \<times> service_credential option \<times> bytes list option" where
  "typed_core v = (va_store v, va_accounts v, va_credentials v, ds_providers (va_daemon v),
     ds_accounts (va_daemon v), va_x_credentials v, va_acl v)"

lemma vault_wf_core: "typed_core v = typed_core u \<Longrightarrow> vault_wf v = vault_wf u"
  by (simp add: typed_core_def vault_wf_def accounts_mirrored_def)

lemma typed_core_frame [simp]:
  "typed_core (vault_reply_with r v) = typed_core v"
  "typed_core (send_targeted w m v) = typed_core v"
  "typed_core (v\<lparr>va_accounts_file := fl\<rparr>) = typed_core v"
  "typed_core (v\<lparr>va_acl_file := fl\<rparr>) = typed_core v"
  by (simp_all add: typed_core_def vault_reply_with_def send_targeted_def vault_daemon_def split: option.splits)

lemma typed_core_daemon: "(\<And>s. key_core (f s) = key_core s) \<Longrightarrow> typed_core (vault_daemon f v) = typed_core v"
  by (simp add: typed_core_def key_core_def vault_daemon_def)

lemma vault_wf_frame [simp]:
  "vault_wf (vault_reply_with r v) = vault_wf v"
  "vault_wf (send_targeted w m v) = vault_wf v"
  "vault_wf (v\<lparr>va_accounts_file := fl\<rparr>) = vault_wf v"
  "vault_wf (v\<lparr>va_acl_file := fl\<rparr>) = vault_wf v"
  "vault_wf (vault_daemon (handle_broadcast_activity origin m) v) = vault_wf v"
  "vault_wf (vault_daemon broadcast_lock_state v) = vault_wf v"
  by (rule vault_wf_core; simp add: typed_core_daemon broadcast_key_core)+

lemma vault_wf_store: "vault_wf v \<Longrightarrow> store_wf st \<Longrightarrow> vault_wf (v\<lparr>va_store := st\<rparr>)"
  by (simp add: vault_wf_def accounts_mirrored_def)

lemma vault_wf_accounts: "vault_wf v \<Longrightarrow> am_wf m \<Longrightarrow> vault_wf (set_accounts m v)"
  by (simp add: vault_wf_def accounts_mirrored_def set_accounts_def vault_daemon_def)

lemma vault_wf_credentials: "vault_wf v \<Longrightarrow> hm_wf cs \<Longrightarrow> vault_wf (v\<lparr>va_credentials := cs\<rparr>)"
  by (simp add: vault_wf_def accounts_mirrored_def)

lemma vault_wf_x: "vault_wf v \<Longrightarrow> (\<And>c. x = Some c \<Longrightarrow> is_x c) \<Longrightarrow> vault_wf (v\<lparr>va_x_credentials := x\<rparr>)"
  by (simp add: vault_wf_def accounts_mirrored_def)

lemma vault_wf_providers:
  "vault_wf v \<Longrightarrow> (\<And>ps. hm_wf ps \<Longrightarrow> hm_wf (g ps)) \<Longrightarrow>
   vault_wf (vault_daemon (\<lambda>s. s\<lparr>ds_providers := g (ds_providers s)\<rparr>) v)"
  by (simp add: vault_wf_def accounts_mirrored_def vault_daemon_def)

lemma vault_wf_locked: "vault_wf (vault_daemon (\<lambda>s. s\<lparr>ds_locked := l\<rparr>) v) = vault_wf v"
  by (simp add: vault_wf_def accounts_mirrored_def vault_daemon_def)

lemma vault_wf_resolve: "vault_wf v \<Longrightarrow> vault_wf (resolve_account_provider lib name k v)"
  by (simp add: resolve_account_provider_def vault_wf_providers hm_wf_update split: option.splits)

lemma vault_wf_drop: "vault_wf v \<Longrightarrow> vault_wf (drop_provider name v)"
  by (simp add: drop_provider_def vault_wf_providers hm_wf_delete)

lemma vault_wf_fold: "(\<And>x u. vault_wf u \<Longrightarrow> vault_wf (f x u)) \<Longrightarrow> vault_wf v \<Longrightarrow> vault_wf (fold f xs v)"
  by (induction xs arbitrary: v) simp_all

lemma vault_wf_resolve_all: "vault_wf v \<Longrightarrow> vault_wf (resolve_all lib v)"
  unfolding resolve_all_def
  by (intro vault_wf_fold vault_wf_resolve vault_wf_providers [where g = "\<lambda>_. []"]) simp_all

lemma hm_wf_decrypt_all: "hm_wf (decrypt_all lib key blobs)"
proof -
  have "hm_wf acc \<Longrightarrow> hm_wf (fold (\<lambda>(service, blob) m.
      case open_credential lib key blob of Some cred \<Rightarrow> AList.update service cred m | None \<Rightarrow> m) blobs acc)" for acc
    by (induction blobs arbitrary: acc) (auto simp: hm_wf_update split: option.splits)
  then show ?thesis by (simp add: decrypt_all_def)
qed

lemma vault_wf_amD: "vault_wf v \<Longrightarrow> am_wf (va_accounts v)"
  by (simp add: vault_wf_def)

lemma vault_wf_add: "vault_wf v \<Longrightarrow> vault_wf (fst (vault_add_account lib io cfg v))"
  using am_wf_add [of "(va_accounts v, va_accounts_file v)" "vl_toml lib" "io_accounts_writable io" cfg]
  by (auto simp: vault_add_account_def dest: vault_wf_amD intro!: vault_wf_accounts split: prod.splits)

text \<open>Unlocking.\<close>

lemma vault_wf_tail:
  assumes "vault_wf v"
  shows "vault_wf (fst (unlock_tail lib io key v))"
proof -
  let ?cs = "decrypt_all lib key (get_all_credential_blobs (va_store v))"
  let ?v1 = "case map_of ?cs ''twitter'' of Some c \<Rightarrow> if is_x c then v\<lparr>va_x_credentials := Some c\<rparr> else v | None \<Rightarrow> v"
  have "vault_wf ?v1" using assms by (auto intro: vault_wf_x split: option.splits)
  then have v2: "vault_wf (?v1\<lparr>va_credentials := ?cs\<rparr>)" by (rule vault_wf_credentials) (rule hm_wf_decrypt_all)
  then show ?thesis
    using assms
    by (auto simp: unlock_tail_def Let_def vault_wf_locked split: option.splits sum.splits
        intro!: vault_wf_resolve_all vault_wf_add vault_wf_accounts am_wf_load)
qed

lemma vault_wf_bound: "vault_wf v \<Longrightarrow> vault_wf (bound_with lib io key v)"
  by (simp add: bound_with_def vault_wf_store vault_wf_def [of v])

lemma vault_wf_answer: "vault_wf (fst r) \<Longrightarrow> vault_wf (answer_then_announce m w l r)"
  by (simp add: answer_then_announce_def Let_def)

lemma vault_wf_unlock: "vault_wf v \<Longrightarrow> vault_wf (handle_unlock lib io key w v)"
  by (simp add: handle_unlock_def unlock_inner_cases vault_wf_answer vault_wf_tail)

lemma vault_wf_bind: "vault_wf v \<Longrightarrow> vault_wf (handle_bind_keystore lib io key w v)"
  by (simp add: handle_bind_keystore_def bind_inner_cases vault_wf_answer vault_wf_tail vault_wf_bound)

lemma vault_wf_fail: "vault_wf v \<Longrightarrow> vault_wf (fail_save w m v)"
  by (simp add: fail_save_def)

lemma vault_wf_save_tail:
  assumes "vault_wf v"
  shows "vault_wf (save_credential_tail lib io service cred key w l v)"
proof -
  let ?v1 = "if is_x cred \<and> service = ''twitter'' then v\<lparr>va_x_credentials := Some cred\<rparr> else v"
  let ?v2 = "case cred of ApiKey k \<Rightarrow> resolve_account_provider lib service (Some k) ?v1 | _ \<Rightarrow> ?v1"
  have "vault_wf ?v1" using assms by (auto intro: vault_wf_x)
  then have "vault_wf ?v2" by (cases cred) (simp_all add: vault_wf_resolve)
  then have "vault_wf (fst (unlock_tail lib io key ?v2))" by (rule vault_wf_tail)
  then show ?thesis
    unfolding save_credential_tail_def Let_def
    by (cases "unlock_tail lib io key ?v2"; cases "snd (unlock_tail lib io key ?v2)") (simp_all add: vault_wf_fail)
qed

lemma vault_wf_save:
  assumes "vault_wf v"
  shows "vault_wf (handle_save_credential lib io service blob key w v)"
proof (cases "saves lib io blob key v")
  case True
  have "store_wf (va_store v)" using assms by (simp add: vault_wf_def)
  then show ?thesis by (simp add: save_cases(1) [OF True] vault_wf_save_tail vault_wf_store assms)
next
  case False
  then show ?thesis using save_cases(2) [OF False] vault_wf_fail [OF assms] by metis
qed

text \<open>Credentials, accounts and the client ACL.\<close>

lemma vault_wf_remove_credential: "vault_wf v \<Longrightarrow> vault_wf (handle_remove_credential io service v)"
  by (auto simp: handle_remove_credential_def Let_def vault_wf_def accounts_mirrored_def vault_reply_with_def vault_daemon_def
      hm_wf_delete split: option.splits)

lemma vault_wf_add_account: "vault_wf v \<Longrightarrow> vault_wf (handle_add_account lib io name prov url streaming attempts cs rs ts v)"
  by (simp add: handle_add_account_def Let_def case_prod_unfold vault_wf_resolve vault_wf_add
      split: option.splits service_credential.splits)

lemma vault_wf_remove_account:
  assumes "vault_wf v"
  shows "vault_wf (handle_remove_account lib io name v)"
proof -
  obtain m fl r where a: "am_remove (vl_toml lib) (io_accounts_writable io) name (va_accounts v, va_accounts_file v) = (m, fl, r)"
    by (cases "am_remove (vl_toml lib) (io_accounts_writable io) name (va_accounts v, va_accounts_file v)")
  have "am_wf m" using am_wf_remove [of "(va_accounts v, va_accounts_file v)"] vault_wf_amD [OF assms] a by (metis fst_conv)
  then show ?thesis
    by (simp add: handle_remove_account_def a Let_def vault_wf_providers vault_wf_accounts assms hm_wf_delete)
qed

lemma vault_wf_reload: "vault_wf v \<Longrightarrow> vault_wf (handle_accounts_reload lib io v)"
  by (auto simp: handle_accounts_reload_def Let_def split: option.splits
      intro!: vault_wf_fold vault_wf_resolve vault_wf_drop vault_wf_accounts am_wf_load)

lemma set_map_filter: "y \<in> set (List.map_filter g xs) \<Longrightarrow> \<exists>x \<in> set xs. g x = Some y"
  by (induction xs) (auto simp: map_filter_simps split: option.splits)

lemma acl_parse_length: "acl_parse lib text = Some acl \<Longrightarrow> key \<in> set acl \<Longrightarrow> length key = 32"
  by (auto simp: acl_parse_def split: sum.splits if_splits dest!: set_map_filter)

lemma acl_reload_length:
  "\<forall>key \<in> set acl. length key = 32 \<Longrightarrow> key \<in> set (acl_reload lib fl acl) \<Longrightarrow> length key = 32"
  by (auto simp: acl_reload_def split: text_file.splits option.splits if_splits dest: acl_parse_length)

lemma vault_wf_acl: "vault_wf v \<Longrightarrow> \<forall>key \<in> set acl. length key = 32 \<Longrightarrow> vault_wf (v\<lparr>va_acl := Some acl\<rparr>)"
  by (simp add: vault_wf_def accounts_mirrored_def)

lemma vault_wf_aclD: "vault_wf v \<Longrightarrow> va_acl v = Some acl \<Longrightarrow> \<forall>key \<in> set acl. length key = 32"
  by (simp add: vault_wf_def)

lemma vault_wf_acl_reload: "vault_wf v \<Longrightarrow> vault_wf (handle_acl_reload lib v)"
  by (auto simp: handle_acl_reload_def split: option.splits intro!: vault_wf_acl dest: vault_wf_aclD acl_reload_length)

lemma vault_wf_acl_add: "vault_wf v \<Longrightarrow> vault_wf (handle_acl_add lib io pubkey v)"
proof -
  assume v: "vault_wf v"
  have "vault_wf (fst (acl_add_inner lib io pubkey v))"
    using v by (auto simp: acl_add_inner_def Let_def split: option.splits sum.splits prod.splits
        intro!: vault_wf_acl dest: vault_wf_aclD acl_reload_length)
  then show ?thesis by (simp add: handle_acl_add_def case_prod_unfold split: sum.splits)
qed

lemma vault_wf_lock: "vault_wf v \<Longrightarrow> vault_wf (vault_handle_lock reply v)"
proof -
  assume "vault_wf v"
  then have "vault_wf (v\<lparr>va_credentials := [], va_x_credentials := None\<rparr>)"
    by (simp add: vault_wf_def accounts_mirrored_def)
  then show ?thesis
    using broadcast_key_core(3)
    by (simp add: vault_handle_lock_def handle_lock_def Let_def vault_wf_def accounts_mirrored_def reply_to_def key_core_def)
qed



section \<open>Enrolling a client\<close>

text \<open>
  What enrolling a client key does. A key that is already authorized changes nothing and is answered
  with the number of clients. A new key is appended to the file, which is then read again: if it
  parses, exactly the keys of the file are authorized; if it does not parse, the old keys stay in force.
  In both cases the answer is a success with the number of keys in force, so with a damaged file a client
  is told that a key was enrolled which is not authorized.
\<close>

lemma acl_add_outcome:
  assumes "va_acl v = Some acl" and "vl_base64_decode lib (trim pubkey) = Inr key" and "length key = 32"
    and "va_acl_file v = TextFile text" and "io_acl_append io = None"
    and "v' = handle_acl_add lib io pubkey v"
  shows "if key \<in> set acl
    then va_acl v' = Some acl \<and> va_acl_file v' = TextFile text \<and> va_replies v' = va_replies v @ [CountReply (Inr (of_nat (length acl)))]
    else va_acl_file v' = TextFile (text @ acl_entry lib key)
      \<and> va_acl v' = Some (case acl_parse lib (text @ acl_entry lib key) of Some fresh \<Rightarrow> fresh | None \<Rightarrow> acl)
      \<and> va_replies v' = va_replies v @ [CountReply (Inr (of_nat (length (the (va_acl v')))))]"
  using assms by (simp add: handle_acl_add_def acl_add_inner_def append_key_locked_def acl_reload_def Let_def
      vault_reply_with_def vault_daemon_def split: option.splits)

lemma acl_add_outcome_witness:
  "let v = demo_vault\<lparr>va_acl := Some [], va_acl_file := TextFile ''damaged''\<rparr>;
       v' = handle_acl_add demo_lib demo_io (replicate 32 CHR ''a'') v
   in va_acl v' = Some [] \<and> va_replies v' = [CountReply (Inr 0)]"
proof -
  let ?v = "demo_vault\<lparr>va_acl := Some [], va_acl_file := TextFile ''damaged''\<rparr>"
  have t: "trim (replicate 32 CHR ''a'') = replicate 32 CHR ''a''" by code_simp
  have "vl_base64_decode demo_lib (trim (replicate 32 CHR ''a'')) = Inr (bytes_of_string (replicate 32 CHR ''a''))"
    by (simp only: t) (simp add: demo_lib_def)
  moreover have "acl_parse demo_lib s = None" for s by (simp add: acl_parse_def demo_lib_def)
  ultimately show ?thesis
    using acl_add_outcome [of ?v "[]" demo_lib "replicate 32 CHR ''a''" "bytes_of_string (replicate 32 CHR ''a'')"
        "''damaged''" demo_io "handle_acl_add demo_lib demo_io (replicate 32 CHR ''a'') ?v"]
    by (simp add: bytes_of_string_def demo_io_def demo_vault_def Let_def)
qed

end
