(* ===== verification/Wire.thy ===== *)
theory Wire
  imports Text
begin

text \<open>
  The bytes between a client and the daemon: the frames of \<^verbatim>\<open>choreo-proto/src/frame.rs\<close> and
  \<^verbatim>\<open>io.rs\<close> on the Unix socket, and the encrypted fragments of \<^verbatim>\<open>choreo-transport/src/noise.rs\<close> on TCP.
  The MessagePack codec and the cipher are parameters. A stream is the list of bytes that will
  arrive before the peer closes it; a read takes them from the front, and a write appends to what the
  peer will read. A connection whose write fails is given up by its writer thread.
\<close>

section \<open>Reading a stream\<close>

type_synonym stream = "u8 list"

text \<open>\<^verbatim>\<open>Read::read_exact\<close>: \<open>None\<close> when the stream ends first.\<close>

definition read_exact :: "nat \<Rightarrow> stream \<Rightarrow> (u8 list \<times> stream) option" where
  "read_exact n s = (if n \<le> length s then Some (take n s, drop n s) else None)"

definition u32_to_be_bytes :: "u32 \<Rightarrow> u8 list" where
  "u32_to_be_bytes w = [ucast (drop_bit 24 w), ucast (drop_bit 16 w), ucast (drop_bit 8 w), ucast w]"

definition u32_from_be_bytes :: "u8 list \<Rightarrow> u32" where
  "u32_from_be_bytes bs = foldl (\<lambda>w b. push_bit 8 w + ucast b) 0 bs"

section \<open>Frames\<close>

definition PROTOCOL_VERSION :: u8 where
  "PROTOCOL_VERSION = 4"

definition MAX_FRAME_SIZE :: nat where
  "MAX_FRAME_SIZE = 32 * 1024 * 1024"

datatype proto_error =
    Codec string
  | FrameTooLarge
  | TrailingBytes
  | UnsupportedVersion u8
  | ProtoIo

text \<open>
  \<open>to_vec\<close> serializes the pair of version and message; \<open>of_slice\<close> reads such a pair from the front of a
  slice and says how many bytes it took.
\<close>

record 'm msgpack =
  to_vec :: "u8 \<times> 'm \<Rightarrow> string + u8 list"
  of_slice :: "u8 list \<Rightarrow> string + ((u8 \<times> 'm) \<times> nat)"

definition encode_inner :: "'m msgpack \<Rightarrow> 'm \<Rightarrow> proto_error + u8 list" where
  "encode_inner mp message =
     (case to_vec mp (PROTOCOL_VERSION, message) of
        Inl e \<Rightarrow> Inl (Codec e)
      | Inr payload \<Rightarrow> if MAX_FRAME_SIZE < length payload then Inl FrameTooLarge else Inr payload)"

definition encode_frame :: "'m msgpack \<Rightarrow> 'm \<Rightarrow> proto_error + u8 list" where
  "encode_frame mp message =
     (case encode_inner mp message of
        Inl e \<Rightarrow> Inl e
      | Inr payload \<Rightarrow>
          if 2 ^ 32 \<le> length payload then Inl FrameTooLarge
          else Inr (u32_to_be_bytes (of_nat (length payload)) @ payload))"

definition version_gate :: "u8 list \<Rightarrow> u8 option" where
  "version_gate payload =
     (case payload of
        tag # version # _ \<Rightarrow> if tag = 0x92 \<and> version \<noteq> PROTOCOL_VERSION then Some version else None
      | _ \<Rightarrow> None)"

definition decode_frame :: "'m msgpack \<Rightarrow> u8 list \<Rightarrow> proto_error + 'm" where
  "decode_frame mp payload =
     (case version_gate payload of
        Some version \<Rightarrow> Inl (UnsupportedVersion version)
      | None \<Rightarrow>
          (case of_slice mp payload of
             Inl e \<Rightarrow> Inl (Codec e)
           | Inr ((version, message), used) \<Rightarrow>
               if used \<noteq> length payload then Inl TrailingBytes
               else if version \<noteq> PROTOCOL_VERSION then Inl (UnsupportedVersion version)
               else Inr message))"

definition read_payload :: "stream \<Rightarrow> (proto_error + u8 list) \<times> stream" where
  "read_payload s =
     (case read_exact 4 s of
        None \<Rightarrow> (Inl ProtoIo, [])
      | Some (len_buf, s1) \<Rightarrow>
          let len = unat (u32_from_be_bytes len_buf)
          in if MAX_FRAME_SIZE < len then (Inl FrameTooLarge, s1)
             else (case read_exact len s1 of
                     None \<Rightarrow> (Inl ProtoIo, [])
                   | Some (payload, s2) \<Rightarrow> (Inr payload, s2)))"

definition read_message :: "'m msgpack \<Rightarrow> stream \<Rightarrow> (proto_error + 'm) \<times> stream" where
  "read_message mp s =
     (case read_payload s of
        (Inl e, s1) \<Rightarrow> (Inl e, s1)
      | (Inr payload, s1) \<Rightarrow> (decode_frame mp payload, s1))"

text \<open>\<^verbatim>\<open>write_message\<close> appends the frame to what was written.\<close>

definition write_message :: "'m msgpack \<Rightarrow> 'm \<Rightarrow> stream \<Rightarrow> (proto_error + unit) \<times> stream" where
  "write_message mp message out =
     (case encode_frame mp message of
        Inl e \<Rightarrow> (Inl e, out)
      | Inr frame \<Rightarrow> (Inr (), out @ frame))"

section \<open>Encrypted fragments\<close>

definition GCM_TAG_LEN :: nat where
  "GCM_TAG_LEN = 16"

definition FRAGMENT_HEADER_LEN :: nat where
  "FRAGMENT_HEADER_LEN = 1"

definition MAX_PLAINTEXT_CHUNK :: nat where
  "MAX_PLAINTEXT_CHUNK = 65535 - GCM_TAG_LEN - FRAGMENT_HEADER_LEN"

definition FRAGMENT_CONTINUATION :: u8 where
  "FRAGMENT_CONTINUATION = 0x01"

datatype transport_error =
    TransportIo
  | Noise string
  | Protocol proto_error
  | InvalidFragment string
  | HandshakeTimeout
  | AuthFailed
  | ConnectionClosed
  | ConfigDirNotFound

text \<open>
  The transport state of the Noise library: \<open>nz_write n p\<close> encrypts as the \<open>n\<close>-th message of this
  direction, \<open>nz_read n c\<close> decrypts as the \<open>n\<close>-th. The counters advance with every success.
\<close>

record noise =
  nz_write :: "nat \<Rightarrow> u8 list \<Rightarrow> string + u8 list"
  nz_read :: "nat \<Rightarrow> u8 list \<Rightarrow> string + u8 list"

text \<open>\<^verbatim>\<open>slice::chunks\<close>\<close>

function chunks :: "nat \<Rightarrow> 'a list \<Rightarrow> 'a list list" where
  "chunks n xs = (if n = 0 \<or> xs = [] then [] else take n xs # chunks n (drop n xs))"
  by pat_completeness auto

termination
  by (relation "measure (\<lambda>(_, xs). length xs)") auto

declare chunks.simps [simp del]

text \<open>The plaintexts of the fragments of a message.\<close>

fun fragment_loop :: "nat \<Rightarrow> u8 list list \<Rightarrow> u8 list list" where
  "fragment_loop remaining [] = []"
| "fragment_loop remaining (chunk # cs) =
     (let more = length chunk < remaining
      in ((if more then FRAGMENT_CONTINUATION else 0) # chunk) # fragment_loop (remaining - length chunk) cs)"

definition fragments :: "u8 list \<Rightarrow> u8 list list" where
  "fragments plaintext =
     (if plaintext = [] then [[0]]
      else fragment_loop (length plaintext) (chunks MAX_PLAINTEXT_CHUNK plaintext))"

text \<open>Encrypting and writing the fragments one by one: counter, what was written, error.\<close>

fun write_fragments :: "noise \<Rightarrow> u8 list list \<Rightarrow> nat \<Rightarrow> stream \<Rightarrow> nat \<times> stream \<times> transport_error option" where
  "write_fragments nz [] n out = (n, out, None)"
| "write_fragments nz (f # fs) n out =
     (case nz_write nz n f of
        Inl e \<Rightarrow> (n, out, Some (Noise e))
      | Inr c \<Rightarrow> write_fragments nz fs (Suc n) (out @ u32_to_be_bytes (of_nat (length c)) @ c))"

record noise_sender =
  ns_active :: bool
  ns_counter :: nat
  ns_out :: stream

definition send_message :: "noise \<Rightarrow> u8 list \<Rightarrow> noise_sender \<Rightarrow> noise_sender \<times> transport_error option" where
  "send_message nz plaintext s =
     (if ns_active s then (s, Some (InvalidFragment ''concurrent send_message on one NoiseStream''))
      else if MAX_FRAME_SIZE < length plaintext
      then (s, Some (InvalidFragment ''outgoing message exceeds the 33554432-byte limit''))
      else case write_fragments nz (fragments plaintext) (ns_counter s) (ns_out s) of
             (n, out, e) \<Rightarrow> (s\<lparr>ns_counter := n, ns_out := out\<rparr>, e))"

text \<open>Receiving: the counter and the stream after it. Each turn of the loop takes four bytes, so it ends.\<close>

function recv_loop ::
  "noise \<Rightarrow> u8 list \<Rightarrow> nat \<Rightarrow> stream \<Rightarrow> (transport_error + u8 list) \<times> nat \<times> stream" where
  "recv_loop nz plaintext n s =
     (case read_exact 4 s of
        None \<Rightarrow> (Inl ConnectionClosed, n, [])
      | Some (len_buf, s1) \<Rightarrow>
          let ct_len = unat (u32_from_be_bytes len_buf)
          in if MAX_PLAINTEXT_CHUNK + FRAGMENT_HEADER_LEN + GCM_TAG_LEN < ct_len
             then (Inl (InvalidFragment (''fragment ciphertext length '' @ decimal ct_len @ '' exceeds the 65535-byte Noise cap'')), n, s1)
             else if MAX_FRAME_SIZE < length plaintext + (ct_len - (GCM_TAG_LEN + FRAGMENT_HEADER_LEN))
             then (Inl (InvalidFragment ''reassembled message exceeds the 33554432-byte limit''), n, s1)
             else (case read_exact ct_len s1 of
                     None \<Rightarrow> (Inl ConnectionClosed, n, [])
                   | Some (ct, s2) \<Rightarrow>
                       (case nz_read nz n ct of
                          Inl e \<Rightarrow> (Inl (Noise e), n, s2)
                        | Inr [] \<Rightarrow>
                            (Inl (InvalidFragment ''fragment carries no authenticated continuation header''), Suc n, s2)
                        | Inr (h # chunk) \<Rightarrow>
                            if and h FRAGMENT_CONTINUATION \<noteq> 0 then recv_loop nz (plaintext @ chunk) (Suc n) s2
                            else (Inr (plaintext @ chunk), Suc n, s2))))"
  by pat_completeness auto

termination
  by (relation "measure (\<lambda>(_, _, _, s). length s)") (auto simp: read_exact_def split: if_splits)

declare recv_loop.simps [simp del]

definition recv_message :: "noise \<Rightarrow> nat \<Rightarrow> stream \<Rightarrow> (transport_error + u8 list) \<times> nat \<times> stream" where
  "recv_message nz n s = recv_loop nz [] n s"

definition send_typed :: "'m msgpack \<Rightarrow> noise \<Rightarrow> 'm \<Rightarrow> noise_sender \<Rightarrow> noise_sender \<times> transport_error option" where
  "send_typed mp nz msg s =
     (case encode_inner mp msg of
        Inl e \<Rightarrow> (s, Some (Protocol e))
      | Inr payload \<Rightarrow> send_message nz payload s)"

definition recv_typed :: "'m msgpack \<Rightarrow> noise \<Rightarrow> nat \<Rightarrow> stream \<Rightarrow> (transport_error + 'm) \<times> nat \<times> stream" where
  "recv_typed mp nz n s =
     (case recv_message nz n s of
        (Inl e, n', s') \<Rightarrow> (Inl e, n', s')
      | (Inr payload, n', s') \<Rightarrow>
          (case decode_frame mp payload of
             Inl e \<Rightarrow> (Inl (Protocol e), n', s')
           | Inr m \<Rightarrow> (Inr m, n', s')))"

text \<open>A reader that takes messages until the first error.\<close>

lemma recv_loop_shorter: "recv_loop nz acc n s = (Inr m, n', s') \<Longrightarrow> length s' < length s"
proof (induction nz acc n s rule: recv_loop.induct)
  case (1 nz acc n s)
  show ?case
    using "1.prems" "1.IH"
    by (subst (asm) recv_loop.simps)
      (fastforce simp: read_exact_def Let_def split: if_splits sum.splits list.splits)
qed

function recv_all :: "noise \<Rightarrow> nat \<Rightarrow> stream \<Rightarrow> u8 list list" where
  "recv_all nz n s =
     (case recv_message nz n s of
        (Inr m, n', s') \<Rightarrow> m # recv_all nz n' s'
      | (Inl _, _) \<Rightarrow> [])"
  by pat_completeness auto

termination
  by (relation "measure (\<lambda>(_, _, s). length s)") (auto simp: recv_message_def recv_loop_shorter dest: recv_loop_shorter [OF sym])

declare recv_all.simps [simp del]

end
