(* ===== verification/Wire_Theorems.thy ===== *)
theory Wire_Theorems
  imports Wire "HOL-Library.Sublist"
begin

text \<open>
  What the two transports promise: messages written are the messages read, in order; and on the encrypted
  one, whatever a peer or an attacker puts on the wire, the messages received are a prefix of the messages
  sent, and no input makes the receiver collect more than the frame limit.
\<close>

section \<open>Bytes\<close>

lemma u32_be_length [simp]: "length (u32_to_be_bytes w) = 4"
  by (simp add: u32_to_be_bytes_def)

lemma u32_be_roundtrip [simp]: "u32_from_be_bytes (u32_to_be_bytes w) = w"
proof -
  have step: "push_bit 8 (drop_bit 8 x) + ucast (ucast x :: u8) = x" for x :: u32
  proof -
    have "ucast (ucast x :: u8) = (take_bit 8 x :: u32)" by (simp add: unsigned_ucast_eq)
    then show ?thesis using bits_ident [of 8 x] by simp
  qed
  have "drop_bit 32 w = 0" by (rule bit_eqI) (simp add: bit_simps)
  then show ?thesis
    using step [of w] step [of "drop_bit 8 w"] step [of "drop_bit 16 w"] step [of "drop_bit 24 w"]
    by (simp add: u32_to_be_bytes_def u32_from_be_bytes_def)
qed

lemma read_exact_append [simp]: "length a = n \<Longrightarrow> read_exact n (a @ s) = Some (a, s)"
  by (simp add: read_exact_def)

lemma u32_len [simp]: "n < 2 ^ 32 \<Longrightarrow> unat (of_nat n :: u32) = n"
  by (simp add: unat_of_nat take_bit_eq_mod)

section \<open>Channels of messages\<close>

text \<open>
  A transport writes \<open>put n m\<close> for the message \<open>m\<close> when the sender's counter is \<open>n\<close>, and has a new counter
  after it; \<open>get n s\<close> reads one message and leaves the rest of the stream.
\<close>

fun put_all :: "(nat \<Rightarrow> 'm \<Rightarrow> (u8 list \<times> nat) option) \<Rightarrow> nat \<Rightarrow> 'm list \<Rightarrow> (u8 list \<times> nat) option" where
  "put_all put n [] = Some ([], n)"
| "put_all put n (m # ms) =
     (case put n m of
        None \<Rightarrow> None
      | Some (bs, n1) \<Rightarrow> (case put_all put n1 ms of None \<Rightarrow> None | Some (bs', n2) \<Rightarrow> Some (bs @ bs', n2)))"

fun get_many :: "(nat \<Rightarrow> stream \<Rightarrow> ('m \<times> nat \<times> stream) option) \<Rightarrow> nat \<Rightarrow> nat \<Rightarrow> stream \<Rightarrow> ('m list \<times> nat \<times> stream) option" where
  "get_many get 0 n s = Some ([], n, s)"
| "get_many get (Suc k) n s =
     (case get n s of
        None \<Rightarrow> None
      | Some (m, n1, s1) \<Rightarrow> (case get_many get k n1 s1 of None \<Rightarrow> None | Some (ms, n2, s2) \<Rightarrow> Some (m # ms, n2, s2)))"

text \<open>The contract: what is put is got.\<close>

locale message_channel =
  fixes put :: "nat \<Rightarrow> 'm \<Rightarrow> (u8 list \<times> nat) option"
    and get :: "nat \<Rightarrow> stream \<Rightarrow> ('m \<times> nat \<times> stream) option"
  assumes get_put: "put n m = Some (bs, n') \<Longrightarrow> get n (bs @ s) = Some (m, n', s)"
begin

lemma get_put_all: "put_all put n ms = Some (bs, n') \<Longrightarrow> get_many get (length ms) n (bs @ s) = Some (ms, n', s)"
proof (induction ms arbitrary: n bs)
  case (Cons m ms)
  then obtain b1 n1 b2 where "put n m = Some (b1, n1)" "put_all put n1 ms = Some (b2, n')" "bs = b1 @ b2"
    by (auto split: option.splits)
  then show ?case using get_put [of n m b1 n1 "b2 @ s"] Cons.IH [of n1 b2] by simp
qed simp

end

section \<open>Frames\<close>

text \<open>
  What the frames need of the codec: decoding inverts encoding and takes all bytes, and a pair is written
  as the array tag followed by the version byte.
\<close>

definition codec_laws :: "'m msgpack \<Rightarrow> bool" where
  "codec_laws mp \<longleftrightarrow> (\<forall>v m payload. to_vec mp (v, m) = Inr payload \<longrightarrow>
     of_slice mp payload = Inr ((v, m), length payload) \<and> (v < 128 \<longrightarrow> (\<exists>r. payload = 0x92 # v # r)))"

lemma decode_encode:
  assumes "codec_laws mp" and "encode_inner mp m = Inr payload"
  shows "decode_frame mp payload = Inr m" and "length payload \<le> MAX_FRAME_SIZE"
proof -
  have e: "to_vec mp (PROTOCOL_VERSION, m) = Inr payload" and l: "length payload \<le> MAX_FRAME_SIZE"
    using assms(2) by (auto simp: encode_inner_def split: sum.splits if_splits)
  have "PROTOCOL_VERSION < 128" by (simp add: PROTOCOL_VERSION_def)
  then obtain r where "of_slice mp payload = Inr ((PROTOCOL_VERSION, m), length payload)" "payload = 0x92 # PROTOCOL_VERSION # r"
    using assms(1) e unfolding codec_laws_def by blast
  then show "decode_frame mp payload = Inr m" by (simp add: decode_frame_def version_gate_def)
  show "length payload \<le> MAX_FRAME_SIZE" by (rule l)
qed

lemma read_written:
  assumes "codec_laws mp" and "encode_frame mp m = Inr frame"
  shows "read_message mp (frame @ s) = (Inr m, s)"
proof -
  from assms(2) obtain payload where p: "encode_inner mp m = Inr payload" "length payload < 2 ^ 32"
      "frame = u32_to_be_bytes (of_nat (length payload)) @ payload"
    by (auto simp: encode_frame_def split: sum.splits if_splits)
  from decode_encode [OF assms(1) p(1)] p(2,3) show ?thesis
    by (simp add: read_message_def read_payload_def)
qed

definition frame_put :: "'m msgpack \<Rightarrow> nat \<Rightarrow> 'm \<Rightarrow> (u8 list \<times> nat) option" where
  "frame_put mp n m = (case write_message mp m [] of (Inr _, out) \<Rightarrow> Some (out, n) | _ \<Rightarrow> None)"

definition frame_get :: "'m msgpack \<Rightarrow> nat \<Rightarrow> stream \<Rightarrow> ('m \<times> nat \<times> stream) option" where
  "frame_get mp n s = (case read_message mp s of (Inr m, s') \<Rightarrow> Some (m, n, s') | _ \<Rightarrow> None)"

interpretation frames: message_channel "\<lambda>n m. if codec_laws mp then frame_put mp n m else None" "frame_get mp" for mp
  by unfold_locales
    (auto simp: frame_put_def frame_get_def write_message_def read_written split: sum.splits prod.splits if_splits)

section \<open>Fragments\<close>

lemma chunks_Nil [simp]: "chunks n [] = []"
  by (simp add: chunks.simps)

lemma concat_chunks: "0 < n \<Longrightarrow> concat (chunks n xs) = xs"
proof (induction n xs rule: chunks.induct)
  case (1 n xs)
  then show ?case by (cases "xs = []") (simp_all add: chunks.simps [of n xs])
qed

lemma chunk_lengths: "c \<in> set (chunks n xs) \<Longrightarrow> c \<noteq> [] \<and> length c \<le> n"
proof (induction n xs rule: chunks.induct)
  case (1 n xs)
  then show ?case by (auto simp: chunks.simps [of n xs] split: if_splits)
qed

text \<open>
  Fragments \<open>fs\<close> that carry the data \<open>d\<close>: each has its header byte, and the header of the last one only says
  that the message ends.
\<close>

fun carries :: "u8 list \<Rightarrow> u8 list list \<Rightarrow> bool" where
  "carries d [] = False"
| "carries d (f # fs) =
     (case f of
        [] \<Rightarrow> False
      | h # c \<Rightarrow>
          if and h FRAGMENT_CONTINUATION \<noteq> 0 then (\<exists>r. d = c @ r \<and> carries r fs) else fs = [] \<and> d = c)"

lemma loop_carries:
  assumes "cs \<noteq> []" and "\<forall>c \<in> set cs. c \<noteq> []"
  shows "carries (concat cs) (fragment_loop (length (concat cs)) cs)"
  using assms
proof (induction cs)
  case (Cons c cs)
  show ?case
  proof (cases "cs = []")
    case True
    then show ?thesis by (simp add: Let_def FRAGMENT_CONTINUATION_def)
  next
    case False
    then have "0 < length (concat cs)" using Cons.prems by (cases cs) auto
    then show ?thesis using Cons False by (simp add: Let_def FRAGMENT_CONTINUATION_def)
  qed
qed simp

lemma chunk_pos: "0 < MAX_PLAINTEXT_CHUNK"
  by (simp add: MAX_PLAINTEXT_CHUNK_def GCM_TAG_LEN_def FRAGMENT_HEADER_LEN_def)

lemma fragments_carry: "carries d (fragments d)"
proof (cases "d = []")
  case True
  then show ?thesis by (simp add: fragments_def FRAGMENT_CONTINUATION_def)
next
  case False
  have c: "concat (chunks MAX_PLAINTEXT_CHUNK d) = d" by (rule concat_chunks [OF chunk_pos])
  then have "chunks MAX_PLAINTEXT_CHUNK d \<noteq> []" using False by auto
  then show ?thesis
    using loop_carries [of "chunks MAX_PLAINTEXT_CHUNK d"] chunk_lengths [of _ MAX_PLAINTEXT_CHUNK d] c False
    by (auto simp: fragments_def)
qed

lemma fragment_sizes: "f \<in> set (fragments d) \<Longrightarrow> length f \<le> MAX_PLAINTEXT_CHUNK + FRAGMENT_HEADER_LEN"
proof -
  have "f \<in> set (fragment_loop r cs) \<Longrightarrow> \<exists>c \<in> set cs. length f = Suc (length c)" for r cs
    by (induction cs arbitrary: r) (auto simp: Let_def)
  then show "f \<in> set (fragments d) \<Longrightarrow> length f \<le> MAX_PLAINTEXT_CHUNK + FRAGMENT_HEADER_LEN"
    using chunk_lengths [of _ MAX_PLAINTEXT_CHUNK d]
    by (auto simp: fragments_def FRAGMENT_HEADER_LEN_def split: if_splits) fastforce
qed

section \<open>The encrypted channel\<close>

text \<open>What the channel needs of the cipher to work: it inverts, and the tag has its length.\<close>

definition cipher_laws :: "noise \<Rightarrow> bool" where
  "cipher_laws nz \<longleftrightarrow> (\<forall>n p c. nz_write nz n p = Inr c \<longrightarrow> nz_read nz n c = Inr p \<and> length c = length p + GCM_TAG_LEN)"

lemma write_fragments_append:
  "write_fragments nz fs n (a @ b) = (case write_fragments nz fs n b of (n', bs, e) \<Rightarrow> (n', a @ bs, e))"
  by (induction fs arbitrary: n b) (simp_all split: sum.splits)

lemma write_fragments_Cons:
  assumes "write_fragments nz (f # fs) n [] = (n', bs, None)"
  obtains c bs' where "nz_write nz n f = Inr c" and "bs = u32_to_be_bytes (of_nat (length c)) @ c @ bs'"
    and "write_fragments nz fs (Suc n) [] = (n', bs', None)"
proof -
  obtain c where c: "nz_write nz n f = Inr c" using assms by (auto split: sum.splits)
  with assms write_fragments_append [of nz fs "Suc n" "u32_to_be_bytes (of_nat (length c)) @ c" "[]"]
  show thesis using that [OF c] by (auto split: prod.splits)
qed

lemma max_ct: "MAX_PLAINTEXT_CHUNK + FRAGMENT_HEADER_LEN + GCM_TAG_LEN = 65535"
  by (simp add: MAX_PLAINTEXT_CHUNK_def GCM_TAG_LEN_def FRAGMENT_HEADER_LEN_def)

lemma recv_written:
  assumes "cipher_laws nz"
  shows "write_fragments nz fs n [] = (n', bs, None) \<Longrightarrow> carries d fs
    \<Longrightarrow> \<forall>f \<in> set fs. length f \<le> MAX_PLAINTEXT_CHUNK + FRAGMENT_HEADER_LEN
    \<Longrightarrow> length acc + length d \<le> MAX_FRAME_SIZE
    \<Longrightarrow> recv_loop nz acc n (bs @ s) = (Inr (acc @ d), n', s)"
proof (induction fs arbitrary: n bs d acc)
  case (Cons f fs)
  obtain c bs' where w: "nz_write nz n f = Inr c" "bs = u32_to_be_bytes (of_nat (length c)) @ c @ bs'"
      "write_fragments nz fs (Suc n) [] = (n', bs', None)"
    using write_fragments_Cons [OF Cons.prems(1)] .
  obtain h ch where f: "f = h # ch" using Cons.prems(2) by (auto split: list.splits)
  have r: "nz_read nz n c = Inr f" "length c = length ch + 1 + GCM_TAG_LEN"
    using assms w(1) f by (auto simp: cipher_laws_def)
  have small: "length c \<le> MAX_PLAINTEXT_CHUNK + FRAGMENT_HEADER_LEN + GCM_TAG_LEN" using Cons.prems(3) r(2) f by simp
  then have l: "unat (of_nat (length c) :: u32) = length c" unfolding max_ct by (intro u32_len) simp
  have d: "length ch \<le> length d" using Cons.prems(2) f by (auto split: if_splits)
  have fit: "\<not> MAX_FRAME_SIZE < length acc + (length c - (GCM_TAG_LEN + FRAGMENT_HEADER_LEN))"
    using r(2) d Cons.prems(4) by (simp add: FRAGMENT_HEADER_LEN_def)
  have step: "recv_loop nz acc n (bs @ s) =
      (if and h FRAGMENT_CONTINUATION \<noteq> 0 then recv_loop nz (acc @ ch) (Suc n) (bs' @ s) else (Inr (acc @ ch), Suc n, bs' @ s))"
    using small fit by (subst recv_loop.simps) (simp add: w(2) l r(1) f not_less Let_def)
  show ?case
  proof (cases "and h FRAGMENT_CONTINUATION = 0")
    case True
    then have "fs = []" "d = ch" using Cons.prems(2) f by auto
    then show ?thesis using step True w(3) by simp
  next
    case False
    then obtain r where "d = ch @ r" "carries r fs" using Cons.prems(2) f by auto
    then show ?thesis using step False Cons.IH [OF w(3), of r "acc @ ch"] Cons.prems(3,4) by simp
  qed
qed simp

lemma recv_sent:
  assumes "cipher_laws nz" and "send_message nz d s = (s', None)"
  shows "\<exists>bs. ns_out s' = ns_out s @ bs \<and> recv_message nz (ns_counter s) (bs @ rest) = (Inr d, ns_counter s', rest)"
proof -
  obtain n' out where w: "write_fragments nz (fragments d) (ns_counter s) (ns_out s) = (n', out, None)"
      "s' = s\<lparr>ns_counter := n', ns_out := out\<rparr>" and l: "length d \<le> MAX_FRAME_SIZE"
    using assms(2) by (auto simp: send_message_def split: if_splits prod.splits)
  from w(1) write_fragments_append [of nz "fragments d" "ns_counter s" "ns_out s" "[]"] obtain bs where
    bs: "write_fragments nz (fragments d) (ns_counter s) [] = (n', bs, None)" "out = ns_out s @ bs"
    by (auto split: prod.splits)
  have "recv_message nz (ns_counter s) (bs @ rest) = (Inr d, n', rest)"
    using recv_written [OF assms(1) bs(1) fragments_carry, of "[]" rest] l fragment_sizes by (simp add: recv_message_def)
  then show ?thesis using w(2) bs(2) by auto
qed

definition noise_put :: "'m msgpack \<Rightarrow> noise \<Rightarrow> nat \<Rightarrow> 'm \<Rightarrow> (u8 list \<times> nat) option" where
  "noise_put mp nz n m =
     (case send_typed mp nz m \<lparr>ns_active = False, ns_counter = n, ns_out = []\<rparr> of
        (s, None) \<Rightarrow> Some (ns_out s, ns_counter s)
      | (_, Some _) \<Rightarrow> None)"

definition noise_get :: "'m msgpack \<Rightarrow> noise \<Rightarrow> nat \<Rightarrow> stream \<Rightarrow> ('m \<times> nat \<times> stream) option" where
  "noise_get mp nz n s = (case recv_typed mp nz n s of (Inr m, n', s') \<Rightarrow> Some (m, n', s') | (Inl _, _) \<Rightarrow> None)"

lemma noise_get_put:
  assumes "codec_laws mp" and "cipher_laws nz" and "noise_put mp nz n m = Some (bs, n')"
  shows "noise_get mp nz n (bs @ s) = Some (m, n', s)"
proof -
  let ?s = "\<lparr>ns_active = False, ns_counter = n, ns_out = []\<rparr>"
  obtain payload s' where p: "encode_inner mp m = Inr payload" "send_message nz payload ?s = (s', None)"
      "bs = ns_out s'" "n' = ns_counter s'"
    using assms(3) by (auto simp: noise_put_def send_typed_def split: sum.splits prod.splits option.splits)
  from recv_sent [OF assms(2) p(2), of s] p(3,4) have "recv_message nz n (bs @ s) = (Inr payload, n', s)" by simp
  then show ?thesis using decode_encode(1) [OF assms(1) p(1)] by (simp add: noise_get_def recv_typed_def)
qed

interpretation noise: message_channel
  "\<lambda>n m. if codec_laws mp \<and> cipher_laws nz then noise_put mp nz n m else None" "noise_get mp nz" for mp nz
  by unfold_locales (simp add: noise_get_put split: if_splits)

text \<open>Sending fails only for the codec, for a message over the limit, or when the cipher refuses.\<close>

definition cipher_accepts :: "noise \<Rightarrow> bool" where
  "cipher_accepts nz \<longleftrightarrow> (\<forall>n p. length p \<le> MAX_PLAINTEXT_CHUNK + FRAGMENT_HEADER_LEN \<longrightarrow> (\<exists>c. nz_write nz n p = Inr c))"

lemma write_fragments_ok:
  "cipher_accepts nz \<Longrightarrow> \<forall>f \<in> set fs. length f \<le> MAX_PLAINTEXT_CHUNK + FRAGMENT_HEADER_LEN \<Longrightarrow>
   \<exists>n' out'. write_fragments nz fs n out = (n', out', None)"
proof (induction fs arbitrary: n out)
  case (Cons f fs)
  then obtain c where "nz_write nz n f = Inr c" unfolding cipher_accepts_def by (meson list.set_intros(1))
  then show ?case using Cons by simp
qed simp

lemma noise_put_ok:
  assumes "cipher_accepts nz" and "encode_inner mp m = Inr payload"
  shows "noise_put mp nz n m \<noteq> None"
proof -
  have "length payload \<le> MAX_FRAME_SIZE" using assms(2) by (auto simp: encode_inner_def split: sum.splits if_splits)
  moreover obtain n' out' where "write_fragments nz (fragments payload) n [] = (n', out', None)"
    using write_fragments_ok [OF assms(1)] fragment_sizes by blast
  ultimately show ?thesis using assms(2) by (simp add: noise_put_def send_typed_def send_message_def)
qed

lemma put_all_ok: "(\<And>n m. m \<in> set ms \<Longrightarrow> put n m \<noteq> None) \<Longrightarrow> put_all put n ms \<noteq> None"
proof (induction ms arbitrary: n)
  case (Cons m ms)
  obtain bs n1 where "put n m = Some (bs, n1)" using Cons.prems [of m n] by auto
  then show ?case using Cons by (auto split: option.splits)
qed simp

text \<open>
  C14. Messages arrive. Whatever list of messages the codec can encode within the frame limit, both
  transports can write it, and reading as many messages from what was written, followed by anything, gives
  exactly these messages in order and leaves the rest: on the Unix socket with one frame each, and on TCP
  with encrypted fragments, for messages of every length up to the limit, empty ones included.
\<close>

theorem messages_arrive:
  assumes "codec_laws mp" and "cipher_laws nz" and "cipher_accepts nz"
    and "\<forall>m \<in> set ms. \<exists>payload. encode_inner mp m = Inr payload"
  shows "(\<exists>bs n'. put_all (frame_put mp) n ms = Some (bs, n') \<and> get_many (frame_get mp) (length ms) n (bs @ s) = Some (ms, n', s))
    \<and> (\<exists>bs n'. put_all (noise_put mp nz) n ms = Some (bs, n') \<and> get_many (noise_get mp nz) (length ms) n (bs @ s) = Some (ms, n', s))"
proof
  have "frame_put mp k m \<noteq> None" if m: "m \<in> set ms" for k m
  proof -
    from m assms(4) obtain payload where p: "encode_inner mp m = Inr payload" by blast
    then have "length payload < 2 ^ 32" using decode_encode(2) [OF assms(1) p] by (simp add: MAX_FRAME_SIZE_def)
    with p show ?thesis by (simp add: frame_put_def write_message_def encode_frame_def)
  qed
  then obtain bs n' where p: "put_all (frame_put mp) n ms = Some (bs, n')" using put_all_ok [of ms "frame_put mp" n] by auto
  then show "\<exists>bs n'. put_all (frame_put mp) n ms = Some (bs, n') \<and> get_many (frame_get mp) (length ms) n (bs @ s) = Some (ms, n', s)"
    using frames.get_put_all [of mp n ms bs n' s] assms(1) by simp
  have "noise_put mp nz k m \<noteq> None" if m: "m \<in> set ms" for k m
  proof -
    from m assms(4) obtain payload where "encode_inner mp m = Inr payload" by blast
    then show ?thesis by (rule noise_put_ok [OF assms(3)])
  qed
  then obtain bs n' where p: "put_all (noise_put mp nz) n ms = Some (bs, n')" using put_all_ok [of ms "noise_put mp nz" n] by auto
  then show "\<exists>bs n'. put_all (noise_put mp nz) n ms = Some (bs, n') \<and> get_many (noise_get mp nz) (length ms) n (bs @ s) = Some (ms, n', s)"
    using noise.get_put_all [of mp nz n ms bs n' s] assms(1,2) by simp
qed

text \<open>A codec that writes bytes as they are, and a cipher that only adds a tag made of its counter.\<close>

definition demo_codec_mp :: "u8 list msgpack" where
  "demo_codec_mp = \<lparr>to_vec = (\<lambda>(v, m). Inr (0x92 # v # m)),
     of_slice = (\<lambda>p. case p of tag # v # m \<Rightarrow> if tag = 0x92 then Inr ((v, m), length p) else Inl ''tag'' | _ \<Rightarrow> Inl ''short'')\<rparr>"

definition demo_tag :: "nat \<Rightarrow> u8 list" where
  "demo_tag n = replicate 16 (of_nat n)"

definition demo_noise :: noise where
  "demo_noise = \<lparr>nz_write = (\<lambda>n p. Inr (p @ demo_tag n)),
     nz_read = (\<lambda>n c. if 16 \<le> length c \<and> drop (length c - 16) c = demo_tag n then Inr (take (length c - 16) c)
                      else Inl ''decrypt'')\<rparr>"

lemma demo_wire: "codec_laws demo_codec_mp" "cipher_laws demo_noise" "cipher_accepts demo_noise"
  by (auto simp: codec_laws_def cipher_laws_def cipher_accepts_def demo_codec_mp_def demo_noise_def demo_tag_def GCM_TAG_LEN_def)

theorem messages_arrive_witness:
  "\<exists>bs n'. put_all (noise_put demo_codec_mp demo_noise) 0 [[1, 2], []] = Some (bs, n')
     \<and> get_many (noise_get demo_codec_mp demo_noise) 2 0 (bs @ [7]) = Some ([[1, 2], []], n', [7])"
  using messages_arrive [OF demo_wire, of "[[1, 2], []]" 0 "[7]"]
  by (simp add: encode_inner_def demo_codec_mp_def MAX_FRAME_SIZE_def numeral_2_eq_2)

section \<open>A hostile wire\<close>

text \<open>
  What an authenticated cipher with counters guarantees: a ciphertext opens as the \<open>n\<close>-th message only if the
  peer encrypted it as its \<open>n\<close>-th message, and then to what the peer encrypted. \<open>F\<close> are the plaintexts the
  peer encrypted, in order.
\<close>

definition authentic :: "noise \<Rightarrow> u8 list list \<Rightarrow> bool" where
  "authentic nz F \<longleftrightarrow> (\<forall>n c p. nz_read nz n c = Inr p \<longrightarrow> n < length F \<and> F ! n = p)"

text \<open>One turn of the receiving loop that does not fail.\<close>

lemma recv_loop_step:
  assumes "recv_loop nz acc n s = (Inr r, n', s')"
  obtains ct s2 h ch where "nz_read nz n ct = Inr (h # ch)"
    and "length ct \<le> MAX_PLAINTEXT_CHUNK + FRAGMENT_HEADER_LEN + GCM_TAG_LEN"
    and "length acc + (length ct - (GCM_TAG_LEN + FRAGMENT_HEADER_LEN)) \<le> MAX_FRAME_SIZE"
    and "length s2 < length s"
    and "(if and h FRAGMENT_CONTINUATION \<noteq> 0 then recv_loop nz (acc @ ch) (Suc n) s2 else (Inr (acc @ ch), Suc n, s2))
      = (Inr r, n', s')"
proof -
  let ?L = "unat (u32_from_be_bytes (take 4 s))"
  let ?ct = "take ?L (drop 4 s)" and ?s2 = "drop ?L (drop 4 s)"
  from assms obtain h ch where "4 \<le> length s" "?L \<le> length s - 4"
      "?L \<le> MAX_PLAINTEXT_CHUNK + FRAGMENT_HEADER_LEN + GCM_TAG_LEN"
      "length acc + (?L - (GCM_TAG_LEN + FRAGMENT_HEADER_LEN)) \<le> MAX_FRAME_SIZE" "nz_read nz n ?ct = Inr (h # ch)"
      "(if and h FRAGMENT_CONTINUATION \<noteq> 0 then recv_loop nz (acc @ ch) (Suc n) ?s2 else (Inr (acc @ ch), Suc n, ?s2))
        = (Inr r, n', s')"
    by (subst (asm) recv_loop.simps [of nz acc n s])
      (auto simp: Let_def read_exact_def not_less split: option.splits prod.splits if_splits sum.splits list.splits)
  then show thesis by (intro that [of ?ct h ch ?s2]) simp_all
qed

lemma recv_authentic:
  assumes "authentic nz F"
  shows "drop n F = fs @ gs \<Longrightarrow> carries d fs \<Longrightarrow> recv_loop nz acc n s = (Inr r, n', s') \<Longrightarrow>
    r = acc @ d \<and> drop n' F = gs"
proof (induction fs arbitrary: n d acc s)
  case (Cons f fs)
  from recv_loop_step [OF Cons.prems(3)] obtain ct s2 h ch where
    rd: "nz_read nz n ct = Inr (h # ch)"
    and step: "(if and h FRAGMENT_CONTINUATION \<noteq> 0 then recv_loop nz (acc @ ch) (Suc n) s2 else (Inr (acc @ ch), Suc n, s2))
      = (Inr r, n', s')" by metis
  have "F ! n = h # ch" "n < length F" using assms rd by (auto simp: authentic_def)
  then have f: "f = h # ch" "drop (Suc n) F = fs @ gs"
    using Cons.prems(1) by (auto simp: Cons_nth_drop_Suc [symmetric])
  show ?case
  proof (cases "and h FRAGMENT_CONTINUATION = 0")
    case True
    then show ?thesis using step f Cons.prems(2) by auto
  next
    case False
    then obtain d' where "d = ch @ d'" "carries d' fs" using Cons.prems(2) f by auto
    then show ?thesis using step False Cons.IH [OF f(2), of d' "acc @ ch" s2] by simp
  qed
qed simp

lemma recv_needs_fragment:
  "authentic nz F \<Longrightarrow> recv_loop nz acc n s = (Inr r, n', s') \<Longrightarrow> n < length F"
  unfolding authentic_def by (erule recv_loop_step) blast

lemma recv_all_prefix:
  "authentic nz F \<Longrightarrow> drop n F = concat (map fragments es) \<Longrightarrow> prefix (recv_all nz n s) es"
proof (induction nz n s arbitrary: es rule: recv_all.induct)
  case (1 nz n s)
  obtain r n' s' where r: "recv_message nz n s = (r, n', s')" by (cases "recv_message nz n s")
  show ?case
  proof (cases r)
    case (Inl e)
    then show ?thesis using r by (subst recv_all.simps) simp
  next
    case (Inr m)
    then have l: "recv_loop nz [] n s = (Inr m, n', s')" using r by (simp add: recv_message_def)
    from recv_needs_fragment [OF "1.prems"(1) this] "1.prems"(2) obtain d ds where es: "es = d # ds" by (cases es) auto
    have "drop n F = fragments d @ concat (map fragments ds)" using "1.prems"(2) es by simp
    from recv_authentic [OF "1.prems"(1) this fragments_carry l] have m: "m = d" "drop n' F = concat (map fragments ds)"
      by simp_all
    have "prefix (recv_all nz n' s') ds" using "1.IH" [OF r [symmetric] Inr refl "1.prems"(1) m(2)] .
    then show ?thesis using r Inr m(1) es by (subst recv_all.simps) simp
  qed
qed

text \<open>
  C13. Nobody on the wire can change a conversation. Let the peer send the messages \<open>ds\<close> over the encrypted
  transport. Whatever bytes arrive, deleted, inserted, reordered, replayed or cut at any place, the messages
  the receiver accepts before its first error are the first ones of \<open>ds\<close>, complete and in order: no
  message is changed, dropped from the middle, repeated or accepted in part.
\<close>

theorem received_is_prefix:
  assumes "authentic nz (concat (map fragments ds))"
  shows "prefix (recv_all nz 0 s) ds"
  using assms by (rule recv_all_prefix) simp

text \<open>A cipher that opens exactly what was encrypted.\<close>

definition demo_sent :: "u8 list list" where
  "demo_sent = [[1, 2], []]"

definition demo_authentic :: noise where
  "demo_authentic = demo_noise\<lparr>nz_read := (\<lambda>n c.
     if n < length (concat (map fragments demo_sent)) \<and> c = concat (map fragments demo_sent) ! n @ demo_tag n
     then Inr (concat (map fragments demo_sent) ! n) else Inl ''decrypt'')\<rparr>"

theorem received_is_prefix_witness: "prefix (recv_all demo_authentic 0 (u32_to_be_bytes 19 @ [0, 1, 2] @ demo_tag 0 @ [0, 0])) [[1, 2], []]"
proof -
  have "authentic demo_authentic (concat (map fragments demo_sent))"
    by (simp add: authentic_def demo_authentic_def)
  from received_is_prefix [OF this] show ?thesis by (simp add: demo_sent_def)
qed

section \<open>Bounded reassembly\<close>

text \<open>
  No input makes the receiver collect more than the frame limit: whatever bytes arrive, a message
  that is accepted has at most 32 MiB, however many fragments claim to continue it.
\<close>

lemma recv_loop_bounded:
  assumes "\<And>n c p. nz_read nz n c = Inr p \<Longrightarrow> length p + GCM_TAG_LEN \<le> length c"
  shows "recv_loop nz acc n s = (Inr m, n', s') \<Longrightarrow> length m \<le> MAX_FRAME_SIZE"
proof (induction "length s" arbitrary: acc n s rule: less_induct)
  case less
  from recv_loop_step [OF less.prems] obtain ct s2 h ch where
    r: "nz_read nz n ct = Inr (h # ch)" "length acc + (length ct - (GCM_TAG_LEN + FRAGMENT_HEADER_LEN)) \<le> MAX_FRAME_SIZE"
      "length s2 < length s"
    and step: "(if and h FRAGMENT_CONTINUATION \<noteq> 0 then recv_loop nz (acc @ ch) (Suc n) s2 else (Inr (acc @ ch), Suc n, s2))
      = (Inr m, n', s')" by metis
  have "length (acc @ ch) \<le> MAX_FRAME_SIZE" using assms [OF r(1)] r(2) by (simp add: FRAGMENT_HEADER_LEN_def)
  then show ?case using step less.hyps [OF r(3)] by (auto split: if_splits)
qed

lemma reassembly_bounded:
  assumes "\<And>n c p. nz_read nz n c = Inr p \<Longrightarrow> length p + GCM_TAG_LEN \<le> length c"
  shows "\<forall>m \<in> set (recv_all nz n s). length m \<le> MAX_FRAME_SIZE"
  using assms
proof (induction nz n s rule: recv_all.induct)
  case (1 nz n s)
  obtain r n' s' where r: "recv_message nz n s = (r, n', s')" by (cases "recv_message nz n s")
  show ?case
  proof (cases r)
    case (Inl e)
    then show ?thesis using r by (subst recv_all.simps) simp
  next
    case (Inr m)
    then have "length m \<le> MAX_FRAME_SIZE"
      using r recv_loop_bounded [OF "1.prems"] by (simp add: recv_message_def)
    moreover have "\<forall>m \<in> set (recv_all nz n' s'). length m \<le> MAX_FRAME_SIZE"
      using "1.IH" [OF r [symmetric]] Inr "1.prems" by blast
    ultimately show ?thesis using r Inr by (subst recv_all.simps) simp
  qed
qed

end
