(* ===== verification/Handshake.thy ===== *)
theory Handshake
  imports Wire
begin

text \<open>
  How a TCP peer becomes a client: \<^verbatim>\<open>choreo-transport/src/handshake.rs\<close>, the responder's side. The Noise
  library is a parameter; the socket is a script of what the peer does and how long each read or
  write takes, so that the deadlines can be stated. Computing takes no time.
\<close>

section \<open>The socket\<close>

text \<open>
  The next reads find, after a delay, some bytes or an error; no bytes are the end of the stream. The
  next writes take, after a delay, at most so many bytes. Beyond the scripts the peer has closed its
  side and takes everything. \<open>sk_restores\<close>: the calls that clear the timeouts succeed.
\<close>

datatype read_event = Arrives "u8 list" | ReadFails

datatype write_event = Takes nat | WriteFails

record sock =
  sk_now :: nat
  sk_reads :: "(nat \<times> read_event) list"
  sk_writes :: "(nat \<times> write_event) list"
  sk_sent :: "u8 list"
  sk_restores :: bool

text \<open>Milliseconds.\<close>

definition HANDSHAKE_TIMEOUT :: nat where
  "HANDSHAKE_TIMEOUT = 10 * 1000"

definition PREAMBLE_IK :: u8 where
  "PREAMBLE_IK = 0x01"

definition PREAMBLE_XX :: u8 where
  "PREAMBLE_XX = 0x02"

section \<open>Bounded reads and writes\<close>

function read_handshake_exact :: "nat \<Rightarrow> nat \<Rightarrow> u8 list \<Rightarrow> sock \<Rightarrow> (transport_error + u8 list) \<times> sock" where
  "read_handshake_exact deadline len buf s =
     (if len \<le> length buf then (Inr buf, s)
      else let remaining = deadline - sk_now s
           in if remaining = 0 then (Inl HandshakeTimeout, s)
              else case sk_reads s of
                     [] \<Rightarrow> (Inl TransportIo, s)
                   | (d, ev) # rest \<Rightarrow>
                       if remaining \<le> d
                       then (Inl HandshakeTimeout, s\<lparr>sk_now := sk_now s + remaining, sk_reads := (d - remaining, ev) # rest\<rparr>)
                       else case ev of
                              ReadFails \<Rightarrow> (Inl TransportIo, s\<lparr>sk_now := sk_now s + d, sk_reads := rest\<rparr>)
                            | Arrives bs \<Rightarrow>
                                let want = min (len - length buf) 1024;
                                    s' = s\<lparr>sk_now := sk_now s + d,
                                           sk_reads := (if drop want bs = [] then rest else (0, Arrives (drop want bs)) # rest)\<rparr>
                                in if take want bs = [] then (Inl TransportIo, s')
                                   else read_handshake_exact deadline len (buf @ take want bs) s')"
  by pat_completeness auto

termination
  by (relation "measure (\<lambda>(_, len, buf, _). len - length buf)") (auto intro!: diff_less_mono2)

declare read_handshake_exact.simps [simp del]

function write_handshake_all :: "nat \<Rightarrow> u8 list \<Rightarrow> nat \<Rightarrow> sock \<Rightarrow> transport_error option \<times> sock" where
  "write_handshake_all deadline data written s =
     (if length data \<le> written then (None, s)
      else let remaining = deadline - sk_now s
           in if remaining = 0 then (Some HandshakeTimeout, s)
              else case sk_writes s of
                     [] \<Rightarrow> (None, s\<lparr>sk_sent := sk_sent s @ drop written data\<rparr>)
                   | (d, ev) # rest \<Rightarrow>
                       if remaining \<le> d
                       then (Some HandshakeTimeout, s\<lparr>sk_now := sk_now s + remaining, sk_writes := (d - remaining, ev) # rest\<rparr>)
                       else case ev of
                              WriteFails \<Rightarrow> (Some TransportIo, s\<lparr>sk_now := sk_now s + d, sk_writes := rest\<rparr>)
                            | Takes m \<Rightarrow>
                                let n = min m (length data - written);
                                    s' = s\<lparr>sk_now := sk_now s + d, sk_writes := rest,
                                           sk_sent := sk_sent s @ take n (drop written data)\<rparr>
                                in if n = 0 then (Some TransportIo, s')
                                   else write_handshake_all deadline data (written + n) s')"
  by pat_completeness auto

termination
  by (relation "measure (\<lambda>(_, data, written, _). length data - written)") (auto intro!: diff_less_mono2)

declare write_handshake_all.simps [simp del]

definition read_handshake_preamble_with_timeout :: "nat \<Rightarrow> sock \<Rightarrow> (transport_error + u8) \<times> sock" where
  "read_handshake_preamble_with_timeout timeout s =
     (let deadline = sk_now s + timeout
      in case read_handshake_exact deadline 1 [] s of
           (Inl e, s') \<Rightarrow> (Inl e, s')
         | (Inr bs, s') \<Rightarrow> (Inr (bs ! 0), s'))"

definition read_handshake_preamble :: "sock \<Rightarrow> (transport_error + u8) \<times> sock" where
  "read_handshake_preamble s = read_handshake_preamble_with_timeout HANDSHAKE_TIMEOUT s"

section \<open>The Noise library\<close>

text \<open>
  A handshake state is built for a pattern and a secret key, takes messages of the peer, produces messages, knows
  the static key the peer has proved to own, and turns into a transport.
\<close>

record 'h snow =
  build_responder :: "string \<Rightarrow> u8 list \<Rightarrow> string + 'h"
  hs_read :: "'h \<Rightarrow> u8 list \<Rightarrow> string + 'h"
  hs_write :: "'h \<Rightarrow> string + ('h \<times> u8 list)"
  get_remote_static :: "'h \<Rightarrow> u8 list option"
  into_transport_mode :: "'h \<Rightarrow> string + noise"

text \<open>A message of the peer: two bytes of length, then the message.\<close>

definition read_handshake_message ::
  "'h snow \<Rightarrow> nat \<Rightarrow> 'h \<Rightarrow> sock \<Rightarrow> (transport_error + 'h) \<times> sock" where
  "read_handshake_message sn deadline h s =
     (case read_handshake_exact deadline 2 [] s of
        (Inl e, s1) \<Rightarrow> (Inl e, s1)
      | (Inr len_buf, s1) \<Rightarrow>
          let msg_len = unat (len_buf ! 0) * 256 + unat (len_buf ! 1)
          in case read_handshake_exact deadline msg_len [] s1 of
               (Inl e, s2) \<Rightarrow> (Inl e, s2)
             | (Inr rbuf, s2) \<Rightarrow>
                 (case hs_read sn h rbuf of Inl e \<Rightarrow> (Inl (Noise e), s2) | Inr h' \<Rightarrow> (Inr h', s2)))"

definition write_handshake_message ::
  "'h snow \<Rightarrow> nat \<Rightarrow> 'h \<Rightarrow> sock \<Rightarrow> (transport_error + 'h) \<times> sock" where
  "write_handshake_message sn deadline h s =
     (case hs_write sn h of
        Inl e \<Rightarrow> (Inl (Noise e), s)
      | Inr (h', m) \<Rightarrow>
          let n = length m
          in case write_handshake_all deadline ([of_nat (n div 256), of_nat n] @ m) 0 s of
               (Some e, s') \<Rightarrow> (Inl e, s')
             | (None, s') \<Rightarrow> (Inr h', s'))"

definition authorize :: "'h snow \<Rightarrow> (u8 list \<Rightarrow> bool) \<Rightarrow> 'h \<Rightarrow> bool" where
  "authorize sn check_client h =
     (case get_remote_static sn h of None \<Rightarrow> False | Some pk \<Rightarrow> check_client pk)"

text \<open>Clearing the timeouts and handing the transport over.\<close>

definition handshake_complete :: "'h snow \<Rightarrow> 'h \<Rightarrow> sock \<Rightarrow> (transport_error + noise) \<times> sock" where
  "handshake_complete sn h s =
     (if \<not> sk_restores s then (Inl TransportIo, s)
      else case into_transport_mode sn h of Inl e \<Rightarrow> (Inl (Noise e), s) | Inr nz \<Rightarrow> (Inr nz, s))"

definition handshake_responder_with_timeout ::
  "'h snow \<Rightarrow> u8 list \<Rightarrow> (u8 list \<Rightarrow> bool) \<Rightarrow> nat \<Rightarrow> sock \<Rightarrow> (transport_error + noise) \<times> sock" where
  "handshake_responder_with_timeout sn static_sk check_client timeout s =
     (let deadline = sk_now s + timeout
      in case build_responder sn ''Noise_IK_25519_AESGCM_SHA256'' static_sk of
           Inl e \<Rightarrow> (Inl (Noise e), s)
         | Inr h0 \<Rightarrow>
             (case read_handshake_message sn deadline h0 s of
                (Inl e, s1) \<Rightarrow> (Inl e, s1)
              | (Inr h1, s1) \<Rightarrow>
                  if \<not> authorize sn check_client h1 then (Inl AuthFailed, s1)
                  else case write_handshake_message sn deadline h1 s1 of
                         (Inl e, s2) \<Rightarrow> (Inl e, s2)
                       | (Inr h2, s2) \<Rightarrow> handshake_complete sn h2 s2))"

definition handshake_responder ::
  "'h snow \<Rightarrow> u8 list \<Rightarrow> (u8 list \<Rightarrow> bool) \<Rightarrow> sock \<Rightarrow> (transport_error + noise) \<times> sock" where
  "handshake_responder sn static_sk check_client s =
     handshake_responder_with_timeout sn static_sk check_client HANDSHAKE_TIMEOUT s"

definition handshake_responder_xx_with_timeout ::
  "'h snow \<Rightarrow> u8 list \<Rightarrow> (u8 list \<Rightarrow> bool) \<Rightarrow> nat \<Rightarrow> sock \<Rightarrow> (transport_error + noise) \<times> sock" where
  "handshake_responder_xx_with_timeout sn static_sk check_client timeout s =
     (let deadline = sk_now s + timeout
      in case build_responder sn ''Noise_XX_25519_AESGCM_SHA256'' static_sk of
           Inl e \<Rightarrow> (Inl (Noise e), s)
         | Inr h0 \<Rightarrow>
             (case read_handshake_message sn deadline h0 s of
                (Inl e, s1) \<Rightarrow> (Inl e, s1)
              | (Inr h1, s1) \<Rightarrow>
                  (case write_handshake_message sn deadline h1 s1 of
                     (Inl e, s2) \<Rightarrow> (Inl e, s2)
                   | (Inr h2, s2) \<Rightarrow>
                       (case read_handshake_message sn deadline h2 s2 of
                          (Inl e, s3) \<Rightarrow> (Inl e, s3)
                        | (Inr h3, s3) \<Rightarrow>
                            if \<not> authorize sn check_client h3 then (Inl AuthFailed, s3)
                            else handshake_complete sn h3 s3))))"

definition handshake_responder_xx ::
  "'h snow \<Rightarrow> u8 list \<Rightarrow> (u8 list \<Rightarrow> bool) \<Rightarrow> sock \<Rightarrow> (transport_error + noise) \<times> sock" where
  "handshake_responder_xx sn static_sk check_client s =
     handshake_responder_xx_with_timeout sn static_sk check_client HANDSHAKE_TIMEOUT s"

text \<open>What the transport reads after the handshake: everything that arrives before an error or the end.\<close>

fun data_stream :: "(nat \<times> read_event) list \<Rightarrow> stream" where
  "data_stream [] = []"
| "data_stream ((_, ReadFails) # _) = []"
| "data_stream ((_, Arrives bs) # evs) = (if bs = [] then [] else bs @ data_stream evs)"

section \<open>Deadlines\<close>

lemma read_within_deadline:
  "sk_now s \<le> deadline \<Longrightarrow> sk_now (snd (read_handshake_exact deadline len buf s)) \<le> deadline"
proof (induction deadline len buf s rule: read_handshake_exact.induct)
  case (1 deadline len buf s)
  show ?case
    using "1.prems" "1.IH"
    by (subst read_handshake_exact.simps) (auto simp: Let_def split: list.splits read_event.splits)
qed

lemma write_within_deadline:
  "sk_now s \<le> deadline \<Longrightarrow> sk_now (snd (write_handshake_all deadline data written s)) \<le> deadline"
proof (induction deadline data written s rule: write_handshake_all.induct)
  case (1 deadline data written s)
  show ?case
    using "1.prems" "1.IH"
    by (subst write_handshake_all.simps) (auto simp: Let_def split: list.splits write_event.splits)
qed

lemma message_within_deadline:
  assumes "sk_now s \<le> deadline"
  shows "sk_now (snd (read_handshake_message sn deadline h s)) \<le> deadline"
    and "sk_now (snd (write_handshake_message sn deadline h s)) \<le> deadline"
  using assms read_within_deadline [of s deadline 2 "[]"] read_within_deadline [of "snd (read_handshake_exact deadline 2 [] s)" deadline]
    write_within_deadline [of s deadline]
  by (auto simp: read_handshake_message_def write_handshake_message_def Let_def split: sum.splits prod.splits option.splits)
    (metis snd_conv)+

lemma handshake_complete_now [simp]: "sk_now (snd (handshake_complete sn h s)) = sk_now s"
  by (simp add: handshake_complete_def split: sum.splits)

lemma responder_within_deadline:
  "sk_now (snd (handshake_responder_with_timeout sn sk check timeout s)) \<le> sk_now s + timeout"
  "sk_now (snd (handshake_responder_xx_with_timeout sn sk check timeout s)) \<le> sk_now s + timeout"
proof -
  let ?ok = "\<lambda>s'. sk_now s' \<le> sk_now s + timeout"
  have rd: "read_handshake_message sn (sk_now s + timeout) h s' = (r, s'') \<Longrightarrow> ?ok s' \<Longrightarrow> ?ok s''" for h s' r s''
    using message_within_deadline(1) [of s' "sk_now s + timeout" sn h] by simp
  have wr: "write_handshake_message sn (sk_now s + timeout) h s' = (r, s'') \<Longrightarrow> ?ok s' \<Longrightarrow> ?ok s''" for h s' r s''
    using message_within_deadline(2) [of s' "sk_now s + timeout" sn h] by simp
  show "?ok (snd (handshake_responder_with_timeout sn sk check timeout s))"
    by (auto simp: handshake_responder_with_timeout_def Let_def split: sum.splits prod.splits dest: rd wr)
  show "?ok (snd (handshake_responder_xx_with_timeout sn sk check timeout s))"
    by (auto simp: handshake_responder_xx_with_timeout_def Let_def split: sum.splits prod.splits)
      (meson rd wr le_add1)+
qed

text \<open>One turn of the reading loop.\<close>

definition after_read :: "nat \<Rightarrow> nat \<Rightarrow> u8 list \<Rightarrow> (nat \<times> read_event) list \<Rightarrow> sock \<Rightarrow> sock" where
  "after_read want d data rest s =
     s\<lparr>sk_now := sk_now s + d, sk_reads := (if drop want data = [] then rest else (0, Arrives (drop want data)) # rest)\<rparr>"

lemma read_handshake_cases:
  assumes "read_handshake_exact deadline len buf s = (r, s')" and "\<not> len \<le> length buf"
  obtains (late) "r = Inl HandshakeTimeout" and "sk_now s \<le> deadline \<longrightarrow> sk_now s' = deadline"
  | (io) "r = Inl TransportIo"
  | (more) d data rest where "sk_reads s = (d, Arrives data) # rest" and "data \<noteq> []" and "d < deadline - sk_now s"
      and "read_handshake_exact deadline len (buf @ take (min (len - length buf) 1024) data)
             (after_read (min (len - length buf) 1024) d data rest s) = (r, s')"
proof (cases "deadline \<le> sk_now s")
  case True
  then show thesis using assms late by (subst (asm) read_handshake_exact.simps) (simp add: Let_def)
next
  case now: False
  show thesis
  proof (cases "sk_reads s")
    case Nil
    then show thesis using assms now io by (subst (asm) read_handshake_exact.simps) (simp add: Let_def)
  next
    case (Cons e rest)
    obtain d ev where e: "e = (d, ev)" by (cases e)
    show thesis
    proof (cases "deadline - sk_now s \<le> d")
      case True
      then show thesis using assms now Cons e late by (subst (asm) read_handshake_exact.simps) (auto simp: Let_def)
    next
      case d: False
      show thesis
      proof (cases "\<exists>data. ev = Arrives data \<and> data \<noteq> []")
        case True
        then obtain data where data: "ev = Arrives data" "data \<noteq> []" by blast
        define w where "w = min (len - length buf) 1024"
        then have "w \<noteq> 0" using assms(2) by simp
        then have "read_handshake_exact deadline len (buf @ take w data) (after_read w d data rest s) = (r, s')"
          using assms now d
          by (subst (asm) read_handshake_exact.simps)
            (simp add: w_def [symmetric] Let_def Cons e data after_read_def split del: if_split)
        then show thesis using more data d Cons e by (simp add: w_def)
      next
        case False
        then show thesis using assms now d Cons e io
          by (subst (asm) read_handshake_exact.simps) (auto simp: Let_def split: read_event.splits if_splits)
      qed
    qed
  qed
qed

lemma read_shrinks:
  "\<not> len \<le> length buf \<Longrightarrow> data \<noteq> [] \<Longrightarrow>
   length (buf @ take (min (len - length buf) 1024) data) \<le> len
   \<and> len - length (buf @ take (min (len - length buf) 1024) data) < len - length buf"
  by (auto intro!: diff_less_mono2)

lemma after_read_stream:
  "sk_reads s = (d, Arrives data) # rest \<Longrightarrow> data \<noteq> [] \<Longrightarrow>
   data_stream (sk_reads s) = take w data @ data_stream (sk_reads (after_read w d data rest s))"
  by (auto simp: after_read_def append_assoc [symmetric] simp del: append_assoc)

text \<open>A read returns the next bytes of the peer, however they are cut into pieces, and a timeout means the deadline.\<close>

lemma read_takes_next_bytes:
  "length buf \<le> len \<Longrightarrow> read_handshake_exact deadline len buf s = (Inr bs, s') \<Longrightarrow>
   length bs = len \<and> buf @ data_stream (sk_reads s) = bs @ data_stream (sk_reads s')"
proof (induction "len - length buf" arbitrary: buf s rule: less_induct)
  case less
  show ?case
  proof (cases "len \<le> length buf")
    case True
    then show ?thesis using less.prems by (subst (asm) read_handshake_exact.simps) simp
  next
    case False
    from less.prems(2) this show ?thesis
    proof (cases rule: read_handshake_cases)
      case (more d data rest)
      let ?w = "min (len - length buf) 1024"
      from read_shrinks [OF False more(2)]
      have "length (buf @ take ?w data) \<le> len" "len - length (buf @ take ?w data) < len - length buf" by auto
      from less.hyps [OF this(2) this(1) more(4)] after_read_stream [OF more(1,2), of ?w] show ?thesis by simp
    qed simp_all
  qed
qed

lemma timeout_at_deadline:
  "sk_now s \<le> deadline \<Longrightarrow> read_handshake_exact deadline len buf s = (Inl HandshakeTimeout, s') \<Longrightarrow> sk_now s' = deadline"
proof (induction "len - length buf" arbitrary: buf s rule: less_induct)
  case less
  show ?case
  proof (cases "len \<le> length buf")
    case True
    then show ?thesis using less.prems by (subst (asm) read_handshake_exact.simps) simp
  next
    case False
    from less.prems(2) this show ?thesis
    proof (cases rule: read_handshake_cases)
      case late
      then show ?thesis using less.prems(1) by simp
    next
      case (more d data rest)
      let ?w = "min (len - length buf) 1024"
      from read_shrinks [OF False more(2)] have "len - length (buf @ take ?w data) < len - length buf" by simp
      moreover have "sk_now (after_read ?w d data rest s) \<le> deadline" using more(3) by (simp add: after_read_def)
      ultimately show ?thesis using less.hyps more(4) by blast
    qed simp_all
  qed
qed

text \<open>
  C22. Nobody holds the daemon in a handshake. However a peer paces its bytes, and whether or not it reads, the
  wait for the mode byte ends within ten seconds and so does either handshake that follows. A timeout is
  reported only at the deadline; and what a read of the handshake returns is exactly the next bytes
  the peer sent, for every way they are cut into pieces, with nothing lost for the reads after it.
\<close>

theorem handshake_paced:
  "sk_now (snd (read_handshake_preamble s)) \<le> sk_now s + 10 * 1000
   \<and> sk_now (snd (handshake_responder sn sk check s)) \<le> sk_now s + 10 * 1000
   \<and> sk_now (snd (handshake_responder_xx sn sk check s)) \<le> sk_now s + 10 * 1000
   \<and> (\<forall>deadline len. (case read_handshake_exact deadline len [] s of
        (Inr bs, s') \<Rightarrow> length bs = len \<and> data_stream (sk_reads s) = bs @ data_stream (sk_reads s')
      | (Inl e, s') \<Rightarrow> e = HandshakeTimeout \<and> sk_now s \<le> deadline \<longrightarrow> sk_now s' = deadline))"
proof (intro conjI allI)
  have "sk_now (snd (read_handshake_preamble s)) = sk_now (snd (read_handshake_exact (sk_now s + HANDSHAKE_TIMEOUT) 1 [] s))"
    by (simp add: read_handshake_preamble_def read_handshake_preamble_with_timeout_def split: prod.splits sum.splits)
  also have "\<dots> \<le> sk_now s + HANDSHAKE_TIMEOUT" by (rule read_within_deadline) simp
  finally show "sk_now (snd (read_handshake_preamble s)) \<le> sk_now s + 10 * 1000" by (simp add: HANDSHAKE_TIMEOUT_def)
  show "sk_now (snd (handshake_responder sn sk check s)) \<le> sk_now s + 10 * 1000"
    using responder_within_deadline(1) [of sn sk check HANDSHAKE_TIMEOUT s]
    by (simp add: handshake_responder_def HANDSHAKE_TIMEOUT_def)
  show "sk_now (snd (handshake_responder_xx sn sk check s)) \<le> sk_now s + 10 * 1000"
    using responder_within_deadline(2) [of sn sk check HANDSHAKE_TIMEOUT s]
    by (simp add: handshake_responder_xx_def HANDSHAKE_TIMEOUT_def)
  show "case read_handshake_exact deadline len [] s of
      (Inr bs, s') \<Rightarrow> length bs = len \<and> data_stream (sk_reads s) = bs @ data_stream (sk_reads s')
    | (Inl e, s') \<Rightarrow> e = HandshakeTimeout \<and> sk_now s \<le> deadline \<longrightarrow> sk_now s' = deadline" for deadline len
  proof (cases "read_handshake_exact deadline len [] s")
    case (Pair r s')
    show ?thesis
    proof (cases r)
      case (Inl e)
      then show ?thesis using timeout_at_deadline [of s deadline len "[]" s'] Pair by simp
    next
      case (Inr bs)
      then show ?thesis using read_takes_next_bytes [of "[]" len deadline s bs s'] Pair by simp
    qed
  qed
qed

text \<open>A toy library for concrete runs: a message of the peer is its static key, and a tag is sixteen zeros.\<close>

definition demo_cipher :: noise where
  "demo_cipher = \<lparr>nz_write = (\<lambda>_ p. Inr (p @ replicate 16 0)),
     nz_read = (\<lambda>_ c. if length c < 16 then Inl ''decrypt'' else Inr (take (length c - 16) c))\<rparr>"

definition demo_snow :: "u8 list option snow" where
  "demo_snow = \<lparr>build_responder = (\<lambda>_ _. Inr None), hs_read = (\<lambda>_ m. Inr (Some m)), hs_write = (\<lambda>h. Inr (h, [9])),
     get_remote_static = (\<lambda>h. h), into_transport_mode = (\<lambda>_. Inr demo_cipher)\<rparr>"

text \<open>A peer that sends one byte and then nothing for twenty seconds.\<close>

definition slow_peer :: sock where
  "slow_peer = \<lparr>sk_now = 0, sk_reads = [(3, Arrives [1]), (20000, Arrives [0, 5])], sk_writes = [], sk_sent = [], sk_restores = True\<rparr>"

theorem handshake_paced_witness:
  "\<exists>s'. read_handshake_exact 10000 3 [] slow_peer = (Inl HandshakeTimeout, s') \<and> sk_now s' = 10000"
proof -
  have "\<exists>s'. read_handshake_exact 10000 3 [] slow_peer = (Inl HandshakeTimeout, s')"
    by (simp add: read_handshake_exact.simps slow_peer_def)
  then obtain s' where s': "read_handshake_exact 10000 3 [] slow_peer = (Inl HandshakeTimeout, s')" ..
  have paced: "\<forall>deadline len. (case read_handshake_exact deadline len [] slow_peer of
      (Inr bs, s') \<Rightarrow> length bs = len \<and> data_stream (sk_reads slow_peer) = bs @ data_stream (sk_reads s')
    | (Inl e, s') \<Rightarrow> e = HandshakeTimeout \<and> sk_now slow_peer \<le> deadline \<longrightarrow> sk_now s' = deadline)"
    using handshake_paced [of slow_peer demo_snow "[]" "\<lambda>_. False"] by (elim conjE)
  from paced [THEN spec [of _ "10000"], THEN spec [of _ "3"]]
  show ?thesis using s' by (simp add: slow_peer_def)
qed

end
