(* ===== verification/Connection.thy ===== *)
theory Connection
  imports Keystore Handshake
begin

text \<open>
  A client connection: the reading side of \<^verbatim>\<open>choreo-daemon/src/server/connection.rs\<close>. A connection thread reads
  client messages, turns each into commands to the daemon loop or to the attached session, and
  answers through its own queue. What it does to others is recorded, in order, as a list of
  actions; \<open>to_net\<close> performs the writing ones on the queues.
\<close>

section \<open>Messages and state\<close>

text \<open>\<^verbatim>\<open>ClientMessage\<close>\<close>

datatype client_message =
    C_CreateSession "string option" "u64 option" "string option" "context_config option"
      "string option" "string option" "string option"
  | C_ListSessions
  | C_SubscribeSessionsSummary
  | C_UnsubscribeSessionsSummary
  | C_AttachSession u64
  | C_GetSessionState u64
  | C_RunInput u32 "u8 list"
  | C_Cancel u32
  | C_Ping
  | C_GetCredential string
  | C_ListModels
  | C_RefreshModels bool
  | C_SetModel string
  | C_Unlock bytes
  | C_Lock
  | C_BindKeystore bytes
  | C_AddCredential string bytes bytes
  | C_RemoveCredential string
  | C_AclAdd string
  | C_DeleteSession u64
  | C_AddAccount string string "string option" "bool option" "u32 option" "u64 option" "u64 option" "u64 option"
  | C_RemoveAccount string
  | C_ListAccounts
  | C_SetSessionAccount string
  | C_SetReasoningEffort string
  | C_GetReasoningEffort
  | C_Undo
  | C_Redo
  | C_ContinueGeneration u32
  | C_SubscribeAllActivity
  | C_UnsubscribeAllActivity

text \<open>The commands to the daemon loop, by the part of it that handles them.\<close>

datatype conn_request =
    Loop daemon_command
  | Vault vault_command
  | Refresh bool

datatype conn_act =
    ToDaemon conn_request
  | ToSession nat session_command
  | ToWriter daemon_message

text \<open>
  \<^verbatim>\<open>ClientCtx\<close> and what outlives a message. A session is known by the number of its thread; reply
  channels are numbered as they are made.
\<close>

record conn =
  cn_client_id :: u64
  cn_is_unix :: bool
  cn_writer :: sink
  cn_attached_id :: "u64 option"
  cn_attached_tx :: "nat option"
  cn_next_reply :: reply_chan
  cn_acts :: "conn_act list"

text \<open>
  What comes back on the reply channel of a request made while one message is handled; \<open>None\<close> when the channel is
  dropped without an answer. An acknowledgement carries nothing.
\<close>

record answers =
  an_create :: "(string + u64 \<times> nat) option"
  an_attach :: "u64 \<Rightarrow> (string + nat) option"
  an_sessions :: "session_summary list option"
  an_effort :: "string option"
  an_done :: "(string + unit) option"
  an_accounts :: "(string + account_info list) option"
  an_models :: "(string + string list \<times> string option) option"
  an_refreshed :: "(string + usize \<times> usize \<times> refresh_status) option"
  an_credential :: "string option option"
  an_acl :: "(string + nat) option"
  an_exists :: "bool option"

definition gone :: answers where
  "gone = \<lparr>an_create = None, an_attach = (\<lambda>_. None), an_sessions = None, an_effort = None, an_done = None,
    an_accounts = None, an_models = None, an_refreshed = None, an_credential = None, an_acl = None, an_exists = None\<rparr>"

definition act :: "conn_act \<Rightarrow> conn \<Rightarrow> conn" where
  "act a c = c\<lparr>cn_acts := cn_acts c @ [a]\<rparr>"

definition send_to_writer :: "daemon_message \<Rightarrow> conn \<Rightarrow> conn" where
  "send_to_writer msg c = act (ToWriter msg) c"

definition daemon_send :: "daemon_command \<Rightarrow> conn \<Rightarrow> conn" where
  "daemon_send cmd c = act (ToDaemon (Loop cmd)) c"

text \<open>A command with a reply channel of its own.\<close>

definition request_daemon :: "(reply_chan \<Rightarrow> conn_request) \<Rightarrow> conn \<Rightarrow> conn" where
  "request_daemon make_cmd c = act (ToDaemon (make_cmd (cn_next_reply c))) (c\<lparr>cn_next_reply := Suc (cn_next_reply c)\<rparr>)"

text \<open>\<^verbatim>\<open>send_to_writer\<close> on the queues.\<close>

fun to_net :: "sink \<Rightarrow> conn_act \<Rightarrow> net \<Rightarrow> net" where
  "to_net k (ToWriter msg) n = fst (send_accounted k msg n)"
| "to_net k _ n = n"

text \<open>The acceptor registers the queue of a connection before the connection thread exists.\<close>

definition register_client_writer :: "u64 \<Rightarrow> sink \<Rightarrow> bool \<Rightarrow> conn" where
  "register_client_writer client_id k is_unix =
     daemon_send (D_RegisterClientWriter client_id k)
       \<lparr>cn_client_id = client_id, cn_is_unix = is_unix, cn_writer = k, cn_attached_id = None,
        cn_attached_tx = None, cn_next_reply = 0, cn_acts = []\<rparr>"

section \<open>Attaching\<close>

definition switch_attached_session :: "u64 \<Rightarrow> nat \<Rightarrow> conn \<Rightarrow> conn" where
  "switch_attached_session new_session_id session_tx c =
     (let c1 = (case cn_attached_tx c of
                  Some old_tx \<Rightarrow>
                    if Some new_session_id \<noteq> cn_attached_id c then act (ToSession old_tx (Detach (cn_client_id c))) c else c
                | None \<Rightarrow> c);
          c2 = act (ToSession session_tx (Attach (cn_client_id c1) (cn_writer c1))) c1
      in c2\<lparr>cn_attached_tx := Some session_tx, cn_attached_id := Some new_session_id\<rparr>)"

definition handle_client_create_session ::
  "answers \<Rightarrow> string option \<Rightarrow> u64 option \<Rightarrow> string option \<Rightarrow> context_config option \<Rightarrow> string option \<Rightarrow>
   string option \<Rightarrow> string option \<Rightarrow> conn \<Rightarrow> conn \<times> bool" where
  "handle_client_create_session an title parent wd cc account model effort c =
     (let c1 = request_daemon (\<lambda>r. Loop (D_CreateSession title parent wd effort model cc account [] r)) c
      in case an_create an of
           Some (Inr (sid, _)) \<Rightarrow>
             (send_to_writer (Session (Some sid) (SessionCreated title parent wd account model effort)) c1, True)
         | Some (Inl e) \<Rightarrow> (send_to_writer (Session None (SessionFailed ''create_session'' e)) c1, True)
         | None \<Rightarrow> (c1, False))"

definition handle_client_attach_session :: "answers \<Rightarrow> u64 \<Rightarrow> conn \<Rightarrow> conn \<times> bool" where
  "handle_client_attach_session an session_id c =
     (let c1 = request_daemon (\<lambda>r. Loop (D_AttachSession session_id r)) c
      in case an_attach an session_id of
           Some (Inr session_tx) \<Rightarrow>
             (switch_attached_session session_id session_tx
                (send_to_writer (Session (Some session_id) SessionAttached) c1), True)
         | Some (Inl e) \<Rightarrow> (send_to_writer (Session None (SessionFailed ''attach_session'' e)) c1, True)
         | None \<Rightarrow> (c1, False))"

definition handle_client_set_session_account :: "answers \<Rightarrow> string \<Rightarrow> conn \<Rightarrow> conn" where
  "handle_client_set_session_account an name c =
     (case cn_attached_tx c of
        Some tx \<Rightarrow>
          let c1 = request_daemon (\<lambda>r. Loop (D_AccountExists name r)) c
          in (case an_exists an of
                Some True \<Rightarrow> act (ToSession tx (SetAccount name)) c1
              | _ \<Rightarrow> send_to_writer (Session (cn_attached_id c1)
                       (SessionFailed ''set_account'' (''account '' @ [CHR 0x27] @ name @ [CHR 0x27] @ '' not found''))) c1)
      | None \<Rightarrow> send_to_writer (Session None (SessionFailed ''set_account'' ''no session attached'')) c)"

section \<open>Requests with an answer\<close>

definition handle_unlock_sync :: "bytes \<Rightarrow> conn \<Rightarrow> conn" where
  "handle_unlock_sync private_key c = request_daemon (\<lambda>_. Vault (V_Unlock private_key (Some (cn_writer c)))) c"

definition handle_bind_keystore_sync :: "bytes \<Rightarrow> conn \<Rightarrow> conn" where
  "handle_bind_keystore_sync key c = request_daemon (\<lambda>_. Vault (V_BindKeystore key (Some (cn_writer c)))) c"

definition handle_add_credential_sync :: "string \<Rightarrow> bytes \<Rightarrow> bytes \<Rightarrow> conn \<Rightarrow> conn" where
  "handle_add_credential_sync service encrypted_payload unlock_key c =
     request_daemon (\<lambda>_. Vault (V_SaveCredential service encrypted_payload unlock_key (Some (cn_writer c)))) c"

text \<open>Routing an answer: a message for success, one for failure, none when the daemon is gone.\<close>

definition route :: "('a \<Rightarrow> daemon_message) \<Rightarrow> (string \<Rightarrow> daemon_message) \<Rightarrow> (string + 'a) option \<Rightarrow> conn \<Rightarrow> conn" where
  "route ok failed r c =
     (case r of None \<Rightarrow> c | Some (Inr v) \<Rightarrow> send_to_writer (ok v) c | Some (Inl e) \<Rightarrow> send_to_writer (failed e) c)"

definition handle_lock_sync :: "answers \<Rightarrow> conn \<Rightarrow> conn" where
  "handle_lock_sync an c =
     route (\<lambda>_. Locked) LockedError (an_done an) (request_daemon (\<lambda>r. Loop (D_Lock r)) c)"

definition handle_list_models_sync :: "answers \<Rightarrow> u64 option \<Rightarrow> conn \<Rightarrow> conn" where
  "handle_list_models_sync an attached_session_id c =
     route (\<lambda>(models, selected). Models models selected) ModelsFailed (an_models an)
       (request_daemon (\<lambda>r. Loop (D_ListModels attached_session_id r)) c)"

definition handle_refresh_models_sync :: "answers \<Rightarrow> bool \<Rightarrow> conn \<Rightarrow> conn" where
  "handle_refresh_models_sync an force c =
     route (\<lambda>(providers, models, status). ModelsRefreshed providers models status) ModelsRefreshFailed (an_refreshed an)
       (request_daemon (\<lambda>_. Refresh force) c)"

definition handle_get_credential_sync :: "answers \<Rightarrow> string \<Rightarrow> conn \<Rightarrow> conn" where
  "handle_get_credential_sync an service c =
     (let c1 = request_daemon (\<lambda>_. Vault (V_GetCredential service)) c
      in case an_credential an of
           Some (Some key) \<Rightarrow> send_to_writer (Credential service (Some key)) c1
         | Some None \<Rightarrow> send_to_writer (Credential service None) c1
         | None \<Rightarrow> c1)"

definition handle_delete_session_sync :: "answers \<Rightarrow> u64 \<Rightarrow> conn \<Rightarrow> conn" where
  "handle_delete_session_sync an session_id c =
     (let c1 = request_daemon (\<lambda>r. Loop (D_DeleteSession session_id r)) c
      in case an_done an of
           Some (Inl e) \<Rightarrow> send_to_writer (Session (Some session_id) (SessionDeleteFailed e)) c1
         | _ \<Rightarrow> c1)"

definition handle_acl_add_sync :: "answers \<Rightarrow> string \<Rightarrow> conn \<Rightarrow> conn" where
  "handle_acl_add_sync an pubkey c =
     (if \<not> cn_is_unix c
      then send_to_writer (AclAddResult False ''ACL changes are only permitted from local connections'') c
      else route
             (\<lambda>n. AclAddResult True (''client key authorized ('' @ decimal n @ '' client(s) now trusted)''))
             (AclAddResult False) (an_acl an) (request_daemon (\<lambda>_. Vault (V_AclAdd pubkey)) c))"

definition handle_remove_credential_sync :: "answers \<Rightarrow> string \<Rightarrow> conn \<Rightarrow> conn" where
  "handle_remove_credential_sync an service c =
     route (\<lambda>_. CredentialRemoved service) (CredentialRemoveFailed service) (an_done an)
       (request_daemon (\<lambda>_. Vault (V_RemoveCredential service)) c)"

section \<open>The dispatcher\<close>

text \<open>A command for the attached session, or an answer that there is none.\<close>

definition to_attached :: "session_command \<Rightarrow> session_event \<Rightarrow> conn \<Rightarrow> conn" where
  "to_attached cmd failure c =
     (case cn_attached_tx c of
        Some tx \<Rightarrow> act (ToSession tx cmd) c
      | None \<Rightarrow> send_to_writer (Session None failure) c)"

definition to_attached_silently :: "session_command \<Rightarrow> conn \<Rightarrow> conn" where
  "to_attached_silently cmd c = (case cn_attached_tx c of Some tx \<Rightarrow> act (ToSession tx cmd) c | None \<Rightarrow> c)"

definition handle_get_reasoning_effort_sync :: "answers \<Rightarrow> conn \<Rightarrow> conn" where
  "handle_get_reasoning_effort_sync an c =
     (case cn_attached_tx c of
        Some tx \<Rightarrow>
          let c1 = act (ToSession tx (GetReasoningEffort (cn_next_reply c))) (c\<lparr>cn_next_reply := Suc (cn_next_reply c)\<rparr>)
          in (case an_effort an of
                Some effort \<Rightarrow> send_to_writer (Session (cn_attached_id c1) (ReasoningEffortSet effort)) c1
              | None \<Rightarrow> c1)
      | None \<Rightarrow> send_to_writer (Session None (ReasoningEffortSet ''off'')) c)"

text \<open>Keystore, accounts, models and activity; the last message has no handler.\<close>

fun handle_admin_message :: "answers \<Rightarrow> client_message \<Rightarrow> conn \<Rightarrow> conn" where
  "handle_admin_message an (C_Unlock private_key) c = handle_unlock_sync private_key c"
| "handle_admin_message an (C_BindKeystore key) c = handle_bind_keystore_sync key c"
| "handle_admin_message an C_Lock c = handle_lock_sync an c"
| "handle_admin_message an (C_AddCredential service payload key) c = handle_add_credential_sync service payload key c"
| "handle_admin_message an (C_RemoveCredential service) c = handle_remove_credential_sync an service c"
| "handle_admin_message an (C_AclAdd pubkey) c = handle_acl_add_sync an pubkey c"
| "handle_admin_message an C_ListModels c = handle_list_models_sync an (cn_attached_id c) c"
| "handle_admin_message an (C_RefreshModels force) c = handle_refresh_models_sync an force c"
| "handle_admin_message an (C_DeleteSession session_id) c = handle_delete_session_sync an session_id c"
| "handle_admin_message an (C_GetCredential service) c = handle_get_credential_sync an service c"
| "handle_admin_message an (C_AddAccount name prov base_url streaming attempts ct rt tt) c =
     route (\<lambda>_. AccountAdded name) (AccountAddFailed name) (an_done an)
       (request_daemon (\<lambda>_. Vault (V_AddAccount name prov base_url streaming attempts ct rt tt)) c)"
| "handle_admin_message an (C_RemoveAccount name) c =
     route (\<lambda>_. AccountRemoved name) (AccountRemoveFailed name) (an_done an)
       (request_daemon (\<lambda>_. Vault (V_RemoveAccount name)) c)"
| "handle_admin_message an C_ListAccounts c =
     route Accounts AccountListFailed (an_accounts an) (request_daemon (\<lambda>_. Vault V_ListAccounts) c)"
| "handle_admin_message an (C_SetSessionAccount name) c = handle_client_set_session_account an name c"
| "handle_admin_message an C_SubscribeAllActivity c =
     daemon_send (D_RegisterActivitySubscriber (cn_client_id c) (cn_writer c)) c"
| "handle_admin_message an C_UnsubscribeAllActivity c =
     daemon_send (D_UnregisterActivitySubscriber (cn_client_id c)) c"
| "handle_admin_message an _ c = c"

text \<open>Sessions and conversations; the other messages are the group above.\<close>

fun handle_client_message :: "answers \<Rightarrow> client_message \<Rightarrow> conn \<Rightarrow> conn" where
  "handle_client_message an C_ListSessions c =
     (let c1 = request_daemon (\<lambda>r. Loop (D_ListSessions r)) c
      in case an_sessions an of Some sessions \<Rightarrow> send_to_writer (Sessions sessions) c1 | None \<Rightarrow> c1)"
| "handle_client_message an C_SubscribeSessionsSummary c =
     daemon_send (D_RegisterSummarySubscriber (cn_client_id c) (cn_writer c)) c"
| "handle_client_message an C_UnsubscribeSessionsSummary c =
     daemon_send (D_UnregisterSummarySubscriber (cn_client_id c)) c"
| "handle_client_message an (C_RunInput request_id input) c =
     to_attached (RunInput request_id input) (Failed request_id ''no session attached'') c"
| "handle_client_message an (C_Cancel request_id) c =
     (case cn_attached_id c of
        Some session_id \<Rightarrow> daemon_send (D_CancelRequest session_id request_id) c
      | None \<Rightarrow> c)"
| "handle_client_message an C_Undo c = to_attached_silently Undo c"
| "handle_client_message an C_Redo c = to_attached_silently Redo c"
| "handle_client_message an (C_ContinueGeneration request_id) c =
     to_attached (RunInput request_id (map (of_nat \<circ> of_char) ''Continue.'')) (Failed request_id ''no session attached'') c"
| "handle_client_message an C_Ping c = send_to_writer Pong c"
| "handle_client_message an (C_SetModel model) c =
     to_attached (SetModel model) (ModelSelectionFailed model ''no session attached'') c"
| "handle_client_message an (C_SetReasoningEffort effort) c =
     to_attached (SetReasoningEffort effort) (ReasoningEffortSetFailed effort ''no session attached'') c"
| "handle_client_message an C_GetReasoningEffort c = handle_get_reasoning_effort_sync an c"
| "handle_client_message an msg c = handle_admin_message an msg c"

text \<open>\<open>False\<close>: the daemon has gone and the thread ends.\<close>

definition dispatch_client_message :: "answers \<Rightarrow> client_message \<Rightarrow> conn \<Rightarrow> conn \<times> bool" where
  "dispatch_client_message an msg c =
     (case msg of
        C_CreateSession title parent wd cc account model effort \<Rightarrow>
          handle_client_create_session an title parent wd cc account model effort c
      | C_AttachSession session_id \<Rightarrow> handle_client_attach_session an session_id c
      | _ \<Rightarrow> (handle_client_message an msg c, True))"

section \<open>The threads\<close>

definition cleanup_client :: "conn \<Rightarrow> conn" where
  "cleanup_client c =
     (let c1 = (case cn_attached_tx c of Some tx \<Rightarrow> act (ToSession tx (Detach (cn_client_id c))) c | None \<Rightarrow> c)
      in daemon_send (D_ClientDisconnected (cn_client_id c1)) c1)"

lemma read_message_shorter: "read_message mp s = (Inr m, s') \<Longrightarrow> length s' < length s"
  by (auto simp: read_message_def read_payload_def read_exact_def Let_def split: sum.splits if_splits)

lemma recv_typed_shorter: "recv_typed mp nz n s = (Inr m, n', s') \<Longrightarrow> length s' < length s"
  by (auto simp: recv_typed_def recv_message_def split: sum.splits prod.splits dest: recv_loop_shorter)

text \<open>The messages are answered from a list, one entry per message; after its end the daemon is gone.\<close>

definition answer_head :: "answers list \<Rightarrow> answers" where
  "answer_head ans = (case ans of [] \<Rightarrow> gone | an # _ \<Rightarrow> an)"

function client_loop :: "client_message msgpack \<Rightarrow> answers list \<Rightarrow> stream \<Rightarrow> conn \<Rightarrow> conn" where
  "client_loop mp ans s c =
     (case read_message mp s of
        (Inr msg, s') \<Rightarrow>
          (case dispatch_client_message (answer_head ans) msg c of
             (c', True) \<Rightarrow> client_loop mp (tl ans) s' c'
           | (c', False) \<Rightarrow> c')
      | (Inl _, _) \<Rightarrow> c)"
  by pat_completeness auto

termination
  by (relation "measure (\<lambda>(_, _, s, _). length s)") (auto dest: read_message_shorter [OF sym])

declare client_loop.simps [simp del]

function tcp_client_loop :: "client_message msgpack \<Rightarrow> noise \<Rightarrow> nat \<Rightarrow> answers list \<Rightarrow> stream \<Rightarrow> conn \<Rightarrow> conn" where
  "tcp_client_loop mp nz n ans s c =
     (case recv_typed mp nz n s of
        (Inr msg, n', s') \<Rightarrow>
          (case dispatch_client_message (answer_head ans) msg c of
             (c', True) \<Rightarrow> tcp_client_loop mp nz n' (tl ans) s' c'
           | (c', False) \<Rightarrow> c')
      | (Inl _, _) \<Rightarrow> c)"
  by pat_completeness auto

termination
  by (relation "measure (\<lambda>(_, _, _, _, s, _). length s)") (auto dest: recv_typed_shorter [OF sym])

declare tcp_client_loop.simps [simp del]

text \<open>\<open>setup_ok\<close>: the write timeout could be set and the socket cloned.\<close>

definition client_thread :: "client_message msgpack \<Rightarrow> bool \<Rightarrow> answers list \<Rightarrow> stream \<Rightarrow> conn \<Rightarrow> conn" where
  "client_thread mp setup_ok ans s c =
     (if \<not> setup_ok then c else cleanup_client (client_loop mp ans s c))"

definition tcp_client_thread ::
  "client_message msgpack \<Rightarrow> noise \<Rightarrow> bool \<Rightarrow> answers list \<Rightarrow> stream \<Rightarrow> conn \<Rightarrow> conn" where
  "tcp_client_thread mp nz setup_ok ans s c =
     (if \<not> setup_ok then c else cleanup_client (tcp_client_loop mp nz 0 ans s c))"

definition tcp_handshake_and_client_thread ::
  "client_message msgpack \<Rightarrow> 'h snow \<Rightarrow> u8 list \<Rightarrow> (u8 list \<Rightarrow> bool) \<Rightarrow> bool \<Rightarrow> answers list \<Rightarrow> sock \<Rightarrow> conn \<Rightarrow> conn" where
  "tcp_handshake_and_client_thread mp sn transport_sk acl setup_ok ans s c =
     (case read_handshake_preamble s of
        (Inl _, _) \<Rightarrow> daemon_send (D_ClientDisconnected (cn_client_id c)) c
      | (Inr preamble, s1) \<Rightarrow>
          let handshake_result =
                (if preamble = PREAMBLE_IK then Some (handshake_responder sn transport_sk acl s1)
                 else if preamble = PREAMBLE_XX then Some (handshake_responder_xx sn transport_sk acl s1)
                 else None)
          in case handshake_result of
               None \<Rightarrow> daemon_send (D_ClientDisconnected (cn_client_id c)) c
             | Some (Inl _, _) \<Rightarrow> daemon_send (D_ClientDisconnected (cn_client_id c)) c
             | Some (Inr nz, s2) \<Rightarrow> tcp_client_thread mp nz setup_ok ans (data_stream (sk_reads s2)) c)"

end
