(* ===== verification/Connection_Theorems.thy ===== *)
theory Connection_Theorems
  imports Connection Keystore_Theorems "HOL-Library.Sublist"
begin

text \<open>
  What a client connection may do, over both transports. The two reading loops are instances of the
  locale \<open>message_reader\<close>, so that what holds of one dispatched message is carried to whole connections once.
\<close>

section \<open>Both loops at once\<close>

locale message_reader =
  fixes next_msg :: "'s \<Rightarrow> (client_message \<times> 's) option"
    and loop :: "answers list \<Rightarrow> 's \<Rightarrow> conn \<Rightarrow> conn"
    and left :: "'s \<Rightarrow> nat"
  assumes unfold: "loop ans s c =
      (case next_msg s of
         None \<Rightarrow> c
       | Some (msg, s') \<Rightarrow>
           (case dispatch_client_message (answer_head ans) msg c of (c', go) \<Rightarrow> if go then loop (tl ans) s' c' else c'))"
    and shorter: "next_msg s = Some (msg, s') \<Longrightarrow> left s' < left s"
begin

lemma loop_invariant:
  assumes "\<And>an msg c. an = gone \<or> good an \<Longrightarrow> P c \<Longrightarrow> P (fst (dispatch_client_message an msg c))"
    and "\<forall>an \<in> set ans. good an" and "P c"
  shows "P (loop ans s c)"
  using assms(2,3)
proof (induction "left s" arbitrary: ans s c rule: less_induct)
  case less
  have "answer_head ans = gone \<or> good (answer_head ans)"
    using less.prems(1) by (auto simp: answer_head_def split: list.splits)
  note step = assms(1) [OF this less.prems(2)]
  have tl: "\<forall>an \<in> set (tl ans). good an" using less.prems(1) by (cases ans) auto
  show ?case
  proof (cases "next_msg s")
    case None
    then show ?thesis using less.prems(2) unfold [of ans s c] by simp
  next
    case (Some a)
    obtain msg s' where a: "next_msg s = Some (msg, s')" using Some by (cases a) simp
    obtain c' go where d: "dispatch_client_message (answer_head ans) msg c = (c', go)" by (cases "dispatch_client_message (answer_head ans) msg c")
    have c': "P c'" using step [of msg] d by simp
    show ?thesis using less.hyps [OF shorter [OF a] tl c'] c' unfold [of ans s c] by (simp add: a d)
  qed
qed

end

definition unix_next :: "client_message msgpack \<Rightarrow> stream \<Rightarrow> (client_message \<times> stream) option" where
  "unix_next mp s = (case read_message mp s of (Inr m, s') \<Rightarrow> Some (m, s') | (Inl _, _) \<Rightarrow> None)"

definition tcp_next :: "client_message msgpack \<Rightarrow> noise \<Rightarrow> nat \<times> stream \<Rightarrow> (client_message \<times> nat \<times> stream) option" where
  "tcp_next mp nz = (\<lambda>(n, s). case recv_typed mp nz n s of (Inr m, n', s') \<Rightarrow> Some (m, n', s') | (Inl _, _) \<Rightarrow> None)"

interpretation unix: message_reader "unix_next mp" "client_loop mp" length
  by unfold_locales
    (auto simp: unix_next_def client_loop.simps read_message_shorter split: sum.splits prod.splits bool.splits)

interpretation tcp: message_reader "tcp_next mp nz" "\<lambda>ans (n, s). tcp_client_loop mp nz n ans s" "\<lambda>(n, s). length s"
proof
  show "(case s of (n, s) \<Rightarrow> tcp_client_loop mp nz n ans s) c =
      (case tcp_next mp nz s of
         None \<Rightarrow> c
       | Some (msg, s') \<Rightarrow>
           (case dispatch_client_message (answer_head ans) msg c of
              (c', go) \<Rightarrow> if go then (case s' of (n, s) \<Rightarrow> tcp_client_loop mp nz n (tl ans) s) c' else c'))" for ans s c
    by (cases s) (auto simp: tcp_next_def tcp_client_loop.simps split: sum.splits prod.splits bool.splits)
  show "tcp_next mp nz s = Some (msg, s') \<Longrightarrow> (case s' of (n, s) \<Rightarrow> length s) < (case s of (n, s) \<Rightarrow> length s)" for s msg s'
    by (cases s, cases s') (auto simp: tcp_next_def recv_typed_shorter split: sum.splits prod.splits)
qed

section \<open>What a connection may send\<close>

text \<open>
  The part of the two command alphabets that belongs to a client: nothing that speaks for another client or that only
  sessions, watchers and the daemon itself send, and no enrolment from a remote peer.
\<close>

fun session_may :: "u64 \<Rightarrow> sink \<Rightarrow> session_command \<Rightarrow> bool" where
  "session_may i k (Attach c s) = (c = i \<and> s = k)"
| "session_may i k (Detach c) = (c = i)"
| "session_may i k (RunInput _ _) = True"
| "session_may i k (SetModel _) = True"
| "session_may i k (SetAccount _) = True"
| "session_may i k (SetReasoningEffort _) = True"
| "session_may i k (GetReasoningEffort _) = True"
| "session_may i k Undo = True"
| "session_may i k Redo = True"
| "session_may i k _ = False"

fun daemon_may :: "u64 \<Rightarrow> sink \<Rightarrow> daemon_command \<Rightarrow> bool" where
  "daemon_may i k (D_CreateSession _ _ _ _ _ _ _ _ _) = True"
| "daemon_may i k (D_AttachSession _ _) = True"
| "daemon_may i k (D_ListSessions _) = True"
| "daemon_may i k (D_RegisterSummarySubscriber c s) = (c = i \<and> s = k)"
| "daemon_may i k (D_UnregisterSummarySubscriber c) = (c = i)"
| "daemon_may i k (D_RegisterActivitySubscriber c s) = (c = i \<and> s = k)"
| "daemon_may i k (D_UnregisterActivitySubscriber c) = (c = i)"
| "daemon_may i k (D_ClientDisconnected c) = (c = i)"
| "daemon_may i k (D_DeleteSession _ _) = True"
| "daemon_may i k (D_CancelRequest _ _) = True"
| "daemon_may i k (D_Lock _) = True"
| "daemon_may i k (D_ListModels _ _) = True"
| "daemon_may i k (D_AccountExists _ _) = True"
| "daemon_may i k _ = False"

fun vault_may :: "bool \<Rightarrow> sink \<Rightarrow> vault_command \<Rightarrow> bool" where
  "vault_may local k (V_Unlock _ w) = (w = Some k)"
| "vault_may local k (V_BindKeystore _ w) = (w = Some k)"
| "vault_may local k (V_SaveCredential _ _ _ w) = (w = Some k)"
| "vault_may local k (V_RemoveCredential _) = True"
| "vault_may local k (V_GetCredential _) = True"
| "vault_may local k (V_AddAccount _ _ _ _ _ _ _ _) = True"
| "vault_may local k (V_RemoveAccount _) = True"
| "vault_may local k V_ListAccounts = True"
| "vault_may local k (V_AclAdd _) = local"
| "vault_may local k _ = False"

fun may_send :: "bool \<Rightarrow> u64 \<Rightarrow> sink \<Rightarrow> conn_act \<Rightarrow> bool" where
  "may_send local i k (ToWriter _) = True"
| "may_send local i k (ToSession _ cmd) = session_may i k cmd"
| "may_send local i k (ToDaemon (Loop cmd)) = daemon_may i k cmd"
| "may_send local i k (ToDaemon (Vault cmd)) = vault_may local k cmd"
| "may_send local i k (ToDaemon (Refresh _)) = True"

text \<open>The same client, having done more, and nothing it may not do.\<close>

definition acts_within :: "conn \<Rightarrow> conn \<Rightarrow> bool" where
  "acts_within c c' \<longleftrightarrow> cn_client_id c' = cn_client_id c \<and> cn_is_unix c' = cn_is_unix c \<and> cn_writer c' = cn_writer c
     \<and> (\<exists>new. cn_acts c' = cn_acts c @ new \<and> list_all (may_send (cn_is_unix c) (cn_client_id c) (cn_writer c)) new)"

lemma acts_within_refl: "acts_within c c"
  by (simp add: acts_within_def)

lemma acts_within_trans: "acts_within c c' \<Longrightarrow> acts_within c' c'' \<Longrightarrow> acts_within c c''"
  by (auto simp: acts_within_def)

lemma acts_within_act:
  "may_send (cn_is_unix c) (cn_client_id c) (cn_writer c) a \<Longrightarrow> acts_within c (act a c)"
  by (simp add: acts_within_def act_def)

lemmas conn_defs = act_def send_to_writer_def daemon_send_def request_daemon_def route_def to_attached_def
  to_attached_silently_def switch_attached_session_def handle_client_create_session_def handle_client_attach_session_def
  handle_client_set_session_account_def handle_unlock_sync_def handle_bind_keystore_sync_def handle_add_credential_sync_def
  handle_lock_sync_def handle_list_models_sync_def handle_refresh_models_sync_def handle_get_credential_sync_def
  handle_delete_session_sync_def handle_acl_add_sync_def handle_remove_credential_sync_def
  handle_get_reasoning_effort_sync_def

lemma dispatch_within: "acts_within c (fst (dispatch_client_message an msg c))"
  by (cases msg) (simp_all add: dispatch_client_message_def conn_defs acts_within_def Let_def
      split: option.splits sum.splits prod.splits bool.splits)

lemma cleanup_within: "acts_within c (cleanup_client c)"
  by (simp add: cleanup_client_def conn_defs acts_within_def split: option.splits)

lemma loops_carry:
  assumes "\<And>an msg c. an = gone \<or> good an \<Longrightarrow> P c \<Longrightarrow> P (fst (dispatch_client_message an msg c))"
    and "\<forall>an \<in> set ans. good an" and "P c"
  shows "P (client_loop mp ans s c)" and "P (tcp_client_loop mp nz n ans s c)"
  using unix.loop_invariant [OF assms] tcp.loop_invariant [OF assms, where s = "(n, s)"] by simp_all

lemma within_step: "acts_within c c' \<Longrightarrow> acts_within c (fst (dispatch_client_message an msg c'))"
  by (rule acts_within_trans [OF _ dispatch_within])

lemma threads_within:
  "acts_within c (client_thread mp setup_ok ans s c)" "acts_within c (tcp_client_thread mp nz setup_ok ans s c)"
  using loops_carry [where P = "acts_within c" and good = "\<lambda>_. True", OF within_step _ acts_within_refl]
  by (auto simp: client_thread_def tcp_client_thread_def acts_within_refl intro: acts_within_trans [OF _ cleanup_within])

section \<open>Admission\<close>

text \<open>The handshake states a peer can bring the responder to.\<close>

inductive hs_reach :: "'h snow \<Rightarrow> u8 list \<Rightarrow> 'h \<Rightarrow> bool" for sn :: "'h snow" and sk :: "u8 list" where
  hs_built: "build_responder sn pattern sk = Inr h \<Longrightarrow> hs_reach sn sk h"
| hs_received: "hs_reach sn sk h \<Longrightarrow> hs_read sn h m = Inr h' \<Longrightarrow> hs_reach sn sk h'"
| hs_answered: "hs_reach sn sk h \<Longrightarrow> hs_write sn h = Inr (h', m) \<Longrightarrow> hs_reach sn sk h'"

text \<open>
  A transport the ACL admits: it comes from a handshake state in which the peer had proved to own a key that is
  on the list, at most one message of the responder later.
\<close>

definition admitted :: "'h snow \<Rightarrow> u8 list \<Rightarrow> (u8 list \<Rightarrow> bool) \<Rightarrow> noise \<Rightarrow> bool" where
  "admitted sn sk acl nz \<longleftrightarrow>
     (\<exists>h pk h'. hs_reach sn sk h \<and> get_remote_static sn h = Some pk \<and> acl pk
        \<and> (h' = h \<or> (\<exists>m. hs_write sn h = Inr (h', m))) \<and> into_transport_mode sn h' = Inr nz)"

lemma handshake_message_reach:
  assumes "hs_reach sn sk h"
  shows "read_handshake_message sn dl h s = (Inr h', s') \<Longrightarrow> hs_reach sn sk h'"
    and "write_handshake_message sn dl h s = (Inr h', s') \<Longrightarrow> hs_reach sn sk h' \<and> (\<exists>m. hs_write sn h = Inr (h', m))"
  using assms
  by (auto simp: read_handshake_message_def write_handshake_message_def Let_def
      split: sum.splits prod.splits option.splits intro: hs_received hs_answered)

lemma responder_admits:
  "fst (handshake_responder sn sk acl s) = Inr nz \<Longrightarrow> admitted sn sk acl nz"
  "fst (handshake_responder_xx sn sk acl s) = Inr nz \<Longrightarrow> admitted sn sk acl nz"
proof -
  assume "fst (handshake_responder sn sk acl s) = Inr nz"
  then obtain h0 h1 h2 s1 s2 where h: "build_responder sn ''Noise_IK_25519_AESGCM_SHA256'' sk = Inr h0"
      "read_handshake_message sn (sk_now s + HANDSHAKE_TIMEOUT) h0 s = (Inr h1, s1)" "authorize sn acl h1"
      "write_handshake_message sn (sk_now s + HANDSHAKE_TIMEOUT) h1 s1 = (Inr h2, s2)" "into_transport_mode sn h2 = Inr nz"
    by (auto simp: handshake_responder_def handshake_responder_with_timeout_def handshake_complete_def Let_def
        split: sum.splits prod.splits if_splits)
  have h1: "hs_reach sn sk h1" using handshake_message_reach(1) [OF hs_built [OF h(1)] h(2)] .
  with handshake_message_reach(2) [OF h1 h(4)] h(3,5) show "admitted sn sk acl nz"
    by (auto simp: admitted_def authorize_def split: option.splits)
next
  assume "fst (handshake_responder_xx sn sk acl s) = Inr nz"
  then obtain h0 h1 h2 h3 s1 s2 s3 where h: "build_responder sn ''Noise_XX_25519_AESGCM_SHA256'' sk = Inr h0"
      "read_handshake_message sn (sk_now s + HANDSHAKE_TIMEOUT) h0 s = (Inr h1, s1)"
      "write_handshake_message sn (sk_now s + HANDSHAKE_TIMEOUT) h1 s1 = (Inr h2, s2)"
      "read_handshake_message sn (sk_now s + HANDSHAKE_TIMEOUT) h2 s2 = (Inr h3, s3)"
      "authorize sn acl h3" "into_transport_mode sn h3 = Inr nz"
    by (auto simp: handshake_responder_xx_def handshake_responder_xx_with_timeout_def handshake_complete_def Let_def
        split: sum.splits prod.splits if_splits)
  have h1: "hs_reach sn sk h1" using handshake_message_reach(1) [OF hs_built [OF h(1)] h(2)] .
  have h2: "hs_reach sn sk h2" using handshake_message_reach(2) [OF h1 h(3)] by simp
  have "hs_reach sn sk h3" using handshake_message_reach(1) [OF h2 h(4)] .
  with h(5,6) show "admitted sn sk acl nz" by (auto simp: admitted_def authorize_def split: option.splits)
qed

lemma tcp_thread_cases:
  fixes sn :: "'h snow"
  obtains (refused) "tcp_handshake_and_client_thread mp sn sk acl setup_ok ans s c = daemon_send (D_ClientDisconnected (cn_client_id c)) c"
  | (served) nz rest where "admitted sn sk acl nz"
      and "tcp_handshake_and_client_thread mp sn sk acl setup_ok ans s c = tcp_client_thread mp nz setup_ok ans rest c"
proof -
  have "tcp_handshake_and_client_thread mp sn sk acl setup_ok ans s c = daemon_send (D_ClientDisconnected (cn_client_id c)) c
    \<or> (\<exists>nz rest. admitted sn sk acl nz
        \<and> tcp_handshake_and_client_thread mp sn sk acl setup_ok ans s c = tcp_client_thread mp nz setup_ok ans rest c)"
    using responder_admits [of sn sk acl "snd (read_handshake_preamble s)"]
    by (auto simp: tcp_handshake_and_client_thread_def Let_def split: prod.splits sum.splits)
  then show thesis using refused served by blast
qed

section \<open>The client list\<close>

text \<open>The daemon loop serves what a connection sends to it.\<close>

fun serve :: "vault_lib \<Rightarrow> vault_io \<Rightarrow> daemon_ctx \<Rightarrow> conn_act \<Rightarrow> vault \<Rightarrow> vault" where
  "serve lib io ctx (ToDaemon (Vault cmd)) v = vault_step lib io cmd v"
| "serve lib io ctx (ToDaemon (Loop cmd)) v = vault_step lib io (V_Other ctx cmd) v"
| "serve lib io ctx _ v = v"

definition client_list :: "vault \<Rightarrow> bytes list option \<times> text_file" where
  "client_list v = (va_acl v, va_acl_file v)"

lemma client_list_simps [simp]:
  "client_list (vault_daemon f v) = client_list v"
  "client_list (vault_reply_with r v) = client_list v"
  "client_list (send_targeted w m v) = client_list v"
  "client_list (v\<lparr>va_store := st\<rparr>) = client_list v"
  "client_list (v\<lparr>va_credentials := cs\<rparr>) = client_list v"
  "client_list (v\<lparr>va_x_credentials := x\<rparr>) = client_list v"
  "client_list (v\<lparr>va_accounts := am\<rparr>) = client_list v"
  "client_list (v\<lparr>va_accounts_file := fl\<rparr>) = client_list v"
  by (simp_all add: client_list_def vault_reply_with_def send_targeted_def split: option.splits)

lemma resolve_client_list [simp]: "client_list (resolve_account_provider lib name k v) = client_list v"
  by (simp add: resolve_account_provider_def split: option.splits)

lemma resolve_all_client_list [simp]: "client_list (resolve_all lib v) = client_list v"
  unfolding resolve_all_def by (subst fold_keeps [where f = client_list]) simp_all

lemma set_accounts_client_list [simp]: "client_list (set_accounts m v) = client_list v"
  by (simp add: set_accounts_def)

lemma add_client_list [simp]: "client_list (fst (vault_add_account lib io cfg v)) = client_list v"
  by (simp add: vault_add_account_def split: prod.splits)

lemma tail_client_list [simp]: "client_list (fst (unlock_tail lib io key v)) = client_list v"
  by (auto simp: unlock_tail_def Let_def split: option.splits sum.splits)

lemma answer_client_list [simp]: "client_list (answer_then_announce m w l r) = client_list (fst r)"
  by (simp add: answer_then_announce_def Let_def)

lemma save_client_list: "client_list (handle_save_credential lib io service blob key w v) = client_list v"
proof -
  have tail: "client_list (save_credential_tail lib io service cred key w l u) = client_list u" for cred l u
    by (simp add: save_credential_tail_def fail_save_def Let_def case_prod_unfold
        split: option.splits service_credential.splits)
  show ?thesis
    using save_cases [where lib = lib and io = io and service = service and blob = blob and key = key and w = w and v = v]
    by (cases "saves lib io blob key v") (auto simp: tail fail_save_def)
qed

lemma add_account_client_list:
  "client_list (handle_add_account lib io name prov url streaming attempts cs rs ts v) = client_list v"
  by (simp add: handle_add_account_def Let_def case_prod_unfold split: option.splits service_credential.splits)

text \<open>Only an enrolment, and a reload after an edit of the file, can change the list.\<close>

lemma serve_client_list:
  assumes "may_send False i k a"
  shows "client_list (serve lib io ctx a v) = client_list v"
proof (cases a)
  case (ToDaemon r)
  show ?thesis
  proof (cases r)
    case (Loop cmd)
    then show ?thesis by (cases cmd) (simp_all add: ToDaemon vault_handle_lock_def)
  next
    case (Vault cmd)
    with assms show ?thesis
      by (cases cmd)
        (simp_all add: ToDaemon handle_unlock_def unlock_inner_cases handle_bind_keystore_def bind_inner_cases bound_with_def
          save_client_list add_account_client_list handle_remove_credential_def handle_get_credential_def
          handle_remove_account_def handle_list_accounts_def Let_def split: option.splits prod.splits)
  qed (simp add: ToDaemon)
qed simp_all

text \<open>
  C15. What the network can reach. Whatever a TCP peer sends, its connection either is refused, which only
  unregisters it, or is served over a transport that the ACL admits: the peer has proved to own a
  key on the list. Served or not, it sends only commands that belong to a client, in its own name and with its own
  queue, and none of them changes the list of clients the daemon trusts or its file, however the
  daemon loop runs them: trust is given at the machine only.
\<close>

theorem remote_peer_confined:
  assumes "c = register_client_writer i k False"
    and "c' = tcp_handshake_and_client_thread mp sn sk acl setup_ok ans s c"
    and "cn_acts c' = cn_acts c @ new"
  shows "(new = [ToDaemon (Loop (D_ClientDisconnected i))]
        \<or> (\<exists>nz rest. admitted sn sk acl nz \<and> c' = tcp_client_thread mp nz setup_ok ans rest c))
    \<and> list_all (may_send False i k) new
    \<and> (\<forall>a \<in> set new. \<forall>lib io ctx v. client_list (serve lib io ctx a v) = client_list v)"
proof -
  have c: "cn_client_id c = i" "cn_is_unix c = False" "cn_writer c = k"
    by (simp_all add: assms(1) register_client_writer_def daemon_send_def act_def)
  have cases: "acts_within c c' \<and> (new = [ToDaemon (Loop (D_ClientDisconnected i))]
        \<or> (\<exists>nz rest. admitted sn sk acl nz \<and> c' = tcp_client_thread mp nz setup_ok ans rest c))"
  proof (cases rule: tcp_thread_cases [of mp sn sk acl setup_ok ans s c])
    case refused
    then have "c' = act (ToDaemon (Loop (D_ClientDisconnected i))) c" by (simp add: assms(2) c daemon_send_def)
    then show ?thesis using assms(3) acts_within_act [of c "ToDaemon (Loop (D_ClientDisconnected i))"] by (simp add: act_def c)
  next
    case (served nz rest)
    then show ?thesis using threads_within(2) [of c mp nz setup_ok ans rest] by (auto simp: assms(2))
  qed
  then have new: "list_all (may_send False i k) new" using assms(3) c by (simp add: acts_within_def)
  then show ?thesis using cases serve_client_list by (auto simp: list_all_iff)
qed

text \<open>A toy codec: the first byte is the message, the second its argument.\<close>

definition demo_codec_cm :: "client_message msgpack" where
  "demo_codec_cm = \<lparr>to_vec = (\<lambda>_. Inl ''unused''),
     of_slice = (\<lambda>bs.
       if length bs = 2 \<and> bs ! 0 = 1 then Inr ((4, C_AttachSession (ucast (bs ! 1))), 2)
       else if bs = [2] then Inr ((4, C_AclAdd ''key''), 1)
       else Inl ''unknown'')\<rparr>"

text \<open>A trusted peer completes the handshake and then tries to enrol somebody.\<close>

definition demo_bytes :: stream where
  "demo_bytes = [0, 0, 0, 18, 0, 2] @ replicate 16 0"

definition demo_peer :: sock where
  "demo_peer = \<lparr>sk_now = 0, sk_reads = [(0, Arrives [1]), (1, Arrives [0, 1, 5]), (1, Arrives demo_bytes)],
     sk_writes = [], sk_sent = [], sk_restores = True\<rparr>"

definition demo_session :: conn where
  "demo_session = tcp_handshake_and_client_thread demo_codec_cm demo_snow [] (\<lambda>pk. pk = [5]) True [] demo_peer
     (register_client_writer 3 0 False)"

lemma demo_preamble:
  "read_handshake_preamble demo_peer = (Inr 1, demo_peer\<lparr>sk_reads := tl (sk_reads demo_peer)\<rparr>)"
  by (simp add: read_handshake_preamble_def read_handshake_preamble_with_timeout_def read_handshake_exact.simps
      demo_peer_def HANDSHAKE_TIMEOUT_def)

lemma demo_handshake:
  "\<exists>s'. handshake_responder demo_snow [] (\<lambda>pk. pk = [5]) (demo_peer\<lparr>sk_reads := tl (sk_reads demo_peer)\<rparr>) = (Inr demo_cipher, s')
     \<and> data_stream (sk_reads s') = demo_bytes"
  by (simp add: demo_bytes_def handshake_responder_def handshake_responder_with_timeout_def read_handshake_message_def write_handshake_message_def
      read_handshake_exact.simps write_handshake_all.simps authorize_def handshake_complete_def
      demo_snow_def demo_peer_def HANDSHAKE_TIMEOUT_def)

lemma demo_received:
  "recv_typed demo_codec_cm demo_cipher 0 demo_bytes = (Inr (C_AclAdd ''key''), Suc 0, [])"
  "fst (recv_typed demo_codec_cm demo_cipher (Suc 0) []) = Inl ConnectionClosed"
  by (simp_all add: recv_typed_def recv_message_def recv_loop.simps read_exact_def u32_from_be_bytes_def demo_cipher_def
      MAX_PLAINTEXT_CHUNK_def FRAGMENT_HEADER_LEN_def GCM_TAG_LEN_def MAX_FRAME_SIZE_def FRAGMENT_CONTINUATION_def
      decode_frame_def version_gate_def demo_codec_cm_def PROTOCOL_VERSION_def demo_bytes_def)

lemma demo_session_acts:
  "cn_acts demo_session = cn_acts (register_client_writer 3 0 False)
     @ [ToWriter (AclAddResult False ''ACL changes are only permitted from local connections''),
        ToDaemon (Loop (D_ClientDisconnected 3))]"
proof -
  obtain s' where s': "handshake_responder demo_snow [] (\<lambda>pk. pk = [5]) (demo_peer\<lparr>sk_reads := tl (sk_reads demo_peer)\<rparr>) = (Inr demo_cipher, s')"
    "data_stream (sk_reads s') = demo_bytes" using demo_handshake by blast
  obtain r where r: "recv_typed demo_codec_cm demo_cipher (Suc 0) [] = (Inl ConnectionClosed, r)"
    using demo_received(2) by (cases "recv_typed demo_codec_cm demo_cipher (Suc 0) []") simp
  show ?thesis
    by (simp add: demo_session_def tcp_handshake_and_client_thread_def demo_preamble PREAMBLE_IK_def s' tcp_client_thread_def
        tcp_client_loop.simps demo_received(1) r dispatch_client_message_def conn_defs cleanup_client_def register_client_writer_def)
qed

theorem remote_peer_confined_witness:
  "list_all (may_send False 3 0) [ToWriter (AclAddResult False ''ACL changes are only permitted from local connections''),
     ToDaemon (Loop (D_ClientDisconnected 3))]"
  using remote_peer_confined [OF refl demo_session_def demo_session_acts] by blast

end
