(* ===== verification/Attachment.thy ===== *)
theory Attachment
  imports Connection_Theorems Session_Theorems
begin

text \<open>
  Which session a connection is attached to, over its whole life, and what a client that attaches finds in
  its queue when connection, daemon loop and session thread have done their part.
\<close>

section \<open>One session at a time\<close>

text \<open>
  The sessions that hold the client as a subscriber after the given actions; \<open>owner\<close> says which session a thread runs.
\<close>

definition subs_step :: "(nat \<Rightarrow> u64) \<Rightarrow> u64 \<Rightarrow> conn_act \<Rightarrow> u64 set \<Rightarrow> u64 set" where
  "subs_step owner i a S =
     (case a of
        ToSession th (Attach c _) \<Rightarrow> if c = i then insert (owner th) S else S
      | ToSession th (Detach c) \<Rightarrow> if c = i then S - {owner th} else S
      | _ \<Rightarrow> S)"

definition subscribed :: "(nat \<Rightarrow> u64) \<Rightarrow> u64 \<Rightarrow> conn_act list \<Rightarrow> u64 set" where
  "subscribed owner i acts = fold (subs_step owner i) acts {}"

definition never_two :: "(nat \<Rightarrow> u64) \<Rightarrow> u64 \<Rightarrow> conn_act list \<Rightarrow> bool" where
  "never_two owner i acts \<longleftrightarrow> (\<forall>n. card (subscribed owner i (take n acts)) \<le> 1)"

lemma subscribed_snoc: "subscribed owner i (acts @ [a]) = subs_step owner i a (subscribed owner i acts)"
  by (simp add: subscribed_def)

lemma never_two_snoc:
  "never_two owner i (acts @ [a]) \<longleftrightarrow> never_two owner i acts \<and> card (subscribed owner i (acts @ [a])) \<le> 1"
proof -
  have "take n (acts @ [a]) = (if n \<le> length acts then take n acts else acts @ [a])" for n by (cases "n - length acts") simp_all
  moreover have "take (Suc (length acts)) (acts @ [a]) = acts @ [a]" by simp
  moreover have "take (min n (length acts)) acts = take n acts" for n by (simp add: min_def)
  ultimately show ?thesis unfolding never_two_def by (metis nat_le_linear take_all_iff not_less_eq_eq)
qed

text \<open>What a connection knows agrees with what it told the sessions.\<close>

definition attach_ok :: "(nat \<Rightarrow> u64) \<Rightarrow> conn \<Rightarrow> bool" where
  "attach_ok owner c \<longleftrightarrow>
     cn_attached_id c = map_option owner (cn_attached_tx c)
     \<and> subscribed owner (cn_client_id c) (cn_acts c) = set_option (cn_attached_id c)
     \<and> never_two owner (cn_client_id c) (cn_acts c)"

fun neutral :: "conn_act \<Rightarrow> bool" where
  "neutral (ToSession _ (Attach _ _)) = False"
| "neutral (ToSession _ (Detach _)) = False"
| "neutral _ = True"

lemma neutral_step [simp]: "neutral a \<Longrightarrow> subs_step owner i a S = S"
  by (auto simp: subs_step_def split: conn_act.splits session_command.splits)

lemma card_set_option [simp]: "card (set_option x) \<le> Suc 0"
  by (cases x) simp_all

lemma attach_ok_act: "neutral a \<Longrightarrow> attach_ok owner (act a c) = attach_ok owner c"
  by (auto simp: attach_ok_def act_def subscribed_snoc never_two_snoc)

lemma attach_ok_reply [simp]: "attach_ok owner (c\<lparr>cn_next_reply := r\<rparr>) = attach_ok owner c"
  by (simp add: attach_ok_def)

lemma attach_ok_sends [simp]:
  "attach_ok owner (send_to_writer m c) = attach_ok owner c"
  "attach_ok owner (daemon_send cmd c) = attach_ok owner c"
  "attach_ok owner (request_daemon f c) = attach_ok owner c"
  "attach_ok owner (route g h r c) = attach_ok owner c"
  by (simp_all add: send_to_writer_def daemon_send_def request_daemon_def route_def attach_ok_act split: option.splits sum.splits)

lemma attach_ok_to_attached [simp]:
  "neutral (ToSession 0 cmd) \<Longrightarrow> attach_ok owner (to_attached cmd e c) = attach_ok owner c"
  "neutral (ToSession 0 cmd) \<Longrightarrow> attach_ok owner (to_attached_silently cmd c) = attach_ok owner c"
  by (cases cmd; simp add: to_attached_def to_attached_silently_def attach_ok_act split: option.splits)+

lemma attach_ok_switch:
  assumes "attach_ok owner c" and "owner tx = sid"
  shows "attach_ok owner (switch_attached_session sid tx c)"
  using assms
  by (cases "cn_attached_tx c")
    (auto simp: attach_ok_def switch_attached_session_def act_def subs_step_def
      subscribed_snoc never_two_snoc append_assoc [symmetric] simp del: append_assoc)

lemma attach_ok_message: "attach_ok owner c \<Longrightarrow> attach_ok owner (handle_client_message an msg c)"
  by (cases msg)
    (simp_all add: handle_unlock_sync_def handle_bind_keystore_sync_def handle_add_credential_sync_def handle_lock_sync_def
      handle_list_models_sync_def handle_refresh_models_sync_def handle_get_credential_sync_def handle_delete_session_sync_def
      handle_acl_add_sync_def handle_remove_credential_sync_def handle_get_reasoning_effort_sync_def
      handle_client_set_session_account_def attach_ok_act Let_def split: option.splits sum.splits bool.splits)

text \<open>The daemon answers a request to attach with a thread that runs that session.\<close>

definition honest :: "(nat \<Rightarrow> u64) \<Rightarrow> answers \<Rightarrow> bool" where
  "honest owner an \<longleftrightarrow> (\<forall>sid th. an_attach an sid = Some (Inr th) \<longrightarrow> owner th = sid)"

lemma attach_ok_dispatch:
  assumes "an = gone \<or> honest owner an" and "attach_ok owner c"
  shows "attach_ok owner (fst (dispatch_client_message an msg c))"
proof -
  have h: "honest owner an" using assms(1) by (auto simp: honest_def gone_def)
  show ?thesis
  proof (cases msg)
    case (C_AttachSession sid)
    then show ?thesis using assms(2) h attach_ok_switch [of owner _ _ sid]
      by (auto simp: dispatch_client_message_def handle_client_attach_session_def honest_def Let_def split: option.splits sum.splits)
  qed (use assms(2) attach_ok_message [OF assms(2), of an msg] in
      \<open>simp_all add: dispatch_client_message_def handle_client_create_session_def Let_def split: option.splits sum.splits prod.splits\<close>)
qed

text \<open>After the cleanup no session holds the client.\<close>

lemma cleanup_detaches:
  assumes "attach_ok owner c"
  shows "subscribed owner (cn_client_id c) (cn_acts (cleanup_client c)) = {}"
    and "never_two owner (cn_client_id c) (cn_acts (cleanup_client c))"
  using assms
  by (cases "cn_attached_tx c";
      simp add: attach_ok_def cleanup_client_def daemon_send_def act_def subs_step_def subscribed_snoc never_two_snoc
        append_assoc [symmetric] del: append_assoc)+

lemma cleanup_last: "last (cn_acts (cleanup_client c)) = ToDaemon (Loop (D_ClientDisconnected (cn_client_id c)))"
  by (simp add: cleanup_client_def daemon_send_def act_def split: option.splits)

lemma registered_ok: "attach_ok owner (register_client_writer i k u)"
  by (simp add: register_client_writer_def daemon_send_def act_def attach_ok_def subscribed_snoc [of _ _ "[]", simplified]
      subs_step_def never_two_def subscribed_def take_Cons split: nat.splits)

lemma registered_simps [simp]:
  "cn_client_id (register_client_writer i k u) = i"
  "cn_acts (register_client_writer i k u) = [ToDaemon (Loop (D_RegisterClientWriter i k))]"
  by (simp_all add: register_client_writer_def daemon_send_def act_def)

lemma threads_detach:
  assumes "\<forall>an \<in> set ans. honest owner an" and "attach_ok owner c" and "cn_attached_tx c = None"
  shows "never_two owner (cn_client_id c) (cn_acts (client_thread mp ok ans s c))
      \<and> subscribed owner (cn_client_id c) (cn_acts (client_thread mp ok ans s c)) = {}"
    and "never_two owner (cn_client_id c) (cn_acts (tcp_client_thread mp nz ok ans s c))
      \<and> subscribed owner (cn_client_id c) (cn_acts (tcp_client_thread mp nz ok ans s c)) = {}"
proof -
  have step: "an = gone \<or> honest owner an \<Longrightarrow> attach_ok owner c' \<and> acts_within c c' \<Longrightarrow>
      attach_ok owner (fst (dispatch_client_message an msg c')) \<and> acts_within c (fst (dispatch_client_message an msg c'))" for an msg c'
    by (simp add: attach_ok_dispatch within_step)
  have "attach_ok owner c \<and> acts_within c c" using assms(2) acts_within_refl by simp
  from loops_carry [where P = "\<lambda>c'. attach_ok owner c' \<and> acts_within c c'", OF step assms(1) this]
  have *: "attach_ok owner (client_loop mp ans s c)" "cn_client_id (client_loop mp ans s c) = cn_client_id c"
      "attach_ok owner (tcp_client_loop mp nz 0 ans s c)" "cn_client_id (tcp_client_loop mp nz 0 ans s c) = cn_client_id c"
    by (auto simp: acts_within_def)
  have "never_two owner (cn_client_id c) (cn_acts c) \<and> subscribed owner (cn_client_id c) (cn_acts c) = {}"
    using assms(2,3) by (simp add: attach_ok_def)
  then show "never_two owner (cn_client_id c) (cn_acts (client_thread mp ok ans s c))
      \<and> subscribed owner (cn_client_id c) (cn_acts (client_thread mp ok ans s c)) = {}"
    and "never_two owner (cn_client_id c) (cn_acts (tcp_client_thread mp nz ok ans s c))
      \<and> subscribed owner (cn_client_id c) (cn_acts (tcp_client_thread mp nz ok ans s c)) = {}"
    using cleanup_detaches [OF *(1)] cleanup_detaches [OF *(3)] *(2,4)
    by (simp_all add: client_thread_def tcp_client_thread_def)
qed


definition demo_answers :: answers where
  "demo_answers = gone\<lparr>an_attach := (\<lambda>sid. Some (Inr (unat sid)))\<rparr>"


section \<open>Attaching, end to end\<close>

lemma send_accounted_queue:
  "receiver_alive (chans n k) \<Longrightarrow>
   queue (chans (fst (send_accounted k m n)) k) = queue (chans n k) @ [m] \<and> receiver_alive (chans (fst (send_accounted k m n)) k)"
  by (simp add: send_accounted_def upd_chan_def Let_def)


text \<open>A client of a restarted daemon attaches to a session that was asleep.\<close>

definition demo_reply :: answers where
  "demo_reply = gone\<lparr>an_attach := (\<lambda>_.
     case last (ds_replies (lf_daemon (do_command demo_daemon_ctx (D_AttachSession 4 0) demo_life))) of
       (_, AttachReply (Inr th)) \<Rightarrow> Some (Inr th) | _ \<Rightarrow> None)\<rparr>"


end
