(* ===== verification/Server.thy ===== *)
theory Server
  imports Connection_Theorems "HOL-Library.Multiset"
begin

text \<open>
  The server around the connections, \<^verbatim>\<open>choreo-daemon/src/server/lifecycle.rs\<close>: two accept loops, the cap on
  connections, and the order of shutdown. The main thread, the TCP accept thread, the connection
  threads and everybody who sends commands to the loop move in any order; each step is one atomic
  access or one send. Client ids are random 64-bit numbers and are taken not to repeat.
\<close>

section \<open>Threads\<close>

definition MAX_CONCURRENT_CONNECTIONS :: nat where
  "MAX_CONCURRENT_CONNECTIONS = 256"

text \<open>Where an accept loop is; the slot of a connection is held from \<open>Registering\<close> on.\<close>

datatype accept_pc = Checking | Accepting | Rechecking | Taking | Rejecting | Registering | Spawning u64 sink | Stopped

text \<open>The main thread after its accept loop. The flag: the TCP accept thread was seen to end.\<close>

datatype main_pc = Serving | Joining | Notifying bool | Stopping bool | Draining bool

datatype server_cmd = Cmd daemon_command | StopLoop

record server =
  sv_shutdown :: bool
  sv_count :: nat
  sv_unix :: accept_pc
  sv_tcp :: accept_pc
  sv_main :: main_pc
  sv_live :: "(u64 \<times> sink) list"
  sv_ending :: "(u64 \<times> sink) list"
  sv_registered :: "(u64 \<times> sink) list"
  sv_chan :: "server_cmd list"

text \<open>Without a TCP address there is no second accept thread.\<close>

definition run_server_start :: "bool \<Rightarrow> server" where
  "run_server_start tcp =
     \<lparr>sv_shutdown = False, sv_count = 0, sv_unix = Checking, sv_tcp = (if tcp then Checking else Stopped),
      sv_main = Serving, sv_live = [], sv_ending = [], sv_registered = [], sv_chan = []\<rparr>"

definition post :: "daemon_command \<Rightarrow> server \<Rightarrow> server" where
  "post cmd s = s\<lparr>sv_chan := sv_chan s @ [Cmd cmd]\<rparr>"

text \<open>\<^verbatim>\<open>try_take_connection_slot\<close>, its first access: the counter goes up, and the old value decides.\<close>

definition try_take_connection_slot :: "server \<Rightarrow> server \<times> bool" where
  "try_take_connection_slot s =
     (s\<lparr>sv_count := sv_count s + 1\<rparr>, \<not> MAX_CONCURRENT_CONNECTIONS \<le> sv_count s)"

definition release_slot :: "server \<Rightarrow> server" where
  "release_slot s = s\<lparr>sv_count := sv_count s - 1\<rparr>"

inductive accept_step :: "server \<Rightarrow> accept_pc \<Rightarrow> server \<Rightarrow> accept_pc \<Rightarrow> bool" where
  check: "accept_step s Checking s (if sv_shutdown s then Stopped else Accepting)"
| accepted_error: "accept_step s Accepting s Checking"
| accepted: "accept_step s Accepting s Rechecking"
| recheck: "accept_step s Rechecking s (if sv_shutdown s then Stopped else Taking)"
| take_slot: "try_take_connection_slot s = (s', ok) \<Longrightarrow> accept_step s Taking s' (if ok then Registering else Rejecting)"
| rejected: "accept_step s Rejecting (release_slot s) Checking"
| register: "i \<notin> fst ` set (sv_registered s) \<Longrightarrow>
    accept_step s Registering
      (post (D_RegisterClientWriter i k) (s\<lparr>sv_registered := sv_registered s @ [(i, k)]\<rparr>)) (Spawning i k)"
| spawn: "accept_step s (Spawning i k) (s\<lparr>sv_live := (i, k) # sv_live s\<rparr>) Checking"

text \<open>Commands that only the acceptors, the end of a connection and the main thread send.\<close>

fun reserved :: "daemon_command \<Rightarrow> bool" where
  "reserved (D_RegisterClientWriter _ _) = True"
| "reserved (D_ClientDisconnected _) = True"
| "reserved D_BroadcastShuttingDown = True"
| "reserved _ = False"

inductive server_step :: "server \<Rightarrow> server \<Rightarrow> bool" where
  signal: "server_step s (s\<lparr>sv_shutdown := True\<rparr>)"
| unix_step: "accept_step s (sv_unix s) s' pc \<Longrightarrow> server_step s (s'\<lparr>sv_unix := pc\<rparr>)"
| tcp_step: "accept_step s (sv_tcp s) s' pc \<Longrightarrow> server_step s (s'\<lparr>sv_tcp := pc\<rparr>)"
| command: "\<not> reserved cmd \<Longrightarrow> server_step s (post cmd s)"
| disconnect: "(i, k) \<in> set (sv_live s) \<Longrightarrow>
    server_step s (post (D_ClientDisconnected i)
      (s\<lparr>sv_live := remove1 (i, k) (sv_live s), sv_ending := (i, k) # sv_ending s\<rparr>))"
| setup_failed: "(i, k) \<in> set (sv_live s) \<Longrightarrow>
    server_step s (release_slot (s\<lparr>sv_live := remove1 (i, k) (sv_live s)\<rparr>))"
| thread_exit: "(i, k) \<in> set (sv_ending s) \<Longrightarrow>
    server_step s (release_slot (s\<lparr>sv_ending := remove1 (i, k) (sv_ending s)\<rparr>))"
| leave: "sv_main s = Serving \<Longrightarrow> sv_unix s = Stopped \<Longrightarrow> server_step s (s\<lparr>sv_main := Joining\<rparr>)"
| joined: "sv_main s = Joining \<Longrightarrow> sv_tcp s = Stopped \<Longrightarrow> server_step s (s\<lparr>sv_main := Notifying True\<rparr>)"
| abandoned: "sv_main s = Joining \<Longrightarrow> server_step s (s\<lparr>sv_main := Notifying False\<rparr>)"
| broadcast: "sv_main s = Notifying b \<Longrightarrow> server_step s (post D_BroadcastShuttingDown (s\<lparr>sv_main := Stopping b\<rparr>))"
| stop: "sv_main s = Stopping b \<Longrightarrow> server_step s (s\<lparr>sv_main := Draining b, sv_chan := sv_chan s @ [StopLoop]\<rparr>)"

definition server_init :: "server \<Rightarrow> bool" where
  "server_init s \<longleftrightarrow> s = run_server_start True \<or> s = run_server_start False"

text \<open>The command loop: commands in order until it is stopped or nobody can send any more; then every session is told.\<close>

definition teardown :: "daemon_state \<Rightarrow> daemon_state" where
  "teardown d = d\<lparr>ds_active_sessions := [],
     ds_sent := ds_sent d @ map (\<lambda>(_, th). (th, Shutdown)) (ds_active_sessions d)\<rparr>"

fun command_loop :: "(daemon_ctx \<times> server_cmd) list \<Rightarrow> daemon_state \<Rightarrow> daemon_state" where
  "command_loop [] d = teardown d"
| "command_loop ((_, StopLoop) # _) d = teardown d"
| "command_loop ((ctx, Cmd cmd) # cmds) d = command_loop cmds (handle_command ctx cmd d)"

section \<open>Invariants\<close>

text \<open>What an accept loop holds of the counter, and whether it is a slot.\<close>

fun holds :: "accept_pc \<Rightarrow> nat" where
  "holds Registering = 1"
| "holds (Spawning _ _) = 1"
| "holds _ = 0"

fun counted :: "accept_pc \<Rightarrow> nat" where
  "counted Rejecting = 1"
| "counted pc = holds pc"

definition connections :: "server \<Rightarrow> nat" where
  "connections s = length (sv_live s) + length (sv_ending s) + holds (sv_unix s) + holds (sv_tcp s)"

definition slots_ok :: "server \<Rightarrow> bool" where
  "slots_ok s \<longleftrightarrow>
     sv_count s = length (sv_live s) + length (sv_ending s) + counted (sv_unix s) + counted (sv_tcp s)
     \<and> connections s \<le> MAX_CONCURRENT_CONNECTIONS"

lemma holds_le: "holds pc \<le> counted pc"
  by (cases pc) simp_all

lemma length_remove1_Suc: "x \<in> set xs \<Longrightarrow> length xs = Suc (length (remove1 x xs))"
  by (metis One_nat_def Suc_pred length_pos_if_in_set length_remove1)

lemma slots_step: "server_step s s' \<Longrightarrow> slots_ok s \<Longrightarrow> slots_ok s'"
proof (induction rule: server_step.induct)
  case (unix_step s s' pc)
  from unix_step(1) show ?case using unix_step(2) holds_le [of "sv_tcp s"]
    by (cases rule: accept_step.cases)
      (auto simp: slots_ok_def connections_def try_take_connection_slot_def release_slot_def post_def)
next
  case (tcp_step s s' pc)
  from tcp_step(1) show ?case using tcp_step(2) holds_le [of "sv_unix s"]
    by (cases rule: accept_step.cases)
      (auto simp: slots_ok_def connections_def try_take_connection_slot_def release_slot_def post_def)
qed (auto simp: slots_ok_def connections_def post_def release_slot_def dest: length_remove1_Suc)

text \<open>Connections that are registered and have not said goodbye.\<close>

fun spawning :: "accept_pc \<Rightarrow> (u64 \<times> sink) list" where
  "spawning (Spawning i k) = [(i, k)]"
| "spawning _ = []"

definition pending :: "server \<Rightarrow> (u64 \<times> sink) list" where
  "pending s = spawning (sv_unix s) @ spawning (sv_tcp s) @ sv_live s"

definition registrations :: "server_cmd list \<Rightarrow> (u64 \<times> sink) set" where
  "registrations C = {(i, k). Cmd (D_RegisterClientWriter i k) \<in> set C}"

lemma registrations_simps [simp]:
  "registrations [] = {}" "registrations (C @ C') = registrations C \<union> registrations C'"
  by (auto simp: registrations_def)

definition registry :: "(u64 \<times> sink) list \<Rightarrow> (u64 \<times> sink) list \<Rightarrow> server_cmd list \<Rightarrow> bool" where
  "registry P R C \<longleftrightarrow>
     distinct (map fst P) \<and> set P \<subseteq> set R \<and> distinct (map fst R) \<and> registrations C = set R
     \<and> (\<forall>i. Cmd (D_ClientDisconnected i) \<in> set C \<longrightarrow> i \<in> fst ` set R - fst ` set P)"

lemma registry_perm: "registry P R C \<Longrightarrow> mset P' = mset P \<Longrightarrow> registry P' R C"
  using mset_eq_setD [of P' P] mset_eq_imp_distinct_iff [of "map fst P'" "map fst P"] by (simp add: registry_def)

lemma registry_register:
  "registry P R C \<Longrightarrow> i \<notin> fst ` set R \<Longrightarrow> registry ((i, k) # P) (R @ [(i, k)]) (C @ [Cmd (D_RegisterClientWriter i k)])"
  by (auto simp: registry_def image_iff registrations_def)

lemma registry_command:
  "registry P R C \<Longrightarrow> (\<And>i. x \<noteq> Cmd (D_ClientDisconnected i)) \<Longrightarrow> registrations [x] = {} \<Longrightarrow> registry P R (C @ [x])"
  by (auto simp: registry_def)

lemma distinct_fst_remove1:
  "distinct (map fst P) \<Longrightarrow> (i, k) \<in> set P \<Longrightarrow> distinct (map fst (remove1 (i, k) P)) \<and> fst ` set (remove1 (i, k) P) = fst ` set P - {i}"
  by (auto simp: distinct_map set_remove1_eq inj_on_def) (metis fst_conv snd_conv)

lemma registry_drop:
  assumes "registry P R C" and "(i, k) \<in> set P"
  shows "registry (remove1 (i, k) P) R C" and "registry (remove1 (i, k) P) R (C @ [Cmd (D_ClientDisconnected i)])"
proof -
  have P: "distinct (map fst (remove1 (i, k) P))" "fst ` set (remove1 (i, k) P) = fst ` set P - {i}"
    using distinct_fst_remove1 [of P i k] assms by (simp_all add: registry_def)
  have "set (remove1 (i, k) P) \<subseteq> set R" using assms(1) set_remove1_subset by (fastforce simp: registry_def)
  moreover have "i \<in> fst ` set R" using assms by (force simp: registry_def)
  ultimately show "registry (remove1 (i, k) P) R C" "registry (remove1 (i, k) P) R (C @ [Cmd (D_ClientDisconnected i)])"
    using assms(1) P by (auto simp: registry_def registrations_def)
qed

lemma unreserved_registrations: "\<not> reserved cmd \<Longrightarrow> registrations [Cmd cmd] = {} \<and> cmd \<noteq> D_BroadcastShuttingDown"
  by (cases cmd) (simp_all add: registrations_def)

definition registry_ok :: "server \<Rightarrow> bool" where
  "registry_ok s \<longleftrightarrow> registry (pending s) (sv_registered s) (sv_chan s)"

lemma registry_accept:
  assumes "accept_step s pc s' pc'" and "registry (spawning pc @ X @ sv_live s) (sv_registered s) (sv_chan s)"
  shows "registry (spawning pc' @ X @ sv_live s') (sv_registered s') (sv_chan s')"
  using assms
proof (cases rule: accept_step.cases)
  case (spawn i k)
  then show ?thesis using registry_perm [OF assms(2)] by simp
qed (use assms(2) in \<open>auto simp: try_take_connection_slot_def release_slot_def post_def intro: registry_register\<close>)

lemma accept_keeps: "accept_step s pc s' pc' \<Longrightarrow> sv_unix s' = sv_unix s \<and> sv_tcp s' = sv_tcp s \<and> sv_main s' = sv_main s"
  by (cases rule: accept_step.cases) (auto simp: try_take_connection_slot_def release_slot_def post_def)

lemma registry_step: "server_step s s' \<Longrightarrow> registry_ok s \<Longrightarrow> registry_ok s'"
proof (induction rule: server_step.induct)
  case (unix_step s s' pc)
  then show ?case using registry_accept [OF unix_step(1), of "spawning (sv_tcp s)"] accept_keeps [OF unix_step(1)]
    by (simp add: registry_ok_def pending_def)
next
  case (tcp_step s s' pc)
  from tcp_step(2) have "registry (spawning (sv_tcp s) @ spawning (sv_unix s) @ sv_live s) (sv_registered s) (sv_chan s)"
    by (auto simp: registry_ok_def pending_def intro: registry_perm)
  from registry_accept [OF tcp_step(1) this] show ?case using accept_keeps [OF tcp_step(1)]
    by (auto simp: registry_ok_def pending_def intro: registry_perm)
next
  case (command cmd s)
  then show ?case using unreserved_registrations [OF command(1)]
    by (auto simp: registry_ok_def pending_def post_def intro: registry_command)
next
  case (disconnect i k s)
  then have "registry (remove1 (i, k) (pending s)) (sv_registered s) (sv_chan s @ [Cmd (D_ClientDisconnected i)])"
    by (intro registry_drop) (simp_all add: registry_ok_def pending_def)
  then show ?case using disconnect(1) by (auto simp: registry_ok_def pending_def post_def intro: registry_perm)
next
  case (setup_failed i k s)
  then have "registry (remove1 (i, k) (pending s)) (sv_registered s) (sv_chan s)"
    by (intro registry_drop) (simp_all add: registry_ok_def pending_def)
  then show ?case using setup_failed(1) by (auto simp: registry_ok_def pending_def release_slot_def intro: registry_perm)
qed (auto simp: registry_ok_def pending_def post_def release_slot_def registrations_def intro: registry_command)

text \<open>The order of shutdown: the accept loops have ended before the broadcast, if the join was not abandoned.\<close>

definition told :: "(u64 \<times> sink) list \<Rightarrow> server_cmd list \<Rightarrow> bool" where
  "told R C \<longleftrightarrow> (\<exists>before after. C = before @ Cmd D_BroadcastShuttingDown # after
     \<and> set R \<subseteq> registrations before \<and> registrations after = {} \<and> StopLoop \<notin> set before)"

definition order_ok :: "server \<Rightarrow> bool" where
  "order_ok s \<longleftrightarrow>
     (sv_main s \<noteq> Serving \<longrightarrow> sv_unix s = Stopped)
     \<and> (sv_main s \<in> {Notifying True, Stopping True, Draining True} \<longrightarrow> sv_tcp s = Stopped)
     \<and> (if sv_main s \<in> {Stopping True, Draining True} then told (sv_registered s) (sv_chan s)
        else sv_main s \<notin> {Stopping False, Draining False} \<longrightarrow> StopLoop \<notin> set (sv_chan s))"

lemma toldI:
  "C = before @ Cmd D_BroadcastShuttingDown # after \<Longrightarrow> set R \<subseteq> registrations before \<Longrightarrow> registrations after = {} \<Longrightarrow>
   StopLoop \<notin> set before \<Longrightarrow> told R C"
  unfolding told_def by blast

lemma told_command:
  assumes "told R C" and "registrations [x] = {}"
  shows "told R (C @ [x])"
proof -
  from assms(1) obtain before after where "C = before @ Cmd D_BroadcastShuttingDown # after" "set R \<subseteq> registrations before"
      "registrations after = {}" "StopLoop \<notin> set before"
    unfolding told_def by blast
  with assms(2) show ?thesis by (intro toldI [of _ before "after @ [x]"]) auto
qed

lemma told_broadcast:
  "StopLoop \<notin> set C \<Longrightarrow> set R \<subseteq> registrations C \<Longrightarrow> told R (C @ [Cmd D_BroadcastShuttingDown])"
  by (rule toldI [of _ C "[]"]) simp_all

lemma accept_order:
  assumes "accept_step s pc s' pc'"
  shows "StopLoop \<in> set (sv_chan s') \<longleftrightarrow> StopLoop \<in> set (sv_chan s)" and "pc \<noteq> Stopped"
  using assms by (cases rule: accept_step.cases; auto simp: try_take_connection_slot_def release_slot_def post_def)+

lemma order_step: "server_step s s' \<Longrightarrow> registry_ok s \<Longrightarrow> order_ok s \<Longrightarrow> order_ok s'"
proof (induction rule: server_step.induct)
  case (unix_step s s' pc)
  then show ?case using accept_order [OF unix_step(1)] accept_keeps [OF unix_step(1)] by (auto simp: order_ok_def)
next
  case (tcp_step s s' pc)
  then show ?case using accept_order [OF tcp_step(1)] accept_keeps [OF tcp_step(1)] by (auto simp: order_ok_def)
next
  case (command cmd s)
  then show ?case using unreserved_registrations [OF command(1)]
    by (auto simp: order_ok_def post_def intro: told_command)
next
  case (disconnect i k s)
  then show ?case by (auto simp: order_ok_def post_def registrations_def intro: told_command)
next
  case (broadcast s b)
  have "set (sv_registered s) \<subseteq> registrations (sv_chan s)"
    using broadcast(2) by (auto simp: registry_ok_def registry_def)
  with broadcast show ?case by (cases b) (auto simp: order_ok_def post_def intro!: told_broadcast)
next
  case (stop s b)
  then show ?case by (cases b) (auto simp: order_ok_def registrations_def intro: told_command)
qed (auto simp: order_ok_def release_slot_def)

definition server_inv :: "server \<Rightarrow> bool" where
  "server_inv s \<longleftrightarrow> slots_ok s \<and> registry_ok s \<and> order_ok s"

interpretation server: stepping_system server_init server_step server_inv
proof
  show "server_init s \<Longrightarrow> server_inv s" for s
    by (auto simp: server_init_def run_server_start_def server_inv_def slots_ok_def connections_def registry_ok_def
        registry_def pending_def order_ok_def)
  show "server_inv s \<Longrightarrow> server_step s s' \<Longrightarrow> server_inv s'" for s s'
    using slots_step registry_step order_step by (simp add: server_inv_def)
qed

end
