(* ===== verification/Server_Theorems.thy ===== *)
theory Server_Theorems
  imports Server
begin

text \<open>
  The cap on connections, and that a shutdown is announced to everybody who is connected: the order of
  commands that \<open>Server\<close> guarantees, carried through the command loop of the daemon.
\<close>

section \<open>Staying in touch\<close>

text \<open>
  A client with queue \<open>k\<close> is in touch: its connection has ended, or the daemon still knows it (if \<open>b\<close>), or it has been
  told to go.
\<close>

definition touch :: "bool \<Rightarrow> u64 \<Rightarrow> sink \<Rightarrow> daemon_state \<Rightarrow> bool" where
  "touch b i k s \<longleftrightarrow> (receiver_alive (chans (ds_net s) k) \<longrightarrow>
     b \<and> map_of (ds_client_writers s) i = Some k
     \<or> Evicted \<in> set (queue (chans (ds_net s) k)) \<or> ShuttingDown \<in> set (queue (chans (ds_net s) k)))"

named_theorems touch_frame

lemma touch_plain [touch_frame]:
  "touch b i k (s\<lparr>ds_db := d\<rparr>) = touch b i k s"
  "touch b i k (s\<lparr>ds_session_metadata := md\<rparr>) = touch b i k s"
  "touch b i k (s\<lparr>ds_next_session_id := n\<rparr>) = touch b i k s"
  "touch b i k (s\<lparr>ds_active_sessions := xs\<rparr>) = touch b i k s"
  "touch b i k (s\<lparr>ds_deleted_sessions := D\<rparr>) = touch b i k s"
  "touch b i k (s\<lparr>ds_children := ch\<rparr>) = touch b i k s"
  "touch b i k (s\<lparr>ds_sent := snt\<rparr>) = touch b i k s"
  "touch b i k (s\<lparr>ds_finalizers := fz\<rparr>) = touch b i k s"
  "touch b i k (s\<lparr>ds_answers := an\<rparr>) = touch b i k s"
  "touch b i k (s\<lparr>ds_client_subscribed_sessions := cs\<rparr>) = touch b i k s"
  "touch b i k (s\<lparr>ds_summary_subscribers := ss\<rparr>) = touch b i k s"
  "touch b i k (s\<lparr>ds_activity_subscribers := sa\<rparr>) = touch b i k s"
  "touch b i k (s\<lparr>ds_model_prefetch_in_flight := mp\<rparr>) = touch b i k s"
  "touch b i k (s\<lparr>ds_model_cache := mc\<rparr>) = touch b i k s"
  "touch b i k (s\<lparr>ds_providers := ps\<rparr>) = touch b i k s"
  "touch b i k (s\<lparr>ds_locked := l\<rparr>) = touch b i k s"
  by (simp_all add: touch_def)

lemma touch_small [touch_frame]:
  "touch b i k (send_session sid cmd s) = touch b i k s"
  "touch b i k (reply_to ch r s) = touch b i k s"
  "touch b i k (remove_child_from_all_parents c s) = touch b i k s"
  "touch b i k (add_child p c s) = touch b i k s"
  "touch b i k (maybe_spawn_model_prefetch ctx a s) = touch b i k s"
  "touch b i k (fst (spawn_session sid rec md s)) = touch b i k s"
  by (simp_all add: send_session_def reply_to_def remove_child_from_all_parents_def add_child_def
      maybe_spawn_model_prefetch_def spawn_session_def Let_def touch_def split: option.splits)

lemma touch_fold: "(\<And>x s. touch b i k s \<Longrightarrow> touch b i k (f x s)) \<Longrightarrow> touch b i k s \<Longrightarrow> touch b i k (fold f xs s)"
  by (induction xs arbitrary: s) simp_all

lemma touch_fold_eq: "(\<And>x s. touch b i k (f x s) = touch b i k s) \<Longrightarrow> touch b i k (fold f xs s) = touch b i k s"
  by (induction xs arbitrary: s) simp_all

lemma touch_net: "delivers (ds_net s) n' d \<Longrightarrow> touch b i k s \<Longrightarrow> touch b i k (s\<lparr>ds_net := n'\<rparr>)"
  using delivers_alive [of "ds_net s" n' d k] delivers_queue [of "ds_net s" n' d k] by (auto simp: touch_def)

lemma touch_sessions [touch_frame]:
  "touch b i k (warm_models ctx account s) = touch b i k s"
  "touch b i k (cancel_and_shutdown_child c s) = touch b i k s"
  "touch b i k (remove_client_from_sessions c s) = touch b i k s"
  "touch b i k (fst (handle_list_models_inner ctx origin s)) = touch b i k s"
  by (simp_all add: warm_models_def cancel_and_shutdown_child_def remove_client_from_sessions_def handle_list_models_inner_def
      Let_def touch_frame touch_fold_eq split: option.splits)

text \<open>An eviction removes a client only with a notice.\<close>

lemma touch_evict: "touch b i k s \<Longrightarrow> touch b i k (handle_evict_client c s)"
proof (cases "map_of (ds_client_writers s) c")
  case None
  assume "touch b i k s"
  then show ?thesis using None by (simp add: handle_evict_client_def)
next
  case (Some k')
  assume t: "touch b i k s"
  let ?n = "fst (send_unchecked k' Evicted (ds_net s))"
  have d: "delivers (ds_net s) ?n (one k' Evicted)" by (rule raw.send_delivers)
  have W: "ds_client_writers (remove_client_from_sessions c u) = ds_client_writers u"
      "ds_net (remove_client_from_sessions c u) = ds_net u" for u
    using remove_client_from_sessions_eq [of c u] by auto
  have eq: "ds_net (handle_evict_client c s) = ?n" "ds_client_writers (handle_evict_client c s) = AList.delete c (ds_client_writers s)"
    using Some by (simp_all add: handle_evict_client_def Let_def W del: send_unchecked_net)
  show ?thesis
    using t Some delivers_alive [OF d, of k] delivers_queue [OF d, of k]
    by (auto simp: touch_def eq delete_conv' one_def)
qed

lemma touch_finish: "touch b i k s \<Longrightarrow> touch b i k (finish_evictions ev lg s)"
  by (auto simp: finish_evictions_def handle_evict_largest_lagging_def Let_def touch_evict touch_fold split: option.splits)

lemma touch_fan_out:
  assumes "touch b i k s"
  shows "touch b i k (fan_out_activity m skip s)" and "touch b i k (fan_out_summary m skip s)"
proof -
  have "touch b i k ((s\<lparr>ds_activity_subscribers := x\<rparr>)\<lparr>ds_net := snd (snd (snd (fan_out_evicting subs m l skip (ds_net s))))\<rparr>)"
    and "touch b i k ((s\<lparr>ds_summary_subscribers := x\<rparr>)\<lparr>ds_net := snd (snd (snd (fan_out_evicting subs m l skip (ds_net s))))\<rparr>)"
    for x subs l
    by (rule touch_net [where d = "copies subs skip m"]; simp add: fan_out_delivers assms touch_frame)+
  then show "touch b i k (fan_out_activity m skip s)" "touch b i k (fan_out_summary m skip s)"
    by (simp_all add: fan_out_activity_def fan_out_summary_def case_prod_unfold touch_finish)
qed

lemma touch_broadcasts:
  assumes "touch b i k s"
  shows "touch b i k (daemon_broadcast m s)" and "touch b i k (handle_broadcast_activity origin m s)"
    and "touch b i k (broadcast_lock_state s)"
  using assms
  by (simp_all add: daemon_broadcast_def Let_def handle_broadcast_activity_def broadcast_lock_state_def touch_fan_out)

lemma touch_ends:
  assumes "touch b i k s"
  shows "touch b i k (sleep_session sid s)" and "touch b i k (announce_deleted sid s)"
    and "touch b i k (fst (delete_finished_session sid s))" and "touch b i k (fst (delete_session_inner ctx sid s))"
proof -
  have an: "touch b i k (announce_deleted sid s)" if "touch b i k s" for s
    using that by (simp add: announce_deleted_def touch_broadcasts touch_frame)
  show "touch b i k (sleep_session sid s)"
    using assms by (simp add: sleep_session_def Let_def touch_broadcasts touch_frame split: option.splits)
  have df: "touch b i k (fst (delete_finished_session sid s))" if "touch b i k s" for s
    using that by (simp add: delete_finished_session_def Let_def an touch_frame split: prod.splits bool.splits)
  show "touch b i k (announce_deleted sid s)" "touch b i k (fst (delete_finished_session sid s))"
    using assms by (rule an, rule df)
  show "touch b i k (fst (delete_session_inner ctx sid s))"
    using assms by (simp add: delete_session_inner_def Let_def an df touch_frame split: option.splits prod.splits bool.splits)
qed

lemma touch_fold_delete:
  "touch b i k s \<Longrightarrow> touch b i k (fold (\<lambda>c s. fst (delete_session_inner ctx c (remove_child_from_all_parents c s))) cs s)"
  by (rule touch_fold) (simp_all add: touch_ends touch_frame)

lemma touch_notify:
  "(ws', n') = notify_writers ws n \<Longrightarrow> receiver_alive (chans n' k) = receiver_alive (chans n k)
    \<and> set (queue (chans n k)) \<subseteq> set (queue (chans n' k))
    \<and> (receiver_alive (chans n k) \<longrightarrow> (i, k) \<in> set ws \<longrightarrow> ShuttingDown \<in> set (queue (chans n' k)))"
proof (induction ws arbitrary: ws' n n')
  case (Cons ck ws)
  obtain c k' where ck: "ck = (c, k')" by (cases ck)
  let ?n1 = "fst (send_unchecked k' ShuttingDown n)"
  obtain ws1 n1 where r: "(ws1, n1) = notify_writers ws ?n1" by (metis surj_pair)
  have n': "n' = n1" using Cons.prems r by (auto simp: ck case_prod_unfold split: if_splits dest: sym)
  have d: "delivers n ?n1 (one k' ShuttingDown)" by (rule raw.send_delivers)
  have "receiver_alive (chans ?n1 k) = receiver_alive (chans n k)" by (rule delivers_alive [OF d])
  moreover have "set (queue (chans n k)) \<subseteq> set (queue (chans ?n1 k))"
    using delivers_queue [OF d, of k] delivers_dead [OF d, of k] by (cases "receiver_alive (chans n k)") auto
  moreover have "receiver_alive (chans n k) \<Longrightarrow> k' = k \<Longrightarrow> ShuttingDown \<in> set (queue (chans ?n1 k))"
    using delivers_queue [OF d, of k] by (simp add: one_def)
  ultimately show ?case using Cons.IH [OF r] by (auto simp: n' ck)
qed simp

lemma touch_told: "touch True i k s \<Longrightarrow> touch False i k (handle_broadcast_shutting_down s)"
  using touch_notify [of "fst (notify_writers (ds_client_writers s) (ds_net s))" "snd (notify_writers (ds_client_writers s) (ds_net s))"
      "ds_client_writers s" "ds_net s" k i]
  by (auto simp: touch_def handle_broadcast_shutting_down_def case_prod_unfold dest: map_of_SomeD)

lemma touch_weaken: "touch False i k s \<Longrightarrow> touch b i k s"
  by (auto simp: touch_def)

text \<open>Every command keeps a client in touch, except its own registration and goodbye.\<close>

lemma touch_command:
  assumes "touch b i k s" and "b \<Longrightarrow> (\<forall>k. cmd \<noteq> D_RegisterClientWriter i k) \<and> cmd \<noteq> D_ClientDisconnected i"
  shows "touch b i k (handle_command ctx cmd s)"
proof (cases cmd)
  case (D_RegisterClientWriter j k')
  then show ?thesis using assms by (auto simp: handle_register_client_writer_def touch_def update_conv')
next
  case (D_ClientDisconnected j)
  have W: "ds_client_writers (remove_client_from_sessions j u) = ds_client_writers u"
      "ds_net (remove_client_from_sessions j u) = ds_net u" for u
    using remove_client_from_sessions_eq [of j u] by auto
  show ?thesis using D_ClientDisconnected assms
    by (auto simp: handle_client_disconnected_def touch_def Let_def W delete_conv')
next
  case (D_RegisterActivitySubscriber j k')
  let ?s = "s\<lparr>ds_activity_subscribers := AList.update j k' (ds_activity_subscribers s)\<rparr>"
  have "touch b i k (?s\<lparr>ds_net := fst (send_accounted k' m (fst (send_accounted k' m' (ds_net ?s))))\<rparr>)" for m m'
    by (rule touch_net [OF delivers_trans [OF send_accounted_delivers send_accounted_delivers]])
      (use assms(1) in \<open>simp add: touch_frame\<close>)
  then show ?thesis using D_RegisterActivitySubscriber by (simp add: handle_register_activity_subscriber_def Let_def)
next
  case D_BroadcastShuttingDown
  have "(notify_writers ws n) = (ws', n') \<Longrightarrow> receiver_alive (chans n k) \<Longrightarrow> map_of ws i = Some k \<Longrightarrow> ShuttingDown \<in> set (queue (chans n' k))"
    for ws n ws' n' using touch_notify [of ws' n' ws n k i] by (auto dest: map_of_SomeD)
  then show ?thesis
    using D_BroadcastShuttingDown assms(1)
      touch_notify [of "fst (notify_writers (ds_client_writers s) (ds_net s))" "snd (notify_writers (ds_client_writers s) (ds_net s))"
      "ds_client_writers s" "ds_net s" k i]
    by (auto simp: touch_def handle_broadcast_shutting_down_def case_prod_unfold dest: map_of_SomeD)
qed (use assms(1) in \<open>simp_all add: handle_create_session_def handle_attach_session_def handle_list_sessions_def handle_get_session_def
      handle_update_metadata_def handle_session_exited_def handle_session_delete_finalized_def
      handle_register_summary_subscriber_def handle_unregister_summary_subscriber_def
      handle_register_activity_subscriber_def handle_unregister_activity_subscriber_def
      handle_track_session_subscription_def handle_untrack_session_subscription_def
      handle_evict_largest_lagging_def handle_broadcast_session_status_def handle_delete_session_def
      handle_cancel_request_def cancel_children_of_def handle_set_session_title_def daemon_handle_set_working_dir_def
      daemon_handle_load_tools_def daemon_handle_unload_tools_def forward_or_refuse_def handle_list_models_def
      handle_model_prefetch_result_def handle_lock_def touch_evict touch_fan_out touch_broadcasts touch_ends touch_fold_delete
      Let_def case_prod_unfold touch_frame touch_fold_eq split: option.splits sum.splits\<close>)

section \<open>Shutdown\<close>

definition no_farewell :: "u64 \<Rightarrow> server_cmd \<Rightarrow> bool" where
  "no_farewell i x \<longleftrightarrow> (\<forall>k. x \<noteq> Cmd (D_RegisterClientWriter i k)) \<and> x \<noteq> Cmd (D_ClientDisconnected i)"

lemma loop_told: "touch False i k d \<Longrightarrow> touch False i k (command_loop cmds d)"
  by (induction cmds d rule: command_loop.induct) (simp_all add: teardown_def touch_command touch_frame touch_plain)

lemma loop_tells:
  "touch True i k d \<Longrightarrow> map snd cmds = before @ Cmd D_BroadcastShuttingDown # after \<Longrightarrow>
   \<forall>x \<in> set before. no_farewell i x \<and> x \<noteq> StopLoop \<Longrightarrow> touch False i k (command_loop cmds d)"
proof (induction before arbitrary: cmds d)
  case Nil
  then obtain ctx rest where c: "cmds = (ctx, Cmd D_BroadcastShuttingDown) # rest" by (cases cmds) auto
  then show ?case using touch_told [OF Nil.prems(1)] by (simp add: loop_told)
next
  case (Cons x before)
  then obtain ctx rest where c: "cmds = (ctx, x) # rest" "map snd rest = before @ Cmd D_BroadcastShuttingDown # after"
    by (cases cmds) auto
  obtain cmd where x: "x = Cmd cmd" using Cons.prems(3) by (cases x) auto
  have "touch True i k (handle_command ctx cmd d)"
    using Cons.prems(1,3) x by (intro touch_command) (auto simp: no_farewell_def)
  then show ?case using Cons.IH [OF _ c(2)] Cons.prems(3) by (simp add: c(1) x)
qed

text \<open>A registration puts a client in touch, whatever happened before.\<close>

lemma loop_registered:
  "map snd cmds = earlier @ Cmd (D_RegisterClientWriter i k) # later @ Cmd D_BroadcastShuttingDown # after \<Longrightarrow>
   \<forall>x \<in> set later. no_farewell i x \<Longrightarrow> StopLoop \<notin> set (earlier @ later) \<Longrightarrow> touch False i k (command_loop cmds d)"
proof (induction earlier arbitrary: cmds d)
  case Nil
  then obtain ctx rest where c: "cmds = (ctx, Cmd (D_RegisterClientWriter i k)) # rest"
      "map snd rest = later @ Cmd D_BroadcastShuttingDown # after" by (cases cmds) auto
  have "touch True i k (handle_command ctx (D_RegisterClientWriter i k) d)"
    by (simp add: handle_register_client_writer_def touch_def update_conv')
  from loop_tells [OF this c(2)] Nil.prems show ?case by (auto simp: c(1))
next
  case (Cons x earlier)
  then obtain ctx rest where c: "cmds = (ctx, x) # rest"
      "map snd rest = earlier @ Cmd (D_RegisterClientWriter i k) # later @ Cmd D_BroadcastShuttingDown # after"
    by (cases cmds) auto
  obtain cmd where x: "x = Cmd cmd" using Cons.prems(3) by (cases x) auto
  then show ?case using Cons.IH [OF c(2)] Cons.prems by (simp add: c(1))
qed

text \<open>
  C20. A shutdown reaches everybody. Let the main thread have queued the shutdown of the command loop, after the TCP accept
  thread was seen to end, in any interleaving of the accept loops, the connections and everybody else who
  sends commands. Then every client whose connection is still there was registered before the announcement, and once the loop
  has run through its commands, from any state, the client has \<^verbatim>\<open>ShuttingDown\<close> in its queue, or \<^verbatim>\<open>Evicted\<close> if it
  was thrown out before, unless nobody reads the queue any more.
\<close>

theorem shutdown_reaches_everyone:
  assumes "reachable server_init server_step s" and "sv_main s = Draining True" and "(i, k) \<in> set (sv_live s)"
    and "map snd cmds = sv_chan s" and "d' = command_loop cmds d" and "receiver_alive (chans (ds_net d') k)"
  shows "Evicted \<in> set (queue (chans (ds_net d') k)) \<or> ShuttingDown \<in> set (queue (chans (ds_net d') k))"
proof -
  have inv: "registry_ok s" "order_ok s" using server.inv_reachable [OF assms(1)] by (simp_all add: server_inv_def)
  have "(i, k) \<in> set (pending s)" using assms(3) by (simp add: pending_def)
  then have i: "i \<in> fst ` set (pending s)" "(i, k) \<in> set (pending s)" by force+
  from inv(1) i have reg: "(i, k) \<in> set (sv_registered s)" "distinct (map fst (sv_registered s))"
      "registrations (sv_chan s) = set (sv_registered s)" "Cmd (D_ClientDisconnected i) \<notin> set (sv_chan s)"
    by (auto simp: registry_ok_def registry_def)
  from inv(2) assms(2) obtain before after where chan: "sv_chan s = before @ Cmd D_BroadcastShuttingDown # after"
      "set (sv_registered s) \<subseteq> registrations before" "StopLoop \<notin> set before"
    by (auto simp: order_ok_def told_def)
  have "\<exists>x \<in> set before. \<exists>k. x = Cmd (D_RegisterClientWriter i k)"
    using chan(2) reg(1) by (auto simp: registrations_def)
  from split_list_last_prop [OF this] obtain earlier k' later where sp: "before = earlier @ Cmd (D_RegisterClientWriter i k') # later"
      "\<forall>x \<in> set later. \<nexists>k. x = Cmd (D_RegisterClientWriter i k)" by blast
  have "(i, k') \<in> set (sv_registered s)" using reg(3) by (auto simp: registrations_def chan(1) sp(1))
  then have "k' = k" using reg(1,2) by (metis eq_key_imp_eq_value)
  moreover have "\<forall>x \<in> set later. no_farewell i x" using sp reg(4) by (auto simp: no_farewell_def chan(1))
  ultimately have "touch False i k d'"
    using loop_registered [of cmds earlier i k later after d] assms(4,5) chan(1,3) sp(1) by simp
  then show ?thesis using assms(6) by (simp add: touch_def)
qed

text \<open>
  C21. The cap on connections. However the two accept loops and the ends of connections interleave, no more than 256
  connections hold a slot at any moment, from before they are registered until their thread ends; and
  the counter is exact when no accept loop is between its accesses: a slot is neither leaked nor given
  back twice.
\<close>

theorem connections_capped:
  assumes "reachable server_init server_step s"
  shows "length (sv_live s) + length (sv_ending s) + holds (sv_unix s) + holds (sv_tcp s) \<le> 256
    \<and> (sv_unix s \<in> {Checking, Accepting, Rechecking, Taking, Stopped} \<and> sv_tcp s \<in> {Checking, Accepting, Rechecking, Taking, Stopped}
        \<longrightarrow> sv_count s = length (sv_live s) + length (sv_ending s))"
  using server.inv_reachable [OF assms]
  by (auto simp: server_inv_def slots_ok_def connections_def MAX_CONCURRENT_CONNECTIONS_def)

section \<open>A server that serves one client and shuts down\<close>

definition demo_serving :: server where
  "demo_serving = \<lparr>sv_shutdown = False, sv_count = 1, sv_unix = Checking, sv_tcp = Stopped, sv_main = Serving,
     sv_live = [(7, 0)], sv_ending = [], sv_registered = [(7, 0)], sv_chan = [Cmd (D_RegisterClientWriter 7 0)]\<rparr>"

definition demo_down :: server where
  "demo_down = demo_serving\<lparr>sv_shutdown := True, sv_unix := Stopped, sv_main := Draining True,
     sv_chan := [Cmd (D_RegisterClientWriter 7 0), Cmd D_BroadcastShuttingDown, StopLoop]\<rparr>"

lemma unix_reach:
  "reachable server_init server_step s \<Longrightarrow> accept_step s pc s' pc' \<Longrightarrow> sv_unix s = pc \<Longrightarrow> s'\<lparr>sv_unix := pc'\<rparr> = t \<Longrightarrow>
   reachable server_init server_step t"
  by (auto intro: reachable.intros unix_step)

lemma demo_serving_reachable: "reachable server_init server_step demo_serving"
proof -
  let ?s = "run_server_start False"
  have r0: "reachable server_init server_step ?s" by (rule reachable.intros) (simp add: server_init_def)
  have r1: "reachable server_init server_step (?s\<lparr>sv_unix := Accepting\<rparr>)"
    by (rule unix_reach [OF r0 check]) (simp_all add: run_server_start_def)
  have r2: "reachable server_init server_step (?s\<lparr>sv_unix := Rechecking\<rparr>)"
    by (rule unix_reach [OF r1 accepted]) simp_all
  have r3: "reachable server_init server_step (?s\<lparr>sv_unix := Taking\<rparr>)"
    by (rule unix_reach [OF r2 recheck]) (simp_all add: run_server_start_def)
  have r4: "reachable server_init server_step (?s\<lparr>sv_count := 1, sv_unix := Registering\<rparr>)"
    by (rule unix_reach [OF r3 take_slot [OF try_take_connection_slot_def]])
      (simp_all add: run_server_start_def MAX_CONCURRENT_CONNECTIONS_def)
  have r5: "reachable server_init server_step (?s\<lparr>sv_count := 1, sv_unix := Spawning 7 0, sv_registered := [(7, 0)],
      sv_chan := [Cmd (D_RegisterClientWriter 7 0)]\<rparr>)"
    by (rule unix_reach [OF r4 register [where i = 7 and k = 0]]) (simp_all add: run_server_start_def post_def)
  show ?thesis
    by (rule unix_reach [OF r5 spawn]) (simp_all add: run_server_start_def demo_serving_def)
qed

lemma demo_down_reachable: "reachable server_init server_step demo_down"
proof -
  note next_state = reachable.intros(2) [of server_init server_step]
  let ?s = "demo_serving\<lparr>sv_shutdown := True\<rparr>"
  have r0: "reachable server_init server_step ?s" by (rule next_state [OF demo_serving_reachable signal])
  have "reachable server_init server_step (?s\<lparr>sv_unix := Stopped\<rparr>)"
    by (rule unix_reach [OF r0 check]) (simp_all add: demo_serving_def)
  from next_state [OF this, of "?s\<lparr>sv_unix := Stopped, sv_main := Joining\<rparr>"]
  have "reachable server_init server_step (?s\<lparr>sv_unix := Stopped, sv_main := Joining\<rparr>)"
    using leave [of "?s\<lparr>sv_unix := Stopped\<rparr>"] by (simp add: demo_serving_def)
  from next_state [OF this, of "?s\<lparr>sv_unix := Stopped, sv_main := Notifying True\<rparr>"]
  have "reachable server_init server_step (?s\<lparr>sv_unix := Stopped, sv_main := Notifying True\<rparr>)"
    using joined [of "?s\<lparr>sv_unix := Stopped, sv_main := Joining\<rparr>"] by (simp add: demo_serving_def)
  from next_state [OF this broadcast] have "reachable server_init server_step
      (post D_BroadcastShuttingDown (?s\<lparr>sv_unix := Stopped, sv_main := Stopping True\<rparr>))" by simp
  from next_state [OF this stop] show ?thesis by (simp add: post_def demo_serving_def demo_down_def)
qed

theorem connections_capped_witness: "sv_count demo_serving = 1 \<and> length (sv_live demo_serving) + length (sv_ending demo_serving) = 1"
  using connections_capped [OF demo_serving_reachable] by (simp add: demo_serving_def)

theorem shutdown_reaches_everyone_witness:
  "\<exists>d'. d' = command_loop (map (Pair demo_daemon_ctx) (sv_chan demo_down)) (lf_daemon demo_life)
     \<and> (Evicted \<in> set (queue (chans (ds_net d') 0)) \<or> ShuttingDown \<in> set (queue (chans (ds_net d') 0)))"
proof -
  let ?d = "command_loop (map (Pair demo_daemon_ctx) (sv_chan demo_down)) (lf_daemon demo_life)"
  have "ds_net (lf_daemon demo_life) = net_new" "ds_client_writers (lf_daemon demo_life) = []"
    by (simp_all add: demo_life_def life_start_def start_daemon_def split: prod.splits)
  then have "receiver_alive (chans (ds_net ?d) 0)"
    by (simp add: demo_down_def teardown_def handle_register_client_writer_def handle_broadcast_shutting_down_def
        case_prod_unfold) (simp add: send_accounted_def upd_chan_def Let_def net_new_def chan_new_def)
  then show ?thesis
    using shutdown_reaches_everyone [OF demo_down_reachable, of 7 0 "map (Pair demo_daemon_ctx) (sv_chan demo_down)" ?d]
    by (simp add: demo_down_def demo_serving_def comp_def)
qed

end
