(* ===== verification/Sse.thy ===== *)
theory Sse
  imports Sanitize
begin

text \<open>
  The three readers of server-sent events: \<^verbatim>\<open>SseReader\<close> (\<^verbatim>\<open>openai/sse.rs\<close>), \<^verbatim>\<open>AnthropicSseReader\<close>
  (\<^verbatim>\<open>anthropic/requests.rs\<close>) and \<^verbatim>\<open>GeminiSseReader\<close> (\<^verbatim>\<open>google/requests.rs\<close>) of \<^verbatim>\<open>choreo-ai-protocols\<close>.
  They share the shape of their loops, a buffer of bytes cut into lines and a loop that reads more when no
  event is complete, and differ in what a line does (\<open>on_line\<close>), in what the end of the body does (\<open>at_end\<close>),
  in whether the loop looks at \<^verbatim>\<open>finished\<close> again after each read, and in whether a read that would block is
  tried again. The loops are written once over a \<open>protocol\<close> that holds these four. Strings are lists of bytes.
\<close>

section \<open>The body and the reader\<close>

text \<open>What one \<^verbatim>\<open>read\<close> of the body returns; a read after the last one, and a read of no bytes, is the end.\<close>

datatype body_read = Bytes string | WouldBlock | ReadFailed string

datatype sse_error = InvalidData | BodyError string

record 's reader =
  rd_body :: "body_read list"
  rd_pending :: string
  rd_lines :: 's \<comment> \<open>what the lines since the last event left\<close>
  rd_finished :: bool

text \<open>
  What the body of the loop over lines does with one line: go on, return (with \<^verbatim>\<open>finished\<close> set or not, and an
  event or none), or fail on bytes that are not UTF-8.
\<close>

datatype ('s, 'e) verdict = Continue 's | Return 's bool "'e option" | Invalid 's

record ('s, 'e) protocol =
  on_line :: "'s \<Rightarrow> string \<Rightarrow> ('s, 'e) verdict" \<comment> \<open>the line with its newline\<close>
  at_end :: "'s \<Rightarrow> string \<Rightarrow> (sse_error + 'e option) \<times> 's \<times> string" \<comment> \<open>with the bytes of an unfinished line, before and after\<close>
  rechecks :: bool
  retries :: bool

section \<open>Cutting lines\<close>

abbreviation NL :: char where "NL \<equiv> CHR 0x0A"
abbreviation CR :: char where "CR \<equiv> CHR 0x0D"

text \<open>\<^verbatim>\<open>position\<close> of the first newline and \<^verbatim>\<open>drain(..=line_end)\<close>.\<close>

definition take_line :: "string \<Rightarrow> (string \<times> string) option" where
  "take_line bs =
     (if NL \<in> set bs then Some (takeWhile ((\<noteq>) NL) bs @ [NL], tl (dropWhile ((\<noteq>) NL) bs)) else None)"

definition pop_if :: "char \<Rightarrow> string \<Rightarrow> string" where
  "pop_if c line = (if line \<noteq> [] \<and> last line = c then butlast line else line)"

definition pop_all :: "(char \<Rightarrow> bool) \<Rightarrow> string \<Rightarrow> string" where
  "pop_all p line = rev (dropWhile p (rev line))"

definition strip_prefix :: "string \<Rightarrow> string \<Rightarrow> string option" where
  "strip_prefix p s = (if take (length p) s = p then Some (drop (length p) s) else None)"

definition DONE :: string where
  "DONE = ''[DONE]''"

lemma cut_at_NL: "NL \<in> set bs \<Longrightarrow> \<exists>r. dropWhile ((\<noteq>) NL) bs = NL # r"
  by (induction bs) auto

lemma take_line_SomeD: "take_line bs = Some (l, rest) \<Longrightarrow> bs = l @ rest \<and> l \<noteq> []"
  using cut_at_NL [of bs] takeWhile_dropWhile_id [of "(\<noteq>) NL" bs]
  by (auto simp: take_line_def simp del: takeWhile_dropWhile_id split: if_splits)

lemma take_line_shorter: "take_line bs = Some (l, rest) \<Longrightarrow> length rest < length bs"
  by (auto dest: take_line_SomeD)

lemma take_line_append: "take_line bs = Some (l, rest) \<Longrightarrow> take_line (bs @ cs) = Some (l, rest @ cs)"
  using cut_at_NL [of bs]
  by (auto simp: take_line_def takeWhile_append1 [where x = NL] dropWhile_append1 [where x = NL] split: if_splits)

lemma take_line_here: "NL \<notin> set l \<Longrightarrow> take_line (l @ NL # rest) = Some (l @ [NL], rest)"
  by (induction l) (auto simp: take_line_def)

section \<open>The loops\<close>

text \<open>\<^verbatim>\<open>drain_complete_event\<close> and the two \<^verbatim>\<open>drain_event\<close>: handle the complete lines of the buffer.\<close>

function drain_event :: "('s, 'e) protocol \<Rightarrow> 's reader \<Rightarrow> (sse_error + 'e option) \<times> 's reader" where
  "drain_event P r =
     (case take_line (rd_pending r) of
        None \<Rightarrow> (Inr None, r)
      | Some (line, rest) \<Rightarrow>
          let r = r\<lparr>rd_pending := rest\<rparr>
          in case on_line P (rd_lines r) line of
               Continue s \<Rightarrow> drain_event P (r\<lparr>rd_lines := s\<rparr>)
             | Return s fin ev \<Rightarrow> (Inr ev, r\<lparr>rd_lines := s, rd_finished := rd_finished r \<or> fin\<rparr>)
             | Invalid s \<Rightarrow> (Inl InvalidData, r\<lparr>rd_lines := s\<rparr>))"
  by pat_completeness auto
termination
  by (relation "measure (\<lambda>(P, r). length (rd_pending r))") (auto dest: take_line_shorter)

declare drain_event.simps [simp del]

lemma drain_event_body [simp]: "rd_body (snd (drain_event P r)) = rd_body r"
  by (induction P r rule: drain_event.induct)
    (subst drain_event.simps, auto simp: Let_def split: option.splits verdict.splits)

lemma drain_shorter:
  assumes "(res, r') = drain_event P r" and "rd_body r' = x # body"
  shows "length body < length (rd_body r)"
proof -
  have "rd_body r = x # body" using drain_event_body [of P r] assms by (metis snd_conv)
  then show ?thesis by simp
qed

definition end_of_body :: "('s, 'e) protocol \<Rightarrow> 's reader \<Rightarrow> (sse_error + 'e option) \<times> 's reader" where
  "end_of_body P r =
     (let (res, s, bs) = at_end P (rd_lines r) (rd_pending r)
      in (res, r\<lparr>rd_finished := True, rd_pending := bs, rd_lines := s\<rparr>))"

text \<open>The loop of \<^verbatim>\<open>next_event\<close>.\<close>

function read_loop :: "('s, 'e) protocol \<Rightarrow> 's reader \<Rightarrow> (sse_error + 'e option) \<times> 's reader" where
  "read_loop P r =
     (if rechecks P \<and> rd_finished r then (Inr None, r)
      else
        case drain_event P r of
          (Inl e, r') \<Rightarrow> (Inl e, r')
        | (Inr (Some ev), r') \<Rightarrow> (Inr (Some ev), r')
        | (Inr None, r') \<Rightarrow>
            (case rd_body r' of
               [] \<Rightarrow> end_of_body P r'
             | Bytes bs # body \<Rightarrow>
                 if bs = [] then end_of_body P (r'\<lparr>rd_body := body\<rparr>)
                 else read_loop P (r'\<lparr>rd_body := body, rd_pending := rd_pending r' @ bs\<rparr>)
             | WouldBlock # body \<Rightarrow>
                 if retries P then read_loop P (r'\<lparr>rd_body := body\<rparr>)
                 else (Inl (BodyError ''would block''), r'\<lparr>rd_body := body\<rparr>)
             | ReadFailed e # body \<Rightarrow> (Inl (BodyError e), r'\<lparr>rd_body := body\<rparr>)))"
  by pat_completeness auto
termination
  by (relation "measure (\<lambda>(P, r). length (rd_body r))") (auto dest!: drain_shorter)

declare read_loop.simps [simp del]

definition next_event :: "('s, 'e) protocol \<Rightarrow> 's reader \<Rightarrow> (sse_error + 'e option) \<times> 's reader" where
  "next_event P r = (if rd_finished r then (Inr None, r) else read_loop P r)"

definition from_reader :: "'s \<Rightarrow> body_read list \<Rightarrow> 's reader" where
  "from_reader s body = \<lparr>rd_body = body, rd_pending = [], rd_lines = s, rd_finished = False\<rparr>"


section \<open>The three protocols\<close>

definition build_sse_event :: "string list \<Rightarrow> string option \<times> string list" where
  "build_sse_event event_lines =
     (if event_lines = [] then (None, [])
      else
        let data = join [NL] (map trim_start (List.map_filter (strip_prefix ''data:'') event_lines))
        in (if data = [] then None else Some data, []))"

definition sse_line :: "string list \<Rightarrow> string \<Rightarrow> (string list, string) verdict" where
  "sse_line event_lines raw =
     (let line = pop_if CR (pop_if NL raw)
      in if line = [] then
           (case build_sse_event event_lines of
              (Some event, ls) \<Rightarrow> if event = DONE then Return ls True None else Return ls False (Some event)
            | (None, ls) \<Rightarrow> Continue ls)
         else if utf8_valid line then Continue (event_lines @ [line])
         else Invalid event_lines)"

definition finish_event :: "string list \<Rightarrow> (sse_error + string option) \<times> string list" where
  "finish_event event_lines =
     (case build_sse_event event_lines of
        (None, ls) \<Rightarrow> (Inr None, ls)
      | (Some event, ls) \<Rightarrow> (Inr (if event = DONE then None else Some event), ls))"

definition sse_end :: "string list \<Rightarrow> string \<Rightarrow> (sse_error + string option) \<times> string list \<times> string" where
  "sse_end event_lines pending =
     (if pending = [] then let (res, ls) = finish_event event_lines in (res, ls, [])
      else if utf8_valid pending then
        let (res, ls) = finish_event (event_lines @ [pop_all ((=) CR) pending]) in (res, ls, [])
      else (Inl InvalidData, event_lines, []))"

definition SseReader :: "(string list, string) protocol" where
  "SseReader = \<lparr>on_line = sse_line, at_end = sse_end, rechecks = False, retries = False\<rparr>"

record anthropic_event =
  current_event :: "string option"
  current_data :: "string list"

definition unwrap_or_default :: "string option \<Rightarrow> string" where
  "unwrap_or_default x = (case x of Some s \<Rightarrow> s | None \<Rightarrow> [])"

abbreviation no_event :: anthropic_event where
  "no_event \<equiv> \<lparr>current_event = None, current_data = []\<rparr>"

definition anthropic_line :: "anthropic_event \<Rightarrow> string \<Rightarrow> (anthropic_event, string \<times> string) verdict" where
  "anthropic_line s raw =
     (let line = pop_all (\<lambda>c. c = NL \<or> c = CR) raw
      in if line = [] then
           (if current_data s \<noteq> [] then
              Return no_event False (Some (unwrap_or_default (current_event s), join [NL] (current_data s)))
            else Continue (s\<lparr>current_event := None\<rparr>))
         else if \<not> utf8_valid line then Invalid s
         else case strip_prefix ''event:'' line of
                Some v \<Rightarrow> Continue (s\<lparr>current_event := Some (trim v)\<rparr>)
              | None \<Rightarrow>
                  (case strip_prefix ''data:'' line of
                     Some v \<Rightarrow>
                       let trimmed = trim_start v
                       in if trimmed = DONE then Return s True None
                          else Continue (s\<lparr>current_data := current_data s @ [trimmed]\<rparr>)
                   | None \<Rightarrow> Continue s))"

definition anthropic_end ::
  "anthropic_event \<Rightarrow> string \<Rightarrow> (sse_error + (string \<times> string) option) \<times> anthropic_event \<times> string" where
  "anthropic_end s pending =
     (if current_data s = [] then (Inr None, s, pending)
      else (Inr (Some (unwrap_or_default (current_event s), join [NL] (current_data s))), no_event, pending))"

definition AnthropicSseReader :: "(anthropic_event, string \<times> string) protocol" where
  "AnthropicSseReader = \<lparr>on_line = anthropic_line, at_end = anthropic_end, rechecks = True, retries = True\<rparr>"

definition gemini_line :: "string list \<Rightarrow> string \<Rightarrow> (string list, string) verdict" where
  "gemini_line ls raw =
     (let line = pop_all (\<lambda>c. c = NL \<or> c = CR) raw
      in if line = [] then (if ls \<noteq> [] then Return [] False (Some (join [NL] ls)) else Continue ls)
         else if \<not> utf8_valid line then Invalid ls
         else case strip_prefix ''data:'' line of
                Some v \<Rightarrow>
                  let trimmed = trim_start v
                  in if trimmed = DONE then Return [] True (if ls \<noteq> [] then Some (join [NL] ls) else None)
                     else Continue (ls @ [trimmed])
              | None \<Rightarrow> Continue ls)"

definition gemini_end :: "string list \<Rightarrow> string \<Rightarrow> (sse_error + string option) \<times> string list \<times> string" where
  "gemini_end ls pending = (if ls = [] then (Inr None, ls, pending) else (Inr (Some (join [NL] ls)), [], pending))"

definition GeminiSseReader :: "(string list, string) protocol" where
  "GeminiSseReader = \<lparr>on_line = gemini_line, at_end = gemini_end, rechecks = True, retries = True\<rparr>"

lemmas sse_protocols = SseReader_def AnthropicSseReader_def GeminiSseReader_def

end
