(* ===== verification/Sse_Theorems.thy ===== *)
theory Sse_Theorems
  imports Sse
begin

text \<open>
  What the readers of server-sent events yield does not depend on how the body was cut into reads: it is what
  one pass over the lines of the whole body yields. Printing events in the form of the protocol and reading
  them back gives the events.
\<close>

section \<open>Reading to the end\<close>

text \<open>A reader that is called until it gives no event has less and less to read.\<close>

fun read_size :: "body_read \<Rightarrow> nat" where
  "read_size (Bytes bs) = length bs"
| "read_size _ = 0"

definition weight :: "'s reader \<Rightarrow> nat" where
  "weight r = (if rd_finished r then 0 else Suc (length (rd_pending r) + sum_list (map read_size (rd_body r))))"

lemma weight_pos [simp]: "\<not> rd_finished r \<Longrightarrow> 0 < weight r"
  by (simp add: weight_def)

lemma drain_weight:
  "drain_event P r = (res, r') \<Longrightarrow> weight r' \<le> weight r \<and> (res = Inr (Some ev) \<longrightarrow> \<not> rd_finished r \<longrightarrow> weight r' < weight r)"
proof (induction P r arbitrary: res r' rule: drain_event.induct)
  case (1 P r)
  show ?case
  proof (cases "take_line (rd_pending r)")
    case None
    then show ?thesis using "1.prems" by (auto simp: drain_event.simps [of P r])
  next
    case (Some lr)
    obtain l rest where lr: "lr = (l, rest)" by (cases lr)
    note sh = take_line_shorter [OF Some [unfolded lr]]
    show ?thesis
    proof (cases "on_line P (rd_lines r) l")
      case (Continue s)
      let ?r = "r\<lparr>rd_pending := rest, rd_lines := s\<rparr>"
      have "drain_event P ?r = (res, r')" using "1.prems" Some lr Continue by (simp add: drain_event.simps [of P r])
      then have "weight r' \<le> weight ?r" using "1.IH" [OF Some lr [symmetric] refl, of s] Continue by simp
      moreover have "\<not> rd_finished r \<longrightarrow> weight ?r < weight r" "weight ?r \<le> weight r" using sh by (auto simp: weight_def)
      ultimately show ?thesis by auto
    qed (use "1.prems" Some lr sh in \<open>auto simp: drain_event.simps [of P r] weight_def\<close>)
  qed
qed

lemma end_of_body_weight [simp]: "weight (snd (end_of_body P r)) = 0"
  by (simp add: end_of_body_def weight_def Let_def case_prod_unfold)

text \<open>An induction rule for the loop, by the way a round of it ends.\<close>

lemma read_loop_rule [case_names stopped failed event ended more blocked error]:
  assumes stopped: "\<And>r. rechecks P \<Longrightarrow> rd_finished r \<Longrightarrow> Q r (Inr None, r)"
    and failed: "\<And>r e r1. \<not> (rechecks P \<and> rd_finished r) \<Longrightarrow> drain_event P r = (Inl e, r1) \<Longrightarrow> Q r (Inl e, r1)"
    and event: "\<And>r ev r1. \<not> (rechecks P \<and> rd_finished r) \<Longrightarrow> drain_event P r = (Inr (Some ev), r1) \<Longrightarrow> Q r (Inr (Some ev), r1)"
    and ended: "\<And>r r1 body. \<not> (rechecks P \<and> rd_finished r) \<Longrightarrow> drain_event P r = (Inr None, r1) \<Longrightarrow>
      (rd_body r1 = [] \<and> body = []) \<or> rd_body r1 = Bytes [] # body \<Longrightarrow> Q r (end_of_body P (r1\<lparr>rd_body := body\<rparr>))"
    and more: "\<And>r r1 bs body. \<not> (rechecks P \<and> rd_finished r) \<Longrightarrow> drain_event P r = (Inr None, r1) \<Longrightarrow>
      rd_body r1 = Bytes bs # body \<Longrightarrow> bs \<noteq> [] \<Longrightarrow>
      Q (r1\<lparr>rd_body := body, rd_pending := rd_pending r1 @ bs\<rparr>) (read_loop P (r1\<lparr>rd_body := body, rd_pending := rd_pending r1 @ bs\<rparr>)) \<Longrightarrow>
      Q r (read_loop P (r1\<lparr>rd_body := body, rd_pending := rd_pending r1 @ bs\<rparr>))"
    and blocked: "\<And>r r1 body. \<not> (rechecks P \<and> rd_finished r) \<Longrightarrow> drain_event P r = (Inr None, r1) \<Longrightarrow>
      rd_body r1 = WouldBlock # body \<Longrightarrow> retries P \<Longrightarrow>
      Q (r1\<lparr>rd_body := body\<rparr>) (read_loop P (r1\<lparr>rd_body := body\<rparr>)) \<Longrightarrow> Q r (read_loop P (r1\<lparr>rd_body := body\<rparr>))"
    and error: "\<And>r r1 x e body. \<not> (rechecks P \<and> rd_finished r) \<Longrightarrow> drain_event P r = (Inr None, r1) \<Longrightarrow>
      rd_body r1 = x # body \<Longrightarrow> x = WouldBlock \<and> \<not> retries P \<or> x = ReadFailed e \<Longrightarrow>
      Q r (Inl (BodyError (case x of ReadFailed e \<Rightarrow> e | _ \<Rightarrow> ''would block'')), r1\<lparr>rd_body := body\<rparr>)"
  shows "Q r (read_loop P r)"
proof (induction "length (rd_body r)" arbitrary: r rule: less_induct)
  case less
  obtain res r1 where d: "drain_event P r = (res, r1)" by fastforce
  have body: "rd_body r1 = rd_body r" using drain_event_body [of P r] d by simp
  have same: "r1\<lparr>rd_body := []\<rparr> = r1" if "rd_body r1 = []" using that by (metis (full_types) reader.surjective reader.update_convs(1))
  note unf = read_loop.simps [of P r] d
  show ?case
  proof (cases "rechecks P \<and> rd_finished r")
    case True
    then show ?thesis using stopped [of r] by (simp add: unf)
  next
    case run: False
    show ?thesis
    proof (cases res)
      case (Inl e)
      then show ?thesis using failed [OF run] run by (auto simp: unf)
    next
      case (Inr ev)
      show ?thesis
      proof (cases ev)
        case (Some e)
        then show ?thesis using event [OF run] Inr run by (auto simp: unf)
      next
        case None
        note dn = d [unfolded Inr None]
        show ?thesis
        proof (cases "rd_body r1")
          case Nil
          then show ?thesis using ended [OF run dn, of "[]"] same run Inr None by (auto simp: unf)
        next
          case (Cons x bd)
          then have sh: "length bd < length (rd_body r)" using body by simp
          then show ?thesis
            using ended [OF run dn, of bd] more [OF run dn, of _ bd] blocked [OF run dn, of bd] error [OF run dn, of x bd]
              less.hyps [of "r1\<lparr>rd_body := bd\<rparr>"] less.hyps [of "r1\<lparr>rd_body := bd, rd_pending := rd_pending r1 @ _\<rparr>"]
              Cons Inr None run
            by (cases x) (auto simp: unf)
        qed
      qed
    qed
  qed
qed

lemma weight_chain:
  assumes "weight q \<le> weight m \<and> (b \<longrightarrow> \<not> rd_finished m \<longrightarrow> weight q < weight m)" and "weight m \<le> weight r"
  shows "weight q \<le> weight r \<and> (b \<longrightarrow> \<not> rd_finished r \<longrightarrow> weight q < weight r)"
proof (cases "rd_finished m")
  case True
  then have "weight q = 0" using assms(1) by (simp add: weight_def)
  then show ?thesis by simp
qed (use assms in auto)

lemma read_loop_weight:
  "weight (snd (read_loop P r)) \<le> weight r
   \<and> ((\<exists>ev. fst (read_loop P r) = Inr (Some ev)) \<longrightarrow> \<not> rd_finished r \<longrightarrow> weight (snd (read_loop P r)) < weight r)"
proof (induction r rule: read_loop_rule [where P = P])
  case (event r ev r1)
  then show ?case using drain_weight [OF event(2)] by auto
next
  case (failed r e r1)
  then show ?case using drain_weight [OF failed(2)] by auto
next
  case (ended r r1 body)
  then show ?case by simp
next
  case (more r r1 bs body)
  have "weight (r1\<lparr>rd_body := body, rd_pending := rd_pending r1 @ bs\<rparr>) = weight r1" using more by (simp add: weight_def)
  then show ?case using weight_chain [OF more(5)] drain_weight [OF more(2)] by simp
next
  case (blocked r r1 body)
  have "weight (r1\<lparr>rd_body := body\<rparr>) = weight r1" using blocked by (simp add: weight_def)
  then show ?case using weight_chain [OF blocked(5)] drain_weight [OF blocked(2)] by simp
next
  case (error r r1 x e body)
  have "weight (r1\<lparr>rd_body := body\<rparr>) \<le> weight r1" using error by (simp add: weight_def)
  then show ?case using drain_weight [OF error(2)] by force
qed auto

text \<open>The loop of the reader thread, as far as it concerns the reader: call it until there is no event.\<close>

function read_all :: "('s, 'e) protocol \<Rightarrow> 's reader \<Rightarrow> 'e list \<times> sse_error option" where
  "read_all P r =
     (case next_event P r of
        (Inl e, _) \<Rightarrow> ([], Some e)
      | (Inr None, _) \<Rightarrow> ([], None)
      | (Inr (Some ev), r') \<Rightarrow> apfst (Cons ev) (read_all P r'))"
  by pat_completeness auto
termination
proof (relation "measure (\<lambda>(P, r). weight r)", simp_all)
  fix P :: "('s, 'e) protocol" and r res r' o' ev
  assume "(Inr (Some ev), r') = next_event P r"
  then show "weight r' < weight r"
    using read_loop_weight [of P r] by (metis fst_conv next_event_def prod.inject snd_conv sum.inject(2) option.distinct(1))
qed

declare read_all.simps [simp del]

section \<open>One pass over the whole body\<close>

fun events_of :: "'e option \<Rightarrow> 'e list" where
  "events_of (Some e) = [e]"
| "events_of None = []"

lemma apfst_nothing [simp]: "apfst ((@) []) x = x"
  by (cases x) simp

function whole :: "('s, 'e) protocol \<Rightarrow> 's \<Rightarrow> string \<Rightarrow> 'e list \<times> sse_error option" where
  "whole P s bs =
     (case take_line bs of
        None \<Rightarrow> (case fst (at_end P s bs) of Inl e \<Rightarrow> ([], Some e) | Inr ev \<Rightarrow> (events_of ev, None))
      | Some (line, rest) \<Rightarrow>
          (case on_line P s line of
             Continue s' \<Rightarrow> whole P s' rest
           | Return s' fin ev \<Rightarrow> if fin then (events_of ev, None) else apfst ((@) (events_of ev)) (whole P s' rest)
           | Invalid _ \<Rightarrow> ([], Some InvalidData)))"
  by pat_completeness auto
termination
  by (relation "measure (\<lambda>(P, s, bs). length bs)") (auto dest: take_line_shorter)

text \<open>
  The sentinel leaves nothing behind: no line of an unfinished event is waiting when it comes, and for the
  reader that does not look at \<^verbatim>\<open>finished\<close> again nothing follows it.
\<close>

function settled :: "('s, 'e) protocol \<Rightarrow> 's \<Rightarrow> string \<Rightarrow> bool" where
  "settled P s bs =
     (case take_line bs of
        None \<Rightarrow> True
      | Some (line, rest) \<Rightarrow>
          (case on_line P s line of
             Continue s' \<Rightarrow> settled P s' rest
           | Return s' fin ev \<Rightarrow>
               if fin then ev \<noteq> None \<or> (fst (at_end P s' rest) = Inr None \<and> (rechecks P \<or> rest = []))
               else settled P s' rest
           | Invalid _ \<Rightarrow> True))"
  by pat_completeness auto
termination
  by (relation "measure (\<lambda>(P, s, bs). length bs)") (auto dest: take_line_shorter)

declare whole.simps [simp del] settled.simps [simp del]

text \<open>The bytes of a body, and the bodies that arrive without a failure.\<close>

fun content :: "body_read list \<Rightarrow> string" where
  "content [] = []"
| "content (Bytes bs # body) = bs @ content body"
| "content (_ # body) = content body"

fun arrives :: "('s, 'e) protocol \<Rightarrow> body_read \<Rightarrow> bool" where
  "arrives P (Bytes bs) \<longleftrightarrow> bs \<noteq> []"
| "arrives P WouldBlock \<longleftrightarrow> retries P"
| "arrives P (ReadFailed _) \<longleftrightarrow> False"


section \<open>The reads do not matter\<close>

locale line_protocol =
  fixes P :: "('s, 'e) protocol"
  assumes productive: "on_line P s l \<noteq> Return s' False None"
    and retries_recheck: "retries P \<Longrightarrow> rechecks P"
begin

lemma whole_line:
  assumes "take_line bs = Some (l, rest)"
  shows "whole P s (bs @ cs) = (case on_line P s l of
      Continue s' \<Rightarrow> whole P s' (rest @ cs)
    | Return s' fin ev \<Rightarrow> if fin then (events_of ev, None) else apfst ((@) (events_of ev)) (whole P s' (rest @ cs))
    | Invalid _ \<Rightarrow> ([], Some InvalidData))"
  and "settled P s (bs @ cs) = (case on_line P s l of
      Continue s' \<Rightarrow> settled P s' (rest @ cs)
    | Return s' fin ev \<Rightarrow>
        if fin then ev \<noteq> None \<or> (fst (at_end P s' (rest @ cs)) = Inr None \<and> (rechecks P \<or> rest @ cs = []))
        else settled P s' (rest @ cs)
    | Invalid _ \<Rightarrow> True)"
  using take_line_append [OF assms, of cs]
  by (simp_all add: whole.simps [of P s "bs @ cs"] settled.simps [of P s "bs @ cs"])

text \<open>What the loop over the buffered lines says about the bytes, whatever follows them.\<close>

lemma drain_whole:
  assumes "drain_event P r = (res, r1)" "\<not> rd_finished r"
  shows "whole P (rd_lines r) (rd_pending r @ cs) =
      (case res of
         Inl e \<Rightarrow> ([], Some e)
       | Inr ev \<Rightarrow> if rd_finished r1 then (events_of ev, None)
                  else apfst ((@) (events_of ev)) (whole P (rd_lines r1) (rd_pending r1 @ cs)))
    \<and> (\<not> rd_finished r1 \<longrightarrow> res = Inr None \<longrightarrow> take_line (rd_pending r1) = None)
    \<and> (\<not> rd_finished r1 \<longrightarrow> (\<exists>ev. res = Inr ev) \<longrightarrow>
         settled P (rd_lines r) (rd_pending r @ cs) = settled P (rd_lines r1) (rd_pending r1 @ cs))
    \<and> (rd_finished r1 \<longrightarrow> res = Inr None \<longrightarrow>
         settled P (rd_lines r) (rd_pending r @ cs) =
           (fst (at_end P (rd_lines r1) (rd_pending r1 @ cs)) = Inr None \<and> (rechecks P \<or> rd_pending r1 @ cs = [])))
    \<and> (\<forall>e. res = Inl e \<longrightarrow> \<not> rd_finished r1)"
  using assms
proof (induction "length (rd_pending r)" arbitrary: r rule: less_induct)
  case less
  note unf = drain_event.simps [of P r]
  show ?case
  proof (cases "take_line (rd_pending r)")
    case None
    then show ?thesis using less.prems by (auto simp: unf)
  next
    case (Some lr)
    obtain l rest where lr: "take_line (rd_pending r) = Some (l, rest)" using Some by (cases lr) auto
    note wl = whole_line [OF lr, of "rd_lines r" cs]
    show ?thesis
    proof (cases "on_line P (rd_lines r) l")
      case (Continue s)
      let ?r = "r\<lparr>rd_pending := rest, rd_lines := s\<rparr>"
      have "drain_event P ?r = (res, r1)" using less.prems lr Continue by (simp add: unf)
      then show ?thesis using less.hyps [of ?r] less.prems(2) take_line_shorter [OF lr] wl Continue by simp
    next
      case (Return s fin ev)
      then have "fin \<or> ev \<noteq> None" using productive [of "rd_lines r" l s] by (cases fin; cases ev) auto
      then show ?thesis using less.prems lr Return wl by (auto simp: unf)
    next
      case (Invalid s)
      then show ?thesis using less.prems lr wl by (auto simp: unf)
    qed
  qed
qed

text \<open>The loop of \<^verbatim>\<open>next_event\<close>: the event it returns is the next one of the whole body.\<close>

lemma read_loop_whole:
  assumes "\<not> rd_finished r" "list_all (arrives P) (rd_body r)" "settled P (rd_lines r) (rd_pending r @ content (rd_body r))"
  shows "whole P (rd_lines r) (rd_pending r @ content (rd_body r)) =
      (case read_loop P r of
         (Inl e, _) \<Rightarrow> ([], Some e)
       | (Inr ev, r') \<Rightarrow> if rd_finished r' then (events_of ev, None)
                  else apfst ((@) (events_of ev)) (whole P (rd_lines r') (rd_pending r' @ content (rd_body r'))))
    \<and> (\<forall>ev. fst (read_loop P r) = Inr ev \<longrightarrow> \<not> rd_finished (snd (read_loop P r)) \<longrightarrow> ev \<noteq> None \<and>
         list_all (arrives P) (rd_body (snd (read_loop P r)))
         \<and> settled P (rd_lines (snd (read_loop P r))) (rd_pending (snd (read_loop P r)) @ content (rd_body (snd (read_loop P r)))))"
  using assms
proof (induction r rule: read_loop_rule [where P = P])
  case (failed r e r1)
  then show ?case using drain_whole [OF failed(2), of "content (rd_body r)"] by simp
next
  case (event r ev r1)
  have b: "rd_body r1 = rd_body r" using drain_event_body [of P r] event(2) by simp
  then show ?case using drain_whole [OF event(2), of "content (rd_body r)"] event by (auto simp: b)
next
  case (ended r r1 body)
  have b: "rd_body r1 = rd_body r" using drain_event_body [of P r] ended(2) by simp
  have body: "rd_body r1 = []" using ended(3,5) b by auto
  show ?case
  proof (cases "rd_finished r1")
    case True
    then show ?thesis
      using drain_whole [OF ended(2), of "[]"] ended body b
      by (auto simp: end_of_body_def case_prod_unfold Let_def)
  next
    case False
    then show ?thesis
      using drain_whole [OF ended(2), of "[]"] ended body b
      by (auto simp: end_of_body_def case_prod_unfold Let_def whole.simps [of P "rd_lines r1"] split: sum.splits)
  qed
next
  case (more r r1 bs body)
  have b: "rd_body r1 = rd_body r" using drain_event_body [of P r] more(2) by simp
  show ?case
  proof (cases "rd_finished r1")
    case True
    then have "rechecks P" using drain_whole [OF more(2), of "content (rd_body r)"] more b by auto
    then have "read_loop P (r1\<lparr>rd_body := body, rd_pending := rd_pending r1 @ bs\<rparr>)
        = (Inr None, r1\<lparr>rd_body := body, rd_pending := rd_pending r1 @ bs\<rparr>)" using True by (simp add: read_loop.simps)
    then show ?thesis using drain_whole [OF more(2), of "content (rd_body r)"] more True by (auto simp: b)
  next
    case False
    then show ?thesis using drain_whole [OF more(2), of "content (rd_body r)"] more by (auto simp: b)
  qed
next
  case (blocked r r1 body)
  have b: "rd_body r1 = rd_body r" using drain_event_body [of P r] blocked(2) by simp
  show ?case
  proof (cases "rd_finished r1")
    case True
    have "read_loop P (r1\<lparr>rd_body := body\<rparr>) = (Inr None, r1\<lparr>rd_body := body\<rparr>)"
      using True retries_recheck [OF blocked(4)] by (simp add: read_loop.simps)
    then show ?thesis using drain_whole [OF blocked(2), of "content (rd_body r)"] blocked True by (auto simp: b)
  next
    case False
    then show ?thesis using drain_whole [OF blocked(2), of "content (rd_body r)"] blocked by (auto simp: b)
  qed
next
  case (error r r1 x e body)
  have "rd_body r1 = rd_body r" using drain_event_body [of P r] error(2) by simp
  then have "list_all (arrives P) (x # body)" using error(3,6) by metis
  then show ?case using error(4) by auto
qed simp

theorem read_all_whole:
  assumes "\<not> rd_finished r" "list_all (arrives P) (rd_body r)" "settled P (rd_lines r) (rd_pending r @ content (rd_body r))"
  shows "read_all P r = whole P (rd_lines r) (rd_pending r @ content (rd_body r))"
  using assms
proof (induction "weight r" arbitrary: r rule: less_induct)
  case less
  obtain res r' where n: "read_loop P r = (res, r')" by fastforce
  note w = read_loop_whole [OF less.prems, unfolded n, simplified]
  show ?case
  proof (cases "\<exists>ev. res = Inr (Some ev)")
    case True
    then obtain ev where ev: "res = Inr (Some ev)" by blast
    have rest: "read_all P r' = (if rd_finished r' then ([], None)
        else whole P (rd_lines r') (rd_pending r' @ content (rd_body r')))"
      using less.hyps [of r'] w ev read_loop_weight [of P r] n less.prems(1)
      by (auto simp: read_all.simps [of P r'] next_event_def)
    have "read_all P r = apfst (Cons ev) (read_all P r')"
      using n ev less.prems(1) by (simp add: read_all.simps [of P r] next_event_def)
    then show ?thesis using w ev rest by auto
  next
    case False
    then have "res = Inr None \<or> (\<exists>e. res = Inl e)" by (metis option.exhaust sum.exhaust)
    then show ?thesis using w n less.prems(1) by (auto simp: read_all.simps [of P r] next_event_def)
  qed
qed

end

text \<open>Lines that only add to the event under construction.\<close>

fun through :: "('s, 'e) protocol \<Rightarrow> 's \<Rightarrow> string list \<Rightarrow> 's option" where
  "through P s [] = Some s"
| "through P s (x # xs) = (case on_line P s x of Continue s' \<Rightarrow> through P s' xs | _ \<Rightarrow> None)"

context line_protocol
begin

lemma through_whole:
  "through P s xs = Some s' \<Longrightarrow> list_all (\<lambda>x. take_line x = Some (x, [])) xs \<Longrightarrow>
   whole P s (concat xs @ rest) = whole P s' rest \<and> settled P s (concat xs @ rest) = settled P s' rest"
proof (induction xs arbitrary: s)
  case (Cons x xs)
  then show ?case
    using whole_line [of x x "[]" s "concat xs @ rest"] by (cases "on_line P s x") auto
qed simp

lemma events_whole:
  assumes "take_line eol = Some (eol, [])"
    and "\<And>e. e \<in> set es \<Longrightarrow> list_all (\<lambda>x. take_line x = Some (x, [])) (xs e)"
    and "\<And>e. e \<in> set es \<Longrightarrow> \<exists>s'. through P s (xs e) = Some s' \<and> on_line P s' eol = Return s False (Some (ev e))"
  shows "whole P s (concat (map (\<lambda>e. concat (xs e) @ eol) es) @ rest) = apfst ((@) (map ev es)) (whole P s rest)
    \<and> settled P s (concat (map (\<lambda>e. concat (xs e) @ eol) es) @ rest) = settled P s rest"
  using assms
proof (induction es)
  case (Cons e es)
  let ?more = "concat (map (\<lambda>e. concat (xs e) @ eol) es) @ rest"
  obtain s' where s': "through P s (xs e) = Some s'" "on_line P s' eol = Return s False (Some (ev e))"
    using Cons.prems(3) [of e] by auto
  have IH: "whole P s ?more = apfst ((@) (map ev es)) (whole P s rest)" "settled P s ?more = settled P s rest"
    using Cons by auto
  have "apfst ((@) [ev e]) (apfst ((@) (map ev es)) x) = apfst ((@) (ev e # map ev es)) x" for x :: "'e list \<times> sse_error option"
    by (cases x) simp
  then show ?case
    using through_whole [OF s'(1) Cons.prems(2), of "eol @ ?more"] whole_line [OF Cons.prems(1), of s' ?more] s'(2) IH by simp
qed simp

end

interpretation openai: line_protocol SseReader
  by unfold_locales (auto simp: SseReader_def sse_line_def Let_def split: if_splits option.splits prod.splits)

interpretation anthropic: line_protocol AnthropicSseReader
  by unfold_locales (auto simp: AnthropicSseReader_def anthropic_line_def Let_def split: if_splits option.splits)

interpretation gemini: line_protocol GeminiSseReader
  by unfold_locales (auto simp: GeminiSseReader_def gemini_line_def Let_def split: if_splits option.splits)


section \<open>Printing events\<close>

text \<open>
  An event as a server sends it: its lines after \<^verbatim>\<open>data:\<close>, an empty line, and for the Anthropic protocol the
  kind of the event before them. Lines end in a newline or in a carriage return and a newline.
\<close>

definition data_line :: "string \<Rightarrow> string \<Rightarrow> string" where
  "data_line eol l = ''data: '' @ l @ eol"

definition print_event :: "string \<Rightarrow> string list \<Rightarrow> string" where
  "print_event eol ls = concat (map (data_line eol) ls) @ eol"

definition print_typed_event :: "string \<Rightarrow> string \<times> string list \<Rightarrow> string" where
  "print_typed_event eol e = ''event: '' @ fst e @ eol @ print_event eol (snd e)"

definition line_end :: "string \<Rightarrow> bool" where
  "line_end eol \<longleftrightarrow> eol = [NL] \<or> eol = [CR, NL]"

definition plain_line :: "string \<Rightarrow> bool" where
  "plain_line l \<longleftrightarrow> utf8_valid l \<and> NL \<notin> set l \<and> (l \<noteq> [] \<longrightarrow> last l \<noteq> CR)"

definition payload :: "string list \<Rightarrow> bool" where
  "payload ls \<longleftrightarrow> ls \<noteq> [] \<and> list_all (\<lambda>l. plain_line l \<and> l \<noteq> [] \<and> ws_len l = 0 \<and> l \<noteq> DONE) ls"

lemma take_line_whole: "line_end eol \<Longrightarrow> NL \<notin> set l \<Longrightarrow> take_line (l @ eol) = Some (l @ eol, [])"
  using take_line_here [of "l @ [CR]" "[]"] take_line_here [of l "[]"] by (auto simp: line_end_def)

lemma strip_line_end:
  assumes "line_end eol" "plain_line l"
  shows "pop_if CR (pop_if NL (l @ eol)) = l" and "pop_all (\<lambda>c. c = NL \<or> c = CR) (l @ eol) = l"
proof -
  show "pop_if CR (pop_if NL (l @ eol)) = l"
    using assms by (auto simp: line_end_def plain_line_def pop_if_def butlast_append)
  have "pop_all (\<lambda>c. c = NL \<or> c = CR) l = l"
    using assms(2) by (cases l rule: rev_cases) (auto simp: pop_all_def plain_line_def)
  then show "pop_all (\<lambda>c. c = NL \<or> c = CR) (l @ eol) = l"
    using assms(1) by (auto simp: line_end_def pop_all_def)
qed

lemma prefixed_plain: "ascii p \<Longrightarrow> NL \<notin> set p \<Longrightarrow> CR \<notin> set p \<Longrightarrow> plain_line l \<Longrightarrow> plain_line (p @ l)"
  by (auto simp: plain_line_def valid_appendI ascii_valid last_append) (metis last_in_set)+

lemma ascii_fields: "ascii ''data: ''" "ascii ''event: ''" "utf8_valid DONE"
  by (auto simp: ascii_def DONE_def intro!: ascii_valid)

lemma trim_start_space: "trim_start (CHR '' '' # l) = trim_start l"
  by (subst trim_start.simps) (simp add: ws_len_def)

lemma trim_start_id: "ws_len l = 0 \<Longrightarrow> trim_start l = l"
  by (simp add: trim_start.simps)

lemma strip_fields [simp]:
  "strip_prefix ''data:'' (''data: '' @ l) = Some (CHR '' '' # l)"
  "strip_prefix ''event:'' (''data: '' @ l) = None"
  "strip_prefix ''event:'' (''event: '' @ l) = Some (CHR '' '' # l)"
  by (simp_all add: strip_prefix_def)


lemma empty_plain: "plain_line []"
  by (simp add: plain_line_def utf8_valid.simps)

lemma data_line_parts:
  assumes "line_end eol" "plain_line l"
  shows "take_line (data_line eol l) = Some (data_line eol l, [])" "plain_line (''data: '' @ l)"
proof -
  show p: "plain_line (''data: '' @ l)" using assms(2) by (intro prefixed_plain) (auto simp: ascii_fields)
  then show "take_line (data_line eol l) = Some (data_line eol l, [])"
    using take_line_whole [OF assms(1), of "''data: '' @ l"] by (simp add: data_line_def plain_line_def)
qed

text \<open>What a data line and an empty line do, in each protocol.\<close>

lemma sse_data_line:
  "line_end eol \<Longrightarrow> plain_line l \<Longrightarrow> sse_line es (data_line eol l) = Continue (es @ [''data: '' @ l])"
  using strip_line_end(1) [of eol "''data: '' @ l"] data_line_parts(2) [of eol l]
  by (simp add: sse_line_def data_line_def plain_line_def)

lemma anthropic_data_line:
  "line_end eol \<Longrightarrow> plain_line l \<Longrightarrow> ws_len l = 0 \<Longrightarrow> anthropic_line s (data_line eol l) =
     (if l = DONE then Return s True None else Continue (s\<lparr>current_data := current_data s @ [l]\<rparr>))"
  using strip_line_end(2) [of eol "''data: '' @ l"] data_line_parts(2) [of eol l] strip_fields(1,2) [of l]
  by (simp add: anthropic_line_def data_line_def plain_line_def trim_start_space trim_start_id)

lemma gemini_data_line:
  "line_end eol \<Longrightarrow> plain_line l \<Longrightarrow> ws_len l = 0 \<Longrightarrow> gemini_line ls (data_line eol l) =
     (if l = DONE then Return [] True (if ls \<noteq> [] then Some (join [NL] ls) else None) else Continue (ls @ [l]))"
  using strip_line_end(2) [of eol "''data: '' @ l"] data_line_parts(2) [of eol l] strip_fields(1) [of l]
  by (simp add: gemini_line_def data_line_def plain_line_def trim_start_space trim_start_id)

lemma anthropic_kind_line:
  assumes "line_end eol" "plain_line t" "trim t = t"
  shows "anthropic_line s (''event: '' @ t @ eol) = Continue (s\<lparr>current_event := Some t\<rparr>)"
    and "take_line (''event: '' @ t @ eol) = Some (''event: '' @ t @ eol, [])"
proof -
  have p: "plain_line (''event: '' @ t)" using assms(2) by (intro prefixed_plain) (auto simp: ascii_fields)
  have "trim (CHR '' '' # t) = t" using assms(3) by (simp add: trim_def trim_start_space)
  then show "anthropic_line s (''event: '' @ t @ eol) = Continue (s\<lparr>current_event := Some t\<rparr>)"
    using strip_line_end(2) [OF assms(1) p] p strip_fields(3) [of t] by (simp add: anthropic_line_def plain_line_def)
  show "take_line (''event: '' @ t @ eol) = Some (''event: '' @ t @ eol, [])"
    using take_line_whole [OF assms(1), of "''event: '' @ t"] p by (simp add: plain_line_def)
qed

lemma payload_through:
  assumes "line_end eol" "payload ls"
  shows "through SseReader es (map (data_line eol) ls) = Some (es @ map ((@) ''data: '') ls)"
    and "through AnthropicSseReader s (map (data_line eol) ls) = Some (s\<lparr>current_data := current_data s @ ls\<rparr>)"
    and "through GeminiSseReader gs (map (data_line eol) ls) = Some (gs @ ls)"
    and "list_all (\<lambda>x. take_line x = Some (x, [])) (map (data_line eol) ls)"
proof -
  have ok: "list_all (\<lambda>l. plain_line l \<and> l \<noteq> [] \<and> ws_len l = 0 \<and> l \<noteq> DONE) ls" using assms(2) by (simp add: payload_def)
  show "through SseReader es (map (data_line eol) ls) = Some (es @ map ((@) ''data: '') ls)"
    using ok by (induction ls arbitrary: es) (simp_all add: SseReader_def sse_data_line [OF assms(1)])
  show "through AnthropicSseReader s (map (data_line eol) ls) = Some (s\<lparr>current_data := current_data s @ ls\<rparr>)"
    using ok by (induction ls arbitrary: s) (simp_all add: AnthropicSseReader_def anthropic_data_line [OF assms(1)])
  show "through GeminiSseReader gs (map (data_line eol) ls) = Some (gs @ ls)"
    using ok by (induction ls arbitrary: gs) (simp_all add: GeminiSseReader_def gemini_data_line [OF assms(1)])
  show "list_all (\<lambda>x. take_line x = Some (x, [])) (map (data_line eol) ls)"
    using ok by (induction ls) (simp_all add: data_line_parts [OF assms(1)])
qed

lemma payload_join:
  assumes "payload ls"
  shows "join [NL] ls \<noteq> []" "join [NL] ls \<noteq> DONE"
proof -
  consider (one) l where "ls = [l]" "payload [l]" | (many) a b ks where "ls = a # b # ks"
    using assms by (cases ls; cases "tl ls") (auto simp: payload_def)
  then have "join [NL] ls \<noteq> [] \<and> join [NL] ls \<noteq> DONE"
  proof cases
    case many
    then have "NL \<in> set (join [NL] ls)" by simp
    then show ?thesis by (auto simp: DONE_def)
  qed (simp add: payload_def)
  then show "join [NL] ls \<noteq> []" "join [NL] ls \<noteq> DONE" by auto
qed

lemma collect_data: "list_all (\<lambda>l. ws_len l = 0) ls \<Longrightarrow>
  map trim_start (List.map_filter (strip_prefix ''data:'') (map ((@) ''data: '') ls)) = ls"
  using strip_fields(1) by (induction ls) (simp_all add: map_filter_simps trim_start_space trim_start_id strip_prefix_def)

lemma payload_ends:
  assumes "line_end eol" "payload ls"
  shows "sse_line (map ((@) ''data: '') ls) eol = Return [] False (Some (join [NL] ls))"
    and "anthropic_line \<lparr>current_event = t, current_data = ls\<rparr> eol
      = Return no_event False (Some (unwrap_or_default t, join [NL] ls))"
    and "gemini_line ls eol = Return [] False (Some (join [NL] ls))"
proof -
  have "list_all (\<lambda>l. ws_len l = 0) ls" "ls \<noteq> []" using assms(2) by (auto simp: payload_def list_all_iff)
  note this collect_data [OF this(1)] payload_join [OF assms(2)]
    strip_line_end(1) [OF assms(1) empty_plain] strip_line_end(2) [OF assms(1) empty_plain]
  then show "sse_line (map ((@) ''data: '') ls) eol = Return [] False (Some (join [NL] ls))"
    "anthropic_line \<lparr>current_event = t, current_data = ls\<rparr> eol
      = Return no_event False (Some (unwrap_or_default t, join [NL] ls))"
    "gemini_line ls eol = Return [] False (Some (join [NL] ls))"
    by (simp_all add: sse_line_def build_sse_event_def anthropic_line_def gemini_line_def)
qed


text \<open>The readers on a body of printed events, with the sentinel after them or without it.\<close>

lemma eol_line: "line_end eol \<Longrightarrow> take_line eol = Some (eol, [])"
  using take_line_whole [of eol "[]"] by simp

lemma DONE_line: "plain_line DONE" "ws_len DONE = 0"
  using ascii_fields(3) by (simp_all add: plain_line_def DONE_def ws_len_def)

lemma nothing_left:
  "whole SseReader [] [] = ([], None)" "whole AnthropicSseReader no_event [] = ([], None)" "whole GeminiSseReader [] [] = ([], None)"
  "settled SseReader [] []" "settled AnthropicSseReader no_event []" "settled GeminiSseReader [] []"
  by (simp_all add: whole.simps settled.simps take_line_def sse_protocols sse_end_def anthropic_end_def gemini_end_def
      finish_event_def build_sse_event_def)

lemma sentinel:
  assumes "line_end eol"
  shows "whole SseReader [] (print_event eol [DONE]) = ([], None) \<and> settled SseReader [] (print_event eol [DONE])"
    and "whole AnthropicSseReader no_event (print_event eol [DONE]) = ([], None) \<and> settled AnthropicSseReader no_event (print_event eol [DONE])"
    and "whole GeminiSseReader [] (print_event eol [DONE]) = ([], None) \<and> settled GeminiSseReader [] (print_event eol [DONE])"
proof -
  have p: "print_event eol [DONE] = data_line eol DONE @ eol" by (simp add: print_event_def)
  note d = data_line_parts(1) [OF assms DONE_line(1)]
  have e: "sse_line [''data: '' @ DONE] eol = Return [] True None"
    using strip_line_end(1) [OF assms empty_plain] DONE_line collect_data [of "[DONE]"]
    by (simp add: sse_line_def build_sse_event_def DONE_def)
  show "whole SseReader [] (print_event eol [DONE]) = ([], None) \<and> settled SseReader [] (print_event eol [DONE])"
    unfolding p using openai.whole_line [OF d, of "[]" eol] openai.whole_line [OF eol_line [OF assms], of "[''data: '' @ DONE]" "[]"]
      sse_data_line [OF assms DONE_line(1), of "[]"] e
    by (simp add: SseReader_def sse_end_def finish_event_def build_sse_event_def)
  show "whole AnthropicSseReader no_event (print_event eol [DONE]) = ([], None) \<and> settled AnthropicSseReader no_event (print_event eol [DONE])"
    unfolding p using anthropic.whole_line [OF d, of no_event eol] anthropic_data_line [OF assms DONE_line, of no_event]
    by (simp add: AnthropicSseReader_def anthropic_end_def)
  show "whole GeminiSseReader [] (print_event eol [DONE]) = ([], None) \<and> settled GeminiSseReader [] (print_event eol [DONE])"
    unfolding p using gemini.whole_line [OF d, of "[]" eol] gemini_data_line [OF assms DONE_line, of "[]"]
    by (simp add: GeminiSseReader_def gemini_end_def)
qed

lemma printed_events:
  assumes "line_end eol" and "list_all payload es" and "fin = [] \<or> fin = print_event eol [DONE]"
  shows "whole SseReader [] (concat (map (print_event eol) es) @ fin) = (map (join [NL]) es, None)
      \<and> settled SseReader [] (concat (map (print_event eol) es) @ fin)"
    and "whole GeminiSseReader [] (concat (map (print_event eol) es) @ fin) = (map (join [NL]) es, None)
      \<and> settled GeminiSseReader [] (concat (map (print_event eol) es) @ fin)"
proof -
  have ok: "payload ls" if "ls \<in> set es" for ls using assms(2) that by (simp add: list_all_iff)
  have pr: "(\<lambda>e. concat (map (data_line eol) e) @ eol) = print_event eol" by (simp add: fun_eq_iff print_event_def)
  have "\<exists>s'. through SseReader [] (map (data_line eol) ls) = Some s' \<and> on_line SseReader s' eol = Return [] False (Some (join [NL] ls))"
    if "ls \<in> set es" for ls
    using payload_through(1) [OF assms(1) ok, OF that, of "[]"] payload_ends(1) [OF assms(1) ok, OF that] by (simp add: SseReader_def)
  note ev1 = openai.events_whole [where es = es and xs = "map (data_line eol)" and s = "[]" and ev = "join [NL]" and rest = fin,
      OF eol_line [OF assms(1)] payload_through(4) [OF assms(1) ok] this, unfolded pr]
  show "whole SseReader [] (concat (map (print_event eol) es) @ fin) = (map (join [NL]) es, None)
      \<and> settled SseReader [] (concat (map (print_event eol) es) @ fin)"
    using ev1 assms(3) sentinel(1) [OF assms(1)] nothing_left by auto
  have "\<exists>s'. through GeminiSseReader [] (map (data_line eol) ls) = Some s' \<and> on_line GeminiSseReader s' eol = Return [] False (Some (join [NL] ls))"
    if "ls \<in> set es" for ls
    using payload_through(3) [OF assms(1) ok, OF that, of "[]"] payload_ends(3) [OF assms(1) ok, OF that] by (simp add: GeminiSseReader_def)
  note ev3 = gemini.events_whole [where es = es and xs = "map (data_line eol)" and s = "[]" and ev = "join [NL]" and rest = fin,
      OF eol_line [OF assms(1)] payload_through(4) [OF assms(1) ok] this, unfolded pr]
  show "whole GeminiSseReader [] (concat (map (print_event eol) es) @ fin) = (map (join [NL]) es, None)
      \<and> settled GeminiSseReader [] (concat (map (print_event eol) es) @ fin)"
    using ev3 assms(3) sentinel(3) [OF assms(1)] nothing_left by auto
qed

lemma printed_typed_events:
  assumes "line_end eol" and "list_all (\<lambda>(t, ls). plain_line t \<and> trim t = t \<and> payload ls) es"
    and "fin = [] \<or> fin = print_event eol [DONE]"
  shows "whole AnthropicSseReader no_event (concat (map (print_typed_event eol) es) @ fin) = (map (map_prod id (join [NL])) es, None)
      \<and> settled AnthropicSseReader no_event (concat (map (print_typed_event eol) es) @ fin)"
proof -
  let ?xs = "\<lambda>(t, ls). (''event: '' @ t @ eol) # map (data_line eol) ls"
  have ok: "plain_line (fst e)" "trim (fst e) = fst e" "payload (snd e)" if "e \<in> set es" for e
    using assms(2) that by (auto simp: list_all_iff)
  have pr: "(\<lambda>e. concat (?xs e) @ eol) = print_typed_event eol"
    by (auto simp: fun_eq_iff print_typed_event_def print_event_def)
  have ls: "list_all (\<lambda>x. take_line x = Some (x, [])) (?xs e)" if "e \<in> set es" for e
    using payload_through(4) [OF assms(1) ok(3), OF that] anthropic_kind_line(2) [OF assms(1) ok(1,2), OF that that]
    by (simp add: case_prod_unfold)
  have "\<exists>s'. through AnthropicSseReader no_event (?xs e) = Some s'
      \<and> on_line AnthropicSseReader s' eol = Return no_event False (Some (map_prod id (join [NL]) e))" if "e \<in> set es" for e
    using payload_through(2) [OF assms(1) ok(3), OF that, of "\<lparr>current_event = Some (fst e), current_data = []\<rparr>"]
      anthropic_kind_line(1) [OF assms(1) ok(1,2), OF that that, of no_event]
      payload_ends(2) [OF assms(1) ok(3), OF that, of "Some (fst e)"]
    by (cases e) (simp add: AnthropicSseReader_def unwrap_or_default_def)
  note ev2 = anthropic.events_whole [where es = es and xs = ?xs and s = no_event and ev = "map_prod id (join [NL])" and rest = fin,
      OF eol_line [OF assms(1)] ls this, unfolded pr]
  show ?thesis using ev2 assms(3) sentinel(2) [OF assms(1)] nothing_left by auto
qed


section \<open>The properties\<close>

lemma gemini_settled: "settled GeminiSseReader ls bs"
proof (induction "GeminiSseReader" ls bs rule: settled.induct)
  case (1 ls bs)
  then show ?case
    by (subst settled.simps)
      (auto simp: GeminiSseReader_def gemini_end_def gemini_line_def Let_def split: option.splits verdict.splits if_splits)
qed

text \<open>
  How the body of a streamed answer is cut into reads does not matter. Each of the three readers, called until it
  gives no more events, yields on a body that arrives without a failure exactly what one pass over the lines
  of the whole body yields, errors included: a line, an event or a character cut by a read boundary is put together again.
  The Gemini reader does so on every body; the two others on bodies in which the \<^verbatim>\<open>[DONE]\<close> sentinel finds
  no unfinished event, and, for the OpenAI reader, in which nothing follows the sentinel.
\<close>

lemma sse_reads_do_not_matter:
  "(list_all (arrives SseReader) body \<and> settled SseReader [] (content body) \<longrightarrow>
      read_all SseReader (from_reader [] body) = whole SseReader [] (content body))
   \<and> (list_all (arrives AnthropicSseReader) body \<and> settled AnthropicSseReader no_event (content body) \<longrightarrow>
      read_all AnthropicSseReader (from_reader no_event body) = whole AnthropicSseReader no_event (content body))
   \<and> (list_all (arrives GeminiSseReader) body \<longrightarrow>
      read_all GeminiSseReader (from_reader [] body) = whole GeminiSseReader [] (content body))"
  using openai.read_all_whole [of "from_reader [] body"] anthropic.read_all_whole [of "from_reader no_event body"]
    gemini.read_all_whole [of "from_reader [] body"] gemini_settled
  by (simp add: from_reader_def)

lemma sse_reads_do_not_matter_witness:
  "read_all GeminiSseReader (from_reader [] [Bytes ''data: a'', WouldBlock, Bytes (''b'' @ [NL]), Bytes [NL]])
   = whole GeminiSseReader [] (''data: ab'' @ [NL, NL])"
  using sse_reads_do_not_matter [of "[Bytes ''data: a'', WouldBlock, Bytes (''b'' @ [NL]), Bytes [NL]]"] by (simp add: GeminiSseReader_def)

lemma bytes_arrive: "list_all (\<lambda>x. \<exists>bs. x = Bytes bs \<and> bs \<noteq> []) b \<Longrightarrow> list_all (arrives P) b"
  by (auto simp: list_all_iff)

text \<open>
  C27. Events survive the wire. A server prints a list of events, each of one or more lines of UTF-8 text that
  are not empty, do not start with white space and are not the sentinel, with line ends of either kind, and the
  sentinel after them or not. However the bytes are cut into reads, each reader yields exactly the events printed, in
  order, an event of several lines as one text with the newlines between them, and then ends without an error.
\<close>

theorem sse_roundtrip:
  assumes "line_end eol" and "list_all (\<lambda>(t, ls). plain_line t \<and> trim t = t \<and> payload ls) es"
    and "fin = [] \<or> fin = print_event eol [DONE]"
    and "list_all (\<lambda>x. \<exists>bs. x = Bytes bs \<and> bs \<noteq> []) body"
    and "content body = concat (map (print_event eol \<circ> snd) es) @ fin"
    and "list_all (\<lambda>x. \<exists>bs. x = Bytes bs \<and> bs \<noteq> []) typed_body"
    and "content typed_body = concat (map (print_typed_event eol) es) @ fin"
  shows "read_all SseReader (from_reader [] body) = (map (join [NL] \<circ> snd) es, None)
    \<and> read_all GeminiSseReader (from_reader [] body) = (map (join [NL] \<circ> snd) es, None)
    \<and> read_all AnthropicSseReader (from_reader no_event typed_body) = (map (map_prod id (join [NL])) es, None)"
proof -
  have "list_all payload (map snd es)" using assms(2) by (auto simp: list_all_iff)
  note plain = printed_events [OF assms(1) this assms(3), simplified]
  note typed = printed_typed_events [OF assms(1-3)]
  show ?thesis
    using openai.read_all_whole [of "from_reader [] body"] anthropic.read_all_whole [of "from_reader no_event typed_body"]
      gemini.read_all_whole [of "from_reader [] body"] bytes_arrive [OF assms(4), of SseReader]
      bytes_arrive [OF assms(4), of GeminiSseReader] bytes_arrive [OF assms(6), of AnthropicSseReader] plain typed assms(5,7)
    by (simp add: from_reader_def comp_def)
qed


definition demo_events :: "(string \<times> string list) list" where
  "demo_events = [(''delta'', [''a'', ''b'']), (''stop'', [''{}''])]"

lemma demo_events_ok: "list_all (\<lambda>(t, ls). plain_line t \<and> trim t = t \<and> payload ls) demo_events"
proof -
  have "utf8_valid l" if "l \<in> {''delta'', ''stop'', ''a'', ''b'', ''{}''}" for l
    using that by (auto intro!: ascii_valid simp: ascii_def)
  moreover have "trim ''delta'' = ''delta''" "trim ''stop'' = ''stop''" by code_simp+
  ultimately show ?thesis by (simp add: demo_events_def plain_line_def payload_def ws_len_def DONE_def)
qed

definition cut :: "nat \<Rightarrow> string \<Rightarrow> body_read list" where
  "cut n bs = [Bytes (take n bs), Bytes (drop n bs)]"

theorem sse_roundtrip_witness:
  "read_all SseReader (from_reader [] (cut 9 (concat (map (print_event [CR, NL] \<circ> snd) demo_events) @ print_event [CR, NL] [DONE])))
     = ([''a'' @ [NL] @ ''b'', ''{}''], None)"
proof -
  let ?plain = "concat (map (print_event [CR, NL] \<circ> snd) demo_events) @ print_event [CR, NL] [DONE]"
  let ?typed = "concat (map (print_typed_event [CR, NL]) demo_events) @ print_event [CR, NL] [DONE]"
  have "list_all (\<lambda>x. \<exists>bs. x = Bytes bs \<and> bs \<noteq> []) (cut 9 ?plain)" "content (cut 9 ?plain) = ?plain"
    "list_all (\<lambda>x. \<exists>bs. x = Bytes bs \<and> bs \<noteq> []) (cut 9 ?typed)" "content (cut 9 ?typed) = ?typed"
    by (simp_all add: cut_def demo_events_def print_typed_event_def print_event_def data_line_def)
  then show ?thesis
    using sse_roundtrip [of "[CR, NL]" demo_events "print_event [CR, NL] [DONE]" "cut 9 ?plain" "cut 9 ?typed"] demo_events_ok
    by (simp add: line_end_def demo_events_def)
qed

section \<open>After the sentinel\<close>

text \<open>
  The sentinel does not end the reading: the OpenAI reader goes on with the next read, and yields an event that
  follows the sentinel; and in every reader a failure of the read after the sentinel is reported.
\<close>

lemma openai_past_done:
  "next_event SseReader (from_reader [] [Bytes (''data: [DONE]'' @ [NL, NL]), Bytes (''data: x'' @ [NL, NL])])
   = (Inr (Some ''x''), \<lparr>rd_body = [], rd_pending = [], rd_lines = [], rd_finished = True\<rparr>)"
  by code_simp

lemma failure_after_done:
  "fst (next_event SseReader (from_reader [] [Bytes (''data: [DONE]'' @ [NL, NL]), ReadFailed e])) = Inl (BodyError e)"
  "fst (next_event AnthropicSseReader (from_reader no_event [Bytes (''data: [DONE]'' @ [NL, NL]), ReadFailed e])) = Inl (BodyError e)"
  "fst (next_event GeminiSseReader (from_reader [] [Bytes (''data: [DONE]'' @ [NL, NL]), ReadFailed e])) = Inl (BodyError e)"
  by code_simp+

text \<open>An event whose last line has no newline is lost by the Anthropic and Gemini readers, and kept by the OpenAI one.\<close>

lemma unfinished_last_line:
  "read_all SseReader (from_reader [] [Bytes ''data: x'']) = ([''x''], None)"
  "read_all AnthropicSseReader (from_reader no_event [Bytes ''data: x'']) = ([], None)"
  "read_all GeminiSseReader (from_reader [] [Bytes ''data: x'']) = ([], None)"
  by code_simp+

end
