(* ===== verification/Sse_Stream.thy ===== *)
theory Sse_Stream
  imports Sse_Theorems "HOL-Library.Sublist"
begin

text \<open>
  \<^verbatim>\<open>choreo-ai-protocols/src/stream.rs\<close>: the thread that calls the reader of a streamed answer, the bounded
  channel it sends to, and the consumer, which waits for an event, a cancellation or the deadline at once. The
  reader is the closure \<open>next\<close> with its state. The threads interleave in any order; a send to the
  full channel waits. Logging is not modelled.
\<close>

section \<open>The channel and the thread\<close>

definition SSE_CHANNEL_CAPACITY :: nat where
  "SSE_CHANNEL_CAPACITY = 64"

datatype 'e SseStreamMsg = SseEvent 'e | SseEnd | SseErr sse_error

datatype stream_error = StreamCancelled | DeadlineExceeded | StreamIo sse_error | ReaderDied

text \<open>Where the reader thread is: at the head of its loop, in \<^verbatim>\<open>next\<close>, before a send, or gone.\<close>

datatype 'e reader_thread = Boundary | InNext | Sending "'e SseStreamMsg" | Exited

text \<open>Where the consumer is: outside \<^verbatim>\<open>recv_sse_event\<close>, waiting in its \<^verbatim>\<open>select\<close>, or through with the stream.\<close>

datatype 'e consumer = Working | Waiting | Through "stream_error + 'e option" | Dropped

record ('r, 'e) SseStream =
  ss_reader :: 'r
  ss_thread :: "'e reader_thread"
  ss_rx :: "'e SseStreamMsg list"
  ss_aborts :: nat \<comment> \<open>messages in the abort channel\<close>
  ss_alive :: bool \<comment> \<open>the receiver of the events exists\<close>
  ss_deadline :: "nat option"
  ss_now :: nat
  ss_cancel :: bool \<comment> \<open>a message waits in the cancellation channel\<close>
  ss_consumer :: "'e consumer"
  ss_received :: "'e list" \<comment> \<open>the events the consumer was given\<close>

definition spawn_sse_reader :: "'r \<Rightarrow> nat option \<Rightarrow> nat \<Rightarrow> ('r, 'e) SseStream" where
  "spawn_sse_reader r deadline now =
     \<lparr>ss_reader = r, ss_thread = Boundary, ss_rx = [], ss_aborts = 0, ss_alive = True, ss_deadline = deadline,
      ss_now = now, ss_cancel = False, ss_consumer = Working, ss_received = []\<rparr>"

text \<open>The message the thread sends for what \<^verbatim>\<open>next\<close> returned; after all but an event it returns.\<close>

fun message_of :: "sse_error + 'e option \<Rightarrow> 'e SseStreamMsg" where
  "message_of (Inr (Some item)) = SseEvent item"
| "message_of (Inr None) = SseEnd"
| "message_of (Inl e) = SseErr e"

fun after_send :: "'e SseStreamMsg \<Rightarrow> 'e reader_thread" where
  "after_send (SseEvent _) = Boundary"
| "after_send _ = Exited"

text \<open>A step of the thread; \<open>None\<close> when it has to wait for room, or is gone.\<close>

definition reader_thread_step ::
  "('r \<Rightarrow> (sse_error + 'e option) \<times> 'r) \<Rightarrow> ('r, 'e) SseStream \<Rightarrow> ('r, 'e) SseStream option" where
  "reader_thread_step next s =
     (case ss_thread s of
        Boundary \<Rightarrow>
          Some (if ss_aborts s \<noteq> 0 then s\<lparr>ss_aborts := ss_aborts s - 1, ss_thread := Exited\<rparr> else s\<lparr>ss_thread := InNext\<rparr>)
      | InNext \<Rightarrow> (let (res, r) = next (ss_reader s) in Some (s\<lparr>ss_reader := r, ss_thread := Sending (message_of res)\<rparr>))
      | Sending msg \<Rightarrow>
          if \<not> ss_alive s then Some (s\<lparr>ss_thread := Exited\<rparr>)
          else if length (ss_rx s) < SSE_CHANNEL_CAPACITY then
            Some (s\<lparr>ss_rx := ss_rx s @ [msg], ss_thread := after_send msg\<rparr>)
          else None
      | Exited \<Rightarrow> None)"

section \<open>The consumer\<close>

text \<open>A message, or the error of a channel whose sender is gone.\<close>

fun handle_sse_msg :: "'e SseStreamMsg option \<Rightarrow> stream_error + 'e option" where
  "handle_sse_msg (Some (SseEvent item)) = Inr (Some item)"
| "handle_sse_msg (Some SseEnd) = Inr None"
| "handle_sse_msg (Some (SseErr e)) = Inl (StreamIo e)"
| "handle_sse_msg None = Inl ReaderDied"

text \<open>What the caller does with a result: it works on an event, and is through with the stream otherwise.\<close>

definition returns :: "stream_error + 'e option \<Rightarrow> ('r, 'e) SseStream \<Rightarrow> ('r, 'e) SseStream" where
  "returns res s =
     (case res of
        Inr (Some item) \<Rightarrow> s\<lparr>ss_consumer := Working, ss_received := ss_received s @ [item]\<rparr>
      | _ \<Rightarrow> s\<lparr>ss_consumer := Through res\<rparr>)"

definition abort :: "('r, 'e) SseStream \<Rightarrow> ('r, 'e) SseStream" where
  "abort s = s\<lparr>ss_aborts := ss_aborts s + 1\<rparr>"

text \<open>The arms of the \<^verbatim>\<open>select\<close>: each is the state after it, or nothing while it is not ready.\<close>

definition cancel_arm :: "('r, 'e) SseStream \<Rightarrow> ('r, 'e) SseStream option" where
  "cancel_arm s = (if ss_cancel s then Some (returns (Inl StreamCancelled) (abort (s\<lparr>ss_cancel := False\<rparr>))) else None)"

definition message_arm :: "('r, 'e) SseStream \<Rightarrow> ('r, 'e) SseStream option" where
  "message_arm s =
     (case ss_rx s of
        msg # rest \<Rightarrow> Some (returns (handle_sse_msg (Some msg)) (s\<lparr>ss_rx := rest\<rparr>))
      | [] \<Rightarrow> if ss_thread s = Exited then Some (returns (handle_sse_msg None) s) else None)"

definition past_deadline :: "('r, 'e) SseStream \<Rightarrow> bool" where
  "past_deadline s \<longleftrightarrow> (case ss_deadline s of Some d \<Rightarrow> d \<le> ss_now s | None \<Rightarrow> False)"

definition deadline_arm :: "('r, 'e) SseStream \<Rightarrow> ('r, 'e) SseStream option" where
  "deadline_arm s = (if past_deadline s then Some (returns (Inl DeadlineExceeded) (abort s)) else None)"

text \<open>
  The call: the check of the deadline, then the biased \<^verbatim>\<open>select\<close>, which takes the first arm that is ready when
  the call begins, and otherwise waits.
\<close>

definition recv_sse_event :: "('r, 'e) SseStream \<Rightarrow> ('r, 'e) SseStream" where
  "recv_sse_event s =
     (case deadline_arm s of
        Some t \<Rightarrow> t
      | None \<Rightarrow>
          (case cancel_arm s of
             Some t \<Rightarrow> t
           | None \<Rightarrow> (case message_arm s of Some t \<Rightarrow> t | None \<Rightarrow> s\<lparr>ss_consumer := Waiting\<rparr>)))"

text \<open>\<^verbatim>\<open>Drop\<close>: the abort signal, and the receiver goes with the stream.\<close>

definition drop_stream :: "('r, 'e) SseStream \<Rightarrow> ('r, 'e) SseStream" where
  "drop_stream s = (abort s)\<lparr>ss_alive := False, ss_consumer := Dropped\<rparr>"

section \<open>All of it\<close>

text \<open>
  The consumer calls while it works, wakes up by any arm that is ready, and drops the stream at the end or whenever it works. The user
  cancels and time passes at any moment.
\<close>

inductive sse_step :: "('r \<Rightarrow> (sse_error + 'e option) \<times> 'r) \<Rightarrow> ('r, 'e) SseStream \<Rightarrow> ('r, 'e) SseStream \<Rightarrow> bool"
  for "next" where
  thread: "reader_thread_step next s = Some t \<Longrightarrow> sse_step next s t"
| call: "ss_consumer s = Working \<Longrightarrow> sse_step next s (recv_sse_event s)"
| wake: "ss_consumer s = Waiting \<Longrightarrow> t \<in> {cancel_arm s, message_arm s, deadline_arm s} \<Longrightarrow> t = Some t' \<Longrightarrow> sse_step next s t'"
| finish: "ss_consumer s = Working \<or> ss_consumer s = Through res \<Longrightarrow> sse_step next s (drop_stream s)"
| cancel: "sse_step next s (s\<lparr>ss_cancel := True\<rparr>)"
| tick: "sse_step next s (s\<lparr>ss_now := ss_now s + 1\<rparr>)"

definition sse_init :: "'r \<Rightarrow> ('r, 'e) SseStream \<Rightarrow> bool" where
  "sse_init r s \<longleftrightarrow> (\<exists>deadline now. s = spawn_sse_reader r deadline now)"


section \<open>What the consumer is given\<close>

text \<open>The results of calls of \<^verbatim>\<open>next\<close> in a row, and the state after them.\<close>

fun runs :: "('r \<Rightarrow> (sse_error + 'e option) \<times> 'r) \<Rightarrow> 'r \<Rightarrow> (sse_error + 'e option) list \<Rightarrow> 'r option" where
  "runs next r [] = Some r"
| "runs next r (x # xs) = (if fst (next r) = x then runs next (snd (next r)) xs else None)"

lemma runs_snoc: "runs next r xs = Some r' \<Longrightarrow> runs next r (xs @ [fst (next r')]) = Some (snd (next r'))"
  by (induction xs arbitrary: r) (auto split: if_splits)

lemma runs_append: "runs next r (xs @ ys) = Some r' \<Longrightarrow> \<exists>m. runs next r xs = Some m"
  by (induction xs arbitrary: r) (auto split: if_splits)

text \<open>The messages made so far, given to the consumer or on their way.\<close>

definition last_given :: "'e consumer \<Rightarrow> 'e SseStreamMsg list" where
  "last_given c = (case c of Through (Inr None) \<Rightarrow> [SseEnd] | Through (Inl (StreamIo e)) \<Rightarrow> [SseErr e] | _ \<Rightarrow> [])"

definition in_hand :: "'e reader_thread \<Rightarrow> 'e SseStreamMsg list" where
  "in_hand th = (case th of Sending msg \<Rightarrow> [msg] | _ \<Rightarrow> [])"

definition history :: "('r, 'e) SseStream \<Rightarrow> 'e SseStreamMsg list" where
  "history s = map SseEvent (ss_received s) @ last_given (ss_consumer s) @ ss_rx s @ in_hand (ss_thread s)"

definition is_event :: "'e SseStreamMsg \<Rightarrow> bool" where
  "is_event m \<longleftrightarrow> (case m of SseEvent _ \<Rightarrow> True | _ \<Rightarrow> False)"

text \<open>Every message is a result of the reader, in the order of its calls.\<close>

definition traced :: "('r \<Rightarrow> (sse_error + 'e option) \<times> 'r) \<Rightarrow> 'r \<Rightarrow> ('r, 'e) SseStream \<Rightarrow> bool" where
  "traced next r0 s \<longleftrightarrow>
     (if ss_consumer s = Dropped then \<exists>xs r. runs next r0 xs = Some r \<and> map message_of xs = map SseEvent (ss_received s)
      else \<exists>xs. runs next r0 xs = Some (ss_reader s) \<and> map message_of xs = history s)"

definition listening :: "('r, 'e) SseStream \<Rightarrow> bool" where
  "listening s \<longleftrightarrow> ss_consumer s = Working \<or> ss_consumer s = Waiting"

definition orderly :: "('r, 'e) SseStream \<Rightarrow> bool" where
  "orderly s \<longleftrightarrow>
     length (ss_rx s) \<le> SSE_CHANNEL_CAPACITY
     \<and> (listening s \<longrightarrow> ss_alive s \<and> ss_aborts s = 0 \<and> (ss_thread s = Exited \<longrightarrow> \<not> list_all is_event (ss_rx s)))
     \<and> (\<forall>res. ss_consumer s = Through res \<longrightarrow> ss_alive s \<and> res \<noteq> Inl ReaderDied \<and> (\<forall>ev. res \<noteq> Inr (Some ev)))"

lemmas stream_defs = history_def last_given_def in_hand_def is_event_def returns_def abort_def

lemma traced_same:
  "traced next r0 s \<Longrightarrow> ss_consumer s \<noteq> Dropped \<Longrightarrow> ss_consumer t \<noteq> Dropped \<Longrightarrow> ss_reader t = ss_reader s \<Longrightarrow>
   history t = history s \<Longrightarrow> traced next r0 t"
  by (simp add: traced_def)

lemma thread_traced:
  assumes "traced next r0 s" "reader_thread_step next s = Some t" "ss_consumer s \<noteq> Dropped \<longrightarrow> ss_alive s"
  shows "traced next r0 t"
proof (cases "ss_consumer s = Dropped")
  case True
  then have "ss_consumer t = Dropped" "ss_received t = ss_received s"
    using assms(2) by (auto simp: reader_thread_step_def case_prod_unfold Let_def split: reader_thread.splits if_splits)
  then show ?thesis using assms(1) True by (simp add: traced_def)
next
  case kept: False
  show ?thesis
  proof (cases "ss_thread s")
    case InNext
    obtain res r where n: "next (ss_reader s) = (res, r)" by fastforce
    have t: "t = s\<lparr>ss_reader := r, ss_thread := Sending (message_of res)\<rparr>"
      using assms(2) InNext n by (simp add: reader_thread_step_def)
    obtain xs where xs: "runs next r0 xs = Some (ss_reader s)" "map message_of xs = history s"
      using assms(1) kept by (auto simp: traced_def)
    have "runs next r0 (xs @ [res]) = Some r" using runs_snoc [OF xs(1)] n by simp
    moreover have "map message_of (xs @ [res]) = history t" using xs(2) InNext by (simp add: t history_def in_hand_def)
    ultimately show ?thesis using kept t by (auto simp: traced_def)
  next
    case (Sending msg)
    then have "history t = history s" "ss_reader t = ss_reader s" "ss_consumer t = ss_consumer s"
      using assms(2,3) kept by (cases msg; auto simp: reader_thread_step_def history_def in_hand_def split: if_splits)+
    then show ?thesis using traced_same [OF assms(1) kept] kept by simp
  next
    case Boundary
    then have "history t = history s" "ss_reader t = ss_reader s" "ss_consumer t = ss_consumer s"
      using assms(2) by (auto simp: reader_thread_step_def history_def in_hand_def split: if_splits)
    then show ?thesis using traced_same [OF assms(1) kept] kept by simp
  qed (use assms in \<open>auto simp: reader_thread_step_def\<close>)
qed

lemma thread_orderly: "orderly s \<Longrightarrow> reader_thread_step next s = Some t \<Longrightarrow> orderly t"
  by (auto simp: orderly_def listening_def reader_thread_step_def is_event_def case_prod_unfold Let_def
      split: reader_thread.splits if_splits SseStreamMsg.splits elim: after_send.elims)

lemma arms_keep:
  assumes "traced next r0 s" "orderly s" "listening s" "Some t \<in> {cancel_arm s, message_arm s, deadline_arm s}"
  shows "traced next r0 t" "orderly t"
proof -
  have c: "ss_consumer s \<noteq> Dropped" "last_given (ss_consumer s) = []" using assms(3) by (auto simp: listening_def last_given_def)
  have live: "ss_rx s = [] \<Longrightarrow> ss_thread s \<noteq> Exited" using assms(2,3) by (auto simp: orderly_def)
  have "history t = history s \<and> ss_reader t = ss_reader s \<and> ss_consumer t \<noteq> Dropped"
  proof (cases "message_arm s = Some t")
    case True
    then obtain m rest where "ss_rx s = m # rest" using live by (cases "ss_rx s") (auto simp: message_arm_def)
    then show ?thesis using True c(2) by (cases m) (auto simp: message_arm_def stream_defs)
  qed (use assms(4) c in \<open>auto simp: cancel_arm_def deadline_arm_def stream_defs split: if_splits\<close>)
  then show "traced next r0 t" using traced_same [OF assms(1) c(1)] by simp
  show "orderly t"
  proof (cases "message_arm s = Some t")
    case True
    then obtain m rest where "ss_rx s = m # rest" using live by (cases "ss_rx s") (auto simp: message_arm_def)
    then show ?thesis using True assms(2,3)
      by (cases m) (auto simp: message_arm_def returns_def is_event_def orderly_def listening_def)
  qed (use assms in \<open>auto simp: cancel_arm_def deadline_arm_def returns_def abort_def orderly_def listening_def split: if_splits\<close>)
qed

lemma call_is_arm:
  "recv_sse_event s = s\<lparr>ss_consumer := Waiting\<rparr> \<or> Some (recv_sse_event s) \<in> {cancel_arm s, message_arm s, deadline_arm s}"
  by (auto simp: recv_sse_event_def split: option.splits)

lemma drop_keeps:
  assumes "traced next r0 s" "orderly s" "ss_consumer s \<noteq> Dropped"
  shows "traced next r0 (drop_stream s)" "orderly (drop_stream s)"
proof -
  obtain xs where xs: "runs next r0 xs = Some (ss_reader s)" "map message_of xs = history s"
    using assms(1,3) by (auto simp: traced_def)
  define n where "n = length (ss_received s)"
  have "map message_of (take n xs) = map SseEvent (ss_received s)"
    using xs(2) by (simp add: n_def history_def take_map [symmetric])
  moreover have "\<exists>m. runs next r0 (take n xs) = Some m" using runs_append [of "next" r0 "take n xs" "drop n xs"] xs(1) by simp
  ultimately show "traced next r0 (drop_stream s)" by (auto simp: traced_def drop_stream_def abort_def)
  show "orderly (drop_stream s)" using assms(2) by (simp add: orderly_def listening_def drop_stream_def abort_def)
qed

definition stream_inv :: "('r \<Rightarrow> (sse_error + 'e option) \<times> 'r) \<Rightarrow> 'r \<Rightarrow> ('r, 'e) SseStream \<Rightarrow> bool" where
  "stream_inv next r0 s \<longleftrightarrow> traced next r0 s \<and> orderly s"

lemma stream_inv_step:
  assumes "stream_inv next r0 s" "sse_step next s t"
  shows "stream_inv next r0 t"
  using assms(2)
proof cases
  case thread
  have "ss_consumer s \<noteq> Dropped \<longrightarrow> ss_alive s"
    using assms(1) by (cases "ss_consumer s") (auto simp: stream_inv_def orderly_def listening_def)
  then show ?thesis
    using assms(1) thread thread_traced [of "next" r0 s t] thread_orderly [of s "next" t] by (auto simp: stream_inv_def)
next
  case call
  show ?thesis
  proof (cases "recv_sse_event s = s\<lparr>ss_consumer := Waiting\<rparr>")
    case True
    then show ?thesis using assms(1) call
      by (auto simp: stream_inv_def orderly_def listening_def intro: traced_same simp: history_def last_given_def)
  next
    case False
    then show ?thesis
      using call_is_arm [of s] arms_keep [of "next" r0 s t] assms(1) call by (auto simp: stream_inv_def listening_def)
  qed
next
  case wake
  then show ?thesis using arms_keep [of "next" r0 s t] assms(1) by (auto simp: stream_inv_def listening_def)
next
  case (finish res)
  then show ?thesis using drop_keeps [of "next" r0 s] assms(1) by (auto simp: stream_inv_def)
qed (use assms(1) in \<open>auto simp: stream_inv_def traced_def orderly_def listening_def history_def\<close>)

lemma stream_inv_init: "sse_init r0 s \<Longrightarrow> stream_inv next r0 s"
  by (auto simp: sse_init_def spawn_sse_reader_def stream_inv_def traced_def orderly_def history_def last_given_def in_hand_def
      intro!: exI [of _ "[]"])

interpretation stream: stepping_system "sse_init r0" "sse_step next" "stream_inv next r0" for "next" r0
  by unfold_locales (auto intro: stream_inv_init stream_inv_step)


section \<open>The properties\<close>

lemma runs_read_all:
  "runs (next_event P) r xs = Some r' \<Longrightarrow> map message_of xs = map SseEvent evs @ ms \<Longrightarrow>
   prefix evs (fst (read_all P r)) \<and> (\<forall>ms'. ms = SseEnd # ms' \<longrightarrow> read_all P r = (evs, None))
   \<and> (\<forall>e ms'. ms = SseErr e # ms' \<longrightarrow> read_all P r = (evs, Some e))"
proof (induction evs arbitrary: r xs)
  case Nil
  have "xs = Inr None # tl xs" if "ms = SseEnd # ms'" for ms'
    using Nil that by (cases xs; cases "hd xs" rule: message_of.cases) auto
  moreover have "xs = Inl e # tl xs" if "ms = SseErr e # ms'" for e ms'
    using Nil that by (cases xs; cases "hd xs" rule: message_of.cases) auto
  ultimately show ?case
    using Nil.prems(1) by (cases xs) (auto simp: read_all.simps [of P r] case_prod_unfold split: if_splits)
next
  case (Cons ev evs)
  obtain xs' where xs: "xs = Inr (Some ev) # xs'" "map message_of xs' = map SseEvent evs @ ms"
    using Cons.prems(2) by (cases xs; cases "hd xs" rule: message_of.cases) auto
  have n: "fst (next_event P r) = Inr (Some ev)" "runs (next_event P) (snd (next_event P r)) xs' = Some r'"
    using Cons.prems(1) xs(1) by (auto split: if_splits)
  have "read_all P r = apfst (Cons ev) (read_all P (snd (next_event P r)))"
    using n(1) by (simp add: read_all.simps [of P r] case_prod_unfold)
  then show ?case using Cons.IH [OF n(2) xs(2)] by (cases "read_all P (snd (next_event P r))") auto
qed

text \<open>The abort signal: the thread ends at its next loop boundary, so no further call of the reader begins.\<close>

definition winding_down :: "'r \<Rightarrow> ('r, 'e) SseStream \<Rightarrow> bool" where
  "winding_down r s \<longleftrightarrow> ss_reader s = r \<and> (ss_thread s = Exited \<or> (ss_aborts s \<noteq> 0 \<and> ss_thread s \<noteq> InNext))"

lemma winding_down_step: "winding_down r s \<Longrightarrow> sse_step next s t \<Longrightarrow> winding_down r t"
  by (erule sse_step.cases)
    (auto simp: winding_down_def reader_thread_step_def recv_sse_event_def cancel_arm_def message_arm_def deadline_arm_def
      returns_def abort_def drop_stream_def case_prod_unfold Let_def
      split: reader_thread.splits if_splits option.splits list.splits sum.splits SseStreamMsg.splits elim!: after_send.elims)

interpretation winding: stepping_system "winding_down r" "sse_step next" "winding_down r" for "next" r
  by unfold_locales (auto intro: winding_down_step)

text \<open>
  C24. The stream between the reader thread and the consumer, in every interleaving of the two, of cancellations and of
  time: the channel holds at most its capacity; the consumer is given the events the reader yields, in their
  order, none lost and none twice; it is told of a clean end only when it has all of them, and of an
  error only when that error ended the reading; it never finds that the reader thread died. While it
  waits, a message is there for it or the thread can move, so the two do not block each other. Once the
  stream is aborted, the thread begins no further read.
\<close>

theorem stream_delivers:
  assumes "reachable (sse_init r0) (sse_step (next_event P)) s"
  shows "length (ss_rx s) \<le> 64
    \<and> prefix (ss_received s) (fst (read_all P r0))
    \<and> (ss_consumer s = Through (Inr None) \<longrightarrow> read_all P r0 = (ss_received s, None))
    \<and> (ss_consumer s = Through (Inl (StreamIo e)) \<longrightarrow> read_all P r0 = (ss_received s, Some e))
    \<and> ss_consumer s \<noteq> Through (Inl ReaderDied)
    \<and> (ss_consumer s = Waiting \<longrightarrow> ss_rx s \<noteq> [] \<or> reader_thread_step (next_event P) s \<noteq> None)
    \<and> ((sse_step (next_event P))\<^sup>*\<^sup>* s t \<longrightarrow> ss_aborts s \<noteq> 0 \<longrightarrow> ss_thread s \<noteq> InNext \<longrightarrow> ss_reader t = ss_reader s)"
proof -
  have inv: "traced (next_event P) r0 s" "orderly s" using stream.inv_reachable [OF assms] by (auto simp: stream_inv_def)
  obtain xs r ms where xs: "runs (next_event P) r0 xs = Some r" "map message_of xs = map SseEvent (ss_received s) @ ms"
      "ss_consumer s = Dropped \<or> ms = last_given (ss_consumer s) @ ss_rx s @ in_hand (ss_thread s)"
    using inv(1) unfolding traced_def history_def by (metis append_Nil2)
  note told = runs_read_all [OF xs(1,2)]
  have "ss_rx s \<noteq> [] \<or> reader_thread_step (next_event P) s \<noteq> None" if "ss_consumer s = Waiting"
    using that inv(2) by (cases "ss_thread s")
      (auto simp: orderly_def listening_def reader_thread_step_def SSE_CHANNEL_CAPACITY_def case_prod_unfold Let_def)
  moreover have "ss_reader t = ss_reader s"
    if "(sse_step (next_event P))\<^sup>*\<^sup>* s t" "ss_aborts s \<noteq> 0" "ss_thread s \<noteq> InNext"
    using winding.inv_steps [OF that(1), of "ss_reader s"] that(2,3) by (simp add: winding_down_def)
  ultimately show ?thesis
    using told xs(3) inv(2) by (auto simp: last_given_def orderly_def SSE_CHANNEL_CAPACITY_def)
qed


fun thread_steps ::
  "('r \<Rightarrow> (sse_error + 'e option) \<times> 'r) \<Rightarrow> nat \<Rightarrow> ('r, 'e) SseStream \<Rightarrow> ('r, 'e) SseStream option" where
  "thread_steps next 0 s = Some s"
| "thread_steps next (Suc n) s = (case reader_thread_step next s of Some t \<Rightarrow> thread_steps next n t | None \<Rightarrow> None)"

lemma reachable_thread_steps:
  "reachable (sse_init r0) (sse_step next) s \<Longrightarrow> thread_steps next n s = Some t \<Longrightarrow> reachable (sse_init r0) (sse_step next) t"
  by (induction n arbitrary: s) (auto split: option.splits intro: reachable_step sse_step.thread)

definition demo_body :: "string list reader" where
  "demo_body = from_reader [] [Bytes ''data: x'', Bytes [NL, NL]]"

definition demo_stream :: "(string list reader, string) SseStream" where
  "demo_stream = (spawn_sse_reader \<lparr>rd_body = [], rd_pending = [], rd_lines = [], rd_finished = True\<rparr> None 0)
     \<lparr>ss_thread := Exited, ss_rx := [SseEvent ''x'', SseEnd]\<rparr>"

theorem stream_delivers_witness:
  "ss_received (recv_sse_event (recv_sse_event demo_stream)) = [''x''] \<and> read_all SseReader demo_body = ([''x''], None)"
proof -
  have "thread_steps (next_event SseReader) 6 (spawn_sse_reader demo_body None 0) = Some demo_stream" by code_simp
  then have r: "reachable (sse_init demo_body) (sse_step (next_event SseReader)) demo_stream"
    by (rule reachable_thread_steps [OF reachable_init, rotated]) (auto simp: sse_init_def)
  have s1: "ss_consumer demo_stream = Working" "ss_consumer (recv_sse_event demo_stream) = Working"
    "ss_consumer (recv_sse_event (recv_sse_event demo_stream)) = Through (Inr None)"
    "ss_received (recv_sse_event (recv_sse_event demo_stream)) = [''x'']" by code_simp+
  have "reachable (sse_init demo_body) (sse_step (next_event SseReader)) (recv_sse_event (recv_sse_event demo_stream))"
    using r s1 by (meson reachable_step sse_step.call)
  from stream_delivers [OF this, of _ "recv_sse_event demo_stream"] s1 show ?thesis by simp
qed

end
