(* ===== verification/Responses.thy ===== *)
theory Responses
  imports Agent_Loop Retry Sse_Stream
begin

text \<open>
  The streamed turn of the OpenAI Responses API: \<^verbatim>\<open>parse_responses_stream_event\<close> of
  \<^verbatim>\<open>choreo-ai-protocols/src/openai/sse.rs\<close>, and \<^verbatim>\<open>responses_request_streaming_with_tools\<close> and
  \<^verbatim>\<open>responses_response_to_turn\<close> of \<^verbatim>\<open>openai/responses.rs\<close>, from the body of the answer to the result of the turn. The JSON
  library (parsing, printing, the derived decoders) is the parameter \<open>json_lib\<close>; what the callback
  \<^verbatim>\<open>on_event\<close> returns depends on the events it was given so far and is a parameter too.
\<close>

section \<open>Events\<close>

record usage =
  us_prompt_tokens :: u32
  us_completion_tokens :: u32
  us_total_tokens :: u32

datatype content_part = ContentPart string "string option"

datatype ResponseOutputItem =
    Message "content_part list"
  | Reasoning "json list"
  | FunctionCall string string string "caller_info option"
  | Program string "string option"
  | ProgramOutput string "string option" "string option"

record json_lib =
  jl_parse :: "string \<Rightarrow> json option" \<comment> \<open>\<^verbatim>\<open>serde_json::from_str\<close>\<close>
  jl_print :: "json \<Rightarrow> string" \<comment> \<open>\<^verbatim>\<open>to_string\<close>\<close>
  jl_usage :: "json \<Rightarrow> usage option" \<comment> \<open>\<^verbatim>\<open>from_value::<Usage>\<close>\<close>
  jl_item :: "json \<Rightarrow> ResponseOutputItem option" \<comment> \<open>\<^verbatim>\<open>from_value::<ResponseOutputItem>\<close>\<close>
  jl_to_vec :: "json list \<Rightarrow> u8 list option" \<comment> \<open>\<^verbatim>\<open>to_vec\<close>\<close>

datatype ResponsesStreamEvent =
    TextDelta string
  | TextDone
  | ReasoningSummary "json list"
  | ReasoningItem json
  | FunctionCallArgumentsDelta string string
  | FunctionCallArgumentsDone string string string
  | ResponseCompleted "string option" "usage option"
  | ResponseFailed string
  | ResponseIncomplete
  | ProgramCodeDelta string
  | ProgramCodeDone string "string option"
  | ProgramOutputDone string string string

definition str_field :: "string \<Rightarrow> json \<Rightarrow> string option" where
  "str_field k pl = Option.bind (json_get k pl) json_str"

definition str_or_default :: "string \<Rightarrow> json \<Rightarrow> string" where
  "str_or_default k pl = (case str_field k pl of Some s \<Rightarrow> s | None \<Rightarrow> [])"

definition failed_text :: "json_lib \<Rightarrow> json \<Rightarrow> string" where
  "failed_text lib pl =
     (case json_get ''error'' pl of
        None \<Rightarrow> []
      | Some (JString s) \<Rightarrow> s
      | Some other \<Rightarrow> (case str_field ''message'' other of Some m \<Rightarrow> m | None \<Rightarrow> jl_print lib other))"

definition parse_responses_stream_event :: "json_lib \<Rightarrow> string \<Rightarrow> string + ResponsesStreamEvent option" where
  "parse_responses_stream_event lib data =
     (case jl_parse lib data of
        None \<Rightarrow> Inl ''invalid JSON''
      | Some pl \<Rightarrow>
          (case str_field ''type'' pl of
             None \<Rightarrow> Inr None
           | Some event_type \<Rightarrow>
               if event_type = ''response.output_text.delta'' then Inr (map_option TextDelta (str_field ''delta'' pl))
               else if event_type = ''response.output_text.done'' then Inr (Some TextDone)
               else if event_type = ''response.reasoning.summary'' then
                 Inr (Some (ReasoningSummary (case json_get ''summary'' pl of Some (JArray vs) \<Rightarrow> vs | _ \<Rightarrow> [])))
               else if event_type = ''response.output_item.added'' \<or> event_type = ''response.output_item.done'' then
                 (case json_get ''item'' pl of
                    Some item \<Rightarrow> if str_field ''type'' item = Some ''reasoning'' then Inr (Some (ReasoningItem item)) else Inr None
                  | None \<Rightarrow> Inr None)
               else if event_type = ''response.function_call_arguments.delta'' then
                 Inr (Some (FunctionCallArgumentsDelta (str_or_default ''call_id'' pl) (str_or_default ''delta'' pl)))
               else if event_type = ''response.function_call_arguments.done'' then
                 Inr (Some (FunctionCallArgumentsDone (str_or_default ''call_id'' pl) (str_or_default ''name'' pl)
                   (str_or_default ''arguments'' pl)))
               else if event_type = ''response.completed'' then
                 Inr (Some (ResponseCompleted (str_field ''id'' pl) (Option.bind (json_get ''usage'' pl) (jl_usage lib))))
               else if event_type = ''response.failed'' then Inr (Some (ResponseFailed (failed_text lib pl)))
               else if event_type = ''response.incomplete'' then Inr (Some ResponseIncomplete)
               else if event_type = ''response.program.code.delta'' then Inr (map_option ProgramCodeDelta (str_field ''delta'' pl))
               else if event_type = ''response.program.code.done'' then
                 (case str_field ''call_id'' pl of
                    None \<Rightarrow> Inl ''missing call_id in response.program.code.done''
                  | Some call_id \<Rightarrow> Inr (Some (ProgramCodeDone call_id (str_field ''fingerprint'' pl))))
               else if event_type = ''response.program_output.done'' then
                 (case str_field ''call_id'' pl of
                    None \<Rightarrow> Inl ''missing call_id in response.program_output.done''
                  | Some call_id \<Rightarrow>
                      Inr (Some (ProgramOutputDone call_id (str_or_default ''result'' pl) (str_or_default ''status'' pl))))
               else Inr None))"

section \<open>Helpers of the turn\<close>

definition MAX_TOOL_CALLS :: nat where
  "MAX_TOOL_CALLS = 128"

definition extract_reasoning_text :: "json list \<Rightarrow> string option" where
  "extract_reasoning_text summary =
     (let parts = List.map_filter (\<lambda>v. case json_str v of Some s \<Rightarrow> Some s | None \<Rightarrow> str_field ''text'' v) summary
      in if parts = [] then None else Some (join '' '' parts))"

datatype provider_error =
    PE_Io string
  | PE_EmptyResponse
  | PE_TruncatedToolCall "(string \<times> string) list"
  | PE_Stream stream_error

definition responses_items_artifact :: "json_lib \<Rightarrow> json list \<Rightarrow> provider_error + reasoning_artifact option" where
  "responses_items_artifact lib items =
     (if items = [] then Inr None
      else case jl_to_vec lib items of
             None \<Rightarrow> Inl (PE_Io ''serialize'')
           | Some bytes \<Rightarrow> Inr (Some (ResponsesItems bytes)))"

fun replace_first :: "('a \<Rightarrow> bool) \<Rightarrow> 'a \<Rightarrow> 'a list \<Rightarrow> 'a list option" where
  "replace_first p y [] = None"
| "replace_first p y (x # xs) = (if p x then Some (y # xs) else map_option (Cons x) (replace_first p y xs))"

definition merge_reasoning_item :: "json list \<Rightarrow> json \<Rightarrow> json list" where
  "merge_reasoning_item items item =
     (case str_field ''id'' item of
        None \<Rightarrow> items @ [item]
      | Some ident \<Rightarrow>
          (case replace_first (\<lambda>it. str_field ''id'' it = Some ident) item items of
             Some items' \<Rightarrow> items'
           | None \<Rightarrow> items @ [item]))"

definition validate_tool_call_arguments ::
  "json_lib \<Rightarrow> chat_tool_call list \<Rightarrow> chat_tool_call list \<times> (string \<times> string) list" where
  "validate_tool_call_arguments lib calls =
     (let ok = (\<lambda>tc. jl_parse lib (ct_arguments_json tc) \<noteq> None)
      in (filter ok calls, map (\<lambda>tc. (ct_name tc, ct_arguments_json tc)) (filter (\<lambda>tc. \<not> ok tc) calls)))"

definition token_usage_of :: "usage \<Rightarrow> token_usage" where
  "token_usage_of u =
     \<lparr>input_tokens = us_prompt_tokens u, output_tokens = us_completion_tokens u, total_tokens = us_total_tokens u\<rparr>"

definition if_nonempty :: "string \<Rightarrow> string option" where
  "if_nonempty s = (if s = [] then None else Some s)"


section \<open>The streamed turn\<close>

record AccCall =
  cal_name :: "string option"
  cal_arguments :: string
  cal_index :: u32

definition AccCall_new :: "u32 \<Rightarrow> AccCall" where
  "AccCall_new index = \<lparr>cal_name = None, cal_arguments = [], cal_index = index\<rparr>"

record responses_acc =
  ra_has_any_output :: bool
  ra_full_content :: string
  ra_full_reasoning :: string
  ra_last_usage :: "token_usage option"
  ra_response_id :: "string option"
  ra_reasoning_items :: "json list"
  ra_acc_calls :: "(string, AccCall) hmap"
  ra_next_tool_index :: u32
  ra_emitted :: "stream_event list" \<comment> \<open>what the callback was given\<close>

definition responses_acc_new :: responses_acc where
  "responses_acc_new =
     \<lparr>ra_has_any_output = False, ra_full_content = [], ra_full_reasoning = [], ra_last_usage = None, ra_response_id = None,
      ra_reasoning_items = [], ra_acc_calls = [], ra_next_tool_index = 0, ra_emitted = []\<rparr>"

text \<open>What the loop does after an event: read the next one, leave the loop, or return an error.\<close>

datatype flow = Next | Break | Fail provider_error

definition on_event :: "(stream_event list \<Rightarrow> string option) \<Rightarrow> stream_event \<Rightarrow> responses_acc \<Rightarrow> responses_acc \<times> flow" where
  "on_event fails ev a =
     (let a = a\<lparr>ra_emitted := ra_emitted a @ [ev]\<rparr>
      in (a, case fails (ra_emitted a) of None \<Rightarrow> Next | Some e \<Rightarrow> Fail (PE_Io e)))"

text \<open>\<^verbatim>\<open>entry(call_id).or_insert_with(...)\<close>, then the update of the entry.\<close>

definition with_entry :: "string \<Rightarrow> (AccCall \<Rightarrow> AccCall) \<Rightarrow> responses_acc \<Rightarrow> responses_acc" where
  "with_entry call_id f a =
     (case map_of (ra_acc_calls a) call_id of
        Some c \<Rightarrow> a\<lparr>ra_acc_calls := AList.update call_id (f c) (ra_acc_calls a)\<rparr>
      | None \<Rightarrow>
          a\<lparr>ra_acc_calls := AList.update call_id (f (AccCall_new (ra_next_tool_index a))) (ra_acc_calls a),
            ra_next_tool_index := ra_next_tool_index a + 1\<rparr>)"

fun handle_stream_event ::
  "(stream_event list \<Rightarrow> string option) \<Rightarrow> ResponsesStreamEvent \<Rightarrow> responses_acc \<Rightarrow> responses_acc \<times> flow" where
  "handle_stream_event fails (TextDelta txt) a =
     on_event fails (SE_Answer txt) (a\<lparr>ra_has_any_output := True, ra_full_content := ra_full_content a @ txt\<rparr>)"
| "handle_stream_event fails TextDone a = (a, Next)"
| "handle_stream_event fails (ReasoningSummary summary) a =
     (case extract_reasoning_text summary of
        Some txt \<Rightarrow>
          on_event fails (SE_Reasoning txt) (a\<lparr>ra_has_any_output := True, ra_full_reasoning := ra_full_reasoning a @ txt\<rparr>)
      | None \<Rightarrow> (a, Next))"
| "handle_stream_event fails (ReasoningItem item) a =
     (a\<lparr>ra_reasoning_items := merge_reasoning_item (ra_reasoning_items a) item\<rparr>, Next)"
| "handle_stream_event fails (FunctionCallArgumentsDelta call_id delta) a =
     (let a = a\<lparr>ra_has_any_output := True\<rparr>
      in if length (ra_acc_calls a) \<ge> MAX_TOOL_CALLS then (a, Fail (PE_Io ''too many tool calls (max 128)''))
         else (with_entry call_id (\<lambda>c. c\<lparr>cal_arguments := cal_arguments c @ delta\<rparr>) a, Next))"
| "handle_stream_event fails (FunctionCallArgumentsDone call_id name arguments) a =
     (with_entry call_id (\<lambda>c. c\<lparr>cal_name := Some name, cal_arguments := arguments\<rparr>) (a\<lparr>ra_has_any_output := True\<rparr>), Next)"
| "handle_stream_event fails (ResponseCompleted ident us) a =
     (a\<lparr>ra_response_id := ident, ra_last_usage := (case us of Some u \<Rightarrow> Some (token_usage_of u) | None \<Rightarrow> ra_last_usage a)\<rparr>,
      Break)"
| "handle_stream_event fails (ResponseFailed error) a = (a, Fail (PE_Io error))"
| "handle_stream_event fails ResponseIncomplete a = (a, Fail (PE_Io ''response incomplete''))"
| "handle_stream_event fails (ProgramCodeDelta delta) a = (a, Next)"
| "handle_stream_event fails (ProgramCodeDone call_id fingerprint) a = (a, Next)"
| "handle_stream_event fails (ProgramOutputDone call_id result status) a = (a, Next)"

text \<open>
  The loop over what \<^verbatim>\<open>recv_sse_event\<close> returns: the data of the events, and after them a clean end or an error.
\<close>

fun responses_loop ::
  "json_lib \<Rightarrow> (stream_event list \<Rightarrow> string option) \<Rightarrow> string list \<Rightarrow> stream_error option \<Rightarrow> responses_acc
     \<Rightarrow> responses_acc \<times> provider_error option" where
  "responses_loop lib fails [] fin a = (a, map_option PE_Stream fin)"
| "responses_loop lib fails (data # datas) fin a =
     (case parse_responses_stream_event lib data of
        Inl e \<Rightarrow> (a, Some (PE_Io e))
      | Inr None \<Rightarrow> responses_loop lib fails datas fin a
      | Inr (Some event) \<Rightarrow>
          (case handle_stream_event fails event a of
             (a', Next) \<Rightarrow> responses_loop lib fails datas fin a'
           | (a', Break) \<Rightarrow> (a', None)
           | (a', Fail e) \<Rightarrow> (a', Some e)))"

section \<open>The result of a turn\<close>

definition final_text_result :: "string \<Rightarrow> string \<Rightarrow> token_usage option \<Rightarrow> string option \<Rightarrow> reasoning_artifact option \<Rightarrow> turn_outcome" where
  "final_text_result txt reasoning us rid artifact =
     FinalText \<lparr>ft_content = txt, ft_reasoning = if_nonempty reasoning, ft_usage = us, ft_response_id = rid, ft_artifact = artifact\<rparr>"

definition tool_use_result ::
  "string \<Rightarrow> chat_tool_call list \<Rightarrow> string \<Rightarrow> token_usage option \<Rightarrow> string option \<Rightarrow> reasoning_artifact option \<Rightarrow> turn_outcome" where
  "tool_use_result txt calls reasoning us rid artifact =
     ToolUse \<lparr>tu_content = if_nonempty txt, tu_calls = calls, tu_reasoning = if_nonempty reasoning, tu_usage = us,
       tu_response_id = rid, tu_artifact = artifact\<rparr>"

text \<open>Only an entry that a done event gave a name becomes a call; the map is read in any order and sorted by index.\<close>

definition call_of_entry :: "string \<times> AccCall \<Rightarrow> chat_tool_call option" where
  "call_of_entry e =
     (case cal_name (snd e) of
        Some name \<Rightarrow>
          if name = [] then None
          else Some \<lparr>ct_id = fst e, ct_name = name, ct_arguments_json = cal_arguments (snd e), ct_caller = None\<rparr>
      | None \<Rightarrow> None)"

definition finish_streamed ::
  "json_lib \<Rightarrow> ((string \<times> AccCall) list \<Rightarrow> (string \<times> AccCall) list) \<Rightarrow> responses_acc \<Rightarrow> provider_error + turn_outcome" where
  "finish_streamed lib iter a =
     (case responses_items_artifact lib (ra_reasoning_items a) of
        Inl e \<Rightarrow> Inl e
      | Inr artifact \<Rightarrow>
          if \<not> ra_has_any_output a then Inl PE_EmptyResponse
          else
            let sorted = sort_key (\<lambda>e. cal_index (snd e)) (iter (ra_acc_calls a));
                (calls, discarded) = validate_tool_call_arguments lib (List.map_filter call_of_entry sorted)
            in if ra_acc_calls a \<noteq> [] \<and> calls \<noteq> [] then
                 Inr (tool_use_result (ra_full_content a) calls (ra_full_reasoning a) (ra_last_usage a) (ra_response_id a) artifact)
               else if ra_acc_calls a \<noteq> [] \<and> discarded \<noteq> [] \<and> ra_full_content a \<noteq> [] then
                 Inr (final_text_result (ra_full_content a) (ra_full_reasoning a) (ra_last_usage a) (ra_response_id a) artifact)
               else if ra_acc_calls a \<noteq> [] \<and> discarded \<noteq> [] then Inl (PE_TruncatedToolCall discarded)
               else if ra_full_content a = [] then Inl PE_EmptyResponse
               else Inr (final_text_result (ra_full_content a) (ra_full_reasoning a) (ra_last_usage a) (ra_response_id a) artifact))"

definition responses_request_streaming_with_tools ::
  "json_lib \<Rightarrow> (stream_event list \<Rightarrow> string option) \<Rightarrow> ((string \<times> AccCall) list \<Rightarrow> (string \<times> AccCall) list)
     \<Rightarrow> string list \<times> stream_error option \<Rightarrow> stream_event list \<times> (provider_error + turn_outcome)" where
  "responses_request_streaming_with_tools lib fails iter answer =
     (case responses_loop lib fails (fst answer) (snd answer) responses_acc_new of
        (a, Some e) \<Rightarrow> (ra_emitted a, Inl e)
      | (a, None) \<Rightarrow> (ra_emitted a, finish_streamed lib iter a))"

section \<open>The plain turn\<close>

record ResponsesResponse =
  rr_id :: "string option"
  rr_output :: "json list"
  rr_usage :: "usage option"

record output_acc =
  oa_full_text :: string
  oa_full_reasoning :: string
  oa_tool_calls :: "chat_tool_call list"
  oa_reasoning_items :: "json list"

fun part_text :: "content_part \<Rightarrow> string" where
  "part_text (ContentPart kind txt) = (if kind = ''output_text'' then (case txt of Some t \<Rightarrow> t | None \<Rightarrow> []) else [])"

fun handle_output_item :: "json \<Rightarrow> ResponseOutputItem \<Rightarrow> output_acc \<Rightarrow> output_acc" where
  "handle_output_item raw (Message parts) o' = o'\<lparr>oa_full_text := oa_full_text o' @ concat (map part_text parts)\<rparr>"
| "handle_output_item raw (Reasoning summary) o' =
     o'\<lparr>oa_full_reasoning := oa_full_reasoning o' @ (case extract_reasoning_text summary of Some t \<Rightarrow> t | None \<Rightarrow> []),
       oa_reasoning_items := oa_reasoning_items o' @ [raw]\<rparr>"
| "handle_output_item raw (FunctionCall call_id name arguments caller) o' =
     o'\<lparr>oa_tool_calls := oa_tool_calls o'
         @ [\<lparr>ct_id = call_id, ct_name = name, ct_arguments_json = arguments, ct_caller = caller\<rparr>]\<rparr>"
| "handle_output_item raw (Program call_id code) o' = o'"
| "handle_output_item raw (ProgramOutput call_id result status) o' = o'"

fun output_items :: "json_lib \<Rightarrow> json list \<Rightarrow> output_acc \<Rightarrow> output_acc option" where
  "output_items lib [] o' = Some o'"
| "output_items lib (raw # raws) o' =
     (case jl_item lib raw of None \<Rightarrow> None | Some item \<Rightarrow> output_items lib raws (handle_output_item raw item o'))"

definition responses_response_to_turn :: "json_lib \<Rightarrow> ResponsesResponse \<Rightarrow> provider_error + turn_outcome" where
  "responses_response_to_turn lib resp =
     (let us = map_option token_usage_of (rr_usage resp)
      in case output_items lib (rr_output resp)
             \<lparr>oa_full_text = [], oa_full_reasoning = [], oa_tool_calls = [], oa_reasoning_items = []\<rparr> of
           None \<Rightarrow> Inl (PE_Io ''invalid output item'')
         | Some o' \<Rightarrow>
             (case responses_items_artifact lib (oa_reasoning_items o') of
                Inl e \<Rightarrow> Inl e
              | Inr artifact \<Rightarrow>
                  let (calls, discarded) = validate_tool_call_arguments lib (oa_tool_calls o')
                  in if calls \<noteq> [] then
                       Inr (tool_use_result (oa_full_text o') calls (oa_full_reasoning o') us (rr_id resp) artifact)
                     else if discarded \<noteq> [] then
                       if oa_full_text o' \<noteq> [] then
                         Inr (final_text_result (oa_full_text o') (oa_full_reasoning o') us (rr_id resp) artifact)
                       else Inl (PE_TruncatedToolCall discarded)
                     else if oa_full_text o' = [] then Inl PE_EmptyResponse
                     else Inr (final_text_result (oa_full_text o') (oa_full_reasoning o') us (rr_id resp) artifact)))"

end
