(* ===== verification/Responses_Theorems.thy ===== *)
theory Responses_Theorems
  imports Responses "HOL-Library.Multiset"
begin

text \<open>
  The streamed turn returns what its events say: the text in order, one call for each completed call
  identifier in the order of their first appearance, with the arguments of the last done event; and it
  returns what the plain turn returns for the same output.
\<close>

section \<open>What a list of events says\<close>

fun is_completed :: "ResponsesStreamEvent \<Rightarrow> bool" where
  "is_completed (ResponseCompleted _ _) = True"
| "is_completed _ = False"

text \<open>The events the loop handles: all that parse, up to the completion.\<close>

fun handled :: "json_lib \<Rightarrow> string list \<Rightarrow> ResponsesStreamEvent list" where
  "handled lib [] = []"
| "handled lib (data # datas) =
     (case parse_responses_stream_event lib data of
        Inr (Some ev) \<Rightarrow> ev # (if is_completed ev then [] else handled lib datas)
      | _ \<Rightarrow> handled lib datas)"

fun text_of :: "ResponsesStreamEvent \<Rightarrow> string" where
  "text_of (TextDelta txt) = txt"
| "text_of _ = []"

fun call_of :: "ResponsesStreamEvent \<Rightarrow> string option" where
  "call_of (FunctionCallArgumentsDelta k _) = Some k"
| "call_of (FunctionCallArgumentsDone k _ _) = Some k"
| "call_of _ = None"

text \<open>The call identifiers in the order of their first appearance.\<close>

definition first_seen :: "ResponsesStreamEvent list \<Rightarrow> string list" where
  "first_seen evs = rev (remdups (rev (List.map_filter call_of evs)))"

text \<open>Name and arguments of one call: a done event sets both, a delta adds to the arguments.\<close>

fun entry_step :: "string \<Rightarrow> ResponsesStreamEvent \<Rightarrow> (string option \<times> string) option \<Rightarrow> (string option \<times> string) option" where
  "entry_step k (FunctionCallArgumentsDelta k' d) c =
     (if k = k' then (case c of Some (n, x) \<Rightarrow> Some (n, x @ d) | None \<Rightarrow> Some (None, d)) else c)"
| "entry_step k (FunctionCallArgumentsDone k' n x) c = (if k = k' then Some (Some n, x) else c)"
| "entry_step k _ c = c"

definition entry_after :: "string \<Rightarrow> ResponsesStreamEvent list \<Rightarrow> (string option \<times> string) option" where
  "entry_after k evs = fold (entry_step k) evs None"

definition completed_call :: "ResponsesStreamEvent list \<Rightarrow> string \<Rightarrow> chat_tool_call option" where
  "completed_call evs k =
     (case entry_after k evs of
        Some (Some name, args) \<Rightarrow>
          if name = [] then None else Some \<lparr>ct_id = k, ct_name = name, ct_arguments_json = args, ct_caller = None\<rparr>
      | _ \<Rightarrow> None)"

fun answer_text :: "stream_event \<Rightarrow> string" where
  "answer_text (SE_Answer txt) = txt"
| "answer_text _ = []"

section \<open>The loop keeps it\<close>

definition facts :: "AccCall \<Rightarrow> string option \<times> string" where
  "facts c = (cal_name c, cal_arguments c)"

definition accumulated :: "ResponsesStreamEvent list \<Rightarrow> responses_acc \<Rightarrow> bool" where
  "accumulated evs a \<longleftrightarrow>
     ra_full_content a = concat (map text_of evs)
     \<and> concat (map answer_text (ra_emitted a)) = concat (map text_of evs)
     \<and> map fst (ra_acc_calls a) = first_seen evs
     \<and> (\<forall>k. map_option facts (map_of (ra_acc_calls a) k) = entry_after k evs)
     \<and> map (cal_index \<circ> snd) (ra_acc_calls a) = map of_nat [0..<length (ra_acc_calls a)]
     \<and> ra_next_tool_index a = of_nat (length (ra_acc_calls a))"

lemma entry_after_snoc [simp]: "entry_after k (evs @ [ev]) = entry_step k ev (entry_after k evs)"
  by (simp add: entry_after_def)

lemma first_seen_snoc:
  "first_seen (evs @ [ev]) =
     (case call_of ev of None \<Rightarrow> first_seen evs
      | Some k \<Rightarrow> if k \<in> set (first_seen evs) then first_seen evs else first_seen evs @ [k])"
  by (auto simp: first_seen_def List.map_filter_def split: option.splits)

lemma update_new: "k \<notin> set (map fst al) \<Longrightarrow> AList.update k v al = al @ [(k, v)]"
  by (induction al) auto

lemma update_old: "map_of al k = Some c \<Longrightarrow> g v = g c \<Longrightarrow> map (g \<circ> snd) (AList.update k v al) = map (g \<circ> snd) al"
  by (induction al) auto

lemma accumulated_quiet:
  assumes "accumulated evs a" "call_of ev = None"
    and "ra_full_content a' = ra_full_content a @ text_of ev"
    and "concat (map answer_text (ra_emitted a')) = concat (map answer_text (ra_emitted a)) @ text_of ev"
    and "ra_acc_calls a' = ra_acc_calls a" "ra_next_tool_index a' = ra_next_tool_index a"
  shows "accumulated (evs @ [ev]) a'"
proof -
  have "entry_step k ev c = c" for k c using assms(2) by (cases ev) auto
  then show ?thesis using assms by (simp add: accumulated_def first_seen_snoc)
qed

lemma accumulated_entry:
  assumes "accumulated evs a" "call_of ev = Some k" "text_of ev = []"
    and f: "\<And>c. facts (f c) = the (entry_step k ev (Some (facts c)))" "\<And>i. facts (f (AccCall_new i)) = the (entry_step k ev None)"
      "\<And>c. cal_index (f c) = cal_index c"
    and e: "\<And>c. \<exists>x. entry_step k ev c = Some x" "\<And>k' c. k' \<noteq> k \<Longrightarrow> entry_step k' ev c = c"
  shows "accumulated (evs @ [ev]) (with_entry k f (a\<lparr>ra_has_any_output := b\<rparr>))"
proof (cases "map_of (ra_acc_calls a) k")
  case None
  then have new: "k \<notin> set (map fst (ra_acc_calls a))" by (simp add: map_of_eq_None_iff)
  have "entry_after k evs = None" using assms(1) None unfolding accumulated_def by (metis option.map_disc_iff)
  moreover have "map_of (ra_acc_calls a @ [(k, v)]) k' = (if k' = k then Some v else map_of (ra_acc_calls a) k')" for v k'
    using None by (auto simp: map_add_def split: option.splits)
  ultimately show ?thesis
    using assms(1-3) f e(1) [of None] e(2) None new
    by (auto simp: accumulated_def with_entry_def first_seen_snoc update_new AccCall_new_def)
next
  case (Some c)
  then have old: "k \<in> set (map fst (ra_acc_calls a))" by (metis map_of_eq_None_iff option.distinct(1) set_map)
  have "entry_after k evs = Some (facts c)" using assms(1) Some unfolding accumulated_def by (metis option.simps(9))
  moreover have "length (AList.update k v (ra_acc_calls a)) = length (ra_acc_calls a)" for v
    using old by (metis length_map update_keys)
  ultimately show ?thesis
    using assms(1-3) f e(1) [of "Some (facts c)"] e(2) Some old update_old [OF Some, of cal_index "f c"]
    by (auto simp: accumulated_def with_entry_def first_seen_snoc update_keys update_conv' comp_def)
qed

lemma handle_accumulates:
  assumes "accumulated evs a" "handle_stream_event fails ev a = (a', fl)" "\<forall>e. fl \<noteq> Fail e"
  shows "accumulated (evs @ [ev]) a'"
proof (cases ev)
  case (FunctionCallArgumentsDelta k d)
  then have "a' = with_entry k (\<lambda>c. c\<lparr>cal_arguments := cal_arguments c @ d\<rparr>) (a\<lparr>ra_has_any_output := True\<rparr>)"
    using assms(2,3) by (auto simp: Let_def split: if_splits)
  then show ?thesis
    using accumulated_entry [OF assms(1), of ev k] FunctionCallArgumentsDelta
    by (auto simp: facts_def AccCall_new_def split: option.splits)
next
  case (FunctionCallArgumentsDone k n x)
  then show ?thesis
    using accumulated_entry [OF assms(1), of ev k] assms(2) by (auto simp: facts_def AccCall_new_def split: option.splits)
qed (use accumulated_quiet [OF assms(1)] assms(2,3) in \<open>auto simp: on_event_def Let_def split: option.splits\<close>)

lemma loop_accumulates:
  "responses_loop lib fails datas fin a = (a', None) \<Longrightarrow> accumulated evs a \<Longrightarrow> accumulated (evs @ handled lib datas) a'"
proof (induction datas arbitrary: a evs)
  case (Cons data datas)
  show ?case
  proof (cases "parse_responses_stream_event lib data")
    case (Inr o')
    show ?thesis
    proof (cases o')
      case (Some ev)
      obtain a1 fl where h: "handle_stream_event fails ev a = (a1, fl)" by fastforce
      have acc: "accumulated (evs @ [ev]) a1" using handle_accumulates [OF Cons.prems(2) h] Cons.prems(1) Inr Some h by (cases fl) auto
      have "fl = Break \<longleftrightarrow> is_completed ev" if "\<forall>e. fl \<noteq> Fail e"
        using h that by (cases ev) (auto simp: on_event_def Let_def split: option.splits if_splits)
      then show ?thesis
        using Cons.prems(1) Cons.IH [of a1 "evs @ [ev]"] acc Inr Some h by (cases fl) auto
    qed (use Cons Inr in auto)
  qed (use Cons in auto)
qed simp


section \<open>The calls of a streamed turn\<close>

lemma sort_by_index:
  fixes xs :: "(string \<times> AccCall) list"
  assumes "mset ys = mset xs" "map (cal_index \<circ> snd) xs = map of_nat [0..<length xs]" "length xs < 2 ^ 32"
  shows "sort_key (\<lambda>e. cal_index (snd e)) ys = xs"
proof -
  have inj: "inj_on (of_nat :: nat \<Rightarrow> u32) {0..<length xs}"
    using assms(3) by (auto simp: inj_on_def word_of_nat_eq_iff take_bit_nat_eq_self)
  have m: "map (\<lambda>e. cal_index (snd e)) xs = map of_nat [0..<length xs]" using assms(2) by (simp add: comp_def)
  have "sorted (map (\<lambda>e. cal_index (snd e)) xs)"
    unfolding m using assms(3) by (auto simp: sorted_iff_nth_mono word_le_nat_alt unat_of_nat take_bit_nat_eq_self)
  moreover have "distinct (map (\<lambda>e. cal_index (snd e)) xs)" unfolding m using inj by (simp add: distinct_map)
  then have "inj_on (\<lambda>e. cal_index (snd e)) (set xs)" by (simp only: distinct_map)
  then have "inj_on (\<lambda>e. cal_index (snd e)) (set ys)" using mset_eq_setD [OF assms(1)] by simp
  ultimately show ?thesis by (intro sort_key_inj_key_eq [OF assms(1)])
qed

lemma map_filter_cong: "(\<And>x. x \<in> set xs \<Longrightarrow> f x = g x) \<Longrightarrow> List.map_filter f xs = List.map_filter g xs"
  by (induction xs) (auto simp: map_filter_simps split: option.splits)

lemma map_filter_map: "List.map_filter f (map g xs) = List.map_filter (f \<circ> g) xs"
  by (induction xs) (auto simp: map_filter_simps split: option.splits)

lemma accumulated_calls:
  assumes "accumulated evs a"
  shows "List.map_filter call_of_entry (ra_acc_calls a) = List.map_filter (completed_call evs) (first_seen evs)"
proof -
  have d: "distinct (map fst (ra_acc_calls a))" using assms by (simp add: accumulated_def first_seen_def)
  have "call_of_entry e = completed_call evs (fst e)" if "e \<in> set (ra_acc_calls a)" for e
  proof -
    have "map_of (ra_acc_calls a) (fst e) = Some (snd e)" using d that by simp
    then have "entry_after (fst e) evs = Some (facts (snd e))"
      using assms unfolding accumulated_def by (metis option.simps(9))
    then show ?thesis by (auto simp: call_of_entry_def completed_call_def facts_def split: option.splits)
  qed
  then have "List.map_filter call_of_entry (ra_acc_calls a) = List.map_filter (completed_call evs \<circ> fst) (ra_acc_calls a)"
    by (intro map_filter_cong) simp
  then show ?thesis using assms by (simp add: map_filter_map [symmetric] accumulated_def)
qed

lemma handled_length: "length (handled lib datas) \<le> length datas"
  by (induction datas) (auto split: sum.splits option.splits)

lemma first_seen_length: "length (first_seen evs) \<le> length evs"
  using length_remdups_leq [of "rev (List.map_filter call_of evs)"]
  by (simp add: first_seen_def List.map_filter_def) (meson le_trans length_filter_le)

text \<open>
  What a streamed turn returns. When a turn of the Responses API ends in a result, the text given to the subscribers piece
  by piece is, put together, the text of the events handled, and it is the text of the result. A
  result with tool calls has exactly one call for each call identifier that a done event named and whose arguments
  are JSON, in the order in which the identifiers first appeared, whatever the order the map is read in; each with
  the name and the arguments of its last done event followed by the deltas after it. A result without calls has a text,
  and there was no such call.
\<close>

lemma streamed_turn_spec:
  assumes "responses_request_streaming_with_tools lib fails iter (datas, fin) = (emitted, Inr out)"
    and "\<And>xs. mset (iter xs) = mset xs" and "length datas < 2 ^ 32"
    and "evs = handled lib datas"
    and "calls = filter (\<lambda>tc. jl_parse lib (ct_arguments_json tc) \<noteq> None) (List.map_filter (completed_call evs) (first_seen evs))"
  shows "concat (map answer_text emitted) = concat (map text_of evs)
    \<and> (case out of
         ToolUse tu \<Rightarrow> tu_calls tu = calls \<and> calls \<noteq> [] \<and> tu_content tu = if_nonempty (concat (map text_of evs))
       | FinalText ft \<Rightarrow> ft_content ft = concat (map text_of evs) \<and> ft_content ft \<noteq> [] \<and> calls = []
       | _ \<Rightarrow> False)"
proof -
  obtain a where l: "responses_loop lib fails datas fin responses_acc_new = (a, None)" "emitted = ra_emitted a"
      "finish_streamed lib iter a = Inr out"
    using assms(1) by (auto simp: responses_request_streaming_with_tools_def split: prod.splits option.splits)
  have "accumulated [] responses_acc_new"
    by (simp add: accumulated_def responses_acc_new_def first_seen_def entry_after_def List.map_filter_def)
  from loop_accumulates [OF l(1) this] have acc: "accumulated evs a" using assms(4) by simp
  have "length (ra_acc_calls a) = length (first_seen evs)" using acc unfolding accumulated_def by (metis length_map)
  then have "length (ra_acc_calls a) \<le> length datas"
    using first_seen_length [of evs] handled_length [of lib datas] assms(4) by simp
  then have "length (ra_acc_calls a) < 2 ^ 32" using assms(3) by (rule le_less_trans)
  then have srt: "sort_key (\<lambda>e. cal_index (snd e)) (iter (ra_acc_calls a)) = ra_acc_calls a"
    using sort_by_index [OF assms(2)] acc by (simp add: accumulated_def)
  have vc: "fst (validate_tool_call_arguments lib (List.map_filter call_of_entry (ra_acc_calls a))) = calls"
    using accumulated_calls [OF acc] assms(5) by (simp add: validate_tool_call_arguments_def Let_def)
  moreover have "calls = []" if "ra_acc_calls a = []" using vc that by (simp add: validate_tool_call_arguments_def Let_def List.map_filter_def)
  ultimately show ?thesis
    using l(2,3) acc srt
    by (auto simp: finish_streamed_def accumulated_def tool_use_result_def final_text_result_def Let_def case_prod_unfold
        split: sum.splits if_splits)
qed

text \<open>A small JSON library: it knows a few events and the empty object.\<close>

definition demo_json :: "string \<Rightarrow> json option" where
  "demo_json s =
     (if s = ''delta'' then Some (JObject [(''type'', JString ''response.function_call_arguments.delta''),
          (''call_id'', JString ''c1''), (''delta'', JString ''{'')])
      else if s = ''call'' then Some (JObject [(''type'', JString ''response.function_call_arguments.delta''),
          (''call_id'', JString ''c1''), (''delta'', JString ''{}'')])
      else if s = ''done'' then Some (JObject [(''type'', JString ''response.function_call_arguments.done''),
          (''call_id'', JString ''c1''), (''name'', JString ''ls''), (''arguments'', JString ''{}'')])
      else if s = ''text'' then Some (JObject [(''type'', JString ''response.output_text.delta''), (''delta'', JString ''hi'')])
      else if s = ''end'' then Some (JObject [(''type'', JString ''response.completed''), (''id'', JString ''r1'')])
      else if s = ''{}'' then Some (JObject [])
      else None)"

definition demo_json_lib :: json_lib where
  "demo_json_lib = \<lparr>jl_parse = demo_json, jl_print = (\<lambda>_. []), jl_usage = (\<lambda>_. None),
     jl_item = (\<lambda>v. if v = JString ''call'' then Some (FunctionCall ''c1'' ''ls'' ''{}'' None)
       else if v = JString ''text'' then Some (Message [ContentPart ''output_text'' (Some ''hi'')]) else None),
     jl_to_vec = (\<lambda>_. None)\<rparr>"

definition demo_call :: chat_tool_call where
  "demo_call = \<lparr>ct_id = ''c1'', ct_name = ''ls'', ct_arguments_json = ''{}'', ct_caller = None\<rparr>"

definition demo_turn :: tool_use where
  "demo_turn = \<lparr>tu_content = Some ''hi'', tu_calls = [demo_call], tu_reasoning = None, tu_usage = None,
     tu_response_id = Some ''r1'', tu_artifact = None\<rparr>"

lemma streamed_turn_spec_witness:
  "responses_request_streaming_with_tools demo_json_lib (\<lambda>_. None) rev ([''text'', ''delta'', ''done'', ''end''], None)
     = ([SE_Answer ''hi''], Inr (ToolUse demo_turn))
   \<and> filter (\<lambda>tc. jl_parse demo_json_lib (ct_arguments_json tc) \<noteq> None)
       (List.map_filter (completed_call (handled demo_json_lib [''text'', ''delta'', ''done'', ''end'']))
         (first_seen (handled demo_json_lib [''text'', ''delta'', ''done'', ''end'']))) = [demo_call]"
proof -
  have r: "responses_request_streaming_with_tools demo_json_lib (\<lambda>_. None) rev ([''text'', ''delta'', ''done'', ''end''], None)
     = ([SE_Answer ''hi''], Inr (ToolUse demo_turn))" by code_simp
  from streamed_turn_spec [OF r _ _ refl refl] r show ?thesis by (simp add: demo_turn_def)
qed

section \<open>The cap on tool calls\<close>

text \<open>
  The cap is tested on deltas only, and before looking whether the call is known: at the cap a delta of a known call ends the
  turn with an error, while done events add calls without a bound.
\<close>

lemma delta_at_cap:
  "MAX_TOOL_CALLS \<le> length (ra_acc_calls a) \<Longrightarrow>
   snd (handle_stream_event fails (FunctionCallArgumentsDelta k d) a) = Fail (PE_Io ''too many tool calls (max 128)'')"
  by simp

lemma done_has_no_cap:
  "map_of (ra_acc_calls a) k = None \<Longrightarrow>
   length (ra_acc_calls (fst (handle_stream_event fails (FunctionCallArgumentsDone k n x) a))) = Suc (length (ra_acc_calls a))"
  using update_new [of k "ra_acc_calls a"] map_of_eq_None_iff [of "ra_acc_calls a" k]
  by (auto simp: with_entry_def split: option.splits)

section \<open>The streamed and the plain turn\<close>

text \<open>The events of a stream for the items of a plain answer.\<close>

fun stream_of :: "json \<times> ResponseOutputItem \<Rightarrow> ResponsesStreamEvent list" where
  "stream_of (raw, Message parts) = map (TextDelta \<circ> part_text) parts"
| "stream_of (raw, Reasoning summary) = [ReasoningSummary summary, ReasoningItem raw]"
| "stream_of (raw, FunctionCall call_id name arguments caller) =
     [FunctionCallArgumentsDelta call_id arguments, FunctionCallArgumentsDone call_id name arguments]"
| "stream_of (raw, Program _ _) = []"
| "stream_of (raw, ProgramOutput _ _ _) = []"

text \<open>Every reasoning item and every call is a new one; calls have a name, no caller, and are at most as many as the cap.\<close>

fun fresh_item :: "output_acc \<Rightarrow> json \<times> ResponseOutputItem \<Rightarrow> bool" where
  "fresh_item o' (raw, Reasoning summary) \<longleftrightarrow>
     str_field ''id'' raw = None \<or> list_all (\<lambda>it. str_field ''id'' it \<noteq> str_field ''id'' raw) (oa_reasoning_items o')"
| "fresh_item o' (raw, FunctionCall call_id name arguments caller) \<longleftrightarrow>
     list_all (\<lambda>tc. ct_id tc \<noteq> call_id) (oa_tool_calls o') \<and> name \<noteq> [] \<and> caller = None \<and> length (oa_tool_calls o') < MAX_TOOL_CALLS"
| "fresh_item o' _ \<longleftrightarrow> True"

fun fresh :: "(json \<times> ResponseOutputItem) list \<Rightarrow> output_acc \<Rightarrow> bool" where
  "fresh [] o' \<longleftrightarrow> True"
| "fresh (it # its) o' \<longleftrightarrow> fresh_item o' it \<and> fresh its (handle_output_item (fst it) (snd it) o')"

text \<open>Events that are all handled without leaving the loop.\<close>

fun event_steps :: "ResponsesStreamEvent list \<Rightarrow> responses_acc \<Rightarrow> responses_acc option" where
  "event_steps [] a = Some a"
| "event_steps (ev # evs) a =
     (case handle_stream_event (\<lambda>_. None) ev a of (a', Next) \<Rightarrow> event_steps evs a' | _ \<Rightarrow> None)"

lemma loop_steps:
  "event_steps evs a = Some a' \<Longrightarrow> map (parse_responses_stream_event lib) datas = map (Inr \<circ> Some) evs \<Longrightarrow>
   responses_loop lib (\<lambda>_. None) (datas @ rest) fin a = responses_loop lib (\<lambda>_. None) rest fin a'"
proof (induction evs arbitrary: datas a)
  case (Cons ev evs)
  then obtain d ds where "datas = d # ds" "parse_responses_stream_event lib d = Inr (Some ev)"
      "map (parse_responses_stream_event lib) ds = map (Inr \<circ> Some) evs"
    by (cases datas) auto
  then show ?case using Cons by (auto split: prod.splits flow.splits)
qed simp

lemma event_steps_append: "event_steps xs a = Some a' \<Longrightarrow> event_steps (xs @ ys) a = event_steps ys a'"
  by (induction xs arbitrary: a) (auto split: prod.splits flow.splits)

text \<open>The two accumulators agree.\<close>

definition agrees :: "output_acc \<Rightarrow> responses_acc \<Rightarrow> bool" where
  "agrees o' a \<longleftrightarrow>
     ra_full_content a = oa_full_text o' \<and> ra_full_reasoning a = oa_full_reasoning o'
     \<and> ra_reasoning_items a = oa_reasoning_items o'
     \<and> map call_of_entry (ra_acc_calls a) = map Some (oa_tool_calls o')
     \<and> map fst (ra_acc_calls a) = map ct_id (oa_tool_calls o')
     \<and> map (cal_index \<circ> snd) (ra_acc_calls a) = map of_nat [0..<length (ra_acc_calls a)]
     \<and> ra_next_tool_index a = of_nat (length (ra_acc_calls a))
     \<and> length (oa_tool_calls o') \<le> MAX_TOOL_CALLS
     \<and> (oa_full_text o' \<noteq> [] \<or> oa_tool_calls o' \<noteq> [] \<longrightarrow> ra_has_any_output a)
     \<and> ra_last_usage a = None"

lemma text_steps:
  "\<exists>b em. event_steps (map (TextDelta \<circ> f) parts) a =
       Some (a\<lparr>ra_full_content := ra_full_content a @ concat (map f parts), ra_has_any_output := b, ra_emitted := em\<rparr>)
     \<and> (ra_has_any_output a \<or> parts \<noteq> [] \<longrightarrow> b)"
proof (induction parts arbitrary: a)
  case Nil
  have "a = a\<lparr>ra_full_content := ra_full_content a, ra_has_any_output := ra_has_any_output a, ra_emitted := ra_emitted a\<rparr>"
    by simp
  then show ?case by (intro exI [of _ "ra_has_any_output a"] exI [of _ "ra_emitted a"]) simp
next
  case (Cons p parts)
  let ?a = "a\<lparr>ra_has_any_output := True, ra_full_content := ra_full_content a @ f p, ra_emitted := ra_emitted a @ [SE_Answer (f p)]\<rparr>"
  from Cons.IH [of ?a] show ?case by (auto simp: on_event_def Let_def)
qed

lemma replace_first_none: "replace_first p y xs = None \<longleftrightarrow> list_all (\<lambda>x. \<not> p x) xs"
  by (induction xs) auto

lemma fresh_merge:
  "fresh_item o' (raw, Reasoning summary) \<Longrightarrow> merge_reasoning_item (oa_reasoning_items o') raw = oa_reasoning_items o' @ [raw]"
  using replace_first_none [of "\<lambda>it. str_field ''id'' it = str_field ''id'' raw" raw "oa_reasoning_items o'"]
  by (auto simp: merge_reasoning_item_def split: option.splits)

lemma update_last: "k \<notin> set (map fst al) \<Longrightarrow> AList.update k v' (al @ [(k, v)]) = al @ [(k, v')]"
  by (induction al) auto

lemma call_steps:
  assumes "k \<notin> set (map fst (ra_acc_calls a))" "length (ra_acc_calls a) < MAX_TOOL_CALLS"
  shows "event_steps [FunctionCallArgumentsDelta k x, FunctionCallArgumentsDone k n x] a =
    Some (a\<lparr>ra_has_any_output := True,
      ra_acc_calls := ra_acc_calls a @ [(k, \<lparr>cal_name = Some n, cal_arguments = x, cal_index = ra_next_tool_index a\<rparr>)],
      ra_next_tool_index := ra_next_tool_index a + 1\<rparr>)"
proof -
  have none: "map_of (ra_acc_calls a) k = None" using assms(1) by (simp add: map_of_eq_None_iff)
  have upd: "AList.update k v' (ra_acc_calls a @ [(k, v)]) = ra_acc_calls a @ [(k, v')]" for v v'
    using assms(1) by (rule update_last)
  have "map_of (ra_acc_calls a @ [(k, v)]) k = Some v" for v using none by (simp add: map_add_def)
  then show ?thesis
    using none upd update_new [OF assms(1)] assms(2) by (simp add: with_entry_def AccCall_new_def Let_def)
qed

lemma item_agrees:
  assumes "agrees o' a" "fresh_item o' (raw, item)"
  shows "\<exists>a1. event_steps (stream_of (raw, item)) a = Some a1 \<and> agrees (handle_output_item raw item o') a1"
proof (cases item)
  case (Message parts)
  obtain b em where st: "event_steps (map (TextDelta \<circ> part_text) parts) a =
       Some (a\<lparr>ra_full_content := ra_full_content a @ concat (map part_text parts), ra_has_any_output := b, ra_emitted := em\<rparr>)"
      "ra_has_any_output a \<or> parts \<noteq> [] \<longrightarrow> b"
    using text_steps [of part_text parts a] by blast
  moreover have "oa_full_text o' @ concat (map part_text parts) \<noteq> [] \<or> oa_tool_calls o' \<noteq> [] \<longrightarrow> b"
    using st(2) assms(1) unfolding agrees_def by (cases parts) auto
  ultimately show ?thesis using assms(1) Message by (simp add: agrees_def)
next
  case (Reasoning summary)
  then show ?thesis
    using assms fresh_merge [of o' raw summary]
    by (auto simp: agrees_def on_event_def Let_def split: option.splits)
next
  case (FunctionCall k n x c)
  have len: "length (ra_acc_calls a) = length (oa_tool_calls o')" using assms(1) unfolding agrees_def by (metis length_map)
  have "k \<notin> set (map fst (ra_acc_calls a))" "length (ra_acc_calls a) < MAX_TOOL_CALLS"
    using assms FunctionCall len by (auto simp: agrees_def list_all_iff)
  from call_steps [OF this, of x n] show ?thesis
    using assms FunctionCall len by (auto simp: agrees_def call_of_entry_def)
qed (use assms in auto)

lemma items_agree:
  "agrees o' a \<Longrightarrow> fresh its o' \<Longrightarrow> list_all (\<lambda>(raw, item). jl_item lib raw = Some item) its \<Longrightarrow>
   \<exists>o1 a1. output_items lib (map fst its) o' = Some o1 \<and> event_steps (concat (map stream_of its)) a = Some a1 \<and> agrees o1 a1"
proof (induction its arbitrary: o' a)
  case (Cons it its)
  obtain raw item where it: "it = (raw, item)" by (cases it)
  obtain a1 where a1: "event_steps (stream_of (raw, item)) a = Some a1" "agrees (handle_output_item raw item o') a1"
    using item_agrees [OF Cons.prems(1), of raw item] Cons.prems(2) it by auto
  then show ?case
    using Cons.IH [OF a1(2)] Cons.prems(2,3) it event_steps_append [OF a1(1)] by auto
qed simp

lemma finish_agrees:
  assumes "agrees o' a" "\<And>xs. mset (iter xs) = mset xs" "rr_output resp = map fst its"
    and "output_items lib (map fst its) \<lparr>oa_full_text = [], oa_full_reasoning = [], oa_tool_calls = [], oa_reasoning_items = []\<rparr> = Some o'"
  shows "finish_streamed lib iter (a\<lparr>ra_response_id := rr_id resp, ra_last_usage := map_option token_usage_of (rr_usage resp)\<rparr>)
    = responses_response_to_turn lib resp"
proof -
  have len: "length (ra_acc_calls a) = length (oa_tool_calls o')" using assms(1) unfolding agrees_def by (metis length_map)
  then have "length (ra_acc_calls a) < 2 ^ 32" using assms(1) by (simp add: agrees_def MAX_TOOL_CALLS_def)
  then have srt: "sort_key (\<lambda>e. cal_index (snd e)) (iter (ra_acc_calls a)) = ra_acc_calls a"
    using sort_by_index [OF assms(2)] assms(1) by (simp add: agrees_def)
  have calls: "List.map_filter call_of_entry (ra_acc_calls a) = oa_tool_calls o'"
    using assms(1) map_filter_map [of id call_of_entry "ra_acc_calls a"] map_filter_map [of id Some "oa_tool_calls o'"]
    by (auto simp: agrees_def List.map_filter_def)
  have "ra_acc_calls a \<noteq> [] \<longleftrightarrow> oa_tool_calls o' \<noteq> []" using len by auto
  moreover have "validate_tool_call_arguments lib [] = ([], [])" by (simp add: validate_tool_call_arguments_def)
  ultimately show ?thesis
    using assms(1,3,4) srt calls
    by (auto simp: finish_streamed_def responses_response_to_turn_def agrees_def Let_def case_prod_unfold split: sum.splits)
qed



end
