(* ===== verification/Chat_Stream.thy ===== *)
theory Chat_Stream
  imports Responses_Theorems
begin

text \<open>
  The streamed turn of the Chat Completions API, \<^verbatim>\<open>choreo-ai-protocols/src/openai/chat_completions.rs\<close>: the
  accumulator of the chunks, the merging of tool call deltas and the result. The derived decoder of a chunk is the
  parameter \<open>chunk_of\<close>.
\<close>

section \<open>Chunks\<close>

record StreamToolCallDelta =
  td_index :: u32
  td_id :: "string option"
  td_function :: "(string option \<times> string option) option" \<comment> \<open>name and arguments\<close>

record StreamDelta =
  sd_content :: "string option"
  sd_tool_calls :: "StreamToolCallDelta list option"
  sd_reasoning_content :: "string option"
  sd_reasoning :: "string option"
  sd_reasoning_text :: "string option"

record ChatCompletionsStreamResponse =
  cs_choices :: "StreamDelta option list"
  cs_usage :: "usage option"

section \<open>Merging the deltas of tool calls\<close>

record AccumulatingToolCall =
  mtc_id :: "string option"
  mtc_name :: "string option"
  mtc_arguments :: string

definition merge_delta :: "StreamToolCallDelta \<Rightarrow> AccumulatingToolCall \<Rightarrow> AccumulatingToolCall" where
  "merge_delta d entry =
     (let entry = (case td_id d of Some i \<Rightarrow> entry\<lparr>mtc_id := Some i\<rparr> | None \<Rightarrow> entry)
      in case td_function d of
           None \<Rightarrow> entry
         | Some (name, args) \<Rightarrow>
             let entry = (case name of Some n \<Rightarrow> entry\<lparr>mtc_name := Some n\<rparr> | None \<Rightarrow> entry)
             in (case args of Some x \<Rightarrow> entry\<lparr>mtc_arguments := mtc_arguments entry @ x\<rparr> | None \<Rightarrow> entry))"

definition mtc_default :: AccumulatingToolCall where
  "mtc_default = \<lparr>mtc_id = None, mtc_name = None, mtc_arguments = []\<rparr>"

definition merge_into :: "StreamToolCallDelta \<Rightarrow> (u32, AccumulatingToolCall) hmap \<Rightarrow> (u32, AccumulatingToolCall) hmap" where
  "merge_into d m =
     AList.update (td_index d) (merge_delta d (case map_of m (td_index d) of Some e \<Rightarrow> e | None \<Rightarrow> mtc_default)) m"

definition call_of_acc :: "AccumulatingToolCall \<Rightarrow> chat_tool_call" where
  "call_of_acc tc =
     \<lparr>ct_id = unwrap_or_default (mtc_id tc), ct_name = unwrap_or_default (mtc_name tc),
      ct_arguments_json = mtc_arguments tc, ct_caller = None\<rparr>"

definition accumulate_tool_calls_from_deltas ::
  "((u32 \<times> AccumulatingToolCall) list \<Rightarrow> (u32 \<times> AccumulatingToolCall) list) \<Rightarrow> StreamToolCallDelta list \<Rightarrow> chat_tool_call list" where
  "accumulate_tool_calls_from_deltas iter deltas =
     map (call_of_acc \<circ> snd) (sort_key fst (iter (fold merge_into deltas [])))"

section \<open>The accumulator\<close>

record ChatCompletionsStreamAccumulator =
  ca_has_any_output :: bool
  ca_full_content :: string
  ca_full_reasoning :: string
  ca_reasoning_field :: "chat_reasoning_field option"
  ca_raw_tool_call_deltas :: "StreamToolCallDelta list"
  ca_seen :: "bool list"
  ca_distinct :: nat
  ca_last_usage :: "token_usage option"
  ca_emitted :: "stream_event list" \<comment> \<open>what the callback was given\<close>

definition chat_acc_default :: ChatCompletionsStreamAccumulator where
  "chat_acc_default =
     \<lparr>ca_has_any_output = False, ca_full_content = [], ca_full_reasoning = [], ca_reasoning_field = None,
      ca_raw_tool_call_deltas = [], ca_seen = replicate MAX_TOOL_CALLS False, ca_distinct = 0, ca_last_usage = None, ca_emitted = []\<rparr>"

type_synonym chat_step = "ChatCompletionsStreamAccumulator \<times> provider_error option"

definition and_then :: "chat_step \<Rightarrow> (ChatCompletionsStreamAccumulator \<Rightarrow> chat_step) \<Rightarrow> chat_step" where
  "and_then r f = (case r of (a, Some e) \<Rightarrow> (a, Some e) | (a, None) \<Rightarrow> f a)"

definition chat_emit ::
  "(stream_event list \<Rightarrow> string option) \<Rightarrow> stream_event \<Rightarrow> ChatCompletionsStreamAccumulator \<Rightarrow> chat_step" where
  "chat_emit fails ev a =
     (let a = a\<lparr>ca_emitted := ca_emitted a @ [ev]\<rparr> in (a, map_option PE_Io (fails (ca_emitted a))))"

definition apply_content ::
  "(stream_event list \<Rightarrow> string option) \<Rightarrow> string option \<Rightarrow> ChatCompletionsStreamAccumulator \<Rightarrow> chat_step" where
  "apply_content fails txt a =
     (case txt of
        Some t \<Rightarrow>
          if t = [] then (a, None)
          else chat_emit fails (SE_Answer t) (a\<lparr>ca_has_any_output := True, ca_full_content := ca_full_content a @ t\<rparr>)
      | None \<Rightarrow> (a, None))"

definition apply_reasoning ::
  "(stream_event list \<Rightarrow> string option) \<Rightarrow> chat_reasoning_field \<Rightarrow> string option \<Rightarrow> ChatCompletionsStreamAccumulator \<Rightarrow> chat_step" where
  "apply_reasoning fails field txt a =
     (case txt of
        None \<Rightarrow> (a, None)
      | Some t \<Rightarrow>
          if t = [] then (a, None)
          else
            let a = a\<lparr>ca_has_any_output := True\<rparr>;
                chosen = (case ca_reasoning_field a of Some f \<Rightarrow> f | None \<Rightarrow> field);
                a = a\<lparr>ca_reasoning_field := Some chosen\<rparr>
            in if chosen \<noteq> field then (a, None)
               else chat_emit fails (SE_Reasoning t) (a\<lparr>ca_full_reasoning := ca_full_reasoning a @ t\<rparr>))"

fun apply_tool_deltas :: "StreamToolCallDelta list \<Rightarrow> ChatCompletionsStreamAccumulator \<Rightarrow> chat_step" where
  "apply_tool_deltas [] a = (a, None)"
| "apply_tool_deltas (tc # tcs) a =
     (if ca_distinct a \<ge> MAX_TOOL_CALLS then (a, Some (PE_Io ''too many tool calls (max 128)''))
      else if unat (td_index tc) \<ge> MAX_TOOL_CALLS then (a, Some (PE_Io ''tool call index out of bounds (max 127)''))
      else
        let a = (if ca_seen a ! unat (td_index tc) then a
                 else a\<lparr>ca_seen := (ca_seen a)[unat (td_index tc) := True], ca_distinct := ca_distinct a + 1\<rparr>)
        in apply_tool_deltas tcs (a\<lparr>ca_raw_tool_call_deltas := ca_raw_tool_call_deltas a @ [tc]\<rparr>))"

definition apply_delta ::
  "(stream_event list \<Rightarrow> string option) \<Rightarrow> StreamDelta \<Rightarrow> ChatCompletionsStreamAccumulator \<Rightarrow> chat_step" where
  "apply_delta fails delta a =
     and_then (and_then (and_then (and_then (apply_content fails (sd_content delta) a)
       (apply_reasoning fails ReasoningContent (sd_reasoning_content delta)))
       (apply_reasoning fails chat_reasoning_field.Reasoning (sd_reasoning delta)))
       (apply_reasoning fails ReasoningText (sd_reasoning_text delta)))
       (\<lambda>a. case sd_tool_calls delta of
              Some tcs \<Rightarrow> apply_tool_deltas tcs (a\<lparr>ca_has_any_output := True\<rparr>)
            | None \<Rightarrow> (a, None))"

fun apply_choices ::
  "(stream_event list \<Rightarrow> string option) \<Rightarrow> StreamDelta option list \<Rightarrow> ChatCompletionsStreamAccumulator \<Rightarrow> chat_step" where
  "apply_choices fails [] a = (a, None)"
| "apply_choices fails (None # cs) a = apply_choices fails cs a"
| "apply_choices fails (Some delta # cs) a = and_then (apply_delta fails delta a) (apply_choices fails cs)"

definition apply_chunk ::
  "(stream_event list \<Rightarrow> string option) \<Rightarrow> ChatCompletionsStreamResponse \<Rightarrow> ChatCompletionsStreamAccumulator \<Rightarrow> chat_step" where
  "apply_chunk fails chunk a =
     apply_choices fails (cs_choices chunk)
       (case cs_usage chunk of Some u \<Rightarrow> a\<lparr>ca_last_usage := Some (token_usage_of u)\<rparr> | None \<Rightarrow> a)"

definition chat_reasoning_artifact :: "chat_reasoning_field \<Rightarrow> string \<Rightarrow> reasoning_artifact option" where
  "chat_reasoning_artifact field reasoning =
     (if reasoning = [] then None else Some (ChatReasoning field (map (\<lambda>c. of_nat (byte c)) reasoning)))"

definition into_turn_result ::
  "json_lib \<Rightarrow> ((u32 \<times> AccumulatingToolCall) list \<Rightarrow> (u32 \<times> AccumulatingToolCall) list)
     \<Rightarrow> ChatCompletionsStreamAccumulator \<Rightarrow> provider_error + turn_outcome" where
  "into_turn_result lib iter a =
     (if \<not> ca_has_any_output a then Inl PE_EmptyResponse
      else
        let artifact = Option.bind (ca_reasoning_field a) (\<lambda>f. chat_reasoning_artifact f (ca_full_reasoning a));
            (calls, discarded) = validate_tool_call_arguments lib (accumulate_tool_calls_from_deltas iter (ca_raw_tool_call_deltas a))
        in if ca_raw_tool_call_deltas a \<noteq> [] \<and> calls \<noteq> [] then
             Inr (tool_use_result (ca_full_content a) calls (ca_full_reasoning a) (ca_last_usage a) None artifact)
           else Inr (final_text_result (ca_full_content a) (ca_full_reasoning a) (ca_last_usage a) None artifact))"

fun chat_loop ::
  "(string \<Rightarrow> ChatCompletionsStreamResponse option) \<Rightarrow> (stream_event list \<Rightarrow> string option) \<Rightarrow> string list \<Rightarrow> stream_error option
     \<Rightarrow> ChatCompletionsStreamAccumulator \<Rightarrow> chat_step" where
  "chat_loop chunk_of fails [] fin a = (a, map_option PE_Stream fin)"
| "chat_loop chunk_of fails (data # datas) fin a =
     (case chunk_of data of
        None \<Rightarrow> (a, Some (PE_Io ''invalid chunk''))
      | Some chunk \<Rightarrow> and_then (apply_chunk fails chunk a) (chat_loop chunk_of fails datas fin))"

definition chat_completions_request_streaming_with_tools ::
  "json_lib \<Rightarrow> (string \<Rightarrow> ChatCompletionsStreamResponse option) \<Rightarrow> (stream_event list \<Rightarrow> string option)
     \<Rightarrow> ((u32 \<times> AccumulatingToolCall) list \<Rightarrow> (u32 \<times> AccumulatingToolCall) list)
     \<Rightarrow> string list \<times> stream_error option \<Rightarrow> stream_event list \<times> (provider_error + turn_outcome)" where
  "chat_completions_request_streaming_with_tools lib chunk_of fails iter answer =
     (case chat_loop chunk_of fails (fst answer) (snd answer) chat_acc_default of
        (a, Some e) \<Rightarrow> (ca_emitted a, Inl e)
      | (a, None) \<Rightarrow> (ca_emitted a, into_turn_result lib iter a))"

section \<open>What the deltas say\<close>

text \<open>
  The call with an index, read off the deltas with that index: the last identifier and name given, and all
  argument fragments in order.
\<close>

definition last_some :: "'a option list \<Rightarrow> 'a option" where
  "last_some xs = fold (\<lambda>x acc. case x of Some v \<Rightarrow> Some v | None \<Rightarrow> acc) xs None"

definition deltas_at :: "u32 \<Rightarrow> StreamToolCallDelta list \<Rightarrow> StreamToolCallDelta list" where
  "deltas_at i ds = filter (\<lambda>d. td_index d = i) ds"

definition name_in :: "StreamToolCallDelta \<Rightarrow> string option" where
  "name_in d = Option.bind (td_function d) fst"

definition args_in :: "StreamToolCallDelta \<Rightarrow> string" where
  "args_in d = unwrap_or_default (Option.bind (td_function d) snd)"

definition call_at :: "StreamToolCallDelta list \<Rightarrow> u32 \<Rightarrow> chat_tool_call" where
  "call_at ds i =
     \<lparr>ct_id = unwrap_or_default (last_some (map td_id (deltas_at i ds))),
      ct_name = unwrap_or_default (last_some (map name_in (deltas_at i ds))),
      ct_arguments_json = concat (map args_in (deltas_at i ds)), ct_caller = None\<rparr>"

definition calls_said :: "StreamToolCallDelta list \<Rightarrow> chat_tool_call list" where
  "calls_said ds = map (call_at ds) (sorted_list_of_set (td_index ` set ds))"

definition merged :: "StreamToolCallDelta list \<Rightarrow> u32 \<Rightarrow> AccumulatingToolCall option" where
  "merged ds i =
     (if deltas_at i ds = [] then None
      else Some \<lparr>mtc_id = last_some (map td_id (deltas_at i ds)), mtc_name = last_some (map name_in (deltas_at i ds)),
        mtc_arguments = concat (map args_in (deltas_at i ds))\<rparr>)"

lemma last_some_snoc: "last_some (xs @ [x]) = (case x of Some v \<Rightarrow> Some v | None \<Rightarrow> last_some xs)"
  by (cases x) (simp_all add: last_some_def)

lemma deltas_at_snoc: "deltas_at i (ds @ [d]) = (if td_index d = i then deltas_at i ds @ [d] else deltas_at i ds)"
  by (simp add: deltas_at_def)

lemma merged_snoc:
  "merged (ds @ [d]) i =
     (if td_index d = i then Some (merge_delta d (case merged ds i of Some e \<Rightarrow> e | None \<Rightarrow> mtc_default)) else merged ds i)"
  by (auto simp: merged_def deltas_at_snoc last_some_snoc merge_delta_def mtc_default_def name_in_def args_in_def
      unwrap_or_default_def Let_def last_some_def split: option.splits)

lemma fold_merge_into:
  "map_of (fold merge_into ds []) i = merged ds i \<and> distinct (map fst (fold merge_into ds [])) \<and>
   set (map fst (fold merge_into ds [])) = td_index ` set ds"
proof (induction ds arbitrary: i rule: rev_induct)
  case (snoc d ds)
  then show ?case by (auto simp: merge_into_def merged_snoc update_conv' distinct_update update_keys)
qed (simp add: merged_def deltas_at_def)

lemma accumulate_spec:
  assumes "\<And>xs. mset (iter xs) = mset xs"
  shows "accumulate_tool_calls_from_deltas iter ds = calls_said ds"
proof -
  let ?m = "fold merge_into ds []"
  have d: "distinct (map fst ?m)" and s: "set (map fst ?m) = td_index ` set ds" using fold_merge_into by auto
  have mm: "mset (map fst (sort_key fst (iter ?m))) = mset (map fst ?m)" using assms by simp
  have srt: "map fst (sort_key fst (iter ?m)) = sorted_list_of_set (td_index ` set ds)"
  proof (rule sorted_distinct_set_unique)
    show "distinct (map fst (sort_key fst (iter ?m)))" using mset_eq_imp_distinct_iff [OF mm] d by simp
    show "set (map fst (sort_key fst (iter ?m))) = set (sorted_list_of_set (td_index ` set ds))"
      using mset_eq_setD [OF mm] s by simp
  qed simp_all
  have "call_of_acc (snd e) = call_at ds (fst e)" if "e \<in> set ?m" for e
  proof -
    have "map_of ?m (fst e) = Some (snd e)" using d that by simp
    then have "merged ds (fst e) = Some (snd e)" using fold_merge_into [of ds "fst e"] by simp
    then show ?thesis by (cases e) (auto simp: merged_def call_of_acc_def call_at_def split: if_splits)
  qed
  moreover have "set (sort_key fst (iter ?m)) = set ?m" using assms [of ?m] by (metis mset_eq_setD set_sort)
  ultimately have "map (call_of_acc \<circ> snd) (sort_key fst (iter ?m)) = map (call_at ds \<circ> fst) (sort_key fst (iter ?m))" by simp
  also have "\<dots> = calls_said ds" by (simp add: calls_said_def srt [symmetric])
  finally show ?thesis by (simp add: accumulate_tool_calls_from_deltas_def)
qed

section \<open>What the chunks say\<close>

definition deltas_of :: "(string \<Rightarrow> ChatCompletionsStreamResponse option) \<Rightarrow> string list \<Rightarrow> StreamDelta list" where
  "deltas_of chunk_of datas = concat (map (\<lambda>c. List.map_filter id (cs_choices c)) (List.map_filter chunk_of datas))"

definition reasoning_in :: "StreamDelta \<Rightarrow> (chat_reasoning_field \<times> string) list" where
  "reasoning_in d = filter (\<lambda>p. snd p \<noteq> [])
     [(ReasoningContent, unwrap_or_default (sd_reasoning_content d)), (chat_reasoning_field.Reasoning, unwrap_or_default (sd_reasoning d)),
      (ReasoningText, unwrap_or_default (sd_reasoning_text d))]"

definition calls_in :: "StreamDelta \<Rightarrow> StreamToolCallDelta list" where
  "calls_in d = (case sd_tool_calls d of Some tcs \<Rightarrow> tcs | None \<Rightarrow> [])"

text \<open>The field of the first reasoning text, and all texts of that field.\<close>

definition reasoning_said :: "(chat_reasoning_field \<times> string) list \<Rightarrow> chat_reasoning_field option \<times> string" where
  "reasoning_said ps =
     (case ps of [] \<Rightarrow> (None, []) | (f, t) # _ \<Rightarrow> (Some f, concat (map snd (filter (\<lambda>p. fst p = f) ps))))"

fun lock :: "chat_reasoning_field \<times> string \<Rightarrow> chat_reasoning_field option \<times> string \<Rightarrow> chat_reasoning_field option \<times> string" where
  "lock (f, t) (None, r) = (Some f, r @ t)"
| "lock (f, t) (Some g, r) = (Some g, if g = f then r @ t else r)"

lemma fold_lock_Some: "fold lock ps (Some g, r) = (Some g, r @ concat (map snd (filter (\<lambda>p. fst p = g) ps)))"
  by (induction ps arbitrary: r) auto

lemma fold_lock: "fold lock ps (None, []) = reasoning_said ps"
  by (cases ps) (auto simp: reasoning_said_def fold_lock_Some)

text \<open>One delta, handled without an error.\<close>

lemma and_then_None: "and_then r f = (b, None) \<longleftrightarrow> (\<exists>a. r = (a, None) \<and> f a = (b, None))"
  by (cases r) (auto simp: and_then_def split: option.splits)

definition said :: "ChatCompletionsStreamAccumulator \<Rightarrow> string \<times> string \<times> (chat_reasoning_field option \<times> string) \<times> StreamToolCallDelta list" where
  "said a = (ca_full_content a, concat (map answer_text (ca_emitted a)), (ca_reasoning_field a, ca_full_reasoning a), ca_raw_tool_call_deltas a)"

lemma content_said:
  "apply_content fails t a = (b, None) \<Longrightarrow>
   said b = (ca_full_content a @ unwrap_or_default t, concat (map answer_text (ca_emitted a)) @ unwrap_or_default t,
     (ca_reasoning_field a, ca_full_reasoning a), ca_raw_tool_call_deltas a)"
  by (auto simp: apply_content_def chat_emit_def said_def unwrap_or_default_def Let_def split: option.splits if_splits)

lemma reasoning_said_step:
  "apply_reasoning fails f t a = (b, None) \<Longrightarrow>
   said b = (ca_full_content a, concat (map answer_text (ca_emitted a)),
     fold lock (filter (\<lambda>p. snd p \<noteq> []) [(f, unwrap_or_default t)]) (ca_reasoning_field a, ca_full_reasoning a), ca_raw_tool_call_deltas a)"
  by (auto simp: apply_reasoning_def chat_emit_def said_def unwrap_or_default_def Let_def split: option.splits if_splits)

lemma tool_deltas_said:
  "apply_tool_deltas tcs a = (b, None) \<Longrightarrow>
   said b = (ca_full_content a, concat (map answer_text (ca_emitted a)), (ca_reasoning_field a, ca_full_reasoning a), ca_raw_tool_call_deltas a @ tcs)"
  by (induction tcs arbitrary: a) (auto simp: said_def Let_def split: if_splits)

lemma delta_said:
  assumes "apply_delta fails d a = (b, None)" and "said a = (x, y, fr, tds)"
  shows "said b = (x @ unwrap_or_default (sd_content d), y @ unwrap_or_default (sd_content d), fold lock (reasoning_in d) fr, tds @ calls_in d)"
proof -
  obtain a1 a2 a3 a4 where s: "apply_content fails (sd_content d) a = (a1, None)"
      "apply_reasoning fails ReasoningContent (sd_reasoning_content d) a1 = (a2, None)"
      "apply_reasoning fails chat_reasoning_field.Reasoning (sd_reasoning d) a2 = (a3, None)"
      "apply_reasoning fails ReasoningText (sd_reasoning_text d) a3 = (a4, None)"
      "(case sd_tool_calls d of Some tcs \<Rightarrow> apply_tool_deltas tcs (a4\<lparr>ca_has_any_output := True\<rparr>) | None \<Rightarrow> (a4, None)) = (b, None)"
    using assms(1) unfolding apply_delta_def and_then_None by blast
  have "said b = (ca_full_content a4, concat (map answer_text (ca_emitted a4)), (ca_reasoning_field a4, ca_full_reasoning a4),
      ca_raw_tool_call_deltas a4 @ calls_in d)"
    using s(5) by (auto simp: calls_in_def said_def dest!: tool_deltas_said split: option.splits)
  then show ?thesis
    using content_said [OF s(1)] reasoning_said_step [OF s(2)] reasoning_said_step [OF s(3)] reasoning_said_step [OF s(4)] assms(2)
    by (auto simp: said_def reasoning_in_def)
qed

definition tells :: "StreamDelta list \<Rightarrow> ChatCompletionsStreamAccumulator \<Rightarrow> bool" where
  "tells ds a \<longleftrightarrow>
     (let txt = concat (map (unwrap_or_default \<circ> sd_content) ds)
      in said a = (txt, txt, reasoning_said (concat (map reasoning_in ds)), concat (map calls_in ds)))"

lemma tells_snoc: "tells ds a \<Longrightarrow> apply_delta fails d a = (b, None) \<Longrightarrow> tells (ds @ [d]) b"
  using delta_said [of fails d a b] by (auto simp: tells_def Let_def fold_lock [symmetric])

lemma tells_choices:
  "apply_choices fails cs a = (b, None) \<Longrightarrow> tells ds a \<Longrightarrow> tells (ds @ List.map_filter id cs) b"
proof (induction fails cs a arbitrary: ds rule: apply_choices.induct)
  case (3 fails d cs a)
  then obtain m where m: "apply_delta fails d a = (m, None)" "apply_choices fails cs m = (b, None)" by (auto simp: and_then_None)
  show ?case using "3.IH" [OF m(2) tells_snoc [OF "3.prems"(2) m(1)]] by (simp add: map_filter_simps)
qed (auto simp: map_filter_simps)

lemma tells_loop:
  "chat_loop chunk_of fails datas fin a = (b, None) \<Longrightarrow> tells ds a \<Longrightarrow> tells (ds @ deltas_of chunk_of datas) b"
proof (induction datas arbitrary: a ds)
  case (Cons data datas)
  then obtain c m where c: "chunk_of data = Some c" "apply_chunk fails c a = (m, None)" "chat_loop chunk_of fails datas fin m = (b, None)"
    by (auto simp: and_then_None split: option.splits)
  have "tells ds (case cs_usage c of Some u \<Rightarrow> a\<lparr>ca_last_usage := Some (token_usage_of u)\<rparr> | None \<Rightarrow> a)"
    using Cons.prems(2) by (auto simp: tells_def said_def split: option.splits)
  from Cons.IH [OF c(3) tells_choices [OF c(2) [unfolded apply_chunk_def] this]] show ?case
    using c(1) by (simp add: deltas_of_def map_filter_simps)
qed (simp add: deltas_of_def map_filter_simps)

section \<open>The property\<close>

text \<open>
  C28. What a streamed chat turn returns. Tool calls arrive as deltas that name an index and carry any of an identifier, a name and a
  piece of the arguments, in any interleaving over the chunks. When the turn ends in a result with calls, they
  are, sorted by index whatever the order the map is read in, the calls put together from the deltas of each index (last identifier, last
  name, all pieces of the arguments in order), without those whose arguments are not JSON. The text shown
  piece by piece is the text of the result; the reasoning is that of the field that came first, and only of it,
  and the artifact is filed under that field.
\<close>

theorem chat_turn_spec:
  assumes "chat_completions_request_streaming_with_tools lib chunk_of fails iter (datas, fin) = (emitted, Inr out)"
    and "\<And>xs. mset (iter xs) = mset xs"
    and "ds = deltas_of chunk_of datas" and "txt = concat (map (unwrap_or_default \<circ> sd_content) ds)"
    and "reasoning_said (concat (map reasoning_in ds)) = (field, reasoning)"
    and "artifact = Option.bind field (\<lambda>f. chat_reasoning_artifact f reasoning)"
    and "calls = filter (\<lambda>tc. jl_parse lib (ct_arguments_json tc) \<noteq> None) (calls_said (concat (map calls_in ds)))"
  shows "concat (map answer_text emitted) = txt
    \<and> (case out of
         ToolUse tu \<Rightarrow> tu_calls tu = calls \<and> calls \<noteq> [] \<and> tu_content tu = if_nonempty txt
           \<and> tu_reasoning tu = if_nonempty reasoning \<and> tu_artifact tu = artifact
       | FinalText ft \<Rightarrow> ft_content ft = txt \<and> calls = [] \<and> ft_reasoning ft = if_nonempty reasoning \<and> ft_artifact ft = artifact
       | _ \<Rightarrow> False)"
proof -
  obtain a where l: "chat_loop chunk_of fails datas fin chat_acc_default = (a, None)" "emitted = ca_emitted a" "into_turn_result lib iter a = Inr out"
    using assms(1) by (auto simp: chat_completions_request_streaming_with_tools_def split: prod.splits option.splits)
  have "tells [] chat_acc_default" by (simp add: tells_def said_def chat_acc_default_def reasoning_said_def)
  from tells_loop [OF l(1) this] have t: "said a = (txt, txt, (field, reasoning), concat (map calls_in ds))"
    using assms(3-5) by (simp add: tells_def Let_def)
  have vc: "fst (validate_tool_call_arguments lib (accumulate_tool_calls_from_deltas iter (ca_raw_tool_call_deltas a))) = calls"
    using accumulate_spec [OF assms(2)] assms(7) t by (simp add: validate_tool_call_arguments_def Let_def said_def)
  have "calls = []" if "ca_raw_tool_call_deltas a = []" using that t assms(7) by (simp add: said_def calls_said_def)
  then show ?thesis
    using l(2,3) t vc assms(6)
    by (auto simp: into_turn_result_def said_def tool_use_result_def final_text_result_def Let_def case_prod_unfold split: if_splits)
qed

text \<open>Two calls, their deltas interleaved, and the second index first.\<close>

definition demo_delta :: "u32 \<Rightarrow> string option \<Rightarrow> string option \<Rightarrow> string \<Rightarrow> StreamToolCallDelta" where
  "demo_delta i ident name args = \<lparr>td_index = i, td_id = ident, td_function = Some (name, Some args)\<rparr>"

definition demo_chunk :: "string \<Rightarrow> ChatCompletionsStreamResponse option" where
  "demo_chunk s =
     (let d = \<lparr>sd_content = None, sd_tool_calls = None, sd_reasoning_content = None, sd_reasoning = None, sd_reasoning_text = None\<rparr>
      in if s = ''1'' then Some \<lparr>cs_choices = [Some (d\<lparr>sd_content := Some ''hi'', sd_tool_calls :=
              Some [demo_delta 1 (Some ''b'') (Some ''cat'') ''{'', demo_delta 0 (Some ''a'') (Some ''ls'') ''{}'']\<rparr>)], cs_usage = None\<rparr>
         else if s = ''2'' then Some \<lparr>cs_choices = [Some (d\<lparr>sd_tool_calls := Some [demo_delta 1 None None ''}'']\<rparr>)], cs_usage = None\<rparr>
         else None)"

definition demo_chat_turn :: tool_use where
  "demo_chat_turn =
     \<lparr>tu_content = Some ''hi'',
      tu_calls = [\<lparr>ct_id = ''a'', ct_name = ''ls'', ct_arguments_json = ''{}'', ct_caller = None\<rparr>,
        \<lparr>ct_id = ''b'', ct_name = ''cat'', ct_arguments_json = ''{}'', ct_caller = None\<rparr>],
      tu_reasoning = None, tu_usage = None, tu_response_id = None, tu_artifact = None\<rparr>"

theorem chat_turn_spec_witness:
  "chat_completions_request_streaming_with_tools demo_json_lib demo_chunk (\<lambda>_. None) rev ([''1'', ''2''], None)
     = ([SE_Answer ''hi''], Inr (ToolUse demo_chat_turn))
   \<and> filter (\<lambda>tc. jl_parse demo_json_lib (ct_arguments_json tc) \<noteq> None)
       (calls_said (concat (map calls_in (deltas_of demo_chunk [''1'', ''2''])))) = tu_calls demo_chat_turn"
proof -
  have r: "chat_completions_request_streaming_with_tools demo_json_lib demo_chunk (\<lambda>_. None) rev ([''1'', ''2''], None)
     = ([SE_Answer ''hi''], Inr (ToolUse demo_chat_turn))" by code_simp
  have m: "\<And>xs. mset (rev xs) = mset xs" by simp
  obtain f rs where fr: "reasoning_said (concat (map reasoning_in (deltas_of demo_chunk [''1'', ''2'']))) = (f, rs)" by fastforce
  from chat_turn_spec [OF r m refl refl fr refl refl] r show ?thesis by simp
qed

text \<open>The cap is tested before looking whether the index is known: at 128 calls a further piece of a known call ends the turn.\<close>

lemma chat_delta_at_cap:
  "MAX_TOOL_CALLS \<le> ca_distinct a \<Longrightarrow> apply_tool_deltas (tc # tcs) a = (a, Some (PE_Io ''too many tool calls (max 128)''))"
  by simp

section \<open>The plain turn\<close>

record AssistantMessage =
  am_content :: "string option"
  am_tool_calls :: "assistant_tool_call list"
  am_reasoning_content :: "string option"
  am_reasoning :: "string option"
  am_reasoning_text :: "string option"

record ChatCompletionsResponse =
  cr_choices :: "AssistantMessage list"
  cr_usage :: "usage option"

definition take_reasoning :: "AssistantMessage \<Rightarrow> string option \<times> reasoning_artifact option" where
  "take_reasoning m =
     (case am_reasoning_content m of
        Some t \<Rightarrow> (Some t, chat_reasoning_artifact ReasoningContent t)
      | None \<Rightarrow>
          (case am_reasoning m of
             Some t \<Rightarrow> (Some t, chat_reasoning_artifact chat_reasoning_field.Reasoning t)
           | None \<Rightarrow>
               (case am_reasoning_text m of
                  Some t \<Rightarrow> (Some t, chat_reasoning_artifact ReasoningText t)
                | None \<Rightarrow> (None, None))))"

definition chat_completions_response_to_turn :: "json_lib \<Rightarrow> ChatCompletionsResponse \<Rightarrow> provider_error + turn_outcome" where
  "chat_completions_response_to_turn lib resp =
     (case cr_choices resp of
        [] \<Rightarrow> Inl PE_EmptyResponse
      | m # _ \<Rightarrow>
          let (reasoning, artifact) = take_reasoning m;
              turn_usage = map_option token_usage_of (cr_usage resp);
              (calls, discarded) = validate_tool_call_arguments lib
                (map (\<lambda>tc. \<lparr>ct_id = atc_id tc, ct_name = atc_name tc, ct_arguments_json = atc_arguments tc, ct_caller = None\<rparr>) (am_tool_calls m));
              text = trim (unwrap_or_default (am_content m));
              final = FinalText \<lparr>ft_content = text, ft_reasoning = reasoning, ft_usage = turn_usage, ft_response_id = None, ft_artifact = artifact\<rparr>
          in if calls \<noteq> [] then
               Inr (ToolUse \<lparr>tu_content = am_content m, tu_calls = calls, tu_reasoning = reasoning, tu_usage = turn_usage,
                 tu_response_id = None, tu_artifact = artifact\<rparr>)
             else if discarded \<noteq> [] then Inr final
             else if text = [] then Inl PE_EmptyResponse
             else Inr final)"

text \<open>A plain turn given to the callback of a streaming caller: the answer, then the reasoning.\<close>

definition emit_texts :: "(stream_event list \<Rightarrow> string option) \<Rightarrow> string option \<Rightarrow> string option \<Rightarrow> stream_event list \<times> string option" where
  "emit_texts fails answer reasoning =
     (let say = (\<lambda>mk txt (evs, err). case (err, txt) of
            (None, Some t) \<Rightarrow> if t = [] then (evs, None) else (evs @ [mk t], fails (evs @ [mk t]))
          | _ \<Rightarrow> (evs, err))
      in say SE_Reasoning reasoning (say SE_Answer answer ([], None)))"

definition emit_non_streaming_events :: "(stream_event list \<Rightarrow> string option) \<Rightarrow> turn_outcome \<Rightarrow> stream_event list \<times> (string + turn_outcome)" where
  "emit_non_streaming_events fails result =
     (let (evs, err) = (case result of
            FinalText ft \<Rightarrow> emit_texts fails (Some (ft_content ft)) (ft_reasoning ft)
          | ToolUse tu \<Rightarrow> emit_texts fails (tu_content tu) (tu_reasoning tu)
          | _ \<Rightarrow> ([], None))
      in (evs, case err of Some e \<Rightarrow> Inl e | None \<Rightarrow> Inr result))"

text \<open>
  Every call of a plain turn has arguments that parse; and a plain turn shown through the callback shows its text, as a
  streamed turn does, and is returned unchanged.
\<close>

lemma plain_chat_calls:
  assumes "chat_completions_response_to_turn lib resp = Inr (ToolUse tu)"
  shows "tu_calls tu \<noteq> [] \<and> list_all (\<lambda>tc. jl_parse lib (ct_arguments_json tc) \<noteq> None) (tu_calls tu)
    \<and> (\<exists>m ms. cr_choices resp = m # ms \<and> subseq (map ct_id (tu_calls tu)) (map atc_id (am_tool_calls m)))"
proof -
  obtain m ms where m: "cr_choices resp = m # ms" using assms by (auto simp: chat_completions_response_to_turn_def split: list.splits)
  let ?cs = "map (\<lambda>tc. \<lparr>ct_id = atc_id tc, ct_name = atc_name tc, ct_arguments_json = atc_arguments tc, ct_caller = None\<rparr>) (am_tool_calls m)"
  have "tu_calls tu = fst (validate_tool_call_arguments lib ?cs)" "tu_calls tu \<noteq> []"
    using assms m by (auto simp: chat_completions_response_to_turn_def Let_def case_prod_unfold split: if_splits)
  moreover have "fst (validate_tool_call_arguments lib ?cs) = filter (\<lambda>tc. jl_parse lib (ct_arguments_json tc) \<noteq> None) ?cs"
    by (simp add: validate_tool_call_arguments_def)
  moreover have "subseq (map ct_id (filter (\<lambda>tc. jl_parse lib (ct_arguments_json tc) \<noteq> None) ?cs)) (map ct_id ?cs)"
    by (intro subseq_map subseq_filter_left)
  ultimately show ?thesis using m by (auto simp: list_all_iff comp_def)
qed

lemma emitted_text:
  assumes "emit_non_streaming_events fails result = (evs, Inr result')"
  shows "result' = result \<and> concat (map answer_text evs) =
    (case result of FinalText ft \<Rightarrow> ft_content ft | ToolUse tu \<Rightarrow> (case tu_content tu of Some t \<Rightarrow> t | None \<Rightarrow> []) | _ \<Rightarrow> [])"
  using assms
  by (auto simp: emit_non_streaming_events_def emit_texts_def Let_def split: turn_outcome.splits option.splits if_splits prod.splits)

end
