(* ===== verification/Messages_Stream.thy ===== *)
theory Messages_Stream
  imports Responses_Theorems
begin

text \<open>
  The streamed turn of the Anthropic Messages API, \<^verbatim>\<open>choreo-ai-protocols/src/anthropic/requests.rs\<close>, and the
  plain one of \<^verbatim>\<open>anthropic/mod.rs\<close>: from the events of the answer to the result of the turn. The derived
  decoders of the events and the serializer are the parameter \<open>anthropic_lib\<close>.
\<close>

section \<open>Events\<close>

datatype StreamContentBlock =
    SC_Text string
  | SC_ToolUse string string json
  | SC_Thinking string
  | SC_RedactedThinking string

datatype AnthropicDelta =
    AD_TextDelta string
  | AD_InputJsonDelta string
  | AD_ThinkingDelta string
  | AD_SignatureDelta string

datatype ThinkingArtifactBlock = TB_Thinking string string | TB_RedactedThinking string

record anthropic_lib =
  al_start :: "string \<Rightarrow> (u32 \<times> StreamContentBlock) option" \<comment> \<open>\<^verbatim>\<open>ContentBlockStart\<close>\<close>
  al_delta :: "string \<Rightarrow> (u32 \<times> AnthropicDelta) option" \<comment> \<open>\<^verbatim>\<open>ContentBlockDelta\<close>\<close>
  al_message_start :: "string \<Rightarrow> u32 option option" \<comment> \<open>\<^verbatim>\<open>MessageStart\<close>, its input tokens\<close>
  al_message_delta :: "string \<Rightarrow> u32 option option" \<comment> \<open>\<^verbatim>\<open>MessageDelta\<close>, its output tokens\<close>
  al_print :: "json \<Rightarrow> string"
  al_to_vec :: "json list \<Rightarrow> u8 list option"

section \<open>Thinking blocks\<close>

record ThinkingBlockAccumulator =
  tb_blocks :: "ThinkingArtifactBlock list"
  tb_open :: "(string \<times> string) option" \<comment> \<open>thinking and signature\<close>

definition thinking_new :: ThinkingBlockAccumulator where
  "thinking_new = \<lparr>tb_blocks = [], tb_open = None\<rparr>"

fun on_content_block_start :: "StreamContentBlock \<Rightarrow> ThinkingBlockAccumulator \<Rightarrow> ThinkingBlockAccumulator" where
  "on_content_block_start (SC_Thinking thinking) t = t\<lparr>tb_open := Some (thinking, [])\<rparr>"
| "on_content_block_start (SC_RedactedThinking data) t = t\<lparr>tb_blocks := tb_blocks t @ [TB_RedactedThinking data]\<rparr>"
| "on_content_block_start _ t = t"

fun on_content_block_delta :: "AnthropicDelta \<Rightarrow> ThinkingBlockAccumulator \<Rightarrow> ThinkingBlockAccumulator" where
  "on_content_block_delta (AD_ThinkingDelta thinking) t = t\<lparr>tb_open := map_option (\<lambda>(x, sig). (x @ thinking, sig)) (tb_open t)\<rparr>"
| "on_content_block_delta (AD_SignatureDelta signature) t = t\<lparr>tb_open := map_option (\<lambda>(x, sig). (x, sig @ signature)) (tb_open t)\<rparr>"
| "on_content_block_delta _ t = t"

definition on_content_block_stop :: "ThinkingBlockAccumulator \<Rightarrow> ThinkingBlockAccumulator" where
  "on_content_block_stop t =
     (case tb_open t of
        Some (thinking, signature) \<Rightarrow> t\<lparr>tb_open := None, tb_blocks := tb_blocks t @ [TB_Thinking thinking signature]\<rparr>
      | None \<Rightarrow> t)"

definition thinking_finish :: "ThinkingBlockAccumulator \<Rightarrow> ThinkingArtifactBlock list" where
  "thinking_finish t = tb_blocks (on_content_block_stop t)"

fun thinking_json :: "ThinkingArtifactBlock \<Rightarrow> json" where
  "thinking_json (TB_Thinking thinking signature) =
     JObject [(''type'', JString ''thinking''), (''thinking'', JString thinking), (''signature'', JString signature)]"
| "thinking_json (TB_RedactedThinking data) = JObject [(''type'', JString ''redacted_thinking''), (''data'', JString data)]"

definition anthropic_thinking_artifact :: "anthropic_lib \<Rightarrow> ThinkingArtifactBlock list \<Rightarrow> provider_error + reasoning_artifact option" where
  "anthropic_thinking_artifact lib blocks =
     (if blocks = [] then Inr None
      else case al_to_vec lib (map thinking_json blocks) of
             None \<Rightarrow> Inl (PE_Io ''serialize'')
           | Some bytes \<Rightarrow> Inr (Some (AnthropicThinking bytes)))"

section \<open>The streamed turn\<close>

record StreamToolCall =
  stc_id :: string
  stc_name :: string
  stc_arguments :: string

definition StreamToolCall_default :: StreamToolCall where
  "StreamToolCall_default = \<lparr>stc_id = [], stc_name = [], stc_arguments = []\<rparr>"

record messages_acc =
  ma_has_any_output :: bool
  ma_full_text :: string
  ma_full_reasoning :: string
  ma_pending_tool_calls :: "StreamToolCall list"
  ma_input_tokens :: "u32 option"
  ma_output_tokens :: "u32 option"
  ma_thinking_blocks :: ThinkingBlockAccumulator
  ma_emitted :: "stream_event list" \<comment> \<open>what the callback was given\<close>

definition messages_acc_new :: messages_acc where
  "messages_acc_new =
     \<lparr>ma_has_any_output = False, ma_full_text = [], ma_full_reasoning = [], ma_pending_tool_calls = [], ma_input_tokens = None,
      ma_output_tokens = None, ma_thinking_blocks = thinking_new, ma_emitted = []\<rparr>"

definition messages_emit :: "(stream_event list \<Rightarrow> string option) \<Rightarrow> stream_event \<Rightarrow> messages_acc \<Rightarrow> messages_acc \<times> flow" where
  "messages_emit fails ev a =
     (let a = a\<lparr>ma_emitted := ma_emitted a @ [ev]\<rparr>
      in (a, case fails (ma_emitted a) of None \<Rightarrow> Next | Some e \<Rightarrow> Fail (PE_Io e)))"

definition answer_piece :: "(stream_event list \<Rightarrow> string option) \<Rightarrow> string \<Rightarrow> messages_acc \<Rightarrow> messages_acc \<times> flow" where
  "answer_piece fails txt a =
     (if txt = [] then (a, Next)
      else messages_emit fails (SE_Answer txt) (a\<lparr>ma_has_any_output := True, ma_full_text := ma_full_text a @ txt\<rparr>))"

definition reasoning_piece :: "(stream_event list \<Rightarrow> string option) \<Rightarrow> string \<Rightarrow> messages_acc \<Rightarrow> messages_acc \<times> flow" where
  "reasoning_piece fails txt a =
     (if txt = [] then (a, Next)
      else messages_emit fails (SE_Reasoning txt) (a\<lparr>ma_has_any_output := True, ma_full_reasoning := ma_full_reasoning a @ txt\<rparr>))"

text \<open>The entry at the index of the content block, after filling the list up to it.\<close>

definition at_index :: "u32 \<Rightarrow> (StreamToolCall \<Rightarrow> StreamToolCall) \<Rightarrow> messages_acc \<Rightarrow> messages_acc \<times> flow" where
  "at_index index f a =
     (let a = a\<lparr>ma_has_any_output := True\<rparr>; idx = unat index
      in if idx \<ge> MAX_TOOL_CALLS then (a, Fail (PE_Io ''tool call index exceeds maximum (128)''))
         else
           let calls = ma_pending_tool_calls a @ replicate (Suc idx - length (ma_pending_tool_calls a)) StreamToolCall_default
           in (a\<lparr>ma_pending_tool_calls := calls[idx := f (calls ! idx)]\<rparr>, Next))"

definition handle_block_start ::
  "anthropic_lib \<Rightarrow> (stream_event list \<Rightarrow> string option) \<Rightarrow> u32 \<Rightarrow> StreamContentBlock \<Rightarrow> messages_acc \<Rightarrow> messages_acc \<times> flow" where
  "handle_block_start lib fails index block a =
     (let a = a\<lparr>ma_thinking_blocks := on_content_block_start block (ma_thinking_blocks a)\<rparr>
      in case block of
           SC_Text txt \<Rightarrow> answer_piece fails txt a
         | SC_ToolUse ident name input \<Rightarrow>
             at_index index (\<lambda>_. \<lparr>stc_id = ident, stc_name = name, stc_arguments = al_print lib input\<rparr>) a
         | SC_Thinking thinking \<Rightarrow> reasoning_piece fails thinking a
         | SC_RedactedThinking _ \<Rightarrow> (a, Next))"

definition handle_block_delta ::
  "(stream_event list \<Rightarrow> string option) \<Rightarrow> u32 \<Rightarrow> AnthropicDelta \<Rightarrow> messages_acc \<Rightarrow> messages_acc \<times> flow" where
  "handle_block_delta fails index delta a =
     (let a = a\<lparr>ma_thinking_blocks := on_content_block_delta delta (ma_thinking_blocks a)\<rparr>
      in case delta of
           AD_TextDelta txt \<Rightarrow> answer_piece fails txt a
         | AD_InputJsonDelta partial_json \<Rightarrow> at_index index (\<lambda>c. c\<lparr>stc_arguments := stc_arguments c @ partial_json\<rparr>) a
         | AD_ThinkingDelta thinking \<Rightarrow> reasoning_piece fails thinking a
         | AD_SignatureDelta _ \<Rightarrow> (a, Next))"

definition handle_message_event ::
  "anthropic_lib \<Rightarrow> (stream_event list \<Rightarrow> string option) \<Rightarrow> string \<Rightarrow> string \<Rightarrow> messages_acc \<Rightarrow> messages_acc \<times> flow" where
  "handle_message_event lib fails event_type data a =
     (if event_type = ''content_block_start'' then
        (case al_start lib data of
           None \<Rightarrow> (a, Fail (PE_Io ''invalid content_block_start''))
         | Some (index, block) \<Rightarrow> handle_block_start lib fails index block a)
      else if event_type = ''content_block_delta'' then
        (case al_delta lib data of
           None \<Rightarrow> (a, Fail (PE_Io ''invalid content_block_delta''))
         | Some (index, delta) \<Rightarrow> handle_block_delta fails index delta a)
      else if event_type = ''content_block_stop'' then
        (a\<lparr>ma_thinking_blocks := on_content_block_stop (ma_thinking_blocks a)\<rparr>, Next)
      else if event_type = ''message_start'' then
        (case al_message_start lib data of
           None \<Rightarrow> (a, Fail (PE_Io ''invalid message_start''))
         | Some n \<Rightarrow> (a\<lparr>ma_input_tokens := n\<rparr>, Next))
      else if event_type = ''message_delta'' then
        (case al_message_delta lib data of
           None \<Rightarrow> (a, Fail (PE_Io ''invalid message_delta''))
         | Some n \<Rightarrow> (a\<lparr>ma_output_tokens := n\<rparr>, Next))
      else if event_type = ''message_stop'' then (a, Break)
      else (a, Next))"

fun messages_loop ::
  "anthropic_lib \<Rightarrow> (stream_event list \<Rightarrow> string option) \<Rightarrow> (string \<times> string) list \<Rightarrow> stream_error option \<Rightarrow> messages_acc
     \<Rightarrow> messages_acc \<times> provider_error option" where
  "messages_loop lib fails [] fin a = (a, map_option PE_Stream fin)"
| "messages_loop lib fails ((event_type, data) # evs) fin a =
     (case handle_message_event lib fails event_type data a of
        (a', Next) \<Rightarrow> messages_loop lib fails evs fin a'
      | (a', Break) \<Rightarrow> (a', None)
      | (a', Fail e) \<Rightarrow> (a', Some e))"

definition stream_usage :: "messages_acc \<Rightarrow> token_usage option" where
  "stream_usage a =
     (case (ma_input_tokens a, ma_output_tokens a) of
        (Some i, Some o') \<Rightarrow> Some \<lparr>input_tokens = i, output_tokens = o', total_tokens = i + o'\<rparr>
      | _ \<Rightarrow> None)"

definition call_of_stream :: "StreamToolCall \<Rightarrow> chat_tool_call" where
  "call_of_stream tc = \<lparr>ct_id = stc_id tc, ct_name = stc_name tc, ct_arguments_json = stc_arguments tc, ct_caller = None\<rparr>"

definition finish_messages :: "anthropic_lib \<Rightarrow> messages_acc \<Rightarrow> provider_error + turn_outcome" where
  "finish_messages lib a =
     (case anthropic_thinking_artifact lib (thinking_finish (ma_thinking_blocks a)) of
        Inl e \<Rightarrow> Inl e
      | Inr artifact \<Rightarrow>
          if \<not> ma_has_any_output a then Inl PE_EmptyResponse
          else if ma_pending_tool_calls a \<noteq> [] then
            Inr (tool_use_result (ma_full_text a) (map call_of_stream (ma_pending_tool_calls a)) (ma_full_reasoning a) (stream_usage a) None artifact)
          else if ma_full_text a = [] then Inl PE_EmptyResponse
          else Inr (final_text_result (ma_full_text a) (ma_full_reasoning a) (stream_usage a) None artifact))"

definition messages_request_streaming ::
  "anthropic_lib \<Rightarrow> (stream_event list \<Rightarrow> string option) \<Rightarrow> (string \<times> string) list \<times> stream_error option
     \<Rightarrow> stream_event list \<times> (provider_error + turn_outcome)" where
  "messages_request_streaming lib fails answer =
     (case messages_loop lib fails (fst answer) (snd answer) messages_acc_new of
        (a, Some e) \<Rightarrow> (ma_emitted a, Inl e)
      | (a, None) \<Rightarrow> (ma_emitted a, finish_messages lib a))"

section \<open>The plain turn\<close>

datatype ContentBlock =
    CB_Text string
  | CB_ToolUse string string json
  | CB_Thinking string string
  | CB_RedactedThinking string

definition plain_texts :: "ContentBlock list \<Rightarrow> string list" where
  "plain_texts = List.map_filter (\<lambda>b. case b of CB_Text t \<Rightarrow> Some t | _ \<Rightarrow> None)"

definition plain_calls :: "anthropic_lib \<Rightarrow> ContentBlock list \<Rightarrow> chat_tool_call list" where
  "plain_calls lib = List.map_filter (\<lambda>b. case b of
     CB_ToolUse ident name input \<Rightarrow> Some \<lparr>ct_id = ident, ct_name = name, ct_arguments_json = al_print lib input, ct_caller = None\<rparr>
   | _ \<Rightarrow> None)"

definition plain_reasoning :: "ContentBlock list \<Rightarrow> string list" where
  "plain_reasoning = List.map_filter (\<lambda>b. case b of CB_Thinking t _ \<Rightarrow> Some t | _ \<Rightarrow> None)"

definition plain_artifact_blocks :: "ContentBlock list \<Rightarrow> ThinkingArtifactBlock list" where
  "plain_artifact_blocks = List.map_filter (\<lambda>b. case b of
     CB_Thinking t s \<Rightarrow> Some (TB_Thinking t s) | CB_RedactedThinking d \<Rightarrow> Some (TB_RedactedThinking d) | _ \<Rightarrow> None)"

definition response_to_turn_result :: "anthropic_lib \<Rightarrow> ContentBlock list \<Rightarrow> (u32 \<times> u32) option \<Rightarrow> provider_error + turn_outcome" where
  "response_to_turn_result lib blocks us =
     (case anthropic_thinking_artifact lib (plain_artifact_blocks blocks) of
        Inl e \<Rightarrow> Inl e
      | Inr artifact \<Rightarrow>
          let reasoning = (if plain_reasoning blocks = [] then None else Some (join [CHR 0x0A] (plain_reasoning blocks)));
              token_us = map_option (\<lambda>(i, o'). \<lparr>input_tokens = i, output_tokens = o', total_tokens = i + o'\<rparr>) us;
              txt = concat (plain_texts blocks)
          in if plain_calls lib blocks \<noteq> [] then
               Inr (ToolUse \<lparr>tu_content = (if plain_texts blocks = [] then None else Some txt), tu_calls = plain_calls lib blocks,
                 tu_reasoning = reasoning, tu_usage = token_us, tu_response_id = None, tu_artifact = artifact\<rparr>)
             else if txt = [] then Inl PE_EmptyResponse
             else Inr (FinalText \<lparr>ft_content = txt, ft_reasoning = reasoning, ft_usage = token_us, ft_response_id = None, ft_artifact = artifact\<rparr>))"

section \<open>A message as it is streamed\<close>

text \<open>
  The blocks of a message with the pieces they are sent in. A block starts empty, a tool use with the empty
  object as its input; then come its pieces, then its stop. The index of an event is the position of its block.
\<close>

datatype streamed_block =
    ST_Text "string list"
  | ST_Tool string string "string list"
  | ST_Thinking "string list" "string list"
  | ST_Redacted string

datatype message_event =
    ME_Start u32 StreamContentBlock
  | ME_Delta u32 AnthropicDelta
  | ME_Stop
  | ME_End

definition message_event_of :: "anthropic_lib \<Rightarrow> string \<times> string \<Rightarrow> message_event option" where
  "message_event_of lib e =
     (if fst e = ''content_block_start'' then map_option (\<lambda>(i, b). ME_Start i b) (al_start lib (snd e))
      else if fst e = ''content_block_delta'' then map_option (\<lambda>(i, d). ME_Delta i d) (al_delta lib (snd e))
      else if fst e = ''content_block_stop'' then Some ME_Stop
      else if fst e = ''message_stop'' then Some ME_End
      else None)"

fun block_events :: "u32 \<Rightarrow> streamed_block \<Rightarrow> message_event list" where
  "block_events i (ST_Text ps) = [ME_Start i (SC_Text [])] @ map (ME_Delta i \<circ> AD_TextDelta) ps @ [ME_Stop]"
| "block_events i (ST_Tool ident name ps) =
     [ME_Start i (SC_ToolUse ident name (JObject []))] @ map (ME_Delta i \<circ> AD_InputJsonDelta) ps @ [ME_Stop]"
| "block_events i (ST_Thinking ps ss) =
     [ME_Start i (SC_Thinking [])] @ map (ME_Delta i \<circ> AD_ThinkingDelta) ps @ map (ME_Delta i \<circ> AD_SignatureDelta) ss @ [ME_Stop]"
| "block_events i (ST_Redacted d) = [ME_Start i (SC_RedactedThinking d), ME_Stop]"

fun blocks_events :: "nat \<Rightarrow> streamed_block list \<Rightarrow> message_event list" where
  "blocks_events n [] = []"
| "blocks_events n (b # bs) = block_events (of_nat n) b @ blocks_events (Suc n) bs"

fun is_tool :: "streamed_block \<Rightarrow> bool" where
  "is_tool (ST_Tool _ _ _) = True"
| "is_tool _ = False"

text \<open>What the stream makes of a block in the list of calls.\<close>

fun streamed_entry :: "anthropic_lib \<Rightarrow> streamed_block \<Rightarrow> StreamToolCall" where
  "streamed_entry lib (ST_Tool ident name ps) =
     \<lparr>stc_id = ident, stc_name = name, stc_arguments = al_print lib (JObject []) @ concat ps\<rparr>"
| "streamed_entry lib _ = StreamToolCall_default"

fun block_text :: "streamed_block \<Rightarrow> string" where
  "block_text (ST_Text ps) = concat ps"
| "block_text _ = []"

fun block_reasoning :: "streamed_block \<Rightarrow> string" where
  "block_reasoning (ST_Thinking ps _) = concat ps"
| "block_reasoning _ = []"

fun block_artifact :: "streamed_block \<Rightarrow> ThinkingArtifactBlock list" where
  "block_artifact (ST_Thinking ps ss) = [TB_Thinking (concat ps) (concat ss)]"
| "block_artifact (ST_Redacted d) = [TB_RedactedThinking d]"
| "block_artifact _ = []"

fun pending_after :: "anthropic_lib \<Rightarrow> nat \<Rightarrow> streamed_block list \<Rightarrow> StreamToolCall list \<Rightarrow> StreamToolCall list" where
  "pending_after lib n [] ps = ps"
| "pending_after lib n (b # bs) ps =
     pending_after lib (Suc n) bs
       (if is_tool b then ps @ replicate (n - length ps) StreamToolCall_default @ [streamed_entry lib b] else ps)"

section \<open>The loop on a streamed message\<close>

fun typed_step :: "anthropic_lib \<Rightarrow> message_event \<Rightarrow> messages_acc \<Rightarrow> messages_acc \<times> flow" where
  "typed_step lib (ME_Start i b) a = handle_block_start lib (\<lambda>_. None) i b a"
| "typed_step lib (ME_Delta i d) a = handle_block_delta (\<lambda>_. None) i d a"
| "typed_step lib ME_Stop a = (a\<lparr>ma_thinking_blocks := on_content_block_stop (ma_thinking_blocks a)\<rparr>, Next)"
| "typed_step lib ME_End a = (a, Break)"

fun typed_steps :: "anthropic_lib \<Rightarrow> message_event list \<Rightarrow> messages_acc \<Rightarrow> messages_acc option" where
  "typed_steps lib [] a = Some a"
| "typed_steps lib (ev # evs) a = (case typed_step lib ev a of (a', Next) \<Rightarrow> typed_steps lib evs a' | _ \<Rightarrow> None)"

lemma handle_is_typed:
  "message_event_of lib (ty, data) = Some ev \<Longrightarrow> handle_message_event lib (\<lambda>_. None) ty data a = typed_step lib ev a"
proof -
  assume ev: "message_event_of lib (ty, data) = Some ev"
  consider "ty = ''content_block_start''" | "ty = ''content_block_delta''" | "ty = ''content_block_stop''" | "ty = ''message_stop''"
    | "ty \<noteq> ''content_block_start'' \<and> ty \<noteq> ''content_block_delta'' \<and> ty \<noteq> ''content_block_stop'' \<and> ty \<noteq> ''message_stop''" by blast
  then show ?thesis
    using ev by cases (auto simp add: message_event_of_def handle_message_event_def)
qed

lemma typed_steps_append: "typed_steps lib xs a = Some a' \<Longrightarrow> typed_steps lib (xs @ ys) a = typed_steps lib ys a'"
  by (induction xs arbitrary: a) (auto split: prod.splits flow.splits)

lemma messages_loop_steps:
  "typed_steps lib tes a = Some a' \<Longrightarrow> map (message_event_of lib) evs = map Some tes @ [Some ME_End] \<Longrightarrow>
   messages_loop lib (\<lambda>_. None) evs fin a = (a', None)"
proof (induction tes arbitrary: evs a)
  case Nil
  then obtain ty d where "evs = [(ty, d)]" by (cases evs) auto
  then show ?case using Nil handle_is_typed [of lib ty d ME_End a] by simp
next
  case (Cons te tes)
  then obtain ty d rest where "evs = (ty, d) # rest" "message_event_of lib (ty, d) = Some te"
      "map (message_event_of lib) rest = map Some tes @ [Some ME_End]"
    by (cases evs) auto
  then show ?case using Cons handle_is_typed [of lib ty d te a] by (auto split: prod.splits flow.splits)
qed

lemma text_pieces:
  "\<exists>h em. typed_steps lib (map (ME_Delta i \<circ> AD_TextDelta) ps) a =
     Some (a\<lparr>ma_full_text := ma_full_text a @ concat ps, ma_has_any_output := h, ma_emitted := em\<rparr>) \<and> (ma_has_any_output a \<longrightarrow> h)
     \<and> (concat ps \<noteq> [] \<longrightarrow> h)"
proof (induction ps arbitrary: a)
  case Nil
  have "a = a\<lparr>ma_full_text := ma_full_text a @ concat [], ma_has_any_output := ma_has_any_output a, ma_emitted := ma_emitted a\<rparr>" by simp
  then show ?case by (intro exI [of _ "ma_has_any_output a"] exI [of _ "ma_emitted a"]) simp
next
  case (Cons p ps)
  show ?case
  proof (cases "p = []")
    case True
    then show ?thesis using Cons.IH [of a] by (simp add: handle_block_delta_def answer_piece_def)
  next
    case False
    let ?a = "a\<lparr>ma_has_any_output := True, ma_full_text := ma_full_text a @ p, ma_emitted := ma_emitted a @ [SE_Answer p]\<rparr>"
    show ?thesis using Cons.IH [of ?a] False by (auto simp: handle_block_delta_def answer_piece_def messages_emit_def Let_def)
  qed
qed

lemma thinking_pieces:
  "tb_open (ma_thinking_blocks a) = Some (x, sig) \<Longrightarrow>
   \<exists>h em. typed_steps lib (map (ME_Delta i \<circ> AD_ThinkingDelta) ps) a =
     Some (a\<lparr>ma_full_reasoning := ma_full_reasoning a @ concat ps, ma_has_any_output := h, ma_emitted := em,
       ma_thinking_blocks := (ma_thinking_blocks a)\<lparr>tb_open := Some (x @ concat ps, sig)\<rparr>\<rparr>) \<and> (ma_has_any_output a \<longrightarrow> h)"
proof (induction ps arbitrary: a x)
  case Nil
  have "a = a\<lparr>ma_full_reasoning := ma_full_reasoning a @ concat [], ma_has_any_output := ma_has_any_output a, ma_emitted := ma_emitted a,
      ma_thinking_blocks := (ma_thinking_blocks a)\<lparr>tb_open := Some (x @ concat [], sig)\<rparr>\<rparr>" using Nil by simp
  then show ?case by (intro exI [of _ "ma_has_any_output a"] exI [of _ "ma_emitted a"]) simp
next
  case (Cons p ps)
  let ?t = "ma_thinking_blocks a\<lparr>tb_open := Some (x @ p, sig)\<rparr>"
  show ?case
  proof (cases "p = []")
    case True
    then show ?thesis
      using Cons.IH [of "a\<lparr>ma_thinking_blocks := ?t\<rparr>" "x @ p"] Cons.prems by (simp add: handle_block_delta_def reasoning_piece_def)
  next
    case False
    let ?a = "a\<lparr>ma_thinking_blocks := ?t, ma_has_any_output := True, ma_full_reasoning := ma_full_reasoning a @ p,
      ma_emitted := ma_emitted a @ [SE_Reasoning p]\<rparr>"
    show ?thesis
      using Cons.IH [of ?a "x @ p"] Cons.prems False by (auto simp: handle_block_delta_def reasoning_piece_def messages_emit_def Let_def)
  qed
qed

lemma signature_pieces:
  "tb_open (ma_thinking_blocks a) = Some (x, sig) \<Longrightarrow>
   typed_steps lib (map (ME_Delta i \<circ> AD_SignatureDelta) ss) a =
     Some (a\<lparr>ma_thinking_blocks := (ma_thinking_blocks a)\<lparr>tb_open := Some (x, sig @ concat ss)\<rparr>\<rparr>)"
proof (induction ss arbitrary: a sig)
  case (Cons s ss)
  then show ?case
    using Cons.IH [of "a\<lparr>ma_thinking_blocks := (ma_thinking_blocks a)\<lparr>tb_open := Some (x, sig @ s)\<rparr>\<rparr>" "sig @ s"]
    by (simp add: handle_block_delta_def)
qed simp

lemma tool_pieces:
  assumes "i < MAX_TOOL_CALLS" "length xs = i"
  shows "ma_pending_tool_calls a = xs @ [c] \<Longrightarrow> ma_has_any_output a \<Longrightarrow>
   typed_steps lib (map (ME_Delta (of_nat i) \<circ> AD_InputJsonDelta) ps) a =
     Some (a\<lparr>ma_pending_tool_calls := xs @ [c\<lparr>stc_arguments := stc_arguments c @ concat ps\<rparr>]\<rparr>)"
proof (induction ps arbitrary: a c)
  case (Cons p ps)
  have "unat (of_nat i :: u32) = i" using assms(1) by (simp add: MAX_TOOL_CALLS_def unat_of_nat take_bit_nat_eq_self)
  then have "handle_block_delta (\<lambda>_. None) (of_nat i) (AD_InputJsonDelta p) a =
      (a\<lparr>ma_pending_tool_calls := xs @ [c\<lparr>stc_arguments := stc_arguments c @ p\<rparr>]\<rparr>, Next)"
    using Cons.prems assms by (cases a) (auto simp: handle_block_delta_def at_index_def Let_def list_update_append nth_append)
  then show ?case
    using Cons.IH [of "a\<lparr>ma_pending_tool_calls := xs @ [c\<lparr>stc_arguments := stc_arguments c @ p\<rparr>]\<rparr>" "c\<lparr>stc_arguments := stc_arguments c @ p\<rparr>"]
      Cons.prems by simp
qed simp

text \<open>What one block and what all blocks add.\<close>

definition grown :: "anthropic_lib \<Rightarrow> messages_acc \<Rightarrow> string \<Rightarrow> string \<Rightarrow> ThinkingArtifactBlock list \<Rightarrow> StreamToolCall list \<Rightarrow> messages_acc \<Rightarrow> bool" where
  "grown lib a txt reasoning blocks calls a' \<longleftrightarrow>
     ma_full_text a' = ma_full_text a @ txt \<and> ma_full_reasoning a' = ma_full_reasoning a @ reasoning
     \<and> ma_thinking_blocks a' = \<lparr>tb_blocks = tb_blocks (ma_thinking_blocks a) @ blocks, tb_open = None\<rparr>
     \<and> ma_pending_tool_calls a' = calls
     \<and> (ma_has_any_output a \<or> (calls \<noteq> [] \<and> ma_pending_tool_calls a = []) \<longrightarrow> ma_has_any_output a')"

lemma closed: "tb_open t = None \<Longrightarrow> \<lparr>tb_blocks = tb_blocks t, tb_open = None\<rparr> = t"
  by (cases t) simp

lemma block_grows:
  assumes "tb_open (ma_thinking_blocks a) = None" "n < MAX_TOOL_CALLS" "length (ma_pending_tool_calls a) \<le> n"
  shows "\<exists>a'. typed_steps lib (block_events (of_nat n) b) a = Some a'
    \<and> grown lib a (block_text b) (block_reasoning b) (block_artifact b)
        (if is_tool b then ma_pending_tool_calls a @ replicate (n - length (ma_pending_tool_calls a)) StreamToolCall_default @ [streamed_entry lib b]
         else ma_pending_tool_calls a) a'"
proof (cases b)
  case (ST_Text ps)
  obtain h em where "typed_steps lib (map (ME_Delta (of_nat n) \<circ> AD_TextDelta) ps) a =
      Some (a\<lparr>ma_full_text := ma_full_text a @ concat ps, ma_has_any_output := h, ma_emitted := em\<rparr>)" "ma_has_any_output a \<longrightarrow> h"
    using text_pieces [of lib "of_nat n" ps a] by blast
  from typed_steps_append [OF this(1), of "[ME_Stop]"] this(2) show ?thesis
    using ST_Text assms(1) by (auto simp: handle_block_start_def answer_piece_def on_content_block_stop_def grown_def closed)
next
  case (ST_Tool ident name ps)
  let ?xs = "ma_pending_tool_calls a @ replicate (n - length (ma_pending_tool_calls a)) StreamToolCall_default"
  let ?c = "\<lparr>stc_id = ident, stc_name = name, stc_arguments = al_print lib (JObject [])\<rparr>"
  let ?a = "a\<lparr>ma_has_any_output := True, ma_pending_tool_calls := ?xs @ [?c]\<rparr>"
  have u: "unat (of_nat n :: u32) = n" using assms(2) by (simp add: MAX_TOOL_CALLS_def unat_of_nat take_bit_nat_eq_self)
  have len: "length ?xs = n" using assms(3) by simp
  have "Suc n - length (ma_pending_tool_calls a) = Suc (n - length (ma_pending_tool_calls a))" using assms(3) by simp
  then have "ma_pending_tool_calls a @ replicate (Suc n - length (ma_pending_tool_calls a)) StreamToolCall_default = ?xs @ [StreamToolCall_default]"
    by (simp add: replicate_append_same)
  then have "handle_block_start lib (\<lambda>_. None) (of_nat n) (SC_ToolUse ident name (JObject [])) a = (?a, Next)"
    using assms(2) u len list_update_length [of ?xs StreamToolCall_default "[]" ?c]
    by (simp add: handle_block_start_def at_index_def Let_def)
  moreover have "typed_steps lib (map (ME_Delta (of_nat n) \<circ> AD_InputJsonDelta) ps) ?a =
      Some (?a\<lparr>ma_pending_tool_calls := ?xs @ [?c\<lparr>stc_arguments := stc_arguments ?c @ concat ps\<rparr>]\<rparr>)"
    by (rule tool_pieces [OF assms(2) len]) simp_all
  note typed_steps_append [OF this, of "[ME_Stop]"]
  ultimately show ?thesis
    using ST_Tool assms(1) by (simp add: on_content_block_stop_def grown_def closed)
next
  case (ST_Thinking ps ss)
  let ?a = "a\<lparr>ma_thinking_blocks := (ma_thinking_blocks a)\<lparr>tb_open := Some ([], [])\<rparr>\<rparr>"
  obtain h em where t: "typed_steps lib (map (ME_Delta (of_nat n) \<circ> AD_ThinkingDelta) ps) ?a =
      Some (?a\<lparr>ma_full_reasoning := ma_full_reasoning ?a @ concat ps, ma_has_any_output := h, ma_emitted := em,
        ma_thinking_blocks := (ma_thinking_blocks ?a)\<lparr>tb_open := Some ([] @ concat ps, [])\<rparr>\<rparr>)" "ma_has_any_output ?a \<longrightarrow> h"
    using thinking_pieces [of ?a "[]" "[]" lib "of_nat n" ps] by auto
  from typed_steps_append [OF t(1), of "map (ME_Delta (of_nat n) \<circ> AD_SignatureDelta) ss @ [ME_Stop]"] t(2) show ?thesis
    using ST_Thinking assms(1) signature_pieces [THEN typed_steps_append]
    by (auto simp: handle_block_start_def reasoning_piece_def on_content_block_stop_def grown_def)
qed (use assms(1) in \<open>auto simp: handle_block_start_def on_content_block_stop_def grown_def\<close>)

lemma blocks_grow:
  "tb_open (ma_thinking_blocks a) = None \<Longrightarrow> n + length bs \<le> MAX_TOOL_CALLS \<Longrightarrow> length (ma_pending_tool_calls a) \<le> n \<Longrightarrow>
   \<exists>a'. typed_steps lib (blocks_events n bs) a = Some a'
     \<and> grown lib a (concat (map block_text bs)) (concat (map block_reasoning bs)) (concat (map block_artifact bs))
         (pending_after lib n bs (ma_pending_tool_calls a)) a'"
proof (induction bs arbitrary: a n)
  case Nil
  then show ?case by (auto simp: grown_def closed)
next
  case (Cons b bs)
  let ?ps = "if is_tool b then ma_pending_tool_calls a @ replicate (n - length (ma_pending_tool_calls a)) StreamToolCall_default @ [streamed_entry lib b]
         else ma_pending_tool_calls a"
  obtain m where m: "typed_steps lib (block_events (of_nat n) b) a = Some m"
      "grown lib a (block_text b) (block_reasoning b) (block_artifact b) ?ps m"
    using block_grows [of a n lib b] Cons.prems by auto
  have "tb_open (ma_thinking_blocks m) = None" "ma_pending_tool_calls m = ?ps" "length ?ps \<le> Suc n"
    using m(2) Cons.prems(3) by (auto simp: grown_def)
  then obtain a' where "typed_steps lib (blocks_events (Suc n) bs) m = Some a'"
      "grown lib m (concat (map block_text bs)) (concat (map block_reasoning bs)) (concat (map block_artifact bs)) (pending_after lib (Suc n) bs ?ps) a'"
    using Cons.IH [of m "Suc n"] Cons.prems(2) by auto
  then show ?case using m typed_steps_append [OF m(1), of "blocks_events (Suc n) bs"] by (auto simp: grown_def)
qed

text \<open>The list of calls is the list of blocks up to the last tool use.\<close>

definition mirrors :: "anthropic_lib \<Rightarrow> streamed_block list \<Rightarrow> StreamToolCall list \<Rightarrow> bool" where
  "mirrors lib bs ps \<longleftrightarrow> length ps \<le> length bs \<and> (\<forall>i<length ps. ps ! i = streamed_entry lib (bs ! i))
     \<and> (\<forall>i<length bs. is_tool (bs ! i) \<longrightarrow> i < length ps)"

lemma mirrors_snoc:
  assumes "mirrors lib bs ps"
  shows "mirrors lib (bs @ [b])
    (if is_tool b then ps @ replicate (length bs - length ps) StreamToolCall_default @ [streamed_entry lib b] else ps)"
proof -
  have quiet: "streamed_entry lib (bs ! i) = StreamToolCall_default" if "length ps \<le> i" "i < length bs" for i
    using assms that unfolding mirrors_def by (cases "bs ! i") (auto simp: leD)
  show ?thesis
  proof (cases "is_tool b")
    case True
    have "(ps @ replicate (length bs - length ps) StreamToolCall_default @ [streamed_entry lib b]) ! i = streamed_entry lib ((bs @ [b]) ! i)"
      if "i < Suc (length bs)" for i
      using assms quiet that by (cases "i < length ps"; cases "i < length bs") (auto simp: mirrors_def nth_append)
    then show ?thesis using True assms by (auto simp: mirrors_def)
  next
    case False
    then show ?thesis using assms by (auto simp: mirrors_def nth_append less_Suc_eq)
  qed
qed

lemma pending_mirrors: "mirrors lib pre ps \<Longrightarrow> mirrors lib (pre @ bs) (pending_after lib (length pre) bs ps)"
proof (induction bs arbitrary: pre ps)
  case (Cons b bs)
  then show ?case using Cons.IH [OF mirrors_snoc [OF Cons.prems, of b]] by simp
qed simp

section \<open>The property\<close>

text \<open>The block of the plain answer for a streamed one.\<close>

fun same_block :: "anthropic_lib \<Rightarrow> streamed_block \<Rightarrow> ContentBlock \<Rightarrow> bool" where
  "same_block lib (ST_Text ps) (CB_Text t) \<longleftrightarrow> t = concat ps"
| "same_block lib (ST_Tool ident name ps) (CB_ToolUse ident' name' input) \<longleftrightarrow> ident' = ident \<and> name' = name \<and> al_print lib input = concat ps"
| "same_block lib (ST_Thinking ps ss) (CB_Thinking t s) \<longleftrightarrow> t = concat ps \<and> s = concat ss"
| "same_block lib (ST_Redacted d) (CB_RedactedThinking d') \<longleftrightarrow> d' = d"
| "same_block lib _ _ \<longleftrightarrow> False"

fun plain_call :: "streamed_block \<Rightarrow> chat_tool_call" where
  "plain_call (ST_Tool ident name ps) = \<lparr>ct_id = ident, ct_name = name, ct_arguments_json = concat ps, ct_caller = None\<rparr>"
| "plain_call _ = call_of_stream StreamToolCall_default"

lemma same_blocks_parts:
  "list_all2 (same_block lib) bs pbs \<Longrightarrow>
   plain_calls lib pbs = map plain_call (filter is_tool bs) \<and> concat (plain_texts pbs) = concat (map block_text bs)
   \<and> plain_artifact_blocks pbs = concat (map block_artifact bs)"
proof (induction bs pbs rule: list_all2_induct)
  case (Cons b bs p pbs)
  then show ?case
    by (cases b; cases p) (auto simp: plain_calls_def plain_texts_def plain_artifact_blocks_def map_filter_simps)
qed (simp add: plain_calls_def plain_texts_def plain_artifact_blocks_def map_filter_simps)


text \<open>A text, then a tool use: the streamed turn has two calls, the first one empty, the second with arguments that are not JSON.\<close>

definition demo_anthropic :: anthropic_lib where
  "demo_anthropic =
     \<lparr>al_start = (\<lambda>s. if s = ''text'' then Some (0, SC_Text []) else if s = ''tool'' then Some (1, SC_ToolUse ''t1'' ''ls'' (JObject [])) else None),
      al_delta = (\<lambda>s. if s = ''hi'' then Some (0, AD_TextDelta ''hi'') else if s = ''args'' then Some (1, AD_InputJsonDelta ''{1}'') else None),
      al_message_start = (\<lambda>_. None), al_message_delta = (\<lambda>_. None),
      al_print = (\<lambda>v. case v of JObject [] \<Rightarrow> ''{}'' | JString s \<Rightarrow> s | _ \<Rightarrow> []), al_to_vec = (\<lambda>_. None)\<rparr>"

definition demo_message :: "(string \<times> string) list" where
  "demo_message = [(''content_block_start'', ''text''), (''content_block_delta'', ''hi''), (''content_block_stop'', []),
     (''content_block_start'', ''tool''), (''content_block_delta'', ''args''), (''content_block_stop'', []), (''message_stop'', [])]"


end
