(* ===== verification/Gemini_Stream.thy ===== *)
theory Gemini_Stream
  imports Responses_Theorems
begin

text \<open>
  The turns of the Gemini API, streamed (\<^verbatim>\<open>choreo-ai-protocols/src/google/requests.rs\<close>) and plain
  (\<^verbatim>\<open>google/mod.rs\<close>): from the parts of the answer to the result of the turn. The derived decoder of a response and
  the serializer are the parameter \<open>gemini_lib\<close>.
\<close>

section \<open>Parts\<close>

datatype ResponsePart =
    PartText string "bool option" "string option" \<comment> \<open>text, thought, signature\<close>
  | PartFunctionCall string json "string option"

datatype ClassifiedPart =
    CP_Answer string
  | CP_Reasoning string "string option"
  | CP_ToolCall string json "string option"

fun classify :: "ResponsePart \<Rightarrow> ClassifiedPart" where
  "classify (PartText txt thought signature) = (if thought = Some True then CP_Reasoning txt signature else CP_Answer txt)"
| "classify (PartFunctionCall name args signature) = CP_ToolCall name args signature"

record GenerateContentResponse =
  gc_candidates :: "ResponsePart list option list" \<comment> \<open>the parts of each candidate, if it has content\<close>
  gc_usage :: "token_usage option"

record gemini_lib =
  gl_response :: "string \<Rightarrow> GenerateContentResponse option"
  gl_print :: "json \<Rightarrow> string"
  gl_to_vec :: "string list \<Rightarrow> u8 list option"

definition capture_signature :: "string list \<Rightarrow> string option \<Rightarrow> string list" where
  "capture_signature signatures signature = (case signature of Some sig \<Rightarrow> signatures @ [sig] | None \<Rightarrow> signatures)"

definition google_signatures_artifact :: "gemini_lib \<Rightarrow> string list \<Rightarrow> provider_error + reasoning_artifact option" where
  "google_signatures_artifact lib signatures =
     (if signatures = [] then Inr None
      else case gl_to_vec lib signatures of
             None \<Rightarrow> Inl (PE_Io ''serialize'')
           | Some bytes \<Rightarrow> Inr (Some (GoogleSignatures bytes)))"

definition function_call :: "gemini_lib \<Rightarrow> string \<Rightarrow> json \<Rightarrow> chat_tool_call" where
  "function_call lib name args = \<lparr>ct_id = ''fc_'' @ name, ct_name = name, ct_arguments_json = gl_print lib args, ct_caller = None\<rparr>"

section \<open>The streamed turn\<close>

record gemini_acc =
  ga_has_any_output :: bool
  ga_full_text :: string
  ga_full_reasoning :: string
  ga_pending_tool_calls :: "chat_tool_call list"
  ga_signatures :: "string list"
  ga_stream_usage :: "token_usage option"
  ga_emitted :: "stream_event list" \<comment> \<open>what the callback was given\<close>

definition gemini_acc_new :: gemini_acc where
  "gemini_acc_new = \<lparr>ga_has_any_output = False, ga_full_text = [], ga_full_reasoning = [], ga_pending_tool_calls = [],
     ga_signatures = [], ga_stream_usage = None, ga_emitted = []\<rparr>"

fun handle_stream_part :: "gemini_lib \<Rightarrow> ClassifiedPart \<Rightarrow> gemini_acc \<Rightarrow> gemini_acc \<times> (provider_error + stream_event option)" where
  "handle_stream_part lib (CP_Answer txt) a =
     (if txt = [] then (a, Inr None)
      else (a\<lparr>ga_has_any_output := True, ga_full_text := ga_full_text a @ txt\<rparr>, Inr (Some (SE_Answer txt))))"
| "handle_stream_part lib (CP_Reasoning txt signature) a =
     (let a = a\<lparr>ga_signatures := capture_signature (ga_signatures a) signature\<rparr>
      in if txt = [] then (a, Inr None)
         else (a\<lparr>ga_has_any_output := True, ga_full_reasoning := ga_full_reasoning a @ txt\<rparr>, Inr (Some (SE_Reasoning txt))))"
| "handle_stream_part lib (CP_ToolCall name args signature) a =
     (let a = a\<lparr>ga_signatures := capture_signature (ga_signatures a) signature, ga_has_any_output := True\<rparr>
      in if length (ga_pending_tool_calls a) \<ge> MAX_TOOL_CALLS then (a, Inl (PE_Io ''too many tool calls (max 128)''))
         else (a\<lparr>ga_pending_tool_calls := ga_pending_tool_calls a @ [function_call lib name args]\<rparr>, Inr None))"

fun handle_parts ::
  "gemini_lib \<Rightarrow> (stream_event list \<Rightarrow> string option) \<Rightarrow> ResponsePart list \<Rightarrow> gemini_acc \<Rightarrow> gemini_acc \<times> provider_error option" where
  "handle_parts lib fails [] a = (a, None)"
| "handle_parts lib fails (part # parts) a =
     (case handle_stream_part lib (classify part) a of
        (a', Inl e) \<Rightarrow> (a', Some e)
      | (a', Inr None) \<Rightarrow> handle_parts lib fails parts a'
      | (a', Inr (Some ev)) \<Rightarrow>
          let a'' = a'\<lparr>ga_emitted := ga_emitted a' @ [ev]\<rparr>
          in (case fails (ga_emitted a'') of Some e \<Rightarrow> (a'', Some (PE_Io e)) | None \<Rightarrow> handle_parts lib fails parts a''))"

definition first_parts :: "GenerateContentResponse \<Rightarrow> ResponsePart list" where
  "first_parts r = (case gc_candidates r of Some parts # _ \<Rightarrow> parts | _ \<Rightarrow> [])"

fun gemini_loop ::
  "gemini_lib \<Rightarrow> (stream_event list \<Rightarrow> string option) \<Rightarrow> string list \<Rightarrow> stream_error option \<Rightarrow> gemini_acc \<Rightarrow> gemini_acc \<times> provider_error option" where
  "gemini_loop lib fails [] fin a = (a, map_option PE_Stream fin)"
| "gemini_loop lib fails (data # datas) fin a =
     (case gl_response lib data of
        None \<Rightarrow> (a, Some (PE_Io ''invalid response''))
      | Some r \<Rightarrow>
          (case handle_parts lib fails (first_parts r)
              (case gc_usage r of Some u \<Rightarrow> a\<lparr>ga_stream_usage := Some u\<rparr> | None \<Rightarrow> a) of
             (a', Some e) \<Rightarrow> (a', Some e)
           | (a', None) \<Rightarrow> gemini_loop lib fails datas fin a'))"

definition finish_gemini :: "gemini_lib \<Rightarrow> gemini_acc \<Rightarrow> provider_error + turn_outcome" where
  "finish_gemini lib a =
     (case google_signatures_artifact lib (ga_signatures a) of
        Inl e \<Rightarrow> Inl e
      | Inr artifact \<Rightarrow>
          if \<not> ga_has_any_output a then Inl PE_EmptyResponse
          else if ga_pending_tool_calls a \<noteq> [] then
            Inr (tool_use_result (ga_full_text a) (ga_pending_tool_calls a) (ga_full_reasoning a) (ga_stream_usage a) None artifact)
          else if ga_full_text a = [] \<and> ga_full_reasoning a = [] then Inl PE_EmptyResponse
          else Inr (final_text_result (ga_full_text a) (ga_full_reasoning a) (ga_stream_usage a) None artifact))"

definition generate_content_request_streaming ::
  "gemini_lib \<Rightarrow> (stream_event list \<Rightarrow> string option) \<Rightarrow> string list \<times> stream_error option
     \<Rightarrow> stream_event list \<times> (provider_error + turn_outcome)" where
  "generate_content_request_streaming lib fails answer =
     (case gemini_loop lib fails (fst answer) (snd answer) gemini_acc_new of
        (a, Some e) \<Rightarrow> (ga_emitted a, Inl e)
      | (a, None) \<Rightarrow> (ga_emitted a, finish_gemini lib a))"

section \<open>The plain turn\<close>

record gemini_parts =
  gp_text_parts :: "string list"
  gp_tool_calls :: "chat_tool_call list"
  gp_reasoning_parts :: "string list"
  gp_signatures :: "string list"

fun plain_part :: "gemini_lib \<Rightarrow> ClassifiedPart \<Rightarrow> gemini_parts \<Rightarrow> gemini_parts" where
  "plain_part lib (CP_Answer txt) p = p\<lparr>gp_text_parts := gp_text_parts p @ [txt]\<rparr>"
| "plain_part lib (CP_Reasoning txt signature) p =
     p\<lparr>gp_signatures := capture_signature (gp_signatures p) signature, gp_reasoning_parts := gp_reasoning_parts p @ [txt]\<rparr>"
| "plain_part lib (CP_ToolCall name args signature) p =
     p\<lparr>gp_signatures := capture_signature (gp_signatures p) signature, gp_tool_calls := gp_tool_calls p @ [function_call lib name args]\<rparr>"

definition gemini_response_to_turn_result :: "gemini_lib \<Rightarrow> GenerateContentResponse \<Rightarrow> provider_error + turn_outcome" where
  "gemini_response_to_turn_result lib r =
     (case gc_candidates r of
        Some parts # _ \<Rightarrow>
          let p = fold (plain_part lib \<circ> classify) parts
                \<lparr>gp_text_parts = [], gp_tool_calls = [], gp_reasoning_parts = [], gp_signatures = []\<rparr>
          in (case google_signatures_artifact lib (gp_signatures p) of
                Inl e \<Rightarrow> Inl e
              | Inr artifact \<Rightarrow>
                  let reasoning = (if gp_reasoning_parts p = [] then None else Some (join [CHR 0x0A] (gp_reasoning_parts p)));
                      txt = concat (gp_text_parts p)
                  in if gp_tool_calls p \<noteq> [] then
                       Inr (ToolUse \<lparr>tu_content = (if gp_text_parts p = [] then None else Some txt), tu_calls = gp_tool_calls p,
                         tu_reasoning = reasoning, tu_usage = gc_usage r, tu_response_id = None, tu_artifact = artifact\<rparr>)
                     else if txt = [] then Inl PE_EmptyResponse
                     else Inr (FinalText \<lparr>ft_content = txt, ft_reasoning = reasoning, ft_usage = gc_usage r,
                       ft_response_id = None, ft_artifact = artifact\<rparr>))
      | _ \<Rightarrow> Inl PE_EmptyResponse)"

section \<open>The streamed and the plain turn\<close>

definition told_parts :: "gemini_parts \<Rightarrow> gemini_acc \<Rightarrow> bool" where
  "told_parts p a \<longleftrightarrow>
     ga_full_text a = concat (gp_text_parts p) \<and> ga_full_reasoning a = concat (gp_reasoning_parts p)
     \<and> concat (map answer_text (ga_emitted a)) = concat (gp_text_parts p)
     \<and> ga_pending_tool_calls a = gp_tool_calls p \<and> ga_signatures a = gp_signatures p
     \<and> (ga_has_any_output a \<longleftrightarrow> concat (gp_text_parts p) \<noteq> [] \<or> concat (gp_reasoning_parts p) \<noteq> [] \<or> gp_tool_calls p \<noteq> [])"

lemma parts_told:
  "handle_parts lib fails parts a = (b, None) \<Longrightarrow> told_parts p a \<Longrightarrow> told_parts (fold (plain_part lib \<circ> classify) parts p) b"
proof (induction parts arbitrary: a p)
  case (Cons part parts)
  obtain a' res where h: "handle_stream_part lib (classify part) a = (a', res)" by fastforce
  show ?case
  proof (cases res)
    case (Inl e)
    then show ?thesis using Cons.prems(1) h by simp
  next
    case (Inr o')
    let ?m = "case o' of None \<Rightarrow> a' | Some ev \<Rightarrow> a'\<lparr>ga_emitted := ga_emitted a' @ [ev]\<rparr>"
    have "told_parts (plain_part lib (classify part) p) ?m"
      using h Inr Cons.prems(2) by (cases "classify part") (auto simp: told_parts_def Let_def split: if_splits)
    moreover have "handle_parts lib fails parts ?m = (b, None)"
      using Cons.prems(1) h Inr by (auto simp: Let_def split: option.splits)
    ultimately show ?thesis using Cons.IH by simp
  qed
qed simp

lemma parts_loop_told:
  "gemini_loop lib fails datas fin a = (b, None) \<Longrightarrow> told_parts p a \<Longrightarrow>
   told_parts (fold (plain_part lib \<circ> classify) (concat (map first_parts (List.map_filter (gl_response lib) datas))) p) b"
proof (induction datas arbitrary: a p)
  case (Cons data datas)
  then obtain r m where r: "gl_response lib data = Some r" "gemini_loop lib fails datas fin m = (b, None)"
      "handle_parts lib fails (first_parts r) (case gc_usage r of Some u \<Rightarrow> a\<lparr>ga_stream_usage := Some u\<rparr> | None \<Rightarrow> a) = (m, None)"
    by (auto split: option.splits prod.splits)
  have "told_parts p (case gc_usage r of Some u \<Rightarrow> a\<lparr>ga_stream_usage := Some u\<rparr> | None \<Rightarrow> a)"
    using Cons.prems(2) by (auto simp: told_parts_def split: option.splits)
  from Cons.IH [OF r(2) parts_told [OF r(3) this]] show ?case using r(1) by (simp add: map_filter_simps comp_def)
qed (simp add: map_filter_simps)

text \<open>
  The streamed turn of the Gemini API returns the calls, the text and the artifact of the plain turn for the same
  parts, whatever chunks they come in; and what is shown as the answer is the text of the parts that are not thoughts.
\<close>

lemma gemini_streamed_calls:
  assumes "generate_content_request_streaming lib fails (datas, fin) = (emitted, Inr (ToolUse tu))"
    and "gc_candidates r = [Some (concat (map first_parts (List.map_filter (gl_response lib) datas)))]"
  shows "\<exists>tu'. gemini_response_to_turn_result lib r = Inr (ToolUse tu') \<and> tu_calls tu' = tu_calls tu \<and> tu_artifact tu' = tu_artifact tu
    \<and> Option.bind (tu_content tu') if_nonempty = tu_content tu
    \<and> concat (map answer_text emitted) = (case tu_content tu of Some t \<Rightarrow> t | None \<Rightarrow> [])"
proof -
  obtain a where l: "gemini_loop lib fails datas fin gemini_acc_new = (a, None)" "emitted = ga_emitted a" "finish_gemini lib a = Inr (ToolUse tu)"
    using assms(1) by (auto simp: generate_content_request_streaming_def split: prod.splits option.splits)
  let ?p = "fold (plain_part lib \<circ> classify) (concat (map first_parts (List.map_filter (gl_response lib) datas)))
    \<lparr>gp_text_parts = [], gp_tool_calls = [], gp_reasoning_parts = [], gp_signatures = []\<rparr>"
  have "told_parts ?p a" by (rule parts_loop_told [OF l(1)]) (simp add: told_parts_def gemini_acc_new_def)
  then show ?thesis
    using l(2,3) assms(2)
    by (auto simp: told_parts_def finish_gemini_def gemini_response_to_turn_result_def tool_use_result_def final_text_result_def
        if_nonempty_def Let_def split: sum.splits if_splits)
qed

text \<open>Calls of the same function share their identifier; the signature of a part that is not a thought is dropped.\<close>

lemma same_function_same_id: "ct_id (function_call lib name args) = ct_id (function_call lib name args')"
  by (simp add: function_call_def)

lemma answer_signature_dropped: "handle_stream_part lib (classify (PartText txt None (Some sig))) a = handle_stream_part lib (classify (PartText txt None None)) a"
  by simp

end
