(* ===== verification/Client_View.thy ===== *)
theory Client_View
  imports Sanitize Session_Theorems
begin

text \<open>
  The client's picture of a session: \<^verbatim>\<open>choreo-client-core/src/history.rs\<close> (turns, the requests that stream into
  them, descriptions of running calls), the dispatch of session events in \<^verbatim>\<open>choreo-client-core/src/dispatch.rs\<close>, and
  what the handlers of the terminal client (\<^verbatim>\<open>choreo-tui/src/state/mod.rs\<close>) do to the picture. The rendering state of that
  client is left out.

  Shown: the client agrees with the daemon on every turn into which nothing was streamed since it was sent, whatever
  comes in between; the live output of a tool is what the daemon records; the start of a call and its first output may come
  in either order.
\<close>

section \<open>The view\<close>

definition push_capped :: "string \<Rightarrow> string \<Rightarrow> string" where
  "push_capped content data =
     (if MAX_TOOL_OUTPUT_BYTES \<le> length content then
        (if length content = MAX_TOOL_OUTPUT_BYTES \<and> data \<noteq> [] then content @ TRUNCATION_SUFFIX else content)
      else
        let remaining = MAX_TOOL_OUTPUT_BYTES - length content
        in if length data \<le> remaining then content @ data
           else content @ take (floor_char_boundary data remaining) data @ TRUNCATION_SUFFIX)"

record SessionView =
  view_turns :: "(u32, turn) btmap"
  request_to_turn :: "(u32, u32) hmap"
  tool_call_descriptions :: "(string, string) hmap"

definition SessionView_new :: SessionView where
  "SessionView_new = \<lparr>view_turns = [], request_to_turn = [], tool_call_descriptions = []\<rparr>"

definition drop_descriptions :: "turn \<Rightarrow> SessionView \<Rightarrow> SessionView" where
  "drop_descriptions t v =
     v\<lparr>tool_call_descriptions := fold (\<lambda>tc. AList.delete (tc_call_id tc)) (tool_calls t) (tool_call_descriptions v)\<rparr>"

definition insert_or_replace :: "u32 \<Rightarrow> turn \<Rightarrow> SessionView \<Rightarrow> SessionView" where
  "insert_or_replace turn_id t v = (drop_descriptions t v)\<lparr>view_turns := bt_insert turn_id t (view_turns v)\<rparr>"

definition clear_tool_call_descriptions :: "u32 \<Rightarrow> SessionView \<Rightarrow> SessionView" where
  "clear_tool_call_descriptions turn_id v =
     (case map_of (view_turns v) turn_id of Some t \<Rightarrow> drop_descriptions t v | None \<Rightarrow> v)"

text \<open>A change of the turn a request streams into; unknown requests and turns are only logged.\<close>

definition on_request_turn :: "u32 \<Rightarrow> (turn \<Rightarrow> turn) \<Rightarrow> SessionView \<Rightarrow> SessionView" where
  "on_request_turn request_id f v =
     (case map_of (request_to_turn v) request_id of
        Some turn_id \<Rightarrow> v\<lparr>view_turns := map_at turn_id f (view_turns v)\<rparr>
      | None \<Rightarrow> v)"

definition append_text :: "string option \<Rightarrow> string \<Rightarrow> string option" where
  "append_text old data = Some ((case old of Some txt \<Rightarrow> txt | None \<Rightarrow> []) @ data)"

definition stream_chunk :: "u32 \<Rightarrow> output_stream \<Rightarrow> string \<Rightarrow> SessionView \<Rightarrow> SessionView" where
  "stream_chunk request_id stream data =
     on_request_turn request_id (\<lambda>t. case stream of
        ReasoningStream \<Rightarrow> t\<lparr>assistant_reasoning := append_text (assistant_reasoning t) data\<rparr>
      | Answer \<Rightarrow> t\<lparr>assistant_text := append_text (assistant_text t) data\<rparr>)"

definition backfill :: "string \<Rightarrow> string \<Rightarrow> tool_result_record \<Rightarrow> tool_result_record" where
  "backfill name desc r =
     (let r = (if tr_name r = [] then r\<lparr>tr_name := name\<rparr> else r)
      in if tr_invocation_description r = [] then r\<lparr>tr_invocation_description := desc\<rparr> else r)"

definition tool_call_started :: "u32 \<Rightarrow> string \<Rightarrow> string \<Rightarrow> string \<Rightarrow> string \<Rightarrow> SessionView \<Rightarrow> SessionView" where
  "tool_call_started request_id call_id name args desc v =
     (case map_of (request_to_turn v) request_id of
        None \<Rightarrow> v
      | Some turn_id \<Rightarrow>
          if map_of (view_turns v) turn_id = None then v
          else
            let v1 = (if desc \<noteq> [] then v\<lparr>tool_call_descriptions := AList.update call_id desc (tool_call_descriptions v)\<rparr> else v)
            in on_request_turn request_id (\<lambda>t. t
                 \<lparr>tool_results := upd_first (\<lambda>r. tr_call_id r = call_id) (backfill name desc) (tool_results t),
                  tool_calls := (if list_ex (\<lambda>tc. tc_call_id tc = call_id) (tool_calls t) then tool_calls t
                    else tool_calls t @ [\<lparr>tc_call_id = call_id, tc_name = name, tc_arguments_json = args\<rparr>])\<rparr>) v1)"

definition described :: "string option \<Rightarrow> tool_result_record \<Rightarrow> tool_result_record" where
  "described desc r =
     (case desc of
        Some d \<Rightarrow> if tr_invocation_description r = [] then r\<lparr>tr_invocation_description := d\<rparr> else r
      | None \<Rightarrow> r)"

definition stub_result :: "string option \<Rightarrow> string \<Rightarrow> string \<Rightarrow> turn \<Rightarrow> tool_result_record" where
  "stub_result desc call_id data t =
     \<lparr>tr_call_id = call_id,
      tr_name = (case find (\<lambda>tc. tc_call_id tc = call_id) (tool_calls t) of Some tc \<Rightarrow> tc_name tc | None \<Rightarrow> []),
      tr_content = push_capped [] data, tr_is_error = False,
      tr_invocation_description = (case desc of Some d \<Rightarrow> d | None \<Rightarrow> []), tr_image = None\<rparr>"

definition tool_result_chunk :: "u32 \<Rightarrow> string \<Rightarrow> string \<Rightarrow> SessionView \<Rightarrow> SessionView" where
  "tool_result_chunk request_id call_id data v =
     (let desc = map_of (tool_call_descriptions v) call_id
      in on_request_turn request_id (\<lambda>t.
           if list_ex (\<lambda>r. tr_call_id r = call_id) (tool_results t)
           then t\<lparr>tool_results := upd_first (\<lambda>r. tr_call_id r = call_id)
                  (\<lambda>r. (described desc r)\<lparr>tr_content := push_capped (tr_content r) data\<rparr>) (tool_results t)\<rparr>
           else t\<lparr>tool_results := tool_results t @ [stub_result desc call_id data t]\<rparr>) v)"

section \<open>The client\<close>

definition nonempty_text :: "string option \<Rightarrow> bool" where
  "nonempty_text s \<longleftrightarrow> (case s of Some txt \<Rightarrow> txt \<noteq> [] | None \<Rightarrow> False)"

definition turn_has_live_content :: "turn \<Rightarrow> turn \<Rightarrow> bool" where
  "turn_has_live_content acc snap \<longleftrightarrow>
     nonempty_text (assistant_text acc) \<and> \<not> nonempty_text (assistant_text snap)
   \<or> nonempty_text (assistant_reasoning acc) \<and> \<not> nonempty_text (assistant_reasoning snap)
   \<or> tool_calls acc \<noteq> [] \<and> tool_calls snap = []
   \<or> tool_results acc \<noteq> [] \<and> tool_results snap = []
   \<or> displayed_images acc \<noteq> [] \<and> displayed_images snap = []"

definition merge_snapshot :: "(u32, turn) btmap \<Rightarrow> (u32, turn) btmap \<Rightarrow> (u32, turn) btmap" where
  "merge_snapshot snap accumulated =
     fold (\<lambda>(turn_id, acc) merged.
        case map_of merged turn_id of
          Some s \<Rightarrow> if turn_has_live_content acc s then map_at turn_id (\<lambda>_. acc) merged else merged
        | None \<Rightarrow> bt_insert turn_id acc merged) accumulated snap"

record client_app =
  cl_displays :: "(u64, SessionView) hmap"
  cl_attached :: "u64 option"

definition display_for :: "u64 \<Rightarrow> client_app \<Rightarrow> SessionView" where
  "display_for session_id c = (case map_of (cl_displays c) session_id of Some v \<Rightarrow> v | None \<Rightarrow> SessionView_new)"

definition on_display :: "u64 \<Rightarrow> (SessionView \<Rightarrow> SessionView) \<Rightarrow> client_app \<Rightarrow> client_app" where
  "on_display session_id f c = c\<lparr>cl_displays := AList.update session_id (f (display_for session_id c)) (cl_displays c)\<rparr>"

definition end_request :: "u32 \<Rightarrow> SessionView \<Rightarrow> SessionView" where
  "end_request request_id v =
     (let v1 = (case map_of (request_to_turn v) request_id of
            Some turn_id \<Rightarrow> clear_tool_call_descriptions turn_id v | None \<Rightarrow> v)
      in v1\<lparr>request_to_turn := AList.delete request_id (request_to_turn v1)\<rparr>)"

definition handle_failed :: "u64 option \<Rightarrow> u32 \<Rightarrow> client_app \<Rightarrow> client_app" where
  "handle_failed origin request_id c =
     (case (case origin of Some i \<Rightarrow> Some i | None \<Rightarrow> cl_attached c) of
        Some session_id \<Rightarrow> on_display session_id (end_request request_id) c
      | None \<Rightarrow> c)"

definition bytes_text :: "u8 list \<Rightarrow> string" where
  "bytes_text data = from_utf8_lossy (map (\<lambda>b. char_of (unat b)) data)"

fun view_event :: "session_event \<Rightarrow> SessionView \<Rightarrow> SessionView" where
  "view_event (SessionStateEvent _ _ _ _ ts _ _ _ _ _ _ _) v = v\<lparr>view_turns := merge_snapshot ts (view_turns v)\<rparr>"
| "view_event (TurnAppended turn_id t) v = insert_or_replace turn_id t v"
| "view_event (TurnsUndone turn_ids) v = v\<lparr>view_turns := fold (\<lambda>i. map_at i (\<lambda>t. t\<lparr>undone := True\<rparr>)) turn_ids (view_turns v)\<rparr>"
| "view_event (TurnsRedone ts) v = fold (\<lambda>(i, t). insert_or_replace i t) ts v"
| "view_event (Started request_id turn_id _) v = v\<lparr>request_to_turn := AList.update request_id turn_id (request_to_turn v)\<rparr>"
| "view_event (OutputChunk request_id stream data) v = stream_chunk request_id stream (bytes_text data) v"
| "view_event (ToolCallStarted request_id call_id tool_name arguments_json desc) v =
     tool_call_started request_id call_id tool_name arguments_json desc v"
| "view_event (ToolResultChunk request_id call_id data) v = tool_result_chunk request_id call_id (bytes_text data) v"
| "view_event (Done request_id _ _) v = end_request request_id v"
| "view_event _ v = v"

fun dispatch_session_event :: "u64 option \<Rightarrow> session_event \<Rightarrow> client_app \<Rightarrow> client_app" where
  "dispatch_session_event origin (Failed request_id _) c = handle_failed origin request_id c"
| "dispatch_session_event origin (Cancelled request_id) c = handle_failed origin request_id c"
| "dispatch_session_event (Some session_id) SessionAttached c = c\<lparr>cl_attached := Some session_id\<rparr>"
| "dispatch_session_event (Some session_id) ev c = on_display session_id (view_event ev) c"
| "dispatch_session_event None ev c = c"

section \<open>Agreement with the daemon\<close>

lemma map_of_merge_snapshot:
  assumes "distinct (map fst acc)"
  shows "map_of (merge_snapshot snap acc) i = (case (map_of snap i, map_of acc i) of
      (Some s, Some a) \<Rightarrow> Some (if turn_has_live_content a s then a else s) | (Some s, None) \<Rightarrow> Some s | (None, r) \<Rightarrow> r)"
  using assms
proof (induction acc arbitrary: snap)
  case Nil
  then show ?case by (simp add: merge_snapshot_def split: option.splits)
next
  case (Cons ka acc)
  obtain k a where ka: "ka = (k, a)" by (cases ka)
  let ?m = "case map_of snap k of Some s \<Rightarrow> if turn_has_live_content a s then map_at k (\<lambda>_. a) snap else snap | None \<Rightarrow> bt_insert k a snap"
  have "merge_snapshot snap (ka # acc) = merge_snapshot ?m acc" by (simp add: merge_snapshot_def ka)
  moreover have "map_of acc k = None" using Cons.prems by (simp add: ka map_of_eq_None_iff)
  ultimately show ?case
    using Cons.IH [of ?m] Cons.prems by (auto simp: ka split: option.splits)
qed

lemma bt_wf_merge_snapshot: "bt_wf snap \<Longrightarrow> bt_wf (merge_snapshot snap acc)"
proof (induction acc arbitrary: snap)
  case (Cons ka acc)
  obtain k a where ka: "ka = (k, a)" by (cases ka)
  let ?m = "case map_of snap k of Some s \<Rightarrow> if turn_has_live_content a s then map_at k (\<lambda>_. a) snap else snap | None \<Rightarrow> bt_insert k a snap"
  have "bt_wf ?m" using Cons.prems by (auto simp: bt_wf_insert split: option.splits)
  from Cons.IH [OF this] show ?case by (simp add: merge_snapshot_def ka)
qed (simp add: merge_snapshot_def)

lemma no_live_content_self: "\<not> turn_has_live_content t t"
  by (auto simp: turn_has_live_content_def)

lemma map_of_clients_turns: "map_of (clients_turns ts) i = map_option turn_for_client (map_of ts i)"
  by (induction ts) (auto simp: clients_turns_def)

lemma bt_wf_clients_turns: "bt_wf (clients_turns ts) \<longleftrightarrow> bt_wf ts"
  by (simp add: bt_wf_def clients_turns_def case_prod_unfold comp_def)

lemma turn_for_client_undone: "(turn_for_client t)\<lparr>undone := b\<rparr> = turn_for_client (t\<lparr>undone := b\<rparr>)"
  by (simp add: turn_for_client_def)

definition restore :: "(u32, turn) btmap \<Rightarrow> u32 \<Rightarrow> (u32, turn) btmap \<Rightarrow> (u32, turn) btmap" where
  "restore ts i r = (case map_of ts i of None \<Rightarrow> r | Some t \<Rightarrow> bt_insert i t r)"

lemma map_of_restored: "map_of (fold (restore ts) ids r) i = (if i \<in> set ids \<and> map_of ts i \<noteq> None then map_of ts i else map_of r i)"
  by (induction ids arbitrary: r) (auto simp: restore_def split: option.splits)

lemma bt_wf_restored: "bt_wf r \<Longrightarrow> bt_wf (fold (restore ts) ids r)"
  by (induction ids arbitrary: r) (auto simp: restore_def bt_wf_insert split: option.splits)

lemma redo_turns_restores:
  assumes "redo_turns s = (s', Some restored)"
  obtains ids where "turns s' = mark_undone False ids (turns s)" "bt_wf restored"
    "\<And>i. map_of restored i = (if i \<in> set ids then map_of (turns s') i else None)"
proof -
  obtain ids where ids: "last_undo_turn_ids s = Some ids" "turns s' = mark_undone False ids (turns s)"
      "restored = fold (restore (turns s')) ids []"
    using assms by (auto simp: redo_turns_def Let_def restore_def [abs_def] split: option.splits)
  then show thesis using that [of ids] bt_wf_restored [of "[]"] by (simp add: map_of_restored)
qed

lemma replace_all_turns [simp]:
  "view_turns (fold (\<lambda>(i, t). insert_or_replace i t) ts v) = fold (\<lambda>(i, t). bt_insert i t) ts (view_turns v)"
  by (induction ts arbitrary: v) (auto simp: insert_or_replace_def drop_descriptions_def)

lemma map_of_insert_all:
  "bt_wf ts \<Longrightarrow> map_of (fold (\<lambda>(i, t). bt_insert i t) ts m) i = (case map_of ts i of Some t \<Rightarrow> Some t | None \<Rightarrow> map_of m i)"
proof (induction ts arbitrary: m)
  case (Cons kt ts)
  obtain k t where kt: "kt = (k, t)" by (cases kt)
  then have "map_of ts k = None" "bt_wf ts" using Cons.prems by (auto simp: bt_wf_Cons map_of_eq_None_iff)
  then show ?case using Cons.IH by (auto simp: kt split: option.splits)
qed simp

lemma bt_wf_insert_all: "bt_wf m \<Longrightarrow> bt_wf (fold (\<lambda>(i, t). bt_insert i t) ts m)"
  by (induction ts arbitrary: m) (auto simp: bt_wf_insert)

text \<open>
  What happens between the daemon and the client: a turn is sent after a change, turns are undone and redone, a snapshot is
  sent, live output is streamed, and messages of other sessions or of none arrive. Beside the two states, the turns into which
  something was streamed since they were sent are kept.
\<close>

datatype occurrence =
    TurnSent u32 turn
  | UndoSent
  | RedoSent
  | SnapshotSent
  | Streamed session_event
  | FromElsewhere "u64 option" session_event

fun authoritative :: "session_event \<Rightarrow> bool" where
  "authoritative (SessionStateEvent _ _ _ _ _ _ _ _ _ _ _ _) = True"
| "authoritative (TurnAppended _ _) = True"
| "authoritative (TurnsUndone _) = True"
| "authoritative (TurnsRedone _) = True"
| "authoritative _ = False"

fun streams_into :: "session_event \<Rightarrow> SessionView \<Rightarrow> u32 option" where
  "streams_into (OutputChunk request_id _ _) v = map_of (request_to_turn v) request_id"
| "streams_into (ToolCallStarted request_id _ _ _ _) v = map_of (request_to_turn v) request_id"
| "streams_into (ToolResultChunk request_id _ _) v = map_of (request_to_turn v) request_id"
| "streams_into _ v = None"

fun deliver :: "daemon_message \<Rightarrow> client_app \<Rightarrow> client_app" where
  "deliver (Session origin ev) c = dispatch_session_event origin ev c"
| "deliver _ c = c"

type_synonym picture = "session_state \<times> client_app \<times> u32 set"

fun occurs :: "(string \<Rightarrow> string \<Rightarrow> reasoning_capability) \<Rightarrow> u64 \<Rightarrow> occurrence \<Rightarrow> picture \<Rightarrow> picture" where
  "occurs cap sid (TurnSent i t) (s, c, D) =
     (s\<lparr>turns := bt_insert i t (turns s)\<rparr>, deliver (Session (Some sid) (TurnAppended i (turn_for_client t))) c, D - {i})"
| "occurs cap sid UndoSent (s, c, D) =
     (case undo_turns s of
        (s', None) \<Rightarrow> (s', c, D)
      | (s', Some ids) \<Rightarrow> (s', deliver (Session (Some sid) (TurnsUndone ids)) c, D))"
| "occurs cap sid RedoSent (s, c, D) =
     (case redo_turns s of
        (s', None) \<Rightarrow> (s', c, D)
      | (s', Some restored) \<Rightarrow> (s', deliver (Session (Some sid) (TurnsRedone (clients_turns restored))) c, D - set (keys restored)))"
| "occurs cap sid SnapshotSent (s, c, D) = (s, deliver (session_state_message cap sid s) c, D)"
| "occurs cap sid (Streamed ev) (s, c, D) =
     (if authoritative ev then (s, c, D)
      else (s, deliver (Session (Some sid) ev) c,
        case streams_into ev (display_for sid c) of Some i \<Rightarrow> insert i D | None \<Rightarrow> D))"
| "occurs cap sid (FromElsewhere origin ev) (s, c, D) =
     (if origin = Some sid then (s, c, D) else (s, deliver (Session origin ev) c, D))"

definition agrees :: "u64 \<Rightarrow> picture \<Rightarrow> bool" where
  "agrees sid p \<longleftrightarrow> (case p of (s, c, D) \<Rightarrow>
     bt_wf (turns s) \<and> bt_wf (view_turns (display_for sid c))
     \<and> (\<forall>i. i \<notin> D \<longrightarrow> map_of (view_turns (display_for sid c)) i = map_option turn_for_client (map_of (turns s) i)))"

lemma display_on_display [simp]:
  "display_for sid (on_display sid' f c) = (if sid = sid' then f (display_for sid c) else display_for sid c)"
  by (simp add: display_for_def on_display_def update_conv')

lemma display_attached [simp]: "display_for sid (c\<lparr>cl_attached := x\<rparr>) = display_for sid c"
  by (simp add: display_for_def)

lemma dispatch_on_view:
  "\<not> (case ev of Failed _ _ \<Rightarrow> True | Cancelled _ \<Rightarrow> True | SessionAttached \<Rightarrow> True | _ \<Rightarrow> False) \<Longrightarrow>
   dispatch_session_event (Some sid) ev c = on_display sid (view_event ev) c"
  by (cases ev) auto

lemma end_request_turns [simp]: "view_turns (end_request r v) = view_turns v"
  by (auto simp: end_request_def clear_tool_call_descriptions_def drop_descriptions_def Let_def split: option.splits)

lemma display_handle_failed [simp]: "view_turns (display_for sid (handle_failed origin r c)) = view_turns (display_for sid c)"
  by (auto simp: handle_failed_def split: option.splits)

lemma on_request_turn_lookup:
  "map_of (request_to_turn v) r \<noteq> Some i \<Longrightarrow> map_of (view_turns (on_request_turn r f v)) i = map_of (view_turns v) i"
  by (auto simp: on_request_turn_def split: option.splits)

lemma on_request_turn_wf [simp]: "bt_wf (view_turns (on_request_turn r f v)) = bt_wf (view_turns v)"
  by (auto simp: on_request_turn_def split: option.splits)

lemma streamed_view:
  assumes "\<not> authoritative ev"
  shows "bt_wf (view_turns (view_event ev v)) = bt_wf (view_turns v)
    \<and> (streams_into ev v \<noteq> Some i \<longrightarrow> map_of (view_turns (view_event ev v)) i = map_of (view_turns v) i)"
  using assms
  by (cases ev)
    (auto simp: stream_chunk_def tool_result_chunk_def tool_call_started_def on_request_turn_lookup Let_def on_request_turn_def
      split: option.splits)

lemma streamed_client:
  assumes "\<not> authoritative ev"
  shows "bt_wf (view_turns (display_for sid (dispatch_session_event (Some sid) ev c))) = bt_wf (view_turns (display_for sid c))
    \<and> (streams_into ev (display_for sid c) \<noteq> Some i \<longrightarrow>
        map_of (view_turns (display_for sid (dispatch_session_event (Some sid) ev c))) i = map_of (view_turns (display_for sid c)) i)"
proof (cases "case ev of Failed _ _ \<Rightarrow> True | Cancelled _ \<Rightarrow> True | SessionAttached \<Rightarrow> True | _ \<Rightarrow> False")
  case True
  then show ?thesis by (cases ev) auto
next
  case False
  then show ?thesis using streamed_view [OF assms, of "display_for sid c" i] by (simp add: dispatch_on_view)
qed

lemma elsewhere_client:
  "origin \<noteq> Some sid \<Longrightarrow> view_turns (display_for sid (dispatch_session_event origin ev c)) = view_turns (display_for sid c)"
  by (cases origin; cases ev) (auto split: if_splits)

lemma undone_all:
  "map_of (fold (\<lambda>i. map_at i (\<lambda>t. t\<lparr>undone := True\<rparr>)) ids ts) i
   = (if i \<in> set ids then map_option (\<lambda>t. t\<lparr>undone := True\<rparr>) (map_of ts i) else map_of ts i)"
  by (induction ids arbitrary: ts) (auto simp: option.map_comp o_def)

lemma bt_wf_undone_all [simp]: "bt_wf (fold (\<lambda>i. map_at i (\<lambda>t. t\<lparr>undone := True\<rparr>)) ids ts) = bt_wf ts"
  by (induction ids arbitrary: ts) auto

lemma agrees_undo: "agrees sid (s, c, D) \<Longrightarrow> agrees sid (occurs cap sid UndoSent (s, c, D))"
proof -
  assume a: "agrees sid (s, c, D)"
  obtain s' res where u: "undo_turns s = (s', res)" by (cases "undo_turns s")
  show ?thesis
  proof (cases res)
    case None
    then show ?thesis using a u by (auto simp: undo_turns_def Let_def split: option.splits)
  next
    case (Some ids)
    have s': "turns s' = mark_undone True ids (turns s)" using u Some by (auto elim!: undo_turns_SomeD)
    show ?thesis
      using a u Some by (auto simp: agrees_def s' undone_all map_of_mark_undone option.map_comp o_def turn_for_client_undone)
  qed
qed

lemma agrees_redo: "agrees sid (s, c, D) \<Longrightarrow> agrees sid (occurs cap sid RedoSent (s, c, D))"
proof -
  assume a: "agrees sid (s, c, D)"
  obtain s' res where u: "redo_turns s = (s', res)" by (cases "redo_turns s")
  show ?thesis
  proof (cases res)
    case None
    then show ?thesis using a u by (auto simp: redo_turns_def Let_def split: option.splits)
  next
    case (Some restored)
    then obtain ids where r: "turns s' = mark_undone False ids (turns s)" "bt_wf restored"
        "\<And>i. map_of restored i = (if i \<in> set ids then map_of (turns s') i else None)"
      using u redo_turns_restores by metis
    let ?v = "view_turns (display_for sid c)"
    have l: "map_of (fold (\<lambda>(i, t). bt_insert i t) (clients_turns restored) ?v) i
        = (case map_of restored i of Some t \<Rightarrow> Some (turn_for_client t) | None \<Rightarrow> map_of ?v i)" for i
      using r(2) by (simp add: map_of_insert_all bt_wf_clients_turns map_of_clients_turns split: option.splits)
    have "map_of (fold (\<lambda>(i, t). bt_insert i t) (clients_turns restored) ?v) i = map_option turn_for_client (map_of (turns s') i)"
      if "i \<notin> D - set (keys restored)" for i
    proof (cases "map_of restored i")
      case None
      then have "i \<notin> set (keys restored)" by (simp add: map_of_eq_None_iff)
      moreover have "map_of (turns s') i = map_of (turns s) i" using None r(1) r(3) [of i] by (auto simp: map_of_mark_undone split: if_splits)
      ultimately show ?thesis using a that l [of i] None by (simp add: agrees_def)
    next
      case (Some t)
      then show ?thesis using r(3) [of i] l [of i] by (simp split: if_splits)
    qed
    then show ?thesis using a u Some r(1) by (simp add: agrees_def bt_wf_insert_all)
  qed
qed

lemma agrees_snapshot: "agrees sid (s, c, D) \<Longrightarrow> agrees sid (occurs cap sid SnapshotSent (s, c, D))"
proof -
  assume a: "agrees sid (s, c, D)"
  let ?v = "view_turns (display_for sid c)"
  have "distinct (map fst ?v)" using a by (simp add: agrees_def bt_wf_def strict_sorted_iff)
  then have "map_of (merge_snapshot (clients_turns (turns s)) ?v) i = map_option turn_for_client (map_of (turns s) i)" if "i \<notin> D" for i
    using a that by (auto simp: agrees_def map_of_merge_snapshot map_of_clients_turns no_live_content_self split: option.splits)
  then show ?thesis using a by (simp add: agrees_def session_state_message_def bt_wf_merge_snapshot bt_wf_clients_turns)
qed

lemma agrees_step: "agrees sid p \<Longrightarrow> agrees sid (occurs cap sid oc p)"
proof -
  assume a: "agrees sid p"
  obtain s c D where p: "p = (s, c, D)" by (cases p)
  show ?thesis
  proof (cases oc)
    case (TurnSent i t)
    then show ?thesis using a by (auto simp: p agrees_def bt_wf_insert insert_or_replace_def drop_descriptions_def)
  next
    case (Streamed ev)
    then show ?thesis using a streamed_client [of ev sid c] by (auto simp: p agrees_def split: option.splits)
  next
    case (FromElsewhere origin ev)
    then show ?thesis using a elsewhere_client [of origin sid ev c] by (auto simp: p agrees_def)
  qed (use a agrees_undo agrees_redo agrees_snapshot in \<open>simp_all add: p\<close>)
qed


section \<open>Live output\<close>

lemma bytes_text_valid: "utf8_valid ch \<Longrightarrow> bytes_text (map (\<lambda>c. of_nat (byte c)) ch) = ch"
proof -
  assume v: "utf8_valid ch"
  have "char_of (unat (of_nat (byte c) :: u8)) = c" for c by (simp add: unat_of_nat take_bit_nat_eq_self)
  then have "map (\<lambda>b. char_of (unat (b :: u8))) (map (\<lambda>c. of_nat (byte c)) ch) = ch" by (simp add: comp_def)
  then show ?thesis using from_utf8_lossy_valid [OF v] by (simp add: bytes_text_def)
qed

text \<open>The state of the daemon's side and what a client made of what was sent.\<close>

definition mirrored :: "stream_cap \<Rightarrow> bool" where
  "mirrored s \<longleftrightarrow> foldl push_capped [] (sc_sent s) = sc_out s \<and> bb_limit (sc_budget s) = MAX_TOOL_OUTPUT_BYTES
     \<and> (if bb_marker_sent (sc_budget s) then bb_truncated (sc_budget s) \<and> bb_used (sc_budget s) = MAX_TOOL_OUTPUT_BYTES
        else \<not> bb_truncated (sc_budget s) \<and> length (sc_out s) = bb_used (sc_budget s) \<and> bb_used (sc_budget s) \<le> MAX_TOOL_OUTPUT_BYTES)"

lemma push_mirrored:
  assumes "mirrored s"
  shows "foldl push_capped [] (sc_sent (fst (push up c s))) = sc_out (fst (push up c s))
    \<and> (snd (push up c s) \<longrightarrow> mirrored (fst (push up c s)))"
proof -
  have sfx: "TRUNCATION_SUFFIX \<noteq> []" by (simp add: TRUNCATION_SUFFIX_def)
  let ?b = "sc_budget s" and ?M = "MAX_TOOL_OUTPUT_BYTES"
  note defs = mirrored_def push_def fit_def push_marker_def take_marker_def forward_def record_bytes_def push_capped_def Let_def
  consider "bb_marker_sent ?b" | "\<not> bb_marker_sent ?b" "bb_used ?b = ?M"
    | "\<not> bb_marker_sent ?b" "bb_used ?b < ?M" "?M - bb_used ?b < length c"
    | "\<not> bb_marker_sent ?b" "bb_used ?b < ?M" "length c \<le> ?M - bb_used ?b"
    using assms by (fastforce simp: mirrored_def)
  then show ?thesis using assms sfx by cases (auto simp: defs)
qed

lemma push_all_mirrored: "mirrored s \<Longrightarrow> foldl push_capped [] (sc_sent (fst (push_all up cs s))) = sc_out (fst (push_all up cs s))"
proof (induction cs arbitrary: s)
  case Nil
  then show ?case by (simp add: mirrored_def)
next
  case (Cons c cs)
  then show ?case using push_mirrored [OF Cons.prems, of up c] by (cases "push up c s") auto
qed

lemma chunk_on_record:
  assumes "map_of (request_to_turn v) r = Some i" "map_of (view_turns v) i = Some t"
    and "find (\<lambda>x. tr_call_id x = cid) (tool_results t) = Some rec"
  obtains t' rec' where "map_of (view_turns (tool_result_chunk r cid data v)) i = Some t'"
    "find (\<lambda>x. tr_call_id x = cid) (tool_results t') = Some rec'" "tr_content rec' = push_capped (tr_content rec) data"
    "request_to_turn (tool_result_chunk r cid data v) = request_to_turn v"
proof -
  let ?f = "\<lambda>x. (described (map_of (tool_call_descriptions v) cid) x)\<lparr>tr_content := push_capped (tr_content x) data\<rparr>"
  have keep: "tr_call_id (?f x) = tr_call_id x" for x by (simp add: described_def split: option.splits)
  have "find (\<lambda>x. tr_call_id x = cid) (upd_first (\<lambda>x. tr_call_id x = cid) ?f rs) = Some (?f rec)"
    if "find (\<lambda>x. tr_call_id x = cid) rs = Some rec" for rs
    using that keep by (induction rs) (auto split: if_splits)
  moreover have "list_ex (\<lambda>x. tr_call_id x = cid) (tool_results t)" using assms(3) by (auto simp: list_ex_iff find_Some_iff)
  ultimately show thesis
    using assms that [of "t\<lparr>tool_results := upd_first (\<lambda>x. tr_call_id x = cid) ?f (tool_results t)\<rparr>" "?f rec"]
    by (simp add: tool_result_chunk_def on_request_turn_def Let_def)
qed

lemma chunks_on_record:
  assumes "map_of (request_to_turn v) r = Some i" "map_of (view_turns v) i = Some t"
    and "find (\<lambda>x. tr_call_id x = cid) (tool_results t) = Some rec"
  shows "\<exists>t' rec'. map_of (view_turns (foldl (\<lambda>v ch. tool_result_chunk r cid ch v) v chunks)) i = Some t'
    \<and> find (\<lambda>x. tr_call_id x = cid) (tool_results t') = Some rec' \<and> tr_content rec' = foldl push_capped (tr_content rec) chunks"
  using assms
proof (induction chunks arbitrary: v t rec)
  case (Cons ch chunks)
  obtain t' rec' where s: "map_of (view_turns (tool_result_chunk r cid ch v)) i = Some t'"
    "find (\<lambda>x. tr_call_id x = cid) (tool_results t') = Some rec'" "tr_content rec' = push_capped (tr_content rec) ch"
    "request_to_turn (tool_result_chunk r cid ch v) = request_to_turn v"
    by (rule chunk_on_record [OF Cons.prems, of ch])
  have "map_of (request_to_turn (tool_result_chunk r cid ch v)) r = Some i" using s(4) Cons.prems(1) by simp
  from Cons.IH [OF this s(1,2)] s(3) show ?case by simp
qed auto




section \<open>Order of start and output\<close>

lemma map_at_twice: "map_at k f (map_at k g m) = map_at k (f \<circ> g) m"
  by (simp add: map_at_def case_prod_unfold)

lemma map_at_cong_lookup: "bt_wf m \<Longrightarrow> (\<And>v. map_of m k = Some v \<Longrightarrow> f v = g v) \<Longrightarrow> map_at k f m = map_at k g m"
  by (auto simp: map_at_def bt_wf_def strict_sorted_iff)

lemma upd_first_upd_first:
  "(\<And>x. P x \<Longrightarrow> P (g x)) \<Longrightarrow> upd_first P f (upd_first P g xs) = upd_first P (f \<circ> g) xs"
  by (induction xs) auto

lemma upd_first_absent: "\<not> list_ex P xs \<Longrightarrow> upd_first P f (xs @ ys) = xs @ upd_first P f ys"
  by (induction xs) auto

definition start_turn_call :: "string \<Rightarrow> string \<Rightarrow> string \<Rightarrow> string \<Rightarrow> turn \<Rightarrow> turn" where
  "start_turn_call cid name args desc t = t
     \<lparr>tool_results := upd_first (\<lambda>r. tr_call_id r = cid) (backfill name desc) (tool_results t),
      tool_calls := (if list_ex (\<lambda>tc. tc_call_id tc = cid) (tool_calls t) then tool_calls t
        else tool_calls t @ [\<lparr>tc_call_id = cid, tc_name = name, tc_arguments_json = args\<rparr>])\<rparr>"

definition chunk_turn_call :: "string option \<Rightarrow> string \<Rightarrow> string \<Rightarrow> turn \<Rightarrow> turn" where
  "chunk_turn_call desc cid data t =
     (if list_ex (\<lambda>r. tr_call_id r = cid) (tool_results t)
      then t\<lparr>tool_results := upd_first (\<lambda>r. tr_call_id r = cid)
             (\<lambda>r. (described desc r)\<lparr>tr_content := push_capped (tr_content r) data\<rparr>) (tool_results t)\<rparr>
      else t\<lparr>tool_results := tool_results t @ [stub_result desc cid data t]\<rparr>)"

lemma list_ex_upd_first: "(\<And>x. P (f x) = P x) \<Longrightarrow> list_ex P (upd_first P f xs) = list_ex P xs"
  by (induction xs) auto

lemma find_absent: "\<not> list_ex P xs \<Longrightarrow> find P (xs @ ys) = find P ys"
  by (induction xs) auto

lemma find_present: "list_ex P xs \<Longrightarrow> find P (xs @ ys) = find P xs \<and> (\<exists>x \<in> set xs. P x \<and> find P xs = Some x)"
  by (induction xs) auto

lemma start_chunk_turn:
  assumes "\<And>tc. tc \<in> set (tool_calls t) \<Longrightarrow> tc_call_id tc = cid \<Longrightarrow> tc_name tc \<noteq> []"
  shows "chunk_turn_call (if desc \<noteq> [] then Some desc else None) cid data (start_turn_call cid name args desc t)
    = start_turn_call cid name args desc (chunk_turn_call None cid data t)"
proof (cases "list_ex (\<lambda>x. tr_call_id x = cid) (tool_results t)")
  case True
  have ids: "tr_call_id (backfill name desc x) = tr_call_id x" "tr_call_id (described d x) = tr_call_id x" for x d
    by (simp_all add: backfill_def described_def Let_def split: option.splits)
  have "backfill name desc \<circ> (\<lambda>x. (described None x)\<lparr>tr_content := push_capped (tr_content x) data\<rparr>)
      = (\<lambda>x. (described (if desc \<noteq> [] then Some desc else None) x)\<lparr>tr_content := push_capped (tr_content x) data\<rparr>) \<circ> backfill name desc"
    by (auto simp: fun_eq_iff backfill_def described_def Let_def)
  then show ?thesis
    using True ids by (simp add: chunk_turn_call_def start_turn_call_def upd_first_upd_first list_ex_upd_first)
next
  case False
  have "upd_first (\<lambda>r. tr_call_id r = cid) f (tool_results t) = tool_results t" for f
    using upd_first_absent [OF False, of f "[]"] by simp
  moreover have "backfill name desc (stub_result None cid data t)
      = stub_result (if desc \<noteq> [] then Some desc else None) cid data (start_turn_call cid name args desc t)"
  proof (cases "list_ex (\<lambda>tc. tc_call_id tc = cid) (tool_calls t)")
    case True
    then obtain tc where "tc \<in> set (tool_calls t)" "tc_call_id tc = cid" "find (\<lambda>tc. tc_call_id tc = cid) (tool_calls t) = Some tc"
      using find_present by fastforce
    then show ?thesis using assms True by (auto simp: backfill_def stub_result_def start_turn_call_def Let_def)
  next
    case False
    then show ?thesis
      using find_absent [OF False, of "[]"] find_absent [OF False]
      by (auto simp: backfill_def stub_result_def start_turn_call_def Let_def)
  qed
  moreover have "tr_call_id (stub_result d cid data t) = cid" for d by (simp add: stub_result_def)
  ultimately show ?thesis
    using False by (simp add: chunk_turn_call_def start_turn_call_def upd_first_absent)
qed

text \<open>The start of a call and a chunk of its output can come in either order, when the call is new to the view.\<close>

lemma start_and_chunk_commute:
  assumes "bt_wf (view_turns v)" and "map_of (tool_call_descriptions v) cid = None"
    and "\<And>i t tc. map_of (view_turns v) i = Some t \<Longrightarrow> tc \<in> set (tool_calls t) \<Longrightarrow> tc_call_id tc = cid \<Longrightarrow> tc_name tc \<noteq> []"
  shows "tool_result_chunk r cid data (tool_call_started r cid name args desc v)
    = tool_call_started r cid name args desc (tool_result_chunk r cid data v)"
proof (cases "map_of (request_to_turn v) r")
  case None
  then show ?thesis by (simp add: tool_call_started_def tool_result_chunk_def on_request_turn_def Let_def)
next
  case (Some i)
  have chunk: "tool_result_chunk r cid data w = w\<lparr>view_turns := map_at i (chunk_turn_call (map_of (tool_call_descriptions w) cid) cid data) (view_turns w)\<rparr>"
    if "map_of (request_to_turn w) r = Some i" for w
    using that by (simp add: tool_result_chunk_def on_request_turn_def chunk_turn_call_def [abs_def] Let_def)
  show ?thesis
  proof (cases "map_of (view_turns v) i")
    case None
    then show ?thesis using Some chunk by (simp add: tool_call_started_def)
  next
    case (Some t)
    have "map_at i (chunk_turn_call (if desc \<noteq> [] then Some desc else None) cid data \<circ> start_turn_call cid name args desc) (view_turns v)
        = map_at i (start_turn_call cid name args desc \<circ> chunk_turn_call None cid data) (view_turns v)"
      using start_chunk_turn assms(3) by (intro map_at_cong_lookup [OF assms(1)]) simp
    moreover have "tool_call_started r cid name args desc w = w\<lparr>view_turns := map_at i (start_turn_call cid name args desc) (view_turns w),
        tool_call_descriptions := (if desc \<noteq> [] then AList.update cid desc (tool_call_descriptions w) else tool_call_descriptions w)\<rparr>"
      if "map_of (request_to_turn w) r = Some i" "map_of (view_turns w) i \<noteq> None" for w
      using that by (auto simp: tool_call_started_def on_request_turn_def start_turn_call_def [abs_def] Let_def)
    ultimately show ?thesis
      using \<open>map_of (request_to_turn v) r = Some i\<close> Some chunk assms(2) by (auto simp: map_at_twice update_conv')
  qed
qed

end
