(* ===== verification/Spec2Isabelle.thy ===== *)
theory Spec2Isabelle
  imports Lag_Accounting Session_Theorems Daemon_Theorems Tool_Answers Migration Keystore_Types Wire_Theorems Attachment
    Server_Theorems Request_Payloads Client_View
begin

text \<open>
  Verification of the daemon of \<^verbatim>\<open>choreographr\<close>, a host for conversations with language models.

  \<^bold>\<open>The program.\<close> A daemon process owns sessions. Each session has a thread that keeps the turns of one
  conversation and its settings, and answers commands; a request to the model runs in a worker thread
  on a copy of the session, which alternates between calls of the provider and tool executions and
  merges its copy back when it ends. Clients connect over sockets; each has a queue that a writer
  thread drains, and the daemon fans events out to these queues under a byte budget. A command loop
  creates, finds and deletes sessions and keeps the index of sessions; a database holds records and
  turns. The crates modelled are \<^verbatim>\<open>choreo-daemon\<close> (the core of it), \<^verbatim>\<open>choreo-proto\<close>, \<^verbatim>\<open>choreo-transport\<close> and
  \<^verbatim>\<open>choreo-sanitize\<close>, and of \<^verbatim>\<open>choreo-ai-protocols\<close> the way from the bytes of a provider's answer to the turn it means.

  \<^bold>\<open>The theories.\<close>

  \<^item> \<open>Prelude\<close>, \<open>Text\<close>: integers at their width, \<^verbatim>\<open>HashMap\<close> and \<^verbatim>\<open>BTreeMap\<close> as association lists with
    the locale \<open>keyed_store\<close> both interpret, systems that move by steps (\<open>stepping_system\<close>); lossy
    UTF-8 decoding, trimming, decimal formatting.
  \<^item> \<open>Proto\<close>: the turns, events and messages of \<^verbatim>\<open>choreo-proto/src/types.rs\<close> and the size estimates of
    \<^verbatim>\<open>size.rs\<close>.
  \<^item> \<open>Broadcast\<close>, \<open>Lag_Accounting\<close>: \<^verbatim>\<open>broadcast.rs\<close> and the writer of \<^verbatim>\<open>server/connection.rs\<close>. The
    queues and byte counters, once as functions of one thread and once as atomic steps of
    producers and writers that interleave. Shown: exact delivery of a fan-out, bounded backlog, order,
    and that the counters equal the queues whenever no send or write is under way.
  \<^item> \<open>Session_State\<close>, \<open>Commands\<close>, \<open>Session_Thread\<close>, \<open>Session_Loop\<close>: \<^verbatim>\<open>sessions.rs\<close>, the state as a record, one
    definition per handler, the loop and the start of the thread.
    \<open>Session_Frame\<close>, \<open>Session_Safety\<close>, \<open>Session_Requests\<close>, \<open>Session_Theorems\<close>: what handlers leave alone
    (locale \<open>effect_relation\<close>), the thread with its workers as a step system, and the properties:
    at most one request, turn numbering and announced turn ids, undo and redo, merging, what
    clients may see, shutdown.
  \<^item> \<open>Storage\<close>: the retry loops and single attempts of \<^verbatim>\<open>db/mod.rs\<close> over what can be read back.
    \<open>Turn_Store\<close>: the tables below it, with the split of image bytes and range scans, and the
    refinement to \<open>Storage\<close>. \<open>Session_Kv\<close>: the key-value, credential, catalog and keystore tables. \<open>Migration\<close>: opening, backing up and upgrading the file.
  \<^item> \<open>Daemon_State\<close>, \<open>Daemon_Sessions\<close>: \<^verbatim>\<open>daemon.rs\<close> and \<^verbatim>\<open>daemon/subscriber_handlers.rs\<close>, the command loop.
    \<open>Daemon_Fanout\<close>, \<open>Daemon_Lifecycle\<close>, \<open>Daemon_System\<close>, \<open>Daemon_Theorems\<close>: delivery over two buses
    exactly once, the process with session threads, finalizers and crashes as a step system, and its
    properties: an index that mirrors the database, permanent deletions, recovery.
  \<^item> \<open>Retry\<close>: \<^verbatim>\<open>choreo-ai-protocols/src/retry.rs\<close>, when a failed provider request is tried again.
    \<open>Accounts\<close>: \<^verbatim>\<open>accounts/mod.rs\<close>, the inference accounts and their file. \<open>Keystore\<close>: the keystore, account
    and ACL commands of \<^verbatim>\<open>daemon.rs\<close> and \<^verbatim>\<open>server/acl.rs\<close>, over a state that extends the daemon state.
    \<open>Keystore_Theorems\<close>, \<open>Keystore_Accounts\<close>, \<open>Keystore_Types\<close>: runs of all commands of the loop, with
    faults and with edits of the files; the binding is permanent, credentials survive, the acting client is
    answered first, reloads, and the typing of the state.
  \<^item> \<open>Wire\<close>, \<open>Wire_Theorems\<close>: the frames of \<^verbatim>\<open>choreo-proto\<close> and the encrypted fragments of
    \<^verbatim>\<open>choreo-transport/src/noise.rs\<close>, both instances of the locale \<open>message_channel\<close>: what was sent arrives, and
    from an authenticated stream nothing else does.
  \<^item> \<open>Handshake\<close>: \<^verbatim>\<open>choreo-transport/src/handshake.rs\<close>, the responders and their deadlines. \<open>Connection\<close>: the reading side of
    \<^verbatim>\<open>server/connection.rs\<close>, one definition per handler, over both transports. \<open>Connection_Theorems\<close> (locale
    \<open>message_reader\<close>), \<open>Attachment\<close>: what a peer can reach, one session at a time, attaching end to end.
    \<open>Server\<close>, \<open>Server_Theorems\<close>: \<^verbatim>\<open>server/lifecycle.rs\<close> as a step system; the cap on connections and the order
    of shutdown, carried through the command loop.
  \<^item> \<open>Client_View\<close>: \<^verbatim>\<open>choreo-client-core/src/history.rs\<close> and \<^verbatim>\<open>dispatch.rs\<close> with the handlers of the terminal client that change the
    view; the client's picture follows the session, and live tool output is the recorded output.
  \<^item> \<open>Sse\<close>, \<open>Sse_Theorems\<close>: the three readers of server-sent events in \<^verbatim>\<open>choreo-ai-protocols\<close> (\<^verbatim>\<open>openai/sse.rs\<close>,
    \<^verbatim>\<open>anthropic/requests.rs\<close>, \<^verbatim>\<open>google/requests.rs\<close>), one loop over a line protocol; the locale \<open>line_protocol\<close> is
    interpreted for each: reads do not matter, and printed events come back. \<open>Sse_Stream\<close>: \<^verbatim>\<open>stream.rs\<close>, the reader
    thread, its bounded channel and the consumer with cancellation and deadline as a step system.
    \<open>Responses\<close>, \<open>Responses_Theorems\<close>, \<open>Chat_Stream\<close>, \<open>Messages_Stream\<close>, \<open>Gemini_Stream\<close>: the turns of the four
    protocols, streamed and plain: what a streamed turn returns, and where it agrees with the plain turn for the
    same answer. \<open>Request_Payloads\<close>: the messages of the daemon's request in the format of each protocol; the locale
    \<open>message_wire\<close> carries the tool protocol of \<open>Passback\<close> to the wire, and captured reasoning comes back.
  \<^item> \<open>Sanitize\<close>: \<^verbatim>\<open>choreo-sanitize\<close>, \<^verbatim>\<open>tools/sanitize.rs\<close> and \<^verbatim>\<open>tools/shell_util.rs\<close>.
  \<^item> \<open>Passback\<close>, \<open>Tool_Execution\<close>, \<open>Agent_Loop\<close>: \<^verbatim>\<open>reasoning.rs\<close>, \<^verbatim>\<open>requests/\<close> and \<^verbatim>\<open>requests.rs\<close>, the request
    builder, the wait for tools, and \<^verbatim>\<open>run_agent_loop\<close>. \<open>Agent_Steps\<close> (locales \<open>send_steps\<close>,
    \<open>tool_steps\<close>, \<open>answer_steps\<close>, \<open>agent_steps\<close>) carries a relation between states through the whole
    loop; \<open>Agent_Theorems\<close> and \<open>Tool_Answers\<close> interpret them: a run of the loop is a run of a
    worker of the session system, every request obeys the tool protocol, every call is answered
    in call order, failures are recorded.

  \<^bold>\<open>Conventions.\<close> Effects are state passing; a thread that runs beside others is a step relation, and the
  order of events between threads is left to the environment. What the environment decides is an
  argument: outcomes of database and disk accesses as lists of faults, the iteration order of hash
  maps as the order of association lists, times, provider answers and tool outcomes as scripts.
  Libraries are fields of parameter records (\<open>codec\<close>, \<open>agent_ctx\<close>, \<open>vault_lib\<close>, \<open>msgpack\<close>, \<open>noise\<close>, \<open>snow\<close>, \<open>json_lib\<close>,
  \<open>anthropic_lib\<close>, \<open>gemini_lib\<close>, \<open>payload_lib\<close>). A HashMap lookup of an absent
  key, a closed channel, a failed write are branches of the definitions.

  \<^bold>\<open>Fuel.\<close> Only \<open>agent_loop\<close> takes fuel, since without an iteration limit the loop of the source
  runs as long as the model asks for tools. With a limit, \<open>limited_loop_ends\<close> shows that one unit more
  than the limit is enough and that more fuel changes nothing. All other recursions end by a measure.

  \<^bold>\<open>Not modelled.\<close> The clients (terminal, graphical, ACP, messaging) but for their view of a session, the tool definitions, model lists and HTTP
  calls of the provider protocols, the individual tools, image and markdown rendering, TLS and cryptography, and the generated blockchain
  code: they are user interface, I/O, or calls into libraries the sources only use. Of the daemon:
  the catalog refresh, configuration watching and metrics.
\<close>

end
